(* ===== verification/Delta_Prelude.thy ===== *)
theory Delta_Prelude
  imports Main "HOL-Library.Word" "HOL-Library.Sublist" "HOL-Library.AList"
begin

text \<open>
  Shared vocabulary of the development.  Go strings and byte slices are both lists of
  bytes and are modelled by \<open>string\<close>, the lists of the 8-bit type \<open>char\<close>.  An instant of
  \<open>time.Time\<close> is the number of nanoseconds since Go's zero time, so \<open>IsZero\<close> is equality
  with 0.  Go's \<open>int\<close>, \<open>int64\<close> and \<open>time.Duration\<close> are 64-bit two's complement values; they
  are represented by \<open>int\<close> and every operation that can leave the range is wrapped by
  \<open>i64\<close>.  The functions of the standard library's packages strings, strconv, encoding/hex
  and path/filepath that the program calls are defined here, with the lemmas the
  components share.
\<close>

type_synonym bytes = string
type_synonym gotime = int
type_synonym duration = int

named_theorems inv_intros \<open>preservation lemmas of component invariants\<close>
named_theorems go_defs \<open>definitions of operations that proofs unfold\<close>

section \<open>64-bit integers\<close>

definition i64 :: "int \<Rightarrow> int" where
  "i64 x = (x + 2 ^ 63) mod 2 ^ 64 - 2 ^ 63"

definition is_i64 :: "int \<Rightarrow> bool" where
  "is_i64 x \<longleftrightarrow> - (2 ^ 63) \<le> x \<and> x < 2 ^ 63"

abbreviation second :: duration where "second \<equiv> 1000000000"
abbreviation minute :: duration where "minute \<equiv> 60 * second"
abbreviation hour :: duration where "hour \<equiv> 60 * minute"

lemma i64_range [simp]: "is_i64 (i64 x)"
  by (simp add: i64_def is_i64_def)

lemma i64_id [simp]: "is_i64 x \<Longrightarrow> i64 x = x"
  by (simp add: i64_def is_i64_def)

lemma i64_is_word64: "i64 x = sint (word_of_int x :: 64 word)"
  by (simp add: i64_def sint_sbintrunc' signed_take_bit_eq_take_bit_shift take_bit_eq_mod)

section \<open>Package strings\<close>

definition HasPrefix :: "string \<Rightarrow> string \<Rightarrow> bool" where
  "HasPrefix s p \<longleftrightarrow> take (length p) s = p"

definition HasSuffix :: "string \<Rightarrow> string \<Rightarrow> bool" where
  "HasSuffix s p \<longleftrightarrow> length p \<le> length s \<and> drop (length s - length p) s = p"

definition TrimPrefix :: "string \<Rightarrow> string \<Rightarrow> string" where
  "TrimPrefix s p = (if HasPrefix s p then drop (length p) s else s)"

fun Contains :: "string \<Rightarrow> string \<Rightarrow> bool" where
  "Contains [] t = (t = [])"
| "Contains (c # s) t = (HasPrefix (c # s) t \<or> Contains s t)"

definition ContainsAny :: "string \<Rightarrow> string \<Rightarrow> bool" where
  "ContainsAny s cs = list_ex (\<lambda>c. c \<in> set cs) s"

text \<open>\<open>strings.Index(s, "x")\<close> for a one-byte pattern: None stands for the result -1.\<close>

fun IndexByte :: "string \<Rightarrow> char \<Rightarrow> nat option" where
  "IndexByte [] x = None"
| "IndexByte (c # s) x = (if c = x then Some 0 else map_option Suc (IndexByte s x))"

text \<open>The two-character set of path separators used by every traversal guard, and the dot pair.\<close>

abbreviation path_seps :: string where "path_seps \<equiv> [CHR 0x2F, CHR 0x5C]"

lemma HasPrefix_iff: "HasPrefix s p \<longleftrightarrow> prefix p s"
proof
  assume "HasPrefix s p"
  then have "s = p @ drop (length p) s"
    unfolding HasPrefix_def by (metis append_take_drop_id)
  then show "prefix p s" by (rule prefixI)
qed (auto simp: HasPrefix_def prefix_def)

lemma HasPrefix_append [simp]: "HasPrefix (p @ s) p"
  by (simp add: HasPrefix_iff)

lemma TrimPrefix_append [simp]: "TrimPrefix (p @ s) p = s"
  by (simp add: TrimPrefix_def)

lemma HasSuffix_iff: "HasSuffix s p \<longleftrightarrow> suffix p s"
proof
  assume "HasSuffix s p"
  then show "suffix p s"
    unfolding HasSuffix_def by (metis suffix_drop)
qed (auto simp: HasSuffix_def suffix_def)

lemma HasSuffix_append [simp]: "HasSuffix (s @ p) p"
  by (simp add: HasSuffix_iff suffix_def)

lemma Contains_iff_sublist: "Contains s t \<longleftrightarrow> sublist t s"
  by (induction s) (auto simp: HasPrefix_iff sublist_Cons_right)

lemma ContainsAny_iff: "ContainsAny s cs \<longleftrightarrow> set s \<inter> set cs \<noteq> {}"
  by (auto simp: ContainsAny_def list_ex_iff)

lemma IndexByte_append:
  "x \<notin> set s \<Longrightarrow> IndexByte (s @ x # t) x = Some (length s)"
  by (induction s) auto

lemma IndexByte_None: "IndexByte s x = None \<longleftrightarrow> x \<notin> set s"
  by (induction s) auto

text \<open>
  Two names joined by a separator that occurs in neither left part can be taken apart again.
\<close>

lemma separator_inject:
  fixes x :: char
  assumes "x \<notin> set a" and "x \<notin> set b"
  shows "a @ x # s = b @ x # t \<longleftrightarrow> a = b \<and> s = t"
proof
  assume eq: "a @ x # s = b @ x # t"
  have "Some (length a) = IndexByte (a @ x # s) x"
    using assms(1) by (simp add: IndexByte_append)
  also have "\<dots> = Some (length b)"
    unfolding eq using assms(2) by (simp add: IndexByte_append)
  finally have "length a = length b" by simp
  with eq show "a = b \<and> s = t" by simp
qed simp

section \<open>Packages strconv and encoding/hex\<close>

definition dec_digit :: "nat \<Rightarrow> char" where
  "dec_digit d = char_of (48 + d)"

fun dec_of_nat :: "nat \<Rightarrow> string" where
  "dec_of_nat n = (if n < 10 then [dec_digit n] else dec_of_nat (n div 10) @ [dec_digit (n mod 10)])"

declare dec_of_nat.simps [simp del]

definition Itoa :: "int \<Rightarrow> string" where
  "Itoa n = (if n < 0 then CHR ''-'' # dec_of_nat (nat (- n)) else dec_of_nat (nat n))"

datatype num_error = ErrSyntax | ErrRange

text \<open>
  The digit loop of \<open>strconv.ParseUint\<close> in base 10 with 64 bits: a character that is no digit
  is a syntax error, and an accumulator about to overflow stops the scan with a range error and
  the largest value.
\<close>

fun ParseUint_loop :: "nat \<Rightarrow> string \<Rightarrow> nat \<times> num_error option" where
  "ParseUint_loop n [] = (n, None)"
| "ParseUint_loop n (c # cs) =
     (let d = (of_char c :: nat) in
      if d < 48 \<or> 57 < d then (0, Some ErrSyntax)
      else if 1844674407370955162 \<le> n then (2 ^ 64 - 1, Some ErrRange)
      else if 2 ^ 64 - 1 < 10 * n + (d - 48) then (2 ^ 64 - 1, Some ErrRange)
      else ParseUint_loop (10 * n + (d - 48)) cs)"

definition Atoi :: "string \<Rightarrow> int \<times> num_error option" where
  "Atoi s =
     (let (neg, ds) = (case s of [] \<Rightarrow> (False, [])
                       | c # cs \<Rightarrow> if c = CHR ''+'' then (False, cs)
                                   else if c = CHR ''-'' then (True, cs) else (False, s)) in
      if ds = [] then (0, Some ErrSyntax)
      else case ParseUint_loop 0 ds of
             (un, Some ErrSyntax) \<Rightarrow> (0, Some ErrSyntax)
           | (un, e) \<Rightarrow>
               if \<not> neg \<and> 2 ^ 63 \<le> un then (2 ^ 63 - 1, Some ErrRange)
               else if neg \<and> 2 ^ 63 < un then (- (2 ^ 63), Some ErrRange)
               else ((if neg then - int un else int un), e))"

definition hex_digit :: "nat \<Rightarrow> char" where
  "hex_digit d = (if d < 10 then char_of (48 + d) else char_of (87 + d))"

definition hex_EncodeToString :: "bytes \<Rightarrow> string" where
  "hex_EncodeToString bs =
     concat (map (\<lambda>c. [hex_digit (of_char c div 16), hex_digit (of_char c mod 16)]) bs)"

subsection \<open>Decimal numbers read back\<close>

lemma of_char_dec_digit [simp]: "d < 10 \<Longrightarrow> (of_char (dec_digit d) :: nat) = 48 + d"
  by (simp add: dec_digit_def)

lemma dec_of_nat_nonempty [simp]: "dec_of_nat n \<noteq> []"
  by (subst dec_of_nat.simps) simp

lemma dec_of_nat_digits: "c \<in> set (dec_of_nat n) \<Longrightarrow> \<exists>d < 10. c = dec_digit d"
proof (induction n rule: dec_of_nat.induct)
  case (1 n)
  show ?case
  proof (cases "n < 10")
    case True
    with "1.prems" show ?thesis by (subst (asm) dec_of_nat.simps) auto
  next
    case False
    have "c \<in> set (dec_of_nat (n div 10)) \<or> c = dec_digit (n mod 10)"
      using "1.prems" False by (subst (asm) dec_of_nat.simps) auto
    then show ?thesis
    proof
      assume "c \<in> set (dec_of_nat (n div 10))"
      with False show ?thesis by (rule "1.IH")
    next
      assume "c = dec_digit (n mod 10)"
      then show ?thesis by (intro exI [of _ "n mod 10"]) simp
    qed
  qed
qed

lemma ParseUint_loop_append:
  "ParseUint_loop m (xs @ ys) =
     (case ParseUint_loop m xs of (n, None) \<Rightarrow> ParseUint_loop n ys | r \<Rightarrow> r)"
  by (induction m xs rule: ParseUint_loop.induct) (auto simp: Let_def)

lemma ParseUint_loop_dec: "n < 2 ^ 64 \<Longrightarrow> ParseUint_loop 0 (dec_of_nat n) = (n, None)"
proof (induction n rule: dec_of_nat.induct)
  case (1 n)
  show ?case
  proof (cases "n < 10")
    case True
    then show ?thesis by (subst dec_of_nat.simps) (simp add: Let_def)
  next
    case False
    with "1.IH" "1.prems" have "ParseUint_loop 0 (dec_of_nat (n div 10)) = (n div 10, None)"
      by simp
    moreover have "n div 10 < 1844674407370955162" and "n mod 10 < 10"
      using "1.prems" by auto
    ultimately show ?thesis
      using False "1.prems" by (subst dec_of_nat.simps) (simp add: ParseUint_loop_append Let_def)
  qed
qed

lemma dec_of_nat_no_sign: "dec_of_nat n = c # cs \<Longrightarrow> c \<noteq> CHR ''+'' \<and> c \<noteq> CHR ''-''"
proof -
  assume "dec_of_nat n = c # cs"
  then obtain d where "d < 10" and c: "c = dec_digit d"
    using dec_of_nat_digits [of c n] by auto
  then have "(of_char c :: nat) \<ge> 48" by simp
  then show ?thesis by auto
qed

text \<open>Reading back a printed number gives the number, for every value of Go's \<open>int\<close>.\<close>

lemma Atoi_Itoa [simp]:
  assumes "is_i64 n"
  shows "Atoi (Itoa n) = (n, None)"
proof (cases "n < 0")
  case True
  with assms have "nat (- n) < 2 ^ 64" and "nat (- n) \<le> 2 ^ 63"
    by (auto simp: is_i64_def)
  with True show ?thesis
    by (simp add: Atoi_def Itoa_def ParseUint_loop_dec)
next
  case False
  obtain c cs where ds: "dec_of_nat (nat n) = c # cs"
    by (cases "dec_of_nat (nat n)") auto
  from False assms have "nat n < 2 ^ 64" and lt: "nat n < 2 ^ 63"
    by (auto simp: is_i64_def)
  then have "ParseUint_loop 0 (c # cs) = (nat n, None)"
    using ParseUint_loop_dec ds by metis
  with False lt dec_of_nat_no_sign [OF ds] show ?thesis
    by (simp add: Atoi_def Itoa_def ds del: ParseUint_loop.simps)
qed

lemma Itoa_inject: "is_i64 m \<Longrightarrow> is_i64 n \<Longrightarrow> Itoa m = Itoa n \<longleftrightarrow> m = n"
  by (metis Atoi_Itoa fst_conv)

subsection \<open>Hexadecimal text\<close>

lemma hex_digit_inject: "a < 16 \<Longrightarrow> b < 16 \<Longrightarrow> hex_digit a = hex_digit b \<longleftrightarrow> a = b"
proof -
  have *: "(of_char (hex_digit d) :: nat) = (if d < 10 then 48 + d else 87 + d)" if "d < 16" for d
    using that by (simp add: hex_digit_def)
  assume lt: "a < 16" "b < 16"
  show ?thesis
  proof
    assume "hex_digit a = hex_digit b"
    then have "(of_char (hex_digit a) :: nat) = of_char (hex_digit b)" by simp
    then show "a = b" unfolding * [OF lt(1)] * [OF lt(2)] by (simp split: if_splits)
  qed simp
qed

lemma hex_EncodeToString_Cons:
  "hex_EncodeToString (c # bs) =
     hex_digit (of_char c div 16) # hex_digit (of_char c mod 16) # hex_EncodeToString bs"
  by (simp add: hex_EncodeToString_def)

lemma length_hex_EncodeToString [simp]:
  "length (hex_EncodeToString bs) = 2 * length bs"
  by (induction bs) (simp_all add: hex_EncodeToString_def)

lemma hex_byte_inject:
  "of_char c div (16::nat) = of_char d div 16 \<and> of_char c mod (16::nat) = of_char d mod 16
     \<longleftrightarrow> c = d"
proof
  assume *: "of_char c div (16::nat) = of_char d div 16 \<and> of_char c mod (16::nat) = of_char d mod 16"
  have "(of_char c :: nat) = 16 * (of_char c div 16) + of_char c mod 16"
    by simp
  also have "\<dots> = 16 * (of_char d div 16) + of_char d mod 16"
    using * by simp
  also have "\<dots> = of_char d"
    by simp
  finally show "c = d" by simp
qed simp

lemma of_char_div16 [simp]: "of_char c div (16::nat) < 16"
  by (rule less_mult_imp_div_less) simp

lemma hex_inject [simp]: "hex_EncodeToString a = hex_EncodeToString b \<longleftrightarrow> a = b"
proof (induction a arbitrary: b)
  case Nil
  show ?case by (cases b) (simp_all add: hex_EncodeToString_def)
next
  case (Cons c a)
  show ?case
  proof (cases b)
    case Nil
    then show ?thesis by (simp add: hex_EncodeToString_def)
  next
    case (Cons d b')
    have "(hex_digit (of_char c div 16) = hex_digit (of_char d div 16)
        \<and> hex_digit (of_char c mod 16) = hex_digit (of_char d mod 16)) \<longleftrightarrow> c = d"
      unfolding hex_byte_inject [of c d, symmetric] by (simp add: hex_digit_inject)
    then show ?thesis
      by (simp add: Cons hex_EncodeToString_Cons Cons.IH) blast
  qed
qed

end
