(* ===== verification/Lru_Cache.thy ===== *)
theory Lru_Cache
  imports Complex_Main Delta_Prelude
begin

text \<open>
  The in-memory cache of pkg/cache/lru.go.  The cache wraps the LRU container of the package
  hashicorp/golang-lru, which is not part of the repository: its operations are the fields of a
  record \<open>lru_ops\<close> that every definition takes as an argument, and the locale \<open>lru_spec\<close> states
  what its documentation promises, on the list of the container's pairs from the least to the
  most recently used.  The container stores pointers to \<open>CacheEntry\<close> objects that \<open>Get\<close> and
  \<open>UpdateVersion\<close> change in place, so the cache carries an explicit heap of entries.  Each
  operation runs under the cache's mutex and is one function here; the clock reading it makes is
  its argument \<open>now\<close>.
\<close>

section \<open>The LRU container\<close>

type_synonym addr = nat

record 'l lru_ops =
  lru_New :: "int \<Rightarrow> 'l option"
  lru_Get :: "'l \<Rightarrow> string \<Rightarrow> 'l \<times> addr option"
  lru_Peek :: "'l \<Rightarrow> string \<Rightarrow> addr option"
  lru_Add :: "'l \<Rightarrow> string \<Rightarrow> addr \<Rightarrow> 'l"
  lru_Remove :: "'l \<Rightarrow> string \<Rightarrow> 'l \<times> bool"
  lru_Contains :: "'l \<Rightarrow> string \<Rightarrow> bool"
  lru_Len :: "'l \<Rightarrow> int"
  lru_Keys :: "'l \<Rightarrow> string list"
  lru_Purge :: "'l \<Rightarrow> 'l"
  lru_Resize :: "'l \<Rightarrow> int \<Rightarrow> 'l"

definition drop_key :: "'k \<Rightarrow> ('k \<times> 'v) list \<Rightarrow> ('k \<times> 'v) list" where
  "drop_key k xs = filter (\<lambda>p. fst p \<noteq> k) xs"

definition touch_key :: "'k \<Rightarrow> ('k \<times> 'v) list \<Rightarrow> ('k \<times> 'v) list" where
  "touch_key k xs = (case map_of xs k of None \<Rightarrow> xs | Some v \<Rightarrow> drop_key k xs @ [(k, v)])"

definition insert_key :: "int \<Rightarrow> 'k \<Rightarrow> 'v \<Rightarrow> ('k \<times> 'v) list \<Rightarrow> ('k \<times> 'v) list" where
  "insert_key n k v xs =
     (if k \<in> fst ` set xs then drop_key k xs @ [(k, v)]
      else if int (length xs) < n then xs @ [(k, v)] else tl xs @ [(k, v)])"

definition keep_newest :: "int \<Rightarrow> 'a list \<Rightarrow> 'a list" where
  "keep_newest n xs = drop (length xs - nat n) xs"

locale lru_spec =
  fixes L :: "'l lru_ops"
    and items :: "'l \<Rightarrow> (string \<times> addr) list"
    and cap :: "'l \<Rightarrow> int"
    and ok :: "'l \<Rightarrow> bool"
  assumes new_ok: "0 < n \<Longrightarrow> \<exists>l. lru_New L n = Some l \<and> ok l \<and> items l = [] \<and> cap l = n"
    and new_err: "n \<le> 0 \<Longrightarrow> lru_New L n = None"
    and keys_distinct: "ok l \<Longrightarrow> distinct (map fst (items l))"
    and size_bound: "ok l \<Longrightarrow> int (length (items l)) \<le> cap l"
    and cap_pos: "ok l \<Longrightarrow> 0 < cap l"
    and get_val: "ok l \<Longrightarrow> snd (lru_Get L l k) = map_of (items l) k"
    and get_items: "ok l \<Longrightarrow> items (fst (lru_Get L l k)) = touch_key k (items l)"
    and get_ok: "ok l \<Longrightarrow> ok (fst (lru_Get L l k)) \<and> cap (fst (lru_Get L l k)) = cap l"
    and peek_val: "ok l \<Longrightarrow> lru_Peek L l k = map_of (items l) k"
    and add_items: "ok l \<Longrightarrow> items (lru_Add L l k p) = insert_key (cap l) k p (items l)"
    and add_ok: "ok l \<Longrightarrow> ok (lru_Add L l k p) \<and> cap (lru_Add L l k p) = cap l"
    and remove_val: "ok l \<Longrightarrow> snd (lru_Remove L l k) \<longleftrightarrow> k \<in> fst ` set (items l)"
    and remove_items: "ok l \<Longrightarrow> items (fst (lru_Remove L l k)) = drop_key k (items l)"
    and remove_ok: "ok l \<Longrightarrow> ok (fst (lru_Remove L l k)) \<and> cap (fst (lru_Remove L l k)) = cap l"
    and contains_val: "ok l \<Longrightarrow> lru_Contains L l k \<longleftrightarrow> k \<in> fst ` set (items l)"
    and len_val: "ok l \<Longrightarrow> lru_Len L l = int (length (items l))"
    and keys_val: "ok l \<Longrightarrow> lru_Keys L l = map fst (items l)"
    and purge_items: "ok l \<Longrightarrow> items (lru_Purge L l) = []"
    and purge_ok: "ok l \<Longrightarrow> ok (lru_Purge L l) \<and> cap (lru_Purge L l) = cap l"
    and resize_items: "ok l \<Longrightarrow> 0 < n \<Longrightarrow> items (lru_Resize L l n) = keep_newest n (items l)"
    and resize_ok: "ok l \<Longrightarrow> 0 < n \<Longrightarrow> ok (lru_Resize L l n) \<and> cap (lru_Resize L l n) = n"

subsection \<open>Lists of pairs with distinct keys\<close>

lemma drop_key_simps [simp]:
  "drop_key k [] = []"
  "drop_key k ((k', v) # xs) = (if k' = k then drop_key k xs else (k', v) # drop_key k xs)"
  "drop_key k (xs @ ys) = drop_key k xs @ drop_key k ys"
  by (simp_all add: drop_key_def)

lemma drop_key_map: "drop_key k (map (\<lambda>(k, v). (k, f v)) xs) = map (\<lambda>(k, v). (k, f v)) (drop_key k xs)"
  by (induction xs) auto

lemma drop_key_id [simp]: "k \<notin> fst ` set xs \<Longrightarrow> drop_key k xs = xs"
  by (auto simp: drop_key_def filter_id_conv)

lemma set_drop_key: "set (drop_key k xs) = {p \<in> set xs. fst p \<noteq> k}"
  by (auto simp: drop_key_def)

lemma keys_drop_key [simp]: "fst ` set (drop_key k xs) = fst ` set xs - {k}"
  by (auto simp: drop_key_def)

lemma distinct_drop_key: "distinct (map f xs) \<Longrightarrow> distinct (map f (drop_key k xs))"
  by (simp add: drop_key_def distinct_map_filter)

lemma length_drop_key: "length (drop_key k xs) \<le> length xs"
  by (simp add: drop_key_def)

lemma length_drop_key_mem:
  assumes "distinct (map fst xs)" and "k \<in> fst ` set xs"
  shows "Suc (length (drop_key k xs)) = length xs"
  using assms by (induction xs) (force split: if_splits)+

lemma map_of_drop_key [simp]: "map_of (drop_key k xs) = (map_of xs)(k := None)"
  by (induction xs) (auto simp: fun_eq_iff)

lemma map_of_snoc_drop_key [simp]:
  "map_of (drop_key k xs @ [(k, v)]) = (map_of xs)(k \<mapsto> v)"
  by (auto simp: fun_eq_iff map_add_def split: option.splits)

lemma map_of_touch_key [simp]: "map_of (touch_key k xs) = map_of xs"
  by (auto simp: touch_key_def fun_eq_iff map_add_def split: option.splits)

lemma in_keys_map_of: "k \<in> fst ` set xs \<longleftrightarrow> map_of xs k \<noteq> None"
  by (simp add: map_of_eq_None_iff)

section \<open>Entries, configuration and state\<close>

record CacheEntry =
  ce_Data :: bytes
  ce_Version :: string
  ce_Expiry :: gotime
  ce_CachedAt :: gotime
  ce_AccessCount :: int
  ce_LastAccessed :: gotime

definition IsExpired :: "gotime \<Rightarrow> CacheEntry \<Rightarrow> bool" where
  "IsExpired now e = (if ce_Expiry e = 0 then False else ce_Expiry e < now)"

record 'l Cache =
  c_cache :: 'l
  c_heap :: "addr \<Rightarrow> CacheEntry"
  c_fresh :: addr
  c_maxSize :: int
  c_defaultTTL :: duration
  c_cleanupInterval :: duration
  c_hits :: int
  c_misses :: int
  c_evicts :: int
  c_stopped :: bool

record CacheConfig =
  cfg_MaxSize :: int
  cfg_DefaultTTL :: duration
  cfg_CleanupInterval :: duration

datatype cache_error = MaxSizeNotPositive int | LruCreateFailed | NewSizeNotPositive int

definition zero_entry :: CacheEntry where
  "zero_entry = \<lparr>ce_Data = [], ce_Version = [], ce_Expiry = 0, ce_CachedAt = 0,
     ce_AccessCount = 0, ce_LastAccessed = 0\<rparr>"

definition NewCache :: "'l lru_ops \<Rightarrow> CacheConfig \<Rightarrow> cache_error + 'l Cache" where
  "NewCache L config =
     (if cfg_MaxSize config \<le> 0 then Inl (MaxSizeNotPositive (cfg_MaxSize config))
      else
        let ttl = (if cfg_DefaultTTL config < 0 then 5 * minute else cfg_DefaultTTL config);
            interval = (if cfg_CleanupInterval config \<le> 0 then 1 * minute
                        else cfg_CleanupInterval config)
        in case lru_New L (cfg_MaxSize config) of
             None \<Rightarrow> Inl LruCreateFailed
           | Some l \<Rightarrow> Inr \<lparr>c_cache = l, c_heap = (\<lambda>_. zero_entry), c_fresh = 0,
                 c_maxSize = cfg_MaxSize config, c_defaultTTL = ttl,
                 c_cleanupInterval = interval, c_hits = 0, c_misses = 0, c_evicts = 0,
                 c_stopped = False\<rparr>)"

section \<open>Operations\<close>

definition cache_Get :: "'l lru_ops \<Rightarrow> gotime \<Rightarrow> 'l Cache \<Rightarrow> string \<Rightarrow> 'l Cache \<times> addr option" where
  "cache_Get L now c key =
     (case lru_Get L (c_cache c) key of
        (l, None) \<Rightarrow> (c\<lparr>c_cache := l, c_misses := i64 (c_misses c + 1)\<rparr>, None)
      | (l, Some p) \<Rightarrow>
          let entry = c_heap c p in
          if IsExpired now entry then
            (c\<lparr>c_cache := fst (lru_Remove L l key), c_misses := i64 (c_misses c + 1)\<rparr>, None)
          else
            (c\<lparr>c_cache := l,
               c_heap := (c_heap c)(p := entry\<lparr>ce_AccessCount := i64 (ce_AccessCount entry + 1),
                                              ce_LastAccessed := now\<rparr>),
               c_hits := i64 (c_hits c + 1)\<rparr>, Some p))"

definition SetWithTTL ::
    "'l lru_ops \<Rightarrow> gotime \<Rightarrow> 'l Cache \<Rightarrow> string \<Rightarrow> bytes \<Rightarrow> string \<Rightarrow> duration \<Rightarrow> 'l Cache" where
  "SetWithTTL L now c key data version ttl =
     (let expiry = (if 0 < ttl then now + ttl else 0);
          entry = \<lparr>ce_Data = data, ce_Version = version, ce_Expiry = expiry, ce_CachedAt = now,
                   ce_AccessCount = 0, ce_LastAccessed = now\<rparr>;
          p = c_fresh c;
          evicts = (if c_maxSize c \<le> lru_Len L (c_cache c) then i64 (c_evicts c + 1)
                    else c_evicts c)
      in c\<lparr>c_heap := (c_heap c)(p := entry), c_fresh := Suc p, c_evicts := evicts,
           c_cache := lru_Add L (c_cache c) key p\<rparr>)"

definition cache_Set :: "'l lru_ops \<Rightarrow> gotime \<Rightarrow> 'l Cache \<Rightarrow> string \<Rightarrow> bytes \<Rightarrow> string \<Rightarrow> 'l Cache" where
  "cache_Set L now c key data version = SetWithTTL L now c key data version (c_defaultTTL c)"

definition cache_Evict :: "'l lru_ops \<Rightarrow> 'l Cache \<Rightarrow> string \<Rightarrow> 'l Cache \<times> bool" where
  "cache_Evict L c key =
     (case lru_Remove L (c_cache c) key of
        (l, removed) \<Rightarrow>
          (c\<lparr>c_cache := l, c_evicts := (if removed then i64 (c_evicts c + 1) else c_evicts c)\<rparr>,
           removed))"

definition cache_Clear :: "'l lru_ops \<Rightarrow> 'l Cache \<Rightarrow> 'l Cache" where
  "cache_Clear L c =
     c\<lparr>c_cache := lru_Purge L (c_cache c), c_hits := 0, c_misses := 0, c_evicts := 0\<rparr>"

definition cache_Contains :: "'l lru_ops \<Rightarrow> 'l Cache \<Rightarrow> string \<Rightarrow> bool" where
  "cache_Contains L c key = lru_Contains L (c_cache c) key"

definition cache_Len :: "'l lru_ops \<Rightarrow> 'l Cache \<Rightarrow> int" where
  "cache_Len L c = lru_Len L (c_cache c)"

definition cache_Keys :: "'l lru_ops \<Rightarrow> 'l Cache \<Rightarrow> string list" where
  "cache_Keys L c = lru_Keys L (c_cache c)"

text \<open>The hit rate is the exact quotient; the code rounds it to a float64.\<close>

record CacheStats =
  st_Hits :: int
  st_Misses :: int
  st_Evicts :: int
  st_Size :: int
  st_MaxSize :: int
  st_HitRate :: rat

definition cache_Stats :: "'l lru_ops \<Rightarrow> 'l Cache \<Rightarrow> CacheStats" where
  "cache_Stats L c =
     (let total = i64 (c_hits c + c_misses c);
          hitRate = (if 0 < total then of_int (c_hits c) / of_int total else 0)
      in \<lparr>st_Hits = c_hits c, st_Misses = c_misses c, st_Evicts = c_evicts c,
          st_Size = lru_Len L (c_cache c), st_MaxSize = c_maxSize c, st_HitRate = hitRate\<rparr>)"

definition cache_Close :: "'l Cache \<Rightarrow> 'l Cache" where
  "cache_Close c = c\<lparr>c_stopped := True\<rparr>"

text \<open>One iteration of the scan in \<open>removeExpiredEntries\<close>, and the scan over a snapshot of the keys.\<close>

definition expire_key :: "'l lru_ops \<Rightarrow> gotime \<Rightarrow> string \<Rightarrow> 'l Cache \<Rightarrow> 'l Cache" where
  "expire_key L now key c =
     (case lru_Peek L (c_cache c) key of
        None \<Rightarrow> c
      | Some p \<Rightarrow> if IsExpired now (c_heap c p)
                  then c\<lparr>c_cache := fst (lru_Remove L (c_cache c) key)\<rparr> else c)"

definition removeExpiredEntries :: "'l lru_ops \<Rightarrow> gotime \<Rightarrow> 'l Cache \<Rightarrow> 'l Cache" where
  "removeExpiredEntries L now c = fold (expire_key L now) (lru_Keys L (c_cache c)) c"

text \<open>
  The background goroutine waits for the ticker or for the stop channel; its run over a
  sequence of such events.
\<close>

datatype cleanup_event = Tick gotime | StopCleanup

fun cleanupExpired :: "'l lru_ops \<Rightarrow> cleanup_event list \<Rightarrow> 'l Cache \<Rightarrow> 'l Cache" where
  "cleanupExpired L [] c = c"
| "cleanupExpired L (Tick now # es) c = cleanupExpired L es (removeExpiredEntries L now c)"
| "cleanupExpired L (StopCleanup # es) c = c"

text \<open>
  \<open>GetOrSet\<close> calls \<open>Get\<close>, the loader, \<open>Set\<close> and \<open>Get\<close> again, each with its own clock reading.  The
  result None stands for the nil entry that the code returns when the second \<open>Get\<close> misses.
\<close>

definition GetOrSet ::
    "'l lru_ops \<Rightarrow> gotime \<times> gotime \<times> gotime \<Rightarrow> 'l Cache \<Rightarrow> string \<Rightarrow> 'e + (bytes \<times> string)
      \<Rightarrow> 'l Cache \<times> ('e + addr option)" where
  "GetOrSet L = (\<lambda>(t1, t2, t3) c key loaded.
     case cache_Get L t1 c key of
       (c1, Some p) \<Rightarrow> (c1, Inr (Some p))
     | (c1, None) \<Rightarrow>
         (case loaded of
            Inl err \<Rightarrow> (c1, Inl err)
          | Inr (data, version) \<Rightarrow>
              (case cache_Get L t3 (cache_Set L t2 c1 key data version) key of
                 (c3, entry) \<Rightarrow> (c3, Inr entry))))"

definition UpdateVersion :: "'l lru_ops \<Rightarrow> 'l Cache \<Rightarrow> string \<Rightarrow> string \<Rightarrow> 'l Cache \<times> bool" where
  "UpdateVersion L c key newVersion =
     (case lru_Peek L (c_cache c) key of
        None \<Rightarrow> (c, False)
      | Some p \<Rightarrow> (c\<lparr>c_heap := (c_heap c)(p := (c_heap c p)\<lparr>ce_Version := newVersion\<rparr>)\<rparr>, True))"

definition GetVersion :: "'l lru_ops \<Rightarrow> gotime \<Rightarrow> 'l Cache \<Rightarrow> string \<Rightarrow> string" where
  "GetVersion L now c key =
     (case lru_Peek L (c_cache c) key of
        None \<Rightarrow> []
      | Some p \<Rightarrow> if IsExpired now (c_heap c p) then [] else ce_Version (c_heap c p))"

definition cache_Resize :: "'l lru_ops \<Rightarrow> 'l Cache \<Rightarrow> int \<Rightarrow> cache_error + 'l Cache" where
  "cache_Resize L c newSize =
     (if newSize \<le> 0 then Inl (NewSizeNotPositive newSize)
      else Inr (c\<lparr>c_cache := lru_Resize L (c_cache c) newSize, c_maxSize := newSize\<rparr>))"

definition ResetStats :: "'l Cache \<Rightarrow> 'l Cache" where
  "ResetStats c = c\<lparr>c_hits := 0, c_misses := 0, c_evicts := 0\<rparr>"

section \<open>Abstract specification: a recency list of entries\<close>

text \<open>
  Seen from outside, the cache is a list of keys with their entries, from the least to the most
  recently used.  \<open>entries\<close> reads that list off the container and the heap; \<open>cache_inv\<close> says that
  the container is sound, that its pointers are allocated, and that no two keys share an entry.
\<close>

definition entries :: "('l \<Rightarrow> (string \<times> addr) list) \<Rightarrow> 'l Cache \<Rightarrow> (string \<times> CacheEntry) list" where
  "entries items c = map (\<lambda>(k, p). (k, c_heap c p)) (items (c_cache c))"

definition cache_inv ::
    "('l \<Rightarrow> (string \<times> addr) list) \<Rightarrow> ('l \<Rightarrow> int) \<Rightarrow> ('l \<Rightarrow> bool) \<Rightarrow> 'l Cache \<Rightarrow> bool" where
  "cache_inv items cap ok c \<longleftrightarrow>
     ok (c_cache c) \<and> cap (c_cache c) = c_maxSize c \<and>
     (\<forall>p \<in> snd ` set (items (c_cache c)). p < c_fresh c) \<and>
     distinct (map snd (items (c_cache c)))"

datatype cache_op =
    OpGet gotime string
  | OpSet gotime string bytes string
  | OpSetWithTTL gotime string bytes string duration
  | OpEvict string
  | OpClear
  | OpUpdateVersion string string
  | OpResize int
  | OpCleanup gotime
  | OpResetStats
  | OpClose

fun cache_step :: "'l lru_ops \<Rightarrow> cache_op \<Rightarrow> 'l Cache \<Rightarrow> 'l Cache" where
  "cache_step L (OpGet now k) c = fst (cache_Get L now c k)"
| "cache_step L (OpSet now k d v) c = cache_Set L now c k d v"
| "cache_step L (OpSetWithTTL now k d v ttl) c = SetWithTTL L now c k d v ttl"
| "cache_step L (OpEvict k) c = fst (cache_Evict L c k)"
| "cache_step L OpClear c = cache_Clear L c"
| "cache_step L (OpUpdateVersion k v) c = fst (UpdateVersion L c k v)"
| "cache_step L (OpResize n) c = (case cache_Resize L c n of Inl _ \<Rightarrow> c | Inr c' \<Rightarrow> c')"
| "cache_step L (OpCleanup now) c = removeExpiredEntries L now c"
| "cache_step L OpResetStats c = ResetStats c"
| "cache_step L OpClose c = cache_Close c"

definition fresh_entry :: "gotime \<Rightarrow> bytes \<Rightarrow> string \<Rightarrow> duration \<Rightarrow> CacheEntry" where
  "fresh_entry now d v ttl =
     \<lparr>ce_Data = d, ce_Version = v, ce_Expiry = (if 0 < ttl then now + ttl else 0),
      ce_CachedAt = now, ce_AccessCount = 0, ce_LastAccessed = now\<rparr>"

definition accessed :: "gotime \<Rightarrow> CacheEntry \<Rightarrow> CacheEntry" where
  "accessed now e = e\<lparr>ce_AccessCount := i64 (ce_AccessCount e + 1), ce_LastAccessed := now\<rparr>"

definition spec_get :: "gotime \<Rightarrow> string \<Rightarrow> (string \<times> CacheEntry) list \<Rightarrow> (string \<times> CacheEntry) list" where
  "spec_get now k xs =
     (case map_of xs k of
        None \<Rightarrow> xs
      | Some e \<Rightarrow> if IsExpired now e then drop_key k xs else drop_key k xs @ [(k, accessed now e)])"

definition spec_set_version :: "string \<Rightarrow> string \<Rightarrow> (string \<times> CacheEntry) list \<Rightarrow> (string \<times> CacheEntry) list" where
  "spec_set_version k v xs = map (\<lambda>(k', e). (k', if k' = k then e\<lparr>ce_Version := v\<rparr> else e)) xs"

text \<open>The specification's step on a capacity, a default TTL and a recency list.\<close>

fun spec_step ::
    "duration \<Rightarrow> cache_op \<Rightarrow> int \<times> (string \<times> CacheEntry) list \<Rightarrow> int \<times> (string \<times> CacheEntry) list" where
  "spec_step dttl (OpGet now k) (n, xs) = (n, spec_get now k xs)"
| "spec_step dttl (OpSet now k d v) (n, xs) = (n, insert_key n k (fresh_entry now d v dttl) xs)"
| "spec_step dttl (OpSetWithTTL now k d v ttl) (n, xs) = (n, insert_key n k (fresh_entry now d v ttl) xs)"
| "spec_step dttl (OpEvict k) (n, xs) = (n, drop_key k xs)"
| "spec_step dttl OpClear (n, xs) = (n, [])"
| "spec_step dttl (OpUpdateVersion k v) (n, xs) = (n, spec_set_version k v xs)"
| "spec_step dttl (OpResize m) (n, xs) = (if m \<le> 0 then (n, xs) else (m, keep_newest m xs))"
| "spec_step dttl (OpCleanup now) (n, xs) = (n, filter (\<lambda>(k, e). \<not> IsExpired now e) xs)"
| "spec_step dttl OpResetStats (n, xs) = (n, xs)"
| "spec_step dttl OpClose (n, xs) = (n, xs)"

subsection \<open>List lemmas of the specification\<close>

lemma insert_key_map:
  "insert_key n k (f v) (map (\<lambda>(k, v). (k, f v)) xs) = map (\<lambda>(k, v). (k, f v)) (insert_key n k v xs)"
  by (auto simp: insert_key_def drop_key_map map_tl image_image case_prod_beta)

lemma keep_newest_map: "keep_newest n (map f xs) = map f (keep_newest n xs)"
  by (simp add: keep_newest_def drop_map)

lemma map_of_map_snd: "map_of (map (\<lambda>(k, v). (k, f v)) xs) k = map_option f (map_of xs k)"
  by (induction xs) auto

lemma set_tl_subset: "set (tl xs) \<subseteq> set xs"
  by (cases xs) auto

lemma set_insert_key: "set (insert_key n k v xs) \<subseteq> insert (k, v) (set xs)"
  using set_tl_subset [of xs] by (auto simp: insert_key_def set_drop_key)

lemma set_touch_key: "set (touch_key k xs) \<subseteq> set xs"
  by (auto simp: touch_key_def set_drop_key dest: map_of_SomeD split: option.splits)

lemma distinct_snd_unique:
  assumes "distinct (map snd xs)" and "(a, v) \<in> set xs" and "(b, v) \<in> set xs"
  shows "a = b"
  using assms by (induction xs) (auto simp: image_iff)

lemma distinct_snd_touch_key:
  assumes "distinct (map snd xs)"
  shows "distinct (map snd (touch_key k xs))"
proof (cases "map_of xs k")
  case (Some v)
  then have kv: "(k, v) \<in> set xs" by (rule map_of_SomeD)
  have "v \<notin> snd ` set (drop_key k xs)"
  proof
    assume "v \<in> snd ` set (drop_key k xs)"
    then obtain k' where "(k', v) \<in> set xs" and "k' \<noteq> k" by (auto simp: set_drop_key)
    with kv assms show False using distinct_snd_unique by metis
  qed
  with Some assms show ?thesis by (simp add: touch_key_def distinct_drop_key)
qed (use assms in \<open>simp add: touch_key_def\<close>)

lemma distinct_snd_insert_key:
  assumes "distinct (map snd xs)" and "v \<notin> snd ` set xs"
  shows "distinct (map snd (insert_key n k v xs))"
  using assms set_tl_subset [of "map snd xs"]
  by (auto simp: insert_key_def distinct_drop_key set_drop_key map_tl distinct_tl)

lemma distinct_snd_keep_newest: "distinct (map f xs) \<Longrightarrow> distinct (map f (keep_newest n xs))"
  by (simp add: keep_newest_def drop_map [symmetric] distinct_drop)

lemma set_keep_newest: "set (keep_newest n xs) \<subseteq> set xs"
  by (simp add: keep_newest_def set_drop_subset)

lemma heap_update_other:
  assumes "p \<notin> snd ` set xs"
  shows "map (\<lambda>(k, q). (k, (h(p := e)) q)) xs = map (\<lambda>(k, q). (k, h q)) xs"
  using assms by (induction xs) auto

lemma heap_update_key:
  assumes "distinct (map snd xs)" and "distinct (map fst xs)" and "(k, p) \<in> set xs"
  shows "map (\<lambda>(k', q). (k', (h(p := e)) q)) xs = map (\<lambda>(k', q). (k', if k' = k then e else h q)) xs"
proof (rule map_cong [OF refl])
  fix x assume x: "x \<in> set xs"
  obtain k' q where kq: "x = (k', q)" by (cases x)
  have "q = p \<longleftrightarrow> k' = k"
    using assms x kq distinct_snd_unique [of xs] eq_key_imp_eq_value [of xs] by metis
  then show "(case x of (k', q) \<Rightarrow> (k', (h(p := e)) q)) = (case x of (k', q) \<Rightarrow> (k', if k' = k then e else h q))"
    by (simp add: kq)
qed

section \<open>The cache implements the specification\<close>

context lru_spec
begin

lemma cache_inv_parts:
  assumes "cache_inv items cap ok c"
  shows "ok (c_cache c)" "cap (c_cache c) = c_maxSize c"
    and "\<And>k p. (k, p) \<in> set (items (c_cache c)) \<Longrightarrow> p < c_fresh c"
    and "distinct (map snd (items (c_cache c)))"
    and "distinct (map fst (items (c_cache c)))"
  using assms keys_distinct by (auto simp: cache_inv_def)

lemma map_of_entries:
  "map_of (entries items c) k = map_option (c_heap c) (map_of (items (c_cache c)) k)"
  by (simp add: entries_def map_of_map_snd)

lemma fst_entries [simp]: "map fst (entries items c) = map fst (items (c_cache c))"
  by (simp add: entries_def case_prod_beta)

lemma keys_entries [simp]: "fst ` set (entries items c) = fst ` set (items (c_cache c))"
  by (force simp: entries_def)

text \<open>A new cache is empty; a non-positive size is refused.\<close>

lemma NewCache_ok:
  assumes "0 < cfg_MaxSize config"
  obtains c where "NewCache L config = Inr c" and "cache_inv items cap ok c"
    and "entries items c = []" and "c_maxSize c = cfg_MaxSize config"
    and "c_defaultTTL c = (if cfg_DefaultTTL config < 0 then 5 * minute else cfg_DefaultTTL config)"
    and "c_hits c = 0" and "c_misses c = 0" and "c_evicts c = 0"
proof -
  from new_ok [OF assms] obtain l where l: "lru_New L (cfg_MaxSize config) = Some l" "ok l"
    "items l = []" "cap l = cfg_MaxSize config" by blast
  then show thesis
    using assms that by (auto simp: NewCache_def Let_def cache_inv_def entries_def)
qed

lemma NewCache_inv:
  assumes "NewCache L config = Inr c"
  shows "cache_inv items cap ok c" and "entries items c = []"
    and "c_maxSize c = cfg_MaxSize config"
proof -
  from assms have "0 < cfg_MaxSize config" by (auto simp: NewCache_def split: if_splits)
  then obtain c' where "NewCache L config = Inr c'" "cache_inv items cap ok c'"
    "entries items c' = []" "c_maxSize c' = cfg_MaxSize config"
    by (rule NewCache_ok)
  with assms show "cache_inv items cap ok c" "entries items c = []"
    "c_maxSize c = cfg_MaxSize config" by auto
qed

subsection \<open>Get\<close>

lemma Get_result:
  assumes "cache_inv items cap ok c"
  shows "snd (cache_Get L now c k) =
    (case map_of (items (c_cache c)) k of
       None \<Rightarrow> None
     | Some p \<Rightarrow> if IsExpired now (c_heap c p) then None else Some p)"
  using get_val [OF cache_inv_parts(1) [OF assms], of k]
  by (auto simp: cache_Get_def Let_def split: prod.splits option.splits)

lemma Get_inv [inv_intros]:
  assumes inv: "cache_inv items cap ok c"
  shows "cache_inv items cap ok (fst (cache_Get L now c k))"
proof -
  note I = cache_inv_parts [OF inv]
  obtain l r where g: "lru_Get L (c_cache c) k = (l, r)" by force
  have l: "ok l" "cap l = c_maxSize c" "items l = touch_key k (items (c_cache c))"
    using get_ok [OF I(1), of k] get_items [OF I(1), of k] I(2) g by auto
  have sub: "set (items l) \<subseteq> set (items (c_cache c))"
    unfolding l(3) by (rule set_touch_key)
  have d: "distinct (map snd (items l))"
    unfolding l(3) using I(4) by (rule distinct_snd_touch_key)
  have r: "ok (fst (lru_Remove L l k))" "cap (fst (lru_Remove L l k)) = c_maxSize c"
    "items (fst (lru_Remove L l k)) = drop_key k (items l)"
    using remove_ok [OF l(1), of k] remove_items [OF l(1), of k] l(2) by auto
  show ?thesis
    using l r sub d I(3)
    by (auto simp: cache_Get_def g Let_def cache_inv_def distinct_drop_key set_drop_key
        split: option.splits)
qed

lemma Get_entries:
  assumes inv: "cache_inv items cap ok c"
  shows "entries items (fst (cache_Get L now c k)) = spec_get now k (entries items c)"
proof -
  note I = cache_inv_parts [OF inv]
  obtain l r where g: "lru_Get L (c_cache c) k = (l, r)" by force
  have l: "ok l" "items l = touch_key k (items (c_cache c))" and r: "r = map_of (items (c_cache c)) k"
    using get_ok [OF I(1), of k] get_items [OF I(1), of k] get_val [OF I(1), of k] g by auto
  have rem: "items (fst (lru_Remove L l k)) = drop_key k (items l)"
    using remove_items [OF l(1)] .
  show ?thesis
  proof (cases r)
    case None
    with r l show ?thesis
      by (simp add: cache_Get_def g entries_def spec_get_def touch_key_def map_of_map_snd)
  next
    case (Some p)
    with r have kp: "(k, p) \<in> set (items (c_cache c))" by (simp add: map_of_SomeD)
    have np: "p \<notin> snd ` set (drop_key k (items (c_cache c)))"
      using kp I(4) distinct_snd_unique by (force simp: set_drop_key)
    from Some r np show ?thesis
      by (auto simp: cache_Get_def g Let_def entries_def spec_get_def l(2) rem touch_key_def
          map_of_map_snd drop_key_map accessed_def image_iff)
  qed
qed

lemma Get_frame:
  "c_maxSize (fst (cache_Get L now c k)) = c_maxSize c"
  "c_defaultTTL (fst (cache_Get L now c k)) = c_defaultTTL c"
  by (auto simp: cache_Get_def Let_def split: prod.splits option.splits)

subsection \<open>Set, Evict, Clear, UpdateVersion, Resize\<close>

lemma SetWithTTL_inv [inv_intros]:
  assumes inv: "cache_inv items cap ok c"
  shows "cache_inv items cap ok (SetWithTTL L now c k d v ttl)"
proof -
  note I = cache_inv_parts [OF inv]
  have new: "c_fresh c \<notin> snd ` set (items (c_cache c))"
    using I(3) by force
  have sub: "set (insert_key (c_maxSize c) k (c_fresh c) (items (c_cache c)))
      \<subseteq> insert (k, c_fresh c) (set (items (c_cache c)))"
    by (rule set_insert_key)
  have "\<forall>p \<in> snd ` set (insert_key (c_maxSize c) k (c_fresh c) (items (c_cache c))). p < Suc (c_fresh c)"
    using sub I(3) by (fastforce intro: less_SucI)
  then show ?thesis
    using I add_ok [OF I(1)] add_items [OF I(1)] distinct_snd_insert_key [OF I(4) new]
    by (simp add: SetWithTTL_def Let_def cache_inv_def)
qed

lemma SetWithTTL_entries:
  assumes inv: "cache_inv items cap ok c"
  shows "entries items (SetWithTTL L now c k d v ttl) =
    insert_key (c_maxSize c) k (fresh_entry now d v ttl) (entries items c)"
proof -
  note I = cache_inv_parts [OF inv]
  let ?e = "fresh_entry now d v ttl"
  let ?h = "(c_heap c)(c_fresh c := ?e)"
  have new: "c_fresh c \<notin> snd ` set (items (c_cache c))"
    using I(3) by force
  have "entries items (SetWithTTL L now c k d v ttl) =
      map (\<lambda>(k, p). (k, ?h p)) (insert_key (c_maxSize c) k (c_fresh c) (items (c_cache c)))"
    using I(2) add_items [OF I(1)]
    by (simp add: entries_def SetWithTTL_def Let_def fresh_entry_def)
  also have "\<dots> = insert_key (c_maxSize c) k (?h (c_fresh c)) (map (\<lambda>(k, p). (k, ?h p)) (items (c_cache c)))"
    by (rule insert_key_map [symmetric])
  also have "\<dots> = insert_key (c_maxSize c) k ?e (entries items c)"
    by (simp only: heap_update_other [OF new] entries_def fun_upd_same)
  finally show ?thesis .
qed

lemma SetWithTTL_frame:
  "c_maxSize (SetWithTTL L now c k d v ttl) = c_maxSize c"
  "c_defaultTTL (SetWithTTL L now c k d v ttl) = c_defaultTTL c"
  by (simp_all add: SetWithTTL_def Let_def)

lemma Evict_inv [inv_intros]:
  assumes inv: "cache_inv items cap ok c"
  shows "cache_inv items cap ok (fst (cache_Evict L c k))"
proof -
  note I = cache_inv_parts [OF inv]
  from I remove_ok [OF I(1), of k] remove_items [OF I(1), of k] show ?thesis
    by (auto simp: cache_Evict_def cache_inv_def distinct_drop_key set_drop_key split: prod.splits)
qed

lemma Evict_entries:
  assumes inv: "cache_inv items cap ok c"
  shows "entries items (fst (cache_Evict L c k)) = drop_key k (entries items c)"
    and "snd (cache_Evict L c k) \<longleftrightarrow> k \<in> fst ` set (entries items c)"
  using remove_items [OF cache_inv_parts(1) [OF inv], of k]
    remove_val [OF cache_inv_parts(1) [OF inv], of k]
  by (auto simp: cache_Evict_def entries_def drop_key_map image_image case_prod_beta
      split: prod.splits)

lemma Clear_inv [inv_intros]:
  "cache_inv items cap ok c \<Longrightarrow> cache_inv items cap ok (cache_Clear L c)"
  using purge_ok purge_items by (auto simp: cache_inv_def cache_Clear_def)

lemma Clear_entries: "cache_inv items cap ok c \<Longrightarrow> entries items (cache_Clear L c) = []"
  using purge_items by (auto simp: cache_inv_def cache_Clear_def entries_def)

lemma UpdateVersion_inv [inv_intros]:
  "cache_inv items cap ok c \<Longrightarrow> cache_inv items cap ok (fst (UpdateVersion L c k v))"
  by (auto simp: cache_inv_def UpdateVersion_def split: option.splits)

lemma UpdateVersion_entries:
  assumes inv: "cache_inv items cap ok c"
  shows "entries items (fst (UpdateVersion L c k v)) = spec_set_version k v (entries items c)"
proof (cases "map_of (items (c_cache c)) k")
  note I = cache_inv_parts [OF inv]
  case None
  then have "(k, p) \<notin> set (items (c_cache c))" for p by (force simp: map_of_eq_None_iff)
  then have "spec_set_version k v (entries items c) = entries items c"
    by (auto simp: spec_set_version_def entries_def)
  with None peek_val [OF I(1)] show ?thesis by (simp add: UpdateVersion_def)
next
  note I = cache_inv_parts [OF inv]
  case (Some p)
  then have kp: "(k, p) \<in> set (items (c_cache c))" by (rule map_of_SomeD)
  have pk: "q = p" if "(k, q) \<in> set (items (c_cache c))" for q
    using that kp I(5) eq_key_imp_eq_value by metis
  from Some peek_val [OF I(1)] show ?thesis
    by (auto simp: UpdateVersion_def entries_def spec_set_version_def heap_update_key [OF I(4,5) kp]
        simp del: fun_upd_apply dest: pk)
qed

lemma Resize_inv [inv_intros]:
  assumes inv: "cache_inv items cap ok c" and "cache_Resize L c n = Inr c'"
  shows "cache_inv items cap ok c'"
proof -
  note I = cache_inv_parts [OF inv]
  from assms(2) have n: "0 < n" and c': "c' = c\<lparr>c_cache := lru_Resize L (c_cache c) n, c_maxSize := n\<rparr>"
    by (auto simp: cache_Resize_def split: if_splits)
  from I resize_ok [OF I(1) n] resize_items [OF I(1) n] set_keep_newest [of n "items (c_cache c)"]
  show ?thesis
    by (auto simp: c' cache_inv_def distinct_snd_keep_newest)
qed

lemma Resize_entries:
  assumes inv: "cache_inv items cap ok c" and "0 < n"
  obtains c' where "cache_Resize L c n = Inr c'" and "c_maxSize c' = n"
    and "entries items c' = keep_newest n (entries items c)"
  using assms resize_items [OF cache_inv_parts(1) [OF inv] assms(2)]
  by (auto simp: cache_Resize_def entries_def keep_newest_map)

subsection \<open>The expiry scan\<close>

lemma expire_key_inv [inv_intros]:
  assumes inv: "cache_inv items cap ok c"
  shows "cache_inv items cap ok (expire_key L now k c)"
proof -
  note I = cache_inv_parts [OF inv]
  from inv I remove_ok [OF I(1), of k] remove_items [OF I(1), of k] show ?thesis
    by (auto simp: expire_key_def cache_inv_def distinct_drop_key set_drop_key split: option.splits)
qed

lemma expire_key_entries:
  assumes inv: "cache_inv items cap ok c"
  shows "entries items (expire_key L now k c) =
    filter (\<lambda>(k', e). \<not> (k' = k \<and> IsExpired now e)) (entries items c)"
proof -
  note I = cache_inv_parts [OF inv]
  have pk: "map_of (items (c_cache c)) k = Some q" if "(k, q) \<in> set (items (c_cache c))" for q
    using that I(5) by simp
  show ?thesis
  proof (cases "\<exists>p. map_of (items (c_cache c)) k = Some p \<and> IsExpired now (c_heap c p)")
    case True
    then obtain p where p: "map_of (items (c_cache c)) k = Some p" "IsExpired now (c_heap c p)"
      by blast
    have "filter (\<lambda>(k', e). \<not> (k' = k \<and> IsExpired now e)) (entries items c) = drop_key k (entries items c)"
      unfolding drop_key_def using p pk by (intro filter_cong) (auto simp: entries_def)
    with p peek_val [OF I(1), of k] remove_items [OF I(1), of k] show ?thesis
      by (simp add: expire_key_def entries_def drop_key_map)
  next
    case False
    then have "filter (\<lambda>(k', e). \<not> (k' = k \<and> IsExpired now e)) (entries items c) = entries items c"
      using pk by (auto simp: entries_def filter_id_conv)
    with False peek_val [OF I(1), of k] show ?thesis
      by (auto simp: expire_key_def split: option.splits)
  qed
qed

lemma expire_keys:
  assumes "cache_inv items cap ok c"
  shows "cache_inv items cap ok (fold (expire_key L now) ks c) \<and>
    entries items (fold (expire_key L now) ks c) =
      filter (\<lambda>(k, e). \<not> (k \<in> set ks \<and> IsExpired now e)) (entries items c)"
  using assms
proof (induction ks arbitrary: c)
  case Nil
  then show ?case by simp
next
  case (Cons k ks)
  from Cons.IH [OF expire_key_inv [OF Cons.prems]] show ?case
    by (simp add: expire_key_entries [OF Cons.prems] case_prod_beta)
      (rule filter_cong, auto)
qed

lemma removeExpiredEntries_inv [inv_intros]:
  "cache_inv items cap ok c \<Longrightarrow> cache_inv items cap ok (removeExpiredEntries L now c)"
  by (simp add: removeExpiredEntries_def expire_keys)

lemma removeExpiredEntries_entries_spec:
  assumes inv: "cache_inv items cap ok c"
  shows "entries items (removeExpiredEntries L now c) = filter (\<lambda>(k, e). \<not> IsExpired now e) (entries items c)"
proof -
  have "lru_Keys L (c_cache c) = map fst (entries items c)"
    using keys_val [OF cache_inv_parts(1) [OF inv]] by simp
  then have "entries items (removeExpiredEntries L now c) =
      filter (\<lambda>(k, e). \<not> (k \<in> set (map fst (entries items c)) \<and> IsExpired now e)) (entries items c)"
    by (simp only: removeExpiredEntries_def expire_keys [OF inv])
  also have "\<dots> = filter (\<lambda>(k, e). \<not> IsExpired now e) (entries items c)"
    by (rule filter_cong) (force simp del: fst_entries keys_entries)+
  finally show ?thesis .
qed

lemma expire_key_frame:
  "c_maxSize (expire_key L now k c) = c_maxSize c"
  "c_defaultTTL (expire_key L now k c) = c_defaultTTL c"
  by (auto simp: expire_key_def split: option.splits)

lemma removeExpiredEntries_frame:
  "c_maxSize (removeExpiredEntries L now c) = c_maxSize c"
  "c_defaultTTL (removeExpiredEntries L now c) = c_defaultTTL c"
proof -
  have "c_maxSize (fold (expire_key L now) ks c) = c_maxSize c \<and>
      c_defaultTTL (fold (expire_key L now) ks c) = c_defaultTTL c" for ks
    by (induction ks arbitrary: c) (simp_all add: expire_key_frame)
  then show "c_maxSize (removeExpiredEntries L now c) = c_maxSize c"
    "c_defaultTTL (removeExpiredEntries L now c) = c_defaultTTL c"
    by (simp_all add: removeExpiredEntries_def)
qed

subsection \<open>Every operation, and runs\<close>

lemma maxSize_frame:
  "c_maxSize (fst (cache_Evict L c k)) = c_maxSize c"
  "c_maxSize (cache_Clear L c) = c_maxSize c"
  "c_maxSize (fst (UpdateVersion L c k v)) = c_maxSize c"
  "c_maxSize (ResetStats c) = c_maxSize c"
  "c_maxSize (cache_Close c) = c_maxSize c"
  by (simp_all add: cache_Evict_def cache_Clear_def UpdateVersion_def ResetStats_def
      cache_Close_def split: prod.splits option.splits)

lemma stats_frame:
  "entries items (ResetStats c) = entries items c"
  "entries items (cache_Close c) = entries items c"
  "cache_inv items cap ok (ResetStats c) \<longleftrightarrow> cache_inv items cap ok c"
  "cache_inv items cap ok (cache_Close c) \<longleftrightarrow> cache_inv items cap ok c"
  by (simp_all add: entries_def cache_inv_def ResetStats_def cache_Close_def)

lemma cache_step_inv: "cache_inv items cap ok c \<Longrightarrow> cache_inv items cap ok (cache_step L op c)"
  by (cases op) (auto simp: cache_Set_def stats_frame intro: inv_intros split: sum.splits)

lemma cache_step_refines:
  assumes "cache_inv items cap ok c"
  shows "(c_maxSize (cache_step L op c), entries items (cache_step L op c)) =
    spec_step (c_defaultTTL c) op (c_maxSize c, entries items c)"
proof (cases op)
  case (OpResize n)
  show ?thesis
  proof (cases "0 < n")
    case True
    from Resize_entries [OF assms True] obtain c' where "cache_Resize L c n = Inr c'"
      "c_maxSize c' = n" "entries items c' = keep_newest n (entries items c)" .
    with True OpResize show ?thesis by simp
  qed (simp add: OpResize cache_Resize_def)
qed (simp_all add: assms Get_entries Get_frame cache_Set_def SetWithTTL_entries SetWithTTL_frame
    Evict_entries Clear_entries UpdateVersion_entries removeExpiredEntries_entries_spec
    removeExpiredEntries_frame maxSize_frame stats_frame)

lemma cache_step_ttl: "c_defaultTTL (cache_step L op c) = c_defaultTTL c"
  by (cases op)
    (auto simp: Get_frame cache_Set_def SetWithTTL_frame cache_Evict_def cache_Clear_def
      UpdateVersion_def cache_Resize_def removeExpiredEntries_frame ResetStats_def cache_Close_def
      split: prod.splits option.splits sum.splits)

end

section \<open>The interface the workers use\<close>

text \<open>
  Both workers read an entry's data and version right after \<open>Get\<close>; \<open>cache_fetch\<close> is that pair
  of steps.  The locale \<open>entity_cache\<close> is the contract they rely on: a lookup returns what was last
  set under the key and has not expired, a \<open>Set\<close> may push other keys out but never changes what
  they hold, and an evicted key is gone.
\<close>

definition cache_fetch ::
    "'l lru_ops \<Rightarrow> gotime \<Rightarrow> 'l Cache \<Rightarrow> string \<Rightarrow> 'l Cache \<times> (bytes \<times> string) option" where
  "cache_fetch L now c key =
     (case cache_Get L now c key of
        (c', None) \<Rightarrow> (c', None)
      | (c', Some p) \<Rightarrow> (c', Some (ce_Data (c_heap c' p), ce_Version (c_heap c' p))))"

definition cache_lookup ::
    "('l \<Rightarrow> (string \<times> addr) list) \<Rightarrow> 'l Cache \<Rightarrow> string \<Rightarrow> (bytes \<times> string \<times> gotime) option" where
  "cache_lookup items c k =
     map_option (\<lambda>e. (ce_Data e, ce_Version e, ce_Expiry e)) (map_of (entries items c) k)"

definition expired_at :: "gotime \<Rightarrow> gotime \<Rightarrow> bool" where
  "expired_at now expiry \<longleftrightarrow> expiry \<noteq> 0 \<and> expiry < now"

locale entity_cache =
  fixes cinv :: "'c \<Rightarrow> bool"
    and lookup :: "'c \<Rightarrow> string \<Rightarrow> (bytes \<times> string \<times> gotime) option"
    and fetch :: "gotime \<Rightarrow> 'c \<Rightarrow> string \<Rightarrow> 'c \<times> (bytes \<times> string) option"
    and store :: "gotime \<Rightarrow> 'c \<Rightarrow> string \<Rightarrow> bytes \<Rightarrow> string \<Rightarrow> 'c"
    and evict :: "'c \<Rightarrow> string \<Rightarrow> 'c"
    and vers :: "gotime \<Rightarrow> 'c \<Rightarrow> string \<Rightarrow> string"
    and expiry_of :: "gotime \<Rightarrow> 'c \<Rightarrow> gotime"
  assumes fetch_inv: "cinv c \<Longrightarrow> cinv (fst (fetch now c k))"
    and store_inv: "cinv c \<Longrightarrow> cinv (store now c k d v)"
    and evict_inv: "cinv c \<Longrightarrow> cinv (evict c k)"
    and fetch_result: "cinv c \<Longrightarrow> snd (fetch now c k) =
        (case lookup c k of None \<Rightarrow> None
         | Some (d, v, x) \<Rightarrow> if expired_at now x then None else Some (d, v))"
    and fetch_lookup: "cinv c \<Longrightarrow> lookup (fst (fetch now c k)) =
        (if snd (fetch now c k) = None then (lookup c)(k := None) else lookup c)"
    and store_same: "cinv c \<Longrightarrow> lookup (store now c k d v) k = Some (d, v, expiry_of now c)"
    and store_other: "cinv c \<Longrightarrow> k' \<noteq> k \<Longrightarrow>
        lookup (store now c k d v) k' = None \<or> lookup (store now c k d v) k' = lookup c k'"
    and evict_lookup: "cinv c \<Longrightarrow> lookup (evict c k) = (lookup c)(k := None)"
    and vers_result: "cinv c \<Longrightarrow> vers now c k =
        (case lookup c k of None \<Rightarrow> []
         | Some (d, v, x) \<Rightarrow> if expired_at now x then [] else v)"
begin

text \<open>
  A predicate on the cached data of every key survives each operation, if what is stored
  satisfies it: the form in which the workers' invariants use the cache.
\<close>

definition all_cached :: "(string \<Rightarrow> bytes \<Rightarrow> string \<Rightarrow> bool) \<Rightarrow> 'c \<Rightarrow> bool" where
  "all_cached P c \<longleftrightarrow> (\<forall>k d v x. lookup c k = Some (d, v, x) \<longrightarrow> P k d v)"

lemma all_cached_fetch: "cinv c \<Longrightarrow> all_cached P c \<Longrightarrow> all_cached P (fst (fetch now c k))"
  by (auto simp: all_cached_def fetch_lookup split: if_splits)

lemma all_cached_store:
  "cinv c \<Longrightarrow> all_cached P c \<Longrightarrow> P k d v \<Longrightarrow> all_cached P (store now c k d v)"
  unfolding all_cached_def
  by (metis option.distinct(1) option.inject prod.inject store_other store_same)

lemma all_cached_evict: "cinv c \<Longrightarrow> all_cached P c \<Longrightarrow> all_cached P (evict c k)"
  by (auto simp: all_cached_def evict_lookup split: if_splits)

lemma all_cached_fetched:
  "cinv c \<Longrightarrow> all_cached P c \<Longrightarrow> snd (fetch now c k) = Some (d, v) \<Longrightarrow> P k d v"
  by (auto simp: all_cached_def fetch_result split: option.splits if_splits)

lemma fetch_after_store:
  "cinv c \<Longrightarrow> \<not> expired_at now' (expiry_of now c) \<Longrightarrow>
     snd (fetch now' (store now c k d v) k) = Some (d, v)"
  by (simp add: fetch_result store_inv store_same)

lemma fetch_after_evict: "cinv c \<Longrightarrow> snd (fetch now (evict c k) k) = None"
  by (simp add: fetch_result evict_inv evict_lookup)

end

subsection \<open>The cache provides the interface\<close>

lemma IsExpired_expired_at: "IsExpired now e = expired_at now (ce_Expiry e)"
  by (simp add: IsExpired_def expired_at_def)

lemma insert_key_lookup:
  assumes "0 < n"
  shows "map_of (insert_key n k v xs) k = Some v"
    and "k' \<noteq> k \<Longrightarrow> distinct (map fst xs) \<Longrightarrow>
      map_of (insert_key n k v xs) k' = None \<or> map_of (insert_key n k v xs) k' = map_of xs k'"
proof -
  have "map_of (tl xs) k = None \<and> map_of xs k = None" if "k \<notin> fst ` set xs"
    using that image_mono [OF set_tl_subset [of xs], of fst] by (auto simp: map_of_eq_None_iff)
  then show "map_of (insert_key n k v xs) k = Some v"
    by (simp add: insert_key_def map_add_def)
  assume "k' \<noteq> k" and "distinct (map fst xs)"
  moreover have "map_of (tl xs) k' = None \<or> map_of (tl xs) k' = map_of xs k'"
    if "distinct (map fst xs)"
    using that by (cases xs) (auto simp: map_of_eq_None_iff)
  ultimately show "map_of (insert_key n k v xs) k' = None \<or> map_of (insert_key n k v xs) k' = map_of xs k'"
    by (auto simp: insert_key_def map_add_def split: option.splits)
qed

context lru_spec
begin

lemma cache_fetch_Get: "fst (cache_fetch L now c k) = fst (cache_Get L now c k)"
  by (auto simp: cache_fetch_def split: prod.splits option.splits)

lemma fetch_value:
  assumes inv: "cache_inv items cap ok c"
  shows "snd (cache_fetch L now c k) =
    (case cache_lookup items c k of None \<Rightarrow> None
     | Some (d, v, x) \<Rightarrow> if expired_at now x then None else Some (d, v))"
proof -
  note I = cache_inv_parts [OF inv]
  from get_val [OF I(1), of k] show ?thesis
    by (auto simp: cache_fetch_def cache_Get_def cache_lookup_def map_of_entries Let_def
        IsExpired_expired_at split: prod.splits option.splits)
qed

lemma fetch_effect:
  assumes inv: "cache_inv items cap ok c"
  shows "cache_lookup items (fst (cache_fetch L now c k)) =
    (if snd (cache_fetch L now c k) = None then (cache_lookup items c)(k := None) else cache_lookup items c)"
  unfolding fetch_value [OF inv] cache_fetch_Get cache_lookup_def [abs_def] Get_entries [OF inv]
  by (auto simp: fun_eq_iff spec_get_def IsExpired_expired_at accessed_def map_add_def
      split: option.splits)

lemma GetVersion_value:
  assumes inv: "cache_inv items cap ok c"
  shows "GetVersion L now c k =
    (case cache_lookup items c k of None \<Rightarrow> []
     | Some (d, v, x) \<Rightarrow> if expired_at now x then [] else v)"
  using peek_val [OF cache_inv_parts(1) [OF inv], of k]
  by (auto simp: GetVersion_def cache_lookup_def map_of_entries IsExpired_expired_at
      split: option.splits)

end

definition set_expiry :: "gotime \<Rightarrow> 'l Cache \<Rightarrow> gotime" where
  "set_expiry now c = (if 0 < c_defaultTTL c then now + c_defaultTTL c else 0)"

sublocale lru_spec \<subseteq> ec: entity_cache "cache_inv items cap ok" "cache_lookup items"
  "cache_fetch L" "cache_Set L" "\<lambda>c k. fst (cache_Evict L c k)" "GetVersion L" set_expiry
proof unfold_locales
  fix c now k d v k'
  assume inv: "cache_inv items cap ok c"
  show "cache_inv items cap ok (fst (cache_fetch L now c k))"
    unfolding cache_fetch_Get using inv by (rule Get_inv)
  show "cache_inv items cap ok (cache_Set L now c k d v)"
    unfolding cache_Set_def using inv by (rule SetWithTTL_inv)
  show "cache_inv items cap ok (fst (cache_Evict L c k))"
    using inv by (rule Evict_inv)
  show "snd (cache_fetch L now c k) =
      (case cache_lookup items c k of None \<Rightarrow> None
       | Some (d, v, x) \<Rightarrow> if expired_at now x then None else Some (d, v))"
    using inv by (rule fetch_value)
  show "cache_lookup items (fst (cache_fetch L now c k)) =
      (if snd (cache_fetch L now c k) = None then (cache_lookup items c)(k := None) else cache_lookup items c)"
    using inv by (rule fetch_effect)
  have n: "0 < c_maxSize c" using cap_pos cache_inv_parts(1,2) [OF inv] by metis
  show "cache_lookup items (cache_Set L now c k d v) k = Some (d, v, set_expiry now c)"
    by (simp add: cache_lookup_def cache_Set_def SetWithTTL_entries [OF inv] insert_key_lookup [OF n]
        fresh_entry_def set_expiry_def)
  show "cache_lookup items (cache_Set L now c k d v) k' = None \<or>
      cache_lookup items (cache_Set L now c k d v) k' = cache_lookup items c k'" if "k' \<noteq> k"
    using insert_key_lookup(2) [where v = "fresh_entry now d v (c_defaultTTL c)",
        OF n that, of "entries items c"] cache_inv_parts(5) [OF inv]
    by (auto simp: cache_lookup_def cache_Set_def SetWithTTL_entries [OF inv])
  show "cache_lookup items (fst (cache_Evict L c k)) = (cache_lookup items c)(k := None)"
    by (auto simp: cache_lookup_def [abs_def] Evict_entries [OF inv] fun_eq_iff)
  show "GetVersion L now c k =
      (case cache_lookup items c k of None \<Rightarrow> []
       | Some (d, v, x) \<Rightarrow> if expired_at now x then [] else v)"
    using inv by (rule GetVersion_value)
qed

context lru_spec
begin

lemma fetch_after_Set:
  "cache_inv items cap ok c \<Longrightarrow> snd (cache_fetch L later (cache_Set L now c k d v) k) =
     (if expired_at later (set_expiry now c) then None else Some (d, v))"
  by (simp add: ec.fetch_result ec.store_inv ec.store_same)

end

section \<open>A list as the container\<close>

text \<open>
  An executable container that keeps its pairs in a list, oldest first.  It satisfies the
  documented behaviour of golang-lru, so the contract is consistent, and it is the container
  of the concrete runs below.
\<close>

record list_lru =
  ll_items :: "(string \<times> addr) list"
  ll_cap :: int

definition list_lru_ops :: "list_lru lru_ops" where
  "list_lru_ops =
     \<lparr>lru_New = (\<lambda>n. if n \<le> 0 then None else Some \<lparr>ll_items = [], ll_cap = n\<rparr>),
      lru_Get = (\<lambda>l k. (l\<lparr>ll_items := touch_key k (ll_items l)\<rparr>, map_of (ll_items l) k)),
      lru_Peek = (\<lambda>l k. map_of (ll_items l) k),
      lru_Add = (\<lambda>l k p. l\<lparr>ll_items := insert_key (ll_cap l) k p (ll_items l)\<rparr>),
      lru_Remove = (\<lambda>l k. (l\<lparr>ll_items := drop_key k (ll_items l)\<rparr>, map_of (ll_items l) k \<noteq> None)),
      lru_Contains = (\<lambda>l k. map_of (ll_items l) k \<noteq> None),
      lru_Len = (\<lambda>l. int (length (ll_items l))),
      lru_Keys = (\<lambda>l. map fst (ll_items l)),
      lru_Purge = (\<lambda>l. l\<lparr>ll_items := []\<rparr>),
      lru_Resize = (\<lambda>l n. l\<lparr>ll_items := keep_newest n (ll_items l), ll_cap := n\<rparr>)\<rparr>"

definition list_lru_ok :: "list_lru \<Rightarrow> bool" where
  "list_lru_ok l \<longleftrightarrow>
     distinct (map fst (ll_items l)) \<and> int (length (ll_items l)) \<le> ll_cap l \<and> 0 < ll_cap l"

lemma distinct_fst_touch_key: "distinct (map fst xs) \<Longrightarrow> distinct (map fst (touch_key k xs))"
  by (auto simp: touch_key_def distinct_drop_key set_drop_key split: option.splits)

lemma length_touch_key: "distinct (map fst xs) \<Longrightarrow> length (touch_key k xs) = length xs"
  using length_drop_key_mem [of xs k]
  by (auto simp: touch_key_def in_keys_map_of split: option.splits)

lemma distinct_fst_insert_key:
  assumes "distinct (map fst xs)"
  shows "distinct (map fst (insert_key n k v xs))"
  using assms set_tl_subset [of "map fst xs"]
  by (auto simp: insert_key_def distinct_drop_key set_drop_key map_tl distinct_tl)

lemma length_insert_key:
  assumes "distinct (map fst xs)" and "int (length xs) \<le> n" and "0 < n"
  shows "int (length (insert_key n k v xs)) \<le> n"
  using assms length_drop_key_mem [of xs k] by (auto simp: insert_key_def)

lemma length_keep_newest: "0 < n \<Longrightarrow> int (length (keep_newest n xs)) \<le> n"
  by (simp add: keep_newest_def)

lemma length_drop_key_le: "int (length xs) \<le> n \<Longrightarrow> int (length (drop_key k xs)) \<le> n"
  using length_drop_key [of k xs] by linarith

interpretation llru: lru_spec list_lru_ops ll_items ll_cap list_lru_ok
  by unfold_locales
    (auto simp: list_lru_ops_def list_lru_ok_def in_keys_map_of distinct_fst_touch_key
      length_touch_key distinct_fst_insert_key length_insert_key distinct_drop_key
      distinct_snd_keep_newest length_keep_newest length_drop_key_le)

section \<open>Properties of the cache\<close>

definition cache_run :: "'l lru_ops \<Rightarrow> cache_op list \<Rightarrow> 'l Cache \<Rightarrow> 'l Cache" where
  "cache_run L ops c = fold (cache_step L) ops c"

context lru_spec
begin

lemma cache_run_refines:
  assumes "cache_inv items cap ok c"
  shows "cache_inv items cap ok (cache_run L ops c) \<and>
    (c_maxSize (cache_run L ops c), entries items (cache_run L ops c)) =
      fold (spec_step (c_defaultTTL c)) ops (c_maxSize c, entries items c)"
  using assms
proof (induction ops arbitrary: c)
  case Nil
  then show ?case by (simp add: cache_run_def)
next
  case (Cons op ops)
  from Cons.IH [OF cache_step_inv [OF Cons.prems, of op]] show ?case
    by (simp add: cache_run_def cache_step_refines [OF Cons.prems, symmetric] cache_step_ttl)
qed

lemma cache_len_bound:
  assumes "cache_inv items cap ok c"
  shows "cache_Len L c \<le> c_maxSize c"
  using cache_inv_parts(1,2) [OF assms] len_val size_bound by (metis cache_Len_def)

end

text \<open>
  C3. From \<open>NewCache\<close> on, every sequence of cache operations behaves as the recency-list
  specification: the capacity and the list of keys with their entries, from least to most
  recently used, are those the specification computes, and the representation invariant
  (allocated, unshared entries) holds.
\<close>

theorem cache_implements_recency_list:
  assumes "lru_spec L items cap ok" and "NewCache L config = Inr c"
  shows "cache_inv items cap ok (cache_run L ops c) \<and>
    (c_maxSize (cache_run L ops c), entries items (cache_run L ops c)) =
      fold (spec_step (c_defaultTTL c)) ops (cfg_MaxSize config, [])"
  using lru_spec.cache_run_refines [OF assms(1) lru_spec.NewCache_inv(1) [OF assms], of ops]
  by (simp add: lru_spec.NewCache_inv(2,3) [OF assms])

theorem cache_implements_recency_list_witness:
  "\<exists>c. NewCache list_lru_ops \<lparr>cfg_MaxSize = 2, cfg_DefaultTTL = 0, cfg_CleanupInterval = 0\<rparr> = Inr c \<and>
     map fst (entries ll_items (cache_run list_lru_ops
       [OpSet 10 ''a'' ''x'' ''1'', OpSet 11 ''b'' ''y'' ''1'', OpGet 12 ''a'', OpSet 13 ''c'' ''z'' ''1''] c))
       = [''a'', ''c'']"
proof -
  let ?cfg = "\<lparr>cfg_MaxSize = 2, cfg_DefaultTTL = 0, cfg_CleanupInterval = 0\<rparr>"
  let ?ops = "[OpSet 10 ''a'' ''x'' ''1'', OpSet 11 ''b'' ''y'' ''1'', OpGet 12 ''a'', OpSet 13 ''c'' ''z'' ''1'']"
  obtain c where c: "NewCache list_lru_ops ?cfg = Inr c" and ttl: "c_defaultTTL c = 0"
    by (auto simp: NewCache_def list_lru_ops_def)
  have "entries ll_items (cache_run list_lru_ops ?ops c) = snd (fold (spec_step 0) ?ops (2, []))"
    using cache_implements_recency_list [OF llru.lru_spec_axioms c, of ?ops] ttl
    by (metis (no_types, lifting) CacheConfig.select_convs(1) snd_conv)
  moreover have "map fst (snd (fold (spec_step 0) ?ops (2, []))) = [''a'', ''c'']"
    by code_simp
  ultimately have "map fst (entries ll_items (cache_run list_lru_ops ?ops c)) = [''a'', ''c'']"
    by (simp only:)
  with c show ?thesis by (intro exI conjI)
qed

text \<open>
  The cache never holds more entries than its configured maximum, whatever sequence of
  operations (resizing included) has run since \<open>NewCache\<close>.
\<close>

theorem cache_size_bounded:
  assumes "lru_spec L items cap ok" and "NewCache L config = Inr c"
  shows "cache_Len L (cache_run L ops c) \<le> c_maxSize (cache_run L ops c)"
  by (rule lru_spec.cache_len_bound [OF assms(1)],
      rule lru_spec.cache_run_refines [OF assms(1) lru_spec.NewCache_inv(1) [OF assms], THEN conjunct1])

theorem cache_size_bounded_witness:
  "\<exists>c. NewCache list_lru_ops \<lparr>cfg_MaxSize = 3, cfg_DefaultTTL = 0, cfg_CleanupInterval = 0\<rparr> = Inr c \<and>
     cache_Len list_lru_ops (cache_run list_lru_ops [OpSet 1 ''a'' [] [], OpSet 2 ''b'' [] [], OpResize 1] c)
       \<le> c_maxSize (cache_run list_lru_ops [OpSet 1 ''a'' [] [], OpSet 2 ''b'' [] [], OpResize 1] c)"
proof -
  obtain c where c: "NewCache list_lru_ops \<lparr>cfg_MaxSize = 3, cfg_DefaultTTL = 0, cfg_CleanupInterval = 0\<rparr> = Inr c"
    by (auto simp: NewCache_def list_lru_ops_def)
  with cache_size_bounded [OF llru.lru_spec_axioms c] show ?thesis by (intro exI conjI)
qed

end
