(* ===== verification/Cache_Properties.thy ===== *)
theory Cache_Properties
  imports Lru_Cache
begin

text \<open>
  What users of the cache rely on, derived from the refinement of pkg/cache/lru.go: an entry
  that was set is returned until it expires or is pushed out, what pushes it out, which key a
  full cache drops, what \<open>GetOrSet\<close> returns on each branch, and how the eviction counter behaves.
\<close>

section \<open>How long an entry stays\<close>

text \<open>
  The operations that name a key of \<open>K\<close> only, or no key at all.  Clearing and resizing are
  excluded: they drop entries regardless of use.
\<close>

fun within_keys :: "string set \<Rightarrow> cache_op \<Rightarrow> bool" where
  "within_keys K (OpGet now k) = (k \<in> K)"
| "within_keys K (OpSet now k d v) = (k \<in> K)"
| "within_keys K (OpSetWithTTL now k d v ttl) = (k \<in> K)"
| "within_keys K (OpEvict k) = (k \<in> K)"
| "within_keys K (OpUpdateVersion k v) = (k \<in> K)"
| "within_keys K OpClear = False"
| "within_keys K (OpResize n) = False"
| "within_keys K (OpCleanup now) = True"
| "within_keys K OpResetStats = True"
| "within_keys K OpClose = True"

text \<open>Key \<open>k\<close> holds entry \<open>e\<close> and everything used more recently is in \<open>K\<close>.\<close>

definition held :: "string set \<Rightarrow> string \<Rightarrow> CacheEntry \<Rightarrow> int \<Rightarrow> (string \<times> CacheEntry) list \<Rightarrow> bool" where
  "held K k e n xs \<longleftrightarrow>
     distinct (map fst xs) \<and> int (length xs) \<le> n \<and>
     (\<exists>A B. xs = A @ (k, e) # B \<and> fst ` set B \<subseteq> K)"

lemma held_insert_key:
  assumes held: "held K k e n xs" and K: "finite K" "int (card K) < n" and k': "k' \<in> K" "k \<notin> K"
  shows "held K k e n (insert_key n k' w xs)"
proof -
  from held obtain A B where xs: "xs = A @ (k, e) # B" and B: "fst ` set B \<subseteq> K"
    and d: "distinct (map fst xs)" and len: "int (length xs) \<le> n" by (auto simp: held_def)
  from K have n: "0 < n" by linarith
  have ne: "k' \<noteq> k" using k' by auto
  have "\<exists>A' B'. insert_key n k' w xs = A' @ (k, e) # B' \<and> fst ` set B' \<subseteq> K"
  proof (cases "k' \<in> fst ` set xs")
    case True
    then have "insert_key n k' w xs = drop_key k' A @ (k, e) # (drop_key k' B @ [(k', w)])"
      using xs ne by (simp add: insert_key_def)
    moreover have "fst ` set (drop_key k' B @ [(k', w)]) \<subseteq> K"
      using B k' by auto
    ultimately show ?thesis by blast
  next
    case new: False
    have BK: "fst ` set (B @ [(k', w)]) \<subseteq> K" using B k' by auto
    show ?thesis
    proof (cases "int (length xs) < n")
      case True
      with new xs have "insert_key n k' w xs = A @ (k, e) # (B @ [(k', w)])"
        by (simp add: insert_key_def)
      with BK show ?thesis by blast
    next
      case False
      have "length B = card (fst ` set B)"
        using d xs by (metis distinct_append distinct.simps(2) distinct_card length_map list.set_map
            list.simps(9) map_append)
      also have "\<dots> \<le> card (K - {k'})"
        using B new xs K(1) by (intro card_mono) auto
      also have "\<dots> < card K"
        using K(1) k'(1) by (rule card_Diff1_less)
      finally have "A \<noteq> []"
        using False K(2) xs by auto
      with False new xs have "insert_key n k' w xs = tl A @ (k, e) # (B @ [(k', w)])"
        by (simp add: insert_key_def)
      with BK show ?thesis by blast
    qed
  qed
  with d len n show ?thesis
    by (simp add: held_def distinct_fst_insert_key length_insert_key)
qed

lemma held_drop_key:
  assumes "held K k e n xs" and "k' \<noteq> k"
  shows "held K k e n (drop_key k' xs)"
proof -
  from assms obtain A B where xs: "xs = A @ (k, e) # B" and B: "fst ` set B \<subseteq> K"
    by (auto simp: held_def)
  then have "drop_key k' xs = drop_key k' A @ (k, e) # drop_key k' B"
    using assms(2) by simp
  moreover have "fst ` set (drop_key k' B) \<subseteq> K" using B by auto
  ultimately show ?thesis
    using assms(1) unfolding held_def
    by (blast intro: distinct_drop_key length_drop_key_le)
qed

lemma held_touch:
  assumes "held K k e n xs" and "k' \<in> K" and "k \<notin> K" and "k' \<in> fst ` set xs"
  shows "held K k e n (drop_key k' xs @ [(k', w)])"
proof -
  from assms(1) obtain A B where xs: "xs = A @ (k, e) # B" and B: "fst ` set B \<subseteq> K"
    and d: "distinct (map fst xs)" and len: "int (length xs) \<le> n"
    by (auto simp: held_def)
  have "drop_key k' xs @ [(k', w)] = drop_key k' A @ (k, e) # (drop_key k' B @ [(k', w)])"
    using xs assms(2,3) by auto
  moreover have "fst ` set (drop_key k' B @ [(k', w)]) \<subseteq> K" using B assms(2) by auto
  moreover have "distinct (map fst (drop_key k' xs @ [(k', w)]))"
    using d by (auto simp: distinct_drop_key set_drop_key)
  moreover have "int (length (drop_key k' xs @ [(k', w)])) \<le> n"
    using length_drop_key_mem [OF d assms(4)] len by simp
  ultimately show ?thesis unfolding held_def by blast
qed

lemma held_filter:
  assumes "held K k e n xs" and "P (k, e)"
  shows "held K k e n (filter P xs)"
proof -
  from assms(1) obtain A B where xs: "xs = A @ (k, e) # B" and B: "fst ` set B \<subseteq> K"
    and d: "distinct (map fst xs)" and len: "int (length xs) \<le> n"
    by (auto simp: held_def)
  have "filter P xs = filter P A @ (k, e) # filter P B" using xs assms(2) by simp
  moreover have "fst ` set (filter P B) \<subseteq> K" using B by auto
  moreover have "int (length (filter P xs)) \<le> n" using len length_filter_le [of P xs] by linarith
  ultimately show ?thesis
    using d unfolding held_def by (blast intro: distinct_map_filter)
qed

lemma held_set_version:
  assumes "held K k e n xs" and "k' \<noteq> k"
  shows "held K k e n (spec_set_version k' v xs)"
proof -
  let ?f = "\<lambda>(k'', e). (k'', if k'' = k' then e\<lparr>ce_Version := v\<rparr> else e)"
  from assms(1) obtain A B where xs: "xs = A @ (k, e) # B" and B: "fst ` set B \<subseteq> K"
    by (auto simp: held_def)
  have "map ?f xs = map ?f A @ (k, e) # map ?f B" using xs assms(2) by simp
  moreover have "fst ` set (map ?f B) \<subseteq> K" using B by (force simp: image_iff)
  moreover have "map fst (map ?f xs) = map fst xs" by (simp add: case_prod_beta)
  ultimately show ?thesis
    using assms(1) unfolding held_def spec_set_version_def
    by (metis (no_types, lifting) length_map)
qed

lemma held_spec_step:
  assumes held: "held K k e n xs" and K: "finite K" "int (card K) < n" "k \<notin> K"
    and e: "ce_Expiry e = 0" and op: "within_keys K op"
  shows "\<exists>xs'. spec_step ttl op (n, xs) = (n, xs') \<and> held K k e n xs'"
proof (cases op)
  case (OpGet now k')
  with op K(3) have "k' \<in> K" "k' \<noteq> k" by auto
  with held K(3) show ?thesis
    by (auto simp: OpGet spec_get_def in_keys_map_of intro!: held_drop_key held_touch split: option.splits)
next
  case (OpCleanup now)
  with held e show ?thesis by (auto intro!: held_filter simp: IsExpired_def)
qed (use assms in \<open>auto intro: held_insert_key held_drop_key held_set_version\<close>)

lemma held_spec_run:
  assumes "held K k e n xs" and "finite K" "int (card K) < n" "k \<notin> K" and "ce_Expiry e = 0"
    and "list_all (within_keys K) ops"
  shows "\<exists>xs'. fold (spec_step ttl) ops (n, xs) = (n, xs') \<and> held K k e n xs'"
  using assms(1,6)
proof (induction ops arbitrary: xs)
  case Nil
  then show ?case by simp
next
  case (Cons op ops)
  then obtain xs' where "spec_step ttl op (n, xs) = (n, xs')" "held K k e n xs'"
    using held_spec_step [OF Cons.prems(1) assms(2-5), of op ttl] by auto
  with Cons show ?case by simp
qed

lemma held_lookup:
  assumes "held K k e n xs"
  shows "map_of xs k = Some e"
proof -
  from assms have "(k, e) \<in> set xs" and "distinct (map fst xs)" by (auto simp: held_def)
  then show ?thesis by simp
qed

lemma held_after_insert:
  assumes "distinct (map fst xs)" and "int (length xs) \<le> n" and "0 < n"
  shows "held {} k e n (insert_key n k e xs)"
proof -
  have "\<exists>A. insert_key n k e xs = A @ [(k, e)]" by (simp add: insert_key_def)
  with assms show ?thesis
    by (auto simp: held_def distinct_fst_insert_key length_insert_key)
qed

lemma held_mono: "held K k e n xs \<Longrightarrow> K \<subseteq> K' \<Longrightarrow> held K' k e n xs"
  unfolding held_def by blast

lemma retained_after_run:
  assumes lru: "lru_spec L items cap ok" and inv: "cache_inv items cap ok c"
    and ttl: "c_defaultTTL c = 0"
    and K: "finite K" "int (card K) < c_maxSize c" "k \<notin> K" and ops: "list_all (within_keys K) ops"
  shows "snd (cache_fetch L later (cache_run L ops (cache_Set L now c k d v)) k) = Some (d, v)"
proof -
  let ?c = "cache_Set L now c k d v" and ?e = "fresh_entry now d v 0"
  let ?c' = "cache_run L ops ?c"
  note I = lru_spec.cache_inv_parts [OF lru inv]
  have len: "int (length (entries items c)) \<le> c_maxSize c"
    using lru_spec.size_bound [OF lru I(1)] I(2) by (simp add: entries_def)
  have "held {} k ?e (c_maxSize c) (insert_key (c_maxSize c) k ?e (entries items c))"
    using I(5) len K(2) by (intro held_after_insert) (auto simp: lru_spec.fst_entries [OF lru])
  then have "held K k ?e (c_maxSize c) (insert_key (c_maxSize c) k ?e (entries items c))"
    by (rule held_mono) simp
  then have h: "held K k ?e (c_maxSize c) (entries items ?c)"
    by (simp add: cache_Set_def lru_spec.SetWithTTL_entries [OF lru inv] ttl)
  have inv': "cache_inv items cap ok ?c"
    unfolding cache_Set_def using lru inv by (rule lru_spec.SetWithTTL_inv)
  have "c_maxSize ?c = c_maxSize c"
    by (simp add: cache_Set_def lru_spec.SetWithTTL_frame [OF lru])
  moreover have "ce_Expiry ?e = 0" by (simp add: fresh_entry_def)
  moreover note run = lru_spec.cache_run_refines [OF lru inv', of ops]
  ultimately have "held K k ?e (c_maxSize c) (entries items ?c')"
    using held_spec_run [OF h K _ ops] by (metis snd_conv)
  then have "map_of (entries items ?c') k = Some ?e" by (rule held_lookup)
  with lru_spec.fetch_value [OF lru run [THEN conjunct1]] show ?thesis
    by (simp add: cache_lookup_def fresh_entry_def expired_at_def)
qed

text \<open>
  In LRU-only mode (a default TTL of 0, the mode both workers use) an entry that was set is
  returned, with the same data and version and at any later time, as long as the operations in
  between name fewer other keys than the cache has room for.
\<close>

theorem lru_only_retention:
  assumes lru: "lru_spec L items cap ok" and inv: "cache_inv items cap ok c"
    and ttl: "c_defaultTTL c = 0"
    and K: "finite K" "int (card K) < c_maxSize c" "k \<notin> K" and ops: "list_all (within_keys K) ops"
  shows "snd (cache_fetch L later (cache_run L ops (cache_Set L now c k d v)) k) = Some (d, v)"
  by (rule retained_after_run [OF assms])

theorem lru_only_retention_witness:
  "\<exists>c. NewCache list_lru_ops \<lparr>cfg_MaxSize = 3, cfg_DefaultTTL = 0, cfg_CleanupInterval = 0\<rparr> = Inr c \<and>
     snd (cache_fetch list_lru_ops 99 (cache_run list_lru_ops
        [OpSet 2 ''a'' [] [], OpSet 3 ''b'' [] [], OpSet 4 ''a'' [] [], OpGet 5 ''b'', OpCleanup 50]
        (cache_Set list_lru_ops 1 c ''k'' ''data'' ''7'')) ''k'') = Some (''data'', ''7'')"
proof -
  let ?ops = "[OpSet 2 ''a'' [] [], OpSet 3 ''b'' [] [], OpSet 4 ''a'' [] [], OpGet 5 ''b'', OpCleanup 50]"
  obtain c where c: "NewCache list_lru_ops \<lparr>cfg_MaxSize = 3, cfg_DefaultTTL = 0, cfg_CleanupInterval = 0\<rparr> = Inr c"
    and size: "c_maxSize c = 3" and ttl: "c_defaultTTL c = 0"
    by (auto simp: NewCache_def list_lru_ops_def)
  have K: "finite {''a'', ''b''}" "int (card {''a'', ''b''}) < c_maxSize c" "''k'' \<notin> {''a'', ''b''}"
    "list_all (within_keys {''a'', ''b''}) ?ops"
    by (simp_all add: size)
  show ?thesis
    using c lru_only_retention [OF llru.lru_spec_axioms llru.NewCache_inv(1) [OF c] ttl K]
    by (intro exI conjI)
qed

section \<open>What a full cache drops, and how it is counted\<close>

text \<open>
  Setting a new key in a full cache drops the least recently used key and no other: the
  remaining entries keep their content and order, the new entry is the most recently used.
\<close>

theorem full_cache_evicts_oldest:
  assumes "lru_spec L items cap ok" and "cache_inv items cap ok c"
    and "entries items c = (old, e) # rest" and "cache_Len L c = c_maxSize c"
    and "key \<notin> fst ` set (entries items c)"
  shows "entries items (SetWithTTL L now c key d v ttl) = rest @ [(key, fresh_entry now d v ttl)]"
proof -
  have "cache_Len L c = int (length (entries items c))"
    using lru_spec.cache_inv_parts(1) [OF assms(1,2)] lru_spec.len_val [OF assms(1)]
    by (simp add: cache_Len_def entries_def)
  with assms(3-5) show ?thesis
    by (simp add: lru_spec.SetWithTTL_entries [OF assms(1,2)] insert_key_def)
qed

theorem full_cache_evicts_oldest_witness:
  "\<exists>c. entries ll_items c = [(''a'', zero_entry), (''b'', zero_entry)] \<and>
     entries ll_items (SetWithTTL list_lru_ops 5 c ''c'' ''x'' ''1'' 0) =
       [(''b'', zero_entry), (''c'', fresh_entry 5 ''x'' ''1'' 0)]"
proof -
  let ?c = "\<lparr>c_cache = \<lparr>ll_items = [(''a'', 0), (''b'', 1)], ll_cap = 2\<rparr>, c_heap = (\<lambda>_. zero_entry),
      c_fresh = 2, c_maxSize = 2, c_defaultTTL = 0, c_cleanupInterval = 0, c_hits = 0, c_misses = 0,
      c_evicts = 0, c_stopped = False\<rparr> :: list_lru Cache"
  have e: "entries ll_items ?c = (''a'', zero_entry) # [(''b'', zero_entry)]"
    by (simp add: entries_def)
  moreover have "cache_inv ll_items ll_cap list_lru_ok ?c"
    by (simp add: cache_inv_def list_lru_ok_def)
  moreover have "cache_Len list_lru_ops ?c = c_maxSize ?c"
    by (simp add: cache_Len_def list_lru_ops_def)
  moreover have "''c'' \<notin> fst ` set (entries ll_items ?c)" by (simp add: e)
  ultimately have "entries ll_items (SetWithTTL list_lru_ops 5 ?c ''c'' ''x'' ''1'' 0) =
      [(''b'', zero_entry)] @ [(''c'', fresh_entry 5 ''x'' ''1'' 0)]"
    by (intro full_cache_evicts_oldest [OF llru.lru_spec_axioms])
  with e show ?thesis by (intro exI [of _ ?c]) simp
qed

text \<open>
  The eviction counter counts more than evictions: overwriting a key of a full cache drops
  no key, yet the counter goes up by one.
\<close>

theorem overwrite_counted_as_eviction:
  assumes "lru_spec L items cap ok" and "cache_inv items cap ok c"
    and "cache_Len L c = c_maxSize c" and "key \<in> fst ` set (entries items c)"
  shows "fst ` set (entries items (SetWithTTL L now c key d v ttl)) = fst ` set (entries items c) \<and>
    c_evicts (SetWithTTL L now c key d v ttl) = i64 (c_evicts c + 1)"
proof -
  have "fst ` set (insert_key n key w (entries items c)) = fst ` set (entries items c)" for n w
    using assms(4) by (auto simp: insert_key_def)
  then have "fst ` set (entries items (SetWithTTL L now c key d v ttl)) = fst ` set (entries items c)"
    by (simp only: lru_spec.SetWithTTL_entries [OF assms(1,2)])
  with assms(3) show ?thesis
    by (simp add: SetWithTTL_def Let_def cache_Len_def)
qed

theorem overwrite_counted_as_eviction_witness:
  "\<exists>c. entries ll_items c = [(''a'', zero_entry)] \<and> c_evicts c = 0 \<and>
     fst ` set (entries ll_items (SetWithTTL list_lru_ops 5 c ''a'' ''x'' ''2'' 0)) = {''a''} \<and>
     c_evicts (SetWithTTL list_lru_ops 5 c ''a'' ''x'' ''2'' 0) = 1"
proof -
  let ?c = "\<lparr>c_cache = \<lparr>ll_items = [(''a'', 0)], ll_cap = 1\<rparr>, c_heap = (\<lambda>_. zero_entry),
      c_fresh = 1, c_maxSize = 1, c_defaultTTL = 0, c_cleanupInterval = 0, c_hits = 0, c_misses = 0,
      c_evicts = 0, c_stopped = False\<rparr> :: list_lru Cache"
  have e: "entries ll_items ?c = [(''a'', zero_entry)]"
    by (simp add: entries_def)
  moreover have "cache_inv ll_items ll_cap list_lru_ok ?c"
    by (simp add: cache_inv_def list_lru_ok_def)
  moreover have "cache_Len list_lru_ops ?c = c_maxSize ?c"
    by (simp add: cache_Len_def list_lru_ops_def)
  moreover have "''a'' \<in> fst ` set (entries ll_items ?c)" by (simp add: e)
  ultimately have "fst ` set (entries ll_items (SetWithTTL list_lru_ops 5 ?c ''a'' ''x'' ''2'' 0)) =
      fst ` set (entries ll_items ?c) \<and>
      c_evicts (SetWithTTL list_lru_ops 5 ?c ''a'' ''x'' ''2'' 0) = i64 (c_evicts ?c + 1)"
    by (intro overwrite_counted_as_eviction [OF llru.lru_spec_axioms])
  then show ?thesis
    unfolding e by (intro exI [of _ ?c] conjI e) (simp_all add: i64_def)
qed

section \<open>GetOrSet\<close>

text \<open>
  \<open>GetOrSet\<close> on every branch: a live entry is returned without looking at the loader; a
  loader error is passed on and nothing is cached under the key; otherwise the loaded pair is
  cached and returned, unless its TTL has already run out at the second lookup, in which case
  the caller gets a nil entry and no error.
\<close>

theorem GetOrSet_branches:
  assumes lru: "lru_spec L items cap ok" and inv: "cache_inv items cap ok c"
  shows "case GetOrSet L (t1, t2, t3) c key loaded of (c', r) \<Rightarrow>
    (case snd (cache_fetch L t1 c key) of
       Some (d, v) \<Rightarrow> (\<exists>p. r = Inr (Some p) \<and> ce_Data (c_heap c' p) = d \<and> ce_Version (c_heap c' p) = v)
     | None \<Rightarrow>
         (case loaded of
            Inl err \<Rightarrow> r = Inl err \<and> cache_lookup items c' key = None
          | Inr (d, v) \<Rightarrow>
              if 0 < c_defaultTTL c \<and> t2 + c_defaultTTL c \<noteq> 0 \<and> t2 + c_defaultTTL c < t3 then r = Inr None
              else \<exists>p. r = Inr (Some p) \<and> ce_Data (c_heap c' p) = d \<and> ce_Version (c_heap c' p) = v))"
proof -
  obtain c1 r1 where g1: "cache_Get L t1 c key = (c1, r1)" by force
  have inv1: "cache_inv items cap ok c1"
    using lru_spec.Get_inv [OF lru inv, of t1 key] g1 by simp
  have ttl1: "c_defaultTTL c1 = c_defaultTTL c"
    using lru_spec.Get_frame(2) [OF lru, of t1 c key] g1 by simp
  show ?thesis
  proof (cases r1)
    case (Some p)
    then show ?thesis by (simp add: GetOrSet_def g1 cache_fetch_def)
  next
    case None
    then have miss: "snd (cache_fetch L t1 c key) = None" and c1: "fst (cache_fetch L t1 c key) = c1"
      by (simp_all add: cache_fetch_def g1)
    have gone: "cache_lookup items c1 key = None"
      using lru_spec.fetch_effect [OF lru inv, of t1 key] miss c1 by simp
    show ?thesis
    proof (cases loaded)
      case (Inl err)
      then show ?thesis using None miss gone by (simp add: GetOrSet_def g1)
    next
      case (Inr dv)
      then obtain d v where l: "loaded = Inr (d, v)" by (cases dv) auto
      let ?c2 = "cache_Set L t2 c1 key d v"
      obtain c3 r3 where g3: "cache_Get L t3 ?c2 key = (c3, r3)" by force
      have "snd (cache_fetch L t3 ?c2 key) =
          (if expired_at t3 (set_expiry t2 c1) then None else Some (d, v))"
        by (rule lru_spec.fetch_after_Set [OF lru inv1])
      then show ?thesis
        using None miss g3
        by (auto simp: GetOrSet_def g1 l cache_fetch_def ttl1 set_expiry_def expired_at_def
            split: option.splits if_splits)
    qed
  qed
qed

theorem GetOrSet_branches_witness:
  "\<exists>c. NewCache list_lru_ops \<lparr>cfg_MaxSize = 1, cfg_DefaultTTL = 5, cfg_CleanupInterval = 0\<rparr> = Inr c \<and>
     snd (GetOrSet list_lru_ops (1, 2, 8) c ''k'' (Inr (''d'', ''1'') :: unit + bytes \<times> string)) = Inr None"
proof -
  obtain c where c: "NewCache list_lru_ops \<lparr>cfg_MaxSize = 1, cfg_DefaultTTL = 5, cfg_CleanupInterval = 0\<rparr> = Inr c"
    and ttl: "c_defaultTTL c = 5"
    by (auto simp: NewCache_def list_lru_ops_def)
  have "snd (cache_fetch list_lru_ops 1 c ''k'') = None"
    using llru.fetch_value [OF llru.NewCache_inv(1) [OF c]] llru.NewCache_inv(2) [OF c]
    by (simp add: cache_lookup_def)
  with GetOrSet_branches [OF llru.lru_spec_axioms llru.NewCache_inv(1) [OF c], where ?t1.0 = 1 and ?t2.0 = 2
      and ?t3.0 = 8 and key = "''k''" and loaded = "Inr (''d'', ''1'') :: unit + bytes \<times> string"] ttl
  have "snd (GetOrSet list_lru_ops (1, 2, 8) c ''k'' (Inr (''d'', ''1'') :: unit + bytes \<times> string)) = Inr None"
    by (auto split: prod.splits)
  with c show ?thesis by (intro exI conjI)
qed

end
