(* ===== verification/File_Paths.thy ===== *)
theory File_Paths
  imports Delta_Prelude
begin

text \<open>
  Path names of a POSIX system and the file tree the storage code works on.  \<open>Clean\<close> and \<open>Join\<close>
  are the functions of Go's path/filepath; \<open>resolve\<close> is the position in the tree that a path
  string names (the tree has no symbolic links): whether it is absolute, and its elements after
  removing empty elements, dots and dot pairs.  The system calls of package os that the program
  uses are functions on the tree.  Each takes a fault plan that says which calls fail for a
  reason outside the tree (disk full, permissions, an I/O error), and how many bytes a failing
  write has transferred.
\<close>

section \<open>Path strings\<close>

type_synonym path = "bool \<times> string list"

abbreviation slash :: char where "slash \<equiv> CHR ''/''"

fun split_slash :: "string \<Rightarrow> string list" where
  "split_slash [] = [[]]"
| "split_slash (c # s) =
     (if c = slash then [] # split_slash s
      else case split_slash s of [] \<Rightarrow> [[c]] | e # es \<Rightarrow> (c # e) # es)"

fun join_slash :: "string list \<Rightarrow> string" where
  "join_slash [] = []"
| "join_slash [e] = e"
| "join_slash (e # es) = e @ slash # join_slash es"

text \<open>One element of a path, on a stack of the elements kept so far (innermost first).\<close>

definition clean_step :: "bool \<Rightarrow> string \<Rightarrow> string list \<Rightarrow> string list" where
  "clean_step rooted e stack =
     (if e = [] \<or> e = ''.'' then stack
      else if e = ''..'' then
        (case stack of
           [] \<Rightarrow> if rooted then [] else [''..'']
         | e' # rest \<Rightarrow> if e' = ''..'' then ''..'' # stack else rest)
      else e # stack)"

definition is_rooted :: "string \<Rightarrow> bool" where
  "is_rooted p = HasPrefix p ''/''"

definition resolve :: "string \<Rightarrow> path" where
  "resolve p = (is_rooted p, rev (fold (clean_step (is_rooted p)) (split_slash p) []))"

definition path_string :: "path \<Rightarrow> string" where
  "path_string q =
     (if fst q then slash # join_slash (snd q)
      else if snd q = [] then ''.'' else join_slash (snd q))"

definition Clean :: "string \<Rightarrow> string" where
  "Clean p = path_string (resolve p)"

text \<open>\<open>filepath.Join\<close> of two elements: leading empty elements are dropped.\<close>

definition Join :: "string \<Rightarrow> string \<Rightarrow> string" where
  "Join dir name =
     (if dir \<noteq> [] then Clean (dir @ slash # name)
      else if name \<noteq> [] then Clean name
      else [])"

definition child :: "path \<Rightarrow> string \<Rightarrow> path" where
  "child d name = (fst d, snd d @ [name])"

definition parent :: "path \<Rightarrow> path" where
  "parent q = (fst q, butlast (snd q))"

text \<open>A name that denotes an entry of a directory.\<close>

definition plain_name :: "string \<Rightarrow> bool" where
  "plain_name e \<longleftrightarrow> e \<noteq> [] \<and> e \<noteq> ''.'' \<and> e \<noteq> ''..'' \<and> slash \<notin> set e"

subsection \<open>Splitting and joining\<close>

lemma split_slash_nonempty [simp]: "split_slash s \<noteq> []"
  by (induction s) (auto split: list.splits)

lemma split_slash_plain: "slash \<notin> set e \<Longrightarrow> split_slash e = [e]"
  by (induction e) auto

lemma split_slash_append: "split_slash (s @ slash # t) = split_slash s @ split_slash t"
  by (induction s) (auto split: list.splits)

lemma split_slash_elements: "e \<in> set (split_slash s) \<Longrightarrow> slash \<notin> set e"
  by (induction s arbitrary: e) (auto split: list.splits if_splits)

lemma split_join_slash:
  assumes "es \<noteq> []" and "\<forall>e \<in> set es. slash \<notin> set e"
  shows "split_slash (join_slash es) = es"
  using assms by (induction es rule: join_slash.induct) (auto simp: split_slash_plain split_slash_append)

lemma join_slash_Cons: "es \<noteq> [] \<Longrightarrow> join_slash (e # es) = e @ slash # join_slash es"
  by (cases es) auto

lemma join_slash_snoc: "es \<noteq> [] \<Longrightarrow> join_slash (es @ [e]) = join_slash es @ slash # e"
  by (induction es rule: join_slash.induct) (auto simp: join_slash_Cons)

lemma join_slash_last_append: "join_slash (es @ [e]) @ x = join_slash (es @ [e @ x])"
  by (cases "es = []") (auto simp: join_slash_snoc)

subsection \<open>Cleaned paths\<close>

text \<open>
  The shape of a stack: its elements are plain names, above dot pairs that only a relative
  path has.
\<close>

definition clean_stack :: "bool \<Rightarrow> string list \<Rightarrow> bool" where
  "clean_stack rooted stack \<longleftrightarrow>
     (\<exists>names n. stack = names @ replicate n ''..'' \<and> (\<forall>e \<in> set names. plain_name e) \<and> (rooted \<longrightarrow> n = 0))"

lemma clean_stackI:
  "stack = names @ replicate n ''..'' \<Longrightarrow> \<forall>e \<in> set names. plain_name e \<Longrightarrow> rooted \<longrightarrow> n = 0 \<Longrightarrow>
    clean_stack rooted stack"
  by (auto simp: clean_stack_def)

lemma clean_stack_step:
  assumes "clean_stack rooted stack" and "slash \<notin> set e"
  shows "clean_stack rooted (clean_step rooted e stack)"
proof -
  from assms(1) obtain names n where st: "stack = names @ replicate n ''..''"
    and pl: "\<forall>e \<in> set names. plain_name e" and ro: "rooted \<longrightarrow> n = 0"
    by (auto simp: clean_stack_def)
  consider (skip) "e = [] \<or> e = ''.''" | (up) "e = ''..''" | (name) "plain_name e"
    using assms(2) by (auto simp: plain_name_def)
  then show ?thesis
  proof cases
    case skip
    with assms(1) show ?thesis by (auto simp: clean_step_def)
  next
    case up
    show ?thesis
    proof (cases names)
      case Nil
      show ?thesis
      proof (cases rooted)
        case True
        with Nil up st ro show ?thesis by (simp add: clean_step_def clean_stack_def)
      next
        case False
        with Nil up st have "clean_step rooted e stack = [] @ replicate (Suc n) ''..''"
          by (cases n) (simp_all add: clean_step_def)
        then show ?thesis by (rule clean_stackI) (simp_all add: False)
      qed
    next
      case (Cons a as)
      with pl have "a \<noteq> ''..''" by (auto simp: plain_name_def)
      with up st Cons have "clean_step rooted e stack = as @ replicate n ''..''"
        by (simp add: clean_step_def)
      then show ?thesis by (rule clean_stackI) (use Cons pl ro in simp_all)
    qed
  next
    case name
    then have "clean_step rooted e stack = (e # names) @ replicate n ''..''"
      using st by (simp add: clean_step_def plain_name_def)
    then show ?thesis by (rule clean_stackI) (use name pl ro in simp_all)
  qed
qed

lemma clean_stack_fold:
  assumes "clean_stack rooted stack" and "\<forall>e \<in> set es. slash \<notin> set e"
  shows "clean_stack rooted (fold (clean_step rooted) es stack)"
  using assms by (induction es arbitrary: stack) (auto intro: clean_stack_step)

definition clean_path :: "path \<Rightarrow> bool" where
  "clean_path q = clean_stack (fst q) (rev (snd q))"

lemma resolve_clean [simp]: "clean_path (resolve p)"
proof -
  have "clean_stack r []" for r by (simp add: clean_stack_def)
  then show ?thesis
    by (simp add: clean_path_def resolve_def clean_stack_fold split_slash_elements)
qed

lemma fold_clean_names:
  "\<forall>e \<in> set es. plain_name e \<Longrightarrow> fold (clean_step r) es stack = rev es @ stack"
  by (induction es arbitrary: stack) (auto simp: clean_step_def plain_name_def)

lemma fold_clean_ups: "fold (clean_step False) (replicate n ''..'') (replicate m ''..'') = replicate (n + m) ''..''"
proof (induction n arbitrary: m)
  case (Suc n)
  have "clean_step False ''..'' (replicate m ''..'') = replicate (Suc m) ''..''"
    by (cases m) (simp_all add: clean_step_def)
  with Suc [of "Suc m"] show ?case by (simp add: replicate_app_Cons_same)
qed simp

text \<open>Elements of a cleaned path are kept as they are when the path is cleaned again.\<close>

lemma fold_clean_path: "clean_path q \<Longrightarrow> fold (clean_step (fst q)) (snd q) [] = rev (snd q)"
proof -
  assume "clean_path q"
  then obtain names n where rs: "rev (snd q) = names @ replicate n ''..''"
    and pl: "\<forall>e \<in> set names. plain_name e" and ro: "fst q \<longrightarrow> n = 0"
    by (auto simp: clean_path_def clean_stack_def)
  then have "snd q = rev (names @ replicate n ''..'')" by (metis rev_rev_ident)
  then have sq: "snd q = replicate n ''..'' @ rev names" by simp
  show ?thesis
  proof (cases "fst q")
    case True
    with ro sq pl show ?thesis by (simp add: fold_clean_names)
  next
    case False
    with fold_clean_ups [of n 0] pl show ?thesis by (simp add: sq fold_clean_names)
  qed
qed

lemma clean_path_elements:
  assumes "clean_path q" "e \<in> set (snd q)" shows "e \<noteq> []" "slash \<notin> set e" "e \<noteq> ''.''"
proof -
  from assms(1) obtain names n where rs: "rev (snd q) = names @ replicate n ''..''"
    and pl: "\<forall>e \<in> set names. plain_name e"
    by (auto simp: clean_path_def clean_stack_def)
  from assms(2) have "e \<in> set (rev (snd q))" by simp
  with rs have "e \<in> set names \<or> e = ''..''" by (auto simp: rs)
  with pl have "plain_name e \<or> e = ''..''" by auto
  then show "e \<noteq> []" "slash \<notin> set e" "e \<noteq> ''.''" by (auto simp: plain_name_def)
qed

text \<open>A cleaned path, printed and resolved again, is the same path.\<close>

lemma resolve_path_string:
  assumes "clean_path q"
  shows "resolve (path_string q) = q"
proof (cases "snd q")
  case Nil
  then show ?thesis
    by (cases q) (auto simp: path_string_def resolve_def is_rooted_def HasPrefix_def clean_step_def)
next
  case (Cons e es)
  have nosl: "\<forall>e \<in> set (snd q). slash \<notin> set e" and ne: "e \<noteq> []"
    using assms Cons by (auto dest: clean_path_elements)
  then obtain c e' where e: "e = c # e'" and "c \<noteq> slash" using Cons by (cases e) auto
  have js: "join_slash (snd q) = c # drop 1 (join_slash (snd q))"
    using Cons e by (cases es) auto
  have sp: "split_slash (join_slash (snd q)) = snd q" using nosl Cons by (simp add: split_join_slash)
  show ?thesis
  proof (cases "fst q")
    case True
    have "clean_step True [] st = st" for st by (simp add: clean_step_def)
    then show ?thesis
      using True sp fold_clean_path [OF assms]
      by (cases q) (simp add: path_string_def resolve_def is_rooted_def HasPrefix_def)
  next
    case False
    have "\<not> is_rooted (join_slash (snd q))"
      using \<open>c \<noteq> slash\<close> by (subst js) (simp add: is_rooted_def HasPrefix_def)
    then show ?thesis
      using False sp fold_clean_path [OF assms] Cons
      by (cases q) (simp add: path_string_def resolve_def)
  qed
qed

lemma resolve_Clean [simp]: "resolve (Clean p) = resolve p"
  by (simp add: Clean_def resolve_path_string)

lemma Clean_idem [simp]: "Clean (Clean p) = Clean p"
  by (simp add: Clean_def resolve_path_string)

lemma Clean_nonempty [simp]: "Clean p \<noteq> []"
  using clean_path_elements(1) [OF resolve_clean [of p]]
  by (cases "snd (resolve p)" rule: join_slash.cases) (auto simp: Clean_def path_string_def)

lemma Join_nonempty [simp]: "dir \<noteq> [] \<Longrightarrow> Join dir name \<noteq> []"
  by (simp add: Join_def)

lemma resolve_Join [simp]:
  assumes "dir \<noteq> []" and "plain_name name"
  shows "resolve (Join dir name) = child (resolve dir) name"
proof -
  from assms(1) have "is_rooted (dir @ slash # name) = is_rooted dir"
    by (cases dir) (simp_all add: is_rooted_def HasPrefix_def)
  moreover have "split_slash (dir @ slash # name) = split_slash dir @ [name]"
    using assms(2) by (simp add: split_slash_append split_slash_plain plain_name_def)
  moreover have "clean_step r name st = name # st" for r st
    using assms(2) by (simp add: clean_step_def plain_name_def)
  ultimately have "resolve (dir @ slash # name) = child (resolve dir) name"
    by (simp add: resolve_def child_def)
  with assms(1) show ?thesis by (simp add: Join_def)
qed

text \<open>Appending an extension to a joined path extends the name.\<close>

lemma Join_extension:
  assumes "dir \<noteq> []" and "plain_name name"
  shows "Join dir name @ x = path_string (child (resolve dir) (name @ x))"
proof -
  have "Join dir name = path_string (resolve (Join dir name))"
    using assms(1) by (simp add: Join_def Clean_def resolve_path_string)
  also have "\<dots> = path_string (child (resolve dir) name)" using assms by simp
  finally show ?thesis
    using join_slash_last_append [of "snd (resolve dir)" name x] by (simp add: path_string_def child_def)
qed

lemma clean_path_child: "clean_path d \<Longrightarrow> plain_name e \<Longrightarrow> clean_path (child d e)"
proof -
  assume "clean_path d" and e: "plain_name e"
  then obtain names n where d: "rev (snd d) = names @ replicate n ''..''"
    "\<forall>e \<in> set names. plain_name e" "fst d \<longrightarrow> n = 0"
    by (auto simp: clean_path_def clean_stack_def)
  have "rev (snd (child d e)) = (e # names) @ replicate n ''..''" by (simp add: child_def d)
  then show ?thesis
    unfolding clean_path_def by (rule clean_stackI) (use d e in \<open>simp_all add: child_def\<close>)
qed

lemma resolve_Join_extension [simp]:
  assumes "dir \<noteq> []" and "plain_name name" and "plain_name (name @ x)"
  shows "resolve (Join dir name @ x) = child (resolve dir) (name @ x)"
  using assms by (simp add: Join_extension resolve_path_string clean_path_child)

lemma child_inject [simp]: "child d a = child d b \<longleftrightarrow> a = b"
  by (simp add: child_def)

lemma child_neq [simp]: "child d a \<noteq> d"
  by (cases d) (simp add: child_def)

lemma parent_child [simp]: "parent (child d a) = d"
  by (simp add: parent_def child_def)

end
