(* ===== verification/Os_Files.thy ===== *)
theory Os_Files
  imports File_Paths "HOL-Library.List_Lexorder" "HOL-Library.Char_ord"
begin

text \<open>
  The calls of Go's package os on a file tree.  The tree is an association list from positions
  to nodes; the root, the working directory and its ancestors are always directories.  A fault
  plan maps each call to None (the call behaves normally) or to \<open>Some n\<close> (it fails for a reason
  outside the tree; a failing write has transferred n bytes).  Every operation of the program
  makes each call at most once, so a plan covers every combination of failures.  Calls return the
  new tree and an error, None standing for nil.
\<close>

datatype node = FileNode bytes | DirNode

type_synonym file_sys = "(path \<times> node) list"

datatype os_error = NotExist | IsDirectory | NotDirectory | NotEmpty | IOFault

datatype io_call =
    MkdirCall path
  | OpenCall path
  | WriteCall path
  | SyncCall path
  | CloseCall path
  | RenameCall path path
  | RemoveCall path
  | StatCall path
  | ReadCall path
  | ReadDirCall path
  | FlockCall path

type_synonym faults = "io_call \<Rightarrow> nat option"

definition no_faults :: faults where
  "no_faults c = None"

abbreviation node_at :: "file_sys \<Rightarrow> path \<Rightarrow> node option" where
  "node_at fs q \<equiv> map_of fs q"

definition set_node :: "path \<Rightarrow> node \<Rightarrow> file_sys \<Rightarrow> file_sys" where
  "set_node q n fs = AList.update q n fs"

definition del_node :: "path \<Rightarrow> file_sys \<Rightarrow> file_sys" where
  "del_node q fs = AList.delete q fs"

lemma node_at_set [simp]: "node_at (set_node q n fs) = (node_at fs)(q \<mapsto> n)"
  by (simp add: set_node_def update_conv' fun_eq_iff)

lemma node_at_del [simp]: "node_at (del_node q fs) = (node_at fs)(q := None)"
  by (simp add: del_node_def delete_conv' fun_eq_iff)

definition is_dir :: "file_sys \<Rightarrow> path \<Rightarrow> bool" where
  "is_dir fs q \<longleftrightarrow> list_all (\<lambda>e. e = ''..'') (snd q) \<or> node_at fs q = Some DirNode"

text \<open>The error of looking up a missing path: a file used as a directory is not "not exist".\<close>

definition missing_error :: "file_sys \<Rightarrow> path \<Rightarrow> os_error" where
  "missing_error fs q =
     (if list_ex (\<lambda>i. case node_at fs (fst q, take i (snd q)) of Some (FileNode _) \<Rightarrow> True | _ \<Rightarrow> False)
           [0..<length (snd q)]
      then NotDirectory else NotExist)"

definition dir_children :: "file_sys \<Rightarrow> path \<Rightarrow> (string \<times> node) list" where
  "dir_children fs d =
     [(last (snd q), the (node_at fs q)). q \<leftarrow> remdups (map fst fs), snd q \<noteq> [] \<and> parent q = d]"

section \<open>Calls\<close>

definition os_Mkdir :: "path \<Rightarrow> file_sys \<Rightarrow> file_sys \<times> os_error option" where
  "os_Mkdir q fs =
     (if is_dir fs q then (fs, None)
      else case node_at fs q of
             None \<Rightarrow> (set_node q DirNode fs, None)
           | Some _ \<Rightarrow> (fs, Some NotDirectory))"

text \<open>\<open>os.MkdirAll\<close> creates the missing ancestors from the outside in.\<close>

fun mkdirs :: "path list \<Rightarrow> file_sys \<Rightarrow> file_sys \<times> os_error option" where
  "mkdirs [] fs = (fs, None)"
| "mkdirs (q # qs) fs =
     (case os_Mkdir q fs of (fs', None) \<Rightarrow> mkdirs qs fs' | (fs', Some e) \<Rightarrow> (fs', Some e))"

definition os_MkdirAll :: "faults \<Rightarrow> string \<Rightarrow> file_sys \<Rightarrow> file_sys \<times> os_error option" where
  "os_MkdirAll F p fs =
     (let q = resolve p in
      if F (MkdirCall q) \<noteq> None then (fs, Some IOFault)
      else mkdirs (map (\<lambda>i. (fst q, take i (snd q))) [1..<Suc (length (snd q))]) fs)"

text \<open>\<open>os.OpenFile\<close> with O_CREATE, and with O_TRUNC when \<open>trunc\<close> holds.\<close>

definition os_OpenFile :: "faults \<Rightarrow> bool \<Rightarrow> string \<Rightarrow> file_sys \<Rightarrow> file_sys \<times> os_error option" where
  "os_OpenFile F trunc p fs =
     (let q = resolve p in
      if F (OpenCall q) \<noteq> None then (fs, Some IOFault)
      else if is_dir fs q then (fs, Some IsDirectory)
      else if \<not> is_dir fs (parent q) then (fs, Some (missing_error fs q))
      else if \<not> trunc \<and> node_at fs q \<noteq> None then (fs, None)
      else (set_node q (FileNode []) fs, None))"

text \<open>\<open>File.Write\<close> on a file just opened with O_TRUNC.\<close>

definition os_Write :: "faults \<Rightarrow> string \<Rightarrow> bytes \<Rightarrow> file_sys \<Rightarrow> file_sys \<times> os_error option" where
  "os_Write F p data fs =
     (let q = resolve p in
      case F (WriteCall q) of
        None \<Rightarrow> (set_node q (FileNode data) fs, None)
      | Some n \<Rightarrow> (set_node q (FileNode (take n data)) fs, Some IOFault))"

definition os_Sync :: "faults \<Rightarrow> string \<Rightarrow> os_error option" where
  "os_Sync F p = (if F (SyncCall (resolve p)) = None then None else Some IOFault)"

definition os_Close :: "faults \<Rightarrow> string \<Rightarrow> os_error option" where
  "os_Close F p = (if F (CloseCall (resolve p)) = None then None else Some IOFault)"

text \<open>\<open>os.Rename\<close> of a regular file (the program renames only files it has just written).\<close>

definition os_Rename :: "faults \<Rightarrow> string \<Rightarrow> string \<Rightarrow> file_sys \<Rightarrow> file_sys \<times> os_error option" where
  "os_Rename F src dst fs =
     (let q = resolve src; r = resolve dst in
      if F (RenameCall q r) \<noteq> None then (fs, Some IOFault)
      else case node_at fs q of
             None \<Rightarrow> (fs, Some (missing_error fs q))
           | Some DirNode \<Rightarrow> (fs, Some IsDirectory)
           | Some (FileNode data) \<Rightarrow>
               if is_dir fs r then (fs, Some IsDirectory)
               else if \<not> is_dir fs (parent r) then (fs, Some (missing_error fs r))
               else (set_node r (FileNode data) (del_node q fs), None))"

definition os_Remove :: "faults \<Rightarrow> string \<Rightarrow> file_sys \<Rightarrow> file_sys \<times> os_error option" where
  "os_Remove F p fs =
     (let q = resolve p in
      if F (RemoveCall q) \<noteq> None then (fs, Some IOFault)
      else case node_at fs q of
             None \<Rightarrow> (fs, Some (missing_error fs q))
           | Some (FileNode _) \<Rightarrow> (del_node q fs, None)
           | Some DirNode \<Rightarrow>
               if dir_children fs q = [] then (del_node q fs, None) else (fs, Some NotEmpty))"

definition os_Stat :: "faults \<Rightarrow> string \<Rightarrow> file_sys \<Rightarrow> os_error option" where
  "os_Stat F p fs =
     (let q = resolve p in
      if F (StatCall q) \<noteq> None then Some IOFault
      else if is_dir fs q then None
      else case node_at fs q of None \<Rightarrow> Some (missing_error fs q) | Some _ \<Rightarrow> None)"

definition os_ReadFile :: "faults \<Rightarrow> string \<Rightarrow> file_sys \<Rightarrow> os_error + bytes" where
  "os_ReadFile F p fs =
     (let q = resolve p in
      if F (ReadCall q) \<noteq> None then Inl IOFault
      else if is_dir fs q then Inl IsDirectory
      else case node_at fs q of
             Some (FileNode data) \<Rightarrow> Inr data
           | _ \<Rightarrow> Inl (missing_error fs q))"

text \<open>\<open>os.ReadDir\<close> returns the entries sorted by name.\<close>

definition os_ReadDir :: "faults \<Rightarrow> string \<Rightarrow> file_sys \<Rightarrow> os_error + (string \<times> node) list" where
  "os_ReadDir F p fs =
     (let q = resolve p in
      if F (ReadDirCall q) \<noteq> None then Inl IOFault
      else if is_dir fs q then Inr (sort_key fst (dir_children fs q))
      else case node_at fs q of
             Some _ \<Rightarrow> Inl NotDirectory
           | None \<Rightarrow> Inl (missing_error fs q))"

text \<open>\<open>os.WriteFile\<close>: open, write and close; a close error counts when the write succeeded.\<close>

definition os_WriteFile :: "faults \<Rightarrow> string \<Rightarrow> bytes \<Rightarrow> file_sys \<Rightarrow> file_sys \<times> os_error option" where
  "os_WriteFile F p data fs =
     (case os_OpenFile F True p fs of
        (fs1, Some e) \<Rightarrow> (fs1, Some e)
      | (fs1, None) \<Rightarrow>
          (case os_Write F p data fs1 of
             (fs2, Some e) \<Rightarrow> (fs2, Some e)
           | (fs2, None) \<Rightarrow> (fs2, os_Close F p)))"

section \<open>Lemmas\<close>

lemma no_faults_simp [simp]: "no_faults c = None"
  by (simp add: no_faults_def)

lemma set_dir_children:
  "set (dir_children fs d) = {(name, n). node_at fs (child d name) = Some n}"
proof -
  have ch: "q = child d name \<longleftrightarrow> snd q \<noteq> [] \<and> parent q = d \<and> last (snd q) = name" for q name
    by (cases q; cases "snd q" rule: rev_cases) (auto simp: parent_def child_def)
  have "(name, n) \<in> set (dir_children fs d) \<longleftrightarrow>
      (\<exists>q \<in> fst ` set fs. q = child d name \<and> the (node_at fs q) = n)" for name n
    unfolding ch by (force simp: dir_children_def)
  also have "(\<exists>q \<in> fst ` set fs. q = child d name \<and> the (node_at fs q) = n) \<longleftrightarrow>
      node_at fs (child d name) = Some n" for name n
    by (cases "node_at fs (child d name)")
      (auto simp: map_of_eq_None_iff dest: map_of_SomeD intro: image_eqI [of _ fst "(child d name, _)"])
  finally show ?thesis by auto
qed

lemma os_Mkdir_is_dir: "os_Mkdir q fs = (fs', None) \<Longrightarrow> is_dir fs' q"
  by (auto simp: os_Mkdir_def is_dir_def split: if_splits option.splits)

lemma os_Mkdir_keeps: "is_dir fs q \<Longrightarrow> is_dir (fst (os_Mkdir r fs)) q"
  by (auto simp: os_Mkdir_def is_dir_def split: if_splits option.splits)

lemma mkdirs_keeps: "is_dir fs q \<Longrightarrow> is_dir (fst (mkdirs qs fs)) q"
proof (induction qs arbitrary: fs)
  case (Cons r qs)
  from os_Mkdir_keeps [OF Cons.prems, of r] Cons.IH show ?case
    by (auto split: prod.splits option.splits)
qed simp

lemma mkdirs_is_dir: "mkdirs qs fs = (fs', None) \<Longrightarrow> q \<in> set qs \<Longrightarrow> is_dir fs' q"
proof (induction qs arbitrary: fs)
  case (Cons r qs)
  from Cons.prems(1) obtain fs1 where fs1: "os_Mkdir r fs = (fs1, None)" "mkdirs qs fs1 = (fs', None)"
    by (auto split: prod.splits option.splits)
  with Cons os_Mkdir_is_dir [OF fs1(1)] mkdirs_keeps [of fs1 q qs] show ?case by auto
qed simp

lemma os_MkdirAll_is_dir: "os_MkdirAll F p fs = (fs', None) \<Longrightarrow> is_dir fs' (resolve p)"
proof (cases "snd (resolve p) = []")
  case True
  then show ?thesis by (simp add: is_dir_def)
next
  case False
  assume "os_MkdirAll F p fs = (fs', None)"
  then have m: "mkdirs (map (\<lambda>i. (fst (resolve p), take i (snd (resolve p)))) [1..<Suc (length (snd (resolve p)))]) fs = (fs', None)"
    by (simp add: os_MkdirAll_def Let_def split: if_splits)
  show ?thesis
    by (rule mkdirs_is_dir [OF m])
      (use False in \<open>auto simp: image_iff intro!: bexI [of _ "length (snd (resolve p))"] Suc_leI simp del: upt_Suc\<close>)
qed

lemma os_MkdirAll_keeps: "is_dir fs q \<Longrightarrow> is_dir (fst (os_MkdirAll F p fs)) q"
  by (simp add: os_MkdirAll_def Let_def mkdirs_keeps)

text \<open>Directories survive every call except the removal of that directory.\<close>

lemma is_dir_set_file [simp]:
  "is_dir fs q \<Longrightarrow> \<not> is_dir fs r \<Longrightarrow> is_dir (set_node r n fs) q"
  by (auto simp: is_dir_def)

lemma is_dir_del [simp]: "is_dir fs q \<Longrightarrow> q \<noteq> r \<Longrightarrow> is_dir (del_node r fs) q"
  by (auto simp: is_dir_def)

end
