(* ===== verification/File_Storage.thy ===== *)
theory File_Storage
  imports Os_Files
begin

text \<open>
  The local storage backend of pkg/fs/storage.go and the interface \<open>StorageBackend\<close> of
  pkg/fs/backend.go.  An entity is two files of the files directory, the encrypted blob and its
  metadata as JSON text; encoding/json is a pair of functions for the metadata record.  Every
  operation runs on the tree of Os_Files under a fault plan.  The contract the workers rely on
  is the locale \<open>storage_backend\<close>, interpreted at the end on the local storage.
\<close>

datatype fs_error =
    ErrInvalidID
  | ErrFileNotFound
  | ErrWriteFailed string
  | ErrReadFailed string
  | FsFailed string os_error
  | FsMessage string

record FileMetadata =
  fm_KeyID :: string
  fm_Algorithm :: string
  fm_IV :: string
  fm_Tag :: string
  fm_SchemaID :: string
  fm_Version :: int
  fm_WriterID :: string
  fm_Timestamp :: gotime
  fm_Schema :: string
  fm_EntityKey :: string

record FileData =
  fd_Blob :: bytes
  fd_Metadata :: FileMetadata

record meta_codec =
  mc_marshal :: "FileMetadata \<Rightarrow> bytes option"
  mc_unmarshal :: "bytes \<Rightarrow> FileMetadata option"

text \<open>The metadata records that survive a round trip through their JSON text.\<close>

definition codable :: "meta_codec \<Rightarrow> FileMetadata \<Rightarrow> bool" where
  "codable J m = (case mc_marshal J m of None \<Rightarrow> False | Some text \<Rightarrow> mc_unmarshal J text = Some m)"

record Storage =
  st_basePath :: string

definition isValidEntityID :: "string \<Rightarrow> bool" where
  "isValidEntityID eid =
     (if eid = [] then False
      else if ContainsAny eid path_seps \<or> Contains eid ''..'' then False
      else True)"

section \<open>Operations\<close>

definition NewStorage :: "faults \<Rightarrow> string \<Rightarrow> file_sys \<Rightarrow> file_sys \<times> (fs_error + Storage)" where
  "NewStorage F basePath fs =
     (if basePath = [] then (fs, Inl (FsMessage ''base path cannot be empty''))
      else case os_MkdirAll F basePath fs of
             (fs1, Some e) \<Rightarrow> (fs1, Inl (FsFailed ''failed to create base directory'' e))
           | (fs1, None) \<Rightarrow>
               (case os_MkdirAll F (Join basePath ''files'') fs1 of
                  (fs2, Some e) \<Rightarrow> (fs2, Inl (FsFailed ''failed to create files directory'' e))
                | (fs2, None) \<Rightarrow>
                    (case os_MkdirAll F (Join basePath ''templates'') fs2 of
                       (fs3, Some e) \<Rightarrow> (fs3, Inl (FsFailed ''failed to create templates directory'' e))
                     | (fs3, None) \<Rightarrow> (fs3, Inr \<lparr>st_basePath = basePath\<rparr>))))"

definition GetFilesDir :: "Storage \<Rightarrow> string" where
  "GetFilesDir s = Join (st_basePath s) ''files''"

definition GetTemplatesDir :: "Storage \<Rightarrow> string" where
  "GetTemplatesDir s = Join (st_basePath s) ''templates''"

definition GetBlobPath :: "Storage \<Rightarrow> string \<Rightarrow> string" where
  "GetBlobPath s eid = Join (GetFilesDir s) (eid @ ''.json.enc'')"

definition GetMetaPath :: "Storage \<Rightarrow> string \<Rightarrow> string" where
  "GetMetaPath s eid = Join (GetFilesDir s) (eid @ ''.meta.json'')"

definition writeSynced :: "faults \<Rightarrow> string \<Rightarrow> bytes \<Rightarrow> file_sys \<Rightarrow> file_sys \<times> os_error option" where
  "writeSynced F p data fs =
     (case os_OpenFile F True p fs of
        (fs1, Some e) \<Rightarrow> (fs1, Some e)
      | (fs1, None) \<Rightarrow>
          (case os_Write F p data fs1 of
             (fs2, Some e) \<Rightarrow> (fs2, Some e)
           | (fs2, None) \<Rightarrow>
               (case os_Sync F p of
                  Some e \<Rightarrow> (fs2, Some e)
                | None \<Rightarrow> (fs2, os_Close F p))))"

definition WriteFile ::
    "meta_codec \<Rightarrow> Storage \<Rightarrow> faults \<Rightarrow> string \<Rightarrow> bytes \<Rightarrow> FileMetadata \<Rightarrow> file_sys
      \<Rightarrow> file_sys \<times> fs_error option" where
  "WriteFile J s F eid data metadata fs =
     (if \<not> isValidEntityID eid then (fs, Some ErrInvalidID)
      else
        let filesDir = GetFilesDir s;
            blobPath = Join filesDir (eid @ ''.json.enc'');
            metaPath = Join filesDir (eid @ ''.meta.json'');
            blobTempPath = blobPath @ ''.tmp'';
            metaTempPath = metaPath @ ''.tmp''
        in case mc_marshal J metadata of
             None \<Rightarrow> (fs, Some (ErrWriteFailed ''failed to marshal metadata''))
           | Some metaJSON \<Rightarrow>
               (case writeSynced F blobTempPath data fs of
                  (fs1, Some e) \<Rightarrow> (fs1, Some (ErrWriteFailed ''failed to write blob''))
                | (fs1, None) \<Rightarrow>
                    (case writeSynced F metaTempPath metaJSON fs1 of
                       (fs2, Some e) \<Rightarrow>
                         (fst (os_Remove F blobTempPath fs2), Some (ErrWriteFailed ''failed to write metadata''))
                     | (fs2, None) \<Rightarrow>
                         (case os_Rename F blobTempPath blobPath fs2 of
                            (fs3, Some e) \<Rightarrow>
                              (let fs4 = fst (os_Remove F blobTempPath fs3);
                                   fs5 = fst (os_Remove F metaTempPath fs4)
                               in (fs5, Some (ErrWriteFailed ''failed to rename blob'')))
                          | (fs3, None) \<Rightarrow>
                              (case os_Rename F metaTempPath metaPath fs3 of
                                 (fs4, Some e) \<Rightarrow>
                                   (fst (os_Remove F metaTempPath fs4),
                                    Some (ErrWriteFailed ''failed to rename metadata''))
                               | (fs4, None) \<Rightarrow> (fs4, None))))))"

text \<open>Only a "not exist" answer of Stat ends the read early; other Stat errors fall through.\<close>

definition fs_ReadFile :: "meta_codec \<Rightarrow> Storage \<Rightarrow> faults \<Rightarrow> file_sys \<Rightarrow> string \<Rightarrow> fs_error + FileData" where
  "fs_ReadFile J s F fs eid =
     (if \<not> isValidEntityID eid then Inl ErrInvalidID
      else
        let filesDir = GetFilesDir s;
            blobPath = Join filesDir (eid @ ''.json.enc'');
            metaPath = Join filesDir (eid @ ''.meta.json'')
        in if os_Stat F blobPath fs = Some NotExist then Inl ErrFileNotFound
           else if os_Stat F metaPath fs = Some NotExist then Inl ErrFileNotFound
           else case os_ReadFile F blobPath fs of
                  Inl e \<Rightarrow> Inl (ErrReadFailed ''failed to read blob'')
                | Inr blob \<Rightarrow>
                    (case os_ReadFile F metaPath fs of
                       Inl e \<Rightarrow> Inl (ErrReadFailed ''failed to read metadata'')
                     | Inr metaJSON \<Rightarrow>
                         (case mc_unmarshal J metaJSON of
                            None \<Rightarrow> Inl (ErrReadFailed ''failed to unmarshal metadata'')
                          | Some metadata \<Rightarrow> Inr \<lparr>fd_Blob = blob, fd_Metadata = metadata\<rparr>)))"

definition FileExists :: "Storage \<Rightarrow> faults \<Rightarrow> file_sys \<Rightarrow> string \<Rightarrow> bool" where
  "FileExists s F fs eid =
     (if \<not> isValidEntityID eid then False
      else
        let filesDir = GetFilesDir s;
            blobPath = Join filesDir (eid @ ''.json.enc'');
            metaPath = Join filesDir (eid @ ''.meta.json'')
        in os_Stat F blobPath fs = None \<and> os_Stat F metaPath fs = None)"

definition DeleteFile :: "Storage \<Rightarrow> faults \<Rightarrow> string \<Rightarrow> file_sys \<Rightarrow> file_sys \<times> fs_error option" where
  "DeleteFile s F eid fs =
     (if \<not> isValidEntityID eid then (fs, Some ErrInvalidID)
      else
        let filesDir = GetFilesDir s;
            blobPath = Join filesDir (eid @ ''.json.enc'');
            metaPath = Join filesDir (eid @ ''.meta.json'');
            (fs1, e1) = os_Remove F blobPath fs
        in if e1 \<noteq> None \<and> e1 \<noteq> Some NotExist then (fs1, Some (FsFailed ''failed to delete blob'' (the e1)))
           else let (fs2, e2) = os_Remove F metaPath fs1 in
             if e2 \<noteq> None \<and> e2 \<noteq> Some NotExist
             then (fs2, Some (FsFailed ''failed to delete metadata'' (the e2)))
             else (fs2, None))"

text \<open>The ids that one directory entry contributes to the set built by \<open>ListFiles\<close>.\<close>

definition entry_ids :: "string \<times> node \<Rightarrow> string list" where
  "entry_ids entry =
     (case entry of
        (name, DirNode) \<Rightarrow> []
      | (name, FileNode _) \<Rightarrow>
          (if 9 < length name \<and> drop (length name - 9) name = ''.json.enc''
           then [take (length name - 9) name] else []) @
          (if 10 < length name \<and> drop (length name - 10) name = ''.meta.json''
           then [take (length name - 10) name] else []))"

definition ListFiles :: "Storage \<Rightarrow> faults \<Rightarrow> file_sys \<Rightarrow> fs_error + string set" where
  "ListFiles s F fs =
     (case os_ReadDir F (GetFilesDir s) fs of
        Inl e \<Rightarrow> Inl (FsFailed ''failed to read directory'' e)
      | Inr entries \<Rightarrow> Inr (set (concat (map entry_ids entries))))"

definition WriteTemplate ::
    "Storage \<Rightarrow> faults \<Rightarrow> string \<Rightarrow> bytes \<Rightarrow> file_sys \<Rightarrow> file_sys \<times> fs_error option" where
  "WriteTemplate s F schemaID schemaData fs =
     (if \<not> isValidEntityID schemaID then (fs, Some (FsMessage ''invalid schema ID''))
      else
        let templatePath = Join (GetTemplatesDir s) (schemaID @ ''.json'') in
        case os_WriteFile F templatePath schemaData fs of
          (fs1, Some e) \<Rightarrow> (fs1, Some (FsFailed ''failed to write template'' e))
        | (fs1, None) \<Rightarrow> (fs1, None))"

definition ReadTemplate :: "Storage \<Rightarrow> faults \<Rightarrow> file_sys \<Rightarrow> string \<Rightarrow> fs_error + bytes" where
  "ReadTemplate s F fs schemaID =
     (if \<not> isValidEntityID schemaID then Inl (FsMessage ''invalid schema ID'')
      else
        let templatePath = Join (GetTemplatesDir s) (schemaID @ ''.json'') in
        case os_ReadFile F templatePath fs of
          Inl e \<Rightarrow> if e = NotExist then Inl ErrFileNotFound
                   else Inl (FsFailed ''failed to read template'' e)
        | Inr data \<Rightarrow> Inr data)"

section \<open>A directory of plain files\<close>

text \<open>
  A directory whose ancestors are directories and whose entries are files.  In such a directory
  each call is described by the fault plan and the content of the entry alone.
\<close>

definition plain_dir :: "path \<Rightarrow> file_sys \<Rightarrow> bool" where
  "plain_dir d fs \<longleftrightarrow> is_dir fs d \<and>
     (\<forall>i \<le> length (snd d). \<forall>b. node_at fs (fst d, take i (snd d)) \<noteq> Some (FileNode b)) \<and>
     (\<forall>name. node_at fs (child d name) \<noteq> Some DirNode)"

definition entry :: "path \<Rightarrow> file_sys \<Rightarrow> string \<Rightarrow> bytes option" where
  "entry d fs name = (case node_at fs (child d name) of Some (FileNode b) \<Rightarrow> Some b | _ \<Rightarrow> None)"

lemma ancestor_not_child: "i \<le> length (snd d) \<Longrightarrow> (fst d, take i (snd d)) \<noteq> child d name"
proof
  assume "i \<le> length (snd d)" "(fst d, take i (snd d)) = child d name"
  then have "length (take i (snd d)) = Suc (length (snd d))" by (simp add: child_def)
  then show False by simp
qed

lemma plain_dir_set [simp]: "plain_dir d fs \<Longrightarrow> plain_dir d (set_node (child d n) (FileNode b) fs)"
  by (auto simp: plain_dir_def is_dir_def ancestor_not_child dest: child_neq [symmetric, THEN notE])

lemma plain_dir_del [simp]: "plain_dir d fs \<Longrightarrow> plain_dir d (del_node (child d n) fs)"
  by (auto simp: plain_dir_def is_dir_def ancestor_not_child dest: child_neq [symmetric, THEN notE])

lemma entry_set [simp]: "entry d (set_node (child d n) (FileNode b) fs) = (entry d fs)(n \<mapsto> b)"
  by (simp add: entry_def fun_eq_iff)

lemma entry_del [simp]: "entry d (del_node (child d n) fs) = (entry d fs)(n := None)"
  by (simp add: entry_def fun_eq_iff)

lemma is_dir_child: "plain_dir d fs \<Longrightarrow> plain_name n \<Longrightarrow> \<not> is_dir fs (child d n)"
  by (auto simp: is_dir_def plain_dir_def plain_name_def child_def)

lemma node_at_child:
  "plain_dir d fs \<Longrightarrow> node_at fs (child d n) = map_option FileNode (entry d fs n)"
  by (cases "node_at fs (child d n)") (auto simp: plain_dir_def entry_def split: node.splits)

lemma missing_error_child: "plain_dir d fs \<Longrightarrow> missing_error fs (child d n) = NotExist"
  by (auto simp: missing_error_def plain_dir_def child_def list_ex_iff split: option.splits node.splits)

text \<open>The calls on an entry, under a path that resolves to it.\<close>

lemma OpenFile_entry:
  assumes "plain_dir d fs" "resolve p = child d n" "plain_name n"
  shows "os_OpenFile F True p fs =
     (if F (OpenCall (child d n)) \<noteq> None then (fs, Some IOFault)
      else (set_node (child d n) (FileNode []) fs, None))"
proof -
  have "is_dir fs d" using assms(1) by (simp add: plain_dir_def)
  with assms is_dir_child [OF assms(1,3)] show ?thesis by (simp add: os_OpenFile_def Let_def)
qed

lemma Rename_entry:
  assumes "plain_dir d fs" "resolve p = child d n" "plain_name n" "resolve p' = child d n'" "plain_name n'"
    and "entry d fs n = Some b"
  shows "os_Rename F p p' fs =
     (if F (RenameCall (child d n) (child d n')) \<noteq> None then (fs, Some IOFault)
      else (set_node (child d n') (FileNode b) (del_node (child d n) fs), None))"
proof -
  have "is_dir fs d" using assms(1) by (simp add: plain_dir_def)
  with assms is_dir_child [OF assms(1,5)] node_at_child [OF assms(1), of n] show ?thesis
    by (simp add: os_Rename_def Let_def)
qed

lemma Remove_entry:
  assumes "plain_dir d fs" "resolve p = child d n" "plain_name n"
  shows "os_Remove F p fs =
     (if F (RemoveCall (child d n)) \<noteq> None then (fs, Some IOFault)
      else if entry d fs n = None then (fs, Some NotExist)
      else (del_node (child d n) fs, None))"
  using assms node_at_child [OF assms(1), of n] missing_error_child [OF assms(1), of n]
  by (cases "entry d fs n") (simp_all add: os_Remove_def Let_def)

lemma Stat_entry:
  assumes "plain_dir d fs" "resolve p = child d n" "plain_name n"
  shows "os_Stat F p fs =
     (if F (StatCall (child d n)) \<noteq> None then Some IOFault
      else if entry d fs n = None then Some NotExist else None)"
  using assms node_at_child [OF assms(1), of n] missing_error_child [OF assms(1), of n]
    is_dir_child [OF assms(1,3)]
  by (cases "entry d fs n") (simp_all add: os_Stat_def Let_def)

lemma ReadFile_entry:
  assumes "plain_dir d fs" "resolve p = child d n" "plain_name n"
  shows "os_ReadFile F p fs =
     (if F (ReadCall (child d n)) \<noteq> None then Inl IOFault
      else case entry d fs n of None \<Rightarrow> Inl NotExist | Some b \<Rightarrow> Inr b)"
  using assms node_at_child [OF assms(1), of n] missing_error_child [OF assms(1), of n]
    is_dir_child [OF assms(1,3)]
  by (cases "entry d fs n") (simp_all add: os_ReadFile_def Let_def)

text \<open>
  A synced write either stores the data, or fails and leaves a part of it or nothing new; the
  other entries keep their content.
\<close>

lemma writeSynced_entry:
  assumes "plain_dir d fs" "resolve p = child d n" "plain_name n"
  shows "writeSynced F p data fs =
     (if F (OpenCall (child d n)) \<noteq> None then (fs, Some IOFault)
      else case F (WriteCall (child d n)) of
             Some k \<Rightarrow> (set_node (child d n) (FileNode (take k data)) (set_node (child d n) (FileNode []) fs), Some IOFault)
           | None \<Rightarrow> (set_node (child d n) (FileNode data) (set_node (child d n) (FileNode []) fs),
               if F (SyncCall (child d n)) = None \<and> F (CloseCall (child d n)) = None then None else Some IOFault))"
  using assms
  by (simp add: writeSynced_def OpenFile_entry os_Write_def os_Sync_def os_Close_def Let_def split: option.splits)

section \<open>Entity ids and file names\<close>

lemma isValidEntityID_iff:
  "isValidEntityID eid \<longleftrightarrow> eid \<noteq> [] \<and> slash \<notin> set eid \<and> CHR 0x5C \<notin> set eid \<and> \<not> sublist ''..'' eid"
  by (auto simp: isValidEntityID_def ContainsAny_iff Contains_iff_sublist)

lemma plain_name_suffix:
  assumes "isValidEntityID eid" and "slash \<notin> set x" and "2 < length x"
  shows "plain_name (eid @ x)"
proof -
  have "length (eid @ x) > 2" using assms(3) by simp
  then have "eid @ x \<noteq> ''.''" "eid @ x \<noteq> ''..''" by (metis One_nat_def length_Cons less_numeral_extra(3)
      list.size(3) numeral_2_eq_2 not_less_eq less_Suc_eq zero_less_one not_less0)+
  with assms show ?thesis by (auto simp: plain_name_def isValidEntityID_iff)
qed

definition files_at :: "Storage \<Rightarrow> path" where
  "files_at s = child (resolve (st_basePath s)) ''files''"

definition templates_at :: "Storage \<Rightarrow> path" where
  "templates_at s = child (resolve (st_basePath s)) ''templates''"

lemma plain_subdirs [simp]: "plain_name ''files''" "plain_name ''templates''"
  by (simp_all add: plain_name_def)

lemma resolve_dirs:
  assumes "st_basePath s \<noteq> []"
  shows "resolve (GetFilesDir s) = files_at s" "GetFilesDir s \<noteq> []"
    "resolve (GetTemplatesDir s) = templates_at s" "GetTemplatesDir s \<noteq> []"
  using assms by (simp_all add: GetFilesDir_def GetTemplatesDir_def files_at_def templates_at_def)

lemma entity_paths:
  assumes "st_basePath s \<noteq> []" and "isValidEntityID eid" and "slash \<notin> set x" "2 < length x" "slash \<notin> set y"
  shows "resolve (Join (GetFilesDir s) (eid @ x)) = child (files_at s) (eid @ x)"
    "resolve (Join (GetFilesDir s) (eid @ x) @ y) = child (files_at s) (eid @ x @ y)"
    "plain_name (eid @ x)" "plain_name (eid @ x @ y)"
proof -
  show pl: "plain_name (eid @ x)" using assms by (simp add: plain_name_suffix)
  have "plain_name (eid @ (x @ y))" using assms by (intro plain_name_suffix) auto
  then show pl': "plain_name (eid @ x @ y)" by simp
  show "resolve (Join (GetFilesDir s) (eid @ x)) = child (files_at s) (eid @ x)"
    using assms pl by (simp add: resolve_dirs)
  show "resolve (Join (GetFilesDir s) (eid @ x) @ y) = child (files_at s) (eid @ x @ y)"
    using assms pl pl' by (simp add: resolve_dirs)
qed

text \<open>The names of the four files of a write, and of the lock file, never coincide.\<close>

lemma entity_names_differ [simp]:
  "a @ ''.json.enc'' \<noteq> b @ ''.meta.json''" "a @ ''.meta.json'' \<noteq> b @ ''.json.enc''"
  "a @ ''.json.enc'' \<noteq> b @ ''.json.enc.tmp''" "a @ ''.json.enc.tmp'' \<noteq> b @ ''.json.enc''"
  "a @ ''.json.enc'' \<noteq> b @ ''.meta.json.tmp''" "a @ ''.meta.json.tmp'' \<noteq> b @ ''.json.enc''"
  "a @ ''.meta.json'' \<noteq> b @ ''.json.enc.tmp''" "a @ ''.json.enc.tmp'' \<noteq> b @ ''.meta.json''"
  "a @ ''.meta.json'' \<noteq> b @ ''.meta.json.tmp''" "a @ ''.meta.json.tmp'' \<noteq> b @ ''.meta.json''"
  "a @ ''.json.enc.tmp'' \<noteq> b @ ''.meta.json.tmp''" "a @ ''.meta.json.tmp'' \<noteq> b @ ''.json.enc.tmp''"
  "a @ ''.json.enc.lock'' \<noteq> b @ ''.json.enc''" "a @ ''.json.enc'' \<noteq> b @ ''.json.enc.lock''"
  "a @ ''.json.enc.lock'' \<noteq> b @ ''.meta.json''" "a @ ''.meta.json'' \<noteq> b @ ''.json.enc.lock''"
  "a @ ''.json.enc.lock'' \<noteq> b @ ''.json.enc.tmp''" "a @ ''.json.enc.tmp'' \<noteq> b @ ''.json.enc.lock''"
  "a @ ''.json.enc.lock'' \<noteq> b @ ''.meta.json.tmp''" "a @ ''.meta.json.tmp'' \<noteq> b @ ''.json.enc.lock''"
  by (rule notI, drule arg_cong [of _ _ rev], simp)+

definition storage_inv :: "Storage \<Rightarrow> file_sys \<Rightarrow> bool" where
  "storage_inv s fs \<longleftrightarrow> st_basePath s \<noteq> [] \<and> plain_dir (files_at s) fs"

lemma storage_inv_dir: "storage_inv s fs \<Longrightarrow> plain_dir (files_at s) fs"
  and storage_inv_base: "storage_inv s fs \<Longrightarrow> st_basePath s \<noteq> []"
  by (simp_all add: storage_inv_def)

lemma write_paths:
  assumes "storage_inv s fs" and "isValidEntityID eid"
  shows "resolve (Join (GetFilesDir s) (eid @ ''.json.enc'')) = child (files_at s) (eid @ ''.json.enc'')"
    "resolve (Join (GetFilesDir s) (eid @ ''.meta.json'')) = child (files_at s) (eid @ ''.meta.json'')"
    "resolve (Join (GetFilesDir s) (eid @ ''.json.enc'') @ ''.tmp'') = child (files_at s) (eid @ ''.json.enc.tmp'')"
    "resolve (Join (GetFilesDir s) (eid @ ''.meta.json'') @ ''.tmp'') = child (files_at s) (eid @ ''.meta.json.tmp'')"
    "plain_name (eid @ ''.json.enc'')" "plain_name (eid @ ''.meta.json'')"
    "plain_name (eid @ ''.json.enc.tmp'')" "plain_name (eid @ ''.meta.json.tmp'')"
  using entity_paths [OF storage_inv_base [OF assms(1)] assms(2), of "''.json.enc''" "''.tmp''"]
    entity_paths [OF storage_inv_base [OF assms(1)] assms(2), of "''.meta.json''" "''.tmp''"]
  by simp_all

text \<open>What a run of the four steps of \<open>WriteFile\<close> does to the files directory.\<close>

definition write_effect :: "string \<Rightarrow> bytes \<Rightarrow> bytes \<Rightarrow> fs_error option \<Rightarrow> (string \<rightharpoonup> bytes) \<Rightarrow> (string \<rightharpoonup> bytes) \<Rightarrow> bool" where
  "write_effect eid data text e E E' \<longleftrightarrow>
     (\<forall>n. n \<notin> {eid @ ''.json.enc'', eid @ ''.meta.json'', eid @ ''.json.enc.tmp'', eid @ ''.meta.json.tmp''} \<longrightarrow> E' n = E n) \<and>
     (if e = None
      then E' (eid @ ''.json.enc'') = Some data \<and> E' (eid @ ''.meta.json'') = Some text \<and>
        E' (eid @ ''.json.enc.tmp'') = None \<and> E' (eid @ ''.meta.json.tmp'') = None
      else E' (eid @ ''.meta.json'') = E (eid @ ''.meta.json'') \<and>
        (E' (eid @ ''.json.enc'') = E (eid @ ''.json.enc'') \<or>
         E' (eid @ ''.json.enc'') = Some data \<and> e = Some (ErrWriteFailed ''failed to rename metadata'')))"

lemma WriteFile_effect:
  assumes inv: "storage_inv s fs" and vid: "isValidEntityID eid" and tx: "mc_marshal J m = Some text"
  shows "let (fs', e) = WriteFile J s F eid data m fs in
     plain_dir (files_at s) fs' \<and> write_effect eid data text e (entry (files_at s) fs) (entry (files_at s) fs')"
  using vid tx storage_inv_dir [OF inv] write_paths [OF inv vid]
  by (simp add: WriteFile_def Let_def write_effect_def writeSynced_entry [where d = "files_at s"]
      Rename_entry [where d = "files_at s"] Remove_entry [where d = "files_at s"]
      split: option.splits if_splits)

definition stored :: "meta_codec \<Rightarrow> (string \<rightharpoonup> bytes) \<Rightarrow> string \<Rightarrow> fs_error + FileData" where
  "stored J E eid =
     (case (E (eid @ ''.json.enc''), E (eid @ ''.meta.json'')) of
        (Some blob, Some text) \<Rightarrow>
          (case mc_unmarshal J text of
             None \<Rightarrow> Inl (ErrReadFailed ''failed to unmarshal metadata'')
           | Some m \<Rightarrow> Inr \<lparr>fd_Blob = blob, fd_Metadata = m\<rparr>)
      | _ \<Rightarrow> Inl ErrFileNotFound)"

lemma ReadFile_stored:
  assumes inv: "storage_inv s fs"
  shows "fs_ReadFile J s no_faults fs eid =
    (if isValidEntityID eid then stored J (entry (files_at s) fs) eid else Inl ErrInvalidID)"
proof (cases "isValidEntityID eid")
  case vid: True
  show ?thesis
    using vid storage_inv_dir [OF inv] write_paths [OF inv vid]
    by (simp add: fs_ReadFile_def Let_def stored_def Stat_entry [where d = "files_at s"]
        ReadFile_entry [where d = "files_at s"] split: option.splits)
qed (simp add: fs_ReadFile_def)

text \<open>Faults can turn a successful read into an error, never into other data.\<close>

lemma ReadFile_faults:
  assumes "fs_ReadFile J s F fs eid = Inr x" and "storage_inv s fs"
  shows "fs_ReadFile J s no_faults fs eid = Inr x"
proof (cases "isValidEntityID eid")
  case vid: True
  show ?thesis
    using assms(1) vid storage_inv_dir [OF assms(2)] write_paths [OF assms(2) vid]
    by (simp add: fs_ReadFile_def Let_def Stat_entry [where d = "files_at s"]
        ReadFile_entry [where d = "files_at s"] split: option.splits if_splits)
next
  case False
  with assms(1) show ?thesis by (simp add: fs_ReadFile_def)
qed

lemma FileExists_entry:
  assumes inv: "storage_inv s fs" and vid: "isValidEntityID eid"
  shows "FileExists s no_faults fs eid \<longleftrightarrow>
    entry (files_at s) fs (eid @ ''.json.enc'') \<noteq> None \<and> entry (files_at s) fs (eid @ ''.meta.json'') \<noteq> None"
  using vid storage_inv_dir [OF inv] write_paths [OF inv vid]
  by (simp add: FileExists_def Let_def Stat_entry [where d = "files_at s"])

definition delete_effect :: "string \<Rightarrow> fs_error option \<Rightarrow> (string \<rightharpoonup> bytes) \<Rightarrow> (string \<rightharpoonup> bytes) \<Rightarrow> bool" where
  "delete_effect eid e E E' \<longleftrightarrow>
     (if e = None then E' = E(eid @ ''.json.enc'' := None, eid @ ''.meta.json'' := None)
      else E' = E \<or> E' = E(eid @ ''.json.enc'' := None))"

lemma DeleteFile_effect:
  assumes inv: "storage_inv s fs" and vid: "isValidEntityID eid"
  shows "let (fs', e) = DeleteFile s F eid fs in
     plain_dir (files_at s) fs' \<and> delete_effect eid e (entry (files_at s) fs) (entry (files_at s) fs')"
  using vid storage_inv_dir [OF inv] write_paths [OF inv vid]
  by (auto simp add: DeleteFile_def Let_def delete_effect_def Remove_entry [where d = "files_at s"]
      fun_upd_idem fun_upd_twist)

lemma no_faults_succeed:
  assumes inv: "storage_inv s fs" and vid: "isValidEntityID eid"
  shows "mc_marshal J m \<noteq> None \<Longrightarrow> snd (WriteFile J s no_faults eid data m fs) = None"
    and "snd (DeleteFile s no_faults eid fs) = None"
  using vid storage_inv_dir [OF inv] write_paths [OF inv vid]
  by (auto simp add: WriteFile_def DeleteFile_def Let_def writeSynced_entry [where d = "files_at s"]
      Rename_entry [where d = "files_at s"] Remove_entry [where d = "files_at s"])

lemma entry_ids_iff:
  "eid \<in> set (entry_ids (name, n)) \<longleftrightarrow>
     eid \<noteq> [] \<and> n \<noteq> DirNode \<and> (name = eid @ ''.json.enc'' \<or> name = eid @ ''.meta.json'')"
proof -
  have cut: "k < length name \<and> drop (length name - k) name = x \<and> eid = take (length name - k) name \<longleftrightarrow>
      eid \<noteq> [] \<and> name = eid @ x" if "length x = k" for x :: string and k
    using that by (metis append_eq_conv_conj append_take_drop_id diff_add_inverse2 length_append
        length_greater_0_conv less_add_same_cancel2 zero_less_diff length_take min.cobounded2
        length_drop diff_diff_cancel less_imp_le_nat add_diff_cancel_right')
  show ?thesis
    using cut [of "''.json.enc''" 9] cut [of "''.meta.json''" 10]
    by (cases n) (auto simp: entry_ids_def)
qed

lemma ListFiles_entry:
  assumes inv: "storage_inv s fs"
  shows "ListFiles s no_faults fs = Inr {eid. eid \<noteq> [] \<and>
    (entry (files_at s) fs (eid @ ''.json.enc'') \<noteq> None \<or> entry (files_at s) fs (eid @ ''.meta.json'') \<noteq> None)}"
proof -
  have d: "is_dir fs (files_at s)" and pd: "plain_dir (files_at s) fs"
    using inv by (simp_all add: storage_inv_def plain_dir_def)
  have "set (concat (map entry_ids (dir_children fs (files_at s)))) = {eid. eid \<noteq> [] \<and>
    (entry (files_at s) fs (eid @ ''.json.enc'') \<noteq> None \<or> entry (files_at s) fs (eid @ ''.meta.json'') \<noteq> None)}"
    by (auto simp: set_dir_children entry_ids_iff node_at_child [OF pd]) (metis node.distinct(1))+
  with d storage_inv_base [OF inv] show ?thesis
    by (simp add: ListFiles_def os_ReadDir_def resolve_dirs)
qed

section \<open>The contract of a storage backend\<close>

text \<open>
  \<open>wr\<close>, \<open>rd\<close> and \<open>del\<close> are WriteFile, ReadFile and DeleteFile of a backend, on its state and under
  a fault plan; \<open>ok\<close> is the plan without faults, \<open>inv\<close> the backend's invariant and \<open>cod\<close> holds of
  the metadata that survives encoding.
\<close>

locale storage_backend =
  fixes wr :: "'f \<Rightarrow> string \<Rightarrow> bytes \<Rightarrow> FileMetadata \<Rightarrow> 's \<Rightarrow> 's \<times> fs_error option"
    and rd :: "'f \<Rightarrow> 's \<Rightarrow> string \<Rightarrow> fs_error + FileData"
    and del :: "'f \<Rightarrow> string \<Rightarrow> 's \<Rightarrow> 's \<times> fs_error option"
    and ok :: 'f and inv :: "'s \<Rightarrow> bool" and cod :: "FileMetadata \<Rightarrow> bool"
  assumes write_inv: "inv s \<Longrightarrow> inv (fst (wr f eid b m s))"
    and delete_inv: "inv s \<Longrightarrow> inv (fst (del f eid s))"
    and read_fault: "inv s \<Longrightarrow> rd f s eid = Inr x \<Longrightarrow> rd ok s eid = Inr x"
    and write_read: "inv s \<Longrightarrow> cod m \<Longrightarrow> wr f eid b m s = (s', None) \<Longrightarrow>
      rd ok s' eid = Inr \<lparr>fd_Blob = b, fd_Metadata = m\<rparr>"
    and write_fail: "inv s \<Longrightarrow> wr f eid b m s = (s', r) \<Longrightarrow> rd ok s' eid = Inr x \<Longrightarrow>
      rd ok s eid = Inr x \<or> fd_Blob x = b"
    and write_frame: "inv s \<Longrightarrow> eid' \<noteq> eid \<Longrightarrow> rd ok (fst (wr f eid b m s)) eid' = rd ok s eid'"
    and delete_read: "inv s \<Longrightarrow> del f eid s = (s', None) \<Longrightarrow> rd ok s' eid = Inl ErrFileNotFound"
    and delete_fail: "inv s \<Longrightarrow> del f eid s = (s', Some e) \<Longrightarrow>
      rd ok s' eid = rd ok s eid \<or> rd ok s' eid = Inl ErrFileNotFound"
    and delete_frame: "inv s \<Longrightarrow> eid' \<noteq> eid \<Longrightarrow> rd ok (fst (del f eid s)) eid' = rd ok s eid'"
    and invalid_id: "\<not> isValidEntityID eid \<Longrightarrow> wr f eid b m s = (s, Some ErrInvalidID) \<and>
      del f eid s = (s, Some ErrInvalidID) \<and> rd f s eid = Inl ErrInvalidID"
    and write_succeeds: "inv s \<Longrightarrow> isValidEntityID eid \<Longrightarrow> cod m \<Longrightarrow> snd (wr ok eid b m s) = None"
    and delete_succeeds: "inv s \<Longrightarrow> isValidEntityID eid \<Longrightarrow> snd (del ok eid s) = None"

datatype 'f store_op = WriteOp 'f string bytes FileMetadata | DeleteOp 'f string

fun store_op_id :: "'f store_op \<Rightarrow> string" where
  "store_op_id (WriteOp f eid b m) = eid"
| "store_op_id (DeleteOp f eid) = eid"

fun store_step :: "('f \<Rightarrow> string \<Rightarrow> bytes \<Rightarrow> FileMetadata \<Rightarrow> 's \<Rightarrow> 's \<times> fs_error option) \<Rightarrow>
    ('f \<Rightarrow> string \<Rightarrow> 's \<Rightarrow> 's \<times> fs_error option) \<Rightarrow> 'f store_op \<Rightarrow> 's \<Rightarrow> 's" where
  "store_step wr del (WriteOp f eid b m) s = fst (wr f eid b m s)"
| "store_step wr del (DeleteOp f eid) s = fst (del f eid s)"

context storage_backend
begin

abbreviation run_ops :: "'f store_op list \<Rightarrow> 's \<Rightarrow> 's" where
  "run_ops ops s \<equiv> fold (store_step wr del) ops s"

lemma step_inv: "inv s \<Longrightarrow> inv (store_step wr del op s)"
  by (cases op) (simp_all add: write_inv delete_inv)

lemma run_inv: "inv s \<Longrightarrow> inv (run_ops ops s)"
  by (induction ops arbitrary: s) (simp_all add: step_inv)

lemma step_frame: "inv s \<Longrightarrow> store_op_id op \<noteq> eid \<Longrightarrow> rd ok (store_step wr del op s) eid = rd ok s eid"
  by (cases op) (simp_all add: write_frame delete_frame)

lemma run_frame:
  "inv s \<Longrightarrow> \<forall>op \<in> set ops. store_op_id op \<noteq> eid \<Longrightarrow> rd ok (run_ops ops s) eid = rd ok s eid"
  by (induction ops arbitrary: s) (simp_all add: step_inv step_frame)

lemma step_origin:
  assumes "inv s" and "rd ok (store_step wr del op s) eid = Inr x"
  shows "rd ok s eid = Inr x \<or> (\<exists>f m. op = WriteOp f eid (fd_Blob x) m)"
proof (cases "store_op_id op = eid")
  case False
  with assms step_frame show ?thesis by simp
next
  case True
  show ?thesis
  proof (cases op)
    case (WriteOp f e b m)
    with True assms write_fail [OF assms(1), of f eid b m] show ?thesis
      by (metis prod.collapse store_op_id.simps(1) store_step.simps(1))
  next
    case (DeleteOp f e)
    obtain s' r where d: "del f eid s = (s', r)" by (cases "del f eid s")
    with DeleteOp True assms delete_read [OF assms(1), of f eid s'] delete_fail [OF assms(1), of f eid s']
    show ?thesis by (cases r) auto
  qed
qed

text \<open>Whatever fails along the way, what can be read is an initial entity or carries a written blob.\<close>

lemma run_origin:
  assumes "inv s" and "rd ok (run_ops ops s) eid = Inr x"
  shows "rd ok s eid = Inr x \<or> (\<exists>f m. WriteOp f eid (fd_Blob x) m \<in> set ops)"
  using assms
proof (induction ops arbitrary: s)
  case (Cons op ops)
  with step_inv [OF Cons.prems(1)] have "rd ok (store_step wr del op s) eid = Inr x \<or>
      (\<exists>f m. WriteOp f eid (fd_Blob x) m \<in> set ops)" by simp
  with step_origin [OF Cons.prems(1), of op eid x] show ?case by auto
qed simp

text \<open>The last successful write of an entity is what is read, whatever happens to other entities.\<close>

lemma last_write_wins:
  assumes "inv s" and "cod m" and "snd (wr f eid b m (run_ops ops s)) = None"
    and "\<forall>op \<in> set ops'. store_op_id op \<noteq> eid"
  shows "rd ok (run_ops (ops @ WriteOp f eid b m # ops') s) eid = Inr \<lparr>fd_Blob = b, fd_Metadata = m\<rparr>"
proof -
  let ?s = "run_ops ops s"
  have "inv ?s" using assms(1) by (rule run_inv)
  moreover have "wr f eid b m ?s = (fst (wr f eid b m ?s), None)"
    using assms(3) by (metis prod.collapse)
  ultimately have "rd ok (fst (wr f eid b m ?s)) eid = Inr \<lparr>fd_Blob = b, fd_Metadata = m\<rparr>"
    using assms(2) write_read by blast
  with run_frame [OF write_inv [OF \<open>inv ?s\<close>] assms(4)] show ?thesis by simp
qed

lemma deleted_stays_away:
  assumes "inv s" and "snd (del f eid (run_ops ops s)) = None"
    and "\<forall>op \<in> set ops'. store_op_id op \<noteq> eid"
  shows "rd ok (run_ops (ops @ DeleteOp f eid # ops') s) eid = Inl ErrFileNotFound"
proof -
  let ?s = "run_ops ops s"
  have "inv ?s" using assms(1) by (rule run_inv)
  moreover have "del f eid ?s = (fst (del f eid ?s), None)"
    using assms(2) by (metis prod.collapse)
  ultimately have "rd ok (fst (del f eid ?s)) eid = Inl ErrFileNotFound"
    using delete_read by blast
  with run_frame [OF delete_inv [OF \<open>inv ?s\<close>] assms(3)] show ?thesis by simp
qed

end

section \<open>The local storage keeps the contract\<close>

lemma stored_cong:
  "E' (eid @ ''.json.enc'') = E (eid @ ''.json.enc'') \<Longrightarrow> E' (eid @ ''.meta.json'') = E (eid @ ''.meta.json'') \<Longrightarrow>
    stored J E' eid = stored J E eid"
  by (simp add: stored_def)

lemma stored_no_blob: "E (eid @ ''.json.enc'') = None \<Longrightarrow> stored J E eid = Inl ErrFileNotFound"
  by (simp add: stored_def)

lemma stored_blob: "stored J E eid = Inr x \<Longrightarrow> E (eid @ ''.json.enc'') = Some (fd_Blob x)"
  by (auto simp: stored_def split: option.splits)

lemma stored_write:
  assumes "write_effect eid data text e E E'" and "eid' \<noteq> eid"
  shows "stored J E' eid' = stored J E eid'"
  using assms unfolding write_effect_def stored_def by simp

lemma WriteFile_invalid: "\<not> isValidEntityID eid \<Longrightarrow> WriteFile J s F eid b m fs = (fs, Some ErrInvalidID)"
  by (simp add: WriteFile_def)

lemma WriteFile_unmarshalable:
  "isValidEntityID eid \<Longrightarrow> mc_marshal J m = None \<Longrightarrow>
    WriteFile J s F eid b m fs = (fs, Some (ErrWriteFailed ''failed to marshal metadata''))"
  by (simp add: WriteFile_def Let_def)

lemma WriteFile_cases:
  assumes "storage_inv s fs" and "WriteFile J s F eid b m fs = (fs', e)"
  shows "storage_inv s fs' \<and>
    (fs' = fs \<and> e \<noteq> None \<or>
     isValidEntityID eid \<and> (\<exists>text. mc_marshal J m = Some text \<and>
       write_effect eid b text e (entry (files_at s) fs) (entry (files_at s) fs')))"
  using assms WriteFile_effect [OF assms(1), of eid J m _ F b] WriteFile_invalid [of eid J s F b m fs]
    WriteFile_unmarshalable [of eid J m s F b fs]
  by (cases "isValidEntityID eid"; cases "mc_marshal J m") (auto simp: storage_inv_def)

lemma DeleteFile_cases:
  assumes "storage_inv s fs" and "DeleteFile s F eid fs = (fs', e)"
  shows "storage_inv s fs' \<and>
    (if isValidEntityID eid then delete_effect eid e (entry (files_at s) fs) (entry (files_at s) fs')
     else fs' = fs \<and> e = Some ErrInvalidID)"
  using assms DeleteFile_effect [OF assms(1), of eid F]
  by (cases "isValidEntityID eid") (auto simp: storage_inv_def DeleteFile_def)

lemma stored_delete:
  assumes "delete_effect eid e E E'" and "eid' \<noteq> eid"
  shows "stored J E' eid' = stored J E eid'"
  using assms unfolding delete_effect_def by (intro stored_cong) (auto split: if_splits)

lemma stored_after_write:
  assumes "write_effect eid b text e E E'" and "stored J E' eid = Inr x"
  shows "stored J E eid = Inr x \<or> fd_Blob x = b"
proof (cases "E' (eid @ ''.json.enc'') = Some b")
  case True
  with stored_blob [OF assms(2)] show ?thesis by simp
next
  case False
  with assms(1) have "stored J E' eid = stored J E eid"
    unfolding write_effect_def by (intro stored_cong) (auto split: if_splits)
  with assms(2) show ?thesis by simp
qed

lemma stored_after_delete:
  assumes "delete_effect eid e E E'"
  shows "stored J E' eid = Inl ErrFileNotFound \<or> e \<noteq> None \<and> stored J E' eid = stored J E eid"
proof (cases "e \<noteq> None \<and> E' = E")
  case False
  with assms have "E' (eid @ ''.json.enc'') = None" by (auto simp: delete_effect_def split: if_splits)
  then show ?thesis by (simp add: stored_no_blob)
qed simp

interpretation local_fs: storage_backend "WriteFile J s" "fs_ReadFile J s" "DeleteFile s"
    no_faults "storage_inv s" "codable J" for J s
proof
  fix fs f eid b m
  assume inv: "storage_inv s fs"
  show i: "storage_inv s (fst (WriteFile J s f eid b m fs))"
    using WriteFile_cases [OF inv, of J f eid b m] by (metis prod.collapse)
  show "fs_ReadFile J s no_faults (fst (WriteFile J s f eid b m fs)) eid' = fs_ReadFile J s no_faults fs eid'"
    if "eid' \<noteq> eid" for eid'
    using WriteFile_cases [OF inv, of J f eid b m "fst (WriteFile J s f eid b m fs)" "snd (WriteFile J s f eid b m fs)"]
      that inv i by (auto simp: ReadFile_stored stored_write)
next
  fix fs f eid
  assume inv: "storage_inv s fs"
  have c: "storage_inv s (fst (DeleteFile s f eid fs)) \<and>
    (if isValidEntityID eid then delete_effect eid (snd (DeleteFile s f eid fs)) (entry (files_at s) fs)
        (entry (files_at s) (fst (DeleteFile s f eid fs)))
     else fst (DeleteFile s f eid fs) = fs \<and> snd (DeleteFile s f eid fs) = Some ErrInvalidID)"
    using DeleteFile_cases [OF inv, of f eid] by (metis prod.collapse)
  then show "storage_inv s (fst (DeleteFile s f eid fs))" by simp
  show "fs_ReadFile J s no_faults (fst (DeleteFile s f eid fs)) eid' = fs_ReadFile J s no_faults fs eid'"
    if "eid' \<noteq> eid" for eid'
    using c that inv by (auto simp: ReadFile_stored stored_delete split: if_splits)
  show "fs_ReadFile J s no_faults fs' eid = Inl ErrFileNotFound" if "DeleteFile s f eid fs = (fs', None)" for fs'
    using c that stored_after_delete [of eid None _ _ J] by (auto simp: ReadFile_stored split: if_splits)
  show "fs_ReadFile J s no_faults fs' eid = fs_ReadFile J s no_faults fs eid \<or>
      fs_ReadFile J s no_faults fs' eid = Inl ErrFileNotFound" if "DeleteFile s f eid fs = (fs', Some e)" for fs' e
    using c that inv stored_after_delete [of eid "Some e" _ _ J] by (auto simp: ReadFile_stored split: if_splits)
next
  fix fs f eid b m fs'
  assume inv: "storage_inv s fs" and "codable J m" and w: "WriteFile J s f eid b m fs = (fs', None)"
  from WriteFile_cases [OF inv w] obtain js where vid: "isValidEntityID eid" and inv': "storage_inv s fs'"
    and tx: "mc_marshal J m = Some js"
    and eff: "write_effect eid b js None (entry (files_at s) fs) (entry (files_at s) fs')" by auto
  from \<open>codable J m\<close> tx have "mc_unmarshal J js = Some m" by (simp add: codable_def)
  with eff have "stored J (entry (files_at s) fs') eid = Inr \<lparr>fd_Blob = b, fd_Metadata = m\<rparr>"
    by (simp add: stored_def write_effect_def)
  with vid inv' show "fs_ReadFile J s no_faults fs' eid = Inr \<lparr>fd_Blob = b, fd_Metadata = m\<rparr>"
    by (simp add: ReadFile_stored)
next
  fix fs f eid b m fs' r x
  assume inv: "storage_inv s fs" and w: "WriteFile J s f eid b m fs = (fs', r)"
    and x: "fs_ReadFile J s no_faults fs' eid = Inr x"
  have c: "storage_inv s fs'" using WriteFile_cases [OF inv w] by simp
  show "fs_ReadFile J s no_faults fs eid = Inr x \<or> fd_Blob x = b"
  proof (cases "fs' = fs")
    case False
    with WriteFile_cases [OF inv w] obtain js where "isValidEntityID eid"
      and eff: "write_effect eid b js r (entry (files_at s) fs) (entry (files_at s) fs')" by auto
    with stored_after_write [OF eff, of J x] x inv c show ?thesis by (simp add: ReadFile_stored)
  qed (use x in simp)
next
  fix fs eid b m
  assume "storage_inv s fs" "isValidEntityID eid" "codable J m"
  then show "snd (WriteFile J s no_faults eid b m fs) = None"
    by (intro no_faults_succeed) (auto simp: codable_def split: option.splits)
next
  fix fs eid b m and f :: faults
  assume "\<not> isValidEntityID eid"
  then show "WriteFile J s f eid b m fs = (fs, Some ErrInvalidID) \<and>
      DeleteFile s f eid fs = (fs, Some ErrInvalidID) \<and> fs_ReadFile J s f fs eid = Inl ErrInvalidID"
    by (simp add: WriteFile_def DeleteFile_def fs_ReadFile_def)
qed (auto intro: ReadFile_faults no_faults_succeed)

section \<open>Where stored data comes from\<close>

text \<open>
  The contract extended by an account of provenance: \<open>sat PB PM s\<close> says that every blob kept for
  an entity satisfies \<open>PB\<close> and every metadata record \<open>PM\<close>, the two separately, since a failed
  write can leave them from different writes.
\<close>

locale storage_origin = storage_backend wr rd del ok inv cod
  for wr :: "'f \<Rightarrow> string \<Rightarrow> bytes \<Rightarrow> FileMetadata \<Rightarrow> 's \<Rightarrow> 's \<times> fs_error option"
    and rd del ok inv cod +
  fixes sat :: "(string \<Rightarrow> bytes \<Rightarrow> bool) \<Rightarrow> (string \<Rightarrow> FileMetadata \<Rightarrow> bool) \<Rightarrow> 's \<Rightarrow> bool"
  assumes sat_read: "inv s \<Longrightarrow> sat PB PM s \<Longrightarrow> rd f s eid = Inr x \<Longrightarrow> PB eid (fd_Blob x) \<and> PM eid (fd_Metadata x)"
    and sat_write: "inv s \<Longrightarrow> sat PB PM s \<Longrightarrow> PB eid b \<Longrightarrow> PM eid m \<Longrightarrow> cod m \<Longrightarrow> sat PB PM (fst (wr f eid b m s))"
    and sat_delete: "inv s \<Longrightarrow> sat PB PM s \<Longrightarrow> sat PB PM (fst (del f eid s))"
    and sat_mono: "sat PB PM s \<Longrightarrow> (\<And>e b. PB e b \<Longrightarrow> PB' e b) \<Longrightarrow> (\<And>e m. PM e m \<Longrightarrow> PM' e m) \<Longrightarrow> sat PB' PM' s"

definition files_satisfy ::
    "meta_codec \<Rightarrow> Storage \<Rightarrow> (string \<Rightarrow> bytes \<Rightarrow> bool) \<Rightarrow> (string \<Rightarrow> FileMetadata \<Rightarrow> bool) \<Rightarrow> file_sys \<Rightarrow> bool" where
  "files_satisfy J s PB PM fs \<longleftrightarrow>
     (\<forall>eid b. entry (files_at s) fs (eid @ ''.json.enc'') = Some b \<longrightarrow> PB eid b) \<and>
     (\<forall>eid t m. entry (files_at s) fs (eid @ ''.meta.json'') = Some t \<longrightarrow> mc_unmarshal J t = Some m \<longrightarrow> PM eid m)"

lemma files_satisfy_write:
  assumes old: "files_satisfy J s PB PM fs" and eff: "write_effect eid b js e (entry (files_at s) fs) (entry (files_at s) fs')"
    and "PB eid b" and "PM eid m" and "mc_unmarshal J js = Some m"
  shows "files_satisfy J s PB PM fs'"
proof -
  let ?E = "entry (files_at s) fs" and ?E' = "entry (files_at s) fs'"
  have frame: "?E' n = ?E n" if "n \<noteq> eid @ ''.json.enc''" "n \<noteq> eid @ ''.meta.json''"
      "n \<noteq> eid @ ''.json.enc.tmp''" "n \<noteq> eid @ ''.meta.json.tmp''" for n
    using eff that by (simp add: write_effect_def)
  have "?E' (eid @ ''.json.enc'') = ?E (eid @ ''.json.enc'') \<or> ?E' (eid @ ''.json.enc'') = Some b"
    using eff by (auto simp: write_effect_def split: if_splits)
  moreover have "?E' (eid @ ''.meta.json'') = ?E (eid @ ''.meta.json'') \<or> ?E' (eid @ ''.meta.json'') = Some js"
    using eff by (simp add: write_effect_def split: if_splits)
  moreover have "?E' (x @ ''.json.enc'') = ?E (x @ ''.json.enc'')" "?E' (x @ ''.meta.json'') = ?E (x @ ''.meta.json'')"
    if "x \<noteq> eid" for x
    using that by (intro frame; simp)+
  ultimately show ?thesis
    using old assms(3-5) unfolding files_satisfy_def by (metis option.inject)
qed

lemma files_satisfy_delete:
  assumes old: "files_satisfy J s PB PM fs" and eff: "delete_effect eid e (entry (files_at s) fs) (entry (files_at s) fs')"
  shows "files_satisfy J s PB PM fs'"
proof -
  have "entry (files_at s) fs' n = None \<or> entry (files_at s) fs' n = entry (files_at s) fs n" for n
    using eff by (auto simp: delete_effect_def split: if_splits)
  with old show ?thesis unfolding files_satisfy_def by (metis option.distinct(1))
qed

interpretation local_origin: storage_origin "WriteFile J s" "fs_ReadFile J s" "DeleteFile s"
    no_faults "storage_inv s" "codable J" "files_satisfy J s" for J s
proof
  fix fs f eid x and PB :: "string \<Rightarrow> bytes \<Rightarrow> bool" and PM :: "string \<Rightarrow> FileMetadata \<Rightarrow> bool"
  assume inv: "storage_inv s fs" and sat: "files_satisfy J s PB PM fs" and "fs_ReadFile J s f fs eid = Inr x"
  then have "fs_ReadFile J s no_faults fs eid = Inr x" by (intro ReadFile_faults)
  with inv have "stored J (entry (files_at s) fs) eid = Inr x" by (simp add: ReadFile_stored split: if_splits)
  then obtain b js m where "entry (files_at s) fs (eid @ ''.json.enc'') = Some b"
    "entry (files_at s) fs (eid @ ''.meta.json'') = Some js" "mc_unmarshal J js = Some m" "x = \<lparr>fd_Blob = b, fd_Metadata = m\<rparr>"
    by (auto simp: stored_def split: option.splits)
  with sat show "PB eid (fd_Blob x) \<and> PM eid (fd_Metadata x)" by (simp add: files_satisfy_def)
next
  fix fs f eid b m and PB :: "string \<Rightarrow> bytes \<Rightarrow> bool" and PM :: "string \<Rightarrow> FileMetadata \<Rightarrow> bool"
  assume inv: "storage_inv s fs" and sat: "files_satisfy J s PB PM fs" and p: "PB eid b" "PM eid m" and cod: "codable J m"
  obtain fs' e where w: "WriteFile J s f eid b m fs = (fs', e)" by (cases "WriteFile J s f eid b m fs")
  from cod obtain js where js: "mc_marshal J m = Some js" "mc_unmarshal J js = Some m"
    by (auto simp: codable_def split: option.splits)
  from WriteFile_cases [OF inv w] js(1) sat files_satisfy_write [OF sat _ p js(2)]
  show "files_satisfy J s PB PM (fst (WriteFile J s f eid b m fs))" by (auto simp: w)
next
  fix fs f eid and PB :: "string \<Rightarrow> bytes \<Rightarrow> bool" and PM :: "string \<Rightarrow> FileMetadata \<Rightarrow> bool"
  assume inv: "storage_inv s fs" and sat: "files_satisfy J s PB PM fs"
  obtain fs' e where w: "DeleteFile s f eid fs = (fs', e)" by (cases "DeleteFile s f eid fs")
  from DeleteFile_cases [OF inv w] sat files_satisfy_delete [OF sat]
  show "files_satisfy J s PB PM (fst (DeleteFile s f eid fs))" by (auto simp: w split: if_splits)
qed (auto simp: files_satisfy_def)

end
