(* ===== verification/Storage_Properties.thy ===== *)
theory Storage_Properties
  imports File_Storage
begin

text \<open>
  What the local storage guarantees to its users: where its files lie, what a read returns after
  any sequence of writes and deletions with any failures, what a failed write leaves behind, and
  what reopening a store keeps.
\<close>

section \<open>Opening a store\<close>

lemma os_Mkdir_nodes: "node_at (fst (os_Mkdir q fs)) r = node_at fs r \<or>
    r = q \<and> node_at fs r = None \<and> node_at (fst (os_Mkdir q fs)) r = Some DirNode"
  by (auto simp: os_Mkdir_def split: option.splits)

lemma mkdirs_nodes: "node_at (fst (mkdirs qs fs)) r = node_at fs r \<or>
    r \<in> set qs \<and> node_at fs r = None \<and> node_at (fst (mkdirs qs fs)) r = Some DirNode"
proof (induction qs arbitrary: fs)
  case (Cons q qs)
  obtain fs1 e where q: "os_Mkdir q fs = (fs1, e)" by (cases "os_Mkdir q fs")
  from os_Mkdir_nodes [of q fs r] q Cons.IH [of fs1] show ?case by (cases e) auto
qed simp

lemma os_MkdirAll_nodes: "node_at (fst (os_MkdirAll F p fs)) r = node_at fs r \<or>
    (\<exists>i \<le> length (snd (resolve p)). r = (fst (resolve p), take i (snd (resolve p)))) \<and>
      node_at fs r = None \<and> node_at (fst (os_MkdirAll F p fs)) r = Some DirNode"
  using mkdirs_nodes [of "map (\<lambda>i. (fst (resolve p), take i (snd (resolve p)))) [1..<Suc (length (snd (resolve p)))]" fs r]
  by (auto simp: os_MkdirAll_def Let_def less_Suc_eq_le simp del: upt_Suc)

lemma NewStorage_cases:
  assumes "NewStorage F base fs = (fs', Inr s)"
  obtains fs1 fs2 where "base \<noteq> []" "s = \<lparr>st_basePath = base\<rparr>" "os_MkdirAll F base fs = (fs1, None)"
    "os_MkdirAll F (GetFilesDir s) fs1 = (fs2, None)" "os_MkdirAll F (GetTemplatesDir s) fs2 = (fs', None)"
  using assms
  by (auto simp: NewStorage_def GetFilesDir_def GetTemplatesDir_def split: if_splits prod.splits option.splits)

text \<open>Opening adds directories only, none of them inside the files directory.\<close>

lemma NewStorage_nodes:
  assumes "NewStorage F base fs = (fs', Inr s)"
  shows "node_at fs' r = node_at fs r \<or>
    node_at fs r = None \<and> node_at fs' r = Some DirNode \<and> length (snd r) \<le> length (snd (files_at s)) "
proof -
  from assms obtain fs1 fs2 where b: "base \<noteq> []" and s: "s = \<lparr>st_basePath = base\<rparr>"
    and m: "os_MkdirAll F base fs = (fs1, None)"
    "os_MkdirAll F (GetFilesDir s) fs1 = (fs2, None)" "os_MkdirAll F (GetTemplatesDir s) fs2 = (fs', None)"
    by (rule NewStorage_cases)
  have len: "length (snd (resolve base)) \<le> length (snd (files_at s))"
    "length (snd (templates_at s)) = length (snd (files_at s))"
    by (simp_all add: files_at_def templates_at_def child_def s)
  from b s have r: "resolve (GetFilesDir s) = files_at s" "resolve (GetTemplatesDir s) = templates_at s"
    by (simp_all add: resolve_dirs)
  have st: "node_at (fst (os_MkdirAll F p g)) q = node_at g q \<or>
      node_at g q = None \<and> node_at (fst (os_MkdirAll F p g)) q = Some DirNode \<and>
      length (snd q) \<le> length (snd (files_at s))"
    if "length (snd (resolve p)) \<le> length (snd (files_at s))" for p g q
    using os_MkdirAll_nodes [of F p g q] that by auto
  from st [of base fs r] st [of "GetFilesDir s" fs1 r] st [of "GetTemplatesDir s" fs2 r] m len r
  show ?thesis by auto
qed

text \<open>An operation on one entity leaves the files of the others alone.\<close>

lemma step_entry_frame:
  assumes "storage_inv s h" and "store_op_id op \<noteq> eid" and "x = ''.json.enc'' \<or> x = ''.meta.json''"
  shows "entry (files_at s) (store_step (WriteFile J s) (DeleteFile s) op h) (eid @ x) = entry (files_at s) h (eid @ x)"
proof (cases op)
  case (WriteOp f e b m)
  obtain h' r where w: "WriteFile J s f e b m h = (h', r)" by (cases "WriteFile J s f e b m h")
  from WriteFile_cases [OF assms(1) w] show ?thesis
  proof (elim conjE disjE exE)
    fix js assume "write_effect e b js r (entry (files_at s) h) (entry (files_at s) h')"
    then have "eid @ x \<notin> {e @ ''.json.enc'', e @ ''.meta.json'', e @ ''.json.enc.tmp'', e @ ''.meta.json.tmp''} \<longrightarrow>
        entry (files_at s) h' (eid @ x) = entry (files_at s) h (eid @ x)"
      unfolding write_effect_def by blast
    with assms(2,3) WriteOp w show ?thesis by (elim disjE) simp_all
  qed (use WriteOp w in simp)
next
  case (DeleteOp f e)
  obtain h' r where w: "DeleteFile s f e h = (h', r)" by (cases "DeleteFile s f e h")
  have "delete_effect e r E E' \<Longrightarrow> E' (eid @ x) = E (eid @ x)" for E E'
    using assms(2,3) DeleteOp by (elim disjE) (auto simp: delete_effect_def split: if_splits)
  with DeleteFile_cases [OF assms(1) w] DeleteOp w show ?thesis by (simp split: if_splits)
qed

section \<open>Properties\<close>

text \<open>
  C27. No path traversal: under any base path, the four files of a valid entity id are entries of
  the files directory below the base, whatever bytes the id contains, and two different valid ids
  never share a file.
\<close>

theorem entity_files_confined:
  assumes "st_basePath s \<noteq> []" and "isValidEntityID a" and "isValidEntityID b"
  shows "resolve (GetBlobPath s a) = child (child (resolve (st_basePath s)) ''files'') (a @ ''.json.enc'') \<and>
    resolve (GetMetaPath s a) = child (child (resolve (st_basePath s)) ''files'') (a @ ''.meta.json'') \<and>
    resolve (GetBlobPath s a @ ''.tmp'') = child (child (resolve (st_basePath s)) ''files'') (a @ ''.json.enc.tmp'') \<and>
    resolve (GetMetaPath s a @ ''.tmp'') = child (child (resolve (st_basePath s)) ''files'') (a @ ''.meta.json.tmp'') \<and>
    (resolve (GetBlobPath s a) = resolve (GetBlobPath s b) \<longleftrightarrow> a = b) \<and>
    (resolve (GetMetaPath s a) = resolve (GetMetaPath s b) \<longleftrightarrow> a = b) \<and>
    resolve (GetBlobPath s a) \<noteq> resolve (GetMetaPath s b)"
proof -
  note paths = entity_paths [OF assms(1)]
  show ?thesis
    using paths(1,2) [OF assms(2), of "''.json.enc''" "''.tmp''"] paths(1,2) [OF assms(2), of "''.meta.json''" "''.tmp''"]
      paths(1) [OF assms(3), of "''.json.enc''" "[]"] paths(1) [OF assms(3), of "''.meta.json''" "[]"]
    by (simp add: GetBlobPath_def GetMetaPath_def files_at_def)
qed

theorem entity_files_confined_witness:
  "resolve (GetBlobPath \<lparr>st_basePath = ''/shared/./db/../db''\<rparr> ''Chat_1'') =
     (True, [''shared'', ''db'', ''files'', ''Chat_1.json.enc''])"
proof -
  have "resolve ''/shared/./db/../db'' = (True, [''shared'', ''db''])" by code_simp
  moreover have "isValidEntityID ''Chat_1''" by code_simp
  ultimately show ?thesis
    using entity_files_confined [of "\<lparr>st_basePath = ''/shared/./db/../db''\<rparr>" "''Chat_1''" "''Chat_1''"]
    by (simp add: child_def)
qed

text \<open>
  C4. A successful write is what is read until the next operation on the entity: after any sequence of writes and
  deletions, under any failures of the system calls, a write that reports success, and any operations on
  other entities, ReadFile returns the blob and the metadata of that write.
\<close>

theorem storage_last_write_read:
  assumes "storage_inv s fs" and "codable J m"
    and "snd (WriteFile J s F eid b m (fold (store_step (WriteFile J s) (DeleteFile s)) ops fs)) = None"
    and "\<forall>op \<in> set ops'. store_op_id op \<noteq> eid"
  shows "fs_ReadFile J s no_faults
     (fold (store_step (WriteFile J s) (DeleteFile s)) (ops @ WriteOp F eid b m # ops') fs) eid =
     Inr \<lparr>fd_Blob = b, fd_Metadata = m\<rparr>"
  using assms by (rule local_fs.last_write_wins)

text \<open>A metadata record, a codec and an empty store for the witnesses.\<close>

definition sample_meta :: "string \<Rightarrow> int \<Rightarrow> FileMetadata" where
  "sample_meta tag v = \<lparr>fm_KeyID = ''k'', fm_Algorithm = ''AES-GCM'', fm_IV = ''iv'', fm_Tag = tag, fm_SchemaID = ''chat'',
     fm_Version = v, fm_WriterID = ''w'', fm_Timestamp = 1, fm_Schema = ''chat'', fm_EntityKey = ''1''\<rparr>"

definition sample_codec :: meta_codec where
  "sample_codec = \<lparr>mc_marshal = (\<lambda>m. Some (if m = sample_meta ''t1'' 1 then ''one'' else ''two'')),
     mc_unmarshal = (\<lambda>x. Some (if x = ''one'' then sample_meta ''t1'' 1 else sample_meta ''t2'' 2))\<rparr>"

definition sample_store :: Storage where
  "sample_store = \<lparr>st_basePath = ''/db''\<rparr>"

definition sample_tree :: file_sys where
  "sample_tree = [((True, [''db'']), DirNode), ((True, [''db'', ''files'']), DirNode),
     ((True, [''db'', ''templates'']), DirNode)]"

lemma sample_files_at: "files_at sample_store = (True, [''db'', ''files''])"
  by code_simp

lemma sample_inv: "storage_inv sample_store sample_tree"
proof -
  have "node_at sample_tree q \<noteq> Some (FileNode b)" for q b
    by (simp add: sample_tree_def)
  moreover have "node_at sample_tree (child (True, [''db'', ''files'']) n) = None" for n
    by (simp add: sample_tree_def child_def)
  moreover have "is_dir sample_tree (True, [''db'', ''files''])" by code_simp
  ultimately show ?thesis
    by (simp add: storage_inv_def plain_dir_def sample_files_at sample_store_def [THEN arg_cong [of _ _ st_basePath]])
qed

lemma sample_codable: "codable sample_codec (sample_meta ''t1'' 1)" "codable sample_codec (sample_meta ''t2'' 2)"
  by code_simp+

theorem storage_last_write_read_witness:
  "fs_ReadFile sample_codec sample_store no_faults
     (fold (store_step (WriteFile sample_codec sample_store) (DeleteFile sample_store))
        [WriteOp no_faults ''chat_1'' ''old'' (sample_meta ''t1'' 1),
         WriteOp no_faults ''chat_1'' ''new'' (sample_meta ''t2'' 2), DeleteOp no_faults ''chat_2''] sample_tree) ''chat_1'' =
     Inr \<lparr>fd_Blob = ''new'', fd_Metadata = sample_meta ''t2'' 2\<rparr>"
  using storage_last_write_read [OF sample_inv sample_codable(2), where F = no_faults and eid = "''chat_1''"
      and b = "''new''" and ops = "[WriteOp no_faults ''chat_1'' ''old'' (sample_meta ''t1'' 1)]"
      and ops' = "[DeleteOp no_faults ''chat_2'']"]
  by (simp del: store_step.simps) code_simp

text \<open>
  A deleted entity is gone: after a successful DeleteFile, and any operations on other
  entities, ReadFile reports "file not found", FileExists says no and ListFiles omits the id.
\<close>

theorem storage_deleted_is_gone:
  assumes "storage_inv s fs" and "isValidEntityID eid"
    and "snd (DeleteFile s F eid (fold (store_step (WriteFile J s) (DeleteFile s)) ops fs)) = None"
    and "\<forall>op \<in> set ops'. store_op_id op \<noteq> eid"
  shows "let fs' = fold (store_step (WriteFile J s) (DeleteFile s)) (ops @ DeleteOp F eid # ops') fs in
     fs_ReadFile J s no_faults fs' eid = Inl ErrFileNotFound \<and> \<not> FileExists s no_faults fs' eid \<and>
     (\<exists>ids. ListFiles s no_faults fs' = Inr ids \<and> eid \<notin> ids)"
proof -
  let ?run = "fold (store_step (WriteFile J s) (DeleteFile s))"
  let ?g = "?run ops fs" and ?h = "fst (DeleteFile s F eid (?run ops fs))"
  have ig: "storage_inv s ?g" using assms(1) by (rule local_fs.run_inv)
  then have ih: "storage_inv s ?h" by (rule local_fs.delete_inv)
  have "DeleteFile s F eid ?g = (?h, None)" using assms(3) by (metis prod.collapse)
  with DeleteFile_cases [OF ig] assms(2)
  have "delete_effect eid None (entry (files_at s) ?g) (entry (files_at s) ?h)" by metis
  then have gone: "entry (files_at s) ?h (eid @ ''.json.enc'') = None" "entry (files_at s) ?h (eid @ ''.meta.json'') = None"
    by (simp_all add: delete_effect_def)
  have frame: "entry (files_at s) (?run ops' h) (eid @ x) = entry (files_at s) h (eid @ x)"
    if "storage_inv s h" "x = ''.json.enc'' \<or> x = ''.meta.json''" for h x
    using assms(4) that(1)
  proof (induction ops' arbitrary: h)
    case (Cons op ops')
    have "entry (files_at s) (store_step (WriteFile J s) (DeleteFile s) op h) (eid @ x) = entry (files_at s) h (eid @ x)"
      using Cons.prems that(2) by (simp add: step_entry_frame)
    with Cons local_fs.step_inv [OF Cons.prems(2), where op = op] show ?case by simp
  qed simp
  have "storage_inv s (?run (ops @ DeleteOp F eid # ops') fs)" using assms(1) by (rule local_fs.run_inv)
  moreover have "entry (files_at s) (?run (ops @ DeleteOp F eid # ops') fs) (eid @ x) = None"
    if "x = ''.json.enc'' \<or> x = ''.meta.json''" for x
    using frame [OF ih that] gone that by auto
  ultimately show ?thesis
    using assms(2) by (auto simp: Let_def ReadFile_stored FileExists_entry ListFiles_entry stored_no_blob)
qed

theorem storage_deleted_is_gone_witness:
  "fs_ReadFile sample_codec sample_store no_faults
     (fold (store_step (WriteFile sample_codec sample_store) (DeleteFile sample_store))
        [WriteOp no_faults ''chat_1'' ''old'' (sample_meta ''t1'' 1), DeleteOp no_faults ''chat_1''] sample_tree) ''chat_1'' =
     Inl ErrFileNotFound"
proof -
  have "isValidEntityID ''chat_1''" by code_simp
  moreover have "snd (DeleteFile sample_store no_faults ''chat_1''
      (fold (store_step (WriteFile sample_codec sample_store) (DeleteFile sample_store))
         [WriteOp no_faults ''chat_1'' ''old'' (sample_meta ''t1'' 1)] sample_tree)) = None" by code_simp
  ultimately show ?thesis
    using storage_deleted_is_gone [OF sample_inv, where F = no_faults and eid = "''chat_1''" and J = sample_codec
      and ops = "[WriteOp no_faults ''chat_1'' ''old'' (sample_meta ''t1'' 1)]" and ops' = "[]"]
    by (simp only: Let_def append_Cons append_Nil list.set ball_empty HOL.simp_thms)
qed

text \<open>
  What a failed write leaves: the metadata file is as before, every other entity reads as
  before, and the blob is as before unless the step that failed is the last one, the rename of
  the metadata, after which the new blob stands beside the old metadata.
\<close>

theorem failed_write_effect:
  assumes "storage_inv s fs" and "WriteFile J s F eid b m fs = (fs', Some e)"
  shows "entry (files_at s) fs' (eid @ ''.meta.json'') = entry (files_at s) fs (eid @ ''.meta.json'') \<and>
    (entry (files_at s) fs' (eid @ ''.json.enc'') = entry (files_at s) fs (eid @ ''.json.enc'') \<or>
     entry (files_at s) fs' (eid @ ''.json.enc'') = Some b \<and> e = ErrWriteFailed ''failed to rename metadata'') \<and>
    (\<forall>eid'. eid' \<noteq> eid \<longrightarrow> fs_ReadFile J s no_faults fs' eid' = fs_ReadFile J s no_faults fs eid')"
proof -
  have "\<forall>eid'. eid' \<noteq> eid \<longrightarrow> fs_ReadFile J s no_faults fs' eid' = fs_ReadFile J s no_faults fs eid'"
    using local_fs.write_frame [OF assms(1), of _ eid J F b m] assms(2) by simp
  moreover have "write_effect eid b js (Some e) E E' \<Longrightarrow> E' (eid @ ''.meta.json'') = E (eid @ ''.meta.json'') \<and>
    (E' (eid @ ''.json.enc'') = E (eid @ ''.json.enc'') \<or>
     E' (eid @ ''.json.enc'') = Some b \<and> e = ErrWriteFailed ''failed to rename metadata'')" for E E' js
    by (simp add: write_effect_def)
  moreover have "fs' = fs \<or> (\<exists>js. write_effect eid b js (Some e) (entry (files_at s) fs) (entry (files_at s) fs'))"
    using WriteFile_cases [OF assms] by blast
  ultimately show ?thesis by blast
qed

text \<open>Fault plans in which exactly one call fails.\<close>

definition fails_only :: "io_call \<Rightarrow> nat \<Rightarrow> faults" where
  "fails_only c n = no_faults(c := Some n)"

theorem failed_write_effect_witness:
  "let F = fails_only (SyncCall (True, [''db'', ''files'', ''a.json.enc.tmp''])) 0 in
   \<exists>fs'. WriteFile sample_codec sample_store F ''a'' ''x'' (sample_meta ''t1'' 1) sample_tree =
       (fs', Some (ErrWriteFailed ''failed to write blob'')) \<and>
     entry (files_at sample_store) fs' ''a.json.enc'' = None"
proof -
  let ?F = "fails_only (SyncCall (True, [''db'', ''files'', ''a.json.enc.tmp''])) 0"
  let ?r = "WriteFile sample_codec sample_store ?F ''a'' ''x'' (sample_meta ''t1'' 1) sample_tree"
  have e: "snd ?r = Some (ErrWriteFailed ''failed to write blob'')" by code_simp
  then have r: "?r = (fst ?r, Some (ErrWriteFailed ''failed to write blob''))" by (metis prod.collapse)
  have "entry (files_at sample_store) sample_tree ''a.json.enc'' = None" by code_simp
  with failed_write_effect [OF sample_inv r] have "entry (files_at sample_store) (fst ?r) ''a.json.enc'' = None"
    by simp
  with r show ?thesis unfolding Let_def by (intro exI conjI)
qed

text \<open>
  Blob and metadata can come apart: when the last rename of an update fails, WriteFile
  reports an error, and a later read succeeds and returns the new blob with the metadata (initialisation
  vector, authentication tag and version) of the previous write.
\<close>

theorem failed_rename_mixes_versions:
  assumes inv: "storage_inv s fs" and cod: "codable J m" and "fs_ReadFile J s no_faults fs eid = Inr old"
  shows "let F = fails_only (RenameCall (child (files_at s) (eid @ ''.meta.json.tmp'')) (child (files_at s) (eid @ ''.meta.json''))) 0;
      (fs', e) = WriteFile J s F eid b m fs
    in e = Some (ErrWriteFailed ''failed to rename metadata'') \<and>
       fs_ReadFile J s no_faults fs' eid = Inr (old\<lparr>fd_Blob := b\<rparr>)"
proof -
  let ?F = "fails_only (RenameCall (child (files_at s) (eid @ ''.meta.json.tmp'')) (child (files_at s) (eid @ ''.meta.json''))) 0"
  have vid: "isValidEntityID eid" using assms(1,3) by (simp add: ReadFile_stored split: if_splits)
  from cod obtain js where js: "mc_marshal J m = Some js" by (auto simp: codable_def split: option.splits)
  obtain fs' e where w: "WriteFile J s ?F eid b m fs = (fs', e)" by (cases "WriteFile J s ?F eid b m fs")
  have "e = Some (ErrWriteFailed ''failed to rename metadata'') \<and>
      entry (files_at s) fs' (eid @ ''.json.enc'') = Some b \<and>
      entry (files_at s) fs' (eid @ ''.meta.json'') = entry (files_at s) fs (eid @ ''.meta.json'')"
    using w vid js storage_inv_dir [OF inv] write_paths [OF inv vid]
    by (auto simp: WriteFile_def Let_def fails_only_def writeSynced_entry [where d = "files_at s"]
        Rename_entry [where d = "files_at s"] Remove_entry [where d = "files_at s"])
  moreover have "stored J E eid = Inr old \<Longrightarrow> E' (eid @ ''.json.enc'') = Some b \<Longrightarrow>
      E' (eid @ ''.meta.json'') = E (eid @ ''.meta.json'') \<Longrightarrow> stored J E' eid = Inr (old\<lparr>fd_Blob := b\<rparr>)" for E E'
    by (auto simp: stored_def split: option.splits)
  ultimately show ?thesis
    using assms(3) inv w vid WriteFile_cases [OF inv w] by (simp add: Let_def ReadFile_stored)
qed

theorem failed_rename_mixes_versions_witness:
  "let fs = fst (WriteFile sample_codec sample_store no_faults ''chat_1'' ''v1'' (sample_meta ''t1'' 1) sample_tree);
       F = fails_only (RenameCall (child (files_at sample_store) ''chat_1.meta.json.tmp'')
             (child (files_at sample_store) ''chat_1.meta.json'')) 0
   in fs_ReadFile sample_codec sample_store no_faults
        (fst (WriteFile sample_codec sample_store F ''chat_1'' ''v2'' (sample_meta ''t2'' 2) fs)) ''chat_1'' =
      Inr \<lparr>fd_Blob = ''v2'', fd_Metadata = sample_meta ''t1'' 1\<rparr>"
proof -
  let ?fs = "fst (WriteFile sample_codec sample_store no_faults ''chat_1'' ''v1'' (sample_meta ''t1'' 1) sample_tree)"
  have inv: "storage_inv sample_store ?fs" using sample_inv by (rule local_fs.write_inv)
  have rd: "fs_ReadFile sample_codec sample_store no_faults ?fs ''chat_1'' =
      Inr \<lparr>fd_Blob = ''v1'', fd_Metadata = sample_meta ''t1'' 1\<rparr>" by code_simp
  from failed_rename_mixes_versions [OF inv sample_codable(2) rd, where b = "''v2''"] show ?thesis
    by (simp add: Let_def case_prod_beta)
qed

text \<open>
  Temporary files are left behind when the device fills up: a write of the blob that stops
  after k bytes makes WriteFile fail and leaves the truncated temporary file in the files
  directory.
\<close>

theorem failed_write_leaves_temp_file:
  assumes "storage_inv s fs" and "isValidEntityID eid" and "mc_marshal J m = Some js"
  shows "let (fs', e) = WriteFile J s (fails_only (WriteCall (child (files_at s) (eid @ ''.json.enc.tmp''))) k) eid b m fs
    in e = Some (ErrWriteFailed ''failed to write blob'') \<and>
       entry (files_at s) fs' (eid @ ''.json.enc.tmp'') = Some (take k b)"
  using assms storage_inv_dir [OF assms(1)] write_paths [OF assms(1,2)]
  by (simp add: WriteFile_def Let_def fails_only_def writeSynced_entry [where d = "files_at s"])

theorem failed_write_leaves_temp_file_witness:
  "entry (files_at sample_store)
     (fst (WriteFile sample_codec sample_store
        (fails_only (WriteCall (child (files_at sample_store) ''a.json.enc.tmp'')) 2) ''a'' ''blob'' (sample_meta ''t1'' 1) sample_tree))
     ''a.json.enc.tmp'' = Some ''bl''"
proof -
  have "isValidEntityID ''a''" "mc_marshal sample_codec (sample_meta ''t1'' 1) = Some ''one''" by code_simp+
  from failed_write_leaves_temp_file [OF sample_inv this, where k = 2 and b = "''blob''"] show ?thesis
    by (simp add: case_prod_beta)
qed

text \<open>
  Opening: NewStorage on an empty tree, or on a tree that already holds a store under the
  same base, returns a store that satisfies the invariant and holds exactly the files it held
  before; ListFiles of the opened store returns the ids that have a blob or a metadata file.
\<close>

theorem NewStorage_opens:
  assumes new: "NewStorage F base fs = (fs', Inr s)" and old: "fs = [] \<or> storage_inv \<lparr>st_basePath = base\<rparr> fs"
  shows "storage_inv s fs' \<and> entry (files_at s) fs' = entry (files_at s) fs \<and>
    ListFiles s no_faults fs' = Inr {eid. eid \<noteq> [] \<and>
      (entry (files_at s) fs (eid @ ''.json.enc'') \<noteq> None \<or> entry (files_at s) fs (eid @ ''.meta.json'') \<noteq> None)}"
proof -
  from new obtain fs1 fs2 where base: "base \<noteq> []" and s: "s = \<lparr>st_basePath = base\<rparr>"
    and m: "os_MkdirAll F (GetFilesDir s) fs1 = (fs2, None)" "os_MkdirAll F (GetTemplatesDir s) fs2 = (fs', None)"
    by (rule NewStorage_cases)
  have d: "is_dir fs' (files_at s)"
    using os_MkdirAll_is_dir [OF m(1)] os_MkdirAll_keeps [of fs2 "files_at s" F "GetTemplatesDir s"] m(2) base s
    by (simp add: resolve_dirs)
  have same: "node_at fs' (child (files_at s) n) = node_at fs (child (files_at s) n)" for n
    using NewStorage_nodes [OF new, of "child (files_at s) n"] by (auto simp: child_def)
  have nofile: "node_at fs' q \<noteq> Some (FileNode b)" if "node_at fs q \<noteq> Some (FileNode b)" for q b
    using NewStorage_nodes [OF new, of q] that by auto
  have "fs = [] \<or> plain_dir (files_at s) fs" using old s by (auto simp: storage_inv_def)
  then have "plain_dir (files_at s) fs'"
    using d nofile by (auto simp: plain_dir_def same)
  then have inv: "storage_inv s fs'" using base s by (simp add: storage_inv_def)
  have ent: "entry (files_at s) fs' = entry (files_at s) fs"
    by (simp add: entry_def same fun_eq_iff)
  from inv ent ListFiles_entry [OF inv] show ?thesis by simp
qed

theorem NewStorage_opens_witness:
  "\<exists>fs' s. NewStorage no_faults ''/db'' [] = (fs', Inr s) \<and> storage_inv s fs' \<and> ListFiles s no_faults fs' = Inr {}"
proof -
  let ?r = "NewStorage no_faults ''/db'' []"
  have "snd ?r = Inr sample_store" by code_simp
  then have r: "?r = (fst ?r, Inr sample_store)" by (metis prod.collapse)
  from NewStorage_opens [OF r] have "storage_inv sample_store (fst ?r)" "ListFiles sample_store no_faults (fst ?r) = Inr {}"
    by (simp_all add: entry_def)
  with r show ?thesis by (intro exI conjI)
qed

end
