(* ===== verification/File_Locks.thy ===== *)
theory File_Locks
  imports File_Storage
begin

text \<open>
  Per-entity locks on the shared file system: \<open>FileLock\<close> and \<open>LockManager\<close> of pkg/fs/lock.go over
  flock(2) as pkg/fs/lock_unix.go calls it, and the interface \<open>LockBackend\<close> of pkg/fs/backend.go.
  The operating system keeps a table of the locks held by open file descriptions, shared by all
  processes; a description is identified by a handle.  A call that has to wait has the outcome
  \<open>Blocks\<close>.  The manager's methods run under its mutex; a caller that waits inside flock keeps
  that mutex, which the step relation at the end makes explicit.  The \<open>*FileLock\<close> that
  AcquireLock returns is not used by any caller, so handles are kept by value.
\<close>

datatype LockType = LockShared | LockExclusive

datatype lock_error = ErrLockFailed os_error | ErrUnlockFailed | ErrAlreadyLocked | LockOpenFailed os_error | LockCloseFailed

datatype 'a outcome = Done 'a | Fails lock_error | Blocks

section \<open>The lock table of the system\<close>

record held_lock =
  hl_handle :: nat
  hl_path :: path
  hl_type :: LockType

record lock_sys =
  ls_tree :: file_sys
  ls_table :: "held_lock list"
  ls_next :: nat

definition conflicts :: "path \<Rightarrow> LockType \<Rightarrow> held_lock \<Rightarrow> bool" where
  "conflicts q t h \<longleftrightarrow> hl_path h = q \<and> (t = LockExclusive \<or> hl_type h = LockExclusive)"

text \<open>
  flock on the description \<open>fd\<close>: a description holds at most one lock, which a further call replaces; conflicts
  are with the locks of other descriptions.  \<open>Blocks\<close> is returned when the call would wait;
  with LOCK_NB it fails instead.
\<close>

definition flock :: "faults \<Rightarrow> nat \<Rightarrow> path \<Rightarrow> LockType \<Rightarrow> bool \<Rightarrow> lock_sys \<Rightarrow> lock_sys outcome" where
  "flock F fd q t nonblocking w =
     (if F (FlockCall q) \<noteq> None then Fails (ErrLockFailed IOFault)
      else if list_ex (\<lambda>h. conflicts q t h \<and> hl_handle h \<noteq> fd) (ls_table w)
      then (if nonblocking then Fails (ErrLockFailed IOFault) else Blocks)
      else Done (w\<lparr>ls_table := \<lparr>hl_handle = fd, hl_path = q, hl_type = t\<rparr> #
                     filter (\<lambda>h. hl_handle h \<noteq> fd) (ls_table w)\<rparr>))"

definition drop_handle :: "nat \<Rightarrow> lock_sys \<Rightarrow> lock_sys" where
  "drop_handle fd w = w\<lparr>ls_table := filter (\<lambda>h. hl_handle h \<noteq> fd) (ls_table w)\<rparr>"

section \<open>FileLock\<close>

text \<open>
  \<open>fl_closed\<close> is the state of the \<open>*os.File\<close>: once it has been closed, its descriptor is invalid, so that calls on it fail,
  and it cannot be closed again.
\<close>

record FileLock =
  fl_file :: nat
  fl_path :: path
  fl_lockType :: LockType
  fl_locked :: bool
  fl_closed :: bool

definition NewFileLock :: "faults \<Rightarrow> string \<Rightarrow> lock_sys \<Rightarrow> lock_sys \<times> (lock_error + FileLock)" where
  "NewFileLock F filePath w =
     (case os_OpenFile F False filePath (ls_tree w) of
        (fs, Some e) \<Rightarrow> (w\<lparr>ls_tree := fs\<rparr>, Inl (LockOpenFailed e))
      | (fs, None) \<Rightarrow>
          (w\<lparr>ls_tree := fs, ls_next := Suc (ls_next w)\<rparr>,
           Inr \<lparr>fl_file = ls_next w, fl_path = resolve filePath, fl_lockType = LockShared, fl_locked = False, fl_closed = False\<rparr>))"

definition platformLock :: "faults \<Rightarrow> FileLock \<Rightarrow> LockType \<Rightarrow> bool \<Rightarrow> lock_sys \<Rightarrow> lock_sys outcome" where
  "platformLock F fl lockType tryOnly w =
     (if fl_closed fl then Fails (ErrLockFailed IOFault) else flock F (fl_file fl) (fl_path fl) lockType tryOnly w)"

definition platformUnlock :: "faults \<Rightarrow> FileLock \<Rightarrow> lock_sys \<Rightarrow> lock_sys \<times> lock_error option" where
  "platformUnlock F fl w =
     (if fl_closed fl \<or> F (FlockCall (fl_path fl)) \<noteq> None then (w, Some ErrUnlockFailed)
      else (drop_handle (fl_file fl) w, None))"

definition lock_Lock :: "faults \<Rightarrow> FileLock \<Rightarrow> LockType \<Rightarrow> lock_sys \<Rightarrow> (lock_sys \<times> FileLock) outcome" where
  "lock_Lock F fl lockType w =
     (if fl_locked fl then Fails ErrAlreadyLocked
      else case platformLock F fl lockType False w of
             Fails e \<Rightarrow> Fails e
           | Blocks \<Rightarrow> Blocks
           | Done w' \<Rightarrow> Done (w', fl\<lparr>fl_locked := True, fl_lockType := lockType\<rparr>))"

definition TryLock :: "faults \<Rightarrow> FileLock \<Rightarrow> LockType \<Rightarrow> lock_sys \<Rightarrow> (lock_sys \<times> FileLock) outcome" where
  "TryLock F fl lockType w =
     (if fl_locked fl then Fails ErrAlreadyLocked
      else case platformLock F fl lockType True w of
             Fails e \<Rightarrow> Fails e
           | Blocks \<Rightarrow> Blocks
           | Done w' \<Rightarrow> Done (w', fl\<lparr>fl_locked := True, fl_lockType := lockType\<rparr>))"

definition Unlock :: "faults \<Rightarrow> FileLock \<Rightarrow> lock_sys \<Rightarrow> lock_sys \<times> FileLock \<times> lock_error option" where
  "Unlock F fl w =
     (if \<not> fl_locked fl then (w, fl, None)
      else case platformUnlock F fl w of
             (w', Some e) \<Rightarrow> (w', fl, Some e)
           | (w', None) \<Rightarrow> (w', fl\<lparr>fl_locked := False\<rparr>, None))"

text \<open>
  Closing the description releases whatever lock it still holds, also when it reports an error.  A second call reports
  \<open>os.ErrClosed\<close>; the description holds no lock then.
\<close>

definition close_file :: "faults \<Rightarrow> FileLock \<Rightarrow> lock_sys \<Rightarrow> lock_sys \<times> FileLock \<times> lock_error option" where
  "close_file F fl w =
     (drop_handle (fl_file fl) w, fl\<lparr>fl_closed := True\<rparr>,
      if fl_closed fl \<or> F (CloseCall (fl_path fl)) \<noteq> None then Some LockCloseFailed else None)"

definition lock_Close :: "faults \<Rightarrow> FileLock \<Rightarrow> lock_sys \<Rightarrow> lock_sys \<times> FileLock \<times> lock_error option" where
  "lock_Close F fl w =
     (if fl_locked fl then
        (case Unlock F fl w of
           (w1, fl1, Some e) \<Rightarrow> (case close_file F fl1 w1 of (w2, fl2, _) \<Rightarrow> (w2, fl2, Some e))
         | (w1, fl1, None) \<Rightarrow> close_file F fl1 w1)
      else close_file F fl w)"

definition IsLocked :: "FileLock \<Rightarrow> bool" where
  "IsLocked fl = fl_locked fl"

section \<open>LockManager\<close>

record LockManager =
  lm_storage :: Storage
  lm_locks :: "string \<rightharpoonup> FileLock"

definition NewLockManager :: "Storage \<Rightarrow> LockManager" where
  "NewLockManager s = \<lparr>lm_storage = s, lm_locks = Map.empty\<rparr>"

definition lock_path :: "Storage \<Rightarrow> string \<Rightarrow> string" where
  "lock_path s eid = GetBlobPath s eid @ ''.lock''"

text \<open>
  The common tail of the two acquiring methods: a new description, the lock, and the entry in
  the map.  A failed attempt closes the new description.  \<open>Waiting fl\<close> is the state of a caller
  that waits inside flock on its new description, still holding the manager's mutex.
\<close>

datatype acquired = Granted LockManager | Refused lock_error | Waiting FileLock

definition finish_acquire ::
    "faults \<Rightarrow> LockManager \<Rightarrow> string \<Rightarrow> FileLock \<Rightarrow> (lock_sys \<times> FileLock) outcome \<Rightarrow> lock_sys \<Rightarrow> lock_sys \<times> acquired" where
  "finish_acquire F lm eid lock result w =
     (case result of
        Done (w', lock') \<Rightarrow> (w', Granted (lm\<lparr>lm_locks := (lm_locks lm)(eid \<mapsto> lock')\<rparr>))
      | Fails e \<Rightarrow> (fst (lock_Close F lock w), Refused e)
      | Blocks \<Rightarrow> (w, Waiting lock))"

definition already_locked :: "LockManager \<Rightarrow> string \<Rightarrow> bool" where
  "already_locked lm eid = (case lm_locks lm eid of Some existing \<Rightarrow> IsLocked existing | None \<Rightarrow> False)"

definition AcquireLock ::
    "faults \<Rightarrow> LockManager \<Rightarrow> string \<Rightarrow> LockType \<Rightarrow> lock_sys \<Rightarrow> lock_sys \<times> acquired" where
  "AcquireLock F lm eid lockType w =
     (let lockPath = lock_path (lm_storage lm) eid in
      if already_locked lm eid then (w, Refused ErrAlreadyLocked)
      else case NewFileLock F lockPath w of
             (w1, Inl e) \<Rightarrow> (w1, Refused e)
           | (w1, Inr lock) \<Rightarrow> finish_acquire F lm eid lock (lock_Lock F lock lockType w1) w1)"

definition TryAcquireLock ::
    "faults \<Rightarrow> LockManager \<Rightarrow> string \<Rightarrow> LockType \<Rightarrow> lock_sys \<Rightarrow> lock_sys \<times> acquired" where
  "TryAcquireLock F lm eid lockType w =
     (let lockPath = lock_path (lm_storage lm) eid in
      if already_locked lm eid then (w, Refused ErrAlreadyLocked)
      else case NewFileLock F lockPath w of
             (w1, Inl e) \<Rightarrow> (w1, Refused e)
           | (w1, Inr lock) \<Rightarrow> finish_acquire F lm eid lock (TryLock F lock lockType w1) w1)"

definition ReleaseLock ::
    "faults \<Rightarrow> LockManager \<Rightarrow> string \<Rightarrow> lock_sys \<Rightarrow> lock_sys \<times> LockManager \<times> lock_error option" where
  "ReleaseLock F lm eid w =
     (case lm_locks lm eid of
        None \<Rightarrow> (w, lm, None)
      | Some lock \<Rightarrow>
          (case lock_Close F lock w of
             (w', lock', Some e) \<Rightarrow> (w', lm\<lparr>lm_locks := (lm_locks lm)(eid \<mapsto> lock')\<rparr>, Some e)
           | (w', lock', None) \<Rightarrow> (w', lm\<lparr>lm_locks := (lm_locks lm)(eid := None)\<rparr>, None)))"

text \<open>\<open>ReleaseAll\<close> over the ids of the map in the order of its iteration.\<close>

fun release_each ::
    "faults \<Rightarrow> string list \<Rightarrow> LockManager \<Rightarrow> lock_error option \<Rightarrow> lock_sys \<Rightarrow> lock_sys \<times> LockManager \<times> lock_error option" where
  "release_each F [] lm lastErr w = (w, lm, lastErr)"
| "release_each F (eid # ids) lm lastErr w =
     (case lm_locks lm eid of
        None \<Rightarrow> release_each F ids lm lastErr w
      | Some lock \<Rightarrow>
          (case lock_Close F lock w of
             (w', lock', e) \<Rightarrow>
               release_each F ids (lm\<lparr>lm_locks := (lm_locks lm)(eid := None)\<rparr>)
                 (if e \<noteq> None then e else lastErr) w'))"

definition ReleaseAll ::
    "faults \<Rightarrow> string list \<Rightarrow> LockManager \<Rightarrow> lock_sys \<Rightarrow> lock_sys \<times> LockManager \<times> lock_error option" where
  "ReleaseAll F ids lm w = release_each F ids lm None w"

section \<open>Several processes\<close>

text \<open>
  A process has one manager and at most one caller that waits in flock while it holds the
  manager's mutex; as long as there is one, no other method of that manager can run.
\<close>

record lock_proc =
  lp_mgr :: LockManager
  lp_wait :: "(string \<times> LockType \<times> FileLock) option"

type_synonym lock_state = "lock_sys \<times> (nat \<Rightarrow> lock_proc)"

text \<open>\<open>ReleaseAllEv\<close> has the ids of the map in the order of its iteration.\<close>

datatype lock_event =
    AcquireEv nat string LockType | TryEv nat string LockType | WakeEv nat | ReleaseEv nat string | ReleaseAllEv nat "string list"

fun after_acquire :: "lock_proc \<Rightarrow> string \<Rightarrow> LockType \<Rightarrow> acquired \<Rightarrow> lock_proc" where
  "after_acquire pr eid t (Granted lm) = pr\<lparr>lp_mgr := lm, lp_wait := None\<rparr>"
| "after_acquire pr eid t (Refused e) = pr\<lparr>lp_wait := None\<rparr>"
| "after_acquire pr eid t (Waiting fl) = pr\<lparr>lp_wait := Some (eid, t, fl)\<rparr>"

inductive lock_step :: "faults \<Rightarrow> lock_event \<Rightarrow> lock_state \<Rightarrow> lock_state \<Rightarrow> bool" for F where
  acquire: "lp_wait (ps p) = None \<Longrightarrow> AcquireLock F (lp_mgr (ps p)) eid t w = (w', r) \<Longrightarrow>
    lock_step F (AcquireEv p eid t) (w, ps) (w', ps(p := after_acquire (ps p) eid t r))"
| try_acquire: "lp_wait (ps p) = None \<Longrightarrow> TryAcquireLock F (lp_mgr (ps p)) eid t w = (w', r) \<Longrightarrow>
    lock_step F (TryEv p eid t) (w, ps) (w', ps(p := after_acquire (ps p) eid t r))"
| wake: "lp_wait (ps p) = Some (eid, t, fl) \<Longrightarrow>
    finish_acquire F (lp_mgr (ps p)) eid fl (lock_Lock F fl t w) w = (w', r) \<Longrightarrow> \<forall>fl'. r \<noteq> Waiting fl' \<Longrightarrow>
    lock_step F (WakeEv p) (w, ps) (w', ps(p := after_acquire (ps p) eid t r))"
| release: "lp_wait (ps p) = None \<Longrightarrow> ReleaseLock F (lp_mgr (ps p)) eid w = (w', lm', e) \<Longrightarrow>
    lock_step F (ReleaseEv p eid) (w, ps) (w', ps(p := (ps p)\<lparr>lp_mgr := lm'\<rparr>))"
| release_all: "lp_wait (ps p) = None \<Longrightarrow> distinct ids \<Longrightarrow> set ids = dom (lm_locks (lp_mgr (ps p))) \<Longrightarrow>
    ReleaseAll F ids (lp_mgr (ps p)) w = (w', lm', e) \<Longrightarrow>
    lock_step F (ReleaseAllEv p ids) (w, ps) (w', ps(p := (ps p)\<lparr>lp_mgr := lm'\<rparr>))"

text \<open>The states reached by events of a kind; \<open>lock_reachable\<close> is for all of them.\<close>

inductive lock_reach :: "(lock_event \<Rightarrow> bool) \<Rightarrow> lock_state \<Rightarrow> lock_state \<Rightarrow> bool" for E s where
  start: "lock_reach E s s"
| step: "lock_reach E s s1 \<Longrightarrow> E ev \<Longrightarrow> lock_step F ev s1 s2 \<Longrightarrow> lock_reach E s s2"

abbreviation lock_reachable :: "lock_state \<Rightarrow> lock_state \<Rightarrow> bool" where
  "lock_reachable \<equiv> lock_reach (\<lambda>_. True)"

definition start_state :: "Storage \<Rightarrow> file_sys \<Rightarrow> lock_state" where
  "start_state s fs = (\<lparr>ls_tree = fs, ls_table = [], ls_next = 0\<rparr>,
     \<lambda>p. \<lparr>lp_mgr = NewLockManager s, lp_wait = None\<rparr>)"

text \<open>
  Process \<open>p\<close> holds the lock of an entity: its manager has granted a lock of that type and has not closed its file since.
\<close>

definition holds :: "lock_state \<Rightarrow> nat \<Rightarrow> string \<Rightarrow> LockType \<Rightarrow> bool" where
  "holds s p eid t = (case lm_locks (lp_mgr (snd s p)) eid of
     None \<Rightarrow> False
   | Some fl \<Rightarrow> fl_locked fl \<and> \<not> fl_closed fl \<and> fl_lockType fl = t)"

section \<open>Invariant of the lock protocol\<close>

definition consistent :: "held_lock set \<Rightarrow> bool" where
  "consistent T \<longleftrightarrow> (\<forall>h \<in> T. \<forall>h' \<in> T.
     if hl_handle h = hl_handle h' then h = h' else \<not> conflicts (hl_path h) (hl_type h) h')"

definition table_ok :: "lock_sys \<Rightarrow> bool" where
  "table_ok w \<longleftrightarrow> (\<forall>h \<in> set (ls_table w). hl_handle h < ls_next w) \<and> consistent (set (ls_table w))"

lemma conflicts_sym: "conflicts (hl_path h) (hl_type h) h' \<longleftrightarrow> conflicts (hl_path h') (hl_type h') h"
  by (auto simp: conflicts_def)

lemma consistentD:
  "consistent T \<Longrightarrow> h \<in> T \<Longrightarrow> h' \<in> T \<Longrightarrow> conflicts (hl_path h) (hl_type h) h' \<Longrightarrow> hl_handle h = hl_handle h'"
  unfolding consistent_def by metis

lemma consistent_subset: "consistent T \<Longrightarrow> T' \<subseteq> T \<Longrightarrow> consistent T'"
  unfolding consistent_def by blast

lemma consistent_insert:
  assumes "consistent T" and "\<And>h. h \<in> T \<Longrightarrow> hl_handle h \<noteq> hl_handle x \<and> \<not> conflicts (hl_path x) (hl_type x) h"
  shows "consistent (insert x T)"
proof -
  have "hl_handle x \<noteq> hl_handle h \<and> \<not> conflicts (hl_path h) (hl_type h) x" if "h \<in> T" for h
    using assms(2) [OF that] conflicts_sym [of x h] by auto
  with assms show ?thesis unfolding consistent_def by simp
qed

datatype slot = InMap string | InWait

fun slot_lock :: "lock_proc \<Rightarrow> slot \<Rightarrow> FileLock option" where
  "slot_lock pr (InMap eid) = lm_locks (lp_mgr pr) eid"
| "slot_lock pr InWait = map_option (\<lambda>(eid, t, fl). fl) (lp_wait pr)"

definition proc_files :: "lock_proc \<Rightarrow> nat set" where
  "proc_files pr = {fl_file fl | fl a. slot_lock pr a = Some fl}"

definition proc_inj :: "lock_proc \<Rightarrow> bool" where
  "proc_inj pr \<longleftrightarrow> (\<forall>a b fl fl'. slot_lock pr a = Some fl \<longrightarrow> slot_lock pr b = Some fl' \<longrightarrow>
     fl_file fl = fl_file fl' \<longrightarrow> a = b)"

text \<open>\<open>N\<close> says which file the lock file of an entity is.\<close>

definition proc_paths :: "(string \<Rightarrow> path) \<Rightarrow> Storage \<Rightarrow> lock_proc \<Rightarrow> bool" where
  "proc_paths N S pr \<longleftrightarrow> lm_storage (lp_mgr pr) = S \<and>
     (\<forall>eid fl. lm_locks (lp_mgr pr) eid = Some fl \<longrightarrow> fl_path fl = N eid) \<and>
     (\<forall>eid t fl. lp_wait pr = Some (eid, t, fl) \<longrightarrow> fl_path fl = N eid \<and> \<not> fl_locked fl \<and> \<not> fl_closed fl \<and>
        \<not> already_locked (lp_mgr pr) eid)"

text \<open>The entry of the system's table for a granted lock.  A granted lock has its entry; a description that still waits has none.\<close>

definition fl_entry :: "FileLock \<Rightarrow> held_lock" where
  "fl_entry fl = \<lparr>hl_handle = fl_file fl, hl_path = fl_path fl, hl_type = fl_lockType fl\<rparr>"

definition proc_held :: "held_lock set \<Rightarrow> lock_proc \<Rightarrow> bool" where
  "proc_held T pr \<longleftrightarrow>
     (\<forall>eid fl. lm_locks (lp_mgr pr) eid = Some fl \<longrightarrow> fl_locked fl \<longrightarrow> \<not> fl_closed fl \<longrightarrow> fl_entry fl \<in> T) \<and>
     (\<forall>eid t fl. lp_wait pr = Some (eid, t, fl) \<longrightarrow> (\<forall>h \<in> T. hl_handle h \<noteq> fl_file fl))"

definition locks_inv :: "(string \<Rightarrow> path) \<Rightarrow> Storage \<Rightarrow> lock_state \<Rightarrow> bool" where
  "locks_inv N S s \<longleftrightarrow> table_ok (fst s) \<and>
     (\<forall>p. proc_inj (snd s p) \<and> proc_paths N S (snd s p) \<and> proc_files (snd s p) \<subseteq> {..<ls_next (fst s)} \<and>
        proc_held (set (ls_table (fst s))) (snd s p)) \<and>
     (\<forall>p q. p \<noteq> q \<longrightarrow> proc_files (snd s p) \<inter> proc_files (snd s q) = {})"

abbreviation lock_inv :: "Storage \<Rightarrow> lock_state \<Rightarrow> bool" where
  "lock_inv S \<equiv> locks_inv (\<lambda>eid. resolve (lock_path S eid)) S"

lemma proc_filesI: "slot_lock pr a = Some fl \<Longrightarrow> fl_file fl \<in> proc_files pr"
  by (auto simp: proc_files_def)

lemma proc_files_slots:
  "lm_locks (lp_mgr pr) eid = Some fl \<Longrightarrow> fl_file fl \<in> proc_files pr" "lp_wait pr = Some (eid, t, fl) \<Longrightarrow> fl_file fl \<in> proc_files pr"
  using proc_filesI [of pr "InMap eid" fl] proc_filesI [of pr InWait fl] by auto

text \<open>A step of process \<open>p\<close> touches in the table only its own handles and new ones.\<close>

lemma locks_inv_update:
  assumes inv: "locks_inv N S (w, ps)" and "table_ok w'" and "ls_next w \<le> ls_next w'"
    and "proc_inj pr" and "proc_paths N S pr"
    and files: "proc_files pr \<subseteq> proc_files (ps p) \<union> {ls_next w..<ls_next w'}"
    and held: "proc_held (set (ls_table w')) pr"
    and keep: "\<And>h. h \<in> set (ls_table w) \<Longrightarrow> hl_handle h \<notin> proc_files (ps p) \<Longrightarrow> h \<in> set (ls_table w')"
    and new: "\<And>h. h \<in> set (ls_table w') \<Longrightarrow> h \<in> set (ls_table w) \<or> hl_handle h \<in> proc_files (ps p) \<or> ls_next w \<le> hl_handle h"
  shows "locks_inv N S (w', ps(p := pr))"
proof -
  have lt: "proc_files (ps q) \<subseteq> {..<ls_next w}" and hq: "proc_held (set (ls_table w)) (ps q)" for q using inv by (simp_all add: locks_inv_def)
  have dis: "proc_files (ps q) \<inter> proc_files (ps r) = {}" if "q \<noteq> r" for q r
    using inv that by (simp add: locks_inv_def)
  have fresh: "proc_files pr \<inter> proc_files (ps q) = {}" if "q \<noteq> p" for q
    using files lt [of q] dis [of p q] that by fastforce
  have "proc_files pr \<subseteq> {..<ls_next w'}" "proc_files (ps q) \<subseteq> {..<ls_next w'}" for q
    using assms(3) files lt [of p] lt [of q] by (auto dest!: subsetD)
  moreover have "proc_held (set (ls_table w')) (ps q)" if q: "q \<noteq> p" for q
  proof -
    have own: "x \<notin> proc_files (ps p)" "x < ls_next w" if "x \<in> proc_files (ps q)" for x
      using that dis [OF q] lt [of q] by auto
    have "fl_entry fl \<in> set (ls_table w')" if "lm_locks (lp_mgr (ps q)) eid = Some fl" "fl_locked fl" "\<not> fl_closed fl" for eid fl
      using that hq [of q] own(1) [OF proc_files_slots(1) [OF that(1)]] by (intro keep) (auto simp: proc_held_def fl_entry_def)
    moreover have "hl_handle h \<noteq> fl_file fl" if "lp_wait (ps q) = Some (eid, t, fl)" "h \<in> set (ls_table w')" for eid t fl h
    proof
      assume eq: "hl_handle h = fl_file fl"
      note o = own [OF proc_files_slots(2) [OF that(1)]]
      from new [OF that(2)] o eq have "h \<in> set (ls_table w)" by auto
      with hq [of q] that(1) eq show False by (auto simp: proc_held_def)
    qed
    ultimately show ?thesis by (auto simp: proc_held_def)
  qed
  ultimately show ?thesis using assms(2,4,5) held fresh dis inv unfolding locks_inv_def by (auto simp: Int_commute)
qed

text \<open>The calls on the lock table.\<close>

lemma drop_handle_ok: "table_ok w \<Longrightarrow> table_ok (drop_handle fd w)"
  unfolding table_ok_def drop_handle_def by (auto elim: consistent_subset)

lemma next_drop_handle [simp]: "ls_next (drop_handle fd w) = ls_next w"
  by (simp add: drop_handle_def)

lemma set_drop_handle: "set (ls_table (drop_handle fd w)) = {h \<in> set (ls_table w). hl_handle h \<noteq> fd}"
  by (simp add: drop_handle_def)

lemma flock_ok: "table_ok w \<Longrightarrow> fd < ls_next w \<Longrightarrow> flock F fd q t nb w = Done w' \<Longrightarrow> table_ok w' \<and> ls_next w' = ls_next w"
proof -
  assume ok: "table_ok w" and fd: "fd < ls_next w" and "flock F fd q t nb w = Done w'"
  then have w': "w' = w\<lparr>ls_table := \<lparr>hl_handle = fd, hl_path = q, hl_type = t\<rparr> #
      filter (\<lambda>h. hl_handle h \<noteq> fd) (ls_table w)\<rparr>"
    and free: "\<forall>h \<in> set (ls_table w). conflicts q t h \<longrightarrow> hl_handle h = fd"
    by (auto simp: flock_def list_ex_iff split: if_splits)
  have "consistent (insert \<lparr>hl_handle = fd, hl_path = q, hl_type = t\<rparr> {h \<in> set (ls_table w). hl_handle h \<noteq> fd})"
    using ok free by (intro consistent_insert) (auto simp: table_ok_def elim: consistent_subset)
  with ok fd w' show ?thesis by (simp add: table_ok_def)
qed

lemma NewFileLock_ok:
  assumes "table_ok w" and "NewFileLock F p w = (w', r)"
  shows "table_ok w' \<and> ls_table w' = ls_table w \<and>
    (case r of Inl e \<Rightarrow> ls_next w' = ls_next w
     | Inr fl \<Rightarrow> ls_next w' = Suc (ls_next w) \<and>
         fl = \<lparr>fl_file = ls_next w, fl_path = resolve p, fl_lockType = LockShared, fl_locked = False, fl_closed = False\<rparr>)"
  using assms by (auto simp: NewFileLock_def table_ok_def less_Suc_eq split: prod.splits option.splits)

lemma lock_Close_ok:
  "table_ok w \<Longrightarrow> lock_Close F fl w = (w', fl', e) \<Longrightarrow>
    table_ok w' \<and> ls_next w' = ls_next w \<and> fl_file fl' = fl_file fl \<and> fl_path fl' = fl_path fl \<and> fl_closed fl' \<and>
    set (ls_table w') = {h \<in> set (ls_table w). hl_handle h \<noteq> fl_file fl}"
  by (auto simp: lock_Close_def close_file_def Unlock_def platformUnlock_def Let_def drop_handle_ok
      set_drop_handle split: if_splits)

lemma locking_ok:
  assumes "table_ok w" "fl_file fl < ls_next w"
    and "lock_Lock F fl t w = Done (w', fl') \<or> TryLock F fl t w = Done (w', fl')"
  shows "table_ok w' \<and> ls_next w' = ls_next w \<and> fl' = fl\<lparr>fl_locked := True, fl_lockType := t\<rparr> \<and>
    set (ls_table w') = insert \<lparr>hl_handle = fl_file fl, hl_path = fl_path fl, hl_type = t\<rparr>
      {h \<in> set (ls_table w). hl_handle h \<noteq> fl_file fl}"
proof -
  from assms(3) obtain nb where "flock F (fl_file fl) (fl_path fl) t nb w = Done w'"
    and "fl' = fl\<lparr>fl_locked := True, fl_lockType := t\<rparr>"
    by (auto simp: lock_Lock_def TryLock_def platformLock_def split: if_splits outcome.splits)
  with flock_ok [OF assms(1,2)] show ?thesis by (auto simp: flock_def split: if_splits)
qed

text \<open>What the end of an acquisition does, for a description that is already open.\<close>

lemma finish_effect:
  assumes ok: "table_ok w" "fl_file fl < ls_next w" "\<not> fl_locked fl"
    and res: "result = lock_Lock F fl t w \<or> result = TryLock F fl t w"
    and fin: "finish_acquire F lm eid fl result w = (w', r)"
  shows "table_ok w' \<and> ls_next w' = ls_next w \<and>
    (case r of
       Granted lm' \<Rightarrow> lm' = lm\<lparr>lm_locks := (lm_locks lm)(eid \<mapsto> fl\<lparr>fl_locked := True, fl_lockType := t\<rparr>)\<rparr> \<and>
         set (ls_table w') = insert \<lparr>hl_handle = fl_file fl, hl_path = fl_path fl, hl_type = t\<rparr>
           {h \<in> set (ls_table w). hl_handle h \<noteq> fl_file fl}
     | Refused e \<Rightarrow> set (ls_table w') = {h \<in> set (ls_table w). hl_handle h \<noteq> fl_file fl}
     | Waiting fl' \<Rightarrow> fl' = fl \<and> w' = w)"
proof (cases result)
  case (Done x)
  obtain w1 fl1 where x: "x = (w1, fl1)" by (cases x)
  have "lock_Lock F fl t w = Done (w1, fl1) \<or> TryLock F fl t w = Done (w1, fl1)"
    using res Done x by auto
  from locking_ok [OF ok(1,2) this] fin Done x show ?thesis by (auto simp: finish_acquire_def)
next
  case (Fails e)
  obtain w1 fl1 e1 where c: "lock_Close F fl w = (w1, fl1, e1)" by (cases "lock_Close F fl w")
  from lock_Close_ok [OF ok(1) c] fin Fails c show ?thesis by (auto simp: finish_acquire_def)
next
  case Blocks
  with fin ok show ?thesis by (auto simp: finish_acquire_def)
qed

lemma acquire_effect:
  assumes ok: "table_ok w"
    and acq: "AcquireLock F lm eid t w = (w', r) \<or> TryAcquireLock F lm eid t w = (w', r)"
  shows "table_ok w' \<and> ls_next w \<le> ls_next w' \<and>
    (case r of
       Granted lm' \<Rightarrow> \<exists>fl. lm' = lm\<lparr>lm_locks := (lm_locks lm)(eid \<mapsto> fl)\<rparr> \<and> fl_locked fl \<and> \<not> fl_closed fl \<and> fl_lockType fl = t \<and>
         fl_file fl = ls_next w \<and> ls_next w < ls_next w' \<and> fl_path fl = resolve (lock_path (lm_storage lm) eid) \<and>
         \<not> already_locked lm eid \<and>
         set (ls_table w') = insert \<lparr>hl_handle = fl_file fl, hl_path = fl_path fl, hl_type = t\<rparr> (set (ls_table w))
     | Refused e \<Rightarrow> set (ls_table w') = set (ls_table w)
     | Waiting fl \<Rightarrow> \<not> already_locked lm eid \<and> \<not> fl_locked fl \<and> \<not> fl_closed fl \<and> fl_file fl = ls_next w \<and> ls_next w < ls_next w' \<and>
         fl_path fl = resolve (lock_path (lm_storage lm) eid) \<and> set (ls_table w') = set (ls_table w))"
proof (cases "already_locked lm eid")
  case True
  with ok acq show ?thesis by (auto simp: AcquireLock_def TryAcquireLock_def Let_def)
next
  case False
  obtain w1 x where n: "NewFileLock F (lock_path (lm_storage lm) eid) w = (w1, x)"
    by (cases "NewFileLock F (lock_path (lm_storage lm) eid) w")
  note nok = NewFileLock_ok [OF ok n]
  show ?thesis
  proof (cases x)
    case (Inl e)
    with acq False n nok show ?thesis by (auto simp: AcquireLock_def TryAcquireLock_def Let_def)
  next
    case (Inr fl)
    then have fl: "fl_file fl = ls_next w" "fl_path fl = resolve (lock_path (lm_storage lm) eid)" "\<not> fl_locked fl" "\<not> fl_closed fl"
      "ls_next w1 = Suc (ls_next w)" "ls_table w1 = ls_table w" "table_ok w1" using nok by auto
    from acq False n Inr obtain result where res: "result = lock_Lock F fl t w1 \<or> result = TryLock F fl t w1"
      and fin: "finish_acquire F lm eid fl result w1 = (w', r)"
      by (auto simp: AcquireLock_def TryAcquireLock_def Let_def)
    have same: "{h \<in> set (ls_table w). hl_handle h \<noteq> ls_next w} = set (ls_table w)"
      using ok by (auto simp: table_ok_def)
    from finish_effect [OF fl(7) _ fl(3) res fin] fl False same show ?thesis
      by (cases r) auto
  qed
qed

lemma release_effect:
  assumes ok: "table_ok w" and rel: "ReleaseLock F lm eid w = (w', lm', e)"
  shows "table_ok w' \<and> ls_next w' = ls_next w \<and> lm_storage lm' = lm_storage lm \<and>
    (\<forall>eid'. eid' \<noteq> eid \<longrightarrow> lm_locks lm' eid' = lm_locks lm eid') \<and>
    (case lm_locks lm eid of
       None \<Rightarrow> lm' = lm \<and> w' = w
     | Some fl \<Rightarrow> set (ls_table w') = {h \<in> set (ls_table w). hl_handle h \<noteq> fl_file fl} \<and>
         (\<forall>fl'. lm_locks lm' eid = Some fl' \<longrightarrow> fl_file fl' = fl_file fl \<and> fl_path fl' = fl_path fl))"
proof (cases "lm_locks lm eid")
  case None
  with assms show ?thesis by (simp add: ReleaseLock_def)
next
  case (Some fl)
  obtain w1 fl1 e1 where c: "lock_Close F fl w = (w1, fl1, e1)" by (cases "lock_Close F fl w")
  from lock_Close_ok [OF ok c] rel Some c show ?thesis
    by (cases e1) (auto simp: ReleaseLock_def)
qed

lemma lock_inv_proc:
  assumes "locks_inv N S (w, ps)"
  shows "table_ok w" "proc_inj (ps p)" "proc_paths N S (ps p)" "lm_storage (lp_mgr (ps p)) = S"
    "proc_files (ps p) \<subseteq> {..<ls_next w}" "proc_held (set (ls_table w)) (ps p)"
proof -
  show "table_ok w" "proc_inj (ps p)" "proc_files (ps p) \<subseteq> {..<ls_next w}" "proc_held (set (ls_table w)) (ps p)" and pp: "proc_paths N S (ps p)"
    using assms by (simp_all add: locks_inv_def)
  from pp show "lm_storage (lp_mgr (ps p)) = S" by (simp add: proc_paths_def)
qed

lemma lock_inv_disjoint:
  "locks_inv N S (w, ps) \<Longrightarrow> x \<in> proc_files (ps p) \<Longrightarrow> x \<in> proc_files (ps q) \<Longrightarrow> p = q"
  unfolding locks_inv_def by fastforce

text \<open>A process whose map gains one fresh handle, or that starts to wait on one, keeps the invariant.\<close>

lemma slots_fresh_map:
  assumes inj: "proc_inj pr" and files: "proc_files pr \<subseteq> {..<n}"
    and wait: "lp_wait pr = None" and fl: "fl_file fl = n"
  shows "proc_inj (pr\<lparr>lp_mgr := (lp_mgr pr)\<lparr>lm_locks := (lm_locks (lp_mgr pr))(eid \<mapsto> fl)\<rparr>, lp_wait := None\<rparr>)"
    and "proc_files (pr\<lparr>lp_mgr := (lp_mgr pr)\<lparr>lm_locks := (lm_locks (lp_mgr pr))(eid \<mapsto> fl)\<rparr>, lp_wait := None\<rparr>)
       \<subseteq> insert n (proc_files pr)"
proof -
  let ?pr = "pr\<lparr>lp_mgr := (lp_mgr pr)\<lparr>lm_locks := (lm_locks (lp_mgr pr))(eid \<mapsto> fl)\<rparr>, lp_wait := None\<rparr>"
  have sl: "slot_lock ?pr a = (if a = InMap eid then Some fl else slot_lock pr a)" for a
    using wait by (cases a) auto
  have lt: "slot_lock pr a = Some f \<Longrightarrow> fl_file f < n" for a f
    using files proc_filesI [of pr a f] by auto
  show "proc_inj ?pr"
    using inj lt fl unfolding proc_inj_def sl by (metis less_irrefl option.inject)
  show "proc_files ?pr \<subseteq> insert n (proc_files pr)"
    unfolding proc_files_def sl using fl by auto
qed

lemma slots_fresh_wait:
  assumes inj: "proc_inj pr" and files: "proc_files pr \<subseteq> {..<n}"
    and fl: "fl_file fl = n"
  shows "proc_inj (pr\<lparr>lp_wait := Some (eid, t, fl)\<rparr>)"
    and "proc_files (pr\<lparr>lp_wait := Some (eid, t, fl)\<rparr>) \<subseteq> insert n (proc_files pr)"
proof -
  let ?pr = "pr\<lparr>lp_wait := Some (eid, t, fl)\<rparr>"
  have sl: "slot_lock ?pr a = (if a = InWait then Some fl else slot_lock pr a)" for a
    by (cases a) auto
  have lt: "slot_lock pr a = Some f \<Longrightarrow> fl_file f < n" for a f
    using files proc_filesI [of pr a f] by auto
  show "proc_inj ?pr"
    using inj lt fl unfolding proc_inj_def sl by (metis less_irrefl option.inject)
  show "proc_files ?pr \<subseteq> insert n (proc_files pr)"
    unfolding proc_files_def sl using fl by auto
qed

text \<open>A process that keeps its handles, possibly moving or dropping some, keeps the invariant.\<close>

lemma slots_subset:
  assumes "proc_inj pr" and "\<And>a fl. slot_lock pr' a = Some fl \<Longrightarrow> \<exists>fl0. slot_lock pr a = Some fl0 \<and> fl_file fl0 = fl_file fl"
  shows "proc_inj pr' \<and> proc_files pr' \<subseteq> proc_files pr"
  using assms unfolding proc_inj_def proc_files_def by (auto; metis)

section \<open>What the operations do, and that it keeps the invariant\<close>

text \<open>The effect of a call that acquires a lock, of the end of a wait, and of releasing the locks of the ids \<open>D\<close>.\<close>

definition acquire_eff :: "(string \<Rightarrow> path) \<Rightarrow> LockManager \<Rightarrow> string \<Rightarrow> LockType \<Rightarrow> lock_sys \<Rightarrow> lock_sys \<Rightarrow> acquired \<Rightarrow> bool" where
  "acquire_eff N lm eid t w w' r \<longleftrightarrow> table_ok w' \<and> ls_next w \<le> ls_next w' \<and>
    (case r of
       Granted lm' \<Rightarrow> \<exists>fl. lm' = lm\<lparr>lm_locks := (lm_locks lm)(eid \<mapsto> fl)\<rparr> \<and> fl_locked fl \<and> \<not> fl_closed fl \<and> fl_lockType fl = t \<and>
         fl_file fl = ls_next w \<and> ls_next w < ls_next w' \<and> fl_path fl = N eid \<and> \<not> already_locked lm eid \<and>
         set (ls_table w') = insert (fl_entry fl) (set (ls_table w))
     | Refused e \<Rightarrow> set (ls_table w') = set (ls_table w)
     | Waiting fl \<Rightarrow> \<not> already_locked lm eid \<and> \<not> fl_locked fl \<and> \<not> fl_closed fl \<and> fl_file fl = ls_next w \<and> ls_next w < ls_next w' \<and>
         fl_path fl = N eid \<and> set (ls_table w') = set (ls_table w))"

definition wake_eff :: "LockManager \<Rightarrow> string \<Rightarrow> LockType \<Rightarrow> FileLock \<Rightarrow> lock_sys \<Rightarrow> lock_sys \<Rightarrow> acquired \<Rightarrow> bool" where
  "wake_eff lm eid t fl w w' r \<longleftrightarrow> table_ok w' \<and> ls_next w' = ls_next w \<and>
    (case r of
       Granted lm' \<Rightarrow> lm' = lm\<lparr>lm_locks := (lm_locks lm)(eid \<mapsto> fl\<lparr>fl_locked := True, fl_lockType := t\<rparr>)\<rparr> \<and>
         set (ls_table w') = insert (fl_entry (fl\<lparr>fl_lockType := t\<rparr>)) (set (ls_table w))
     | Refused e \<Rightarrow> set (ls_table w') = set (ls_table w)
     | Waiting fl' \<Rightarrow> fl' = fl \<and> w' = w)"

definition freed_eff :: "LockManager \<Rightarrow> string set \<Rightarrow> lock_sys \<Rightarrow> lock_sys \<Rightarrow> LockManager \<Rightarrow> bool" where
  "freed_eff lm D w w' lm' \<longleftrightarrow> table_ok w' \<and> ls_next w' = ls_next w \<and> lm_storage lm' = lm_storage lm \<and>
    (\<forall>e. e \<notin> D \<longrightarrow> lm_locks lm' e = lm_locks lm e) \<and> set (ls_table w') \<subseteq> set (ls_table w) \<and>
    (\<forall>h \<in> set (ls_table w). (\<forall>e \<in> D. \<forall>fl. lm_locks lm e = Some fl \<longrightarrow> hl_handle h \<noteq> fl_file fl) \<longrightarrow> h \<in> set (ls_table w')) \<and>
    (\<forall>e \<in> D. \<forall>fl'. lm_locks lm' e = Some fl' \<longrightarrow>
      fl_closed fl' \<and> (\<exists>fl. lm_locks lm e = Some fl \<and> fl_file fl' = fl_file fl \<and> fl_path fl' = fl_path fl))"

lemma freed_effI:
  assumes "table_ok w'" and "ls_next w' = ls_next w" and "lm_storage lm' = lm_storage lm" and "\<And>e. e \<notin> D \<Longrightarrow> lm_locks lm' e = lm_locks lm e"
    and "\<And>h. h \<in> set (ls_table w') \<Longrightarrow> h \<in> set (ls_table w)"
    and "\<And>h. h \<in> set (ls_table w) \<Longrightarrow> (\<And>e fl. e \<in> D \<Longrightarrow> lm_locks lm e = Some fl \<Longrightarrow> hl_handle h \<noteq> fl_file fl) \<Longrightarrow> h \<in> set (ls_table w')"
    and "\<And>e fl'. e \<in> D \<Longrightarrow> lm_locks lm' e = Some fl' \<Longrightarrow>
      fl_closed fl' \<and> (\<exists>fl. lm_locks lm e = Some fl \<and> fl_file fl' = fl_file fl \<and> fl_path fl' = fl_path fl)"
  shows "freed_eff lm D w w' lm'"
  using assms unfolding freed_eff_def subset_iff by blast

lemma freed_effD:
  assumes "freed_eff lm D w w' lm'"
  shows "table_ok w'" "ls_next w' = ls_next w" "lm_storage lm' = lm_storage lm" "e \<notin> D \<Longrightarrow> lm_locks lm' e = lm_locks lm e"
    "h \<in> set (ls_table w') \<Longrightarrow> h \<in> set (ls_table w)"
    "h \<in> set (ls_table w) \<Longrightarrow> (\<And>e fl. e \<in> D \<Longrightarrow> lm_locks lm e = Some fl \<Longrightarrow> hl_handle h \<noteq> fl_file fl) \<Longrightarrow> h \<in> set (ls_table w')"
    "lm_locks lm' e = Some fl' \<Longrightarrow> \<exists>fl. lm_locks lm e = Some fl \<and> fl_file fl' = fl_file fl \<and> fl_path fl' = fl_path fl \<and> (if e \<in> D then fl_closed fl' else fl' = fl)"
proof -
  show "table_ok w'" "ls_next w' = ls_next w" "lm_storage lm' = lm_storage lm" "e \<notin> D \<Longrightarrow> lm_locks lm' e = lm_locks lm e"
    "h \<in> set (ls_table w') \<Longrightarrow> h \<in> set (ls_table w)"
    "h \<in> set (ls_table w) \<Longrightarrow> (\<And>e fl. e \<in> D \<Longrightarrow> lm_locks lm e = Some fl \<Longrightarrow> hl_handle h \<noteq> fl_file fl) \<Longrightarrow> h \<in> set (ls_table w')"
    using assms unfolding freed_eff_def by blast+
  show "lm_locks lm' e = Some fl' \<Longrightarrow> \<exists>fl. lm_locks lm e = Some fl \<and> fl_file fl' = fl_file fl \<and> fl_path fl' = fl_path fl \<and> (if e \<in> D then fl_closed fl' else fl' = fl)"
    using assms unfolding freed_eff_def by (cases "e \<in> D") auto
qed

lemma freed_eff_trans:
  assumes "freed_eff lm D w w1 lm1" and "freed_eff lm1 D' w1 w2 lm2"
  shows "freed_eff lm (D \<union> D') w w2 lm2"
proof -
  note a = freed_effD [OF assms(1)] and b = freed_effD [OF assms(2)]
  show ?thesis
  proof (rule freed_effI)
    show "table_ok w2" "ls_next w2 = ls_next w" "lm_storage lm2 = lm_storage lm" using a(2,3) b(1-3) by simp_all
    show "lm_locks lm2 e = lm_locks lm e" if "e \<notin> D \<union> D'" for e using a(4) [of e] b(4) [of e] that by simp
    show "h \<in> set (ls_table w)" if "h \<in> set (ls_table w2)" for h using a(5) b(5) that by blast
    show "h \<in> set (ls_table w2)" if h: "h \<in> set (ls_table w)" "\<And>e fl. e \<in> D \<union> D' \<Longrightarrow> lm_locks lm e = Some fl \<Longrightarrow> hl_handle h \<noteq> fl_file fl" for h
    proof (rule b(6))
      show "h \<in> set (ls_table w1)" using h by (intro a(6)) auto
      show "hl_handle h \<noteq> fl_file fl" if "e \<in> D'" "lm_locks lm1 e = Some fl" for e fl using a(7) [OF that(2)] h(2) that(1) by fastforce
    qed
    show "fl_closed fl' \<and> (\<exists>fl. lm_locks lm e = Some fl \<and> fl_file fl' = fl_file fl \<and> fl_path fl' = fl_path fl)"
      if e: "e \<in> D \<union> D'" "lm_locks lm2 e = Some fl'" for e fl'
    proof -
      obtain fl1 where 1: "lm_locks lm1 e = Some fl1" "fl_file fl' = fl_file fl1" "fl_path fl' = fl_path fl1" "if e \<in> D' then fl_closed fl' else fl' = fl1"
        using b(7) [OF e(2)] by blast
      with a(7) [OF 1(1)] e(1) show ?thesis by (auto split: if_splits)
    qed
  qed
qed

lemma locks_inv_acquired:
  assumes inv: "locks_inv N S (w, ps)" and wait: "lp_wait (ps p) = None" and eff: "acquire_eff N (lp_mgr (ps p)) eid t w w' r"
  shows "locks_inv N S (w', ps(p := after_acquire (ps p) eid t r))"
proof -
  note pr = lock_inv_proc(1) [OF inv] lock_inv_proc(2-6) [OF inv, of p]
  have fresh_handle: "hl_handle h \<noteq> ls_next w" if "h \<in> set (ls_table w)" for h using pr(1) that by (auto simp: table_ok_def)
  show ?thesis
  proof (cases r)
    case (Granted lm')
    with eff obtain fl where lm': "lm' = (lp_mgr (ps p))\<lparr>lm_locks := (lm_locks (lp_mgr (ps p)))(eid \<mapsto> fl)\<rparr>"
      and fl: "fl_file fl = ls_next w" "fl_path fl = N eid" "ls_next w < ls_next w'"
      and tab: "set (ls_table w') = insert (fl_entry fl) (set (ls_table w))" and ok: "table_ok w'"
      by (auto simp: acquire_eff_def)
    note fresh = slots_fresh_map [OF pr(2,5) wait fl(1), of eid]
    show ?thesis
    proof (rule locks_inv_update [OF inv ok])
      show "proc_paths N S (after_acquire (ps p) eid t r)" using pr(3) fl(2) by (simp add: Granted lm' proc_paths_def)
      show "proc_inj (after_acquire (ps p) eid t r)"
        "proc_files (after_acquire (ps p) eid t r) \<subseteq> proc_files (ps p) \<union> {ls_next w..<ls_next w'}"
        using fresh fl(3) by (auto simp: Granted lm')
      show "proc_held (set (ls_table w')) (after_acquire (ps p) eid t r)"
        using pr(6) by (auto simp: Granted lm' proc_held_def tab)
    qed (use tab fl in \<open>auto simp: fl_entry_def\<close>)
  next
    case (Refused e)
    have same: "ps(p := after_acquire (ps p) eid t r) = ps(p := ps p)" using wait Refused by (auto simp: fun_eq_iff)
    show ?thesis unfolding same
      by (rule locks_inv_update [OF inv]) (use eff Refused pr in \<open>auto simp: acquire_eff_def\<close>)
  next
    case (Waiting fl)
    note fresh = slots_fresh_wait [OF pr(2,5), of fl eid t]
    from eff Waiting have fl: "\<not> fl_locked fl" "fl_file fl = ls_next w" "ls_next w < ls_next w'"
      "fl_path fl = N eid" "\<not> already_locked (lp_mgr (ps p)) eid" "\<not> fl_closed fl" and tab: "set (ls_table w') = set (ls_table w)"
      and ok: "table_ok w'" by (auto simp: acquire_eff_def)
    show ?thesis
    proof (rule locks_inv_update [OF inv ok])
      show "proc_paths N S (after_acquire (ps p) eid t r)" using pr(3) fl(1,4,5,6) by (simp add: Waiting proc_paths_def)
      show "proc_inj (after_acquire (ps p) eid t r)"
        "proc_files (after_acquire (ps p) eid t r) \<subseteq> proc_files (ps p) \<union> {ls_next w..<ls_next w'}"
        using fresh fl(2,3) by (auto simp: Waiting)
      show "proc_held (set (ls_table w')) (after_acquire (ps p) eid t r)"
        using pr(6) fresh_handle fl(2) by (simp add: Waiting proc_held_def tab)
    qed (use tab fl in auto)
  qed
qed

text \<open>The end of a wait moves the description from the caller into the map.\<close>

lemma slots_woken:
  assumes inj: "proc_inj pr" and wait: "lp_wait pr = Some (eid, t, fl)" and f': "fl_file fl' = fl_file fl"
  shows "proc_inj (pr\<lparr>lp_mgr := (lp_mgr pr)\<lparr>lm_locks := (lm_locks (lp_mgr pr))(eid \<mapsto> fl')\<rparr>, lp_wait := None\<rparr>)" (is "proc_inj ?pr")
    and "proc_files (pr\<lparr>lp_mgr := (lp_mgr pr)\<lparr>lm_locks := (lm_locks (lp_mgr pr))(eid \<mapsto> fl')\<rparr>, lp_wait := None\<rparr>) \<subseteq> proc_files pr"
proof -
  have sl: "slot_lock ?pr a = (if a = InMap eid then Some fl' else if a = InWait then None else slot_lock pr a)" for a
    by (cases a) auto
  have w0: "slot_lock pr InWait = Some fl" using wait by simp
  have only: "a = InMap eid" if "slot_lock ?pr a = Some f" "fl_file f = fl_file fl" for a f
  proof (rule ccontr)
    assume "a \<noteq> InMap eid"
    with that(1) have "a \<noteq> InWait" "slot_lock pr a = Some f" by (auto simp: sl split: if_splits)
    with w0 that(2) inj show False unfolding proc_inj_def by blast
  qed
  show "proc_inj ?pr" unfolding proc_inj_def
  proof (intro allI impI)
    fix a b f g assume ab: "slot_lock ?pr a = Some f" "slot_lock ?pr b = Some g" "fl_file f = fl_file g"
    show "a = b"
    proof (cases "fl_file f = fl_file fl")
      case True
      with ab only [of a f] only [of b g] show ?thesis by simp
    next
      case False
      have "a \<noteq> InMap eid" "b \<noteq> InMap eid" using False ab f' by (auto simp: sl)
      with ab have "slot_lock pr a = Some f" "slot_lock pr b = Some g" by (simp_all add: sl split: if_splits)
      with ab(3) inj show ?thesis unfolding proc_inj_def by blast
    qed
  qed
  show "proc_files ?pr \<subseteq> proc_files pr"
    using proc_filesI [OF w0] f' unfolding proc_files_def sl by (auto split: if_splits)
qed

lemma locks_inv_woken:
  assumes inv: "locks_inv N S (w, ps)" and wait: "lp_wait (ps p) = Some (eid, t, fl)" and eff: "wake_eff (lp_mgr (ps p)) eid t fl w w' r"
  shows "locks_inv N S (w', ps(p := after_acquire (ps p) eid t r))"
proof -
  note pr = lock_inv_proc(1) [OF inv] lock_inv_proc(2-6) [OF inv, of p]
  have fl: "fl_file fl \<in> proc_files (ps p)" "fl_path fl = N eid" "\<not> fl_closed fl" using pr(3) proc_files_slots(2) [OF wait] wait by (auto simp: proc_paths_def)
  show ?thesis
  proof (cases r)
    case (Granted lm')
    let ?fl = "fl\<lparr>fl_locked := True, fl_lockType := t\<rparr>"
    from eff Granted have lm: "lm' = (lp_mgr (ps p))\<lparr>lm_locks := (lm_locks (lp_mgr (ps p)))(eid \<mapsto> ?fl)\<rparr>" and tab: "set (ls_table w') = insert (fl_entry ?fl) (set (ls_table w))"
      and ok: "table_ok w'" "ls_next w' = ls_next w" by (auto simp: wake_eff_def fl_entry_def)
    have "fl_file ?fl = fl_file fl" by simp
    note moved = slots_woken [OF pr(2) wait this]
    show ?thesis
    proof (rule locks_inv_update [OF inv ok(1)])
      show "proc_paths N S (after_acquire (ps p) eid t r)" using pr(3) fl(2) by (auto simp: Granted lm proc_paths_def)
      show "proc_inj (after_acquire (ps p) eid t r)" using moved(1) by (simp add: Granted lm)
      show "proc_files (after_acquire (ps p) eid t r) \<subseteq> proc_files (ps p) \<union> {ls_next w..<ls_next w'}" using moved(2) by (auto simp: Granted lm)
      show "proc_held (set (ls_table w')) (after_acquire (ps p) eid t r)" using pr(6) by (auto simp: Granted lm proc_held_def tab)
    qed (use tab fl(1) ok in \<open>auto simp: fl_entry_def\<close>)
  next
    case (Refused e)
    have slots: "proc_inj ((ps p)\<lparr>lp_wait := None\<rparr>) \<and> proc_files ((ps p)\<lparr>lp_wait := None\<rparr>) \<subseteq> proc_files (ps p)"
    proof (rule slots_subset [OF pr(2)])
      fix a f assume "slot_lock ((ps p)\<lparr>lp_wait := None\<rparr>) a = Some f"
      then show "\<exists>f0. slot_lock (ps p) a = Some f0 \<and> fl_file f0 = fl_file f" by (cases a) auto
    qed
    show ?thesis
      by (rule locks_inv_update [OF inv]) (use eff Refused slots pr(3,6) in \<open>auto simp: wake_eff_def proc_paths_def proc_held_def\<close>)
  next
    case (Waiting fl')
    with eff wait have "ps(p := after_acquire (ps p) eid t r) = ps" "w' = w" by (auto simp: fun_eq_iff wake_eff_def)
    with inv show ?thesis by simp
  qed
qed

lemma locks_inv_freed:
  assumes inv: "locks_inv N S (w, ps)" and wait: "lp_wait (ps p) = None" and eff: "freed_eff (lp_mgr (ps p)) D w w' lm'"
  shows "locks_inv N S (w', ps(p := (ps p)\<lparr>lp_mgr := lm'\<rparr>))"
proof -
  note pr = lock_inv_proc(1) [OF inv] lock_inv_proc(2-6) [OF inv, of p]
  note D = freed_effD [OF eff]
  let ?pr = "(ps p)\<lparr>lp_mgr := lm'\<rparr>"
  have slots: "proc_inj ?pr \<and> proc_files ?pr \<subseteq> proc_files (ps p)"
  proof (rule slots_subset [OF pr(2)])
    fix a f assume "slot_lock ?pr a = Some f"
    then show "\<exists>f0. slot_lock (ps p) a = Some f0 \<and> fl_file f0 = fl_file f" using D(7) by (cases a) fastforce+
  qed
  show ?thesis
  proof (rule locks_inv_update [OF inv D(1)])
    show "proc_paths N S ?pr" unfolding proc_paths_def using pr(3,4) wait D(3) D(7) by (fastforce simp: proc_paths_def)
    have "fl_entry f \<in> set (ls_table w')" if f: "lm_locks lm' e = Some f" "fl_locked f" "\<not> fl_closed f" for e f
    proof (rule D(6))
      have e: "e \<notin> D" "lm_locks (lp_mgr (ps p)) e = Some f" using D(7) [OF f(1)] f(3) by (auto split: if_splits)
      then show "fl_entry f \<in> set (ls_table w)" using pr(6) f by (simp add: proc_held_def)
      show "hl_handle (fl_entry f) \<noteq> fl_file g" if "e' \<in> D" "lm_locks (lp_mgr (ps p)) e' = Some g" for e' g
        using pr(2) e that unfolding proc_inj_def fl_entry_def by (metis held_lock.select_convs(1) slot.inject slot_lock.simps(1))
    qed
    then show "proc_held (set (ls_table w')) ?pr" using wait by (simp add: proc_held_def)
    show "h \<in> set (ls_table w')" if "h \<in> set (ls_table w)" "hl_handle h \<notin> proc_files (ps p)" for h
      using that proc_files_slots(1) [of "ps p"] by (intro D(6)) metis+
  qed (use slots D(2,5) in auto)
qed

section \<open>The operations on Unix\<close>

lemma acquire_eff_unix:
  assumes "table_ok w" and "AcquireLock F lm eid t w = (w', r) \<or> TryAcquireLock F lm eid t w = (w', r)"
  shows "acquire_eff (\<lambda>eid. resolve (lock_path (lm_storage lm) eid)) lm eid t w w' r"
  using acquire_effect [OF assms] by (cases r) (auto simp: acquire_eff_def fl_entry_def)

lemma wake_eff_unix:
  assumes "table_ok w" and "fl_file fl < ls_next w" and "\<not> fl_locked fl" and "\<forall>h \<in> set (ls_table w). hl_handle h \<noteq> fl_file fl"
    and "finish_acquire F lm eid fl (lock_Lock F fl t w) w = (w', r)"
  shows "wake_eff lm eid t fl w w' r"
proof -
  have "{h \<in> set (ls_table w). hl_handle h \<noteq> fl_file fl} = set (ls_table w)" using assms(4) by blast
  with finish_effect [OF assms(1-3) disjI1 [OF refl] assms(5)] show ?thesis by (cases r) (auto simp: wake_eff_def fl_entry_def)
qed

lemma release_eff_unix:
  assumes "table_ok w" and "ReleaseLock F lm eid w = (w', lm', e)"
  shows "freed_eff lm {eid} w w' lm'"
proof (cases "lm_locks lm eid")
  case None
  with assms show ?thesis by (auto simp: ReleaseLock_def freed_eff_def)
next
  case (Some fl)
  obtain w1 fl1 e1 where c: "lock_Close F fl w = (w1, fl1, e1)" by (cases "lock_Close F fl w")
  from lock_Close_ok [OF assms(1) c] assms(2) Some c show ?thesis
    by (cases e1) (auto simp: ReleaseLock_def freed_eff_def)
qed

lemma release_each_eff:
  "table_ok w \<Longrightarrow> release_each F ids lm lastErr w = (w', lm', e) \<Longrightarrow> freed_eff lm (set ids) w w' lm'"
proof (induction ids arbitrary: lm lastErr w)
  case Nil
  then show ?case by (auto simp: freed_eff_def)
next
  case (Cons eid ids)
  show ?case
  proof (cases "lm_locks lm eid")
    case None
    with Cons have "freed_eff lm (set ids) w w' lm'" by simp
    moreover have "freed_eff lm {eid} w w lm" using Cons.prems(1) None by (auto simp: freed_eff_def)
    ultimately show ?thesis using freed_eff_trans [of lm "{eid}" w w lm "set ids" w' lm'] by simp
  next
    case (Some fl)
    obtain w1 fl1 e1 where c: "lock_Close F fl w = (w1, fl1, e1)" by (cases "lock_Close F fl w")
    let ?lm = "lm\<lparr>lm_locks := (lm_locks lm)(eid := None)\<rparr>"
    note ok = lock_Close_ok [OF Cons.prems(1) c]
    have "freed_eff lm {eid} w w1 ?lm" using ok Some by (auto simp: freed_eff_def)
    moreover have "freed_eff ?lm (set ids) w1 w' lm'"
      using Cons.IH [of w1 ?lm] Cons.prems(2) ok Some c by simp
    ultimately show ?thesis using freed_eff_trans [of lm "{eid}" w w1 ?lm "set ids" w' lm'] by simp
  qed
qed

lemma lock_inv_acquire:
  assumes inv: "lock_inv S (w, ps)" and wait: "lp_wait (ps p) = None"
    and acq: "AcquireLock F (lp_mgr (ps p)) eid t w = (w', r) \<or> TryAcquireLock F (lp_mgr (ps p)) eid t w = (w', r)"
  shows "lock_inv S (w', ps(p := after_acquire (ps p) eid t r))"
  using acquire_eff_unix [OF lock_inv_proc(1) [OF inv] acq] lock_inv_proc(4) [OF inv, of p] by (intro locks_inv_acquired [OF inv wait]) simp

lemma lock_inv_wake:
  assumes inv: "lock_inv S (w, ps)" and wait: "lp_wait (ps p) = Some (eid, t, fl)"
    and fin: "finish_acquire F (lp_mgr (ps p)) eid fl (lock_Lock F fl t w) w = (w', r)"
  shows "lock_inv S (w', ps(p := after_acquire (ps p) eid t r))"
proof -
  note pr = lock_inv_proc(1) [OF inv] lock_inv_proc(3,5,6) [OF inv, of p]
  have "fl_file fl < ls_next w" "\<not> fl_locked fl" "\<forall>h \<in> set (ls_table w). hl_handle h \<noteq> fl_file fl"
    using pr proc_files_slots(2) [OF wait] wait by (auto simp: proc_paths_def proc_held_def)
  from wake_eff_unix [OF pr(1) this fin] show ?thesis by (rule locks_inv_woken [OF inv wait])
qed

lemma lock_step_inv [inv_intros]: "lock_step F ev s s' \<Longrightarrow> lock_inv S s \<Longrightarrow> lock_inv S s'"
proof (induction rule: lock_step.induct)
  case (release ps p eid w w' lm' e)
  from locks_inv_freed [OF release(3,1) release_eff_unix [OF lock_inv_proc(1) [OF release(3)] release(2)]] show ?case .
next
  case (release_all ps p ids w w' lm' e)
  from locks_inv_freed [OF release_all(5,1) release_each_eff [OF lock_inv_proc(1) [OF release_all(5)] release_all(4) [unfolded ReleaseAll_def]]] show ?case .
qed (blast intro: lock_inv_acquire lock_inv_wake)+

lemma lock_inv_start: "locks_inv N S (start_state S fs)"
proof -
  have sl: "slot_lock \<lparr>lp_mgr = NewLockManager S, lp_wait = None\<rparr> a = None" for a
    by (cases a) (auto simp: NewLockManager_def)
  then have "proc_files \<lparr>lp_mgr = NewLockManager S, lp_wait = None\<rparr> = {}"
    by (auto simp: proc_files_def)
  with sl show ?thesis
    by (simp add: locks_inv_def start_state_def table_ok_def consistent_def proc_inj_def proc_paths_def proc_held_def NewLockManager_def)
qed

lemma lock_reachable_inv: "lock_reach E s s' \<Longrightarrow> lock_inv S s \<Longrightarrow> lock_inv S s'"
  by (induction rule: lock_reach.induct) (auto intro: lock_step_inv)

section \<open>Exclusion from the invariant\<close>

lemma holds_iff:
  "holds (w, ps) p eid t \<longleftrightarrow> (\<exists>fl. lm_locks (lp_mgr (ps p)) eid = Some fl \<and> fl_locked fl \<and> \<not> fl_closed fl \<and> fl_lockType fl = t)"
  by (auto simp: holds_def split: option.splits)

text \<open>Whatever is granted is in the system's table.\<close>

lemma holds_entry:
  assumes "locks_inv N S (w, ps)" and "holds (w, ps) p eid t"
  obtains fl where "lm_locks (lp_mgr (ps p)) eid = Some fl" "fl_path fl = N eid" "fl_file fl \<in> proc_files (ps p)"
    "\<lparr>hl_handle = fl_file fl, hl_path = N eid, hl_type = t\<rparr> \<in> set (ls_table w)"
proof -
  obtain fl where fl: "lm_locks (lp_mgr (ps p)) eid = Some fl" "fl_locked fl" "\<not> fl_closed fl" "fl_lockType fl = t"
    using assms(2) by (auto simp: holds_iff)
  have "fl_path fl = N eid" "fl_entry fl \<in> set (ls_table w)"
    using lock_inv_proc(3,6) [OF assms(1), of p] fl by (auto simp: proc_paths_def proc_held_def)
  with fl proc_files_slots(1) [OF fl(1)] show thesis by (intro that) (auto simp: fl_entry_def)
qed

lemma holds_exclusive_file:
  assumes inv: "locks_inv N S s" and "holds s p a LockExclusive" and "holds s q b t" and "N a = N b"
  shows "p = q \<and> a = b"
proof -
  obtain w ps where s: "s = (w, ps)" by (cases s)
  note i = inv [unfolded s]
  obtain fl where fl: "lm_locks (lp_mgr (ps p)) a = Some fl" "fl_file fl \<in> proc_files (ps p)"
    "\<lparr>hl_handle = fl_file fl, hl_path = N a, hl_type = LockExclusive\<rparr> \<in> set (ls_table w)"
    by (rule holds_entry [OF i]) (use assms(2) in \<open>auto simp: s\<close>)
  obtain fl' where fl': "lm_locks (lp_mgr (ps q)) b = Some fl'" "fl_file fl' \<in> proc_files (ps q)"
    "\<lparr>hl_handle = fl_file fl', hl_path = N b, hl_type = t\<rparr> \<in> set (ls_table w)"
    by (rule holds_entry [OF i]) (use assms(3) in \<open>auto simp: s\<close>)
  have "consistent (set (ls_table w))" using lock_inv_proc(1) [OF i] by (simp add: table_ok_def)
  from consistentD [OF this fl(3) fl'(3)] have eq: "fl_file fl = fl_file fl'" using assms(4) by (simp add: conflicts_def)
  then have pq: "p = q" using lock_inv_disjoint [OF i fl(2)] fl'(2) by simp
  then have "InMap a = InMap b" using lock_inv_proc(2) [OF i, of p] fl(1) fl'(1) eq unfolding proc_inj_def by (metis slot_lock.simps(1))
  with pq show ?thesis by simp
qed

end
