(* ===== verification/Lock_Properties.thy ===== *)
theory Lock_Properties
  imports File_Locks
begin

text \<open>
  Mutual exclusion of the file locks across processes, and two consequences of the way the
  manager uses them: a caller in the same process is refused instead of waiting, and two
  processes can block each other forever.
\<close>

fun actor :: "lock_event \<Rightarrow> nat" where
  "actor (AcquireEv p eid t) = p"
| "actor (TryEv p eid t) = p"
| "actor (WakeEv p) = p"
| "actor (ReleaseEv p eid) = p"
| "actor (ReleaseAllEv p ids) = p"

inductive_cases acquireE: "lock_step F (AcquireEv p eid t) s s'"
inductive_cases tryE: "lock_step F (TryEv p eid t) s s'"
inductive_cases wakeE: "lock_step F (WakeEv p) s s'"
inductive_cases releaseE: "lock_step F (ReleaseEv p eid) s s'"
inductive_cases releaseAllE: "lock_step F (ReleaseAllEv p ids) s s'"

section \<open>What a step leaves alone\<close>

lemma lock_step_others: "lock_step F ev (w, ps) (w', ps') \<Longrightarrow> q \<noteq> actor ev \<Longrightarrow> ps' q = ps q"
  by (cases rule: lock_step.cases) auto

lemma acquired_map:
  assumes "finish_acquire F lm eid fl result w = (w', Granted lm')"
  shows "e \<noteq> eid \<Longrightarrow> lm_locks lm' e = lm_locks lm e"
  using assms by (auto simp: finish_acquire_def split: outcome.splits)

lemma acquire_map:
  assumes "AcquireLock F lm eid t w = (w', Granted lm') \<or> TryAcquireLock F lm eid t w = (w', Granted lm')" and "e \<noteq> eid"
  shows "lm_locks lm' e = lm_locks lm e"
  using assms by (auto simp: AcquireLock_def TryAcquireLock_def Let_def split: if_splits prod.splits sum.splits dest!: acquired_map)

lemma acquire_refused:
  assumes "already_locked lm eid"
  shows "AcquireLock F lm eid t w = (w, Refused ErrAlreadyLocked)" "TryAcquireLock F lm eid t w = (w, Refused ErrAlreadyLocked)"
  using assms by (simp_all add: AcquireLock_def TryAcquireLock_def)

lemma after_acquire_map:
  assumes "\<And>lm'. r = Granted lm' \<Longrightarrow> lm_locks lm' e = lm_locks (lp_mgr pr) e"
  shows "lm_locks (lp_mgr (after_acquire pr eid t r)) e = lm_locks (lp_mgr pr) e"
  using assms by (cases r) simp_all

lemma holds_already_locked: "holds (w, ps) p eid t \<Longrightarrow> already_locked (lp_mgr (ps p)) eid"
  by (auto simp: holds_iff already_locked_def IsLocked_def)

lemma holds_exclusive:
  "lock_inv S s \<Longrightarrow> holds s p eid LockExclusive \<Longrightarrow> holds s q eid t \<Longrightarrow> p = q"
  using holds_exclusive_file by blast

text \<open>No step but a release of the holder changes its entry of the map.\<close>

lemma locked_map_kept:
  assumes st: "lock_step F ev (w, ps) (w', ps')" and inv: "lock_inv S (w, ps)" and al: "already_locked (lp_mgr (ps p)) eid"
    and ev: "ev \<noteq> ReleaseEv p eid" "\<And>ids. ev \<noteq> ReleaseAllEv p ids"
  shows "lm_locks (lp_mgr (ps' p)) eid = lm_locks (lp_mgr (ps p)) eid"
proof (cases "actor ev = p")
  case False
  with lock_step_others [OF st, of p] show ?thesis by simp
next
  case True
  from st show ?thesis
  proof (cases rule: lock_step.cases)
    case (acquire q eid' t r)
    with True al show ?thesis
      using acquire_map [of F "lp_mgr (ps p)" eid' t w w' _ eid] acquire_refused(1) [OF al, of F t w]
      by (cases "eid' = eid") (auto intro!: after_acquire_map)
  next
    case (try_acquire q eid' t r)
    with True al show ?thesis
      using acquire_map [of F "lp_mgr (ps p)" eid' t w w' _ eid] acquire_refused(2) [OF al, of F t w]
      by (cases "eid' = eid") (auto intro!: after_acquire_map)
  next
    case (wake q eid' t fl r)
    with True lock_inv_proc(3) [OF inv, of p] al have "eid' \<noteq> eid" by (auto simp: proc_paths_def)
    with wake True show ?thesis
      using acquired_map [of F "lp_mgr (ps p)" eid' fl _ w w' _ eid] by (auto intro!: after_acquire_map)
  next
    case (release q eid' lm' e)
    with True ev(1) have "eid' \<noteq> eid" by auto
    with release True show ?thesis by (auto simp: ReleaseLock_def split: option.splits prod.splits)
  next
    case (release_all q ids lm' e)
    with True ev(2) [of ids] show ?thesis by simp
  qed
qed

lemma holds_kept:
  assumes st: "lock_step F ev (w, ps) (w', ps')" and inv: "lock_inv S (w, ps)"
    and h: "holds (w, ps) p eid t" and ev: "ev \<noteq> ReleaseEv p eid" "\<And>ids. ev \<noteq> ReleaseAllEv p ids"
  shows "holds (w', ps') p eid t"
  using h locked_map_kept [OF st inv holds_already_locked [OF h] ev] by (simp add: holds_iff)

text \<open>A granted lock has the type that was asked for.\<close>

lemma granted_holds:
  assumes "table_ok w" and "AcquireLock F (lp_mgr (ps p)) eid t w = (w', Granted lm') \<or> TryAcquireLock F (lp_mgr (ps p)) eid t w = (w', Granted lm')"
  shows "holds (w', ps(p := after_acquire (ps p) eid t (Granted lm'))) p eid t"
  using acquire_effect [OF assms] by (auto simp: holds_iff)

section \<open>Acquiring without faults\<close>

lemma lock_path_entry:
  assumes "storage_inv S fs" and "isValidEntityID eid"
  shows "resolve (lock_path S eid) = child (files_at S) (eid @ ''.json.enc.lock'')"
    "plain_name (eid @ ''.json.enc.lock'')"
  using entity_paths [OF storage_inv_base [OF assms(1)] assms(2), of "''.json.enc''" "''.lock''"]
  by (simp_all add: lock_path_def GetBlobPath_def)

lemma NewFileLock_opens:
  assumes inv: "storage_inv S (ls_tree w)" and vid: "isValidEntityID eid"
  shows "\<exists>w'. NewFileLock no_faults (lock_path S eid) w = (w', Inr \<lparr>fl_file = ls_next w,
      fl_path = resolve (lock_path S eid), fl_lockType = LockShared, fl_locked = False, fl_closed = False\<rparr>) \<and>
    storage_inv S (ls_tree w') \<and> ls_table w' = ls_table w \<and> ls_next w' = Suc (ls_next w)"
proof -
  let ?q = "child (files_at S) (eid @ ''.json.enc.lock'')"
  note lp = lock_path_entry [OF inv vid]
  have pd: "plain_dir (files_at S) (ls_tree w)" and d: "is_dir (ls_tree w) (files_at S)"
    using inv by (simp_all add: storage_inv_def plain_dir_def)
  have "os_OpenFile no_faults False (lock_path S eid) (ls_tree w) =
      ((if node_at (ls_tree w) ?q \<noteq> None then ls_tree w else set_node ?q (FileNode []) (ls_tree w)), None)"
    using lp d is_dir_child [OF pd lp(2)] by (simp add: os_OpenFile_def Let_def)
  moreover have "storage_inv S (if node_at (ls_tree w) ?q \<noteq> None then ls_tree w else set_node ?q (FileNode []) (ls_tree w))"
    using inv by (simp add: storage_inv_def)
  ultimately show ?thesis by (simp add: NewFileLock_def)
qed

lemma acquire_free:
  assumes "storage_inv (lm_storage lm) (ls_tree w)" and "isValidEntityID eid" and "\<not> already_locked lm eid"
    and "\<forall>h \<in> set (ls_table w). \<not> conflicts (resolve (lock_path (lm_storage lm) eid)) t h"
  shows "\<exists>w' lm'. AcquireLock no_faults lm eid t w = (w', Granted lm') \<and> storage_inv (lm_storage lm) (ls_tree w')"
proof -
  from NewFileLock_opens [OF assms(1,2)] obtain w1 where w1: "NewFileLock no_faults (lock_path (lm_storage lm) eid) w =
      (w1, Inr \<lparr>fl_file = ls_next w, fl_path = resolve (lock_path (lm_storage lm) eid), fl_lockType = LockShared, fl_locked = False, fl_closed = False\<rparr>)"
    "storage_inv (lm_storage lm) (ls_tree w1)" "ls_table w1 = ls_table w" by blast
  with assms show ?thesis
    by (auto simp: AcquireLock_def Let_def lock_Lock_def platformLock_def flock_def list_ex_iff finish_acquire_def)
qed

lemma TryAcquireLock_granted:
  "AcquireLock F lm eid t w = (w', Granted lm') \<Longrightarrow> TryAcquireLock F lm eid t w = (w', Granted lm')"
  by (auto simp: AcquireLock_def TryAcquireLock_def lock_Lock_def TryLock_def platformLock_def flock_def finish_acquire_def Let_def
      split: if_splits prod.splits sum.splits outcome.splits)

lemma acquire_busy:
  assumes "storage_inv (lm_storage lm) (ls_tree w)" and "isValidEntityID eid" and "\<not> already_locked lm eid"
    and "table_ok w" and "h \<in> set (ls_table w)" and "conflicts (resolve (lock_path (lm_storage lm) eid)) t h"
  shows "\<exists>w' fl. AcquireLock no_faults lm eid t w = (w', Waiting fl) \<and> storage_inv (lm_storage lm) (ls_tree w')"
proof -
  from NewFileLock_opens [OF assms(1,2)] obtain w1 where w1: "NewFileLock no_faults (lock_path (lm_storage lm) eid) w =
      (w1, Inr \<lparr>fl_file = ls_next w, fl_path = resolve (lock_path (lm_storage lm) eid), fl_lockType = LockShared, fl_locked = False, fl_closed = False\<rparr>)"
    "storage_inv (lm_storage lm) (ls_tree w1)" "ls_table w1 = ls_table w" by blast
  have "hl_handle h \<noteq> ls_next w" using assms(4,5) by (auto simp: table_ok_def)
  with assms(5,6) have "list_ex (\<lambda>h. conflicts (resolve (lock_path (lm_storage lm) eid)) t h \<and> hl_handle h \<noteq> ls_next w) (ls_table w)"
    by (auto simp: list_ex_iff)
  with w1 assms(3) show ?thesis
    by (simp add: AcquireLock_def Let_def lock_Lock_def platformLock_def flock_def finish_acquire_def)
qed

section \<open>Deadlock\<close>

text \<open>Two processes, each waiting for the lock the other holds.\<close>

definition stuck :: "Storage \<Rightarrow> nat \<Rightarrow> string \<Rightarrow> nat \<Rightarrow> string \<Rightarrow> lock_state \<Rightarrow> bool" where
  "stuck S p a q b s \<longleftrightarrow> lock_inv S s \<and> p \<noteq> q \<and> holds s p a LockExclusive \<and> holds s q b LockExclusive \<and>
     (\<exists>t fl. lp_wait (snd s p) = Some (b, t, fl)) \<and> (\<exists>t fl. lp_wait (snd s q) = Some (a, t, fl))"

lemma waiter_cannot_wake:
  assumes inv: "lock_inv S (w, ps)" and "holds (w, ps) q b LockExclusive" and pq: "p \<noteq> q"
    and wait: "lp_wait (ps p) = Some (b, t, fl)"
  shows "finish_acquire no_faults (lp_mgr (ps p)) b fl (lock_Lock no_faults fl t w) w = (w, Waiting fl)"
proof -
  obtain g where "lm_locks (lp_mgr (ps q)) b = Some g" "fl_path g = resolve (lock_path S b)" and g: "fl_file g \<in> proc_files (ps q)"
    "\<lparr>hl_handle = fl_file g, hl_path = resolve (lock_path S b), hl_type = LockExclusive\<rparr> \<in> set (ls_table w)"
    by (rule holds_entry [OF inv assms(2)])
  have ne: "fl_file g \<noteq> fl_file fl" using lock_inv_disjoint [OF inv g(1), of p] proc_files_slots(2) [OF wait] pq by auto
  have path: "resolve (lock_path S b) = fl_path fl" and nl: "\<not> fl_locked fl" "\<not> fl_closed fl"
    using lock_inv_proc(3) [OF inv, of p] wait by (auto simp: proc_paths_def)
  have "list_ex (\<lambda>h. conflicts (fl_path fl) t h \<and> hl_handle h \<noteq> fl_file fl) (ls_table w)"
    unfolding list_ex_iff by (rule bexI [OF _ g(2)]) (simp add: conflicts_def path ne)
  with nl show ?thesis by (simp add: lock_Lock_def platformLock_def flock_def finish_acquire_def)
qed

lemma stuck_step:
  assumes st: "stuck S p a q b s" and step: "lock_step no_faults ev s s'"
  shows "stuck S p a q b s'"
proof -
  obtain w ps w' ps' where s: "s = (w, ps)" and s': "s' = (w', ps')" by (cases s, cases s')
  from st have inv: "lock_inv S (w, ps)" and hold: "holds (w, ps) p a LockExclusive" "holds (w, ps) q b LockExclusive"
    and pq: "p \<noteq> q" by (auto simp: stuck_def s)
  obtain t fl t' fl' where wait: "lp_wait (ps p) = Some (b, t, fl)" "lp_wait (ps q) = Some (a, t', fl')"
    using st by (auto simp: stuck_def s)
  note step' = step [unfolded s s']
  have no: "actor ev \<noteq> r" if "lp_wait (ps r) = Some (e, u, f)"
    "finish_acquire no_faults (lp_mgr (ps r)) e f (lock_Lock no_faults f u w) w = (w, Waiting f)" for r e u f
    using step' that by (cases rule: lock_step.cases) auto
  have act: "actor ev \<noteq> p" "actor ev \<noteq> q"
    using no [OF wait(1) waiter_cannot_wake [OF inv hold(2) pq wait(1)]]
      no [OF wait(2) waiter_cannot_wake [OF inv hold(1) pq [symmetric] wait(2)]] by blast+
  then have "ps' p = ps p" "ps' q = ps q" using lock_step_others [OF step'] by metis+
  moreover from this hold have "holds (w', ps') p a LockExclusive" "holds (w', ps') q b LockExclusive" by (simp_all add: holds_iff)
  ultimately show ?thesis using lock_step_inv [OF step' inv] pq wait by (simp add: stuck_def s')
qed

lemma stuck_forever: "(\<lambda>s s'. \<exists>ev. lock_step no_faults ev s s')\<^sup>*\<^sup>* s s' \<Longrightarrow> stuck S p a q b s \<Longrightarrow> stuck S p a q b s'"
  by (induction rule: rtranclp_induct) (auto intro: stuck_step)

text \<open>A free entity is granted, a conflicting one makes the process wait; other processes are not touched.\<close>

lemma reach_grant:
  assumes inv: "lock_inv S (w, ps)" and tree: "storage_inv S (ls_tree w)" and vid: "isValidEntityID eid"
    and wait: "lp_wait (ps p) = None" and "\<not> already_locked (lp_mgr (ps p)) eid"
    and "\<forall>h \<in> set (ls_table w). \<not> conflicts (resolve (lock_path S eid)) t h"
  shows "\<exists>w' ps'. lock_step no_faults (AcquireEv p eid t) (w, ps) (w', ps') \<and> storage_inv S (ls_tree w') \<and>
    holds (w', ps') p eid t \<and> lp_wait (ps' p) = None \<and>
    (\<exists>fd. set (ls_table w') = insert \<lparr>hl_handle = fd, hl_path = resolve (lock_path S eid), hl_type = t\<rparr> (set (ls_table w))) \<and>
    (\<forall>e. e \<noteq> eid \<longrightarrow> already_locked (lp_mgr (ps' p)) e = already_locked (lp_mgr (ps p)) e) \<and> (\<forall>q. q \<noteq> p \<longrightarrow> ps' q = ps q)"
proof -
  note pr = lock_inv_proc(1) [OF inv] lock_inv_proc(4) [OF inv, of p]
  from acquire_free [of "lp_mgr (ps p)" w eid t] assms pr(2) obtain w' lm' where
    acq: "AcquireLock no_faults (lp_mgr (ps p)) eid t w = (w', Granted lm')" "storage_inv S (ls_tree w')" by auto
  from acquire_effect [OF pr(1) disjI1 [OF acq(1)]] pr(2) obtain fl where
    fl: "lm' = (lp_mgr (ps p))\<lparr>lm_locks := (lm_locks (lp_mgr (ps p)))(eid \<mapsto> fl)\<rparr>" "fl_locked fl"
    "fl_path fl = resolve (lock_path S eid)"
    "set (ls_table w') = insert \<lparr>hl_handle = fl_file fl, hl_path = fl_path fl, hl_type = t\<rparr> (set (ls_table w))" by auto
  let ?ps = "ps(p := after_acquire (ps p) eid t (Granted lm'))"
  have "lock_step no_faults (AcquireEv p eid t) (w, ps) (w', ?ps)"
    using wait acq(1) by (rule lock_step.acquire)
  moreover have "holds (w', ?ps) p eid t" by (rule granted_holds [where ps = ps and p = p, OF pr(1) disjI1 [OF acq(1)]])
  moreover have "lp_wait (?ps p) = None" by simp
  moreover have "\<forall>e. e \<noteq> eid \<longrightarrow> already_locked (lp_mgr (?ps p)) e = already_locked (lp_mgr (ps p)) e"
    using fl(1) by (simp add: already_locked_def)
  ultimately show ?thesis using acq(2) fl(3,4) by (intro exI [of _ w'] exI [of _ ?ps]) auto
qed

lemma reach_wait:
  assumes inv: "lock_inv S (w, ps)" and tree: "storage_inv S (ls_tree w)" and vid: "isValidEntityID eid"
    and wait: "lp_wait (ps p) = None" and "\<not> already_locked (lp_mgr (ps p)) eid"
    and "h \<in> set (ls_table w)" "conflicts (resolve (lock_path S eid)) t h"
  shows "\<exists>w' ps' fl. lock_step no_faults (AcquireEv p eid t) (w, ps) (w', ps') \<and> storage_inv S (ls_tree w') \<and>
    lp_wait (ps' p) = Some (eid, t, fl) \<and> set (ls_table w') = set (ls_table w) \<and> (\<forall>q. q \<noteq> p \<longrightarrow> ps' q = ps q)"
proof -
  note pr = lock_inv_proc(1) [OF inv] lock_inv_proc(4) [OF inv, of p]
  from acquire_busy [of "lp_mgr (ps p)" w eid h t] assms pr obtain w' fl where
    acq: "AcquireLock no_faults (lp_mgr (ps p)) eid t w = (w', Waiting fl)" "storage_inv S (ls_tree w')" by auto
  let ?ps = "ps(p := after_acquire (ps p) eid t (Waiting fl))"
  have "lock_step no_faults (AcquireEv p eid t) (w, ps) (w', ?ps)"
    using wait acq(1) by (rule lock_step.acquire)
  moreover have "set (ls_table w') = set (ls_table w)" using acquire_effect [OF pr(1) disjI1 [OF acq(1)]] by simp
  ultimately show ?thesis using acq(2) by (intro exI [of _ w'] exI [of _ ?ps] exI [of _ fl]) simp
qed

lemma start_state_grants:
  assumes "storage_inv S fs" and "isValidEntityID a"
  shows "\<exists>w ps. lock_step no_faults (AcquireEv p a t) (start_state S fs) (w, ps) \<and> storage_inv S (ls_tree w) \<and>
    holds (w, ps) p a t \<and> lp_wait (ps p) = None \<and>
    (\<exists>fd. set (ls_table w) = {\<lparr>hl_handle = fd, hl_path = resolve (lock_path S a), hl_type = t\<rparr>}) \<and>
    (\<forall>e. e \<noteq> a \<longrightarrow> \<not> already_locked (lp_mgr (ps p)) e) \<and>
    (\<forall>q. q \<noteq> p \<longrightarrow> ps q = \<lparr>lp_mgr = NewLockManager S, lp_wait = None\<rparr>)"
proof -
  have new: "\<not> already_locked (NewLockManager S) e" for e by (simp add: already_locked_def NewLockManager_def)
  from reach_grant [OF lock_inv_start [where N = "\<lambda>eid. resolve (lock_path S eid)" and S = S and fs = fs, unfolded start_state_def], where eid = a and p = p and t = t] assms new show ?thesis
    by (simp add: start_state_def)
qed

text \<open>Process 0 takes the lock of one entity and process 1 that of another.\<close>

lemma cross_holding:
  assumes store: "storage_inv S fs" and a: "isValidEntityID a" and b: "isValidEntityID b" and ab: "a \<noteq> b"
  shows "\<exists>w ps f1 f2. lock_reachable (start_state S fs) (w, ps) \<and> lock_inv S (w, ps) \<and> storage_inv S (ls_tree w) \<and>
    holds (w, ps) 0 a LockExclusive \<and> holds (w, ps) 1 b LockExclusive \<and>
    lp_wait (ps 0) = None \<and> lp_wait (ps 1) = None \<and>
    \<not> already_locked (lp_mgr (ps 0)) b \<and> \<not> already_locked (lp_mgr (ps 1)) a \<and>
    \<lparr>hl_handle = f1, hl_path = resolve (lock_path S a), hl_type = LockExclusive\<rparr> \<in> set (ls_table w) \<and>
    \<lparr>hl_handle = f2, hl_path = resolve (lock_path S b), hl_type = LockExclusive\<rparr> \<in> set (ls_table w)"
proof -
  let ?X = LockExclusive
  have path: "resolve (lock_path S a) \<noteq> resolve (lock_path S b)"
    using lock_path_entry(1) [OF store a] lock_path_entry(1) [OF store b] ab by simp
  have new: "\<not> already_locked (NewLockManager S) e" for e by (simp add: already_locked_def NewLockManager_def)
  from start_state_grants [OF store a, of 0 ?X] obtain w1 ps1 f1 where
    s1: "lock_step no_faults (AcquireEv 0 a ?X) (start_state S fs) (w1, ps1)" "storage_inv S (ls_tree w1)"
    "holds (w1, ps1) 0 a ?X" "lp_wait (ps1 0) = None" "\<not> already_locked (lp_mgr (ps1 0)) b"
    "set (ls_table w1) = {\<lparr>hl_handle = f1, hl_path = resolve (lock_path S a), hl_type = ?X\<rparr>}"
    "ps1 1 = \<lparr>lp_mgr = NewLockManager S, lp_wait = None\<rparr>" using ab by (metis zero_neq_one)
  have inv1: "lock_inv S (w1, ps1)" by (rule lock_step_inv [OF s1(1) lock_inv_start])
  from reach_grant [OF inv1 s1(2) b, of 1 ?X] s1(6,7) path new obtain w2 ps2 f2 where
    s2: "lock_step no_faults (AcquireEv 1 b ?X) (w1, ps1) (w2, ps2)" "storage_inv S (ls_tree w2)"
    "holds (w2, ps2) 1 b ?X" "lp_wait (ps2 1) = None" "\<not> already_locked (lp_mgr (ps2 1)) a" "ps2 0 = ps1 0"
    "set (ls_table w2) = insert \<lparr>hl_handle = f2, hl_path = resolve (lock_path S b), hl_type = ?X\<rparr> (set (ls_table w1))"
    using ab by (auto simp: conflicts_def)
  have "lock_reachable (start_state S fs) (w2, ps2)"
    by (rule lock_reach.step [OF lock_reach.step [OF lock_reach.start TrueI s1(1)] TrueI s2(1)])
  moreover have "holds (w2, ps2) 0 a ?X" by (rule holds_kept [OF s2(1) inv1 s1(3)]) simp_all
  ultimately show ?thesis
    using lock_step_inv [OF s2(1) inv1] s1(4,5,6) s2
    by (intro exI [of _ w2] exI [of _ ps2] exI [of _ f1] exI [of _ f2]) simp
qed

section \<open>Properties\<close>

text \<open>
  C12. Mutual exclusion across processes: in every state that any number of processes reaches
  through acquiring, waiting for and releasing entity locks, one by one or all at once, with any failures of the system
  calls, an exclusive lock that a manager has granted for an entity excludes every other process from having been granted a lock of that
  entity.  A granted call makes the caller a holder of the type it asked for, and a lock once held stays held until that process releases it.
\<close>

theorem file_locks_exclude:
  assumes "lock_reachable (start_state S fs) (w, ps)"
  shows "(\<forall>p q eid t. holds (w, ps) p eid LockExclusive \<and> holds (w, ps) q eid t \<longrightarrow> p = q) \<and>
    (\<forall>F p eid t w' lm'. AcquireLock F (lp_mgr (ps p)) eid t w = (w', Granted lm') \<or> TryAcquireLock F (lp_mgr (ps p)) eid t w = (w', Granted lm') \<longrightarrow>
      holds (w', ps(p := after_acquire (ps p) eid t (Granted lm'))) p eid t) \<and>
    (\<forall>F ev s' p eid t. lock_step F ev (w, ps) s' \<and> holds (w, ps) p eid t \<and> ev \<noteq> ReleaseEv p eid \<and> (\<forall>ids. ev \<noteq> ReleaseAllEv p ids) \<longrightarrow>
      holds s' p eid t)"
proof -
  have inv: "lock_inv S (w, ps)" using lock_reachable_inv [OF assms lock_inv_start] .
  have "holds s' p eid t" if "lock_step F ev (w, ps) s'" "holds (w, ps) p eid t" "ev \<noteq> ReleaseEv p eid" "\<forall>ids. ev \<noteq> ReleaseAllEv p ids" for F ev s' p eid t
    using holds_kept [of F ev w ps "fst s'" "snd s'" S p eid t] that inv by simp
  with holds_exclusive [OF inv] granted_holds [OF lock_inv_proc(1) [OF inv]] show ?thesis by blast
qed

text \<open>Process 0 takes the lock of an entity without waiting; it holds it exclusively, and process 1 does not hold it.\<close>

theorem file_locks_exclude_witness:
  "\<exists>w ps. lock_reachable (start_state \<lparr>st_basePath = ''/''\<rparr> [((True, [''files'']), DirNode)]) (w, ps) \<and>
     holds (w, ps) 0 ''a'' LockExclusive \<and> \<not> holds (w, ps) 1 ''a'' LockShared"
proof -
  let ?S = "\<lparr>st_basePath = ''/''\<rparr>" and ?fs = "[((True, [''files'']), DirNode)]"
  let ?lm = "NewLockManager ?S" and ?w = "\<lparr>ls_tree = ?fs, ls_table = [], ls_next = 0\<rparr>"
  let ?ps = "\<lambda>_ :: nat. \<lparr>lp_mgr = ?lm, lp_wait = None\<rparr>"
  have f: "files_at ?S = (True, [''files''])" by code_simp
  have inv: "storage_inv ?S ?fs"
    by (simp add: storage_inv_def plain_dir_def f is_dir_def child_def)
  have vid: "isValidEntityID ''a''" by code_simp
  have start: "start_state ?S ?fs = (?w, ?ps)" by (simp add: start_state_def)
  obtain w lm where "AcquireLock no_faults ?lm ''a'' LockExclusive ?w = (w, Granted lm)"
    using acquire_free [of ?lm ?w "''a''" LockExclusive] inv vid by (auto simp: NewLockManager_def already_locked_def)
  then have tried: "TryAcquireLock no_faults (lp_mgr (?ps 0)) ''a'' LockExclusive ?w = (w, Granted lm)" by (simp add: TryAcquireLock_granted)
  let ?ps' = "?ps(0 := after_acquire (?ps 0) ''a'' LockExclusive (Granted lm))"
  have "lock_step no_faults (TryEv 0 ''a'' LockExclusive) (?w, ?ps) (w, ?ps')" by (rule lock_step.try_acquire [OF _ tried]) simp
  then have r: "lock_reachable (start_state ?S ?fs) (w, ?ps')" unfolding start by (rule lock_reach.step [OF lock_reach.start TrueI])
  have "lock_reachable (start_state ?S ?fs) (?w, ?ps)" unfolding start by (rule lock_reach.start)
  from file_locks_exclude [OF this] tried have h: "holds (w, ?ps') 0 ''a'' LockExclusive" by blast
  have "\<not> holds (w, ?ps') 1 ''a'' LockShared" using file_locks_exclude [OF r] h by (metis zero_neq_one)
  with r h show ?thesis by (intro exI conjI)
qed

text \<open>
  Two processes can block each other forever: since a caller that waits inside flock keeps
  its manager's mutex, no other goroutine of its process can release a lock.  From any store and
  two entity ids, a state is reachable without any fault in which process 0 holds the first lock
  and waits for the second, process 1 holds the second and waits for the first, and from which
  neither leaves its wait in any continuation without faults.
\<close>

theorem lock_managers_deadlock:
  assumes store: "storage_inv S fs" and a: "isValidEntityID a" and b: "isValidEntityID b" and ab: "a \<noteq> b"
  shows "\<exists>s. lock_reachable (start_state S fs) s \<and>
    (\<forall>s'. (\<lambda>s s'. \<exists>ev. lock_step no_faults ev s s')\<^sup>*\<^sup>* s s' \<longrightarrow>
       holds s' 0 a LockExclusive \<and> holds s' 1 b LockExclusive \<and>
       (\<exists>t fl. lp_wait (snd s' 0) = Some (b, t, fl)) \<and> (\<exists>t fl. lp_wait (snd s' 1) = Some (a, t, fl)))"
proof -
  let ?X = LockExclusive
  obtain w2 ps2 f1 f2 where reach2: "lock_reachable (start_state S fs) (w2, ps2)" and inv2: "lock_inv S (w2, ps2)"
    and tree2: "storage_inv S (ls_tree w2)" and h: "holds (w2, ps2) 0 a ?X" "holds (w2, ps2) 1 b ?X"
    and w2: "lp_wait (ps2 0) = None" "lp_wait (ps2 1) = None"
    "\<not> already_locked (lp_mgr (ps2 0)) b" "\<not> already_locked (lp_mgr (ps2 1)) a"
    and t2: "\<lparr>hl_handle = f1, hl_path = resolve (lock_path S a), hl_type = ?X\<rparr> \<in> set (ls_table w2)"
    "\<lparr>hl_handle = f2, hl_path = resolve (lock_path S b), hl_type = ?X\<rparr> \<in> set (ls_table w2)"
    using cross_holding [OF assms] by blast
  have c: "conflicts q ?X \<lparr>hl_handle = f, hl_path = q, hl_type = ?X\<rparr>" for q f by (simp add: conflicts_def)
  obtain w3 ps3 g where s3: "lock_step no_faults (AcquireEv 0 b ?X) (w2, ps2) (w3, ps3)" and tree3: "storage_inv S (ls_tree w3)"
    and w3: "lp_wait (ps3 0) = Some (b, ?X, g)" "set (ls_table w3) = set (ls_table w2)" "ps3 1 = ps2 1"
    using reach_wait [OF inv2 tree2 b w2(1,3) t2(2) c] by (metis zero_neq_one)
  have inv3: "lock_inv S (w3, ps3)" by (rule lock_step_inv [OF s3 inv2])
  have t3: "\<lparr>hl_handle = f1, hl_path = resolve (lock_path S a), hl_type = ?X\<rparr> \<in> set (ls_table w3)"
    and "lp_wait (ps3 1) = None" "\<not> already_locked (lp_mgr (ps3 1)) a" using t2(1) w2(2,4) w3(2,3) by simp_all
  then obtain w4 ps4 g' where s4: "lock_step no_faults (AcquireEv 1 a ?X) (w3, ps3) (w4, ps4)"
    and w4: "lp_wait (ps4 1) = Some (a, ?X, g')" "ps4 0 = ps3 0"
    using reach_wait [OF inv3 tree3 a _ _ t3 c] by (metis zero_neq_one)
  have reach: "lock_reachable (start_state S fs) (w4, ps4)"
    by (rule lock_reach.step [OF lock_reach.step [OF reach2 TrueI s3] TrueI s4])
  have "holds (w4, ps4) 0 a ?X" "holds (w4, ps4) 1 b ?X"
    by (rule holds_kept [OF s4 inv3 holds_kept [OF s3 inv2 h(1)]] holds_kept [OF s4 inv3 holds_kept [OF s3 inv2 h(2)]]; simp)+
  then have "stuck S 0 a 1 b (w4, ps4)"
    using lock_step_inv [OF s4 inv3] w3(1) w4 by (simp add: stuck_def)
  with stuck_forever have "\<forall>s'. (\<lambda>s s'. \<exists>ev. lock_step no_faults ev s s')\<^sup>*\<^sup>* (w4, ps4) s' \<longrightarrow> stuck S 0 a 1 b s'"
    by blast
  with reach show ?thesis unfolding stuck_def by blast
qed

theorem lock_managers_deadlock_witness:
  "\<exists>s. lock_reachable (start_state \<lparr>st_basePath = ''/''\<rparr> [((True, [''files'']), DirNode)]) s \<and>
     lp_wait (snd s 0) \<noteq> None \<and> lp_wait (snd s 1) \<noteq> None"
proof -
  let ?S = "\<lparr>st_basePath = ''/''\<rparr>" and ?fs = "[((True, [''files'']), DirNode)]"
  have f: "files_at ?S = (True, [''files''])" by code_simp
  have inv: "storage_inv ?S ?fs"
    by (simp add: storage_inv_def plain_dir_def f is_dir_def child_def)
  have ids: "isValidEntityID ''a''" "isValidEntityID ''b''" "''a'' \<noteq> ''b''" by code_simp+
  from lock_managers_deadlock [OF inv ids] show ?thesis
  proof (elim exE conjE)
    fix s
    assume r: "lock_reachable (start_state ?S ?fs) s"
      and "\<forall>s'. (\<lambda>s s'. \<exists>ev. lock_step no_faults ev s s')\<^sup>*\<^sup>* s s' \<longrightarrow>
       holds s' 0 ''a'' LockExclusive \<and> holds s' 1 ''b'' LockExclusive \<and>
       (\<exists>t fl. lp_wait (snd s' 0) = Some (''b'', t, fl)) \<and> (\<exists>t fl. lp_wait (snd s' 1) = Some (''a'', t, fl))"
    from this(2) [rule_format, OF rtranclp.rtrancl_refl]
    have "lp_wait (snd s 0) \<noteq> None" "lp_wait (snd s 1) \<noteq> None" by force+
    with r show ?thesis by (intro exI conjI)
  qed
qed

section \<open>A failed release\<close>

text \<open>The manager of a process keeps a handle that it takes for locked although its file is closed.\<close>

definition locked_out :: "string \<Rightarrow> lock_proc \<Rightarrow> bool" where
  "locked_out eid pr \<longleftrightarrow> (\<exists>fl. lm_locks (lp_mgr pr) eid = Some fl \<and> fl_locked fl \<and> fl_closed fl) \<and> (\<forall>t fl. lp_wait pr \<noteq> Some (eid, t, fl))"

lemma locked_out_refused:
  assumes "locked_out eid pr"
  shows "AcquireLock F (lp_mgr pr) eid t w = (w, Refused ErrAlreadyLocked)" "TryAcquireLock F (lp_mgr pr) eid t w = (w, Refused ErrAlreadyLocked)"
  using assms by (auto simp: locked_out_def already_locked_def IsLocked_def intro: acquire_refused)

lemma locked_out_release:
  assumes "locked_out eid pr" and "ReleaseLock F (lp_mgr pr) eid w = (w', lm', e)"
  shows "e = Some ErrUnlockFailed \<and> lm' = lp_mgr pr"
proof -
  obtain fl where fl: "lm_locks (lp_mgr pr) eid = Some fl" "fl_locked fl" "fl_closed fl" using assms(1) by (auto simp: locked_out_def)
  then have "lock_Close F fl w = (drop_handle (fl_file fl) w, fl, Some ErrUnlockFailed)"
    by (simp add: lock_Close_def Unlock_def platformUnlock_def close_file_def)
  moreover have "(lm_locks (lp_mgr pr))(eid \<mapsto> fl) = lm_locks (lp_mgr pr)" using fl(1) by auto
  ultimately show ?thesis using assms(2) fl(1) by (auto simp: ReleaseLock_def)
qed

lemma locked_out_step:
  assumes st: "lock_step F ev (w, ps) (w', ps')" and out: "locked_out eid (ps p)" and ev: "\<And>ids. ev \<noteq> ReleaseAllEv p ids"
  shows "locked_out eid (ps' p)"
proof -
  have after: "locked_out eid (after_acquire (ps p) eid' t r)"
    if "eid' \<noteq> eid" "\<And>lm'. r = Granted lm' \<Longrightarrow> lm_locks lm' eid = lm_locks (lp_mgr (ps p)) eid" for eid' t r
    using out that by (cases r) (auto simp: locked_out_def)
  have same: "locked_out eid (after_acquire (ps p) eid t (Refused e))" for t e using out by (simp add: locked_out_def)
  from st show ?thesis
  proof (cases rule: lock_step.cases)
    case (acquire q eid' t r)
    then show ?thesis
      using out after [of eid' r t] same locked_out_refused(1) [OF out, of F t w] acquire_map [of F "lp_mgr (ps p)" eid' t w w' _ eid]
      by (cases "q = p"; cases "eid' = eid") auto
  next
    case (try_acquire q eid' t r)
    then show ?thesis
      using out after [of eid' r t] same locked_out_refused(2) [OF out, of F t w] acquire_map [of F "lp_mgr (ps p)" eid' t w w' _ eid]
      by (cases "q = p"; cases "eid' = eid") auto
  next
    case (wake q eid' t fl r)
    then show ?thesis
      using out after [of eid' r t] acquired_map [of F "lp_mgr (ps p)" eid' fl _ w w' _ eid]
      by (cases "q = p"; cases "eid' = eid") (auto simp: locked_out_def)
  next
    case (release q eid' lm' e)
    then show ?thesis
      using out locked_out_release [OF out, of F w w' lm' e]
      by (cases "q = p"; cases "eid' = eid") (auto simp: locked_out_def ReleaseLock_def split: option.splits prod.splits)
  next
    case (release_all q ids lm' e)
    then show ?thesis using out ev by auto
  qed
qed

lemma locked_out_forever:
  "lock_reach (\<lambda>ev. \<forall>ids. ev \<noteq> ReleaseAllEv p ids) s s' \<Longrightarrow> locked_out eid (snd s p) \<Longrightarrow> locked_out eid (snd s' p)"
proof (induction rule: lock_reach.induct)
  case (step s1 ev F s2)
  then show ?case using locked_out_step [of F ev "fst s1" "snd s1" "fst s2" "snd s2" eid p] by simp
qed

text \<open>
  C39. When the unlocking of a file fails once, the release closes the file, which ends the lock for every other process, but the
  manager keeps the handle as locked.  From then on, whatever all processes do short of a call of \<open>ReleaseAll\<close> by that process, it is
  refused the lock of the entity for ever, and every further release fails too.
\<close>

theorem failed_release_locks_out:
  assumes "ReleaseLock F (lp_mgr (ps p)) eid w = (w1, lm1, Some ErrUnlockFailed)" and "lp_wait (ps p) = None"
    and "lock_reach (\<lambda>ev. \<forall>ids. ev \<noteq> ReleaseAllEv p ids) (w1, ps(p := (ps p)\<lparr>lp_mgr := lm1\<rparr>)) (w2, ps2)"
  shows "(\<forall>t. \<not> holds (w1, ps(p := (ps p)\<lparr>lp_mgr := lm1\<rparr>)) p eid t) \<and>
    (\<exists>fl. lm_locks (lp_mgr (ps p)) eid = Some fl \<and> (\<forall>h \<in> set (ls_table w1). hl_handle h \<noteq> fl_file fl)) \<and>
    AcquireLock G (lp_mgr (ps2 p)) eid t w2 = (w2, Refused ErrAlreadyLocked) \<and>
    TryAcquireLock G (lp_mgr (ps2 p)) eid t w2 = (w2, Refused ErrAlreadyLocked) \<and>
    snd (snd (ReleaseLock G (lp_mgr (ps2 p)) eid w2)) = Some ErrUnlockFailed"
proof -
  obtain fl where fl: "lm_locks (lp_mgr (ps p)) eid = Some fl" and c: "lock_Close F fl w = (w1, fl\<lparr>fl_closed := True\<rparr>, Some ErrUnlockFailed)"
    and lk: "fl_locked fl" and lm: "lm1 = (lp_mgr (ps p))\<lparr>lm_locks := (lm_locks (lp_mgr (ps p)))(eid \<mapsto> fl\<lparr>fl_closed := True\<rparr>)\<rparr>"
    using assms(1)
    by (auto simp: ReleaseLock_def lock_Close_def close_file_def Unlock_def platformUnlock_def split: option.splits if_splits)
  have w1: "w1 = drop_handle (fl_file fl) w" using c lk by (auto simp: lock_Close_def close_file_def Unlock_def platformUnlock_def split: if_splits)
  let ?s = "(w1, ps(p := (ps p)\<lparr>lp_mgr := lm1\<rparr>))"
  have "locked_out eid (snd ?s p)" using lk assms(2) by (simp add: locked_out_def lm)
  from locked_out_forever [OF assms(3) this] have out: "locked_out eid (ps2 p)" by simp
  have "\<not> holds ?s p eid t" for t by (simp add: holds_iff lm)
  moreover have "\<forall>h \<in> set (ls_table w1). hl_handle h \<noteq> fl_file fl" by (simp add: w1 set_drop_handle)
  moreover have "snd (snd (ReleaseLock G (lp_mgr (ps2 p)) eid w2)) = Some ErrUnlockFailed"
    using locked_out_release [OF out, of G w2] by (cases "ReleaseLock G (lp_mgr (ps2 p)) eid w2") auto
  ultimately show ?thesis using locked_out_refused [OF out] fl by blast
qed

text \<open>Process 0 holds the lock of an entity; its release meets a failing flock.\<close>

theorem failed_release_locks_out_witness:
  "\<exists>w ps w1 lm1. lock_reachable (start_state \<lparr>st_basePath = ''/''\<rparr> [((True, [''files'']), DirNode)]) (w, ps) \<and> holds (w, ps) 0 ''a'' LockExclusive \<and>
     ReleaseLock (\<lambda>c. case c of FlockCall q \<Rightarrow> Some 0 | _ \<Rightarrow> None) (lp_mgr (ps 0)) ''a'' w = (w1, lm1, Some ErrUnlockFailed) \<and>
     AcquireLock no_faults lm1 ''a'' LockShared w1 = (w1, Refused ErrAlreadyLocked)"
proof -
  let ?S = "\<lparr>st_basePath = ''/''\<rparr>" and ?fs = "[((True, [''files'']), DirNode)]" and ?F = "\<lambda>c. case c of FlockCall q \<Rightarrow> Some 0 | _ \<Rightarrow> None"
  have f: "files_at ?S = (True, [''files''])" by code_simp
  have inv: "storage_inv ?S ?fs" by (simp add: storage_inv_def plain_dir_def f is_dir_def child_def)
  have id: "isValidEntityID ''a''" by code_simp
  from start_state_grants [OF inv id, of 0 LockExclusive] obtain w ps where st: "lock_step no_faults (AcquireEv 0 ''a'' LockExclusive) (start_state ?S ?fs) (w, ps)"
    and h: "holds (w, ps) 0 ''a'' LockExclusive" and wait: "lp_wait (ps 0) = None" by blast
  from h obtain fl where fl: "lm_locks (lp_mgr (ps 0)) ''a'' = Some fl" "fl_locked fl" by (auto simp: holds_iff)
  obtain w1 lm1 where rel: "ReleaseLock ?F (lp_mgr (ps 0)) ''a'' w = (w1, lm1, Some ErrUnlockFailed)"
    using fl by (simp add: ReleaseLock_def lock_Close_def Unlock_def platformUnlock_def close_file_def)
  from failed_release_locks_out [where ps = ps and p = 0, OF rel wait lock_reach.start, of no_faults LockShared]
  have "AcquireLock no_faults lm1 ''a'' LockShared w1 = (w1, Refused ErrAlreadyLocked)" by simp
  with lock_reach.step [OF lock_reach.start TrueI st] h rel show ?thesis by blast
qed

end
