(* ===== verification/Base64_Text.thy ===== *)
theory Base64_Text
  imports Delta_Prelude
begin

text \<open>
  The padded encodings of Go's package encoding/base64 that the program uses: \<open>StdEncoding\<close> for
  the nonce and tag kept in an entity's metadata, \<open>URLEncoding\<close> for session tokens.  Decoding
  follows \<open>DecodeString\<close>: line breaks are skipped, a padded group must be the last one, and the
  unused bits of a padded group are ignored.
\<close>

definition b64_upper :: string where
  "b64_upper = map char_of [65..<91::nat] @ map char_of [97..<123::nat] @ map char_of [48..<58::nat]"

definition b64_std :: string where "b64_std = b64_upper @ ''+/''"

definition b64_url :: string where "b64_url = b64_upper @ ''-_''"

fun b64_encode :: "string \<Rightarrow> bytes \<Rightarrow> string" where
  "b64_encode al [] = []"
| "b64_encode al [a] =
     (let x = (of_char a :: nat) in [al ! (x div 4), al ! (x mod 4 * 16), CHR ''='', CHR ''=''])"
| "b64_encode al [a, b] =
     (let x = (of_char a :: nat); y = of_char b in
      [al ! (x div 4), al ! (x mod 4 * 16 + y div 16), al ! (y mod 16 * 4), CHR ''=''])"
| "b64_encode al (a # b # c # r) =
     (let x = (of_char a :: nat); y = of_char b; z = of_char c in
      al ! (x div 4) # al ! (x mod 4 * 16 + y div 16) # al ! (y mod 16 * 4 + z div 64)
        # al ! (z mod 64) # b64_encode al r)"

definition b64_index :: "string \<Rightarrow> char \<Rightarrow> nat option" where
  "b64_index al c = map_of (zip al [0..<64]) c"

fun b64_decode_groups :: "string \<Rightarrow> string \<Rightarrow> bytes option" where
  "b64_decode_groups al [] = Some []"
| "b64_decode_groups al (a # b # c # d # r) =
     (case (b64_index al a, b64_index al b) of
        (Some i, Some j) \<Rightarrow>
          if c = CHR ''='' then
            (if d = CHR ''='' \<and> r = [] then Some [char_of (i * 4 + j div 16)] else None)
          else (case b64_index al c of
              None \<Rightarrow> None
            | Some k \<Rightarrow>
                if d = CHR ''='' then
                  (if r = [] then Some [char_of (i * 4 + j div 16), char_of (j mod 16 * 16 + k div 4)]
                   else None)
                else (case b64_index al d of
                    None \<Rightarrow> None
                  | Some l \<Rightarrow> map_option (\<lambda>bs. char_of (i * 4 + j div 16)
                      # char_of (j mod 16 * 16 + k div 4) # char_of (k mod 4 * 64 + l) # bs)
                      (b64_decode_groups al r)))
      | _ \<Rightarrow> None)"
| "b64_decode_groups al _ = None"

definition b64_decode :: "string \<Rightarrow> string \<Rightarrow> bytes option" where
  "b64_decode al s = b64_decode_groups al (filter (\<lambda>c. c \<noteq> CHR 0x0A \<and> c \<noteq> CHR 0x0D) s)"

definition b64_alphabet :: "string \<Rightarrow> bool" where
  "b64_alphabet al \<longleftrightarrow> length al = 64 \<and> distinct al \<and>
     CHR ''='' \<notin> set al \<and> CHR 0x0A \<notin> set al \<and> CHR 0x0D \<notin> set al"

lemma b64_std_alphabet [simp]: "b64_alphabet b64_std"
  by code_simp

lemma b64_url_alphabet [simp]: "b64_alphabet b64_url"
  by code_simp

lemma b64_index_nth [simp]:
  assumes "b64_alphabet al" and "i < 64"
  shows "b64_index al (al ! i) = Some i"
  using assms map_of_zip_nth [of al "[0..<64]" i] by (simp add: b64_index_def b64_alphabet_def)

lemma b64_nth_char:
  assumes "b64_alphabet al" and "i < 64"
  shows "al ! i \<noteq> CHR ''=''" "al ! i \<noteq> CHR 0x0A" "al ! i \<noteq> CHR 0x0D"
proof -
  from assms have "al ! i \<in> set al" by (simp add: b64_alphabet_def)
  with assms(1) show "al ! i \<noteq> CHR ''=''" "al ! i \<noteq> CHR 0x0A" "al ! i \<noteq> CHR 0x0D"
    by (auto simp: b64_alphabet_def)
qed

lemma of_char_parts:
  "of_char c div (4::nat) < 64" "of_char c mod (4::nat) * 16 + of_char d div 16 < 64"
  "of_char c mod (16::nat) * 4 + of_char d div 64 < 64" "of_char c mod (64::nat) < 64"
  "of_char c mod (4::nat) * 16 < 64" "of_char c mod (16::nat) * 4 < 64"
proof -
  have c: "of_char c < (256::nat)" and d: "of_char d < (256::nat)" by simp_all
  show "of_char c div (4::nat) < 64" using c by (simp add: less_mult_imp_div_less)
  have "of_char d div (16::nat) < 16" using d by (simp add: less_mult_imp_div_less)
  moreover have "of_char c mod (4::nat) \<le> 3" by simp
  ultimately show "of_char c mod (4::nat) * 16 + of_char d div 16 < 64" by linarith
  have "of_char d div (64::nat) < 4" using d by (simp add: less_mult_imp_div_less)
  moreover have "of_char c mod (16::nat) \<le> 15" by simp
  ultimately show "of_char c mod (16::nat) * 4 + of_char d div 64 < 64" by linarith
  show "of_char c mod (64::nat) < 64" by simp
  show "of_char c mod (4::nat) * 16 < 64" using mod_less_divisor [of 4 "of_char c"] by linarith
  show "of_char c mod (16::nat) * 4 < 64" using mod_less_divisor [of 16 "of_char c"] by linarith
qed

lemma b64_encode_no_breaks:
  assumes "b64_alphabet al"
  shows "filter (\<lambda>c. c \<noteq> CHR 0x0A \<and> c \<noteq> CHR 0x0D) (b64_encode al bs) = b64_encode al bs"
  using assms
  by (induction al bs rule: b64_encode.induct) (auto simp: Let_def b64_nth_char of_char_parts)

text \<open>The three bytes of a group, put together again from its four six-bit parts.\<close>

lemma byte_parts:
  fixes x y z :: nat
  assumes "y < 256" and "z < 256"
  shows "x div 4 * 4 + (x mod 4 * 16 + y div 16) div 16 = x"
    and "(x mod 4 * 16 + y div 16) mod 16 * 16 + (y mod 16 * 4 + z div 64) div 4 = y"
    and "(y mod 16 * 4 + z div 64) mod 4 * 64 + z mod 64 = z"
    and "x div 4 * 4 + (x mod 4 * 16) div 16 = x"
    and "(x mod 4 * 16 + y div 16) mod 16 * 16 + (y mod 16 * 4) div 4 = y"
proof -
  have "y div 16 < 16" "z div 64 < 4" using assms by (auto simp: less_mult_imp_div_less)
  then show "x div 4 * 4 + (x mod 4 * 16 + y div 16) div 16 = x"
    "(x mod 4 * 16 + y div 16) mod 16 * 16 + (y mod 16 * 4 + z div 64) div 4 = y"
    "(y mod 16 * 4 + z div 64) mod 4 * 64 + z mod 64 = z"
    "x div 4 * 4 + (x mod 4 * 16) div 16 = x"
    "(x mod 4 * 16 + y div 16) mod 16 * 16 + (y mod 16 * 4) div 4 = y"
    by simp_all
qed

lemma b64_decode_encode_groups:
  assumes "b64_alphabet al"
  shows "b64_decode_groups al (b64_encode al bs) = Some bs"
  using assms
proof (induction al bs rule: b64_encode.induct)
  case (2 al a)
  then show ?case
    by (simp add: Let_def b64_nth_char of_char_parts byte_parts)
next
  case (3 al a b)
  then show ?case
    by (simp add: Let_def b64_nth_char of_char_parts byte_parts)
next
  case (4 al a b c r)
  have "of_char c div (64::nat) < 4" by (rule less_mult_imp_div_less) simp
  with 4 show ?case
    by (simp add: Let_def b64_nth_char of_char_parts byte_parts)
qed simp

text \<open>Decoding an encoded byte string gives it back, for both alphabets.\<close>

lemma b64_decode_encode [simp]: "b64_alphabet al \<Longrightarrow> b64_decode al (b64_encode al bs) = Some bs"
  by (simp add: b64_decode_def b64_encode_no_breaks b64_decode_encode_groups)

lemma b64_encode_inject: "b64_alphabet al \<Longrightarrow> b64_encode al a = b64_encode al b \<longleftrightarrow> a = b"
  by (metis b64_decode_encode option.inject)

lemma b64_encode_empty [simp]: "b64_encode al bs = [] \<longleftrightarrow> bs = []"
  by (cases "(al, bs)" rule: b64_encode.cases) (auto simp: Let_def)

end
