(* ===== verification/Token_Auth.thy ===== *)
theory Token_Auth
  imports Base64_Text
begin

text \<open>
  Session tokens and worker credentials: \<open>TokenManager\<close> and \<open>WorkerAuthenticator\<close> of
  internal/auth/auth.go.  The 32 bytes of \<open>crypto/rand\<close> that make a token are an argument (None
  when the read fails), SHA-256 is an argument, and the clock reading of an operation is its
  argument \<open>now\<close>.  Worker and client tokens follow the same discipline; the locale
  \<open>token_store\<close> states it once and both kinds interpret it.  Lists that the code builds by
  ranging over a Go map, whose order is unspecified, are modelled as sets.
\<close>

type_synonym tags = "string \<rightharpoonup> string"

record WorkerToken =
  wt_Token :: string
  wt_WorkerID :: string
  wt_ExpiresAt :: gotime
  wt_KeyID :: string
  wt_Tags :: tags

record ClientToken =
  ct_Token :: string
  ct_ClientID :: string
  ct_ExpiresAt :: gotime
  ct_Roles :: "string list"

record TokenManager =
  tm_workerTokens :: "string \<rightharpoonup> WorkerToken"
  tm_clientTokens :: "string \<rightharpoonup> ClientToken"
  tm_workerTokenTTL :: duration
  tm_clientTokenTTL :: duration

datatype auth_error =
    EmptyWorkerID
  | EmptyClientID
  | EmptyPassword
  | TokenGenerationFailed
  | EmptyToken
  | InvalidToken
  | TokenExpired
  | TokenNotFound
  | WorkerAlreadyRegistered string
  | WorkerNotFound string
  | WorkerDisabled string
  | InvalidCredentials

section \<open>Tokens\<close>

definition NewTokenManager :: "duration \<Rightarrow> duration \<Rightarrow> TokenManager" where
  "NewTokenManager workerTokenTTL clientTokenTTL =
     \<lparr>tm_workerTokens = Map.empty, tm_clientTokens = Map.empty,
      tm_workerTokenTTL = (if workerTokenTTL = 0 then 1 * hour else workerTokenTTL),
      tm_clientTokenTTL = (if clientTokenTTL = 0 then 24 * hour else clientTokenTTL)\<rparr>"

definition generateSecureToken :: "bytes option \<Rightarrow> string option" where
  "generateSecureToken rnd = map_option (b64_encode b64_url) rnd"

definition GenerateWorkerToken ::
    "gotime \<Rightarrow> bytes option \<Rightarrow> TokenManager \<Rightarrow> string \<Rightarrow> string \<Rightarrow> tags
      \<Rightarrow> TokenManager \<times> (auth_error + WorkerToken)" where
  "GenerateWorkerToken now rnd tm workerID keyID tags =
     (if workerID = [] then (tm, Inl EmptyWorkerID)
      else case generateSecureToken rnd of
             None \<Rightarrow> (tm, Inl TokenGenerationFailed)
           | Some token \<Rightarrow>
               let wt = \<lparr>wt_Token = token, wt_WorkerID = workerID,
                         wt_ExpiresAt = now + tm_workerTokenTTL tm, wt_KeyID = keyID, wt_Tags = tags\<rparr>
               in (tm\<lparr>tm_workerTokens := (tm_workerTokens tm)(token \<mapsto> wt)\<rparr>, Inr wt))"

definition GenerateClientToken ::
    "gotime \<Rightarrow> bytes option \<Rightarrow> TokenManager \<Rightarrow> string \<Rightarrow> string list
      \<Rightarrow> TokenManager \<times> (auth_error + ClientToken)" where
  "GenerateClientToken now rnd tm clientID roles =
     (if clientID = [] then (tm, Inl EmptyClientID)
      else case generateSecureToken rnd of
             None \<Rightarrow> (tm, Inl TokenGenerationFailed)
           | Some token \<Rightarrow>
               let ct = \<lparr>ct_Token = token, ct_ClientID = clientID,
                         ct_ExpiresAt = now + tm_clientTokenTTL tm, ct_Roles = roles\<rparr>
               in (tm\<lparr>tm_clientTokens := (tm_clientTokens tm)(token \<mapsto> ct)\<rparr>, Inr ct))"

definition ValidateWorkerToken ::
    "gotime \<Rightarrow> TokenManager \<Rightarrow> string \<Rightarrow> TokenManager \<times> (auth_error + WorkerToken)" where
  "ValidateWorkerToken now tm token =
     (if token = [] then (tm, Inl EmptyToken)
      else case tm_workerTokens tm token of
             None \<Rightarrow> (tm, Inl InvalidToken)
           | Some wt \<Rightarrow>
               if wt_ExpiresAt wt < now
               then (tm\<lparr>tm_workerTokens := (tm_workerTokens tm)(token := None)\<rparr>, Inl TokenExpired)
               else (tm, Inr wt))"

definition ValidateClientToken ::
    "gotime \<Rightarrow> TokenManager \<Rightarrow> string \<Rightarrow> TokenManager \<times> (auth_error + ClientToken)" where
  "ValidateClientToken now tm token =
     (if token = [] then (tm, Inl EmptyToken)
      else case tm_clientTokens tm token of
             None \<Rightarrow> (tm, Inl InvalidToken)
           | Some ct \<Rightarrow>
               if ct_ExpiresAt ct < now
               then (tm\<lparr>tm_clientTokens := (tm_clientTokens tm)(token := None)\<rparr>, Inl TokenExpired)
               else (tm, Inr ct))"

definition RevokeWorkerToken :: "TokenManager \<Rightarrow> string \<Rightarrow> auth_error + TokenManager" where
  "RevokeWorkerToken tm token =
     (if tm_workerTokens tm token = None then Inl TokenNotFound
      else Inr (tm\<lparr>tm_workerTokens := (tm_workerTokens tm)(token := None)\<rparr>))"

definition RevokeClientToken :: "TokenManager \<Rightarrow> string \<Rightarrow> auth_error + TokenManager" where
  "RevokeClientToken tm token =
     (if tm_clientTokens tm token = None then Inl TokenNotFound
      else Inr (tm\<lparr>tm_clientTokens := (tm_clientTokens tm)(token := None)\<rparr>))"

definition GetWorkerTokenCount :: "TokenManager \<Rightarrow> nat" where
  "GetWorkerTokenCount tm = card (dom (tm_workerTokens tm))"

definition GetClientTokenCount :: "TokenManager \<Rightarrow> nat" where
  "GetClientTokenCount tm = card (dom (tm_clientTokens tm))"

text \<open>One tick of the goroutine \<open>cleanupExpiredTokens\<close>: both maps lose their expired tokens.\<close>

definition cleanupExpiredTokens :: "gotime \<Rightarrow> TokenManager \<Rightarrow> TokenManager" where
  "cleanupExpiredTokens now tm =
     tm\<lparr>tm_workerTokens := (\<lambda>t. case tm_workerTokens tm t of
            None \<Rightarrow> None | Some wt \<Rightarrow> if wt_ExpiresAt wt < now then None else Some wt),
        tm_clientTokens := (\<lambda>t. case tm_clientTokens tm t of
            None \<Rightarrow> None | Some ct \<Rightarrow> if ct_ExpiresAt ct < now then None else Some ct)\<rparr>"

section \<open>Worker credentials\<close>

record WorkerCredentials =
  wc_WorkerID :: string
  wc_PasswordHash :: string
  wc_Enabled :: bool
  wc_Tags :: tags

type_synonym WorkerAuthenticator = "string \<rightharpoonup> WorkerCredentials"

definition NewWorkerAuthenticator :: WorkerAuthenticator where
  "NewWorkerAuthenticator = Map.empty"

definition hashPassword :: "(bytes \<Rightarrow> bytes) \<Rightarrow> string \<Rightarrow> string" where
  "hashPassword sha256 password = hex_EncodeToString (sha256 password)"

definition RegisterWorker ::
    "(bytes \<Rightarrow> bytes) \<Rightarrow> WorkerAuthenticator \<Rightarrow> string \<Rightarrow> string \<Rightarrow> tags
      \<Rightarrow> auth_error + WorkerAuthenticator" where
  "RegisterWorker sha256 wa workerID password tags =
     (if workerID = [] then Inl EmptyWorkerID
      else if password = [] then Inl EmptyPassword
      else if wa workerID \<noteq> None then Inl (WorkerAlreadyRegistered workerID)
      else Inr (wa(workerID \<mapsto> \<lparr>wc_WorkerID = workerID,
             wc_PasswordHash = hashPassword sha256 password, wc_Enabled = True, wc_Tags = tags\<rparr>)))"

definition AuthenticateWorker ::
    "(bytes \<Rightarrow> bytes) \<Rightarrow> WorkerAuthenticator \<Rightarrow> string \<Rightarrow> string \<Rightarrow> auth_error + WorkerCredentials" where
  "AuthenticateWorker sha256 wa workerID password =
     (if workerID = [] then Inl EmptyWorkerID
      else case wa workerID of
             None \<Rightarrow> Inl (WorkerNotFound workerID)
           | Some creds \<Rightarrow>
               if \<not> wc_Enabled creds then Inl (WorkerDisabled workerID)
               else if wc_PasswordHash creds \<noteq> hashPassword sha256 password then Inl InvalidCredentials
               else Inr creds)"

definition DisableWorker :: "WorkerAuthenticator \<Rightarrow> string \<Rightarrow> auth_error + WorkerAuthenticator" where
  "DisableWorker wa workerID =
     (case wa workerID of
        None \<Rightarrow> Inl (WorkerNotFound workerID)
      | Some creds \<Rightarrow> Inr (wa(workerID \<mapsto> creds\<lparr>wc_Enabled := False\<rparr>)))"

definition EnableWorker :: "WorkerAuthenticator \<Rightarrow> string \<Rightarrow> auth_error + WorkerAuthenticator" where
  "EnableWorker wa workerID =
     (case wa workerID of
        None \<Rightarrow> Inl (WorkerNotFound workerID)
      | Some creds \<Rightarrow> Inr (wa(workerID \<mapsto> creds\<lparr>wc_Enabled := True\<rparr>)))"

definition GetWorkerCredentials :: "WorkerAuthenticator \<Rightarrow> string \<Rightarrow> auth_error + WorkerCredentials" where
  "GetWorkerCredentials wa workerID =
     (case wa workerID of None \<Rightarrow> Inl (WorkerNotFound workerID) | Some creds \<Rightarrow> Inr creds)"

definition auth_ListWorkers :: "WorkerAuthenticator \<Rightarrow> string set" where
  "auth_ListWorkers wa = dom wa"

section \<open>The life of a token\<close>

text \<open>
  The operations on a token manager in any order, as the handlers and the cleanup goroutine
  call them.
\<close>

datatype token_op =
    GenWorker gotime "bytes option" string string tags
  | GenClient gotime "bytes option" string "string list"
  | ValWorker gotime string
  | ValClient gotime string
  | RevWorker string
  | RevClient string
  | CleanupTokens gotime

fun tm_step :: "token_op \<Rightarrow> TokenManager \<Rightarrow> TokenManager" where
  "tm_step (GenWorker now rnd w k tags) tm = fst (GenerateWorkerToken now rnd tm w k tags)"
| "tm_step (GenClient now rnd c roles) tm = fst (GenerateClientToken now rnd tm c roles)"
| "tm_step (ValWorker now t) tm = fst (ValidateWorkerToken now tm t)"
| "tm_step (ValClient now t) tm = fst (ValidateClientToken now tm t)"
| "tm_step (RevWorker t) tm = (case RevokeWorkerToken tm t of Inl _ \<Rightarrow> tm | Inr tm' \<Rightarrow> tm')"
| "tm_step (RevClient t) tm = (case RevokeClientToken tm t of Inl _ \<Rightarrow> tm | Inr tm' \<Rightarrow> tm')"
| "tm_step (CleanupTokens now) tm = cleanupExpiredTokens now tm"

definition tm_run :: "token_op list \<Rightarrow> TokenManager \<Rightarrow> TokenManager" where
  "tm_run ops tm = fold tm_step ops tm"

text \<open>The clock reading of an operation that compares with expiry times.\<close>

fun checked_at :: "token_op \<Rightarrow> gotime option" where
  "checked_at (ValWorker now t) = Some now"
| "checked_at (ValClient now t) = Some now"
| "checked_at (CleanupTokens now) = Some now"
| "checked_at _ = None"

fun issues_client :: "string \<Rightarrow> token_op \<Rightarrow> bool" where
  "issues_client t (GenClient now rnd c roles) = (generateSecureToken rnd = Some t)"
| "issues_client t _ = False"

fun issues_worker :: "string \<Rightarrow> token_op \<Rightarrow> bool" where
  "issues_worker t (GenWorker now rnd w k tags) = (generateSecureToken rnd = Some t)"
| "issues_worker t _ = False"

definition client_expiry :: "TokenManager \<Rightarrow> string \<Rightarrow> gotime option" where
  "client_expiry tm t = map_option ct_ExpiresAt (tm_clientTokens tm t)"

definition worker_expiry :: "TokenManager \<Rightarrow> string \<Rightarrow> gotime option" where
  "worker_expiry tm t = map_option wt_ExpiresAt (tm_workerTokens tm t)"

definition client_accepts :: "gotime \<Rightarrow> TokenManager \<Rightarrow> string \<Rightarrow> bool" where
  "client_accepts now tm t = (case snd (ValidateClientToken now tm t) of Inl _ \<Rightarrow> False | Inr _ \<Rightarrow> True)"

definition worker_accepts :: "gotime \<Rightarrow> TokenManager \<Rightarrow> string \<Rightarrow> bool" where
  "worker_accepts now tm t = (case snd (ValidateWorkerToken now tm t) of Inl _ \<Rightarrow> False | Inr _ \<Rightarrow> True)"

locale token_store =
  fixes expiry :: "'s \<Rightarrow> string \<Rightarrow> gotime option"
    and accepts :: "gotime \<Rightarrow> 's \<Rightarrow> string \<Rightarrow> bool"
    and tstep :: "'o \<Rightarrow> 's \<Rightarrow> 's"
    and issues :: "string \<Rightarrow> 'o \<Rightarrow> bool"
    and revokes :: "string \<Rightarrow> 'o \<Rightarrow> bool"
    and at :: "'o \<Rightarrow> gotime option"
  assumes accepts_iff: "accepts now s t \<longleftrightarrow> t \<noteq> [] \<and> (\<exists>x. expiry s t = Some x \<and> now \<le> x)"
    and kept: "expiry s t = Some x \<Longrightarrow> \<not> issues t op \<Longrightarrow> \<not> revokes t op \<Longrightarrow>
        (\<And>now. at op = Some now \<Longrightarrow> now \<le> x) \<Longrightarrow> expiry (tstep op s) t = Some x"
    and not_created: "\<not> issues t op \<Longrightarrow> expiry (tstep op s) t = None \<or> expiry (tstep op s) t = expiry s t"
    and revoked: "revokes t op \<Longrightarrow> expiry (tstep op s) t = None"
begin

lemma run_kept:
  assumes "expiry s t = Some x" and "\<forall>op \<in> set ops. \<not> issues t op \<and> \<not> revokes t op"
    and "\<forall>op \<in> set ops. \<forall>now. at op = Some now \<longrightarrow> now \<le> x"
  shows "expiry (fold tstep ops s) t = Some x"
  using assms
proof (induction ops arbitrary: s)
  case (Cons op ops)
  then have "expiry (tstep op s) t = Some x" by (intro kept) auto
  with Cons show ?case by simp
qed simp

lemma run_not_created:
  assumes "\<forall>op \<in> set ops. \<not> issues t op"
  shows "expiry (fold tstep ops s) t = None \<or> expiry (fold tstep ops s) t = expiry s t"
  using assms
proof (induction ops arbitrary: s)
  case (Cons op ops)
  from Cons.prems not_created have "expiry (tstep op s) t = None \<or> expiry (tstep op s) t = expiry s t"
    by simp
  moreover have "expiry (fold tstep ops (tstep op s)) t = None
      \<or> expiry (fold tstep ops (tstep op s)) t = expiry (tstep op s) t"
    using Cons.prems by (intro Cons.IH) simp
  ultimately show ?case by auto
qed simp

text \<open>A token that is neither revoked nor issued again is accepted exactly until it expires.\<close>

lemma lifetime:
  assumes "expiry s t = Some x" and "t \<noteq> []"
    and ops: "\<forall>op \<in> set ops. \<not> issues t op \<and> \<not> revokes t op"
    and clock: "\<forall>op \<in> set ops. \<forall>t'. at op = Some t' \<longrightarrow> t' \<le> now"
  shows "accepts now (fold tstep ops s) t \<longleftrightarrow> now \<le> x"
proof (cases "now \<le> x")
  case True
  with clock have "\<forall>op \<in> set ops. \<forall>t'. at op = Some t' \<longrightarrow> t' \<le> x" by force
  then have "expiry (fold tstep ops s) t = Some x" by (intro run_kept assms)
  with True assms(2) show ?thesis by (simp add: accepts_iff)
next
  case False
  with run_not_created [of ops t s] ops assms(1) show ?thesis by (auto simp: accepts_iff)
qed

text \<open>A revoked token is never accepted again, unless the same token is issued anew.\<close>

lemma revoked_for_good:
  assumes "revokes t op" and "\<forall>op \<in> set ops. \<not> issues t op"
  shows "\<not> accepts now (fold tstep ops (tstep op s)) t"
  using run_not_created [OF assms(2), of "tstep op s"] revoked [OF assms(1), of s]
  by (auto simp: accepts_iff)

end

lemma generated_tokens:
  "tm_clientTokens (fst (GenerateClientToken now rnd tm c roles)) t =
     (if generateSecureToken rnd = Some t \<and> c \<noteq> []
      then Some \<lparr>ct_Token = t, ct_ClientID = c, ct_ExpiresAt = now + tm_clientTokenTTL tm, ct_Roles = roles\<rparr>
      else tm_clientTokens tm t)"
  "tm_workerTokens (fst (GenerateWorkerToken now rnd tm w k tags)) t =
     (if generateSecureToken rnd = Some t \<and> w \<noteq> []
      then Some \<lparr>wt_Token = t, wt_WorkerID = w, wt_ExpiresAt = now + tm_workerTokenTTL tm, wt_KeyID = k, wt_Tags = tags\<rparr>
      else tm_workerTokens tm t)"
  "tm_workerTokens (fst (GenerateClientToken now rnd tm c roles)) = tm_workerTokens tm"
  "tm_clientTokens (fst (GenerateWorkerToken now rnd tm w k tags)) = tm_clientTokens tm"
  by (auto simp: GenerateClientToken_def GenerateWorkerToken_def Let_def split: option.splits)

interpretation client_tokens: token_store client_expiry client_accepts tm_step issues_client
  "\<lambda>t op. op = RevClient t" checked_at
proof unfold_locales
  fix now s t
  show "client_accepts now s t \<longleftrightarrow> t \<noteq> [] \<and> (\<exists>x. client_expiry s t = Some x \<and> now \<le> x)"
    by (auto simp: client_accepts_def client_expiry_def ValidateClientToken_def split: option.splits)
next
  fix s t x op
  assume "client_expiry s t = Some x" "\<not> issues_client t op" "op \<noteq> RevClient t"
    "\<And>now. checked_at op = Some now \<Longrightarrow> now \<le> x"
  then show "client_expiry (tm_step op s) t = Some x"
    by (cases op) (auto simp: client_expiry_def generated_tokens ValidateWorkerToken_def
        ValidateClientToken_def RevokeWorkerToken_def RevokeClientToken_def cleanupExpiredTokens_def
        split: option.splits if_splits)
next
  fix s t op
  assume "\<not> issues_client t op"
  then show "client_expiry (tm_step op s) t = None \<or> client_expiry (tm_step op s) t = client_expiry s t"
    by (cases op) (auto simp: client_expiry_def generated_tokens ValidateWorkerToken_def
        ValidateClientToken_def RevokeWorkerToken_def RevokeClientToken_def cleanupExpiredTokens_def
        split: option.splits if_splits)
qed (auto simp: client_expiry_def RevokeClientToken_def)

interpretation worker_tokens: token_store worker_expiry worker_accepts tm_step issues_worker
  "\<lambda>t op. op = RevWorker t" checked_at
proof unfold_locales
  fix now s t
  show "worker_accepts now s t \<longleftrightarrow> t \<noteq> [] \<and> (\<exists>x. worker_expiry s t = Some x \<and> now \<le> x)"
    by (auto simp: worker_accepts_def worker_expiry_def ValidateWorkerToken_def split: option.splits)
next
  fix s t x op
  assume "worker_expiry s t = Some x" "\<not> issues_worker t op" "op \<noteq> RevWorker t"
    "\<And>now. checked_at op = Some now \<Longrightarrow> now \<le> x"
  then show "worker_expiry (tm_step op s) t = Some x"
    by (cases op) (auto simp: worker_expiry_def generated_tokens ValidateWorkerToken_def
        ValidateClientToken_def RevokeWorkerToken_def RevokeClientToken_def cleanupExpiredTokens_def
        split: option.splits if_splits)
next
  fix s t op
  assume "\<not> issues_worker t op"
  then show "worker_expiry (tm_step op s) t = None \<or> worker_expiry (tm_step op s) t = worker_expiry s t"
    by (cases op) (auto simp: worker_expiry_def generated_tokens ValidateWorkerToken_def
        ValidateClientToken_def RevokeWorkerToken_def RevokeClientToken_def cleanupExpiredTokens_def
        split: option.splits if_splits)
qed (auto simp: worker_expiry_def RevokeWorkerToken_def)

section \<open>Properties\<close>

text \<open>
  C32. A session token issued to a client from non-empty random bytes is accepted exactly until
  its TTL has run out: through any sequence of validations, cleanups, issues of other tokens and
  revocations of other tokens, with a clock that does not run ahead of the moment of the check.
\<close>

theorem session_token_lifetime:
  assumes gen: "GenerateClientToken t0 (Some b) tm clientID roles = (tm1, Inr ct)" and "b \<noteq> []"
    and "\<forall>op \<in> set ops. \<not> issues_client (ct_Token ct) op \<and> op \<noteq> RevClient (ct_Token ct)"
    and "\<forall>op \<in> set ops. \<forall>t. checked_at op = Some t \<longrightarrow> t \<le> now"
  shows "client_accepts now (tm_run ops tm1) (ct_Token ct) \<longleftrightarrow> now \<le> t0 + tm_clientTokenTTL tm"
proof -
  have tok: "ct_Token ct = b64_encode b64_url b"
    and exp: "client_expiry tm1 (ct_Token ct) = Some (t0 + tm_clientTokenTTL tm)"
    using gen by (auto simp: GenerateClientToken_def generateSecureToken_def Let_def client_expiry_def
        split: if_splits)
  from tok \<open>b \<noteq> []\<close> have "ct_Token ct \<noteq> []" by simp
  with exp assms(3,4) show ?thesis
    unfolding tm_run_def by (intro client_tokens.lifetime)
qed

theorem session_token_lifetime_witness:
  "\<exists>tm1 ct. GenerateClientToken 100 (Some ''abc'') (NewTokenManager 10 10) ''alice'' [''read''] = (tm1, Inr ct) \<and>
     client_accepts 110 (tm_run [ValClient 105 (ct_Token ct), CleanupTokens 108] tm1) (ct_Token ct) \<and>
     \<not> client_accepts 111 (tm_run [ValClient 105 (ct_Token ct), CleanupTokens 108] tm1) (ct_Token ct)"
proof -
  obtain tm1 ct where gen: "GenerateClientToken 100 (Some ''abc'') (NewTokenManager 10 10) ''alice'' [''read''] = (tm1, Inr ct)"
    by (auto simp: GenerateClientToken_def generateSecureToken_def Let_def)
  have ttl: "tm_clientTokenTTL (NewTokenManager 10 10) = 10" by (simp add: NewTokenManager_def)
  let ?ops = "[ValClient 105 (ct_Token ct), CleanupTokens 108]"
  have "client_accepts 110 (tm_run ?ops tm1) (ct_Token ct)"
    using session_token_lifetime [OF gen, of ?ops 110] ttl by auto
  moreover have "\<not> client_accepts 111 (tm_run ?ops tm1) (ct_Token ct)"
    using session_token_lifetime [OF gen, of ?ops 111] ttl by auto
  ultimately show ?thesis using gen by (intro exI conjI)
qed

text \<open>
  Once a client token is revoked it is never accepted again, whatever other operations run,
  unless the generator produces the same token a second time.
\<close>

theorem revoked_session_rejected:
  assumes "\<forall>op \<in> set ops. \<not> issues_client token op"
  shows "\<not> client_accepts now (tm_run (RevClient token # ops) tm) token"
  using client_tokens.revoked_for_good [OF refl assms, of now tm] by (simp add: tm_run_def)

theorem revoked_session_rejected_witness:
  "\<not> client_accepts 5 (tm_run [RevClient ''tok'', ValClient 3 ''tok'', CleanupTokens 4]
      \<lparr>tm_workerTokens = Map.empty,
       tm_clientTokens = [''tok'' \<mapsto> \<lparr>ct_Token = ''tok'', ct_ClientID = ''c'', ct_ExpiresAt = 9, ct_Roles = []\<rparr>],
       tm_workerTokenTTL = 1, tm_clientTokenTTL = 1\<rparr>) ''tok''"
  by (rule revoked_session_rejected) simp

text \<open>
  A worker authenticates exactly when it is registered and enabled and the SHA-256 of the
  password it presents equals that of the password it registered with; disabling shuts it out and
  enabling restores it.
\<close>

theorem authenticate_after_register:
  assumes "RegisterWorker sha256 wa w p tags = Inr wa1"
  shows "((\<exists>creds. AuthenticateWorker sha256 wa1 w q = Inr creds) \<longleftrightarrow> sha256 q = sha256 p) \<and>
    (\<exists>wa2. DisableWorker wa1 w = Inr wa2 \<and> AuthenticateWorker sha256 wa2 w q = Inl (WorkerDisabled w) \<and>
       EnableWorker wa2 w = Inr wa1)"
  using assms
  by (auto simp: RegisterWorker_def AuthenticateWorker_def DisableWorker_def EnableWorker_def
      hashPassword_def split: if_splits)

theorem authenticate_after_register_witness:
  "\<exists>wa1. RegisterWorker (\<lambda>x. x) NewWorkerAuthenticator ''w1'' ''secret'' Map.empty = Inr wa1 \<and>
     (\<exists>creds. AuthenticateWorker (\<lambda>x. x) wa1 ''w1'' ''secret'' = Inr creds) \<and>
     \<not> (\<exists>creds. AuthenticateWorker (\<lambda>x. x) wa1 ''w1'' ''guess'' = Inr creds)"
proof -
  obtain wa1 where wa1: "RegisterWorker (\<lambda>x. x) NewWorkerAuthenticator ''w1'' ''secret'' Map.empty = Inr wa1"
    by (auto simp: RegisterWorker_def NewWorkerAuthenticator_def)
  have "\<exists>creds. AuthenticateWorker (\<lambda>x. x) wa1 ''w1'' ''secret'' = Inr creds"
    using authenticate_after_register [OF wa1, of "''secret''"] by simp
  moreover have "\<not> (\<exists>creds. AuthenticateWorker (\<lambda>x. x) wa1 ''w1'' ''guess'' = Inr creds)"
    using authenticate_after_register [OF wa1, of "''guess''"] by simp
  ultimately show ?thesis using wa1 by (intro exI [of _ wa1]) simp
qed

end
