(* ===== verification/Worker_Routing.thy ===== *)
theory Worker_Routing
  imports Token_Auth
begin

text \<open>
  The registry of Processing Workers of internal/routing/registry.go: registration, load
  counters, and the two routing decisions of the Main Worker.  Every method runs under the
  registry's lock and is one function here.  \<open>FindLeastLoadedWorker\<close> and the listing methods range
  over a Go map, in an order the language leaves open: the former takes the visited records as an
  argument and the latter return sets.
\<close>

definition maxWorkerActiveRequests :: int where
  "maxWorkerActiveRequests = 100"

datatype WorkerStatus = WorkerStatusAvailable | WorkerStatusUnavailable

record WorkerInfo =
  wi_WorkerID :: string
  wi_Status :: WorkerStatus
  wi_KeyID :: string
  wi_LastSeen :: gotime
  wi_Tags :: tags
  wi_ActiveRequests :: int

record WorkerRegistry =
  wr_workers :: "string \<rightharpoonup> WorkerInfo"
  wr_entityWorkerMap :: "string \<rightharpoonup> string"

definition NewWorkerRegistry :: WorkerRegistry where
  "NewWorkerRegistry = \<lparr>wr_workers = Map.empty, wr_entityWorkerMap = Map.empty\<rparr>"

definition reg_Register ::
    "gotime \<Rightarrow> WorkerRegistry \<Rightarrow> string \<Rightarrow> string \<Rightarrow> tags \<Rightarrow> auth_error + WorkerRegistry" where
  "reg_Register now r workerID keyID tags =
     (if workerID = [] then Inl EmptyWorkerID
      else Inr (r\<lparr>wr_workers := (wr_workers r)(workerID \<mapsto>
             \<lparr>wi_WorkerID = workerID, wi_Status = WorkerStatusAvailable, wi_KeyID = keyID,
              wi_LastSeen = now, wi_Tags = tags, wi_ActiveRequests = 0\<rparr>)\<rparr>))"

definition Unregister :: "WorkerRegistry \<Rightarrow> string \<Rightarrow> WorkerRegistry" where
  "Unregister r workerID =
     (case wr_workers r workerID of
        None \<Rightarrow> r
      | Some info \<Rightarrow> r\<lparr>wr_workers := (wr_workers r)(workerID \<mapsto> info\<lparr>wi_Status := WorkerStatusUnavailable\<rparr>)\<rparr>)"

definition GetWorker :: "WorkerRegistry \<Rightarrow> string \<Rightarrow> WorkerInfo option" where
  "GetWorker r workerID = wr_workers r workerID"

definition reg_ListWorkers :: "WorkerRegistry \<Rightarrow> WorkerInfo set" where
  "reg_ListWorkers r = ran (wr_workers r)"

definition ListAvailableWorkers :: "WorkerRegistry \<Rightarrow> WorkerInfo set" where
  "ListAvailableWorkers r = {info \<in> ran (wr_workers r). wi_Status info = WorkerStatusAvailable}"

definition reg_Count :: "WorkerRegistry \<Rightarrow> nat" where
  "reg_Count r = card (dom (wr_workers r))"

definition IncrementLoad :: "WorkerRegistry \<Rightarrow> string \<Rightarrow> WorkerRegistry" where
  "IncrementLoad r workerID =
     (case wr_workers r workerID of
        None \<Rightarrow> r
      | Some info \<Rightarrow> r\<lparr>wr_workers := (wr_workers r)(workerID \<mapsto>
            info\<lparr>wi_ActiveRequests := i64 (wi_ActiveRequests info + 1)\<rparr>)\<rparr>)"

definition DecrementLoad :: "WorkerRegistry \<Rightarrow> string \<Rightarrow> WorkerRegistry" where
  "DecrementLoad r workerID =
     (case wr_workers r workerID of
        None \<Rightarrow> r
      | Some info \<Rightarrow>
          if 0 < wi_ActiveRequests info
          then r\<lparr>wr_workers := (wr_workers r)(workerID \<mapsto>
                 info\<lparr>wi_ActiveRequests := i64 (wi_ActiveRequests info - 1)\<rparr>)\<rparr>
          else r)"

definition UpdateEntityLocation :: "WorkerRegistry \<Rightarrow> string \<Rightarrow> string \<Rightarrow> WorkerRegistry" where
  "UpdateEntityLocation r entityID workerID =
     r\<lparr>wr_entityWorkerMap := (wr_entityWorkerMap r)(entityID \<mapsto> workerID)\<rparr>"

definition FindWorkerForEntity :: "WorkerRegistry \<Rightarrow> string \<Rightarrow> WorkerInfo option" where
  "FindWorkerForEntity r entityID =
     (case wr_entityWorkerMap r entityID of
        None \<Rightarrow> None
      | Some workerID \<Rightarrow>
          (case wr_workers r workerID of
             None \<Rightarrow> None
           | Some info \<Rightarrow>
               if wi_Status info \<noteq> WorkerStatusAvailable then None
               else if maxWorkerActiveRequests < wi_ActiveRequests info then None
               else Some info))"

text \<open>The loop of \<open>FindLeastLoadedWorker\<close> over the visited records, with the best one so far.\<close>

fun least_loaded :: "WorkerInfo option \<Rightarrow> WorkerInfo list \<Rightarrow> WorkerInfo option" where
  "least_loaded best [] = best"
| "least_loaded best (info # infos) =
     (if wi_Status info \<noteq> WorkerStatusAvailable then least_loaded best infos
      else if best = None \<or> wi_ActiveRequests info < wi_ActiveRequests (the best)
      then least_loaded (Some info) infos
      else least_loaded best infos)"

definition FindLeastLoadedWorker :: "WorkerInfo list \<Rightarrow> WorkerInfo option" where
  "FindLeastLoadedWorker order = least_loaded None order"

definition visits_workers :: "WorkerRegistry \<Rightarrow> WorkerInfo list \<Rightarrow> bool" where
  "visits_workers r order \<longleftrightarrow> distinct order \<and> set order = ran (wr_workers r)"

section \<open>Lemmas\<close>

text \<open>The result is no more loaded than the best record so far and every available record ahead.\<close>

lemma least_loaded_min:
  assumes "least_loaded best infos = Some w"
  shows "(\<forall>i \<in> set infos. wi_Status i = WorkerStatusAvailable \<longrightarrow> wi_ActiveRequests w \<le> wi_ActiveRequests i) \<and>
    (\<forall>b. best = Some b \<longrightarrow> wi_ActiveRequests w \<le> wi_ActiveRequests b)"
  using assms
proof (induction infos arbitrary: best)
  case (Cons info infos)
  show ?case
  proof (cases "wi_Status info = WorkerStatusAvailable \<and>
      (best = None \<or> wi_ActiveRequests info < wi_ActiveRequests (the best))")
    case True
    with Cons.prems have "least_loaded (Some info) infos = Some w" by simp
    from Cons.IH [OF this] True show ?thesis by auto
  next
    case False
    with Cons.prems have "least_loaded best infos = Some w" by (auto split: if_splits)
    from Cons.IH [OF this] False show ?thesis by fastforce
  qed
qed simp

lemma least_loaded_member:
  assumes "least_loaded best infos = Some w"
  shows "best = Some w \<or> w \<in> set infos \<and> wi_Status w = WorkerStatusAvailable"
  using assms by (induction infos arbitrary: best) (auto split: if_splits)

lemma least_loaded_None:
  "least_loaded best infos = None \<longleftrightarrow>
     best = None \<and> (\<forall>i \<in> set infos. wi_Status i \<noteq> WorkerStatusAvailable)"
  by (induction best infos rule: least_loaded.induct) auto

datatype route_op =
    RegOp gotime string string tags
  | UnregOp string
  | IncOp string
  | DecOp string
  | LocOp string string

fun route_step :: "route_op \<Rightarrow> WorkerRegistry \<Rightarrow> WorkerRegistry" where
  "route_step (RegOp now w k tags) r = (case reg_Register now r w k tags of Inl _ \<Rightarrow> r | Inr r' \<Rightarrow> r')"
| "route_step (UnregOp w) r = Unregister r w"
| "route_step (IncOp w) r = IncrementLoad r w"
| "route_step (DecOp w) r = DecrementLoad r w"
| "route_step (LocOp e w) r = UpdateEntityLocation r e w"

definition route_run :: "route_op list \<Rightarrow> WorkerRegistry \<Rightarrow> WorkerRegistry" where
  "route_run ops r = fold route_step ops r"

text \<open>Records sit under their own id.\<close>

definition registry_inv :: "WorkerRegistry \<Rightarrow> bool" where
  "registry_inv r \<longleftrightarrow> (\<forall>w info. wr_workers r w = Some info \<longrightarrow> wi_WorkerID info = w)"

lemma route_step_inv: "registry_inv r \<Longrightarrow> registry_inv (route_step op r)"
  by (cases op)
    (auto simp: registry_inv_def reg_Register_def Unregister_def IncrementLoad_def DecrementLoad_def
      UpdateEntityLocation_def split: option.splits if_splits)

lemma route_run_inv: "registry_inv r \<Longrightarrow> registry_inv (route_run ops r)"
  unfolding route_run_def by (induction ops arbitrary: r) (auto simp: route_step_inv)

text \<open>
  The number of requests in flight at worker \<open>w\<close> along a run, as the Main Worker starts and
  finishes them; None if a request is finished that was never started.
\<close>

fun in_flight :: "string \<Rightarrow> nat \<Rightarrow> route_op list \<Rightarrow> nat option" where
  "in_flight w n [] = Some n"
| "in_flight w n (IncOp w' # ops) = in_flight w (if w' = w then Suc n else n) ops"
| "in_flight w n (DecOp w' # ops) =
     (if w' = w then (if n = 0 then None else in_flight w (n - 1) ops) else in_flight w n ops)"
| "in_flight w n (_ # ops) = in_flight w n ops"

definition load_of :: "WorkerRegistry \<Rightarrow> string \<Rightarrow> int option" where
  "load_of r w = map_option wi_ActiveRequests (wr_workers r w)"

fun registers :: "string \<Rightarrow> route_op \<Rightarrow> bool" where
  "registers w (RegOp now w' k tags) = (w' = w)"
| "registers w _ = False"

lemma load_counts_in_flight:
  assumes "load_of r w = Some (int n)" and "\<forall>op \<in> set ops. \<not> registers w op"
    and "in_flight w n ops = Some m" and "int n + int (length ops) < 2 ^ 63"
  shows "load_of (route_run ops r) w = Some (int m)"
  using assms
proof (induction ops arbitrary: r n)
  case Nil
  then show ?case by (simp add: route_run_def)
next
  case (Cons op ops)
  have "\<exists>n'. load_of (route_step op r) w = Some (int n') \<and> in_flight w n' ops = Some m \<and> n' \<le> Suc n"
  proof (cases op)
    case (IncOp w')
    with Cons.prems show ?thesis
      by (auto simp: load_of_def IncrementLoad_def is_i64_def split: option.splits
          intro!: exI [of _ "if w' = w then Suc n else n"])
  next
    case (DecOp w')
    with Cons.prems show ?thesis
      by (auto simp: load_of_def DecrementLoad_def is_i64_def of_nat_diff split: option.splits if_splits
          intro!: exI [of _ "if w' = w then n - 1 else n"])
  qed (use Cons.prems in \<open>auto simp: load_of_def reg_Register_def Unregister_def
      UpdateEntityLocation_def split: option.splits if_splits\<close>)
  then obtain n' where n': "load_of (route_step op r) w = Some (int n')" "in_flight w n' ops = Some m" "n' \<le> Suc n"
    by blast
  with Cons.prems Cons.IH [OF n'(1) _ n'(2)] show ?case by (simp add: route_run_def)
qed

section \<open>Properties\<close>

text \<open>
  Whatever order the worker map is visited in, \<open>FindLeastLoadedWorker\<close> returns a registered,
  available worker with the fewest active requests among the available ones, and returns nil
  exactly when no available worker is registered.
\<close>

theorem least_loaded_worker_correct:
  assumes "visits_workers r order"
  shows "case FindLeastLoadedWorker order of
      None \<Rightarrow> ListAvailableWorkers r = {}
    | Some w \<Rightarrow> w \<in> ListAvailableWorkers r \<and>
        (\<forall>i \<in> ListAvailableWorkers r. wi_ActiveRequests w \<le> wi_ActiveRequests i)"
proof (cases "FindLeastLoadedWorker order")
  case None
  then have "\<forall>i \<in> set order. wi_Status i \<noteq> WorkerStatusAvailable"
    by (simp add: FindLeastLoadedWorker_def least_loaded_None)
  with assms have "ListAvailableWorkers r = {}"
    by (auto simp: ListAvailableWorkers_def visits_workers_def)
  with None show ?thesis by simp
next
  case (Some w)
  then have ll: "least_loaded None order = Some w" by (simp add: FindLeastLoadedWorker_def)
  from assms have av: "i \<in> ListAvailableWorkers r \<longleftrightarrow> i \<in> set order \<and> wi_Status i = WorkerStatusAvailable" for i
    by (simp add: ListAvailableWorkers_def visits_workers_def)
  from least_loaded_min [OF ll] least_loaded_member [OF ll] Some show ?thesis by (simp add: av)
qed

theorem least_loaded_worker_correct_witness:
  "let w = (\<lambda>name n. \<lparr>wi_WorkerID = name, wi_Status = WorkerStatusAvailable, wi_KeyID = [],
        wi_LastSeen = 0, wi_Tags = Map.empty, wi_ActiveRequests = n\<rparr>);
       r = \<lparr>wr_workers = [''a'' \<mapsto> w ''a'' 3, ''b'' \<mapsto> w ''b'' 1], wr_entityWorkerMap = Map.empty\<rparr>
   in FindLeastLoadedWorker [w ''a'' 3, w ''b'' 1] = Some (w ''b'' 1) \<and> w ''b'' 1 \<in> ListAvailableWorkers r"
proof -
  let ?w = "\<lambda>name n. \<lparr>wi_WorkerID = name, wi_Status = WorkerStatusAvailable, wi_KeyID = [],
        wi_LastSeen = 0, wi_Tags = Map.empty, wi_ActiveRequests = n\<rparr>"
  let ?r = "\<lparr>wr_workers = [''a'' \<mapsto> ?w ''a'' 3, ''b'' \<mapsto> ?w ''b'' 1], wr_entityWorkerMap = Map.empty\<rparr>"
  have v: "visits_workers ?r [?w ''a'' 3, ?w ''b'' 1]"
    by (simp add: visits_workers_def insert_commute)
  have f: "FindLeastLoadedWorker [?w ''a'' 3, ?w ''b'' 1] = Some (?w ''b'' 1)"
    by (simp add: FindLeastLoadedWorker_def)
  with least_loaded_worker_correct [OF v] show ?thesis by (simp add: Let_def)
qed

text \<open>
  Cache-aware routing: \<open>FindWorkerForEntity\<close> returns a worker exactly when the worker that
  last served the entity is registered, available and has at most 100 requests in flight, and
  then returns that worker.
\<close>

theorem cache_aware_routing_correct:
  assumes "registry_inv r"
  shows "FindWorkerForEntity (UpdateEntityLocation r e w) e =
    (case GetWorker r w of
       Some info \<Rightarrow> if info \<in> ListAvailableWorkers r \<and> wi_ActiveRequests info \<le> 100 then Some info else None
     | None \<Rightarrow> None) \<and>
    (\<forall>e'. e' \<noteq> e \<longrightarrow> FindWorkerForEntity (UpdateEntityLocation r e w) e' = FindWorkerForEntity r e') \<and>
    (\<forall>e' info. FindWorkerForEntity r e' = Some info \<longrightarrow>
       wr_entityWorkerMap r e' = Some (wi_WorkerID info) \<and> GetWorker r (wi_WorkerID info) = Some info)"
  using assms
  by (auto simp: FindWorkerForEntity_def UpdateEntityLocation_def GetWorker_def ListAvailableWorkers_def
      maxWorkerActiveRequests_def registry_inv_def ran_def split: option.splits if_splits)

theorem cache_aware_routing_correct_witness:
  "\<exists>r info. registry_inv r \<and> GetWorker r ''w'' = Some info \<and>
     FindWorkerForEntity (UpdateEntityLocation r ''chat/1'' ''w'') ''chat/1'' = Some info"
proof -
  let ?info = "\<lparr>wi_WorkerID = ''w'', wi_Status = WorkerStatusAvailable, wi_KeyID = [],
        wi_LastSeen = 0, wi_Tags = Map.empty, wi_ActiveRequests = 100\<rparr>"
  let ?r = "\<lparr>wr_workers = [''w'' \<mapsto> ?info], wr_entityWorkerMap = Map.empty\<rparr>"
  have inv: "registry_inv ?r" by (simp add: registry_inv_def)
  have "FindWorkerForEntity (UpdateEntityLocation ?r ''chat/1'' ''w'') ''chat/1'' = Some ?info"
    using cache_aware_routing_correct [OF inv, of "''chat/1''" "''w''"]
    by (simp add: GetWorker_def ListAvailableWorkers_def)
  with inv show ?thesis by (intro exI [of _ ?r] exI [of _ ?info]) (simp add: GetWorker_def)
qed

text \<open>
  As long as a worker does not subscribe again, its load counter equals the number of
  requests in flight, for every interleaving of started and finished requests (below the range
  of int64) with other registry operations.
\<close>

theorem load_counter_exact:
  assumes "reg_Register now r w k tags = Inr r1" and "\<forall>op \<in> set ops. \<not> registers w op"
    and "in_flight w 0 ops = Some m" and "int (length ops) < 2 ^ 63"
  shows "load_of (route_run ops r1) w = Some (int m)"
proof -
  from assms(1) have "load_of r1 w = Some (int 0)"
    by (auto simp: reg_Register_def load_of_def split: if_splits)
  from load_counts_in_flight [OF this assms(2,3)] assms(4) show ?thesis by simp
qed

theorem load_counter_exact_witness:
  "\<exists>r1. reg_Register 1 NewWorkerRegistry ''w'' ''k'' Map.empty = Inr r1 \<and>
     load_of (route_run [IncOp ''w'', IncOp ''x'', IncOp ''w'', DecOp ''w''] r1) ''w'' = Some 1"
proof -
  obtain r1 where r1: "reg_Register 1 NewWorkerRegistry ''w'' ''k'' Map.empty = Inr r1"
    by (auto simp: reg_Register_def)
  have "load_of (route_run [IncOp ''w'', IncOp ''x'', IncOp ''w'', DecOp ''w''] r1) ''w'' = Some (int 1)"
    by (rule load_counter_exact [OF r1]) simp_all
  with r1 show ?thesis by auto
qed

text \<open>
  A worker that subscribes again while requests are in flight loses them from its counter:
  the counter restarts at 0, and finishing the old requests then hides new ones, so the counter
  can read 0 while a request is in flight.
\<close>

theorem resubscribe_forgets_requests:
  assumes "w \<noteq> []"
  shows "let ops = [RegOp t1 w k tags, IncOp w, RegOp t2 w k tags, IncOp w, DecOp w] in
     in_flight w 0 ops = Some 1 \<and> load_of (route_run ops r) w = Some 0"
  using assms
  by (simp add: Let_def route_run_def reg_Register_def IncrementLoad_def DecrementLoad_def load_of_def
      is_i64_def)

theorem resubscribe_forgets_requests_witness:
  "load_of (route_run [RegOp 1 ''w'' ''k'' Map.empty, IncOp ''w'', RegOp 2 ''w'' ''k'' Map.empty, IncOp ''w'',
      DecOp ''w''] NewWorkerRegistry) ''w'' = Some 0"
  using resubscribe_forgets_requests [of "''w''" 1 "''k''" Map.empty 2 NewWorkerRegistry]
  by (simp add: Let_def)

end
