(* ===== verification/Api_Keys.thy ===== *)
theory Api_Keys
  imports Delta_Prelude
begin

text \<open>
  API keys with permissions and their persistence: \<open>KeyManager\<close> of internal/auth/keys.go.  The
  manager keeps the records by the hash of their secret and an index from key ids to hashes.
  SHA-256, the JSON encoding of the key list and the random bytes are arguments.  A nil pointer
  that the code would dereference is the error \<open>NilDereference\<close>, so that its absence can be
  proved.  Ranging over a Go map visits the records in an unspecified order: operations that
  depend on it take the list of visited records as an argument.
\<close>

type_synonym Permission = string

abbreviation PermRead :: Permission where "PermRead \<equiv> ''read''"
abbreviation PermWrite :: Permission where "PermWrite \<equiv> ''write''"
abbreviation PermAdmin :: Permission where "PermAdmin \<equiv> ''admin''"

definition AllPermissions :: "Permission list" where
  "AllPermissions = [PermRead, PermWrite, PermAdmin]"

record APIKey =
  ak_ID :: string
  ak_Name :: string
  ak_KeyHash :: string
  ak_Permissions :: "Permission list"
  ak_ExpiresAt :: "gotime option"
  ak_CreatedAt :: gotime
  ak_Enabled :: bool

definition HasPermission :: "APIKey \<Rightarrow> Permission \<Rightarrow> bool" where
  "HasPermission k p = list_ex (\<lambda>granted. granted = PermAdmin \<or> granted = p) (ak_Permissions k)"

definition key_IsExpired :: "gotime \<Rightarrow> APIKey \<Rightarrow> bool" where
  "key_IsExpired now k = (case ak_ExpiresAt k of None \<Rightarrow> False | Some t \<Rightarrow> t < now)"

record KeyManager =
  km_keys :: "string \<rightharpoonup> APIKey"
  km_idIndex :: "string \<rightharpoonup> string"
  km_storePath :: string

datatype key_error =
    KeyNameEmpty
  | NoPermissions
  | SecretGenerationFailed
  | KeyIDGenerationFailed
  | KeySecretEmpty
  | InvalidKey
  | KeyDisabled
  | KeyExpired
  | KeyNotFound string
  | KeyStoreReadFailed
  | KeyStoreParseFailed
  | NilDereference

datatype read_result = ReadOk bytes | ReadNotExist | ReadErr

definition hash_secret :: "(bytes \<Rightarrow> bytes) \<Rightarrow> string \<Rightarrow> string" where
  "hash_secret sha256 secret = hex_EncodeToString (sha256 secret)"

section \<open>Loading the store\<close>

fun load_keys :: "APIKey option list \<Rightarrow> KeyManager \<Rightarrow> key_error + KeyManager" where
  "load_keys [] km = Inr km"
| "load_keys (None # ks) km = Inl NilDereference"
| "load_keys (Some k # ks) km =
     load_keys ks (km\<lparr>km_keys := (km_keys km)(ak_KeyHash k \<mapsto> k),
                      km_idIndex := (km_idIndex km)(ak_ID k \<mapsto> ak_KeyHash k)\<rparr>)"

definition load ::
    "(bytes \<Rightarrow> APIKey option list option) \<Rightarrow> read_result \<Rightarrow> KeyManager \<Rightarrow> key_error option + KeyManager" where
  "load unmarshal file km =
     (case file of
        ReadNotExist \<Rightarrow> Inl None
      | ReadErr \<Rightarrow> Inl (Some KeyStoreReadFailed)
      | ReadOk data \<Rightarrow>
          (case unmarshal data of
             None \<Rightarrow> Inl (Some KeyStoreParseFailed)
           | Some ks \<Rightarrow> (case load_keys ks km of Inl e \<Rightarrow> Inl (Some e) | Inr km' \<Rightarrow> Inr km')))"

text \<open>\<open>Inl None\<close> is the error for which \<open>os.IsNotExist\<close> holds: the constructor ignores it.\<close>

definition NewKeyManager ::
    "(bytes \<Rightarrow> APIKey option list option) \<Rightarrow> (string \<Rightarrow> read_result) \<Rightarrow> string \<Rightarrow> key_error + KeyManager" where
  "NewKeyManager unmarshal readFile storePath =
     (let km = \<lparr>km_keys = Map.empty, km_idIndex = Map.empty, km_storePath = storePath\<rparr> in
      if storePath \<noteq> [] then
        (case load unmarshal (readFile storePath) km of
           Inl (Some e) \<Rightarrow> Inl e
         | Inl None \<Rightarrow> Inr km
         | Inr km' \<Rightarrow> Inr km')
      else Inr km)"

section \<open>Operations\<close>

definition CreateKey ::
    "(bytes \<Rightarrow> bytes) \<Rightarrow> gotime \<Rightarrow> bytes option \<Rightarrow> bytes option \<Rightarrow> KeyManager \<Rightarrow> string
      \<Rightarrow> Permission list \<Rightarrow> gotime option \<Rightarrow> KeyManager \<times> (key_error + string \<times> APIKey)" where
  "CreateKey sha256 now raw idBytes km name permissions expiresAt =
     (if name = [] then (km, Inl KeyNameEmpty)
      else if permissions = [] then (km, Inl NoPermissions)
      else case raw of
             None \<Rightarrow> (km, Inl SecretGenerationFailed)
           | Some r \<Rightarrow>
               (case idBytes of
                  None \<Rightarrow> (km, Inl KeyIDGenerationFailed)
                | Some ib \<Rightarrow>
                    let secret = ''dk_'' @ hex_EncodeToString r;
                        keyHash = hash_secret sha256 secret;
                        kid = hex_EncodeToString ib;
                        apiKey = \<lparr>ak_ID = kid, ak_Name = name, ak_KeyHash = keyHash,
                          ak_Permissions = permissions, ak_ExpiresAt = expiresAt,
                          ak_CreatedAt = now, ak_Enabled = True\<rparr>
                    in (km\<lparr>km_keys := (km_keys km)(keyHash \<mapsto> apiKey),
                           km_idIndex := (km_idIndex km)(kid \<mapsto> keyHash)\<rparr>, Inr (secret, apiKey))))"

definition ValidateKey :: "(bytes \<Rightarrow> bytes) \<Rightarrow> gotime \<Rightarrow> KeyManager \<Rightarrow> string \<Rightarrow> key_error + APIKey" where
  "ValidateKey sha256 now km secret =
     (if secret = [] then Inl KeySecretEmpty
      else case km_keys km (hash_secret sha256 secret) of
             None \<Rightarrow> Inl InvalidKey
           | Some key \<Rightarrow>
               if \<not> ak_Enabled key then Inl KeyDisabled
               else if key_IsExpired now key then Inl KeyExpired
               else Inr key)"

definition RevokeKey :: "KeyManager \<Rightarrow> string \<Rightarrow> key_error + KeyManager" where
  "RevokeKey km kid =
     (case km_idIndex km kid of
        None \<Rightarrow> Inl (KeyNotFound kid)
      | Some keyHash \<Rightarrow>
          (case km_keys km keyHash of
             None \<Rightarrow> Inl NilDereference
           | Some k \<Rightarrow> Inr (km\<lparr>km_keys := (km_keys km)(keyHash \<mapsto> k\<lparr>ak_Enabled := False\<rparr>)\<rparr>)))"

definition DeleteKey :: "KeyManager \<Rightarrow> string \<Rightarrow> key_error + KeyManager" where
  "DeleteKey km kid =
     (case km_idIndex km kid of
        None \<Rightarrow> Inl (KeyNotFound kid)
      | Some keyHash \<Rightarrow> Inr (km\<lparr>km_keys := (km_keys km)(keyHash := None),
                               km_idIndex := (km_idIndex km)(kid := None)\<rparr>))"

text \<open>\<open>GetKey\<close> returns the map's entry, which is nil (None) when the index points nowhere.\<close>

definition GetKey :: "KeyManager \<Rightarrow> string \<Rightarrow> key_error + APIKey option" where
  "GetKey km kid =
     (case km_idIndex km kid of
        None \<Rightarrow> Inl (KeyNotFound kid)
      | Some keyHash \<Rightarrow> Inr (km_keys km keyHash))"

definition ListKeys :: "KeyManager \<Rightarrow> APIKey set" where
  "ListKeys km = ran (km_keys km)"

definition key_Count :: "KeyManager \<Rightarrow> nat" where
  "key_Count km = card (dom (km_keys km))"

text \<open>
  \<open>save\<close>: the records in the order of the map iteration, the JSON encoding, and the directory
  creation, temporary write and rename, each of which may fail and then leaves the store file as
  it was.  The result is the new content of the store file.
\<close>

record save_io =
  mkdir_ok :: bool
  write_ok :: bool
  rename_ok :: bool

definition save ::
    "(APIKey list \<Rightarrow> bytes option) \<Rightarrow> save_io \<Rightarrow> APIKey list \<Rightarrow> KeyManager \<Rightarrow> read_result \<Rightarrow> read_result" where
  "save marshal io order km file =
     (if km_storePath km = [] then file
      else case marshal order of
             None \<Rightarrow> file
           | Some data \<Rightarrow>
               if \<not> mkdir_ok io then file
               else if \<not> write_ok io then file
               else if \<not> rename_ok io then file
               else ReadOk data)"

definition iteration_order :: "KeyManager \<Rightarrow> APIKey list \<Rightarrow> bool" where
  "iteration_order km order \<longleftrightarrow> distinct order \<and> set order = ran (km_keys km)"

section \<open>Index and records agree\<close>

text \<open>
  The invariant: every record is filed under its own hash and listed in the index under its own
  id, and every index entry leads to the record with that id.
\<close>

definition key_inv :: "KeyManager \<Rightarrow> bool" where
  "key_inv km \<longleftrightarrow>
     (\<forall>h k. km_keys km h = Some k \<longrightarrow> ak_KeyHash k = h \<and> km_idIndex km (ak_ID k) = Some h) \<and>
     (\<forall>i h. km_idIndex km i = Some h \<longrightarrow> (\<exists>k. km_keys km h = Some k \<and> ak_ID k = i))"

text \<open>The random id and the hash of the random secret are not in use yet.\<close>

definition fresh_key :: "(bytes \<Rightarrow> bytes) \<Rightarrow> KeyManager \<Rightarrow> bytes \<Rightarrow> bytes \<Rightarrow> bool" where
  "fresh_key sha256 km raw idBytes \<longleftrightarrow>
     km_keys km (hash_secret sha256 (''dk_'' @ hex_EncodeToString raw)) = None \<and>
     km_idIndex km (hex_EncodeToString idBytes) = None"

lemma key_inv_keyD: "key_inv km \<Longrightarrow> km_keys km h = Some k \<Longrightarrow> ak_KeyHash k = h \<and> km_idIndex km (ak_ID k) = Some h"
  by (simp add: key_inv_def)

lemma key_inv_indexD: "key_inv km \<Longrightarrow> km_idIndex km i = Some h \<Longrightarrow> \<exists>k. km_keys km h = Some k \<and> ak_ID k = i"
  by (simp add: key_inv_def)

lemma CreateKey_inv [inv_intros]:
  assumes inv: "key_inv km" and "\<And>r i. raw = Some r \<Longrightarrow> idBytes = Some i \<Longrightarrow> fresh_key sha256 km r i"
  shows "key_inv (fst (CreateKey sha256 now raw idBytes km name perms exp))"
proof (cases "name = [] \<or> perms = [] \<or> raw = None \<or> idBytes = None")
  case True
  then have "fst (CreateKey sha256 now raw idBytes km name perms exp) = km"
    by (auto simp: CreateKey_def split: option.splits)
  with inv show ?thesis by simp
next
  case False
  then obtain r i where ri: "raw = Some r" "idBytes = Some i" by auto
  with assms(2) have fr: "fresh_key sha256 km r i" by simp
  have "ak_ID k \<noteq> hex_EncodeToString i" if "km_keys km h = Some k" for h k
    using key_inv_keyD [OF inv that] fr by (auto simp: fresh_key_def)
  moreover have "h \<noteq> hash_secret sha256 (''dk_'' @ hex_EncodeToString r)"
    if "km_idIndex km j = Some h" for h j
    using key_inv_indexD [OF inv that] fr by (auto simp: fresh_key_def)
  ultimately show ?thesis
    using inv False unfolding ri CreateKey_def key_inv_def by (auto simp: Let_def)
qed

lemma RevokeKey_inv [inv_intros]:
  assumes inv: "key_inv km" and "RevokeKey km i = Inr km'"
  shows "key_inv km'"
proof -
  from assms(2) obtain h k where h: "km_idIndex km i = Some h" and k: "km_keys km h = Some k"
    and km': "km' = km\<lparr>km_keys := (km_keys km)(h \<mapsto> k\<lparr>ak_Enabled := False\<rparr>)\<rparr>"
    by (auto simp: RevokeKey_def split: option.splits)
  have "ak_ID k = j" if "km_idIndex km j = Some h" for j
    using key_inv_indexD [OF inv that] k by auto
  with inv k show ?thesis by (auto simp: km' key_inv_def)
qed

lemma DeleteKey_inv [inv_intros]:
  assumes inv: "key_inv km" and "DeleteKey km i = Inr km'"
  shows "key_inv km'"
proof -
  from assms(2) obtain h where h: "km_idIndex km i = Some h"
    and km': "km' = km\<lparr>km_keys := (km_keys km)(h := None), km_idIndex := (km_idIndex km)(i := None)\<rparr>"
    by (auto simp: DeleteKey_def split: option.splits)
  from key_inv_indexD [OF inv h] obtain k where k: "km_keys km h = Some k" "ak_ID k = i" by blast
  have "ak_ID k' \<noteq> i" if "km_keys km h' = Some k'" "h' \<noteq> h" for h' k'
    using inv that h by (auto simp: key_inv_def)
  moreover have "h' \<noteq> h" if "km_idIndex km j = Some h'" "j \<noteq> i" for j h'
    using key_inv_indexD [OF inv that(1)] k that(2) by auto
  ultimately show ?thesis
    using inv by (auto simp: km' key_inv_def)
qed

datatype key_op =
    CreateOp gotime "bytes option" "bytes option" string "Permission list" "gotime option"
  | RevokeOp string
  | DeleteOp string

fun key_step :: "(bytes \<Rightarrow> bytes) \<Rightarrow> key_op \<Rightarrow> KeyManager \<Rightarrow> KeyManager" where
  "key_step sha256 (CreateOp now raw ib name perms exp) km = fst (CreateKey sha256 now raw ib km name perms exp)"
| "key_step sha256 (RevokeOp i) km = (case RevokeKey km i of Inl _ \<Rightarrow> km | Inr km' \<Rightarrow> km')"
| "key_step sha256 (DeleteOp i) km = (case DeleteKey km i of Inl _ \<Rightarrow> km | Inr km' \<Rightarrow> km')"

section \<open>Saving and loading\<close>

lemma load_keys_map:
  "load_keys (map Some ks) km =
     Inr (km\<lparr>km_keys := km_keys km ++ map_of (rev (map (\<lambda>k. (ak_KeyHash k, k)) ks)),
             km_idIndex := km_idIndex km ++ map_of (rev (map (\<lambda>k. (ak_ID k, ak_KeyHash k)) ks))\<rparr>)"
  by (induction ks arbitrary: km) (simp_all add: map_add_upd [symmetric] map_add_assoc [symmetric])

text \<open>A list of pairs that enumerates the graph of a map is that map.\<close>

lemma map_of_graph:
  assumes "\<And>a b. (a, b) \<in> set xs \<longleftrightarrow> m a = Some b"
  shows "map_of xs = m"
proof
  fix a
  show "map_of xs a = m a"
  proof (cases "map_of xs a")
    case None
    then have "\<nexists>b. (a, b) \<in> set xs" by (force simp: map_of_eq_None_iff)
    with assms None show ?thesis by (cases "m a") auto
  next
    case (Some b)
    with assms show ?thesis using map_of_SomeD by metis
  qed
qed

lemma iteration_order_maps:
  assumes inv: "key_inv km" and order: "iteration_order km order"
  shows "map_of (rev (map (\<lambda>k. (ak_KeyHash k, k)) order)) = km_keys km"
    and "map_of (rev (map (\<lambda>k. (ak_ID k, ak_KeyHash k)) order)) = km_idIndex km"
proof -
  have set: "k \<in> set order \<longleftrightarrow> (\<exists>h. km_keys km h = Some k)" for k
    using order by (auto simp: iteration_order_def ran_def)
  show "map_of (rev (map (\<lambda>k. (ak_KeyHash k, k)) order)) = km_keys km"
    using set inv by (intro map_of_graph) (auto simp: key_inv_def)
  show "map_of (rev (map (\<lambda>k. (ak_ID k, ak_KeyHash k)) order)) = km_idIndex km"
  proof (intro map_of_graph)
    fix i h
    show "(i, h) \<in> set (rev (map (\<lambda>k. (ak_ID k, ak_KeyHash k)) order)) \<longleftrightarrow> km_idIndex km i = Some h"
      using set key_inv_keyD [OF inv] key_inv_indexD [OF inv] by (fastforce simp: image_iff)
  qed
qed

text \<open>
  A key list as \<open>load\<close> can take it: no null entry, and neither an id nor a hash twice.  What \<open>save\<close> writes of a
  consistent manager is such a list.
\<close>

definition key_list_ok :: "APIKey option list \<Rightarrow> bool" where
  "key_list_ok ks \<longleftrightarrow> None \<notin> set ks \<and> distinct (map (ak_ID \<circ> the) ks) \<and> distinct (map (ak_KeyHash \<circ> the) ks)"

lemma saved_list_ok:
  assumes inv: "key_inv km" and order: "iteration_order km order"
  shows "key_list_ok (map Some order)"
proof -
  have k: "km_keys km (ak_KeyHash k) = Some k" "km_idIndex km (ak_ID k) = Some (ak_KeyHash k)" if "k \<in> set order" for k
    using that order key_inv_keyD [OF inv] by (auto simp: iteration_order_def ran_def)
  have "inj_on ak_ID (set order)" "inj_on ak_KeyHash (set order)"
    using k by (auto intro!: inj_onI) (metis option.inject)+
  with order show ?thesis by (simp add: key_list_ok_def iteration_order_def distinct_map) (simp add: comp_def)
qed

lemma loaded_inv:
  assumes ok: "key_list_ok ks" and "load_keys ks \<lparr>km_keys = Map.empty, km_idIndex = Map.empty, km_storePath = path\<rparr> = Inr km"
  shows "key_inv km"
proof -
  from ok have ks: "ks = map Some (map the ks)" by (induction ks) (auto simp: key_list_ok_def)
  let ?ks = "map the ks" and ?H = "map (\<lambda>k. (ak_KeyHash k, k))" and ?I = "map (\<lambda>k. (ak_ID k, ak_KeyHash k))"
  from assms(2) ks have "load_keys (map Some ?ks) \<lparr>km_keys = Map.empty, km_idIndex = Map.empty, km_storePath = path\<rparr> = Inr km" by simp
  then have km: "km_keys km = map_of (rev (?H ?ks))" "km_idIndex km = map_of (rev (?I ?ks))"
    unfolding load_keys_map by auto
  have d: "distinct (map ak_ID ?ks)" "distinct (map ak_KeyHash ?ks)" using ok by (simp_all add: key_list_ok_def)
  have "distinct (map fst (rev (?H ?ks)))" "distinct (map fst (rev (?I ?ks)))" using d by (simp_all add: rev_map [symmetric] comp_def)
  then have "km_keys km h = Some k \<longleftrightarrow> k \<in> set ?ks \<and> ak_KeyHash k = h" "km_idIndex km i = Some h \<longleftrightarrow> (\<exists>k \<in> set ?ks. ak_ID k = i \<and> ak_KeyHash k = h)" for h k i
    by (auto simp: km map_of_eq_Some_iff)
  then show ?thesis unfolding key_inv_def by blast
qed

section \<open>Reachable managers\<close>

text \<open>
  Runs of a manager: opened without a store file, or on one with a key list as above, in particular on any that a manager has
  saved; then keys are created with unused random ids and secrets, revoked and deleted.
\<close>

inductive key_reachable :: "(bytes \<Rightarrow> bytes) \<Rightarrow> KeyManager \<Rightarrow> bool" for sha256 where
  key_start: "key_reachable sha256 \<lparr>km_keys = Map.empty, km_idIndex = Map.empty, km_storePath = path\<rparr>"
| key_open: "readFile path = ReadOk data \<Longrightarrow> unmarshal data = Some ks \<Longrightarrow> key_list_ok ks \<Longrightarrow>
    NewKeyManager unmarshal readFile path = Inr km \<Longrightarrow> key_reachable sha256 km"
| key_create: "key_reachable sha256 km \<Longrightarrow> fresh_key sha256 km raw ib \<Longrightarrow>
    key_reachable sha256 (key_step sha256 (CreateOp now (Some raw) (Some ib) name perms exp) km)"
| key_revoke: "key_reachable sha256 km \<Longrightarrow> key_reachable sha256 (key_step sha256 (RevokeOp i) km)"
| key_delete: "key_reachable sha256 km \<Longrightarrow> key_reachable sha256 (key_step sha256 (DeleteOp i) km)"

lemma key_reachable_inv: "key_reachable sha256 km \<Longrightarrow> key_inv km"
proof (induction rule: key_reachable.induct)
  case (key_start path)
  show ?case by (simp add: key_inv_def)
next
  case (key_open readFile path data unmarshal ks km)
  let ?km = "\<lparr>km_keys = Map.empty, km_idIndex = Map.empty, km_storePath = path\<rparr>"
  from key_open have "km = ?km \<or> load_keys ks ?km = Inr km"
    by (auto simp: NewKeyManager_def load_def Let_def split: if_splits sum.splits)
  moreover have "key_inv ?km" by (simp add: key_inv_def)
  ultimately show ?case using loaded_inv [OF key_open(3)] by auto
next
  case (key_create km raw ib now name perms exp)
  then show ?case by (auto intro: CreateKey_inv)
next
  case (key_revoke km i)
  then show ?case by (auto intro: RevokeKey_inv split: sum.splits)
next
  case (key_delete km i)
  then show ?case by (auto intro: DeleteKey_inv split: sum.splits)
qed

section \<open>Properties\<close>

text \<open>
  A key that was just created validates with its secret until it expires, and only an
  expiry can make it fail; it grants exactly the requested permissions, all of them if admin is
  among them; the record holds the hash of the secret and not the secret.
\<close>

theorem created_key_validates:
  assumes "CreateKey sha256 t0 (Some raw) (Some ib) km name perms exp = (km', Inr (secret, key))"
  shows "ValidateKey sha256 now km' secret = (if key_IsExpired now key then Inl KeyExpired else Inr key) \<and>
    ak_KeyHash key = hash_secret sha256 secret \<and>
    (\<forall>p. HasPermission key p \<longleftrightarrow> p \<in> set perms \<or> PermAdmin \<in> set perms)"
  using assms
  by (auto simp: CreateKey_def ValidateKey_def HasPermission_def list_ex_iff Let_def split: if_splits)

theorem created_key_validates_witness:
  "\<exists>km' secret key. CreateKey (\<lambda>x. x) 10 (Some ''r'') (Some ''i'')
       \<lparr>km_keys = Map.empty, km_idIndex = Map.empty, km_storePath = []\<rparr> ''ci'' [PermRead] (Some 20)
       = (km', Inr (secret, key)) \<and>
     ValidateKey (\<lambda>x. x) 20 km' secret = Inr key \<and> \<not> HasPermission key PermWrite"
proof -
  obtain km' secret key where k: "CreateKey (\<lambda>x. x) 10 (Some ''r'') (Some ''i'')
       \<lparr>km_keys = Map.empty, km_idIndex = Map.empty, km_storePath = []\<rparr> ''ci'' [PermRead] (Some 20)
       = (km', Inr (secret, key))" and e: "ak_ExpiresAt key = Some 20"
    by (simp add: CreateKey_def Let_def)
  from created_key_validates [OF k, of 20] e
  have "ValidateKey (\<lambda>x. x) 20 km' secret = Inr key" "\<not> HasPermission key PermWrite"
    by (simp_all add: key_IsExpired_def)
  with k show ?thesis by (intro exI conjI)
qed

text \<open>
  C33. Records and index agree in every reachable state: the manager is opened without a store file or on a key list
  without null entries and with distinct ids and hashes, and keys are then created with unused random ids and secrets, revoked and
  deleted.  So no operation dereferences a nil key: \<open>RevokeKey\<close> never panics and \<open>GetKey\<close> never returns a nil
  record.  What such a manager saves is again such a list, and opening it does not fail.
\<close>

theorem key_index_consistent:
  assumes "key_reachable sha256 km"
  shows "key_inv km \<and> RevokeKey km i \<noteq> Inl NilDereference \<and> GetKey km i \<noteq> Inr None \<and>
    (\<forall>order data unmarshal readFile. iteration_order km order \<longrightarrow> readFile (km_storePath km) = ReadOk data \<longrightarrow> unmarshal data = Some (map Some order) \<longrightarrow>
      (\<exists>km'. NewKeyManager unmarshal readFile (km_storePath km) = Inr km' \<and> key_reachable sha256 km'))"
proof -
  from assms have inv: "key_inv km" by (rule key_reachable_inv)
  have "\<exists>km'. NewKeyManager unmarshal readFile (km_storePath km) = Inr km' \<and> key_reachable sha256 km'"
    if h: "iteration_order km order" "readFile (km_storePath km) = ReadOk data" "unmarshal data = Some (map Some order)" for order data unmarshal readFile
  proof -
    obtain km' where o: "NewKeyManager unmarshal readFile (km_storePath km) = Inr km'"
      using h by (cases "km_storePath km = []") (simp_all add: NewKeyManager_def load_def load_keys_map)
    from key_open [OF h(2,3) saved_list_ok [OF inv h(1)] o] o show ?thesis by blast
  qed
  with inv show ?thesis
    using key_inv_indexD [OF inv] by (fastforce simp: RevokeKey_def GetKey_def split: option.splits)
qed

theorem key_index_consistent_witness:
  "\<exists>km. key_reachable (\<lambda>x. x) km \<and> km_idIndex km \<noteq> Map.empty \<and> RevokeKey km ''69'' \<noteq> Inl NilDereference"
proof -
  let ?k = "\<lparr>ak_ID = ''69'', ak_Name = ''n'', ak_KeyHash = ''h'', ak_Permissions = [PermRead],
     ak_ExpiresAt = None, ak_CreatedAt = 1, ak_Enabled = True\<rparr>"
  let ?km = "\<lparr>km_keys = [''h'' \<mapsto> ?k], km_idIndex = [''69'' \<mapsto> ''h''], km_storePath = ''keys.json''\<rparr>"
  have r: "key_reachable (\<lambda>x. x) ?km"
    by (rule key_open [of "\<lambda>_. ReadOk ''x''" "''keys.json''" "''x''" "\<lambda>_. Some [Some ?k]" "[Some ?k]"])
      (simp_all add: key_list_ok_def NewKeyManager_def load_def)
  moreover have "km_idIndex ?km \<noteq> Map.empty" by (auto simp: fun_eq_iff)
  moreover have "RevokeKey ?km ''69'' \<noteq> Inl NilDereference" using key_index_consistent [OF r] by blast
  ultimately show ?thesis by blast
qed

text \<open>
  A store file that the program did not write can break the manager: a null entry makes the opening panic, and with two ids for one hash the
  revocation of the second id panics after the deletion of the first.
\<close>

theorem key_file_can_panic:
  "load_keys [None] km = Inl NilDereference \<and>
   (ak_KeyHash a = ak_KeyHash b \<and> ak_ID a \<noteq> ak_ID b \<longrightarrow>
     (\<exists>km1 km2. load_keys [Some a, Some b] km = Inr km1 \<and> DeleteKey km1 (ak_ID a) = Inr km2 \<and> RevokeKey km2 (ak_ID b) = Inl NilDereference))"
  by (simp add: DeleteKey_def RevokeKey_def)

text \<open>
  Revoking a key disables it and deleting it removes it: from then on every secret that
  hashes to it is refused, while the verdict on every other secret is unchanged.
\<close>

theorem revoked_or_deleted_key_refused:
  assumes "key_reachable sha256 km" and "km_keys km h = Some k" and "hash_secret sha256 secret = h"
    and "secret \<noteq> []"
  shows "\<exists>km1 km2. RevokeKey km (ak_ID k) = Inr km1 \<and> DeleteKey km (ak_ID k) = Inr km2 \<and>
    ValidateKey sha256 now km1 secret = Inl KeyDisabled \<and>
    ValidateKey sha256 now km2 secret = Inl InvalidKey \<and>
    (\<forall>s. hash_secret sha256 s \<noteq> h \<longrightarrow> ValidateKey sha256 now km1 s = ValidateKey sha256 now km s \<and>
       ValidateKey sha256 now km2 s = ValidateKey sha256 now km s)"
proof -
  from assms(1) have "key_inv km" by (rule key_reachable_inv)
  with assms(2) have "km_idIndex km (ak_ID k) = Some h" by (simp add: key_inv_def)
  with assms show ?thesis by (simp add: RevokeKey_def DeleteKey_def ValidateKey_def)
qed

theorem revoked_or_deleted_key_refused_witness:
  "\<exists>km km1 k secret. key_reachable (\<lambda>x. x) km \<and> ValidateKey (\<lambda>x. x) 5 km secret = Inr k \<and>
     RevokeKey km (ak_ID k) = Inr km1 \<and> ValidateKey (\<lambda>x. x) 5 km1 secret = Inl KeyDisabled"
proof -
  let ?km0 = "\<lparr>km_keys = Map.empty, km_idIndex = Map.empty, km_storePath = []\<rparr>"
  let ?km = "key_step (\<lambda>x. x) (CreateOp 1 (Some ''r'') (Some ''i'') ''n'' [PermRead] None) ?km0"
  let ?secret = "''dk_'' @ hex_EncodeToString ''r''"
  have r: "key_reachable (\<lambda>x. x) ?km"
    by (intro key_reachable.key_create key_reachable.key_start) (simp add: fresh_key_def)
  obtain k where k: "km_keys ?km (hash_secret (\<lambda>x. x) ?secret) = Some k"
    and v: "ValidateKey (\<lambda>x. x) 5 ?km ?secret = Inr k"
    by (simp add: CreateKey_def ValidateKey_def key_IsExpired_def Let_def)
  from revoked_or_deleted_key_refused [OF r k refl, of 5] v r show ?thesis by auto
qed

text \<open>
  The key store survives a restart: after a save without I/O failure, a manager opened on
  the same path holds exactly the same records and index, whatever order the records were
  visited in, provided JSON decoding inverts JSON encoding on key lists.
\<close>

theorem key_store_roundtrip:
  assumes "key_inv km" and "km_storePath km \<noteq> []" and "iteration_order km order"
    and "marshal order = Some data" and "unmarshal data = Some (map Some order)"
    and "mkdir_ok io" "write_ok io" "rename_ok io"
  shows "NewKeyManager unmarshal (\<lambda>_. save marshal io order km file) (km_storePath km) = Inr km"
  using assms(2-) iteration_order_maps [OF assms(1,3)]
  by (simp add: NewKeyManager_def save_def load_def Let_def load_keys_map)

theorem key_store_roundtrip_witness:
  "\<exists>km order marshal unmarshal. key_inv km \<and> iteration_order km order \<and> km_keys km \<noteq> Map.empty \<and>
     NewKeyManager unmarshal
       (\<lambda>_. save marshal \<lparr>mkdir_ok = True, write_ok = True, rename_ok = True\<rparr> order km ReadNotExist) ''keys.json''
       = Inr km"
proof -
  let ?k = "\<lparr>ak_ID = ''i'', ak_Name = ''n'', ak_KeyHash = ''h'', ak_Permissions = [PermRead],
     ak_ExpiresAt = None, ak_CreatedAt = 1, ak_Enabled = True\<rparr>"
  let ?km = "\<lparr>km_keys = [''h'' \<mapsto> ?k], km_idIndex = [''i'' \<mapsto> ''h''], km_storePath = ''keys.json''\<rparr>"
  let ?io = "\<lparr>mkdir_ok = True, write_ok = True, rename_ok = True\<rparr>"
  have inv: "key_inv ?km" and ord: "iteration_order ?km [?k]"
    by (simp_all add: key_inv_def iteration_order_def)
  have "NewKeyManager (\<lambda>_. Some (map Some [?k])) (\<lambda>_. save (\<lambda>_. Some ''[]'') ?io [?k] ?km ReadNotExist)
      (km_storePath ?km) = Inr ?km"
    by (rule key_store_roundtrip [OF inv _ ord]) simp_all
  moreover have "km_keys ?km \<noteq> Map.empty" by (auto simp: fun_eq_iff)
  ultimately show ?thesis using inv ord
    by (intro exI [of _ ?km] exI [of _ "[?k]"] exI [of _ "\<lambda>_. Some ''[]''"]
        exI [of _ "\<lambda>_. Some (map Some [?k])"]) simp
qed

end
