(* ===== verification/Schema_Validator.thy ===== *)
theory Schema_Validator
  imports File_Storage
begin

text \<open>
  The schema validator of pkg/schema/validator.go: JSON Schema templates in a directory, compiled
  on first use and kept in memory.  The JSON parser of the standard library and the third-party
  package gojsonschema are the argument record \<open>schema_lib\<close>.  Errors are values; \<open>err_text\<close> is the
  text of an error, because the Processing Worker looks for a phrase in it.
\<close>

record ValidationError =
  ve_Field :: string
  ve_Type :: string
  ve_Description :: string

record ValidationResult =
  vr_Valid :: bool
  vr_Errors :: "ValidationError list"

text \<open>
  \<open>sl_json_error\<close> is the error text of \<open>json.Unmarshal\<close> into an interface, None for valid JSON;
  \<open>sl_compile\<close> is \<open>gojsonschema.NewSchema\<close> on a bytes loader and \<open>sl_check\<close> the method Validate of
  a compiled schema, each with an error text on the left.
\<close>

record 's schema_lib =
  sl_json_error :: "bytes \<Rightarrow> string option"
  sl_compile :: "bytes \<Rightarrow> string + 's"
  sl_check :: "'s \<Rightarrow> bytes \<Rightarrow> string + bool \<times> ValidationError list"

record 's Validator =
  v_templatesPath :: string
  v_schemas :: "string \<rightharpoonup> 's"

datatype schema_error =
    TemplatesPathEmpty
  | TemplatesDirFailed os_error
  | InvalidSchemaID
  | ErrSchemaNotFound string
  | TemplateReadFailed string os_error
  | TemplateNotJSON string
  | SchemaLoadFailed string
  | SchemaIDEmpty
  | JSONDataEmpty
  | SchemaNotLoaded schema_error
  | ValidationBroken string
  | ValidationFailed nat
  | SchemaMissing
  | TemplatesListFailed os_error
  | TemplateDeleteFailed os_error
  | SchemaDataNotJSON string
  | InvalidJSONSchema string
  | TemplateWriteFailed os_error
  | TemplateSaveFailed os_error

fun os_text :: "os_error \<Rightarrow> string" where
  "os_text NotExist = ''no such file or directory''"
| "os_text IsDirectory = ''is a directory''"
| "os_text NotDirectory = ''not a directory''"
| "os_text NotEmpty = ''directory not empty''"
| "os_text IOFault = ''input/output error''"

fun err_text :: "schema_error \<Rightarrow> string" where
  "err_text TemplatesPathEmpty = ''templates path cannot be empty''"
| "err_text (TemplatesDirFailed e) = ''failed to create templates directory: '' @ os_text e"
| "err_text InvalidSchemaID = ''invalid schema ID''"
| "err_text (ErrSchemaNotFound schemaID) = ''schema template not found: '' @ schemaID"
| "err_text (TemplateReadFailed p e) = ''failed to read template file: open '' @ p @ '': '' @ os_text e"
| "err_text (TemplateNotJSON m) = ''template is not valid JSON: '' @ m"
| "err_text (SchemaLoadFailed m) = ''failed to load schema: '' @ m"
| "err_text SchemaIDEmpty = ''schema ID cannot be empty''"
| "err_text JSONDataEmpty = ''JSON data cannot be empty''"
| "err_text (SchemaNotLoaded e) = ''schema not loaded and failed to load: '' @ err_text e"
| "err_text (ValidationBroken m) = ''validation failed: '' @ m"
| "err_text (ValidationFailed n) = ''validation failed: '' @ dec_of_nat n @ '' errors''"
| "err_text SchemaMissing = ''invalid memory address or nil pointer dereference''"
| "err_text (TemplatesListFailed e) = ''failed to read templates directory: '' @ os_text e"
| "err_text (TemplateDeleteFailed e) = ''failed to delete template file: '' @ os_text e"
| "err_text (SchemaDataNotJSON m) = ''schema data is not valid JSON: '' @ m"
| "err_text (InvalidJSONSchema m) = ''invalid JSON schema: '' @ m"
| "err_text (TemplateWriteFailed e) = ''failed to write template file: '' @ os_text e"
| "err_text (TemplateSaveFailed e) = ''failed to save template: '' @ os_text e"

definition isValidSchemaID :: "string \<Rightarrow> bool" where
  "isValidSchemaID sid =
     (if sid = [] then False
      else if ContainsAny sid path_seps \<or> Contains sid ''..'' then False
      else True)"

section \<open>Operations\<close>

definition NewValidator ::
    "faults \<Rightarrow> string \<Rightarrow> file_sys \<Rightarrow> file_sys \<times> (schema_error + 's Validator)" where
  "NewValidator F templatesPath fs =
     (if templatesPath = [] then (fs, Inl TemplatesPathEmpty)
      else
        let v = \<lparr>v_templatesPath = templatesPath, v_schemas = Map.empty\<rparr> in
        if os_Stat F templatesPath fs = Some NotExist then
          (case os_MkdirAll F templatesPath fs of
             (fs', Some e) \<Rightarrow> (fs', Inl (TemplatesDirFailed e))
           | (fs', None) \<Rightarrow> (fs', Inr v))
        else (fs, Inr v))"

definition LoadTemplate ::
    "'s schema_lib \<Rightarrow> faults \<Rightarrow> 's Validator \<Rightarrow> string \<Rightarrow> file_sys \<Rightarrow> 's Validator \<times> schema_error option" where
  "LoadTemplate L F v schemaID fs =
     (if \<not> isValidSchemaID schemaID then (v, Some InvalidSchemaID)
      else if v_schemas v schemaID \<noteq> None then (v, None)
      else
        let templatePath = Join (v_templatesPath v) (schemaID @ ''.json'') in
        if os_Stat F templatePath fs = Some NotExist then (v, Some (ErrSchemaNotFound schemaID))
        else case os_ReadFile F templatePath fs of
               Inl e \<Rightarrow> (v, Some (TemplateReadFailed templatePath e))
             | Inr templateData \<Rightarrow>
                 (case sl_json_error L templateData of
                    Some m \<Rightarrow> (v, Some (TemplateNotJSON m))
                  | None \<Rightarrow>
                      (case sl_compile L templateData of
                         Inl m \<Rightarrow> (v, Some (SchemaLoadFailed m))
                       | Inr schema \<Rightarrow> (v\<lparr>v_schemas := (v_schemas v)(schemaID \<mapsto> schema)\<rparr>, None))))"

text \<open>\<open>SchemaMissing\<close> stands for the nil dereference that a missing entry after a load would be.\<close>

definition validate_with ::
    "'s schema_lib \<Rightarrow> 's option \<Rightarrow> bytes \<Rightarrow> schema_error + ValidationResult" where
  "validate_with L schema jsonData =
     (case sl_json_error L jsonData of
        Some m \<Rightarrow> Inr \<lparr>vr_Valid = False, vr_Errors = [\<lparr>ve_Field = ''(root)'', ve_Type = ''invalid_json'',
                     ve_Description = ''Invalid JSON: '' @ m\<rparr>]\<rparr>
      | None \<Rightarrow>
          (case schema of
             None \<Rightarrow> Inl SchemaMissing
           | Some s \<Rightarrow>
               (case sl_check L s jsonData of
                  Inl m \<Rightarrow> Inl (ValidationBroken m)
                | Inr (valid, errs) \<Rightarrow>
                    Inr \<lparr>vr_Valid = valid, vr_Errors = (if valid then [] else errs)\<rparr>)))"

definition Validate ::
    "'s schema_lib \<Rightarrow> faults \<Rightarrow> 's Validator \<Rightarrow> string \<Rightarrow> bytes \<Rightarrow> file_sys
      \<Rightarrow> 's Validator \<times> (schema_error + ValidationResult)" where
  "Validate L F v schemaID jsonData fs =
     (if schemaID = [] then (v, Inl SchemaIDEmpty)
      else if jsonData = [] then (v, Inl JSONDataEmpty)
      else case v_schemas v schemaID of
             Some schema \<Rightarrow> (v, validate_with L (Some schema) jsonData)
           | None \<Rightarrow>
               (case LoadTemplate L F v schemaID fs of
                  (v', Some e) \<Rightarrow> (v', Inl (SchemaNotLoaded e))
                | (v', None) \<Rightarrow> (v', validate_with L (v_schemas v' schemaID) jsonData)))"

definition ValidateStrict ::
    "'s schema_lib \<Rightarrow> faults \<Rightarrow> 's Validator \<Rightarrow> string \<Rightarrow> bytes \<Rightarrow> file_sys \<Rightarrow> 's Validator \<times> schema_error option" where
  "ValidateStrict L F v schemaID jsonData fs =
     (case Validate L F v schemaID jsonData fs of
        (v', Inl e) \<Rightarrow> (v', Some e)
      | (v', Inr result) \<Rightarrow>
          if \<not> vr_Valid result then (v', Some (ValidationFailed (length (vr_Errors result)))) else (v', None))"

definition GetLoadedSchemas :: "'s Validator \<Rightarrow> string set" where
  "GetLoadedSchemas v = dom (v_schemas v)"

definition ReloadTemplate ::
    "'s schema_lib \<Rightarrow> faults \<Rightarrow> 's Validator \<Rightarrow> string \<Rightarrow> file_sys \<Rightarrow> 's Validator \<times> schema_error option" where
  "ReloadTemplate L F v schemaID fs =
     (if \<not> isValidSchemaID schemaID then (v, Some InvalidSchemaID)
      else LoadTemplate L F (v\<lparr>v_schemas := (v_schemas v)(schemaID := None)\<rparr>) schemaID fs)"

text \<open>\<open>filepath.Ext\<close>: the suffix from the last dot of the last element.\<close>

definition path_Ext :: "string \<Rightarrow> string" where
  "path_Ext p =
     (let r = takeWhile (\<lambda>c. c \<noteq> CHR ''.'' \<and> c \<noteq> slash) (rev p) in
      case drop (length r) (rev p) of
        [] \<Rightarrow> []
      | c # _ \<Rightarrow> if c = CHR ''.'' then c # rev r else [])"

definition ListAvailableTemplates :: "faults \<Rightarrow> 's Validator \<Rightarrow> file_sys \<Rightarrow> schema_error + string list" where
  "ListAvailableTemplates F v fs =
     (case os_ReadDir F (v_templatesPath v) fs of
        Inl e \<Rightarrow> Inl (TemplatesListFailed e)
      | Inr entries \<Rightarrow>
          Inr (map (\<lambda>(name, n). take (length name - 5) name)
                (filter (\<lambda>(name, n). n \<noteq> DirNode \<and> path_Ext name = ''.json'') entries)))"

definition GetTemplateData :: "faults \<Rightarrow> 's Validator \<Rightarrow> string \<Rightarrow> file_sys \<Rightarrow> schema_error + bytes" where
  "GetTemplateData F v schemaID fs =
     (if \<not> isValidSchemaID schemaID then Inl InvalidSchemaID
      else
        let templatePath = Join (v_templatesPath v) (schemaID @ ''.json'') in
        case os_ReadFile F templatePath fs of
          Inl e \<Rightarrow> Inl (TemplateReadFailed templatePath e)
        | Inr data \<Rightarrow> Inr data)"

definition DeleteTemplate ::
    "faults \<Rightarrow> 's Validator \<Rightarrow> string \<Rightarrow> file_sys \<Rightarrow> file_sys \<times> 's Validator \<times> schema_error option" where
  "DeleteTemplate F v schemaID fs =
     (if \<not> isValidSchemaID schemaID then (fs, v, Some InvalidSchemaID)
      else
        let templatePath = Join (v_templatesPath v) (schemaID @ ''.json'') in
        if os_Stat F templatePath fs = Some NotExist then (fs, v, Some (ErrSchemaNotFound schemaID))
        else case os_Remove F templatePath fs of
               (fs', Some e) \<Rightarrow> (fs', v, Some (TemplateDeleteFailed e))
             | (fs', None) \<Rightarrow> (fs', v\<lparr>v_schemas := (v_schemas v)(schemaID := None)\<rparr>, None))"

definition SaveTemplate ::
    "'s schema_lib \<Rightarrow> faults \<Rightarrow> 's Validator \<Rightarrow> string \<Rightarrow> bytes \<Rightarrow> file_sys
      \<Rightarrow> file_sys \<times> 's Validator \<times> schema_error option" where
  "SaveTemplate L F v schemaID schemaData fs =
     (if \<not> isValidSchemaID schemaID then (fs, v, Some InvalidSchemaID)
      else case sl_json_error L schemaData of
             Some m \<Rightarrow> (fs, v, Some (SchemaDataNotJSON m))
           | None \<Rightarrow>
               (case sl_compile L schemaData of
                  Inl m \<Rightarrow> (fs, v, Some (InvalidJSONSchema m))
                | Inr _ \<Rightarrow>
                    let templatePath = Join (v_templatesPath v) (schemaID @ ''.json'');
                        tempPath = templatePath @ ''.tmp''
                    in case os_WriteFile F tempPath schemaData fs of
                         (fs1, Some e) \<Rightarrow> (fs1, v, Some (TemplateWriteFailed e))
                       | (fs1, None) \<Rightarrow>
                           (case os_Rename F tempPath templatePath fs1 of
                              (fs2, Some e) \<Rightarrow> (fst (os_Remove F tempPath fs2), v, Some (TemplateSaveFailed e))
                            | (fs2, None) \<Rightarrow> (let (v', r) = ReloadTemplate L F v schemaID fs2 in (fs2, v', r)))))"

section \<open>The templates directory\<close>

lemma isValidSchemaID_iff: "isValidSchemaID sid \<longleftrightarrow> isValidEntityID sid"
  by (simp add: isValidSchemaID_def isValidEntityID_def)

definition validator_inv :: "'s Validator \<Rightarrow> file_sys \<Rightarrow> bool" where
  "validator_inv v fs \<longleftrightarrow> v_templatesPath v \<noteq> [] \<and> plain_dir (resolve (v_templatesPath v)) fs"

abbreviation template_text :: "'s Validator \<Rightarrow> file_sys \<Rightarrow> string \<Rightarrow> bytes option" where
  "template_text v fs sid \<equiv> entry (resolve (v_templatesPath v)) fs (sid @ ''.json'')"

lemma template_paths:
  assumes "v_templatesPath v \<noteq> []" and "isValidSchemaID sid"
  shows "resolve (Join (v_templatesPath v) (sid @ ''.json'')) = child (resolve (v_templatesPath v)) (sid @ ''.json'')"
    "resolve (Join (v_templatesPath v) (sid @ ''.json'') @ ''.tmp'') = child (resolve (v_templatesPath v)) (sid @ ''.json.tmp'')"
    "plain_name (sid @ ''.json'')" "plain_name (sid @ ''.json.tmp'')"
proof -
  show pl: "plain_name (sid @ ''.json'')" "plain_name (sid @ ''.json.tmp'')"
    using assms(2) by (simp_all add: isValidSchemaID_iff plain_name_suffix)
  show "resolve (Join (v_templatesPath v) (sid @ ''.json'')) = child (resolve (v_templatesPath v)) (sid @ ''.json'')"
    "resolve (Join (v_templatesPath v) (sid @ ''.json'') @ ''.tmp'') = child (resolve (v_templatesPath v)) (sid @ ''.json.tmp'')"
    using assms(1) pl by simp_all
qed

lemma template_names_differ [simp]:
  "a @ ''.json.tmp'' \<noteq> b @ ''.json''" "a @ ''.json'' \<noteq> b @ ''.json.tmp''"
  by (rule notI, drule arg_cong [of _ _ rev], simp)+

lemma LoadTemplate_loads:
  assumes inv: "validator_inv v fs" and "LoadTemplate L F v sid fs = (v', None)" and "v_schemas v sid = None"
  shows "\<exists>data s. template_text v fs sid = Some data \<and> sl_json_error L data = None \<and> sl_compile L data = Inr s \<and>
    v' = v\<lparr>v_schemas := (v_schemas v)(sid \<mapsto> s)\<rparr>"
proof -
  have sid: "isValidSchemaID sid" using assms(2) by (auto simp: LoadTemplate_def split: if_splits)
  have d: "plain_dir (resolve (v_templatesPath v)) fs" and ne: "v_templatesPath v \<noteq> []"
    using inv by (simp_all add: validator_inv_def)
  show ?thesis
    using assms(2,3) sid d template_paths [OF ne sid]
    by (auto simp: LoadTemplate_def Let_def ReadFile_entry [where d = "resolve (v_templatesPath v)"]
        split: if_splits option.splits sum.splits)
qed

lemma LoadTemplate_keeps_path: "v_templatesPath (fst (LoadTemplate L F v sid fs)) = v_templatesPath v"
  by (auto simp: LoadTemplate_def Let_def split: option.splits sum.splits)

text \<open>What the steps of \<open>SaveTemplate\<close> do to the templates directory, when they all succeed.\<close>

lemma SaveTemplate_effect:
  assumes inv: "validator_inv v fs" and sv: "SaveTemplate L F v sid data fs = (fs', v', None)"
  shows "isValidSchemaID sid \<and> validator_inv v fs' \<and>
    entry (resolve (v_templatesPath v)) fs' = (entry (resolve (v_templatesPath v)) fs)(sid @ ''.json'' \<mapsto> data, sid @ ''.json.tmp'' := None) \<and>
    ReloadTemplate L F v sid fs' = (v', None)"
proof -
  have sid: "isValidSchemaID sid" using sv by (auto simp: SaveTemplate_def split: if_splits)
  have d: "plain_dir (resolve (v_templatesPath v)) fs" and ne: "v_templatesPath v \<noteq> []"
    using inv by (simp_all add: validator_inv_def)
  obtain s where s: "sl_json_error L data = None" "sl_compile L data = Inr s"
    using sv sid by (auto simp: SaveTemplate_def split: option.splits sum.splits)
  show ?thesis
    using sv sid d ne s template_paths [OF ne sid]
    by (auto simp: SaveTemplate_def Let_def os_WriteFile_def os_Write_def os_Close_def validator_inv_def
        OpenFile_entry [where d = "resolve (v_templatesPath v)"] Rename_entry [where d = "resolve (v_templatesPath v)"]
        fun_upd_twist split: option.splits if_splits prod.splits)
qed

lemma SaveTemplate_caches:
  assumes "validator_inv v fs" and "SaveTemplate L F v sid data fs = (fs', v', None)"
  obtains s where "sl_compile L data = Inr s" "v' = v\<lparr>v_schemas := (v_schemas v)(sid \<mapsto> s)\<rparr>"
proof -
  note eff = SaveTemplate_effect [OF assms]
  let ?v = "v\<lparr>v_schemas := (v_schemas v)(sid := None)\<rparr>"
  have "isValidSchemaID sid" "ReloadTemplate L F v sid fs' = (v', None)" using eff by blast+
  then have "LoadTemplate L F ?v sid fs' = (v', None)" by (simp add: ReloadTemplate_def)
  moreover have "validator_inv ?v fs'" using eff by (simp add: validator_inv_def)
  moreover have "template_text v fs' sid = Some data" using eff by simp
  ultimately show thesis using LoadTemplate_loads [of ?v fs' L F sid v'] that by auto
qed

lemma distinct_dir_children: "distinct (map fst (dir_children fs d))"
proof -
  let ?qs = "filter (\<lambda>q. snd q \<noteq> [] \<and> parent q = d) (remdups (map fst fs))"
  have eq: "map fst (dir_children fs d) = map (\<lambda>q. last (snd q)) ?qs"
  proof -
    have gen: "map fst (concat (map (\<lambda>q. if P q then [(f q, g q)] else []) xs)) = map f (filter P xs)"
      for P and f :: "path \<Rightarrow> string" and g :: "path \<Rightarrow> node" and xs
      by (induction xs) auto
    show ?thesis unfolding dir_children_def by (rule gen)
  qed
  have "q = child d (last (snd q))" if "snd q \<noteq> []" "parent q = d" for q
    using that by (cases q) (auto simp: parent_def child_def)
  then have "inj_on (\<lambda>q. last (snd q)) (set ?qs)" by (intro inj_onI) (metis (mono_tags, lifting) mem_Collect_eq set_filter)
  then show ?thesis unfolding eq distinct_map by simp
qed

lemma path_Ext_json: "path_Ext name = ''.json'' \<longleftrightarrow> HasSuffix name ''.json''"
proof
  assume e: "path_Ext name = ''.json''"
  let ?r = "takeWhile (\<lambda>c. c \<noteq> CHR ''.'' \<and> c \<noteq> slash) (rev name)"
  obtain c rest where d: "drop (length ?r) (rev name) = c # rest" "c = CHR ''.''" "rev ?r = ''json''"
    using e by (auto simp: path_Ext_def Let_def split: list.splits if_splits)
  have "rev name = ?r @ c # rest" using d(1) by (metis append_take_drop_id takeWhile_eq_take)
  then have "name = rev rest @ c # rev ?r" by (metis append.assoc append_Cons append_Nil rev.simps(2) rev_append rev_rev_ident)
  with d(2,3) show "HasSuffix name ''.json''" by (simp add: HasSuffix_iff suffix_def)
next
  assume "HasSuffix name ''.json''"
  then obtain x where "name = x @ ''.json''" by (auto simp: HasSuffix_iff suffix_def)
  then show "path_Ext name = ''.json''" by (simp add: path_Ext_def Let_def)
qed

lemma ListAvailableTemplates_entry:
  assumes inv: "validator_inv v fs"
  shows "\<exists>ids. ListAvailableTemplates no_faults v fs = Inr ids \<and> distinct ids \<and>
    set ids = {sid. template_text v fs sid \<noteq> None}"
proof -
  let ?d = "resolve (v_templatesPath v)"
  have d: "plain_dir ?d fs" "is_dir fs ?d" using inv by (simp_all add: validator_inv_def plain_dir_def)
  define xs where "xs = filter (\<lambda>(name, n). n \<noteq> DirNode \<and> path_Ext name = ''.json'') (sort_key fst (dir_children fs ?d))"
  have cut: "path_Ext name = ''.json'' \<longleftrightarrow> name = take (length name - 5) name @ ''.json''" for name
    by (auto simp: path_Ext_json HasSuffix_iff suffix_def)
  have mem: "(name, n) \<in> set xs \<longleftrightarrow> n \<noteq> DirNode \<and> path_Ext name = ''.json'' \<and> node_at fs (child ?d name) = Some n" for name n
    by (auto simp: xs_def set_dir_children)
  let ?ids = "map (\<lambda>(name, n). take (length name - 5) name) xs"
  have "distinct (map fst xs)"
    unfolding xs_def by (intro distinct_map_filter) (simp add: distinct_map distinct_dir_children [unfolded distinct_map])
  moreover have "inj_on (\<lambda>(name, n). take (length name - 5) name) (set xs)"
  proof (rule inj_onI)
    fix x y assume "x \<in> set xs" "y \<in> set xs"
      "(\<lambda>(name, n). take (length name - 5) name) x = (\<lambda>(name, n). take (length name - 5) name) y"
    moreover obtain a m b n where xy: "x = (a, m)" "y = (b, n)" by (cases x, cases y)
    ultimately have ab: "(a, m) \<in> set xs" "(b, n) \<in> set xs" "take (length a - 5) a = take (length b - 5) b" by simp_all
    then have "path_Ext a = ''.json''" "path_Ext b = ''.json''" by (simp_all add: mem)
    then have "a = take (length a - 5) a @ ''.json''" "b = take (length b - 5) b @ ''.json''"
      by (simp_all only: cut [symmetric])
    with ab(3) have "a = b" by metis
    with ab(1,2) show "x = y" by (simp add: xy mem)
  qed
  ultimately have "distinct ?ids" by (simp add: distinct_map)
  moreover have "set ?ids = {sid. template_text v fs sid \<noteq> None}"
  proof (intro set_eqI iffI)
    fix sid assume "sid \<in> set ?ids"
    then obtain name n where "(name, n) \<in> set xs" "sid = take (length name - 5) name" by auto
    then have "path_Ext name = ''.json''" and n: "node_at fs (child ?d name) = Some n" by (simp_all add: mem)
    then have "name = take (length name - 5) name @ ''.json''" by (simp only: cut [symmetric])
    then have "node_at fs (child ?d (sid @ ''.json'')) = Some n" using n \<open>sid = _\<close> by metis
    then show "sid \<in> {sid. template_text v fs sid \<noteq> None}" by (auto simp: node_at_child [OF d(1)])
  next
    fix sid assume "sid \<in> {sid. template_text v fs sid \<noteq> None}"
    then obtain b where "template_text v fs sid = Some b" by auto
    then have "(sid @ ''.json'', FileNode b) \<in> set xs" using mem cut node_at_child [OF d(1)] by simp
    then show "sid \<in> set ?ids" by (force simp: image_iff)
  qed
  moreover have "ListAvailableTemplates no_faults v fs = Inr ?ids"
    using d by (simp add: ListAvailableTemplates_def os_ReadDir_def xs_def)
  ultimately show ?thesis by blast
qed

section \<open>Properties\<close>

text \<open>
  A saved template is the one in force: when SaveTemplate reports success, under any fault
  plan, the template file holds exactly the given bytes, the other templates are unchanged, the
  id is listed, and from then on this validator checks every document against the schema
  compiled from those bytes, whatever happens to the file later.
\<close>

theorem saved_template_in_force:
  assumes "validator_inv v fs" and "SaveTemplate L F v sid data fs = (fs', v', None)"
  shows "GetTemplateData no_faults v' sid fs' = Inr data \<and>
    (\<forall>sid'. sid' \<noteq> sid \<longrightarrow> template_text v fs' sid' = template_text v fs sid' \<and> v_schemas v' sid' = v_schemas v sid') \<and>
    (\<exists>ids. ListAvailableTemplates no_faults v' fs' = Inr ids \<and> sid \<in> set ids) \<and>
    (\<exists>s. sl_compile L data = Inr s \<and>
      (\<forall>F2 fs2 doc. doc \<noteq> [] \<longrightarrow> Validate L F2 v' sid doc fs2 = (v', validate_with L (Some s) doc)))"
proof -
  note eff = SaveTemplate_effect [OF assms]
  have sid: "isValidSchemaID sid" and inv': "validator_inv v fs'" using eff by simp_all
  have tx: "template_text v fs' sid = Some data" using eff by simp
  obtain s where s: "sl_compile L data = Inr s" and v': "v' = v\<lparr>v_schemas := (v_schemas v)(sid \<mapsto> s)\<rparr>"
    by (rule SaveTemplate_caches [OF assms])
  have pd: "plain_dir (resolve (v_templatesPath v)) fs'" and ne: "v_templatesPath v \<noteq> []"
    using inv' by (simp_all add: validator_inv_def)
  have "GetTemplateData no_faults v' sid fs' = Inr data"
    using sid pd template_paths [OF ne sid] tx
    by (simp add: GetTemplateData_def v' Let_def ReadFile_entry [where d = "resolve (v_templatesPath v)"])
  moreover have "template_text v fs' sid' = template_text v fs sid' \<and> v_schemas v' sid' = v_schemas v sid'" if "sid' \<noteq> sid" for sid'
    using eff that by (simp add: v')
  moreover have "\<exists>ids. ListAvailableTemplates no_faults v' fs' = Inr ids \<and> sid \<in> set ids"
    using ListAvailableTemplates_entry [of v' fs'] inv' tx by (auto simp: v' validator_inv_def)
  moreover have "Validate L F2 v' sid doc fs2 = (v', validate_with L (Some s) doc)" if "doc \<noteq> []" for F2 fs2 doc
    using that sid by (simp add: Validate_def v' isValidSchemaID_def split: if_splits)
  ultimately show ?thesis using s by blast
qed

section \<open>Where a cached schema comes from\<close>

text \<open>
  The life of a validator, with the states that the file system has gone through, the latest first.  Between the operations
  anybody may change the templates, as the Main Worker does for the validators of the Processing Workers; the directory stays one
  that holds files only.
\<close>

inductive validator_run :: "'s schema_lib \<Rightarrow> 's Validator \<Rightarrow> file_sys list \<Rightarrow> bool" for L where
  made: "NewValidator F path fs0 = (fs, Inr v) \<Longrightarrow> validator_inv v fs \<Longrightarrow> validator_run L v [fs]"
| outside: "validator_run L v (fs # h) \<Longrightarrow> validator_inv v fs' \<Longrightarrow> validator_run L v (fs' # fs # h)"
| loaded: "validator_run L v (fs # h) \<Longrightarrow> LoadTemplate L F v sid fs = (v', e) \<Longrightarrow> validator_run L v' (fs # h)"
| reloaded: "validator_run L v (fs # h) \<Longrightarrow> ReloadTemplate L F v sid fs = (v', e) \<Longrightarrow> validator_run L v' (fs # h)"
| validated: "validator_run L v (fs # h) \<Longrightarrow> Validate L F v sid doc fs = (v', r) \<Longrightarrow> validator_run L v' (fs # h)"
| saved: "validator_run L v (fs # h) \<Longrightarrow> SaveTemplate L F v sid data fs = (fs', v', e) \<Longrightarrow> validator_inv v fs' \<Longrightarrow> validator_run L v' (fs' # fs # h)"
| deleted: "validator_run L v (fs # h) \<Longrightarrow> DeleteTemplate F v sid fs = (fs', v', e) \<Longrightarrow> validator_inv v fs' \<Longrightarrow> validator_run L v' (fs' # fs # h)"

text \<open>Every cached schema was compiled from what the template of its id was at some moment.\<close>

definition schemas_from :: "'s schema_lib \<Rightarrow> file_sys list \<Rightarrow> 's Validator \<Rightarrow> bool" where
  "schemas_from L h v \<longleftrightarrow> (\<forall>sid s. v_schemas v sid = Some s \<longrightarrow>
     (\<exists>fs \<in> set h. \<exists>data. template_text v fs sid = Some data \<and> sl_compile L data = Inr s))"

lemma schemas_from_more: "schemas_from L h v \<Longrightarrow> schemas_from L (fs # h) v"
  unfolding schemas_from_def by (metis list.set_intros(2))

lemma schemas_from_forget: "schemas_from L h v \<Longrightarrow> schemas_from L h (v\<lparr>v_schemas := (v_schemas v)(sid := None)\<rparr>)"
  by (auto simp: schemas_from_def)

lemma LoadTemplate_from:
  assumes inv: "validator_inv v fs" and src: "schemas_from L (fs # h) v" and ld: "LoadTemplate L F v sid fs = (v', e)"
  shows "schemas_from L (fs # h) v' \<and> validator_inv v' fs"
proof (cases "e = None \<and> v_schemas v sid = None")
  case True
  with LoadTemplate_loads [OF inv, of L F sid v'] ld obtain data s where
    d: "template_text v fs sid = Some data" "sl_compile L data = Inr s" and v': "v' = v\<lparr>v_schemas := (v_schemas v)(sid \<mapsto> s)\<rparr>" by auto
  with src inv show ?thesis by (auto simp: schemas_from_def validator_inv_def)
next
  case False
  with ld have "v' = v" by (auto simp: LoadTemplate_def Let_def split: if_splits option.splits sum.splits)
  with inv src show ?thesis by simp
qed

lemma ReloadTemplate_from:
  assumes "validator_inv v fs" and "schemas_from L (fs # h) v" and "ReloadTemplate L F v sid fs = (v', e)"
  shows "schemas_from L (fs # h) v' \<and> validator_inv v' fs"
proof (cases "isValidSchemaID sid")
  case True
  let ?v = "v\<lparr>v_schemas := (v_schemas v)(sid := None)\<rparr>"
  have "validator_inv ?v fs" using assms(1) by (simp add: validator_inv_def)
  from LoadTemplate_from [OF this schemas_from_forget [OF assms(2)]] assms(3) True show ?thesis by (simp add: ReloadTemplate_def)
qed (use assms in \<open>simp add: ReloadTemplate_def\<close>)

lemma SaveTemplate_reloads:
  "SaveTemplate L F v sid data fs = (fs', v', e) \<Longrightarrow> v' = v \<or> ReloadTemplate L F v sid fs' = (v', e)"
  by (auto simp: SaveTemplate_def Let_def split: if_splits option.splits sum.splits prod.splits)

lemma validator_run_from:
  "validator_run L v h \<Longrightarrow> h \<noteq> [] \<and> validator_inv v (hd h) \<and> schemas_from L h v"
proof (induction rule: validator_run.induct)
  case (made F path fs0 fs v)
  then have "v_schemas v = Map.empty" by (auto simp: NewValidator_def Let_def split: if_splits prod.splits option.splits)
  with made show ?case by (simp add: schemas_from_def)
next
  case (outside v fs h fs')
  then show ?case by (simp add: schemas_from_more)
next
  case (loaded v fs h F sid v' e)
  with LoadTemplate_from [of v fs L h F sid v' e] show ?case by simp
next
  case (reloaded v fs h F sid v' e)
  with ReloadTemplate_from [of v fs L h F sid v' e] show ?case by simp
next
  case (validated v fs h F sid doc v' r)
  then have "v' = v \<or> (\<exists>e. LoadTemplate L F v sid fs = (v', e))"
    by (auto simp: Validate_def split: if_splits option.splits prod.splits)
  with validated LoadTemplate_from [of v fs L h F sid v'] show ?case by auto
next
  case (saved v fs h F sid data fs' v' e)
  then have "schemas_from L (fs' # fs # h) v" by (simp add: schemas_from_more)
  with saved SaveTemplate_reloads [OF saved(2)] ReloadTemplate_from [of v fs' L "fs # h" F sid v' e] show ?case by auto
next
  case (deleted v fs h F sid fs' v' e)
  then have "v' = v \<or> v' = v\<lparr>v_schemas := (v_schemas v)(sid := None)\<rparr>"
    by (auto simp: DeleteTemplate_def Let_def split: if_splits option.splits prod.splits)
  with deleted show ?case using schemas_from_more [of L "fs # h" v fs'] schemas_from_forget [of L "fs' # fs # h" v sid]
    by (auto simp: validator_inv_def)
qed

text \<open>
  C31. Validation fails closed: after any sequence of operations of a validator, mixed with changes of the template files by
  others and with any failing system calls, Validate reports a document as valid only if it is JSON and the schema library
  accepts it under a schema that was compiled from the text that the template file of that id had at some moment since the validator was
  made; when no schema was cached for the id, the text that it has now.  A template that is missing,
  unreadable or not a schema gives an error.
\<close>

theorem validation_fails_closed:
  assumes "validator_run L v (fs # h)" and "Validate L F v sid doc fs = (v', Inr r)" and "vr_Valid r"
  shows "sid \<noteq> [] \<and> doc \<noteq> [] \<and> sl_json_error L doc = None \<and>
    (\<exists>fs0 \<in> set (fs # h). \<exists>data s errs. template_text v fs0 sid = Some data \<and> sl_compile L data = Inr s \<and>
      v_schemas v' sid = Some s \<and> sl_check L s doc = Inr (True, errs) \<and> (v_schemas v sid = None \<longrightarrow> template_text v fs sid = Some data))"
proof -
  have ok: "sl_json_error L doc = None \<and> (\<exists>c errs. s = Some c \<and> sl_check L c doc = Inr (True, errs))"
    if "validate_with L s doc = Inr r" for s
    using that assms(3) by (auto simp: validate_with_def split: option.splits sum.splits prod.splits)
  have ne: "sid \<noteq> []" "doc \<noteq> []" using assms(2) by (auto simp: Validate_def split: if_splits)
  have inv: "validator_inv v fs" and src: "schemas_from L (fs # h) v" using validator_run_from [OF assms(1)] by simp_all
  show ?thesis
  proof (cases "v_schemas v sid")
    case (Some s)
    then have "validate_with L (Some s) doc = Inr r" and v': "v' = v" using assms(2) ne by (auto simp: Validate_def)
    with ok [of "Some s"] obtain errs where "sl_json_error L doc = None" "sl_check L s doc = Inr (True, errs)" by auto
    moreover obtain fs0 data where "fs0 \<in> set (fs # h)" "template_text v fs0 sid = Some data" "sl_compile L data = Inr s"
      using src Some unfolding schemas_from_def by blast
    ultimately show ?thesis using ne Some v' by (intro conjI) auto
  next
    case None
    then obtain v1 where ld: "LoadTemplate L F v sid fs = (v1, None)" and v': "v' = v1" "validate_with L (v_schemas v1 sid) doc = Inr r"
      using assms(2) ne by (auto simp: Validate_def split: prod.splits option.splits)
    from ok [OF v'(2)] LoadTemplate_loads [OF inv ld None] ne v'(1) show ?thesis by auto
  qed
qed

definition sample_lib :: "nat schema_lib" where
  "sample_lib = \<lparr>sl_json_error = (\<lambda>x. if x = [] then Some ''EOF'' else None), sl_compile = (\<lambda>x. Inr (length x)),
     sl_check = (\<lambda>n x. Inr (length x \<le> n, []))\<rparr>"

definition sample_validator :: "nat Validator" where
  "sample_validator = \<lparr>v_templatesPath = ''/t'', v_schemas = Map.empty\<rparr>"

lemma sample_validator_inv: "validator_inv sample_validator [((True, [''t'']), DirNode)]"
proof -
  have "resolve ''/t'' = (True, [''t''])" by code_simp
  then show ?thesis by (simp add: validator_inv_def sample_validator_def plain_dir_def is_dir_def child_def)
qed

theorem saved_template_in_force_witness:
  "\<exists>fs' v'. SaveTemplate sample_lib no_faults sample_validator ''chat'' ''{}'' [((True, [''t'']), DirNode)] = (fs', v', None) \<and>
     GetTemplateData no_faults v' ''chat'' fs' = Inr ''{}''"
proof -
  let ?r = "SaveTemplate sample_lib no_faults sample_validator ''chat'' ''{}'' [((True, [''t'']), DirNode)]"
  have "snd (snd ?r) = None" by code_simp
  then have r: "?r = (fst ?r, fst (snd ?r), None)" by (metis prod.collapse)
  from saved_template_in_force [OF sample_validator_inv r] have "GetTemplateData no_faults (fst (snd ?r)) ''chat'' (fst ?r) = Inr ''{}''"
    by (rule conjunct1)
  with r show ?thesis by (intro exI conjI)
qed

text \<open>A template is saved, a document is checked, others remove the file, and the document is checked again.\<close>

theorem validation_fails_closed_witness:
  "\<exists>v' r. Validate sample_lib no_faults (sample_validator\<lparr>v_schemas := [''chat'' \<mapsto> 2]\<rparr>) ''chat'' ''{}'' [((True, [''t'']), DirNode)] =
      (v', Inr r) \<and> vr_Valid r \<and>
     (\<exists>fs data. template_text sample_validator fs ''chat'' = Some data \<and> sl_compile sample_lib data = Inr 2)"
proof -
  let ?v = "sample_validator\<lparr>v_schemas := [''chat'' \<mapsto> 2]\<rparr>" and ?fs = "[((True, [''t'']), DirNode)]"
  let ?s = "SaveTemplate sample_lib no_faults sample_validator ''chat'' ''{}'' ?fs"
  have "os_Stat no_faults ''/t'' ?fs = None" by code_simp
  then have "NewValidator no_faults ''/t'' ?fs = (?fs, Inr sample_validator)" by (simp add: NewValidator_def sample_validator_def)
  then have made: "validator_run sample_lib sample_validator [?fs]" using sample_validator_inv by (rule validator_run.made)
  have "snd (snd ?s) = None" by code_simp
  then have sv: "?s = (fst ?s, fst (snd ?s), None)" by (metis prod.collapse)
  note eff = SaveTemplate_effect [OF sample_validator_inv sv]
  obtain n where "sl_compile sample_lib ''{}'' = Inr n" "fst (snd ?s) = sample_validator\<lparr>v_schemas := (v_schemas sample_validator)(''chat'' \<mapsto> n)\<rparr>"
    by (rule SaveTemplate_caches [OF sample_validator_inv sv])
  moreover from this(1) have "n = 2" by (simp add: sample_lib_def)
  ultimately have v: "fst (snd ?s) = ?v" by (simp add: sample_validator_def)
  have "validator_run sample_lib ?v [fst ?s, ?fs]"
    using validator_run.saved [OF made sv] eff v by simp
  then have run: "validator_run sample_lib ?v [?fs, fst ?s, ?fs]"
    by (rule validator_run.outside) (use sample_validator_inv in \<open>simp add: validator_inv_def\<close>)
  have val: "Validate sample_lib no_faults ?v ''chat'' ''{}'' ?fs = (?v, Inr \<lparr>vr_Valid = True, vr_Errors = []\<rparr>)"
    by (simp add: Validate_def validate_with_def sample_lib_def)
  from validation_fails_closed [OF run val] obtain fs data s where
    "template_text sample_validator fs ''chat'' = Some data" "sl_compile sample_lib data = Inr s" "v_schemas ?v ''chat'' = Some s" by auto
  with val show ?thesis by (intro exI [of _ ?v] exI [of _ "\<lparr>vr_Valid = True, vr_Errors = []\<rparr>"] conjI) auto
qed

end
