(* ===== verification/Aes_Gcm.thy ===== *)
theory Aes_Gcm
  imports Delta_Prelude
begin

unbundle bit_operations_syntax

text \<open>
  AES in Galois/Counter mode with a 12-byte nonce, a 16-byte tag and no additional data, the form
  in which the program uses crypto/aes and crypto/cipher (FIPS 197 and NIST SP 800-38D).  Blocks
  are lists of 16 bytes in the block cipher and words of 128 bits in the mode.  Evaluated, the
  definitions give the published vectors (FIPS 197 appendix C.1 and test cases 1, 2 and 14 of
  the GCM specification); the proofs use only their shape: the text is combined with a key stream
  by exclusive or, and the tag is a function of key, nonce and ciphertext.
\<close>

type_synonym byte = "8 word"

section \<open>The block cipher\<close>

definition sbox_table :: "byte list" where
  "sbox_table = [
   0x63, 0x7c, 0x77, 0x7b, 0xf2, 0x6b, 0x6f, 0xc5, 0x30, 0x01, 0x67, 0x2b, 0xfe, 0xd7, 0xab, 0x76,
   0xca, 0x82, 0xc9, 0x7d, 0xfa, 0x59, 0x47, 0xf0, 0xad, 0xd4, 0xa2, 0xaf, 0x9c, 0xa4, 0x72, 0xc0,
   0xb7, 0xfd, 0x93, 0x26, 0x36, 0x3f, 0xf7, 0xcc, 0x34, 0xa5, 0xe5, 0xf1, 0x71, 0xd8, 0x31, 0x15,
   0x04, 0xc7, 0x23, 0xc3, 0x18, 0x96, 0x05, 0x9a, 0x07, 0x12, 0x80, 0xe2, 0xeb, 0x27, 0xb2, 0x75,
   0x09, 0x83, 0x2c, 0x1a, 0x1b, 0x6e, 0x5a, 0xa0, 0x52, 0x3b, 0xd6, 0xb3, 0x29, 0xe3, 0x2f, 0x84,
   0x53, 0xd1, 0x00, 0xed, 0x20, 0xfc, 0xb1, 0x5b, 0x6a, 0xcb, 0xbe, 0x39, 0x4a, 0x4c, 0x58, 0xcf,
   0xd0, 0xef, 0xaa, 0xfb, 0x43, 0x4d, 0x33, 0x85, 0x45, 0xf9, 0x02, 0x7f, 0x50, 0x3c, 0x9f, 0xa8,
   0x51, 0xa3, 0x40, 0x8f, 0x92, 0x9d, 0x38, 0xf5, 0xbc, 0xb6, 0xda, 0x21, 0x10, 0xff, 0xf3, 0xd2,
   0xcd, 0x0c, 0x13, 0xec, 0x5f, 0x97, 0x44, 0x17, 0xc4, 0xa7, 0x7e, 0x3d, 0x64, 0x5d, 0x19, 0x73,
   0x60, 0x81, 0x4f, 0xdc, 0x22, 0x2a, 0x90, 0x88, 0x46, 0xee, 0xb8, 0x14, 0xde, 0x5e, 0x0b, 0xdb,
   0xe0, 0x32, 0x3a, 0x0a, 0x49, 0x06, 0x24, 0x5c, 0xc2, 0xd3, 0xac, 0x62, 0x91, 0x95, 0xe4, 0x79,
   0xe7, 0xc8, 0x37, 0x6d, 0x8d, 0xd5, 0x4e, 0xa9, 0x6c, 0x56, 0xf4, 0xea, 0x65, 0x7a, 0xae, 0x08,
   0xba, 0x78, 0x25, 0x2e, 0x1c, 0xa6, 0xb4, 0xc6, 0xe8, 0xdd, 0x74, 0x1f, 0x4b, 0xbd, 0x8b, 0x8a,
   0x70, 0x3e, 0xb5, 0x66, 0x48, 0x03, 0xf6, 0x0e, 0x61, 0x35, 0x57, 0xb9, 0x86, 0xc1, 0x1d, 0x9e,
   0xe1, 0xf8, 0x98, 0x11, 0x69, 0xd9, 0x8e, 0x94, 0x9b, 0x1e, 0x87, 0xe9, 0xce, 0x55, 0x28, 0xdf,
   0x8c, 0xa1, 0x89, 0x0d, 0xbf, 0xe6, 0x42, 0x68, 0x41, 0x99, 0x2d, 0x0f, 0xb0, 0x54, 0xbb, 0x16]"

definition sbox :: "byte \<Rightarrow> byte" where
  "sbox b = sbox_table ! unat b"

definition xtime :: "byte \<Rightarrow> byte" where
  "xtime b = (if bit b 7 then push_bit 1 b XOR 0x1b else push_bit 1 b)"

definition xor_bytes :: "byte list \<Rightarrow> byte list \<Rightarrow> byte list" where
  "xor_bytes xs ys = map2 (XOR) xs ys"

fun chunks :: "nat \<Rightarrow> 'a list \<Rightarrow> 'a list list" where
  "chunks n xs = (if n = 0 \<or> xs = [] then [] else take n xs # chunks n (drop n xs))"

declare chunks.simps [simp del]

text \<open>
  The key schedule: words of four bytes.  \<open>key_words nk i ws rcon\<close> extends the reversed list of
  the words so far, word number i being the next one.
\<close>

definition schedule_step :: "nat \<Rightarrow> nat \<Rightarrow> byte list list \<Rightarrow> byte \<Rightarrow> byte list list \<times> byte" where
  "schedule_step nk i ws rcon =
     (let prev = ws ! 0;
          t = (if i mod nk = 0
               then xor_bytes (map sbox (tl prev @ [hd prev])) [rcon, 0, 0, 0]
               else if 6 < nk \<and> i mod nk = 4 then map sbox prev
               else prev)
      in (xor_bytes (ws ! (nk - 1)) t # ws, if i mod nk = 0 then xtime rcon else rcon))"

fun key_words :: "nat \<Rightarrow> nat \<Rightarrow> nat \<Rightarrow> byte list list \<Rightarrow> byte \<Rightarrow> byte list list" where
  "key_words nk 0 i ws rcon = ws"
| "key_words nk (Suc n) i ws rcon =
     (let (ws', rcon') = schedule_step nk i ws rcon in key_words nk n (Suc i) ws' rcon')"

definition round_keys :: "byte list \<Rightarrow> byte list list" where
  "round_keys key =
     (let nk = length key div 4;
          total = 4 * (nk + 7)
      in chunks 16 (concat (rev (key_words nk (total - nk) nk (rev (chunks 4 key)) 1))))"

definition ShiftRows :: "byte list \<Rightarrow> byte list" where
  "ShiftRows s = map (\<lambda>i. s ! i) [0, 5, 10, 15, 4, 9, 14, 3, 8, 13, 2, 7, 12, 1, 6, 11]"

definition mix_column :: "byte list \<Rightarrow> byte list" where
  "mix_column col =
     (let a = col ! 0; b = col ! 1; c = col ! 2; d = col ! 3 in
      [xtime a XOR (xtime b XOR b) XOR c XOR d,
       a XOR xtime b XOR (xtime c XOR c) XOR d,
       a XOR b XOR xtime c XOR (xtime d XOR d),
       (xtime a XOR a) XOR b XOR c XOR xtime d])"

definition MixColumns :: "byte list \<Rightarrow> byte list" where
  "MixColumns s = concat (map mix_column (chunks 4 s))"

fun aes_rounds :: "byte list list \<Rightarrow> byte list \<Rightarrow> byte list" where
  "aes_rounds [] s = s"
| "aes_rounds [k] s = xor_bytes (ShiftRows (map sbox s)) k"
| "aes_rounds (k # ks) s = aes_rounds ks (xor_bytes (MixColumns (ShiftRows (map sbox s))) k)"

definition aes_block :: "byte list \<Rightarrow> byte list \<Rightarrow> byte list" where
  "aes_block key blk = (case round_keys key of [] \<Rightarrow> blk | k0 # ks \<Rightarrow> aes_rounds ks (xor_bytes blk k0))"

section \<open>Galois/Counter mode\<close>

type_synonym block = "128 word"

definition block_of :: "byte list \<Rightarrow> block" where
  "block_of bs = foldl (\<lambda>a b. push_bit 8 a OR ucast b) 0 bs"

definition bytes_of :: "block \<Rightarrow> byte list" where
  "bytes_of w = map (\<lambda>i. ucast (drop_bit (8 * (15 - i)) w)) [0..<16]"

text \<open>Multiplication in GF(2^128), bits numbered from the most significant one.\<close>

fun gf_mul_loop :: "nat \<Rightarrow> block \<Rightarrow> block \<Rightarrow> block \<Rightarrow> block" where
  "gf_mul_loop 0 x v z = z"
| "gf_mul_loop (Suc i) x v z =
     gf_mul_loop i x (if bit v 0 then drop_bit 1 v XOR push_bit 120 0xe1 else drop_bit 1 v)
       (if bit x i then z XOR v else z)"

definition gf_mul :: "block \<Rightarrow> block \<Rightarrow> block" where
  "gf_mul x y = gf_mul_loop 128 x y 0"

definition pad16 :: "byte list \<Rightarrow> byte list" where
  "pad16 bs = bs @ replicate (16 - length bs) 0"

definition ghash :: "block \<Rightarrow> byte list \<Rightarrow> block" where
  "ghash h c =
     (let blocks = map (\<lambda>b. block_of (pad16 b)) (chunks 16 c) @ [of_nat (8 * length c)]
      in foldl (\<lambda>y x. gf_mul (y XOR x) h) 0 blocks)"

definition inc32 :: "block \<Rightarrow> block" where
  "inc32 w = (w AND NOT (mask 32)) OR ((w + 1) AND mask 32)"

fun ctr_stream :: "byte list \<Rightarrow> block \<Rightarrow> nat \<Rightarrow> byte list" where
  "ctr_stream key ctr 0 = []"
| "ctr_stream key ctr (Suc n) = aes_block key (bytes_of ctr) @ ctr_stream key (inc32 ctr) n"

text \<open>The key stream is as long as the text rounded up to blocks; a byte without key byte would stay.\<close>

fun xor_stream :: "byte list \<Rightarrow> byte list \<Rightarrow> byte list" where
  "xor_stream [] ks = []"
| "xor_stream (x # xs) [] = x # xs"
| "xor_stream (x # xs) (k # ks) = (x XOR k) # xor_stream xs ks"

definition gctr :: "byte list \<Rightarrow> block \<Rightarrow> byte list \<Rightarrow> byte list" where
  "gctr key ctr xs = xor_stream xs (ctr_stream key ctr ((length xs + 15) div 16))"

definition gcm_j0 :: "byte list \<Rightarrow> block" where
  "gcm_j0 nonce = block_of (nonce @ [0, 0, 0, 1])"

definition gcm_tag :: "byte list \<Rightarrow> byte list \<Rightarrow> byte list \<Rightarrow> byte list" where
  "gcm_tag key nonce c =
     (let h = block_of (aes_block key (replicate 16 0));
          e = block_of (aes_block key (bytes_of (gcm_j0 nonce)))
      in bytes_of (e XOR ghash h c))"

definition gcm_encrypt :: "byte list \<Rightarrow> byte list \<Rightarrow> byte list \<Rightarrow> byte list" where
  "gcm_encrypt key nonce p =
     (let c = gctr key (inc32 (gcm_j0 nonce)) p in c @ gcm_tag key nonce c)"

definition gcm_decrypt :: "byte list \<Rightarrow> byte list \<Rightarrow> byte list \<Rightarrow> byte list option" where
  "gcm_decrypt key nonce ct =
     (if length ct < 16 then None
      else let c = take (length ct - 16) ct; t = drop (length ct - 16) ct in
        if t = gcm_tag key nonce c then Some (gctr key (inc32 (gcm_j0 nonce)) c) else None)"

section \<open>On strings\<close>

definition to_bytes :: "bytes \<Rightarrow> byte list" where
  "to_bytes s = map (\<lambda>c. word_of_nat (of_char c)) s"

definition of_bytes :: "byte list \<Rightarrow> bytes" where
  "of_bytes bs = map (\<lambda>b. char_of (unat b)) bs"

definition gcm_Seal :: "bytes \<Rightarrow> bytes \<Rightarrow> bytes \<Rightarrow> bytes" where
  "gcm_Seal key nonce p = of_bytes (gcm_encrypt (to_bytes key) (to_bytes nonce) (to_bytes p))"

definition gcm_Open :: "bytes \<Rightarrow> bytes \<Rightarrow> bytes \<Rightarrow> bytes option" where
  "gcm_Open key nonce ct = map_option of_bytes (gcm_decrypt (to_bytes key) (to_bytes nonce) (to_bytes ct))"

section \<open>Opening inverts sealing\<close>

lemma length_xor_stream [simp]: "length (xor_stream xs ks) = length xs"
  by (induction xs ks rule: xor_stream.induct) auto

lemma xor_stream_twice [simp]: "xor_stream (xor_stream xs ks) ks = xs"
  by (induction xs ks rule: xor_stream.induct) (auto simp flip: xor.assoc [where 'a = byte] simp: xor.assoc)

lemma gctr_twice [simp]: "gctr key ctr (gctr key ctr xs) = xs"
  by (simp add: gctr_def)

lemma length_gctr [simp]: "length (gctr key ctr xs) = length xs"
  by (simp add: gctr_def)

lemma length_gcm_tag [simp]: "length (gcm_tag key nonce c) = 16"
  by (simp add: gcm_tag_def Let_def bytes_of_def)

lemma gcm_decrypt_iff: "gcm_decrypt key nonce ct = Some p \<longleftrightarrow> ct = gcm_encrypt key nonce p"
proof
  assume d: "gcm_decrypt key nonce ct = Some p"
  let ?c = "take (length ct - 16) ct" and ?t = "drop (length ct - 16) ct"
  from d have "?t = gcm_tag key nonce ?c" and "p = gctr key (inc32 (gcm_j0 nonce)) ?c"
    by (auto simp: gcm_decrypt_def Let_def split: if_splits)
  then have "gcm_encrypt key nonce p = ?c @ ?t" by (simp add: gcm_encrypt_def Let_def)
  then show "ct = gcm_encrypt key nonce p" by simp
next
  assume "ct = gcm_encrypt key nonce p"
  then show "gcm_decrypt key nonce ct = Some p" by (simp add: gcm_decrypt_def gcm_encrypt_def Let_def)
qed

lemma of_to_bytes [simp]: "of_bytes (to_bytes s) = s"
proof -
  have "char_of (unat (word_of_nat (of_char c) :: byte)) = c" for c
    by (simp add: unat_of_nat)
  then show ?thesis by (simp add: of_bytes_def to_bytes_def map_idI)
qed

lemma to_of_bytes [simp]: "to_bytes (of_bytes bs) = bs"
proof -
  have "unat b < 2 ^ LENGTH(8)" for b :: byte by (rule unsigned_less)
  then have "unat b mod 256 = unat b" for b :: byte by simp
  then show ?thesis by (simp add: of_bytes_def to_bytes_def map_idI)
qed

lemma length_to_bytes [simp]: "length (to_bytes s) = length s"
  by (simp add: to_bytes_def)

lemma length_of_bytes [simp]: "length (of_bytes bs) = length bs"
  by (simp add: of_bytes_def)

lemma gcm_Open_iff: "gcm_Open key nonce ct = Some p \<longleftrightarrow> ct = gcm_Seal key nonce p"
proof -
  have "gcm_Open key nonce ct = Some p \<longleftrightarrow> gcm_decrypt (to_bytes key) (to_bytes nonce) (to_bytes ct) = Some (to_bytes p)"
    by (auto simp: gcm_Open_def)
  also have "\<dots> \<longleftrightarrow> to_bytes ct = to_bytes (gcm_Seal key nonce p)"
    by (simp add: gcm_decrypt_iff gcm_Seal_def)
  also have "\<dots> \<longleftrightarrow> ct = gcm_Seal key nonce p" by (metis of_to_bytes)
  finally show ?thesis .
qed

lemma length_gcm_Seal [simp]: "length (gcm_Seal key nonce p) = length p + 16"
  by (simp add: gcm_Seal_def gcm_encrypt_def Let_def)

end
