(* ===== verification/Aead_Crypto.thy ===== *)
theory Aead_Crypto
  imports Aes_Gcm
begin

text \<open>
  pkg/crypto: authenticated encryption of payloads (aes_gcm.go) and the wrapping of the data key
  for a Processing Worker (key_wrap.go).  The AEAD is an argument with its two functions; the
  locale \<open>gcm_cipher\<close> states what the code relies on and is interpreted on AES-GCM as defined in
  Aes_Gcm.  RSA-OAEP, the DER encodings of keys and PEM are an argument record, and what the code
  relies on is the predicate \<open>rsa_laws\<close>.  Random bytes are arguments, None standing for a
  failing source.
\<close>

definition NonceSize :: nat where
  "NonceSize = 12"

definition gcm_overhead :: nat where
  "gcm_overhead = 16"

datatype crypto_error =
    ErrInvalidKeySize
  | ErrEncryptionFailed
  | ErrDecryptionFailed
  | ErrInvalidNonceSize
  | KeyGenerationFailed
  | ErrInvalidPublicKey
  | ErrInvalidPrivateKey
  | ErrKeyWrapFailed
  | ErrKeyUnwrapFailed
  | ErrInvalidPEMBlock
  | KeySizeTooSmall
  | KeyPairFailed
  | KeyMarshalFailed
  | KeyParseFailed

record EncryptResult =
  er_Ciphertext :: bytes
  er_Nonce :: bytes
  er_Tag :: bytes

record aead =
  aead_seal :: "bytes \<Rightarrow> bytes \<Rightarrow> bytes \<Rightarrow> bytes"
  aead_open :: "bytes \<Rightarrow> bytes \<Rightarrow> bytes \<Rightarrow> bytes option"

definition valid_key_size :: "bytes \<Rightarrow> bool" where
  "valid_key_size key \<longleftrightarrow> length key = 16 \<or> length key = 24 \<or> length key = 32"

section \<open>Payload encryption\<close>

text \<open>\<open>aes.NewCipher\<close> fails only for key sizes that are refused before, and \<open>cipher.NewGCM\<close> never on an AES cipher.\<close>

definition Encrypt :: "aead \<Rightarrow> bytes option \<Rightarrow> bytes \<Rightarrow> bytes \<Rightarrow> crypto_error + EncryptResult" where
  "Encrypt A random key plaintext =
     (if \<not> valid_key_size key then Inl ErrInvalidKeySize
      else case random of
             None \<Rightarrow> Inl ErrEncryptionFailed
           | Some nonce \<Rightarrow>
               let ciphertextWithTag = aead_seal A key nonce plaintext;
                   n = length ciphertextWithTag
               in if n < gcm_overhead then Inl ErrEncryptionFailed
                  else Inr \<lparr>er_Ciphertext = take (n - gcm_overhead) ciphertextWithTag, er_Nonce = nonce,
                            er_Tag = drop (n - gcm_overhead) ciphertextWithTag\<rparr>)"

definition Decrypt :: "aead \<Rightarrow> bytes \<Rightarrow> bytes \<Rightarrow> bytes \<Rightarrow> bytes \<Rightarrow> crypto_error + bytes" where
  "Decrypt A key ciphertext nonce tag =
     (if \<not> valid_key_size key then Inl ErrInvalidKeySize
      else if length nonce \<noteq> NonceSize then Inl ErrInvalidNonceSize
      else if length tag \<noteq> gcm_overhead then Inl ErrDecryptionFailed
      else case aead_open A key nonce (ciphertext @ tag) of
             None \<Rightarrow> Inl ErrDecryptionFailed
           | Some plaintext \<Rightarrow> Inr plaintext)"

definition GenerateKey :: "(nat \<Rightarrow> bytes option) \<Rightarrow> int \<Rightarrow> crypto_error + bytes" where
  "GenerateKey random keySize =
     (if keySize \<noteq> 16 \<and> keySize \<noteq> 24 \<and> keySize \<noteq> 32 then Inl ErrInvalidKeySize
      else case random (nat keySize) of None \<Rightarrow> Inl KeyGenerationFailed | Some key \<Rightarrow> Inr key)"

section \<open>Key wrapping\<close>

text \<open>
  The functions of crypto/rsa, crypto/x509 and encoding/pem that the code calls, on public keys
  \<open>'p\<close> and private keys \<open>'k\<close>.  \<open>rs_encrypt\<close> takes the random bytes it consumes; \<open>rs_parse_pub\<close> is
  \<open>x509.ParsePKIXPublicKey\<close>, which can return a key of another kind (\<open>Some None\<close>).
\<close>

record ('p, 'k) rsa_lib =
  rs_encrypt :: "bytes \<Rightarrow> 'p \<Rightarrow> bytes \<Rightarrow> bytes option"
  rs_decrypt :: "'k \<Rightarrow> bytes \<Rightarrow> bytes option"
  rs_generate :: "bytes \<Rightarrow> int \<Rightarrow> 'k option"
  rs_public :: "'k \<Rightarrow> 'p"
  rs_marshal_pub :: "'p \<Rightarrow> bytes option"
  rs_parse_pub :: "bytes \<Rightarrow> 'p option option"
  rs_marshal_priv :: "'k \<Rightarrow> bytes"
  rs_parse_priv :: "bytes \<Rightarrow> 'k option"
  pem_encode :: "string \<Rightarrow> bytes \<Rightarrow> bytes"
  pem_decode :: "bytes \<Rightarrow> bytes option"

definition WrapKey :: "('p, 'k) rsa_lib \<Rightarrow> bytes \<Rightarrow> 'p option \<Rightarrow> bytes \<Rightarrow> crypto_error + bytes" where
  "WrapKey R random publicKey keyToWrap =
     (case publicKey of
        None \<Rightarrow> Inl ErrInvalidPublicKey
      | Some pk \<Rightarrow> (case rs_encrypt R random pk keyToWrap of None \<Rightarrow> Inl ErrKeyWrapFailed | Some w \<Rightarrow> Inr w))"

definition UnwrapKey :: "('p, 'k) rsa_lib \<Rightarrow> 'k option \<Rightarrow> bytes \<Rightarrow> crypto_error + bytes" where
  "UnwrapKey R privateKey wrappedKey =
     (case privateKey of
        None \<Rightarrow> Inl ErrInvalidPrivateKey
      | Some sk \<Rightarrow> (case rs_decrypt R sk wrappedKey of None \<Rightarrow> Inl ErrKeyUnwrapFailed | Some k \<Rightarrow> Inr k))"

definition GenerateRSAKeyPair :: "('p, 'k) rsa_lib \<Rightarrow> bytes \<Rightarrow> int \<Rightarrow> crypto_error + 'k \<times> 'p" where
  "GenerateRSAKeyPair R random bits =
     (if bits < 2048 then Inl KeySizeTooSmall
      else case rs_generate R random bits of
             None \<Rightarrow> Inl KeyPairFailed
           | Some sk \<Rightarrow> Inr (sk, rs_public R sk))"

definition MarshalPublicKeyToPEM :: "('p, 'k) rsa_lib \<Rightarrow> 'p option \<Rightarrow> crypto_error + bytes" where
  "MarshalPublicKeyToPEM R publicKey =
     (case publicKey of
        None \<Rightarrow> Inl ErrInvalidPublicKey
      | Some pk \<Rightarrow>
          (case rs_marshal_pub R pk of
             None \<Rightarrow> Inl KeyMarshalFailed
           | Some der \<Rightarrow> Inr (pem_encode R ''PUBLIC KEY'' der)))"

definition ParsePublicKeyFromPEM :: "('p, 'k) rsa_lib \<Rightarrow> bytes \<Rightarrow> crypto_error + 'p" where
  "ParsePublicKeyFromPEM R pemData =
     (case pem_decode R pemData of
        None \<Rightarrow> Inl ErrInvalidPEMBlock
      | Some der \<Rightarrow>
          (case rs_parse_pub R der of
             None \<Rightarrow> Inl KeyParseFailed
           | Some None \<Rightarrow> Inl ErrInvalidPublicKey
           | Some (Some pk) \<Rightarrow> Inr pk))"

definition MarshalPrivateKeyToPEM :: "('p, 'k) rsa_lib \<Rightarrow> 'k option \<Rightarrow> crypto_error + bytes" where
  "MarshalPrivateKeyToPEM R privateKey =
     (case privateKey of
        None \<Rightarrow> Inl ErrInvalidPrivateKey
      | Some sk \<Rightarrow> Inr (pem_encode R ''RSA PRIVATE KEY'' (rs_marshal_priv R sk)))"

definition ParsePrivateKeyFromPEM :: "('p, 'k) rsa_lib \<Rightarrow> bytes \<Rightarrow> crypto_error + 'k" where
  "ParsePrivateKeyFromPEM R pemData =
     (case pem_decode R pemData of
        None \<Rightarrow> Inl ErrInvalidPEMBlock
      | Some der \<Rightarrow> (case rs_parse_priv R der of None \<Rightarrow> Inl KeyParseFailed | Some sk \<Rightarrow> Inr sk))"

section \<open>What the code relies on\<close>

text \<open>
  The contract of GCM: a ciphertext opens to a plaintext exactly when it is the sealing of that
  plaintext under the same key and nonce, and sealing adds the tag.
\<close>

locale gcm_cipher =
  fixes A :: aead
  assumes open_iff: "valid_key_size key \<Longrightarrow> length nonce = NonceSize \<Longrightarrow>
      aead_open A key nonce ct = Some p \<longleftrightarrow> ct = aead_seal A key nonce p"
    and seal_length: "valid_key_size key \<Longrightarrow> length nonce = NonceSize \<Longrightarrow>
      length (aead_seal A key nonce p) = length p + gcm_overhead"
    and seal_text: "valid_key_size key \<Longrightarrow> length nonce = NonceSize \<Longrightarrow> length p = length q \<Longrightarrow>
      take (length p) (aead_seal A key nonce p) = take (length q) (aead_seal A key nonce q) \<Longrightarrow> p = q"
begin

lemma Encrypt_parts:
  assumes "Encrypt A (Some nonce) key p = Inr r" and "length nonce = NonceSize"
  shows "valid_key_size key \<and> er_Nonce r = nonce \<and> length (er_Tag r) = gcm_overhead \<and>
    length (er_Ciphertext r) = length p \<and> er_Ciphertext r @ er_Tag r = aead_seal A key nonce p"
  using assms seal_length [of key nonce p] by (auto simp: Encrypt_def Let_def split: if_splits)

lemma Encrypt_succeeds:
  "valid_key_size key \<Longrightarrow> length nonce = NonceSize \<Longrightarrow> \<exists>r. Encrypt A (Some nonce) key p = Inr r"
  using seal_length [of key nonce p] by (simp add: Encrypt_def Let_def)

lemma Decrypt_iff:
  "Decrypt A key c nonce tag = Inr p \<longleftrightarrow>
    valid_key_size key \<and> length nonce = NonceSize \<and> length tag = gcm_overhead \<and> c @ tag = aead_seal A key nonce p"
proof (cases "valid_key_size key \<and> length nonce = NonceSize \<and> length tag = gcm_overhead")
  case True
  then have "Decrypt A key c nonce tag = Inr p \<longleftrightarrow> aead_open A key nonce (c @ tag) = Some p"
    by (auto simp: Decrypt_def split: option.splits)
  with True open_iff show ?thesis by simp
next
  case False
  then show ?thesis by (auto simp: Decrypt_def)
qed

lemma decrypt_encrypt:
  assumes "Encrypt A (Some nonce) key p = Inr r" and "length nonce = NonceSize"
  shows "Decrypt A key (er_Ciphertext r) (er_Nonce r) (er_Tag r) = Inr p"
  using Encrypt_parts [OF assms] assms(2) by (simp add: Decrypt_iff)

text \<open>Decrypt opens only what Encrypt makes with the same key and nonce.\<close>

lemma Decrypt_sealed:
  "Decrypt A key c nonce tag = Inr p \<longleftrightarrow>
    length nonce = NonceSize \<and> Encrypt A (Some nonce) key p = Inr \<lparr>er_Ciphertext = c, er_Nonce = nonce, er_Tag = tag\<rparr>"
proof (cases "length nonce = NonceSize")
  case True
  show ?thesis
  proof
    assume "Decrypt A key c nonce tag = Inr p"
    then have d: "valid_key_size key" "length tag = gcm_overhead" "aead_seal A key nonce p = c @ tag" by (simp_all add: Decrypt_iff)
    then show "length nonce = NonceSize \<and> Encrypt A (Some nonce) key p = Inr \<lparr>er_Ciphertext = c, er_Nonce = nonce, er_Tag = tag\<rparr>"
      using True by (simp add: Encrypt_def Let_def)
  qed (auto dest: decrypt_encrypt)
qed (simp add: Decrypt_def)

text \<open>A changed ciphertext never decrypts to the original plaintext, nor a changed tag at all.\<close>

lemma tamper_ciphertext:
  assumes "Encrypt A (Some nonce) key p = Inr r" and "length nonce = NonceSize" and "c \<noteq> er_Ciphertext r"
  shows "Decrypt A key c nonce (er_Tag r) \<noteq> Inr p"
  using Encrypt_parts [OF assms(1,2)] assms(3) by (metis Decrypt_iff append_same_eq)

lemma tamper_tag:
  assumes enc: "Encrypt A (Some nonce) key p = Inr r" and n: "length nonce = NonceSize" and t: "t \<noteq> er_Tag r"
  shows "\<exists>e. Decrypt A key (er_Ciphertext r) nonce t = Inl e"
proof (cases "Decrypt A key (er_Ciphertext r) nonce t")
  case (Inr q)
  note parts = Encrypt_parts [OF enc n]
  from Inr have d: "length t = gcm_overhead" "er_Ciphertext r @ t = aead_seal A key nonce q" "valid_key_size key"
    by (simp_all add: Decrypt_iff)
  then have l: "length q = length p" using parts seal_length [OF d(3) n, of q] by (metis add_right_cancel length_append)
  have "take (length q) (aead_seal A key nonce q) = take (length p) (aead_seal A key nonce p)"
    using d(2) parts l by (metis append_eq_conv_conj)
  with seal_text [OF d(3) n l] have "q = p" by blast
  with d parts t show ?thesis by (metis same_append_eq)
qed simp

end

definition aes_gcm :: aead where
  "aes_gcm = \<lparr>aead_seal = gcm_Seal, aead_open = gcm_Open\<rparr>"

lemma gcm_Seal_text:
  assumes "length p = length q" and "take (length p) (gcm_Seal key nonce p) = take (length q) (gcm_Seal key nonce q)"
  shows "p = q"
proof -
  let ?g = "gctr (to_bytes key) (inc32 (gcm_j0 (to_bytes nonce)))"
  have "take (length x) (gcm_Seal key nonce x) = of_bytes (?g (to_bytes x))" for x
    by (simp add: gcm_Seal_def gcm_encrypt_def Let_def of_bytes_def)
  with assms(2) have "of_bytes (?g (to_bytes p)) = of_bytes (?g (to_bytes q))" by simp
  then show ?thesis by (metis gctr_twice of_to_bytes to_of_bytes)
qed

interpretation aes: gcm_cipher aes_gcm
  by unfold_locales
    (auto simp: aes_gcm_def gcm_Open_iff gcm_overhead_def intro: gcm_Seal_text)

text \<open>
  What the code relies on of RSA-OAEP and of the key encodings: decryption with the private key
  inverts encryption with its public key, and a public key survives its encoding.
\<close>

definition rsa_laws :: "('p, 'k) rsa_lib \<Rightarrow> bool" where
  "rsa_laws R \<longleftrightarrow>
     (\<forall>random sk m w. rs_encrypt R random (rs_public R sk) m = Some w \<longrightarrow> rs_decrypt R sk w = Some m) \<and>
     (\<forall>pk der. rs_marshal_pub R pk = Some der \<longrightarrow> rs_parse_pub R der = Some (Some pk)) \<and>
     (\<forall>ty der. pem_decode R (pem_encode R ty der) = Some der)"

lemma key_pem_roundtrip:
  assumes "rsa_laws R" and "MarshalPublicKeyToPEM R (Some pk) = Inr pem"
  shows "ParsePublicKeyFromPEM R pem = Inr pk"
  using assms by (auto simp: rsa_laws_def MarshalPublicKeyToPEM_def ParsePublicKeyFromPEM_def split: option.splits)

lemma unwrap_wrap:
  assumes "rsa_laws R" and "WrapKey R random (Some (rs_public R sk)) key = Inr w"
  shows "UnwrapKey R (Some sk) w = Inr key"
  using assms by (auto simp: rsa_laws_def WrapKey_def UnwrapKey_def split: option.splits)

section \<open>Properties\<close>

text \<open>
  C29. Encryption of payloads: with a key of 16, 24 or 32 bytes and a nonce of 12 bytes, Encrypt with
  AES-GCM succeeds, Decrypt of its result is the payload, a result with another tag is rejected,
  and no other ciphertext decrypts to the payload under that nonce and tag.  Whatever Decrypt opens, under any key and nonce, is exactly
  what Encrypt makes of the plaintext with that key and nonce: any other triple of ciphertext, nonce and tag is refused.
\<close>

theorem encrypt_decrypt_roundtrip:
  assumes "valid_key_size key" and "length nonce = NonceSize"
  shows "\<exists>r. Encrypt aes_gcm (Some nonce) key p = Inr r \<and>
    Decrypt aes_gcm key (er_Ciphertext r) (er_Nonce r) (er_Tag r) = Inr p \<and>
    (\<forall>t. t \<noteq> er_Tag r \<longrightarrow> (\<exists>e. Decrypt aes_gcm key (er_Ciphertext r) (er_Nonce r) t = Inl e)) \<and>
    (\<forall>c. c \<noteq> er_Ciphertext r \<longrightarrow> Decrypt aes_gcm key c (er_Nonce r) (er_Tag r) \<noteq> Inr p) \<and>
    (\<forall>k c n t q. Decrypt aes_gcm k c n t = Inr q \<longleftrightarrow>
      length n = NonceSize \<and> Encrypt aes_gcm (Some n) k q = Inr \<lparr>er_Ciphertext = c, er_Nonce = n, er_Tag = t\<rparr>)"
proof -
  obtain r where r: "Encrypt aes_gcm (Some nonce) key p = Inr r"
    using aes.Encrypt_succeeds [OF assms] by blast
  have "er_Nonce r = nonce" using aes.Encrypt_parts [OF r assms(2)] by simp
  with r aes.decrypt_encrypt [OF r assms(2)] aes.tamper_tag [OF r assms(2)] aes.tamper_ciphertext [OF r assms(2)]
  show ?thesis using aes.Decrypt_sealed by (intro exI [of _ r]) auto
qed

theorem encrypt_decrypt_roundtrip_witness:
  "\<exists>r. Encrypt aes_gcm (Some (replicate 12 CHR ''n'')) (replicate 32 CHR ''k'') ''{}'' = Inr r \<and>
     Decrypt aes_gcm (replicate 32 CHR ''k'') (er_Ciphertext r) (er_Nonce r) (er_Tag r) = Inr ''{}''"
  using encrypt_decrypt_roundtrip [of "replicate 32 CHR ''k''" "replicate 12 CHR ''n''" "''{}''"]
  by (simp only: valid_key_size_def NonceSize_def length_replicate HOL.simp_thms) blast

end
