(* ===== verification/Rpc_Messages.thy ===== *)
theory Rpc_Messages
  imports Delta_Prelude
begin

text \<open>
  The messages of api/proto/worker.pb.go and the status codes of package grpc that the handlers
  return.  A message pointer can be nil: the accessors take an option and return the zero value
  for None.
\<close>

type_synonym tag_map = "string \<rightharpoonup> string"

record SubscribeRequest =
  sr_WorkerId :: string
  sr_Pubkey :: bytes
  sr_Tags :: tag_map

record SubscribeResponse =
  sp_Token :: string
  sp_WrappedKey :: bytes
  sp_KeyId :: string

record ProcessRequest =
  pr_SchemaId :: string
  pr_EntityKey :: string
  pr_Operation :: string
  pr_Payload :: bytes
  pr_Token :: string

record ProcessResponse =
  rs_Status :: string
  rs_Result :: bytes
  rs_Version :: string
  rs_Error :: string

definition GetSchemaId :: "ProcessRequest option \<Rightarrow> string" where
  "GetSchemaId x = (case x of None \<Rightarrow> [] | Some r \<Rightarrow> pr_SchemaId r)"

definition GetEntityKey :: "ProcessRequest option \<Rightarrow> string" where
  "GetEntityKey x = (case x of None \<Rightarrow> [] | Some r \<Rightarrow> pr_EntityKey r)"

definition GetOperation :: "ProcessRequest option \<Rightarrow> string" where
  "GetOperation x = (case x of None \<Rightarrow> [] | Some r \<Rightarrow> pr_Operation r)"

definition GetPayload :: "ProcessRequest option \<Rightarrow> bytes" where
  "GetPayload x = (case x of None \<Rightarrow> [] | Some r \<Rightarrow> pr_Payload r)"

definition GetToken :: "ProcessRequest option \<Rightarrow> string" where
  "GetToken x = (case x of None \<Rightarrow> [] | Some r \<Rightarrow> pr_Token r)"

definition GetWorkerId :: "SubscribeRequest option \<Rightarrow> string" where
  "GetWorkerId x = (case x of None \<Rightarrow> [] | Some r \<Rightarrow> sr_WorkerId r)"

definition GetPubkey :: "SubscribeRequest option \<Rightarrow> bytes" where
  "GetPubkey x = (case x of None \<Rightarrow> [] | Some r \<Rightarrow> sr_Pubkey r)"

definition GetTags :: "SubscribeRequest option \<Rightarrow> tag_map" where
  "GetTags x = (case x of None \<Rightarrow> Map.empty | Some r \<Rightarrow> sr_Tags r)"

definition resp_GetToken :: "SubscribeResponse option \<Rightarrow> string" where
  "resp_GetToken x = (case x of None \<Rightarrow> [] | Some r \<Rightarrow> sp_Token r)"

definition GetWrappedKey :: "SubscribeResponse option \<Rightarrow> bytes" where
  "GetWrappedKey x = (case x of None \<Rightarrow> [] | Some r \<Rightarrow> sp_WrappedKey r)"

definition GetKeyId :: "SubscribeResponse option \<Rightarrow> string" where
  "GetKeyId x = (case x of None \<Rightarrow> [] | Some r \<Rightarrow> sp_KeyId r)"

definition GetStatus :: "ProcessResponse option \<Rightarrow> string" where
  "GetStatus x = (case x of None \<Rightarrow> [] | Some r \<Rightarrow> rs_Status r)"

definition GetResult :: "ProcessResponse option \<Rightarrow> bytes" where
  "GetResult x = (case x of None \<Rightarrow> [] | Some r \<Rightarrow> rs_Result r)"

definition resp_GetVersion :: "ProcessResponse option \<Rightarrow> string" where
  "resp_GetVersion x = (case x of None \<Rightarrow> [] | Some r \<Rightarrow> rs_Version r)"

definition GetError :: "ProcessResponse option \<Rightarrow> string" where
  "GetError x = (case x of None \<Rightarrow> [] | Some r \<Rightarrow> rs_Error r)"

datatype grpc_code =
    InvalidArgument | NotFound | Unauthenticated | PermissionDenied | Internal | Unavailable | Unimplemented

text \<open>A status error: its code and the constant part of its message.\<close>

type_synonym rpc_error = "grpc_code \<times> string"

text \<open>A response with the given status, result and version.\<close>

definition response :: "string \<Rightarrow> bytes \<Rightarrow> string \<Rightarrow> ProcessResponse" where
  "response st result version = \<lparr>rs_Status = st, rs_Result = result, rs_Version = version, rs_Error = []\<rparr>"

lemma getters_Some [simp]:
  "GetSchemaId (Some r) = pr_SchemaId r" "GetEntityKey (Some r) = pr_EntityKey r"
  "GetOperation (Some r) = pr_Operation r" "GetPayload (Some r) = pr_Payload r" "GetToken (Some r) = pr_Token r"
  "GetWorkerId (Some q) = sr_WorkerId q" "GetPubkey (Some q) = sr_Pubkey q" "GetTags (Some q) = sr_Tags q"
  by (simp_all add: GetSchemaId_def GetEntityKey_def GetOperation_def GetPayload_def GetToken_def
      GetWorkerId_def GetPubkey_def GetTags_def)

lemma getters_None [simp]:
  "GetSchemaId None = []" "GetEntityKey None = []" "GetOperation None = []" "GetPayload None = []" "GetToken None = []"
  by (simp_all add: GetSchemaId_def GetEntityKey_def GetOperation_def GetPayload_def GetToken_def)

end
