(* ===== verification/Proc_Worker.thy ===== *)
theory Proc_Worker
  imports Rpc_Messages Base64_Text Lru_Cache File_Locks Aead_Crypto Schema_Validator
begin

text \<open>
  The Processing Worker's request handlers, cmd/proc-worker/server.go.  A server has the worker's
  key material, its lock manager, its cache, its validator, the writes it has promised but not
  yet made (the goroutines of \<open>pendingWrites\<close>) and its metrics; the storage is shared by all
  workers and passed beside it.  The storage and the lock manager are reached through their
  interfaces, the records \<open>storage_ops\<close> and \<open>lock_ops\<close>.  A handler is one function; what it reads
  from outside (clock, random bytes, faults of the storage calls) is its argument \<open>env\<close>.  The
  disk write of a PUT is a separate function on the job that the handler leaves behind.
\<close>

section \<open>Interfaces and state\<close>

record ('st, 'f) storage_ops =
  so_write :: "'f \<Rightarrow> string \<Rightarrow> bytes \<Rightarrow> FileMetadata \<Rightarrow> 'st \<Rightarrow> 'st \<times> fs_error option"
  so_read :: "'f \<Rightarrow> 'st \<Rightarrow> string \<Rightarrow> fs_error + FileData"
  so_delete :: "'f \<Rightarrow> string \<Rightarrow> 'st \<Rightarrow> 'st \<times> fs_error option"
  so_tree :: "'st \<Rightarrow> file_sys"

text \<open>\<open>lo_acquire\<close> returns the new state of the manager and an error, None when the lock is granted.\<close>

record 'k lock_ops =
  lo_acquire :: "'k \<Rightarrow> string \<Rightarrow> LockType \<Rightarrow> 'k \<times> lock_error option"
  lo_release :: "'k \<Rightarrow> string \<Rightarrow> 'k"

record ProcConfig =
  pc_MainAddr :: string
  pc_WorkerID :: string
  pc_SharedFSPath :: string
  pc_Tags :: tag_map
  pc_MetricsAddr :: string
  pc_MaxRecvMsgSize :: int

record 'rk ProcWorker =
  pw_config :: ProcConfig
  pw_privateKey :: "'rk option"
  pw_encryptionKey :: bytes
  pw_sessionToken :: string
  pw_keyID :: string

text \<open>The counters and gauges that the handlers touch; durations are not modelled.\<close>

record proc_metrics =
  pm_requests :: "string \<times> string \<Rightarrow> int"
  pm_CacheSize :: int
  pm_CacheHitsTotal :: int
  pm_CacheMissesTotal :: int
  pm_CacheEvictionsTotal :: int
  pm_EncryptionOperations :: "string \<Rightarrow> int"
  pm_EncryptionFailures :: "string \<Rightarrow> int"
  pm_AsyncWritesPending :: int
  pm_AsyncWritesTotal :: int
  pm_AsyncWriteFailures :: int

record write_job =
  wj_entityID :: string
  wj_blob :: bytes
  wj_metadata :: FileMetadata
  wj_nextVersion :: int

record ('l, 'k, 's, 'rk) ProcWorkerServer =
  ps_worker :: "'rk ProcWorker"
  ps_lockMgr :: 'k
  ps_cache :: "'l Cache"
  ps_validator :: "'s Validator option"
  ps_pendingWrites :: "write_job list"
  ps_metrics :: proc_metrics
  ps_lastCacheHits :: int
  ps_lastCacheMisses :: int
  ps_lastCacheEvicts :: int

record 'f handler_env =
  he_first :: gotime
  he_second :: gotime
  he_stamp :: gotime
  he_nonce :: "bytes option"
  he_read :: 'f
  he_write :: 'f
  he_templates :: faults

text \<open>The libraries a server is built on.\<close>

record ('l, 'st, 'f, 'k, 's) proc_libs =
  pl_lru :: "'l lru_ops"
  pl_storage :: "('st, 'f) storage_ops"
  pl_locks :: "'k lock_ops"
  pl_aead :: aead
  pl_schema :: "'s schema_lib"

type_synonym ('l, 'k, 's, 'rk, 'st) proc_result =
  "('l, 'k, 's, 'rk) ProcWorkerServer \<times> 'st \<times> (rpc_error + ProcessResponse)"

section \<open>Metrics\<close>

definition no_metrics :: proc_metrics where
  "no_metrics = \<lparr>pm_requests = (\<lambda>_. 0), pm_CacheSize = 0, pm_CacheHitsTotal = 0, pm_CacheMissesTotal = 0,
     pm_CacheEvictionsTotal = 0, pm_EncryptionOperations = (\<lambda>_. 0), pm_EncryptionFailures = (\<lambda>_. 0),
     pm_AsyncWritesPending = 0, pm_AsyncWritesTotal = 0, pm_AsyncWriteFailures = 0\<rparr>"

definition count_crypto :: "string \<Rightarrow> bool \<Rightarrow> ('l, 'k, 's, 'rk) ProcWorkerServer \<Rightarrow> ('l, 'k, 's, 'rk) ProcWorkerServer" where
  "count_crypto op failed srv =
     (let m = ps_metrics srv;
          m1 = m\<lparr>pm_EncryptionOperations := (pm_EncryptionOperations m)(op := pm_EncryptionOperations m op + 1)\<rparr>;
          m2 = (if failed then m1\<lparr>pm_EncryptionFailures := (pm_EncryptionFailures m1)(op := pm_EncryptionFailures m1 op + 1)\<rparr>
                else m1)
      in srv\<lparr>ps_metrics := m2\<rparr>)"

definition count_async_failure :: "('l, 'k, 's, 'rk) ProcWorkerServer \<Rightarrow> ('l, 'k, 's, 'rk) ProcWorkerServer" where
  "count_async_failure srv =
     srv\<lparr>ps_metrics := (ps_metrics srv)\<lparr>pm_AsyncWriteFailures := pm_AsyncWriteFailures (ps_metrics srv) + 1\<rparr>\<rparr>"

definition proc_updateCacheMetrics ::
    "'l lru_ops \<Rightarrow> ('l, 'k, 's, 'rk) ProcWorkerServer \<Rightarrow> ('l, 'k, 's, 'rk) ProcWorkerServer" where
  "proc_updateCacheMetrics L srv =
     (let cs = cache_Stats L (ps_cache srv);
          srv0 = srv\<lparr>ps_metrics := (ps_metrics srv)\<lparr>pm_CacheSize := st_Size cs\<rparr>\<rparr>;
          dh = i64 (st_Hits cs - ps_lastCacheHits srv0);
          srv1 = (if 0 < dh then srv0\<lparr>ps_metrics := (ps_metrics srv0)\<lparr>pm_CacheHitsTotal := pm_CacheHitsTotal (ps_metrics srv0) + dh\<rparr>,
                                     ps_lastCacheHits := st_Hits cs\<rparr> else srv0);
          dm = i64 (st_Misses cs - ps_lastCacheMisses srv1);
          srv2 = (if 0 < dm then srv1\<lparr>ps_metrics := (ps_metrics srv1)\<lparr>pm_CacheMissesTotal := pm_CacheMissesTotal (ps_metrics srv1) + dm\<rparr>,
                                     ps_lastCacheMisses := st_Misses cs\<rparr> else srv1);
          de = i64 (st_Evicts cs - ps_lastCacheEvicts srv2)
      in if 0 < de then srv2\<lparr>ps_metrics := (ps_metrics srv2)\<lparr>pm_CacheEvictionsTotal := pm_CacheEvictionsTotal (ps_metrics srv2) + de\<rparr>,
                             ps_lastCacheEvicts := st_Evicts cs\<rparr> else srv2)"

section \<open>GET\<close>

text \<open>Steps 3 to 6 of the GET flow, between acquiring and releasing the shared lock.\<close>

definition get_locked ::
    "('l, 'st, 'f, 'k, 's) proc_libs \<Rightarrow> 'f handler_env \<Rightarrow> ('l, 'k, 's, 'rk) ProcWorkerServer \<Rightarrow> 'st \<Rightarrow> string
      \<Rightarrow> ('l, 'k, 's, 'rk) ProcWorkerServer \<times> (rpc_error + ProcessResponse)" where
  "get_locked Lib env srv st entityID =
     (case so_read (pl_storage Lib) (he_read env) st entityID of
        Inl e \<Rightarrow> if e = ErrFileNotFound then (srv, Inl (NotFound, ''entity not found''))
                 else (srv, Inl (Internal, ''failed to read file''))
      | Inr fileData \<Rightarrow>
          let key = pw_encryptionKey (ps_worker srv) in
          if key = [] then (srv, Inl (Unavailable, ''encryption key not available; worker not yet subscribed''))
          else case b64_decode b64_std (fm_IV (fd_Metadata fileData)) of
                 None \<Rightarrow> (srv, Inl (Internal, ''invalid IV in metadata''))
               | Some nonce \<Rightarrow>
                   (case b64_decode b64_std (fm_Tag (fd_Metadata fileData)) of
                      None \<Rightarrow> (srv, Inl (Internal, ''invalid tag in metadata''))
                    | Some tag \<Rightarrow>
                        (case Decrypt (pl_aead Lib) key (fd_Blob fileData) nonce tag of
                           Inl _ \<Rightarrow> (count_crypto ''decrypt'' True srv, Inl (Internal, ''decryption failed''))
                         | Inr plaintext \<Rightarrow>
                             let srv1 = count_crypto ''decrypt'' False srv;
                                 version = Itoa (fm_Version (fd_Metadata fileData));
                                 srv2 = srv1\<lparr>ps_cache := cache_Set (pl_lru Lib) (he_second env) (ps_cache srv1) entityID plaintext version\<rparr>
                             in (srv2, Inr (response ''OK'' plaintext version)))))"

definition processGET ::
    "('l, 'st, 'f, 'k, 's) proc_libs \<Rightarrow> 'f handler_env \<Rightarrow> string \<Rightarrow> ('l, 'k, 's, 'rk) ProcWorkerServer \<Rightarrow> 'st
      \<Rightarrow> ('l, 'k, 's, 'rk, 'st) proc_result" where
  "processGET Lib env entityID srv st =
     (case cache_fetch (pl_lru Lib) (he_first env) (ps_cache srv) entityID of
        (c, Some (data, version)) \<Rightarrow> (srv\<lparr>ps_cache := c\<rparr>, st, Inr (response ''OK'' data version))
      | (c, None) \<Rightarrow>
          (case lo_acquire (pl_locks Lib) (ps_lockMgr srv) entityID LockShared of
             (k, Some e) \<Rightarrow> (srv\<lparr>ps_cache := c, ps_lockMgr := k\<rparr>, st, Inl (Internal, ''failed to acquire shared lock''))
           | (k, None) \<Rightarrow>
               let (srv1, r) = get_locked Lib env (srv\<lparr>ps_cache := c, ps_lockMgr := k\<rparr>) st entityID
               in (srv1\<lparr>ps_lockMgr := lo_release (pl_locks Lib) (ps_lockMgr srv1) entityID\<rparr>, st, r)))"

section \<open>PUT\<close>

text \<open>The validation step: the refusal, if any, and the validator with the schema it may have loaded.\<close>

definition put_validate ::
    "('l, 'st, 'f, 'k, 's) proc_libs \<Rightarrow> 'f handler_env \<Rightarrow> ProcessRequest option \<Rightarrow> ('l, 'k, 's, 'rk) ProcWorkerServer \<Rightarrow> 'st
      \<Rightarrow> ('l, 'k, 's, 'rk) ProcWorkerServer \<times> rpc_error option" where
  "put_validate Lib env req srv st =
     (case ps_validator srv of
        None \<Rightarrow> (srv, None)
      | Some v \<Rightarrow>
          if GetSchemaId req = [] then (srv, None)
          else case Validate (pl_schema Lib) (he_templates env) v (GetSchemaId req) (GetPayload req) (so_tree (pl_storage Lib) st) of
                 (v', Inl err) \<Rightarrow>
                   (srv\<lparr>ps_validator := Some v'\<rparr>,
                    if \<not> Contains (err_text err) ''schema template not found''
                    then Some (InvalidArgument, ''schema validation error'') else None)
               | (v', Inr result) \<Rightarrow>
                   (srv\<lparr>ps_validator := Some v'\<rparr>,
                    if \<not> vr_Valid result then Some (InvalidArgument, ''payload does not match schema'') else None))"

text \<open>Step 3: the next version, from the cached version if it is a positive number, else from disk.\<close>

definition next_version ::
    "('l, 'st, 'f, 'k, 's) proc_libs \<Rightarrow> 'f handler_env \<Rightarrow> ('l, 'k, 's, 'rk) ProcWorkerServer \<Rightarrow> 'st \<Rightarrow> string \<Rightarrow> int" where
  "next_version Lib env srv st entityID =
     (let v = fst (Atoi (GetVersion (pl_lru Lib) (he_first env) (ps_cache srv) entityID)) in
      if 0 < v then i64 (v + 1)
      else case so_read (pl_storage Lib) (he_read env) st entityID of
             Inr existing \<Rightarrow> i64 (fm_Version (fd_Metadata existing) + 1)
           | Inl _ \<Rightarrow> 1)"

definition put_metadata ::
    "'f handler_env \<Rightarrow> ProcessRequest option \<Rightarrow> 'rk ProcWorker \<Rightarrow> EncryptResult \<Rightarrow> int \<Rightarrow> FileMetadata" where
  "put_metadata env req w encResult nextVersion =
     \<lparr>fm_KeyID = pw_keyID w, fm_Algorithm = ''AES-GCM'',
      fm_IV = b64_encode b64_std (er_Nonce encResult), fm_Tag = b64_encode b64_std (er_Tag encResult),
      fm_SchemaID = GetSchemaId req, fm_Version = nextVersion, fm_WriterID = pc_WorkerID (pw_config w),
      fm_Timestamp = he_stamp env, fm_Schema = GetSchemaId req, fm_EntityKey = GetEntityKey req\<rparr>"

definition processPUT ::
    "('l, 'st, 'f, 'k, 's) proc_libs \<Rightarrow> 'f handler_env \<Rightarrow> ProcessRequest option \<Rightarrow> string
      \<Rightarrow> ('l, 'k, 's, 'rk) ProcWorkerServer \<Rightarrow> 'st \<Rightarrow> ('l, 'k, 's, 'rk, 'st) proc_result" where
  "processPUT Lib env req entityID srv st =
     (if GetPayload req = [] then (srv, st, Inl (InvalidArgument, ''payload is required for PUT operations''))
      else case put_validate Lib env req srv st of
        (srv1, Some e) \<Rightarrow> (srv1, st, Inl e)
      | (srv1, None) \<Rightarrow>
          let key = pw_encryptionKey (ps_worker srv1) in
          if key = [] then (srv1, st, Inl (Unavailable, ''encryption key not available; worker not yet subscribed''))
          else case lo_acquire (pl_locks Lib) (ps_lockMgr srv1) entityID LockExclusive of
            (k, Some e) \<Rightarrow> (srv1\<lparr>ps_lockMgr := k\<rparr>, st, Inl (Internal, ''failed to acquire exclusive lock''))
          | (k, None) \<Rightarrow>
              let srv2 = srv1\<lparr>ps_lockMgr := k\<rparr>;
                  nextVersion = next_version Lib env srv2 st entityID
              in case Encrypt (pl_aead Lib) (he_nonce env) key (GetPayload req) of
                   Inl _ \<Rightarrow>
                     (count_crypto ''encrypt'' True (srv2\<lparr>ps_lockMgr := lo_release (pl_locks Lib) k entityID\<rparr>), st,
                      Inl (Internal, ''encryption failed''))
                 | Inr encResult \<Rightarrow>
                     let srv3 = count_crypto ''encrypt'' False srv2;
                         metadata = put_metadata env req (ps_worker srv3) encResult nextVersion;
                         versionStr = Itoa nextVersion;
                         srv4 = srv3\<lparr>ps_cache := cache_Set (pl_lru Lib) (he_second env) (ps_cache srv3) entityID (GetPayload req) versionStr\<rparr>;
                         srv5 = srv4\<lparr>ps_lockMgr := lo_release (pl_locks Lib) (ps_lockMgr srv4) entityID\<rparr>;
                         job = \<lparr>wj_entityID = entityID, wj_blob = er_Ciphertext encResult, wj_metadata = metadata,
                                wj_nextVersion = nextVersion\<rparr>;
                         m = ps_metrics srv5
                     in (srv5\<lparr>ps_pendingWrites := ps_pendingWrites srv5 @ [job],
                              ps_metrics := m\<lparr>pm_AsyncWritesPending := pm_AsyncWritesPending m + 1,
                                              pm_AsyncWritesTotal := pm_AsyncWritesTotal m + 1\<rparr>\<rparr>, st,
                         Inr (response ''OK'' [] versionStr)))"

text \<open>The goroutine that makes the promised write, on the job it captured.\<close>

definition async_write ::
    "('l, 'st, 'f, 'k, 's) proc_libs \<Rightarrow> 'f handler_env \<Rightarrow> write_job \<Rightarrow> ('l, 'k, 's, 'rk) ProcWorkerServer \<Rightarrow> 'st
      \<Rightarrow> ('l, 'k, 's, 'rk) ProcWorkerServer \<times> 'st" where
  "async_write Lib env job srv st =
     (let done = (\<lambda>s. s\<lparr>ps_metrics := (ps_metrics s)\<lparr>pm_AsyncWritesPending := pm_AsyncWritesPending (ps_metrics s) - 1\<rparr>\<rparr>)
      in case lo_acquire (pl_locks Lib) (ps_lockMgr srv) (wj_entityID job) LockExclusive of
           (k, Some e) \<Rightarrow> (done (count_async_failure (srv\<lparr>ps_lockMgr := k\<rparr>)), st)
         | (k, None) \<Rightarrow>
             let stale = (case so_read (pl_storage Lib) (he_read env) st (wj_entityID job) of
                            Inr existing \<Rightarrow> wj_nextVersion job \<le> fm_Version (fd_Metadata existing)
                          | Inl _ \<Rightarrow> False);
                 free = srv\<lparr>ps_lockMgr := lo_release (pl_locks Lib) k (wj_entityID job)\<rparr>
             in if stale then (done free, st)
                else case so_write (pl_storage Lib) (he_write env) (wj_entityID job) (wj_blob job) (wj_metadata job) st of
                       (st', Some e) \<Rightarrow> (done (count_async_failure free), st')
                     | (st', None) \<Rightarrow> (done free, st'))"

section \<open>DELETE and dispatch\<close>

definition processDELETE ::
    "('l, 'st, 'f, 'k, 's) proc_libs \<Rightarrow> 'f handler_env \<Rightarrow> string \<Rightarrow> ('l, 'k, 's, 'rk) ProcWorkerServer \<Rightarrow> 'st
      \<Rightarrow> ('l, 'k, 's, 'rk, 'st) proc_result" where
  "processDELETE Lib env entityID srv st =
     (case lo_acquire (pl_locks Lib) (ps_lockMgr srv) entityID LockExclusive of
        (k, Some e) \<Rightarrow> (srv\<lparr>ps_lockMgr := k\<rparr>, st, Inl (Internal, ''failed to acquire exclusive lock''))
      | (k, None) \<Rightarrow>
          let srv1 = srv\<lparr>ps_cache := fst (cache_Evict (pl_lru Lib) (ps_cache srv) entityID),
                         ps_lockMgr := lo_release (pl_locks Lib) k entityID\<rparr>
          in case so_delete (pl_storage Lib) (he_write env) entityID st of
               (st', Some e) \<Rightarrow> (srv1, st', Inl (Internal, ''failed to delete entity''))
             | (st', None) \<Rightarrow> (srv1, st', Inr (response ''OK'' [] [])))"

definition entity_id :: "string \<Rightarrow> string \<Rightarrow> string" where
  "entity_id schemaID entityKey = schemaID @ ''_'' @ entityKey"

text \<open>The refusal of a path separator or of two dots in a part of the entity id.\<close>

definition bad_part :: "string \<Rightarrow> string" where
  "bad_part field = ''invalid '' @ field @ '': must not contain path separators or '' @ [CHR 0x27] @ ''..'' @ [CHR 0x27]"

definition count_request ::
    "'l lru_ops \<Rightarrow> string \<Rightarrow> ('l, 'k, 's, 'rk, 'st) proc_result \<Rightarrow> ('l, 'k, 's, 'rk, 'st) proc_result" where
  "count_request L op = (\<lambda>(srv, st, r).
     let label = (case r of Inl _ \<Rightarrow> ''error'' | Inr _ \<Rightarrow> ''success'');
         m = ps_metrics srv
     in (proc_updateCacheMetrics L (srv\<lparr>ps_metrics := m\<lparr>pm_requests := (pm_requests m)((op, label) := pm_requests m (op, label) + 1)\<rparr>\<rparr>), st, r))"

definition proc_Process ::
    "('l, 'st, 'f, 'k, 's) proc_libs \<Rightarrow> 'f handler_env \<Rightarrow> ProcessRequest option \<Rightarrow> ('l, 'k, 's, 'rk) ProcWorkerServer \<Rightarrow> 'st
      \<Rightarrow> ('l, 'k, 's, 'rk, 'st) proc_result" where
  "proc_Process Lib env req srv st =
     (let schemaID = GetSchemaId req; entityKey = GetEntityKey req in
      if schemaID = [] \<or> entityKey = [] then
        (srv, st, Inl (InvalidArgument, ''schema_id and entity_key are required''))
      else if ContainsAny schemaID path_seps \<or> Contains schemaID ''..'' then
        (srv, st, Inl (InvalidArgument, bad_part ''schema_id''))
      else if ContainsAny entityKey path_seps \<or> Contains entityKey ''..'' then
        (srv, st, Inl (InvalidArgument, bad_part ''entity_key''))
      else
        let entityID = entity_id schemaID entityKey; op = GetOperation req in
        if op = ''GET'' then count_request (pl_lru Lib) op (processGET Lib env entityID srv st)
        else if op = ''PUT'' then count_request (pl_lru Lib) op (processPUT Lib env req entityID srv st)
        else if op = ''DELETE'' then count_request (pl_lru Lib) op (processDELETE Lib env entityID srv st)
        else (srv, st, Inl (InvalidArgument, ''unsupported operation'')))"

definition proc_Subscribe :: "SubscribeRequest option \<Rightarrow> rpc_error + SubscribeResponse" where
  "proc_Subscribe req = Inl (Unimplemented, ''Subscribe is not handled by the Processing Worker'')"

definition NewProcWorkerServer ::
    "faults \<Rightarrow> string \<Rightarrow> 'rk ProcWorker \<Rightarrow> 'k \<Rightarrow> 'l Cache \<Rightarrow> file_sys \<Rightarrow> file_sys \<times> ('l, 'k, 's, 'rk) ProcWorkerServer" where
  "NewProcWorkerServer F templatesDir worker lockMgr c fs =
     (let (fs', r) = NewValidator F templatesDir fs in
      (fs', \<lparr>ps_worker = worker, ps_lockMgr = lockMgr, ps_cache = c,
             ps_validator = (case r of Inl _ \<Rightarrow> None | Inr v \<Rightarrow> Some v), ps_pendingWrites = [],
             ps_metrics = no_metrics, ps_lastCacheHits = 0, ps_lastCacheMisses = 0, ps_lastCacheEvicts = 0\<rparr>))"

end
