(* ===== verification/Proc_System.thy ===== *)
theory Proc_System
  imports Proc_Worker
begin

text \<open>
  Any number of Processing Workers on one shared storage.  A step serves a request at one worker,
  makes one of the promised writes, expires cache entries, or restarts a worker, which loses its
  cache and its promised writes.  The log records the accepted PUTs.  The invariant says where
  every cached payload, promised write, stored blob and stored metadata record comes from; it
  is proved once from the contracts of the cache, the storage and the cipher (locale
  \<open>proc_system\<close>), whatever locks are granted or refused and whatever calls fail.
\<close>

record put_record =
  lg_entity :: string
  lg_nonce :: bytes
  lg_payload :: bytes

type_synonym ('l, 'k, 's, 'rk, 'st) sys_state =
  "(nat \<Rightarrow> ('l, 'k, 's, 'rk) ProcWorkerServer) \<times> 'st \<times> put_record list"

definition logged :: "'f handler_env \<Rightarrow> ProcessRequest option \<Rightarrow> rpc_error + ProcessResponse \<Rightarrow> put_record list" where
  "logged env req r =
     (case r of
        Inl _ \<Rightarrow> []
      | Inr _ \<Rightarrow> if GetOperation req = ''PUT''
          then [\<lparr>lg_entity = entity_id (GetSchemaId req) (GetEntityKey req), lg_nonce = the (he_nonce env), lg_payload = GetPayload req\<rparr>]
          else [])"

text \<open>
  The steps.  \<open>cod\<close> is the set of metadata records that survive their encoding; the random source
  fills the nonce completely or fails.
\<close>

inductive sys_step ::
    "('l, 'st, 'f, 'k, 's) proc_libs \<Rightarrow> (FileMetadata \<Rightarrow> bool) \<Rightarrow> ('l, 'k, 's, 'rk, 'st) sys_state \<Rightarrow> ('l, 'k, 's, 'rk, 'st) sys_state \<Rightarrow> bool"
  for Lib cod where
  serve: "proc_Process Lib env req (srvs i) st = (srv', st', r) \<Longrightarrow> \<forall>n. he_nonce env = Some n \<longrightarrow> length n = NonceSize \<Longrightarrow>
    \<forall>job \<in> set (ps_pendingWrites srv'). cod (wj_metadata job) \<Longrightarrow>
    sys_step Lib cod (srvs, st, lgs) (srvs(i := srv'), st', lgs @ logged env req r)"
| flush: "ps_pendingWrites (srvs i) = xs @ job # ys \<Longrightarrow>
    async_write Lib env job ((srvs i)\<lparr>ps_pendingWrites := xs @ ys\<rparr>) st = (srv', st') \<Longrightarrow>
    sys_step Lib cod (srvs, st, lgs) (srvs(i := srv'), st', lgs)"
| tick: "sys_step Lib cod (srvs, st, lgs)
    (srvs(i := (srvs i)\<lparr>ps_cache := removeExpiredEntries (pl_lru Lib) now (ps_cache (srvs i))\<rparr>), st, lgs)"
| restart: "NewCache (pl_lru Lib) config = Inr c \<Longrightarrow>
    sys_step Lib cod (srvs, st, lgs) (srvs(i := (srvs i)\<lparr>ps_cache := c, ps_pendingWrites := []\<rparr>), st, lgs)"

section \<open>Provenance\<close>

definition cipher_part :: "aead \<Rightarrow> bytes \<Rightarrow> put_record \<Rightarrow> bytes" where
  "cipher_part A key g = take (length (lg_payload g)) (aead_seal A key (lg_nonce g) (lg_payload g))"

definition tag_part :: "aead \<Rightarrow> bytes \<Rightarrow> put_record \<Rightarrow> bytes" where
  "tag_part A key g = drop (length (lg_payload g)) (aead_seal A key (lg_nonce g) (lg_payload g))"

definition blob_logged :: "aead \<Rightarrow> bytes \<Rightarrow> put_record list \<Rightarrow> string \<Rightarrow> bytes \<Rightarrow> bool" where
  "blob_logged A key lgs eid b \<longleftrightarrow> (\<exists>g \<in> set lgs. lg_entity g = eid \<and> b = cipher_part A key g)"

definition meta_logged :: "aead \<Rightarrow> bytes \<Rightarrow> put_record list \<Rightarrow> string \<Rightarrow> FileMetadata \<Rightarrow> bool" where
  "meta_logged A key lgs eid m \<longleftrightarrow> (\<exists>g \<in> set lgs. lg_entity g = eid \<and> length (lg_nonce g) = NonceSize \<and>
     fm_IV m = b64_encode b64_std (lg_nonce g) \<and> fm_Tag m = b64_encode b64_std (tag_part A key g))"

definition payload_logged :: "put_record list \<Rightarrow> string \<Rightarrow> bytes \<Rightarrow> bool" where
  "payload_logged lgs eid d \<longleftrightarrow> (\<exists>g \<in> set lgs. lg_entity g = eid \<and> lg_payload g = d)"

text \<open>
  The authenticity of the cipher, for the log of a run: the ciphertext of one accepted payload
  with the nonce and tag of another opens, if at all, to that other payload.
\<close>

definition no_splice :: "aead \<Rightarrow> bytes \<Rightarrow> put_record list \<Rightarrow> bool" where
  "no_splice A key lgs \<longleftrightarrow> (\<forall>g \<in> set lgs. \<forall>h \<in> set lgs. \<forall>p.
     aead_open A key (lg_nonce h) (cipher_part A key g @ tag_part A key h) = Some p \<longrightarrow> p = lg_payload h)"

definition cached_all :: "('l \<Rightarrow> (string \<times> addr) list) \<Rightarrow> (string \<Rightarrow> bytes \<Rightarrow> bool) \<Rightarrow> 'l Cache \<Rightarrow> bool" where
  "cached_all items P c \<longleftrightarrow> (\<forall>k d v x. cache_lookup items c k = Some (d, v, x) \<longrightarrow> P k d)"

lemma logged_mono:
  assumes "set lgs \<subseteq> set lgs'"
  shows "blob_logged A key lgs eid b \<Longrightarrow> blob_logged A key lgs' eid b"
    "meta_logged A key lgs eid m \<Longrightarrow> meta_logged A key lgs' eid m"
    "payload_logged lgs eid d \<Longrightarrow> payload_logged lgs' eid d"
    "no_splice A key lgs' \<Longrightarrow> no_splice A key lgs"
  using assms unfolding blob_logged_def meta_logged_def payload_logged_def no_splice_def by blast+

lemma cached_all_mono: "cached_all items P c \<Longrightarrow> (\<And>k d. P k d \<Longrightarrow> Q k d) \<Longrightarrow> cached_all items Q c"
  unfolding cached_all_def by blast

context lru_spec
begin

lemma cached_all_iff: "cached_all items P c = ec.all_cached (\<lambda>k d v. P k d) c"
  by (simp add: cached_all_def ec.all_cached_def)

lemma cached_all_fetch:
  assumes "cache_inv items cap ok c" and "cached_all items P c" and "cache_fetch L now c k = (c', r)"
  shows "cache_inv items cap ok c'" "cached_all items P c'" "r = Some (d, v) \<Longrightarrow> P k d"
proof -
  have c': "c' = fst (cache_fetch L now c k)" and r: "r = snd (cache_fetch L now c k)" using assms(3) by simp_all
  show "cache_inv items cap ok c'" unfolding c' using assms(1) by (rule ec.fetch_inv)
  show "cached_all items P c'"
    using assms(2) unfolding c' cached_all_iff by (rule ec.all_cached_fetch [OF assms(1)])
  show "r = Some (d, v) \<Longrightarrow> P k d"
    using assms(2) unfolding r cached_all_iff by (rule ec.all_cached_fetched [OF assms(1)])
qed

lemma cached_all_Set:
  "cache_inv items cap ok c \<Longrightarrow> cached_all items P c \<Longrightarrow> P k d \<Longrightarrow> cached_all items P (cache_Set L now c k d v)"
  unfolding cached_all_iff by (rule ec.all_cached_store)

lemma cached_all_Evict:
  "cache_inv items cap ok c \<Longrightarrow> cached_all items P c \<Longrightarrow> cached_all items P (fst (cache_Evict L c k))"
  unfolding cached_all_iff by (rule ec.all_cached_evict)

text \<open>Expiry only takes entries away.\<close>

lemma lookup_expire:
  assumes "cache_inv items cap ok c" and "cache_lookup items (removeExpiredEntries L now c) k = Some y"
  shows "cache_lookup items c k = Some y"
proof -
  have "entries items (removeExpiredEntries L now c) = filter (\<lambda>(k, e). \<not> IsExpired now e) (entries items c)"
    using cache_step_refines [OF assms(1), of "OpCleanup now"] by simp
  moreover have "map_of (filter (\<lambda>(k, e). \<not> IsExpired now e) xs) k = Some e \<Longrightarrow> distinct (map fst xs) \<Longrightarrow> map_of xs k = Some e"
    for xs :: "(string \<times> CacheEntry) list" and k e
    by (induction xs) (force split: if_splits dest!: map_of_SomeD)+
  ultimately show ?thesis
    using assms(2) cache_inv_parts(5) [OF assms(1)] unfolding cache_lookup_def by force
qed

lemma expire_inv: "cache_inv items cap ok c \<Longrightarrow> cache_inv items cap ok (removeExpiredEntries L now c)"
  using cache_step_inv [of c "OpCleanup now"] by simp

lemma cached_all_expire:
  assumes "cache_inv items cap ok c" and "cached_all items P c"
  shows "cache_inv items cap ok (removeExpiredEntries L now c)" "cached_all items P (removeExpiredEntries L now c)"
  using assms(2) unfolding cached_all_def by (auto intro: expire_inv [OF assms(1)] dest: lookup_expire [OF assms(1)])

lemma cached_all_new:
  assumes "NewCache L config = Inr c"
  shows "cache_inv items cap ok c" "cached_all items P c"
  using NewCache_inv [OF assms] by (simp_all add: cached_all_def cache_lookup_def)

end

section \<open>The invariant\<close>

definition server_ok ::
    "('l \<Rightarrow> (string \<times> addr) list) \<Rightarrow> ('l \<Rightarrow> int) \<Rightarrow> ('l \<Rightarrow> bool) \<Rightarrow> aead \<Rightarrow> (FileMetadata \<Rightarrow> bool) \<Rightarrow> bytes
      \<Rightarrow> put_record list \<Rightarrow> ('l, 'k, 's, 'rk) ProcWorkerServer \<Rightarrow> bool" where
  "server_ok items cap lok A cod key lgs srv \<longleftrightarrow>
     pw_encryptionKey (ps_worker srv) \<in> {[], key} \<and>
     cache_inv items cap lok (ps_cache srv) \<and> cached_all items (payload_logged lgs) (ps_cache srv) \<and>
     (\<forall>job \<in> set (ps_pendingWrites srv). blob_logged A key lgs (wj_entityID job) (wj_blob job) \<and>
        meta_logged A key lgs (wj_entityID job) (wj_metadata job) \<and> cod (wj_metadata job))"

text \<open>Handlers change only the cache, the lock state, the metrics, the validator and the promised writes.\<close>

lemma server_ok_cong:
  assumes "ps_worker srv' = ps_worker srv" "ps_cache srv' = ps_cache srv" "ps_pendingWrites srv' = ps_pendingWrites srv"
  shows "server_ok items cap lok A cod key lgs srv' = server_ok items cap lok A cod key lgs srv"
  by (simp add: server_ok_def assms)

lemma count_crypto_frame [simp]:
  "ps_worker (count_crypto op b srv) = ps_worker srv" "ps_cache (count_crypto op b srv) = ps_cache srv"
  "ps_pendingWrites (count_crypto op b srv) = ps_pendingWrites srv" "ps_lockMgr (count_crypto op b srv) = ps_lockMgr srv"
  "ps_validator (count_crypto op b srv) = ps_validator srv"
  by (simp_all add: count_crypto_def Let_def)

lemma count_async_failure_frame [simp]:
  "ps_worker (count_async_failure srv) = ps_worker srv" "ps_cache (count_async_failure srv) = ps_cache srv"
  "ps_pendingWrites (count_async_failure srv) = ps_pendingWrites srv" "ps_lockMgr (count_async_failure srv) = ps_lockMgr srv"
  by (simp_all add: count_async_failure_def)

lemma updateCacheMetrics_frame [simp]:
  "ps_worker (proc_updateCacheMetrics L srv) = ps_worker srv" "ps_cache (proc_updateCacheMetrics L srv) = ps_cache srv"
  "ps_pendingWrites (proc_updateCacheMetrics L srv) = ps_pendingWrites srv"
  "ps_validator (proc_updateCacheMetrics L srv) = ps_validator srv" "ps_lockMgr (proc_updateCacheMetrics L srv) = ps_lockMgr srv"
  by (simp_all add: proc_updateCacheMetrics_def Let_def)

lemma count_request_frame:
  assumes "count_request L op (srv, st, r) = (srv', st', r')"
  shows "ps_worker srv' = ps_worker srv" "ps_cache srv' = ps_cache srv" "ps_pendingWrites srv' = ps_pendingWrites srv"
    "ps_lockMgr srv' = ps_lockMgr srv" "st' = st" "r' = r"
  using assms by (auto simp: count_request_def Let_def)

lemma put_validate_frame:
  assumes "put_validate Lib env req srv st = (srv', e)"
  shows "ps_worker srv' = ps_worker srv" "ps_cache srv' = ps_cache srv" "ps_pendingWrites srv' = ps_pendingWrites srv"
    "ps_lockMgr srv' = ps_lockMgr srv"
  using assms by (auto simp: put_validate_def split: option.splits if_splits prod.splits sum.splits)

lemma server_ok_mono:
  assumes "server_ok items cap lok A cod key lgs srv" and "set lgs \<subseteq> set lgs'"
  shows "server_ok items cap lok A cod key lgs' srv"
  using assms(1) logged_mono(1-3) [OF assms(2)]
  unfolding server_ok_def by (auto intro: cached_all_mono)

section \<open>The outcomes of a request\<close>

text \<open>A refused PUT changes at most the validator, the lock state and the metrics.\<close>

lemma processPUT_refused:
  assumes "processPUT Lib env req eid srv st = (srv', st', Inl e)"
  shows "ps_worker srv' = ps_worker srv" "ps_cache srv' = ps_cache srv" "ps_pendingWrites srv' = ps_pendingWrites srv" "st' = st"
proof -
  obtain srv1 v where pv: "put_validate Lib env req srv st = (srv1, v)" by (cases "put_validate Lib env req srv st")
  note frame = put_validate_frame [OF pv]
  show "ps_worker srv' = ps_worker srv" "ps_cache srv' = ps_cache srv" "ps_pendingWrites srv' = ps_pendingWrites srv" "st' = st"
    using assms pv frame
    by (auto simp: processPUT_def Let_def split: if_splits option.splits prod.splits sum.splits)
qed

text \<open>An accepted PUT: what it caches, promises and answers.\<close>

lemma processPUT_accepted:
  assumes "processPUT Lib env req eid srv st = (srv', st', Inr resp)"
  obtains n enc ver srv1 where "he_nonce env = Some n"
    "Encrypt (pl_aead Lib) (Some n) (pw_encryptionKey (ps_worker srv)) (GetPayload req) = Inr enc"
    "pw_encryptionKey (ps_worker srv) \<noteq> []" "GetPayload req \<noteq> []" "st' = st"
    "put_validate Lib env req srv st = (srv1, None)"
    "ver = next_version Lib env srv st eid"
    "ps_cache srv' = cache_Set (pl_lru Lib) (he_second env) (ps_cache srv) eid (GetPayload req) (Itoa ver)"
    "ps_worker srv' = ps_worker srv"
    "ps_pendingWrites srv' = ps_pendingWrites srv @
       [\<lparr>wj_entityID = eid, wj_blob = er_Ciphertext enc, wj_metadata = put_metadata env req (ps_worker srv) enc ver, wj_nextVersion = ver\<rparr>]"
    "resp = response ''OK'' [] (Itoa ver)"
proof -
  obtain srv1 v where pv: "put_validate Lib env req srv st = (srv1, v)" by (cases "put_validate Lib env req srv st")
  note frame = put_validate_frame [OF pv]
  obtain k e where a: "lo_acquire (pl_locks Lib) (ps_lockMgr srv1) eid LockExclusive = (k, e)"
    by (cases "lo_acquire (pl_locks Lib) (ps_lockMgr srv1) eid LockExclusive")
  have nv: "next_version Lib env (srv1\<lparr>ps_lockMgr := k\<rparr>) st eid = next_version Lib env srv st eid"
    by (simp add: next_version_def frame)
  from assms pv a obtain enc where g: "v = None" "e = None" "GetPayload req \<noteq> []" "pw_encryptionKey (ps_worker srv1) \<noteq> []"
    "Encrypt (pl_aead Lib) (he_nonce env) (pw_encryptionKey (ps_worker srv1)) (GetPayload req) = Inr enc"
    by (auto simp: processPUT_def Let_def split: if_splits option.splits sum.splits)
  then obtain n where n: "he_nonce env = Some n" by (auto simp: Encrypt_def split: if_splits option.splits)
  show thesis
    by (rule that [of n enc srv1 "next_version Lib env srv st eid"])
      (use assms pv a g n nv frame in \<open>auto simp: processPUT_def Let_def\<close>)
qed

lemma Process_cases:
  assumes "proc_Process Lib env req srv st = (srv', st', r)"
  obtains (refused) e where "r = Inl e" "srv' = srv" "st' = st"
  | (get) "GetOperation req = ''GET''"
      "count_request (pl_lru Lib) ''GET'' (processGET Lib env (entity_id (GetSchemaId req) (GetEntityKey req)) srv st) = (srv', st', r)"
  | (put) "GetOperation req = ''PUT''"
      "count_request (pl_lru Lib) ''PUT'' (processPUT Lib env req (entity_id (GetSchemaId req) (GetEntityKey req)) srv st) = (srv', st', r)"
  | (delete) "GetOperation req = ''DELETE''"
      "count_request (pl_lru Lib) ''DELETE'' (processDELETE Lib env (entity_id (GetSchemaId req) (GetEntityKey req)) srv st) = (srv', st', r)"
  using assms unfolding proc_Process_def Let_def by (auto split: if_splits)

section \<open>The system\<close>

locale proc_system =
  C: lru_spec "pl_lru Lib" items cap lok +
  S: storage_origin "so_write (pl_storage Lib)" "so_read (pl_storage Lib)" "so_delete (pl_storage Lib)" fok sinv cod sat +
  G: gcm_cipher "pl_aead Lib"
  for Lib :: "('l, 'st, 'f, 'k, 's) proc_libs"
    and items :: "'l \<Rightarrow> (string \<times> addr) list" and cap :: "'l \<Rightarrow> int" and lok :: "'l \<Rightarrow> bool"
    and fok :: 'f and sinv :: "'st \<Rightarrow> bool" and cod :: "FileMetadata \<Rightarrow> bool"
    and sat :: "(string \<Rightarrow> bytes \<Rightarrow> bool) \<Rightarrow> (string \<Rightarrow> FileMetadata \<Rightarrow> bool) \<Rightarrow> 'st \<Rightarrow> bool"
begin

abbreviation srv_ok :: "bytes \<Rightarrow> put_record list \<Rightarrow> ('l, 'k, 's, 'rk) ProcWorkerServer \<Rightarrow> bool" where
  "srv_ok key lgs srv \<equiv> server_ok items cap lok (pl_aead Lib) cod key lgs srv"

abbreviation store_ok :: "bytes \<Rightarrow> put_record list \<Rightarrow> 'st \<Rightarrow> bool" where
  "store_ok key lgs st \<equiv> sinv st \<and> sat (blob_logged (pl_aead Lib) key lgs) (meta_logged (pl_aead Lib) key lgs) st"

text \<open>What decrypts from the storage is a payload accepted for that entity.\<close>

lemma stored_payload_logged:
  assumes "store_ok key lgs st" and "no_splice (pl_aead Lib) key lgs"
    and "so_read (pl_storage Lib) f st eid = Inr x"
    and "b64_decode b64_std (fm_IV (fd_Metadata x)) = Some nonce" and "b64_decode b64_std (fm_Tag (fd_Metadata x)) = Some tag"
    and "Decrypt (pl_aead Lib) key (fd_Blob x) nonce tag = Inr p"
  shows "payload_logged lgs eid p"
proof -
  from assms(1) have inv: "sinv st" and sat: "sat (blob_logged (pl_aead Lib) key lgs) (meta_logged (pl_aead Lib) key lgs) st" by simp_all
  from S.sat_read [OF inv sat assms(3)] obtain g h where g: "g \<in> set lgs" "lg_entity g = eid" "fd_Blob x = cipher_part (pl_aead Lib) key g"
    and h: "h \<in> set lgs" "lg_entity h = eid" "length (lg_nonce h) = NonceSize"
    "fm_IV (fd_Metadata x) = b64_encode b64_std (lg_nonce h)" "fm_Tag (fd_Metadata x) = b64_encode b64_std (tag_part (pl_aead Lib) key h)"
    by (auto simp: blob_logged_def meta_logged_def)
  with assms(4,5) have nt: "nonce = lg_nonce h" "tag = tag_part (pl_aead Lib) key h" by simp_all
  from assms(6) have "valid_key_size key" and "fd_Blob x @ tag = aead_seal (pl_aead Lib) key nonce p"
    by (simp_all add: G.Decrypt_iff)
  with h(3) nt g(3) have "aead_open (pl_aead Lib) key (lg_nonce h) (cipher_part (pl_aead Lib) key g @ tag_part (pl_aead Lib) key h) = Some p"
    by (simp add: G.open_iff)
  with assms(2) g(1) h(1) have "p = lg_payload h" by (auto simp: no_splice_def)
  with h show ?thesis by (auto simp: payload_logged_def)
qed

lemma get_locked_ok:
  assumes ok: "srv_ok key lgs srv" "store_ok key lgs st" "no_splice (pl_aead Lib) key lgs"
    and get: "get_locked Lib env srv st eid = (srv', r)"
  shows "srv_ok key lgs srv' \<and> (\<forall>resp. r = Inr resp \<longrightarrow> payload_logged lgs eid (rs_Result resp))"
proof (cases r)
  case (Inl e)
  with get have "srv' = srv \<or> srv' = count_crypto ''decrypt'' True srv"
    by (auto simp: get_locked_def Let_def split: sum.splits if_splits option.splits)
  with ok(1) Inl show ?thesis by (auto simp: server_ok_def)
next
  case (Inr resp)
  with get obtain x nonce tag p where rd: "so_read (pl_storage Lib) (he_read env) st eid = Inr x"
    and ne: "pw_encryptionKey (ps_worker srv) \<noteq> []"
    and dec: "b64_decode b64_std (fm_IV (fd_Metadata x)) = Some nonce" "b64_decode b64_std (fm_Tag (fd_Metadata x)) = Some tag"
      "Decrypt (pl_aead Lib) (pw_encryptionKey (ps_worker srv)) (fd_Blob x) nonce tag = Inr p"
    and srv': "srv' = (count_crypto ''decrypt'' False srv)\<lparr>ps_cache := cache_Set (pl_lru Lib) (he_second env) (ps_cache srv) eid p
        (Itoa (fm_Version (fd_Metadata x)))\<rparr>"
    and resp: "rs_Result resp = p"
    by (auto simp: get_locked_def Let_def response_def split: sum.splits if_splits option.splits)
  from ok(1) ne have key: "pw_encryptionKey (ps_worker srv) = key" by (simp add: server_ok_def)
  have pl: "payload_logged lgs eid p"
    by (rule stored_payload_logged [OF ok(2,3) rd dec(1,2) dec(3) [unfolded key]])
  have inv: "cache_inv items cap lok (ps_cache srv)" and all: "cached_all items (payload_logged lgs) (ps_cache srv)"
    using ok(1) by (simp_all add: server_ok_def)
  have "cached_all items (payload_logged lgs) (ps_cache srv')"
    unfolding srv' by (simp add: C.cached_all_Set [OF inv all pl])
  moreover have "cache_inv items cap lok (ps_cache srv')"
    unfolding srv' by (simp add: C.ec.store_inv [OF inv])
  ultimately show ?thesis using ok(1) Inr resp pl by (simp add: server_ok_def srv')
qed

lemma processGET_ok:
  assumes ok: "srv_ok key lgs srv" "store_ok key lgs st" "no_splice (pl_aead Lib) key lgs"
    and get: "processGET Lib env eid srv st = (srv', st', r)"
  shows "srv_ok key lgs srv' \<and> st' = st \<and> (\<forall>resp. r = Inr resp \<longrightarrow> payload_logged lgs eid (rs_Result resp))"
proof -
  obtain c hit where f: "cache_fetch (pl_lru Lib) (he_first env) (ps_cache srv) eid = (c, hit)"
    by (cases "cache_fetch (pl_lru Lib) (he_first env) (ps_cache srv) eid")
  have inv: "cache_inv items cap lok (ps_cache srv)" and all: "cached_all items (payload_logged lgs) (ps_cache srv)"
    using ok(1) by (simp_all add: server_ok_def)
  note fetched = C.cached_all_fetch [OF inv all f]
  have ok1: "srv_ok key lgs (srv\<lparr>ps_cache := c, ps_lockMgr := k\<rparr>)" for k
    using ok(1) fetched(1,2) by (simp add: server_ok_def)
  show ?thesis
  proof (cases hit)
    case (Some dv)
    obtain d v where dv: "dv = (d, v)" by (cases dv)
    with Some have "payload_logged lgs eid d" using fetched(3) by blast
    moreover have "srv' = srv\<lparr>ps_cache := c\<rparr>" "st' = st" "r = Inr (response ''OK'' d v)"
      using get f Some dv by (simp_all add: processGET_def)
    ultimately show ?thesis using ok(1) fetched(1,2) by (simp add: server_ok_def response_def)
  next
    case None
    obtain k e where a: "lo_acquire (pl_locks Lib) (ps_lockMgr srv) eid LockShared = (k, e)"
      by (cases "lo_acquire (pl_locks Lib) (ps_lockMgr srv) eid LockShared")
    show ?thesis
    proof (cases e)
      case (Some err)
      with get f \<open>hit = None\<close> a ok1 [of k] show ?thesis by (auto simp: processGET_def)
    next
      case None
      obtain srv1 r1 where g: "get_locked Lib env (srv\<lparr>ps_cache := c, ps_lockMgr := k\<rparr>) st eid = (srv1, r1)"
        by (cases "get_locked Lib env (srv\<lparr>ps_cache := c, ps_lockMgr := k\<rparr>) st eid")
      have "srv' = srv1\<lparr>ps_lockMgr := lo_release (pl_locks Lib) (ps_lockMgr srv1) eid\<rparr>" "st' = st" "r = r1"
        using get f \<open>hit = None\<close> a None g by (simp_all add: processGET_def Let_def)
      with get_locked_ok [OF ok1 ok(2,3) g] show ?thesis by (simp add: server_ok_def)
    qed
  qed
qed

lemma processPUT_ok:
  assumes ok: "srv_ok key lgs srv" and n: "\<forall>n. he_nonce env = Some n \<longrightarrow> length n = NonceSize"
    and put: "processPUT Lib env req eid srv st = (srv', st', Inr resp)"
    and cod: "\<forall>job \<in> set (ps_pendingWrites srv'). cod (wj_metadata job)"
  shows "srv_ok key (lgs @ [\<lparr>lg_entity = eid, lg_nonce = the (he_nonce env), lg_payload = GetPayload req\<rparr>]) srv' \<and> st' = st"
proof -
  from put obtain nn enc ver srv1 where nn: "he_nonce env = Some nn"
    and enc: "Encrypt (pl_aead Lib) (Some nn) (pw_encryptionKey (ps_worker srv)) (GetPayload req) = Inr enc"
    and ne: "pw_encryptionKey (ps_worker srv) \<noteq> []" and st: "st' = st"
    and c: "ps_cache srv' = cache_Set (pl_lru Lib) (he_second env) (ps_cache srv) eid (GetPayload req) (Itoa ver)"
    and w: "ps_worker srv' = ps_worker srv"
    and pend: "ps_pendingWrites srv' = ps_pendingWrites srv @
       [\<lparr>wj_entityID = eid, wj_blob = er_Ciphertext enc, wj_metadata = put_metadata env req (ps_worker srv) enc ver, wj_nextVersion = ver\<rparr>]"
    by (rule processPUT_accepted)
  have key: "pw_encryptionKey (ps_worker srv) = key" using ok ne by (simp add: server_ok_def)
  let ?g = "\<lparr>lg_entity = eid, lg_nonce = nn, lg_payload = GetPayload req\<rparr>"
  have len: "length nn = NonceSize" using n nn by simp
  note parts = G.Encrypt_parts [OF enc [unfolded key] len]
  have "er_Ciphertext enc = cipher_part (pl_aead Lib) key ?g" "er_Tag enc = tag_part (pl_aead Lib) key ?g"
    using parts by (simp_all add: cipher_part_def tag_part_def) (metis append_eq_conv_conj)+
  then have new: "blob_logged (pl_aead Lib) key (lgs @ [?g]) eid (er_Ciphertext enc)"
    "meta_logged (pl_aead Lib) key (lgs @ [?g]) eid (put_metadata env req (ps_worker srv) enc ver)"
    using parts len by (simp_all add: blob_logged_def meta_logged_def put_metadata_def)
  have ok': "srv_ok key (lgs @ [?g]) srv" using ok by (rule server_ok_mono) auto
  have inv: "cache_inv items cap lok (ps_cache srv)" and all: "cached_all items (payload_logged (lgs @ [?g])) (ps_cache srv)"
    using ok' by (simp_all add: server_ok_def)
  have "payload_logged (lgs @ [?g]) eid (GetPayload req)" by (simp add: payload_logged_def)
  with C.cached_all_Set [OF inv all] have "cached_all items (payload_logged (lgs @ [?g])) (ps_cache srv')" by (simp add: c)
  moreover have "cache_inv items cap lok (ps_cache srv')" unfolding c by (rule C.ec.store_inv [OF inv])
  ultimately have "srv_ok key (lgs @ [?g]) srv'"
    using ok' new cod by (auto simp: server_ok_def w pend)
  with st nn show ?thesis by simp
qed

lemma processDELETE_ok:
  assumes ok: "srv_ok key lgs srv" "store_ok key lgs st" and del: "processDELETE Lib env eid srv st = (srv', st', r)"
  shows "srv_ok key lgs srv' \<and> store_ok key lgs st'"
proof -
  obtain k e where a: "lo_acquire (pl_locks Lib) (ps_lockMgr srv) eid LockExclusive = (k, e)"
    by (cases "lo_acquire (pl_locks Lib) (ps_lockMgr srv) eid LockExclusive")
  show ?thesis
  proof (cases e)
    case (Some err)
    with del a ok show ?thesis by (auto simp: processDELETE_def server_ok_def)
  next
    case None
    have "st' = fst (so_delete (pl_storage Lib) (he_write env) eid st)"
      and srv': "srv' = srv\<lparr>ps_cache := fst (cache_Evict (pl_lru Lib) (ps_cache srv) eid), ps_lockMgr := lo_release (pl_locks Lib) k eid\<rparr>"
      using del a None by (auto simp: processDELETE_def Let_def split: prod.splits option.splits)
    moreover have inv: "cache_inv items cap lok (ps_cache srv)" and all: "cached_all items (payload_logged lgs) (ps_cache srv)"
      using ok(1) by (simp_all add: server_ok_def)
    ultimately show ?thesis
      using ok S.delete_inv S.sat_delete C.cached_all_Evict [OF inv all] C.ec.evict_inv [OF inv] by (simp add: server_ok_def)
  qed
qed

lemma async_write_ok:
  assumes ok: "srv_ok key lgs srv" "store_ok key lgs st"
    and job: "blob_logged (pl_aead Lib) key lgs (wj_entityID job) (wj_blob job)"
      "meta_logged (pl_aead Lib) key lgs (wj_entityID job) (wj_metadata job)" "cod (wj_metadata job)"
    and aw: "async_write Lib env job srv st = (srv', st')"
  shows "srv_ok key lgs srv' \<and> store_ok key lgs st'"
proof -
  have "st' = st \<or> st' = fst (so_write (pl_storage Lib) (he_write env) (wj_entityID job) (wj_blob job) (wj_metadata job) st)"
    using aw by (auto simp: async_write_def Let_def split: prod.splits option.splits if_splits)
  then have "store_ok key lgs st'" using ok(2) job S.write_inv S.sat_write by metis
  moreover have "ps_worker srv' = ps_worker srv" "ps_cache srv' = ps_cache srv" "ps_pendingWrites srv' = ps_pendingWrites srv"
    using aw by (auto simp: async_write_def Let_def split: prod.splits option.splits if_splits)
  ultimately show ?thesis using ok(1) server_ok_cong by blast
qed

definition sys_ok :: "bytes \<Rightarrow> ('l, 'k, 's, 'rk, 'st) sys_state \<Rightarrow> bool" where
  "sys_ok key = (\<lambda>(srvs, st, lgs). (\<forall>i. srv_ok key lgs (srvs i)) \<and> store_ok key lgs st)"

lemma Process_ok:
  assumes ok: "srv_ok key lgs srv" "store_ok key lgs st" and spl: "no_splice (pl_aead Lib) key (lgs @ logged env req r)"
    and proc: "proc_Process Lib env req srv st = (srv', st', r)"
    and n: "\<forall>n. he_nonce env = Some n \<longrightarrow> length n = NonceSize"
    and cod: "\<forall>job \<in> set (ps_pendingWrites srv'). cod (wj_metadata job)"
  shows "srv_ok key (lgs @ logged env req r) srv' \<and> store_ok key (lgs @ logged env req r) st' \<and>
    (GetOperation req = ''GET'' \<longrightarrow> (\<forall>resp. r = Inr resp \<longrightarrow>
       payload_logged lgs (entity_id (GetSchemaId req) (GetEntityKey req)) (rs_Result resp)))"
  using proc
proof (cases rule: Process_cases)
  case (refused e)
  with ok show ?thesis by (simp add: logged_def)
next
  case get
  let ?eid = "entity_id (GetSchemaId req) (GetEntityKey req)"
  obtain srv1 st1 r1 where g: "processGET Lib env ?eid srv st = (srv1, st1, r1)" by (cases "processGET Lib env ?eid srv st")
  note fr = count_request_frame [OF get(2) [unfolded g]]
  have lg: "logged env req r = []" using get(1) by (simp add: logged_def split: sum.splits)
  from processGET_ok [OF ok _ g] spl lg have
    "srv_ok key lgs srv1 \<and> st1 = st \<and> (\<forall>resp. r1 = Inr resp \<longrightarrow> payload_logged lgs ?eid (rs_Result resp))" by simp
  then show ?thesis using server_ok_cong [of srv' srv1] fr ok(2) lg by simp
next
  case put
  let ?eid = "entity_id (GetSchemaId req) (GetEntityKey req)"
  obtain srv1 st1 r1 where g: "processPUT Lib env req ?eid srv st = (srv1, st1, r1)" by (cases "processPUT Lib env req ?eid srv st")
  note fr = count_request_frame [OF put(2) [unfolded g]]
  have up: "store_ok key (lgs @ x) st" for x
    using ok(2) by (auto elim!: S.sat_mono intro: logged_mono(1,2) [of lgs "lgs @ x", simplified])
  show ?thesis
  proof (cases r1)
    case (Inl e)
    note ref = processPUT_refused [OF g [unfolded Inl]]
    from ok(1) server_ok_cong [of srv' srv] fr ref Inl show ?thesis
      using ok(2) put(1) by (simp add: logged_def)
  next
    case (Inr resp)
    have "\<forall>job \<in> set (ps_pendingWrites srv1). cod (wj_metadata job)" using cod fr(3) by simp
    from processPUT_ok [OF ok(1) n g [unfolded Inr] this] server_ok_cong [of srv' srv1] fr Inr up put(1) show ?thesis
      by (simp add: logged_def)
  qed
next
  case delete
  let ?eid = "entity_id (GetSchemaId req) (GetEntityKey req)"
  obtain srv1 st1 r1 where g: "processDELETE Lib env ?eid srv st = (srv1, st1, r1)" by (cases "processDELETE Lib env ?eid srv st")
  note fr = count_request_frame [OF delete(2) [unfolded g]]
  have lg: "logged env req r = []" using delete(1) by (simp add: logged_def split: sum.splits)
  from processDELETE_ok [OF ok g] server_ok_cong [of srv' srv1] fr lg delete(1) show ?thesis by simp
qed

lemma sys_step_ok:
  assumes "sys_step Lib cod s s'" and "sys_ok key s" and "no_splice (pl_aead Lib) key (snd (snd s'))"
  shows "sys_ok key s'"
  using assms
proof (induction rule: sys_step.induct)
  case (serve env req srvs i st srv' st' r lgs)
  then have ok: "srv_ok key lgs (srvs i)" "store_ok key lgs st" "\<forall>j. srv_ok key lgs (srvs j)"
    by (simp_all add: sys_ok_def)
  from Process_ok [OF ok(1,2) _ serve(1,2,3)] serve(5)
  have "srv_ok key (lgs @ logged env req r) srv' \<and> store_ok key (lgs @ logged env req r) st'" by simp
  moreover have "srv_ok key (lgs @ logged env req r) (srvs j)" for j
    by (rule server_ok_mono [OF ok(3) [rule_format]]) simp
  ultimately show ?case by (simp add: sys_ok_def)
next
  case (flush srvs i xs job ys env st srv' st' lgs)
  then have ok: "srv_ok key lgs (srvs i)" "store_ok key lgs st" "\<forall>j. srv_ok key lgs (srvs j)"
    by (simp_all add: sys_ok_def)
  then have rest: "srv_ok key lgs ((srvs i)\<lparr>ps_pendingWrites := xs @ ys\<rparr>)" using flush(1) by (auto simp: server_ok_def)
  have "job \<in> set (ps_pendingWrites (srvs i))" using flush(1) by simp
  with ok(1) have job: "blob_logged (pl_aead Lib) key lgs (wj_entityID job) (wj_blob job)"
      "meta_logged (pl_aead Lib) key lgs (wj_entityID job) (wj_metadata job)" "cod (wj_metadata job)"
    unfolding server_ok_def by blast+
  from async_write_ok [OF rest ok(2) job flush(2)] ok(3) show ?case by (simp add: sys_ok_def)
next
  case (tick srvs st lgs i now)
  then have ok: "\<forall>j. srv_ok key lgs (srvs j)" "store_ok key lgs st" by (simp_all add: sys_ok_def)
  then have "cache_inv items cap lok (ps_cache (srvs i))" "cached_all items (payload_logged lgs) (ps_cache (srvs i))"
    by (simp_all add: server_ok_def)
  with C.cached_all_expire [OF this] ok show ?case by (simp add: sys_ok_def server_ok_def)
next
  case (restart config c srvs st lgs i)
  then have ok: "\<forall>j. srv_ok key lgs (srvs j)" "store_ok key lgs st" by (simp_all add: sys_ok_def)
  with C.cached_all_new [OF restart(1)] show ?case by (simp add: sys_ok_def server_ok_def)
qed

lemma sys_step_log: "sys_step Lib cod s s' \<Longrightarrow> set (snd (snd s)) \<subseteq> set (snd (snd s'))"
  by (induction rule: sys_step.induct) auto

lemma sys_reach_ok:
  assumes "(sys_step Lib cod)\<^sup>*\<^sup>* s s'" and "sys_ok key s" and "no_splice (pl_aead Lib) key (snd (snd s'))"
  shows "sys_ok key s'"
  using assms
proof (induction rule: rtranclp_induct)
  case (step s1 s2)
  from logged_mono(4) [OF sys_step_log [OF step(2)] step(5)] step have "sys_ok key s1" by blast
  with sys_step_ok [OF step(2)] step(5) show ?case by blast
qed

end

end
