(* ===== verification/Proc_Properties.thy ===== *)
theory Proc_Properties
  imports Proc_System Storage_Properties
begin

text \<open>
  What the Processing Workers guarantee: bad requests are refused, accepted writes are read back
  from the cache and, once their promised write is made, from the disk, and what a GET returns
  was accepted by a PUT of the same entity.  The last two properties are interleavings of
  accepted requests with the promised writes that lose or revive data.
\<close>

section \<open>Single requests\<close>

lemma processPUT_cong:
  assumes "proc_Process Lib env req srv st = (srv', st', Inr resp)" and "GetOperation req = ''PUT''"
  obtains srv1 where "processPUT Lib env req (entity_id (GetSchemaId req) (GetEntityKey req)) srv st = (srv1, st', Inr resp)"
    "ps_cache srv' = ps_cache srv1" "ps_worker srv' = ps_worker srv1" "ps_pendingWrites srv' = ps_pendingWrites srv1"
    "ps_lockMgr srv' = ps_lockMgr srv1"
  using assms(1)
proof (cases rule: Process_cases)
  case put
  obtain srv1 st1 r1 where g: "processPUT Lib env req (entity_id (GetSchemaId req) (GetEntityKey req)) srv st = (srv1, st1, r1)"
    by (cases "processPUT Lib env req (entity_id (GetSchemaId req) (GetEntityKey req)) srv st")
  from that [of srv1] count_request_frame [OF put(2) [unfolded g]] g show thesis by simp
qed (use assms(2) in auto)

text \<open>The requests that reach a handler: both parts of the entity id present and free of path syntax.\<close>

definition addressable :: "ProcessRequest option \<Rightarrow> bool" where
  "addressable req \<longleftrightarrow> GetSchemaId req \<noteq> [] \<and> GetEntityKey req \<noteq> [] \<and>
     \<not> ContainsAny (GetSchemaId req) path_seps \<and> \<not> Contains (GetSchemaId req) ''..'' \<and>
     \<not> ContainsAny (GetEntityKey req) path_seps \<and> \<not> Contains (GetEntityKey req) ''..''"

abbreviation request_entity :: "ProcessRequest option \<Rightarrow> string" where
  "request_entity req \<equiv> entity_id (GetSchemaId req) (GetEntityKey req)"

lemma Process_dispatch:
  assumes "addressable req"
  shows "GetOperation req = ''GET'' \<Longrightarrow>
      proc_Process Lib env req srv st = count_request (pl_lru Lib) ''GET'' (processGET Lib env (request_entity req) srv st)"
    "GetOperation req = ''PUT'' \<Longrightarrow>
      proc_Process Lib env req srv st = count_request (pl_lru Lib) ''PUT'' (processPUT Lib env req (request_entity req) srv st)"
    "GetOperation req = ''DELETE'' \<Longrightarrow>
      proc_Process Lib env req srv st = count_request (pl_lru Lib) ''DELETE'' (processDELETE Lib env (request_entity req) srv st)"
  using assms by (simp_all add: proc_Process_def addressable_def Let_def)

lemma Process_not_addressable:
  assumes "\<not> (addressable req \<and> GetOperation req \<in> {''GET'', ''PUT'', ''DELETE''})"
  shows "\<exists>msg. proc_Process Lib env req srv st = (srv, st, Inl (InvalidArgument, msg))"
  using assms by (auto simp: proc_Process_def addressable_def Let_def)

lemma Process_accepted_addressable:
  assumes "proc_Process Lib env req srv st = (srv', st', Inr resp)"
  shows "addressable req"
  using Process_not_addressable [of req Lib env srv st] assms by auto

lemma count_request_result [simp]: "snd (count_request L op x) = snd x"
  by (cases x) (simp add: count_request_def Let_def)

lemma count_request_pending [simp]: "ps_pendingWrites (fst (count_request L op x)) = ps_pendingWrites (fst x)"
  by (cases x) (simp add: count_request_def Let_def)

lemma Contains_dots_part:
  assumes "Contains (x @ ''_'' @ y) ''..''"
  shows "Contains x ''..'' \<or> Contains y ''..''"
  using assms
proof (induction x)
  case (Cons c x)
  then show ?case by (cases x) (auto simp: HasPrefix_def)
qed (simp add: HasPrefix_def)

lemma entity_id_valid:
  assumes "addressable req"
  shows "isValidEntityID (request_entity req)"
  using assms Contains_dots_part [of "GetSchemaId req" "GetEntityKey req"]
  by (auto simp: addressable_def isValidEntityID_def entity_id_def ContainsAny_def)

section \<open>The promised write and the reads\<close>

text \<open>A worker that holds the key and gets the lock.\<close>

definition able :: "('l, 'st, 'f, 'k, 's) proc_libs \<Rightarrow> bytes \<Rightarrow> LockType \<Rightarrow> string \<Rightarrow> ('l, 'k, 's, 'rk) ProcWorkerServer \<Rightarrow> bool" where
  "able Lib key t eid srv \<longleftrightarrow> key \<noteq> [] \<and> pw_encryptionKey (ps_worker srv) = key \<and>
     snd (lo_acquire (pl_locks Lib) (ps_lockMgr srv) eid t) = None"

text \<open>The write job of an accepted PUT: what it carries decrypts to the payload.\<close>

definition promises :: "aead \<Rightarrow> bytes \<Rightarrow> string \<Rightarrow> bytes \<Rightarrow> int \<Rightarrow> write_job \<Rightarrow> bool" where
  "promises A key eid p ver job \<longleftrightarrow> wj_entityID job = eid \<and> wj_nextVersion job = ver \<and> fm_Version (wj_metadata job) = ver \<and>
     (\<exists>nonce tag. b64_decode b64_std (fm_IV (wj_metadata job)) = Some nonce \<and> b64_decode b64_std (fm_Tag (wj_metadata job)) = Some tag \<and>
       Decrypt A key (wj_blob job) nonce tag = Inr p)"

lemma async_write_store:
  assumes "snd (lo_acquire (pl_locks Lib) (ps_lockMgr srv) (wj_entityID job) LockExclusive) = None"
  shows "snd (async_write Lib env job srv st) =
    (case so_read (pl_storage Lib) (he_read env) st (wj_entityID job) of
       Inr existing \<Rightarrow> if wj_nextVersion job \<le> fm_Version (fd_Metadata existing) then st
         else fst (so_write (pl_storage Lib) (he_write env) (wj_entityID job) (wj_blob job) (wj_metadata job) st)
     | Inl _ \<Rightarrow> fst (so_write (pl_storage Lib) (he_write env) (wj_entityID job) (wj_blob job) (wj_metadata job) st))"
  using assms by (auto simp: async_write_def Let_def split: prod.splits option.splits sum.splits)

text \<open>A GET that misses the cache decrypts what the storage returns.\<close>

lemma GET_from_storage:
  assumes "able Lib key LockShared eid srv"
    and "snd (cache_fetch (pl_lru Lib) (he_first env) (ps_cache srv) eid) = None"
    and "so_read (pl_storage Lib) (he_read env) st eid = Inr \<lparr>fd_Blob = wj_blob job, fd_Metadata = wj_metadata job\<rparr>"
    and "promises (pl_aead Lib) key eid p ver job"
  shows "snd (processGET Lib env eid srv st) = (st, Inr (response ''OK'' p (Itoa ver)))"
proof -
  obtain c where f: "cache_fetch (pl_lru Lib) (he_first env) (ps_cache srv) eid = (c, None)"
    using assms(2) by (metis prod.collapse)
  obtain k where k: "lo_acquire (pl_locks Lib) (ps_lockMgr srv) eid LockShared = (k, None)"
    using assms(1) unfolding able_def by (metis prod.collapse)
  obtain nonce tag where d: "b64_decode b64_std (fm_IV (wj_metadata job)) = Some nonce"
      "b64_decode b64_std (fm_Tag (wj_metadata job)) = Some tag" "Decrypt (pl_aead Lib) key (wj_blob job) nonce tag = Inr p"
    and v: "fm_Version (wj_metadata job) = ver"
    using assms(4) by (auto simp: promises_def)
  have "snd (get_locked Lib env (srv\<lparr>ps_cache := c, ps_lockMgr := k\<rparr>) st eid) = Inr (response ''OK'' p (Itoa ver))"
    using assms(1,3) d v by (simp add: get_locked_def able_def Let_def)
  then show ?thesis using f k by (auto simp: processGET_def split: prod.splits)
qed

context proc_system
begin

lemma PUT_promises:
  assumes put: "processPUT Lib env req eid srv st = (srv', st', Inr resp)"
    and n: "\<forall>n. he_nonce env = Some n \<longrightarrow> length n = NonceSize"
  obtains job where "ps_pendingWrites srv' = ps_pendingWrites srv @ [job]"
    "promises (pl_aead Lib) (pw_encryptionKey (ps_worker srv)) eid (GetPayload req) (next_version Lib env srv st eid) job"
    "resp = response ''OK'' [] (Itoa (next_version Lib env srv st eid))"
proof -
  from put obtain nn enc ver srv1 where nn: "he_nonce env = Some nn"
    and enc: "Encrypt (pl_aead Lib) (Some nn) (pw_encryptionKey (ps_worker srv)) (GetPayload req) = Inr enc"
    and ver: "ver = next_version Lib env srv st eid"
    and pend: "ps_pendingWrites srv' = ps_pendingWrites srv @
       [\<lparr>wj_entityID = eid, wj_blob = er_Ciphertext enc, wj_metadata = put_metadata env req (ps_worker srv) enc ver, wj_nextVersion = ver\<rparr>]"
    and resp: "resp = response ''OK'' [] (Itoa ver)"
    by (rule processPUT_accepted)
  have "length nn = NonceSize" using n nn by simp
  from G.decrypt_encrypt [OF enc this] pend ver resp show thesis
    by (intro that [of "\<lparr>wj_entityID = eid, wj_blob = er_Ciphertext enc,
         wj_metadata = put_metadata env req (ps_worker srv) enc ver, wj_nextVersion = ver\<rparr>"])
      (simp_all add: promises_def put_metadata_def)
qed

lemma GET_after_PUT:
  assumes inv: "cache_inv items cap lok (ps_cache srv)"
    and put: "processPUT Lib env req eid srv st = (srv', st', Inr resp)"
    and live: "\<not> expired_at (he_first env2) (set_expiry (he_second env) (ps_cache srv))"
    and same: "ps_cache srv2 = ps_cache srv'"
  shows "snd (processGET Lib env2 eid srv2 st2) = (st2, Inr (response ''OK'' (GetPayload req) (rs_Version resp)))"
proof -
  from put obtain n enc ver srv1 where
    c: "ps_cache srv' = cache_Set (pl_lru Lib) (he_second env) (ps_cache srv) eid (GetPayload req) (Itoa ver)"
    and resp: "resp = response ''OK'' [] (Itoa ver)" by (rule processPUT_accepted)
  from C.ec.fetch_after_store [OF inv live, of eid "GetPayload req" "Itoa ver"]
  obtain c' where "cache_fetch (pl_lru Lib) (he_first env2) (ps_cache srv2) eid = (c', Some (GetPayload req, Itoa ver))"
    unfolding same c by (metis prod.collapse)
  then show ?thesis by (simp add: processGET_def resp response_def)
qed

lemma next_version_after_PUT:
  assumes inv: "cache_inv items cap lok (ps_cache srv)"
    and put: "processPUT Lib env req eid srv st = (srv', st', Inr resp)"
    and live: "\<not> expired_at (he_first env2) (set_expiry (he_second env) (ps_cache srv))"
    and same: "ps_cache srv2 = ps_cache srv'"
    and ver: "0 < next_version Lib env srv st eid" "is_i64 (next_version Lib env srv st eid)"
  shows "next_version Lib env2 srv2 st2 eid = i64 (next_version Lib env srv st eid + 1)"
proof -
  from put obtain n enc v srv1 where v: "v = next_version Lib env srv st eid"
    and c: "ps_cache srv' = cache_Set (pl_lru Lib) (he_second env) (ps_cache srv) eid (GetPayload req) (Itoa v)"
    by (rule processPUT_accepted)
  have "GetVersion (pl_lru Lib) (he_first env2) (ps_cache srv2) eid = Itoa v"
    using C.ec.vers_result [OF C.ec.store_inv [OF inv]] C.ec.store_same [OF inv] live unfolding same c by simp
  with ver v show ?thesis by (simp add: next_version_def)
qed

lemma GET_from_disk:
  assumes "able Lib key LockShared eid srv" and "cache_inv items cap lok (ps_cache srv)"
    and "cache_lookup items (ps_cache srv) eid = None"
    and "so_read (pl_storage Lib) (he_read env) st eid = Inr \<lparr>fd_Blob = wj_blob job, fd_Metadata = wj_metadata job\<rparr>"
    and "promises (pl_aead Lib) key eid p ver job"
  shows "snd (processGET Lib env eid srv st) = (st, Inr (response ''OK'' p (Itoa ver)))"
  using assms(1,4,5) C.ec.fetch_result [OF assms(2), of "he_first env" eid] assms(3)
  by (intro GET_from_storage) simp_all

end

section \<open>Workers on the local file system\<close>

definition local_storage :: "meta_codec \<Rightarrow> Storage \<Rightarrow> (file_sys, faults) storage_ops" where
  "local_storage J s = \<lparr>so_write = WriteFile J s, so_read = fs_ReadFile J s, so_delete = DeleteFile s, so_tree = (\<lambda>fs. fs)\<rparr>"

definition local_libs ::
    "'l lru_ops \<Rightarrow> meta_codec \<Rightarrow> Storage \<Rightarrow> 'k lock_ops \<Rightarrow> 's schema_lib \<Rightarrow> ('l, file_sys, faults, 'k, 's) proc_libs" where
  "local_libs L J s K V = \<lparr>pl_lru = L, pl_storage = local_storage J s, pl_locks = K, pl_aead = aes_gcm, pl_schema = V\<rparr>"

lemma local_libs_simps [simp]:
  "pl_lru (local_libs L J s K V) = L" "pl_locks (local_libs L J s K V) = K" "pl_aead (local_libs L J s K V) = aes_gcm"
  "pl_schema (local_libs L J s K V) = V" "so_write (pl_storage (local_libs L J s K V)) = WriteFile J s"
  "so_read (pl_storage (local_libs L J s K V)) = fs_ReadFile J s" "so_delete (pl_storage (local_libs L J s K V)) = DeleteFile s"
  "so_tree (pl_storage (local_libs L J s K V)) = (\<lambda>fs. fs)"
  by (simp_all add: local_libs_def local_storage_def)

lemma local_system:
  assumes "lru_spec L items cap lok"
  shows "proc_system (local_libs L J s K V) items cap lok no_faults (storage_inv s) (codable J) (files_satisfy J s)"
  unfolding proc_system_def
  using assms local_origin.storage_origin_axioms [of J s] aes.gcm_cipher_axioms by simp

interpretation local_workers: proc_system "local_libs list_lru_ops J s K V" ll_items ll_cap list_lru_ok
    no_faults "storage_inv s" "codable J" "files_satisfy J s" for J s K V
  by (rule local_system [OF llru.lru_spec_axioms])

text \<open>An operation on one entity leaves what is read of the others.\<close>

lemma Process_store:
  assumes "proc_Process Lib env req srv st = (srv', st', r)"
  shows "st' = st \<or> GetOperation req = ''DELETE'' \<and> st' = fst (so_delete (pl_storage Lib) (he_write env) (request_entity req) st)"
  using assms
proof (cases rule: Process_cases)
  case get
  obtain srv1 st1 r1 where g: "processGET Lib env (request_entity req) srv st = (srv1, st1, r1)"
    by (cases "processGET Lib env (request_entity req) srv st")
  have "st1 = st" using g by (auto simp: processGET_def Let_def split: prod.splits option.splits)
  with count_request_frame(5) [OF get(2) [unfolded g]] show ?thesis by simp
next
  case put
  obtain srv1 st1 r1 where g: "processPUT Lib env req (request_entity req) srv st = (srv1, st1, r1)"
    by (cases "processPUT Lib env req (request_entity req) srv st")
  have "st1 = st" using g by (auto simp: processPUT_def Let_def split: if_splits prod.splits option.splits sum.splits)
  with count_request_frame(5) [OF put(2) [unfolded g]] show ?thesis by simp
next
  case delete
  obtain srv1 st1 r1 where g: "processDELETE Lib env (request_entity req) srv st = (srv1, st1, r1)"
    by (cases "processDELETE Lib env (request_entity req) srv st")
  have "st1 = st \<or> st1 = fst (so_delete (pl_storage Lib) (he_write env) (request_entity req) st)"
    using g by (auto simp: processDELETE_def Let_def split: prod.splits option.splits)
  with count_request_frame(5) [OF delete(2) [unfolded g]] delete(1) show ?thesis by auto
qed simp

text \<open>The promised write, made without a fault on a disk with no version as new, is what the next reader sees.\<close>

lemma promised_write_read:
  assumes "lru_spec L items cap lok" and "storage_inv s fs2"
    and "promises aes_gcm key eid p ver job" and "codable J (wj_metadata job)" and "isValidEntityID eid"
    and "able (local_libs L J s K V) key LockExclusive eid srvA" and "he_read envA = no_faults" and "he_write envA = no_faults"
    and "\<forall>x. fs_ReadFile J s no_faults fs2 eid = Inr x \<longrightarrow> fm_Version (fd_Metadata x) < ver"
    and "async_write (local_libs L J s K V) envA job srvA fs2 = (srvA', fs3)"
  shows "storage_inv s fs3 \<and> fs_ReadFile J s no_faults fs3 eid = Inr \<lparr>fd_Blob = wj_blob job, fd_Metadata = wj_metadata job\<rparr>"
proof -
  let ?Lib = "local_libs L J s K V"
  have j: "wj_entityID job = eid" "wj_nextVersion job = ver" using assms(3) by (simp_all add: promises_def)
  have "fs3 = fst (WriteFile J s no_faults eid (wj_blob job) (wj_metadata job) fs2)"
    using async_write_store [of ?Lib srvA job envA fs2] assms(6-10) j by (auto simp: able_def split: sum.splits)
  moreover have "snd (WriteFile J s no_faults eid (wj_blob job) (wj_metadata job) fs2) = None"
    using local_fs.write_succeeds [OF assms(2,5)] assms(4) by simp
  ultimately have w: "WriteFile J s no_faults eid (wj_blob job) (wj_metadata job) fs2 = (fs3, None)" by (metis prod.collapse)
  with local_fs.write_read [OF assms(2,4)] local_fs.write_inv [OF assms(2), of J no_faults eid "wj_blob job" "wj_metadata job"]
  show ?thesis by simp
qed

lemma accepted_put_promises:
  assumes "lru_spec L items cap lok"
    and "proc_Process (local_libs L J s K V) env req srv fs = (srv', fs', Inr resp)" and "GetOperation req = ''PUT''"
    and "\<forall>n. he_nonce env = Some n \<longrightarrow> length n = NonceSize"
  shows "promises aes_gcm (pw_encryptionKey (ps_worker srv)) (request_entity req) (GetPayload req)
      (next_version (local_libs L J s K V) env srv fs (request_entity req)) (last (ps_pendingWrites srv')) \<and>
    rs_Version resp = Itoa (next_version (local_libs L J s K V) env srv fs (request_entity req)) \<and>
    isValidEntityID (request_entity req)"
proof -
  let ?Lib = "local_libs L J s K V" and ?eid = "request_entity req"
  obtain srv1 where put: "processPUT ?Lib env req ?eid srv fs = (srv1, fs', Inr resp)"
    and same: "ps_pendingWrites srv' = ps_pendingWrites srv1"
    using processPUT_cong [OF assms(2,3)] by metis
  obtain job where "ps_pendingWrites srv1 = ps_pendingWrites srv @ [job]"
    and "promises (pl_aead ?Lib) (pw_encryptionKey (ps_worker srv)) ?eid (GetPayload req) (next_version ?Lib env srv fs ?eid) job"
    and "resp = response ''OK'' [] (Itoa (next_version ?Lib env srv fs ?eid))"
    using proc_system.PUT_promises [OF local_system [OF assms(1)] put assms(4)] by metis
  with same show ?thesis
    using entity_id_valid [OF Process_accepted_addressable [OF assms(2)]] by (simp add: response_def)
qed

text \<open>A write, failed or not, leaves a readable entity readable, with its old metadata or the new.\<close>

lemma write_keeps_readable:
  assumes "storage_inv s fs" and "codable J m" and "WriteFile J s F eid b m fs = (fs', e)"
    and "fs_ReadFile J s no_faults fs eid = Inr x"
  shows "\<exists>y. fs_ReadFile J s no_faults fs' eid = Inr y \<and> fd_Metadata y \<in> {fd_Metadata x, m}"
proof -
  have inv': "storage_inv s fs'" using WriteFile_cases [OF assms(1,3)] by blast
  from assms(1,4) have st: "isValidEntityID eid" "stored J (entry (files_at s) fs) eid = Inr x"
    by (simp_all add: ReadFile_stored split: if_splits)
  from st(2) obtain b0 t0 where old: "entry (files_at s) fs (eid @ ''.json.enc'') = Some b0"
    "entry (files_at s) fs (eid @ ''.meta.json'') = Some t0" "mc_unmarshal J t0 = Some (fd_Metadata x)"
    by (auto simp: stored_def split: option.splits)
  consider "fs' = fs" | t where "mc_marshal J m = Some t" "write_effect eid b t e (entry (files_at s) fs) (entry (files_at s) fs')"
    using WriteFile_cases [OF assms(1,3)] by blast
  then show ?thesis
  proof cases
    case 2
    have "mc_unmarshal J t = Some m" using assms(2) 2(1) by (auto simp: codable_def split: option.splits)
    moreover have "entry (files_at s) fs' (eid @ ''.json.enc'') \<in> {Some b0, Some b}"
      "entry (files_at s) fs' (eid @ ''.meta.json'') \<in> {Some t0, Some t}"
      using 2(2) old by (auto simp: write_effect_def split: if_splits)
    ultimately show ?thesis using inv' st(1) old(3) by (auto simp: ReadFile_stored stored_def)
  qed (use assms(4) in auto)
qed

text \<open>The version of an entity that is neither cached nor stored.\<close>

lemma first_version:
  assumes "lru_spec L items cap lok" and "storage_inv s fs" and "fs_ReadFile J s no_faults fs eid = Inl ErrFileNotFound"
    and "cache_inv items cap lok (ps_cache srv)" "cache_lookup items (ps_cache srv) eid = None"
  shows "next_version (local_libs L J s K V) env srv fs eid = 1"
proof -
  have "fs_ReadFile J s f fs eid \<noteq> Inr x" for f x
    using local_fs.read_fault [OF assms(2)] assms(3) by fastforce
  moreover have "GetVersion L (he_first env) (ps_cache srv) eid = []"
    using lru_spec.GetVersion_value [OF assms(1,4)] assms(5) by simp
  moreover have "fst (Atoi []) = 0" by code_simp
  ultimately show ?thesis by (simp add: next_version_def split: sum.splits)
qed

section \<open>Properties\<close>

text \<open>
  C14. A request touches only the entity it names: one with a missing part, a path separator, two
  dots or an unknown operation is refused with InvalidArgument and changes nothing; any other
  works on an entity id that is valid for the storage, and what the storage returns for every
  other entity stays as it was.
\<close>

theorem request_confined:
  assumes "storage_inv s fs" and "proc_Process (local_libs L J s K V) env req srv fs = (srv', fs', r)"
  shows "if addressable req \<and> GetOperation req \<in> {''GET'', ''PUT'', ''DELETE''}
    then isValidEntityID (request_entity req) \<and> storage_inv s fs' \<and>
      (\<forall>eid. eid \<noteq> request_entity req \<longrightarrow> fs_ReadFile J s no_faults fs' eid = fs_ReadFile J s no_faults fs eid)
    else srv' = srv \<and> fs' = fs \<and> (\<exists>msg. r = Inl (InvalidArgument, msg))"
proof (cases "addressable req \<and> GetOperation req \<in> {''GET'', ''PUT'', ''DELETE''}")
  case True
  from Process_store [OF assms(2)] have "fs' = fs \<or> fs' = fst (DeleteFile s (he_write env) (request_entity req) fs)" by auto
  then show ?thesis
    using True assms(1) entity_id_valid [of req] local_fs.delete_inv [OF assms(1)] local_fs.delete_frame [OF assms(1)]
    by auto
next
  case False
  with Process_not_addressable [OF False, of "local_libs L J s K V" env srv fs] assms(2) show ?thesis by auto
qed

text \<open>
  C13. A worker reads its own writes: after an accepted PUT, a GET of the same entity at the same
  worker returns the payload and the version that the PUT reported, before and after the disk
  write, as long as the cache entry has not expired; and the next PUT there counts one further.
\<close>

theorem read_your_write:
  assumes "lru_spec L items cap lok" and "cache_inv items cap lok (ps_cache srv)"
    and "proc_Process (local_libs L J s K V) env req srv fs = (srv', fs', Inr resp)" and "GetOperation req = ''PUT''"
    and "GetOperation req2 = ''GET''" and "GetSchemaId req2 = GetSchemaId req" and "GetEntityKey req2 = GetEntityKey req"
    and "\<not> expired_at (he_first env2) (set_expiry (he_second env) (ps_cache srv))"
  shows "snd (proc_Process (local_libs L J s K V) env2 req2 srv' fs2) =
      (fs2, Inr (response ''OK'' (GetPayload req) (rs_Version resp))) \<and>
    rs_Version resp = Itoa (next_version (local_libs L J s K V) env srv fs (request_entity req)) \<and>
    (let v = next_version (local_libs L J s K V) env srv fs (request_entity req) in
     0 < v \<longrightarrow> is_i64 v \<longrightarrow> next_version (local_libs L J s K V) env2 srv' fs2 (request_entity req) = i64 (v + 1))"
proof -
  let ?Lib = "local_libs L J s K V"
  note sys = local_system [OF assms(1), of J s K V]
  obtain srv1 where put: "processPUT ?Lib env req (request_entity req) srv fs = (srv1, fs', Inr resp)"
    and same: "ps_cache srv' = ps_cache srv1"
    using processPUT_cong [OF assms(3,4)] by metis
  have addr: "addressable req2" using Process_accepted_addressable [OF assms(3)] assms(6,7) by (simp add: addressable_def)
  have "snd (processGET ?Lib env2 (request_entity req2) srv' fs2) = (fs2, Inr (response ''OK'' (GetPayload req) (rs_Version resp)))"
    using proc_system.GET_after_PUT [OF sys assms(2) put assms(8) same] assms(6,7) by simp
  moreover have "rs_Version resp = Itoa (next_version ?Lib env srv fs (request_entity req))"
    using processPUT_accepted [OF put] by (metis ProcessResponse.select_convs(3) response_def)
  moreover note proc_system.next_version_after_PUT [OF sys assms(2) put assms(8) same]
  ultimately show ?thesis by (simp add: Process_dispatch(1) [OF addr assms(5)] Let_def)
qed

text \<open>
  C8. An accepted PUT is durable once its promised write has run without a fault: if the disk has
  no newer version, every worker with the key that does not have the entity cached then reads the
  payload with the promised version, whatever other state it is in.
\<close>

theorem accepted_put_durable:
  assumes "lru_spec L items cap lok" and "storage_inv s fs2"
    and "proc_Process (local_libs L J s K V) env req srv fs = (srv', fs', Inr resp)" and "GetOperation req = ''PUT''"
    and "\<forall>n. he_nonce env = Some n \<longrightarrow> length n = NonceSize"
    and "codable J (wj_metadata (last (ps_pendingWrites srv')))"
    and "able (local_libs L J s K V) (pw_encryptionKey (ps_worker srv)) LockExclusive (request_entity req) srvA"
    and "he_read envA = no_faults" and "he_write envA = no_faults"
    and "\<forall>x. fs_ReadFile J s no_faults fs2 (request_entity req) = Inr x \<longrightarrow>
      fm_Version (fd_Metadata x) < next_version (local_libs L J s K V) env srv fs (request_entity req)"
    and "async_write (local_libs L J s K V) envA (last (ps_pendingWrites srv')) srvA fs2 = (srvA', fs3)"
    and "able (local_libs L J s K V) (pw_encryptionKey (ps_worker srv)) LockShared (request_entity req) srvB"
    and "cache_inv items cap lok (ps_cache srvB)" and "cache_lookup items (ps_cache srvB) (request_entity req) = None"
    and "he_read envB = no_faults"
  shows "snd (processGET (local_libs L J s K V) envB (request_entity req) srvB fs3) =
    (fs3, Inr (response ''OK'' (GetPayload req) (rs_Version resp)))"
proof -
  note pr = accepted_put_promises [OF assms(1,3,4,5)]
  note rd = promised_write_read [OF assms(1,2) conjunct1 [OF pr] assms(6) conjunct2 [OF conjunct2 [OF pr]] assms(7-11)]
  from proc_system.GET_from_disk [OF local_system [OF assms(1)] assms(12-14), of envB fs3] rd assms(15) pr show ?thesis by simp
qed

text \<open>
  A system at its start: no promised writes, fresh caches, one data key, and no stored entities.
  The invariant of the store and what its files satisfy are those of its backend.
\<close>

definition system_start ::
    "'l lru_ops \<Rightarrow> ('st \<Rightarrow> bool) \<Rightarrow> ((string \<Rightarrow> bytes \<Rightarrow> bool) \<Rightarrow> (string \<Rightarrow> FileMetadata \<Rightarrow> bool) \<Rightarrow> 'st \<Rightarrow> bool) \<Rightarrow> bytes
      \<Rightarrow> ('l, 'k, 's, 'rk, 'st) sys_state \<Rightarrow> bool" where
  "system_start L sinv sat key = (\<lambda>(srvs, st, lgs). lgs = [] \<and> sinv st \<and> sat (\<lambda>_ _. False) (\<lambda>_ _. False) st \<and>
     (\<forall>i. ps_pendingWrites (srvs i) = [] \<and> pw_encryptionKey (ps_worker (srvs i)) \<in> {[], key} \<and>
        (\<exists>config. NewCache L config = Inr (ps_cache (srvs i)))))"

context proc_system
begin

lemma start_ok:
  assumes "system_start (pl_lru Lib) sinv sat key start"
  shows "sys_ok key start"
proof -
  obtain srvs0 st0 lgs0 where start: "start = (srvs0, st0, lgs0)" by (cases start) auto
  have fresh: "cache_inv items cap lok (ps_cache (srvs0 j)) \<and> cached_all items P (ps_cache (srvs0 j))" for j P
  proof -
    obtain config where "NewCache (pl_lru Lib) config = Inr (ps_cache (srvs0 j))"
      using assms unfolding start system_start_def by blast
    from C.cached_all_new [OF this] show ?thesis by blast
  qed
  show ?thesis
    using assms fresh unfolding start system_start_def sys_ok_def server_ok_def by (auto elim!: S.sat_mono)
qed

lemma served_payload:
  assumes "system_start (pl_lru Lib) sinv sat key start" and "(sys_step Lib cod)\<^sup>*\<^sup>* start (srvs, st, lgs)" and "no_splice (pl_aead Lib) key lgs"
    and "proc_Process Lib env req (srvs i) st = (srv', st', Inr resp)" and "GetOperation req = ''GET''"
  shows "\<exists>g \<in> set lgs. lg_entity g = request_entity req \<and> lg_payload g = rs_Result resp"
proof -
  from sys_reach_ok [OF assms(2) start_ok [OF assms(1)]] assms(3) have ok: "sys_ok key (srvs, st, lgs)" by simp
  obtain srv1 where "processGET Lib env (request_entity req) (srvs i) st = (srv1, st, Inr resp)"
  proof -
    obtain srv1 st1 r1 where g: "processGET Lib env (request_entity req) (srvs i) st = (srv1, st1, r1)"
      by (cases "processGET Lib env (request_entity req) (srvs i) st")
    have "count_request (pl_lru Lib) ''GET'' (srv1, st1, r1) = (srv', st', Inr resp)"
      using Process_dispatch(1) [OF Process_accepted_addressable [OF assms(4)] assms(5), of Lib env "srvs i" st] assms(4) g by simp
    from count_request_frame(5,6) [OF this] have "st1 = st'" "r1 = Inr resp" by simp_all
    moreover have "st' = st" using Process_store [OF assms(4)] assms(5) by simp
    ultimately show thesis using that [of srv1] g by simp
  qed
  with processGET_ok [of key lgs "srvs i" st env "request_entity req" srv1 st "Inr resp"] ok assms(3)
  have "payload_logged lgs (request_entity req) (rs_Result resp)" unfolding sys_ok_def by simp
  then show ?thesis by (simp add: payload_logged_def)
qed

end

text \<open>
  C1. Integrity of the data served: take any number of workers on one store that is empty at the
  start, any requests, promised writes made in any order or lost in restarts, any refused locks
  and failing system calls.  Whatever a GET of an entity then returns is the payload of an
  accepted PUT of that same entity.  The cipher is assumed not to open a mixture of two accepted
  payloads (\<open>no_splice\<close>), the one property of it that is cryptographic.
\<close>

theorem served_payload_was_accepted:
  assumes "lru_spec L items cap lok" and "system_start L (storage_inv s) (files_satisfy J s) key start"
    and "(sys_step (local_libs L J s K V) (codable J))\<^sup>*\<^sup>* start (srvs, fs, lgs)"
    and "no_splice aes_gcm key lgs"
    and "proc_Process (local_libs L J s K V) env req (srvs i) fs = (srv', fs', Inr resp)" and "GetOperation req = ''GET''"
  shows "\<exists>g \<in> set lgs. lg_entity g = request_entity req \<and> lg_payload g = rs_Result resp"
  using proc_system.served_payload [OF local_system [OF assms(1), of J s K V], of key start] assms(2-6) by simp

text \<open>
  C21. The stale-write guard: whatever system calls of a promised write fail, every other entity stays exactly as it was, and
  a stored entity stays stored, with its own metadata or that of the write.  As long as the read of the guard itself does not fail, the version on the disk is never
  lowered.
\<close>

theorem disk_version_monotone:
  assumes "storage_inv s fs" and "codable J (wj_metadata job)" and "fm_Version (wj_metadata job) = wj_nextVersion job"
    and "async_write (local_libs L J s K V) env job srv fs = (srv', fs')" and "fs_ReadFile J s no_faults fs eid = Inr x"
  shows "\<exists>y. fs_ReadFile J s no_faults fs' eid = Inr y \<and> (eid \<noteq> wj_entityID job \<longrightarrow> y = x) \<and> fd_Metadata y \<in> {fd_Metadata x, wj_metadata job} \<and>
    (fs_ReadFile J s (he_read env) fs (wj_entityID job) = fs_ReadFile J s no_faults fs (wj_entityID job) \<longrightarrow>
      fm_Version (fd_Metadata x) \<le> fm_Version (fd_Metadata y))"
proof -
  let ?w = "WriteFile J s (he_write env) (wj_entityID job) (wj_blob job) (wj_metadata job) fs"
  have "fs' = fs \<or> fs' = fst ?w \<and> \<not> (\<exists>z. fs_ReadFile J s (he_read env) fs (wj_entityID job) = Inr z \<and> wj_nextVersion job \<le> fm_Version (fd_Metadata z))"
    using assms(4) by (auto simp: async_write_def Let_def split: prod.splits option.splits if_splits sum.splits)
  then show ?thesis
  proof
    assume "fs' = fs" then show ?thesis using assms(5) by simp
  next
    assume w: "fs' = fst ?w \<and> \<not> (\<exists>z. fs_ReadFile J s (he_read env) fs (wj_entityID job) = Inr z \<and> wj_nextVersion job \<le> fm_Version (fd_Metadata z))"
    then obtain e where we: "?w = (fs', e)" by (metis prod.collapse)
    show ?thesis
    proof (cases "eid = wj_entityID job")
      case True
      obtain y where y: "fs_ReadFile J s no_faults fs' eid = Inr y" "fd_Metadata y \<in> {fd_Metadata x, wj_metadata job}"
        using write_keeps_readable [OF assms(1,2) we] assms(5) True by blast
      moreover have "fm_Version (fd_Metadata x) < wj_nextVersion job"
        if "fs_ReadFile J s (he_read env) fs (wj_entityID job) = fs_ReadFile J s no_faults fs (wj_entityID job)"
        using w that assms(5) True by auto
      ultimately show ?thesis using True assms(3) by (metis insertE less_imp_le order_refl singletonD)
    next
      case False
      with local_fs.write_frame [OF assms(1), of eid "wj_entityID job"] we assms(5) show ?thesis by (auto simp: prod_eq_iff)
    qed
  qed
qed

text \<open>
  The guard fails open: when its read fails and the write does not, the write is made whatever is stored, so that an older version
  replaces a newer one.
\<close>

theorem failed_guard_overwrites:
  assumes "storage_inv s fs" and "codable J (wj_metadata job)"
    and "snd (lo_acquire K (ps_lockMgr srv) (wj_entityID job) LockExclusive) = None" and "isValidEntityID (wj_entityID job)"
    and "fs_ReadFile J s (he_read env) fs (wj_entityID job) = Inl e" and "he_write env = no_faults"
    and "async_write (local_libs L J s K V) env job srv fs = (srv', fs')"
  shows "fs_ReadFile J s no_faults fs' (wj_entityID job) = Inr \<lparr>fd_Blob = wj_blob job, fd_Metadata = wj_metadata job\<rparr>"
proof -
  obtain fs1 where w: "WriteFile J s no_faults (wj_entityID job) (wj_blob job) (wj_metadata job) fs = (fs1, None)"
    using local_fs.write_succeeds [OF assms(1,4,2)] by (metis prod.collapse)
  have "fs' = fs1" using async_write_store [of "local_libs L J s K V" srv job env fs] assms(3,5-7) w by simp
  with local_fs.write_read [OF assms(1,2) w] show ?thesis by simp
qed

text \<open>
  A deleted entity can come back: when a PUT is accepted and the entity is deleted, by any
  worker and successfully, before the promised write is made, then the promised write stores the
  payload after all and later readers get it.
\<close>

theorem deleted_entity_returns:
  assumes "lru_spec L items cap lok" and "storage_inv s fs2"
    and "proc_Process (local_libs L J s K V) env req srv fs = (srv', fs', Inr resp)" and "GetOperation req = ''PUT''"
    and "\<forall>n. he_nonce env = Some n \<longrightarrow> length n = NonceSize"
    and "codable J (wj_metadata (last (ps_pendingWrites srv')))"
    and "processDELETE (local_libs L J s K V) envD (request_entity req) srvD fs2 = (srvD', fs3, Inr respD)"
    and "able (local_libs L J s K V) (pw_encryptionKey (ps_worker srv)) LockExclusive (request_entity req) srvA"
    and "he_read envA = no_faults" and "he_write envA = no_faults"
    and "async_write (local_libs L J s K V) envA (last (ps_pendingWrites srv')) srvA fs3 = (srvA', fs4)"
    and "able (local_libs L J s K V) (pw_encryptionKey (ps_worker srv)) LockShared (request_entity req) srvB"
    and "cache_inv items cap lok (ps_cache srvB)" and "cache_lookup items (ps_cache srvB) (request_entity req) = None"
    and "he_read envB = no_faults"
  shows "fs_ReadFile J s no_faults fs3 (request_entity req) = Inl ErrFileNotFound \<and>
    snd (processGET (local_libs L J s K V) envB (request_entity req) srvB fs4) =
      (fs4, Inr (response ''OK'' (GetPayload req) (rs_Version resp)))"
proof -
  note pr = accepted_put_promises [OF assms(1,3,4,5)]
  have del: "DeleteFile s (he_write envD) (request_entity req) fs2 = (fs3, None)"
    using assms(7) by (auto simp: processDELETE_def Let_def split: prod.splits option.splits)
  have gone: "fs_ReadFile J s no_faults fs3 (request_entity req) = Inl ErrFileNotFound"
    by (rule local_fs.delete_read [OF assms(2) del])
  have inv: "storage_inv s fs3" using local_fs.delete_inv [OF assms(2), of "he_write envD" "request_entity req"] del by simp
  have new: "\<forall>x. fs_ReadFile J s no_faults fs3 (request_entity req) = Inr x \<longrightarrow>
      fm_Version (fd_Metadata x) < next_version (local_libs L J s K V) env srv fs (request_entity req)" using gone by simp
  note rd = promised_write_read [OF assms(1) inv conjunct1 [OF pr] assms(6) conjunct2 [OF conjunct2 [OF pr]] assms(8-10) new assms(11)]
  from proc_system.GET_from_disk [OF local_system [OF assms(1)] assms(12-14), of envB fs4] rd assms(15) pr gone show ?thesis by simp
qed

text \<open>
  An acknowledged update can be lost: two workers that do not have the entity cached accept a
  PUT each before either promised write is made.  Both report the same version; the second
  promised write is then skipped as stale, so that every later reader gets the first payload
  although the second was acknowledged after it.
\<close>

theorem acknowledged_update_lost:
  assumes "lru_spec L items cap lok" and "storage_inv s fs"
    and "proc_Process (local_libs L J s K V) env1 req1 srv1 fs = (srv1', fs1', Inr resp1)"
    and "proc_Process (local_libs L J s K V) env2 req2 srv2 fs = (srv2', fs2', Inr resp2)"
    and "GetOperation req1 = ''PUT''" and "GetOperation req2 = ''PUT''" and "request_entity req2 = request_entity req1"
    and "pw_encryptionKey (ps_worker srv1) = key"
    and "\<forall>n. he_nonce env1 = Some n \<longrightarrow> length n = NonceSize" and "\<forall>n. he_nonce env2 = Some n \<longrightarrow> length n = NonceSize"
    and "cache_inv items cap lok (ps_cache srv1)" and "cache_lookup items (ps_cache srv1) (request_entity req1) = None"
    and "cache_inv items cap lok (ps_cache srv2)" and "cache_lookup items (ps_cache srv2) (request_entity req1) = None"
    and "fs_ReadFile J s no_faults fs (request_entity req1) = Inl ErrFileNotFound"
    and "codable J (wj_metadata (last (ps_pendingWrites srv1')))"
    and "able (local_libs L J s K V) key LockExclusive (request_entity req1) srvA" and "he_read envA = no_faults" and "he_write envA = no_faults"
    and "async_write (local_libs L J s K V) envA (last (ps_pendingWrites srv1')) srvA fs = (srvA', fsA)"
    and "he_read envC = no_faults" and "async_write (local_libs L J s K V) envC (last (ps_pendingWrites srv2')) srvC fsA = (srvC', fsC)"
    and "able (local_libs L J s K V) key LockShared (request_entity req1) srvB"
    and "cache_inv items cap lok (ps_cache srvB)" and "cache_lookup items (ps_cache srvB) (request_entity req1) = None"
    and "he_read envB = no_faults"
  shows "rs_Version resp1 = ''1'' \<and> rs_Version resp2 = ''1'' \<and>
    snd (processGET (local_libs L J s K V) envB (request_entity req1) srvB fsC) =
      (fsC, Inr (response ''OK'' (GetPayload req1) ''1''))"
proof -
  let ?Lib = "local_libs L J s K V" and ?eid = "request_entity req1"
  note ver = first_version [OF assms(1,2,15)]
  note pr1 = accepted_put_promises [OF assms(1,3,5,9), unfolded ver [OF assms(11,12)] assms(8)]
  note pr2 = accepted_put_promises [OF assms(1,4,6,10), unfolded assms(7) ver [OF assms(13,14)]]
  have new: "\<forall>x. fs_ReadFile J s no_faults fs ?eid = Inr x \<longrightarrow> fm_Version (fd_Metadata x) < 1" using assms(15) by simp
  note rd = promised_write_read [OF assms(1,2) conjunct1 [OF pr1] assms(16) conjunct2 [OF conjunct2 [OF pr1]] assms(17-19) new assms(20)]
  have j2: "wj_entityID (last (ps_pendingWrites srv2')) = ?eid" "wj_nextVersion (last (ps_pendingWrites srv2')) = 1"
    and v1: "fm_Version (wj_metadata (last (ps_pendingWrites srv1'))) = 1"
    using pr1 pr2 by (simp_all add: promises_def)
  have "fsC = fsA" using assms(21,22) rd j2 v1 by (auto simp: async_write_def Let_def split: prod.splits option.splits)
  moreover have "Itoa 1 = ''1''" by code_simp
  ultimately show ?thesis
    using proc_system.GET_from_disk [OF local_system [OF assms(1)] assms(23-25), of envB fsA "last (ps_pendingWrites srv1')" "GetPayload req1" 1]
      rd assms(26) pr1 pr2 by simp
qed

section \<open>Sample system\<close>

text \<open>A lock manager with a single user, who is always granted the lock.\<close>

definition free_locks :: "unit lock_ops" where
  "free_locks = \<lparr>lo_acquire = (\<lambda>k eid t. (k, None)), lo_release = (\<lambda>k eid. k)\<rparr>"

definition sample_cache :: "list_lru Cache" where
  "sample_cache = (case NewCache list_lru_ops \<lparr>cfg_MaxSize = 2, cfg_DefaultTTL = 0, cfg_CleanupInterval = 0\<rparr> of Inr c \<Rightarrow> c)"

definition sample_key :: bytes where
  "sample_key = replicate 32 CHR ''k''"

definition sample_server :: "(list_lru, unit, nat, unit) ProcWorkerServer" where
  "sample_server = \<lparr>ps_worker = \<lparr>pw_config = \<lparr>pc_MainAddr = ''main'', pc_WorkerID = ''w1'', pc_SharedFSPath = ''/db'', pc_Tags = Map.empty,
       pc_MetricsAddr = [], pc_MaxRecvMsgSize = 4194304\<rparr>, pw_privateKey = None, pw_encryptionKey = sample_key,
       pw_sessionToken = ''t'', pw_keyID = ''key-1''\<rparr>,
     ps_lockMgr = (), ps_cache = sample_cache, ps_validator = None, ps_pendingWrites = [], ps_metrics = no_metrics,
     ps_lastCacheHits = 0, ps_lastCacheMisses = 0, ps_lastCacheEvicts = 0\<rparr>"

definition sample_env :: "faults handler_env" where
  "sample_env = \<lparr>he_first = 10, he_second = 11, he_stamp = 12, he_nonce = Some (replicate 12 CHR ''n''),
     he_read = no_faults, he_write = no_faults, he_templates = no_faults\<rparr>"

definition sample_request :: "string \<Rightarrow> bytes \<Rightarrow> ProcessRequest option" where
  "sample_request op payload = Some \<lparr>pr_SchemaId = ''chat'', pr_EntityKey = ''1'', pr_Operation = op,
     pr_Payload = payload, pr_Token = []\<rparr>"

definition const_codec :: "FileMetadata \<Rightarrow> meta_codec" where
  "const_codec m = \<lparr>mc_marshal = (\<lambda>_. Some ''m''), mc_unmarshal = (\<lambda>_. Some m)\<rparr>"

abbreviation sample_libs :: "meta_codec \<Rightarrow> (list_lru, file_sys, faults, unit, nat) proc_libs" where
  "sample_libs J \<equiv> local_libs list_lru_ops J sample_store free_locks sample_lib"

definition sample_enc :: "bytes \<Rightarrow> EncryptResult" where
  "sample_enc p = (case Encrypt aes_gcm (he_nonce sample_env) sample_key p of Inr r \<Rightarrow> r)"

definition sample_job :: "bytes \<Rightarrow> write_job" where
  "sample_job p = \<lparr>wj_entityID = ''chat_1'', wj_blob = er_Ciphertext (sample_enc p),
     wj_metadata = put_metadata sample_env (sample_request ''PUT'' p) (ps_worker sample_server) (sample_enc p) 1, wj_nextVersion = 1\<rparr>"

lemma sample_cache_new:
  "NewCache list_lru_ops \<lparr>cfg_MaxSize = 2, cfg_DefaultTTL = 0, cfg_CleanupInterval = 0\<rparr> = Inr sample_cache"
  by (simp add: sample_cache_def NewCache_def list_lru_ops_def)

lemma sample_cache_empty:
  "cache_inv ll_items ll_cap list_lru_ok sample_cache" "cache_lookup ll_items sample_cache k = None"
  using llru.NewCache_inv [OF sample_cache_new] by (simp_all add: cache_lookup_def)

lemma sample_request_simps [simp]:
  "GetSchemaId (sample_request op p) = ''chat''" "GetEntityKey (sample_request op p) = ''1''"
  "GetOperation (sample_request op p) = op" "GetPayload (sample_request op p) = p"
  by (simp_all add: sample_request_def)

lemma sample_entity [simp]: "entity_id ''chat'' ''1'' = ''chat_1''"
  by (simp add: entity_id_def)

lemma sample_server_simps [simp]:
  "ps_worker sample_server = \<lparr>pw_config = \<lparr>pc_MainAddr = ''main'', pc_WorkerID = ''w1'', pc_SharedFSPath = ''/db'', pc_Tags = Map.empty,
       pc_MetricsAddr = [], pc_MaxRecvMsgSize = 4194304\<rparr>, pw_privateKey = None, pw_encryptionKey = sample_key,
       pw_sessionToken = ''t'', pw_keyID = ''key-1''\<rparr>"
  "ps_cache sample_server = sample_cache" "ps_validator sample_server = None" "ps_pendingWrites sample_server = []"
  by (simp_all add: sample_server_def)

lemma sample_env_simps [simp]:
  "he_nonce sample_env = Some (replicate 12 CHR ''n'')" "he_read sample_env = no_faults" "he_write sample_env = no_faults"
  by (simp_all add: sample_env_def)

lemma free_locks_simps [simp]: "lo_acquire free_locks k eid t = (k, None)" "lo_release free_locks k eid = k"
  by (simp_all add: free_locks_def)

lemma sample_nonce: "\<forall>n. he_nonce sample_env = Some n \<longrightarrow> length n = NonceSize"
  by (simp add: NonceSize_def)

lemma sample_key_size: "valid_key_size sample_key" "sample_key \<noteq> []"
  by (simp_all add: valid_key_size_def sample_key_def)

lemma sample_able: "able (sample_libs J) sample_key t eid sample_server"
  by (simp add: able_def sample_key_size)

lemma sample_enc_ok: "Encrypt aes_gcm (Some (replicate 12 CHR ''n'')) sample_key p = Inr (sample_enc p)"
proof -
  obtain r where "Encrypt aes_gcm (Some (replicate 12 CHR ''n'')) sample_key p = Inr r"
    using aes.Encrypt_succeeds [OF sample_key_size(1), of "replicate 12 CHR ''n''" p] by (auto simp: NonceSize_def)
  then show ?thesis by (simp add: sample_enc_def)
qed

lemma sample_empty: "entry (files_at sample_store) sample_tree n = None"
  by (simp add: entry_def sample_files_at sample_tree_def child_def)

lemma sample_not_stored: "fs_ReadFile J sample_store no_faults sample_tree ''chat_1'' = Inl ErrFileNotFound"
proof -
  have "isValidEntityID ''chat_1''" by code_simp
  then show ?thesis using stored_no_blob [OF sample_empty] by (simp add: ReadFile_stored [OF sample_inv])
qed

lemma sample_addressable: "addressable (sample_request op p)"
proof -
  have "\<not> ContainsAny ''chat'' path_seps \<and> \<not> Contains ''chat'' ''..'' \<and> \<not> ContainsAny ''1'' path_seps \<and> \<not> Contains ''1'' ''..''"
    by code_simp
  then show ?thesis by (simp add: addressable_def)
qed

lemma sample_version: "next_version (sample_libs J) sample_env sample_server sample_tree ''chat_1'' = 1"
  using first_version [OF llru.lru_spec_axioms sample_inv sample_not_stored, of sample_server] sample_cache_empty by simp

lemma next_version_lock: "next_version Lib env (srv\<lparr>ps_lockMgr := k\<rparr>) st eid = next_version Lib env srv st eid"
  by (simp add: next_version_def)

lemma sample_put:
  assumes "p \<noteq> []"
  shows "\<exists>srv'. proc_Process (sample_libs J) sample_env (sample_request ''PUT'' p) sample_server sample_tree =
      (srv', sample_tree, Inr (response ''OK'' [] ''1'')) \<and> ps_pendingWrites srv' = [sample_job p]"
proof -
  have one: "Itoa 1 = ''1''" by code_simp
  have "snd (processPUT (sample_libs J) sample_env (sample_request ''PUT'' p) ''chat_1'' sample_server sample_tree) =
      (sample_tree, Inr (response ''OK'' [] ''1'')) \<and>
    ps_pendingWrites (fst (processPUT (sample_libs J) sample_env (sample_request ''PUT'' p) ''chat_1'' sample_server sample_tree)) = [sample_job p]"
    using assms sample_key_size(2) sample_enc_ok [of p] sample_version [of J] one
    by (simp add: processPUT_def put_validate_def Let_def sample_job_def next_version_lock)
  then show ?thesis
    using Process_dispatch(2) [OF sample_addressable, of "''PUT''" p "sample_libs J" sample_env sample_server sample_tree]
    by (intro exI [of _ "fst (proc_Process (sample_libs J) sample_env (sample_request ''PUT'' p) sample_server sample_tree)"])
      (simp add: prod_eq_iff)
qed

section \<open>Witnesses\<close>

theorem request_confined_witness:
  "\<exists>msg. proc_Process (sample_libs sample_codec) sample_env (Some \<lparr>pr_SchemaId = ''chat'', pr_EntityKey = ''..'', pr_Operation = ''DELETE'',
     pr_Payload = [], pr_Token = []\<rparr>) sample_server sample_tree = (sample_server, sample_tree, Inl (InvalidArgument, msg))"
proof -
  let ?req = "Some \<lparr>pr_SchemaId = ''chat'', pr_EntityKey = ''..'', pr_Operation = ''DELETE'', pr_Payload = [], pr_Token = []\<rparr>"
  obtain srv' fs' r where p: "proc_Process (sample_libs sample_codec) sample_env ?req sample_server sample_tree = (srv', fs', r)"
    by (metis prod.collapse)
  have "Contains ''..'' ''..''" by code_simp
  then have "\<not> addressable ?req" by (simp add: addressable_def)
  with request_confined [OF sample_inv p] p show ?thesis by simp
qed

theorem read_your_write_witness:
  "\<exists>srv' :: (list_lru, unit, nat, unit) ProcWorkerServer. snd (proc_Process (sample_libs sample_codec) sample_env (sample_request ''GET'' []) srv' sample_tree) =
     (sample_tree, Inr (response ''OK'' ''{}'' ''1''))"
proof -
  obtain srv' where put: "proc_Process (sample_libs sample_codec) sample_env (sample_request ''PUT'' ''{}'') sample_server sample_tree =
      (srv', sample_tree, Inr (response ''OK'' [] ''1''))"
    using sample_put [of "''{}''" sample_codec] by auto
  have "c_defaultTTL sample_cache = 0" by (simp add: sample_cache_def NewCache_def list_lru_ops_def)
  then have live: "\<not> expired_at (he_first sample_env) (set_expiry (he_second sample_env) (ps_cache sample_server))"
    by (simp add: expired_at_def set_expiry_def)
  show ?thesis
    using read_your_write [OF llru.lru_spec_axioms _ put _ _ _ _ live, of "sample_request ''GET'' []" sample_tree] sample_cache_empty(1)
    by (intro exI [of _ srv']) (simp add: response_def)
qed

lemma sample_job_codable: "codable (const_codec (wj_metadata (sample_job p))) (wj_metadata (sample_job p))"
  by (simp add: codable_def const_codec_def)

theorem accepted_put_durable_witness:
  "\<exists>fs. snd (processGET (sample_libs (const_codec (wj_metadata (sample_job ''{}'')))) sample_env ''chat_1'' sample_server fs) =
     (fs, Inr (response ''OK'' ''{}'' ''1''))"
proof -
  let ?J = "const_codec (wj_metadata (sample_job ''{}''))"
  obtain srv' where put: "proc_Process (sample_libs ?J) sample_env (sample_request ''PUT'' ''{}'') sample_server sample_tree =
      (srv', sample_tree, Inr (response ''OK'' [] ''1''))" and pend: "ps_pendingWrites srv' = [sample_job ''{}'']"
    using sample_put [of "''{}''" ?J] by auto
  obtain srvA fs where aw: "async_write (sample_libs ?J) sample_env (sample_job ''{}'') sample_server sample_tree = (srvA, fs)"
    by (metis prod.collapse)
  from accepted_put_durable [OF llru.lru_spec_axioms sample_inv put _ sample_nonce, of sample_server sample_env srvA fs sample_server sample_env]
  show ?thesis
    using pend aw sample_able [of ?J] sample_cache_empty sample_not_stored [of ?J] sample_job_codable [of "''{}''"]
    by (auto simp: response_def)
qed

lemma no_splice_single:
  assumes "valid_key_size key" and "length (lg_nonce g) = NonceSize"
  shows "no_splice aes_gcm key [g]"
proof -
  have "cipher_part aes_gcm key g @ tag_part aes_gcm key g = aead_seal aes_gcm key (lg_nonce g) (lg_payload g)"
    by (simp add: cipher_part_def tag_part_def)
  moreover have "aead_open aes_gcm key (lg_nonce g) (aead_seal aes_gcm key (lg_nonce g) (lg_payload g)) = Some (lg_payload g)"
    using aes.open_iff [OF assms] by simp
  ultimately show ?thesis by (simp add: no_splice_def)
qed

lemma sample_start: "system_start list_lru_ops (storage_inv sample_store) (files_satisfy J sample_store) sample_key (\<lambda>_. sample_server, sample_tree, [])"
  using sample_inv sample_cache_new by (auto simp: system_start_def files_satisfy_def sample_empty)

theorem served_payload_was_accepted_witness:
  "\<exists>srvs lgs resp. (sys_step (sample_libs (const_codec (wj_metadata (sample_job ''{}'')))) (codable (const_codec (wj_metadata (sample_job ''{}'')))))\<^sup>*\<^sup>*
       (\<lambda>_. sample_server, sample_tree, []) (srvs, sample_tree, lgs) \<and>
     snd (proc_Process (sample_libs (const_codec (wj_metadata (sample_job ''{}'')))) sample_env (sample_request ''GET'' []) (srvs 0) sample_tree) =
       (sample_tree, Inr resp) \<and>
     (\<exists>g \<in> set lgs. lg_entity g = ''chat_1'' \<and> lg_payload g = rs_Result resp)"
proof -
  let ?J = "const_codec (wj_metadata (sample_job ''{}''))"
  obtain srv' where put: "proc_Process (sample_libs ?J) sample_env (sample_request ''PUT'' ''{}'') sample_server sample_tree =
      (srv', sample_tree, Inr (response ''OK'' [] ''1''))" and pend: "ps_pendingWrites srv' = [sample_job ''{}'']"
    using sample_put [of "''{}''" ?J] by auto
  let ?g = "\<lparr>lg_entity = ''chat_1'', lg_nonce = replicate 12 CHR ''n'', lg_payload = ''{}''\<rparr>"
  let ?srvs = "(\<lambda>_ :: nat. sample_server)(0 := srv')"
  have "sys_step (sample_libs ?J) (codable ?J) (\<lambda>_. sample_server, sample_tree, []) (?srvs, sample_tree, [] @ logged sample_env (sample_request ''PUT'' ''{}'') (Inr (response ''OK'' [] ''1'')))"
    using put sample_nonce pend sample_job_codable by (intro sys_step.serve) auto
  then have reach: "(sys_step (sample_libs ?J) (codable ?J))\<^sup>*\<^sup>* (\<lambda>_. sample_server, sample_tree, []) (?srvs, sample_tree, [?g])"
    by (simp add: logged_def)
  obtain srv1 where cput: "processPUT (sample_libs ?J) sample_env (sample_request ''PUT'' ''{}'') ''chat_1'' sample_server sample_tree =
      (srv1, sample_tree, Inr (response ''OK'' [] ''1''))" and same: "ps_cache srv' = ps_cache srv1"
    using processPUT_cong [OF put] by auto
  have "c_defaultTTL sample_cache = 0" by (simp add: sample_cache_def NewCache_def list_lru_ops_def)
  then have live: "\<not> expired_at (he_first sample_env) (set_expiry (he_second sample_env) (ps_cache sample_server))"
    by (simp add: expired_at_def set_expiry_def)
  have get: "snd (proc_Process (sample_libs ?J) sample_env (sample_request ''GET'' []) srv' sample_tree) =
      (sample_tree, Inr (response ''OK'' ''{}'' ''1''))"
    using local_workers.GET_after_PUT [OF _ cput live same] sample_cache_empty(1)
      Process_dispatch(1) [OF sample_addressable, of "''GET''" "[]" "sample_libs ?J" sample_env srv' sample_tree]
    by (simp add: response_def)
  then obtain srv2 where g2: "proc_Process (sample_libs ?J) sample_env (sample_request ''GET'' []) (?srvs 0) sample_tree =
      (srv2, sample_tree, Inr (response ''OK'' ''{}'' ''1''))" by (metis fun_upd_same prod.collapse)
  have "no_splice aes_gcm sample_key [?g]" by (rule no_splice_single) (simp_all add: sample_key_size NonceSize_def)
  from served_payload_was_accepted [where i = 0, OF llru.lru_spec_axioms sample_start reach this g2] reach get show ?thesis
    by (intro exI [of _ ?srvs] exI [of _ "[?g]"] exI [of _ "response ''OK'' ''{}'' ''1''"] conjI) simp_all
qed

theorem disk_version_monotone_witness:
  "\<exists>x fs fs' y. fs_ReadFile (const_codec (wj_metadata (sample_job ''{}''))) sample_store no_faults fs ''chat_1'' = Inr x \<and>
     snd (async_write (sample_libs (const_codec (wj_metadata (sample_job ''{}'')))) sample_env (sample_job ''{}'') sample_server fs) = fs' \<and>
     fs_ReadFile (const_codec (wj_metadata (sample_job ''{}''))) sample_store no_faults fs' ''chat_1'' = Inr y \<and>
     fm_Version (fd_Metadata x) \<le> fm_Version (fd_Metadata y)"
proof -
  let ?m = "wj_metadata (sample_job ''{}'')"
  let ?J = "const_codec ?m"
  have v: "isValidEntityID ''chat_1''" by code_simp
  obtain fs where w: "WriteFile ?J sample_store no_faults ''chat_1'' ''x'' ?m sample_tree = (fs, None)"
    using local_fs.write_succeeds [OF sample_inv v sample_job_codable] by (metis prod.collapse)
  have inv: "storage_inv sample_store fs"
    using local_fs.write_inv [OF sample_inv, of ?J no_faults "''chat_1''" "''x''" ?m] w by simp
  have rd: "fs_ReadFile ?J sample_store no_faults fs ''chat_1'' = Inr \<lparr>fd_Blob = ''x'', fd_Metadata = ?m\<rparr>"
    using local_fs.write_read [OF sample_inv sample_job_codable w] .
  obtain srv' fs' where aw: "async_write (sample_libs ?J) sample_env (sample_job ''{}'') sample_server fs = (srv', fs')"
    by (metis prod.collapse)
  have "fm_Version ?m = wj_nextVersion (sample_job ''{}'')" by (simp add: sample_job_def put_metadata_def)
  from disk_version_monotone [OF inv sample_job_codable this aw rd] obtain y where
    "fs_ReadFile ?J sample_store no_faults fs' ''chat_1'' = Inr y"
    "fm_Version (fd_Metadata \<lparr>fd_Blob = ''x'', fd_Metadata = ?m\<rparr>) \<le> fm_Version (fd_Metadata y)" by auto
  with rd aw show ?thesis
    by (intro exI [of _ "\<lparr>fd_Blob = ''x'', fd_Metadata = ?m\<rparr>"] exI [of _ fs] exI [of _ fs'] exI [of _ y]) simp
qed

theorem deleted_entity_returns_witness:
  "\<exists>fs fs'. fs_ReadFile (const_codec (wj_metadata (sample_job ''{}''))) sample_store no_faults fs ''chat_1'' = Inl ErrFileNotFound \<and>
     snd (async_write (sample_libs (const_codec (wj_metadata (sample_job ''{}'')))) sample_env (sample_job ''{}'') sample_server fs) = fs' \<and>
     snd (processGET (sample_libs (const_codec (wj_metadata (sample_job ''{}'')))) sample_env ''chat_1'' sample_server fs') =
       (fs', Inr (response ''OK'' ''{}'' ''1''))"
proof -
  let ?J = "const_codec (wj_metadata (sample_job ''{}''))"
  obtain srv' where put: "proc_Process (sample_libs ?J) sample_env (sample_request ''PUT'' ''{}'') sample_server sample_tree =
      (srv', sample_tree, Inr (response ''OK'' [] ''1''))" and pend: "ps_pendingWrites srv' = [sample_job ''{}'']"
    using sample_put [of "''{}''" ?J] by auto
  have v: "isValidEntityID ''chat_1''" by code_simp
  have "snd (DeleteFile sample_store no_faults ''chat_1'' sample_tree) = None"
    by (rule local_fs.delete_succeeds [OF sample_inv v])
  then obtain fs3 srvD where del: "processDELETE (sample_libs ?J) sample_env ''chat_1'' sample_server sample_tree = (srvD, fs3, Inr (response ''OK'' [] []))"
    by (cases "DeleteFile sample_store no_faults ''chat_1'' sample_tree") (simp add: processDELETE_def Let_def)
  obtain srvA fs4 where aw: "async_write (sample_libs ?J) sample_env (sample_job ''{}'') sample_server fs3 = (srvA, fs4)"
    by (metis prod.collapse)
  from deleted_entity_returns [OF llru.lru_spec_axioms sample_inv put _ sample_nonce, of sample_env sample_server srvD fs3 "response ''OK'' [] []"
      sample_server sample_env srvA fs4 sample_server sample_env]
  have "fs_ReadFile ?J sample_store no_faults fs3 ''chat_1'' = Inl ErrFileNotFound \<and>
      snd (processGET (sample_libs ?J) sample_env ''chat_1'' sample_server fs4) = (fs4, Inr (response ''OK'' ''{}'' ''1''))"
    using pend aw del sample_able [of ?J] sample_cache_empty sample_job_codable [of "''{}''"] by (simp add: response_def)
  with aw show ?thesis by (intro exI [of _ fs3] exI [of _ fs4]) simp
qed

theorem acknowledged_update_lost_witness:
  "\<exists>fs. snd (processGET (sample_libs (const_codec (wj_metadata (sample_job ''first'')))) sample_env ''chat_1'' sample_server fs) =
     (fs, Inr (response ''OK'' ''first'' ''1'')) \<and>
     fs = snd (async_write (sample_libs (const_codec (wj_metadata (sample_job ''first'')))) sample_env (sample_job ''second'') sample_server
       (snd (async_write (sample_libs (const_codec (wj_metadata (sample_job ''first'')))) sample_env (sample_job ''first'') sample_server sample_tree)))"
proof -
  let ?J = "const_codec (wj_metadata (sample_job ''first''))"
  obtain srv1 where put1: "proc_Process (sample_libs ?J) sample_env (sample_request ''PUT'' ''first'') sample_server sample_tree =
      (srv1, sample_tree, Inr (response ''OK'' [] ''1''))" and pend1: "ps_pendingWrites srv1 = [sample_job ''first'']"
    using sample_put [of "''first''" ?J] by auto
  obtain srv2 where put2: "proc_Process (sample_libs ?J) sample_env (sample_request ''PUT'' ''second'') sample_server sample_tree =
      (srv2, sample_tree, Inr (response ''OK'' [] ''1''))" and pend2: "ps_pendingWrites srv2 = [sample_job ''second'']"
    using sample_put [of "''second''" ?J] by auto
  obtain srvA fsA where awA: "async_write (sample_libs ?J) sample_env (sample_job ''first'') sample_server sample_tree = (srvA, fsA)"
    by (metis prod.collapse)
  obtain srvC fsC where awC: "async_write (sample_libs ?J) sample_env (sample_job ''second'') sample_server fsA = (srvC, fsC)"
    by (metis prod.collapse)
  from acknowledged_update_lost [OF llru.lru_spec_axioms sample_inv put1 put2 _ _ _ _ sample_nonce sample_nonce,
      of sample_key sample_server sample_env srvA fsA sample_env sample_server srvC fsC sample_server sample_env]
  have "snd (processGET (sample_libs ?J) sample_env ''chat_1'' sample_server fsC) = (fsC, Inr (response ''OK'' ''first'' ''1''))"
    using pend1 pend2 awA awC sample_able [of ?J] sample_cache_empty sample_not_stored [of ?J] sample_job_codable [of "''first''"]
    by simp
  with awA awC show ?thesis by (intro exI [of _ fsC]) simp
qed

end
