(* ===== verification/Main_Worker.thy ===== *)
theory Main_Worker
  imports Rpc_Messages Worker_Routing Api_Keys Lru_Cache Aead_Crypto Schema_Validator
begin

text \<open>
  The Main Worker of cmd/main-worker/server.go: its state, its construction and its gRPC
  operations.  The server keeps the tokens, the worker credentials, the API keys, the registry,
  the entity store (a cache), the validator and the master key.  Around it stand the file tree,
  the file of the key store, and the Processing Workers, which a GET is forwarded to: a handler
  takes and returns them.  What it reads from outside (clock, random bytes, faults, the order in
  which a Go map is visited) is its argument \<open>env\<close>.
\<close>

section \<open>State\<close>

record Config =
  cf_GRPCAddr :: string
  cf_RESTAddr :: string
  cf_SharedFSPath :: string
  cf_WorkerTokenTTL :: duration
  cf_ClientTokenTTL :: duration
  cf_MasterKey :: bytes
  cf_KeyID :: string
  cf_EntityCacheSize :: int
  cf_MetricsAddr :: string
  cf_AdminKey :: string
  cf_KeyStorePath :: string
  cf_MaxRecvMsgSize :: int
  cf_MaxRequestBodySize :: int

text \<open>The counters and gauges that the handlers touch; durations are not modelled.\<close>

record main_metrics =
  mm_SubscribeRequests :: "string \<Rightarrow> int"
  mm_ProcessRequests :: "string \<times> string \<Rightarrow> int"
  mm_HTTPRequests :: "string \<times> string \<times> string \<Rightarrow> int"
  mm_RegisteredWorkers :: int
  mm_AvailableWorkers :: int
  mm_ActiveWorkerTokens :: int
  mm_EntityCacheSize :: int
  mm_EntityCacheHits :: int
  mm_EntityCacheMisses :: int
  mm_EntityCacheEvictions :: int

text \<open>\<open>ms_pendingSaves\<close> counts the goroutines \<open>go km.save()\<close> that have not run yet.\<close>

record ('l, 's) MainWorkerServer =
  ms_tokenManager :: TokenManager
  ms_workerAuth :: WorkerAuthenticator
  ms_keyManager :: KeyManager
  ms_pendingSaves :: nat
  ms_adminKeyHash :: string
  ms_registry :: WorkerRegistry
  ms_entityStore :: "'l Cache"
  ms_validator :: "'s Validator option"
  ms_masterKey :: bytes
  ms_masterKeyID :: string
  ms_config :: Config
  ms_metrics :: main_metrics
  ms_lastCacheHits :: int
  ms_lastCacheMisses :: int
  ms_lastCacheEvicts :: int

text \<open>What lies outside the server: the files, the key store file and the Processing Workers.\<close>

record 'w main_world =
  mw_files :: file_sys
  mw_keyStore :: read_result
  mw_workers :: 'w

text \<open>The answer of a Processing Worker to a forwarded request; \<open>NoClient\<close> is a client that cannot be made.\<close>

datatype forwarded = NoClient | Answered "rpc_error + ProcessResponse"

text \<open>
  The libraries: the LRU list, RSA, SHA-256, JSON Schema, the key store encoding, the file server
  of the embedded web pages (its status code for a method and path), and the transport.
\<close>

record ('l, 's, 'p, 'rk, 'w) main_libs =
  ml_lru :: "'l lru_ops"
  ml_rsa :: "('p, 'rk) rsa_lib"
  ml_sha256 :: "bytes \<Rightarrow> bytes"
  ml_schema :: "'s schema_lib"
  ml_marshal :: "APIKey list \<Rightarrow> bytes option"
  ml_unmarshal :: "bytes \<Rightarrow> APIKey option list option"
  ml_static :: "string \<Rightarrow> string \<Rightarrow> int"
  ml_forward :: "string \<Rightarrow> ProcessRequest option \<Rightarrow> 'w \<Rightarrow> 'w \<times> forwarded"

record main_env =
  me_now :: gotime
  me_random :: "nat \<Rightarrow> bytes option"
  me_seed :: bytes
  me_faults :: faults
  me_workers :: "WorkerInfo list"
  me_keys :: "APIKey list"
  me_save :: save_io

definition main_no_metrics :: main_metrics where
  "main_no_metrics = \<lparr>mm_SubscribeRequests = (\<lambda>_. 0), mm_ProcessRequests = (\<lambda>_. 0), mm_HTTPRequests = (\<lambda>_. 0),
     mm_RegisteredWorkers = 0, mm_AvailableWorkers = 0, mm_ActiveWorkerTokens = 0, mm_EntityCacheSize = 0,
     mm_EntityCacheHits = 0, mm_EntityCacheMisses = 0, mm_EntityCacheEvictions = 0\<rparr>"

section \<open>Construction\<close>

definition hashAdminKey :: "(bytes \<Rightarrow> bytes) \<Rightarrow> string \<Rightarrow> string" where
  "hashAdminKey sha256 raw = hex_EncodeToString (sha256 raw)"

datatype main_error =
    NilConfig
  | MasterKeyFailed crypto_error
  | MasterKeyLength nat
  | KeyManagerFailed key_error
  | EntityStoreFailed cache_error

text \<open>The defaults that the constructor writes into the configuration.\<close>

definition with_defaults :: "Config \<Rightarrow> Config" where
  "with_defaults c =
     (let c1 = (if cf_KeyID c = [] then c\<lparr>cf_KeyID := ''main-key-v1''\<rparr> else c);
          c2 = (if cf_EntityCacheSize c1 \<le> 0 then c1\<lparr>cf_EntityCacheSize := 1024\<rparr> else c1);
          c3 = (if cf_MaxRecvMsgSize c2 \<le> 0 then c2\<lparr>cf_MaxRecvMsgSize := 4 * 1024 * 1024\<rparr> else c2);
          c4 = (if cf_MaxRequestBodySize c3 \<le> 0 then c3\<lparr>cf_MaxRequestBodySize := 1 * 1024 * 1024\<rparr> else c3)
      in if cf_KeyStorePath c4 = [] \<and> cf_SharedFSPath c4 \<noteq> []
         then c4\<lparr>cf_KeyStorePath := Join (cf_SharedFSPath c4) ''_auth/keys.json''\<rparr> else c4)"

definition NewMainWorkerServer ::
    "('l, 's, 'p, 'rk, 'w) main_libs \<Rightarrow> main_env \<Rightarrow> Config option \<Rightarrow> 'w main_world
      \<Rightarrow> 'w main_world \<times> (main_error + ('l, 's) MainWorkerServer)" where
  "NewMainWorkerServer Lib env config w =
     (case config of
        None \<Rightarrow> (w, Inl NilConfig)
      | Some c \<Rightarrow>
          (case (if cf_MasterKey c = [] then GenerateKey (me_random env) 32 else Inr (cf_MasterKey c)) of
             Inl e \<Rightarrow> (w, Inl (MasterKeyFailed e))
           | Inr key \<Rightarrow>
               if length key \<noteq> 32 then (w, Inl (MasterKeyLength (length key)))
               else
                 let c' = with_defaults (c\<lparr>cf_MasterKey := key\<rparr>);
                     tokenManager = NewTokenManager (cf_WorkerTokenTTL c') (cf_ClientTokenTTL c')
                 in case NewKeyManager (ml_unmarshal Lib) (\<lambda>_. mw_keyStore w) (cf_KeyStorePath c') of
                      Inl e \<Rightarrow> (w, Inl (KeyManagerFailed e))
                    | Inr keyManager \<Rightarrow>
                        let adminKeyHash = (if cf_AdminKey c' \<noteq> [] then hashAdminKey (ml_sha256 Lib) (cf_AdminKey c') else [])
                        in case NewCache (ml_lru Lib) \<lparr>cfg_MaxSize = cf_EntityCacheSize c', cfg_DefaultTTL = 0, cfg_CleanupInterval = 0\<rparr> of
                             Inl e \<Rightarrow> (w, Inl (EntityStoreFailed e))
                           | Inr entityStore \<Rightarrow>
                               let (fs, validator) =
                                     (if cf_SharedFSPath c' \<noteq> []
                                      then (case NewValidator (me_faults env) (Join (cf_SharedFSPath c') ''templates'') (mw_files w) of
                                              (fs', Inl e) \<Rightarrow> (fs', None)
                                            | (fs', Inr v) \<Rightarrow> (fs', Some v))
                                      else (mw_files w, None))
                               in (w\<lparr>mw_files := fs\<rparr>,
                                   Inr \<lparr>ms_tokenManager = tokenManager, ms_workerAuth = NewWorkerAuthenticator,
                                     ms_keyManager = keyManager, ms_pendingSaves = 0, ms_adminKeyHash = adminKeyHash,
                                     ms_registry = NewWorkerRegistry, ms_entityStore = entityStore, ms_validator = validator,
                                     ms_masterKey = cf_MasterKey c', ms_masterKeyID = cf_KeyID c', ms_config = c',
                                     ms_metrics = main_no_metrics, ms_lastCacheHits = 0, ms_lastCacheMisses = 0,
                                     ms_lastCacheEvicts = 0\<rparr>)))"

section \<open>Metrics\<close>

definition count_subscribe :: "string \<Rightarrow> ('l, 's) MainWorkerServer \<Rightarrow> ('l, 's) MainWorkerServer" where
  "count_subscribe label srv =
     (let m = ms_metrics srv
      in srv\<lparr>ms_metrics := m\<lparr>mm_SubscribeRequests := (mm_SubscribeRequests m)(label := mm_SubscribeRequests m label + 1)\<rparr>\<rparr>)"

definition count_process :: "string \<Rightarrow> string \<Rightarrow> ('l, 's) MainWorkerServer \<Rightarrow> ('l, 's) MainWorkerServer" where
  "count_process op label srv =
     (let m = ms_metrics srv
      in srv\<lparr>ms_metrics := m\<lparr>mm_ProcessRequests := (mm_ProcessRequests m)((op, label) := mm_ProcessRequests m (op, label) + 1)\<rparr>\<rparr>)"

definition main_updateCacheMetrics :: "'l lru_ops \<Rightarrow> ('l, 's) MainWorkerServer \<Rightarrow> ('l, 's) MainWorkerServer" where
  "main_updateCacheMetrics L srv =
     (let cs = cache_Stats L (ms_entityStore srv);
          srv0 = srv\<lparr>ms_metrics := (ms_metrics srv)\<lparr>mm_EntityCacheSize := st_Size cs\<rparr>\<rparr>;
          dh = i64 (st_Hits cs - ms_lastCacheHits srv0);
          srv1 = (if 0 < dh then srv0\<lparr>ms_metrics := (ms_metrics srv0)\<lparr>mm_EntityCacheHits := mm_EntityCacheHits (ms_metrics srv0) + dh\<rparr>,
                                     ms_lastCacheHits := st_Hits cs\<rparr> else srv0);
          dm = i64 (st_Misses cs - ms_lastCacheMisses srv1);
          srv2 = (if 0 < dm then srv1\<lparr>ms_metrics := (ms_metrics srv1)\<lparr>mm_EntityCacheMisses := mm_EntityCacheMisses (ms_metrics srv1) + dm\<rparr>,
                                     ms_lastCacheMisses := st_Misses cs\<rparr> else srv1);
          de = i64 (st_Evicts cs - ms_lastCacheEvicts srv2)
      in if 0 < de then srv2\<lparr>ms_metrics := (ms_metrics srv2)\<lparr>mm_EntityCacheEvictions := mm_EntityCacheEvictions (ms_metrics srv2) + de\<rparr>,
                             ms_lastCacheEvicts := st_Evicts cs\<rparr> else srv2)"

section \<open>Subscribe\<close>

definition isWorkerRegistered :: "('l, 's) MainWorkerServer \<Rightarrow> string \<Rightarrow> bool" where
  "isWorkerRegistered srv workerID = (case GetWorkerCredentials (ms_workerAuth srv) workerID of Inl _ \<Rightarrow> False | Inr _ \<Rightarrow> True)"

definition main_RegisterWorker ::
    "(bytes \<Rightarrow> bytes) \<Rightarrow> ('l, 's) MainWorkerServer \<Rightarrow> string \<Rightarrow> string \<Rightarrow> tags \<Rightarrow> auth_error + ('l, 's) MainWorkerServer" where
  "main_RegisterWorker sha256 srv workerID password tags =
     (case RegisterWorker sha256 (ms_workerAuth srv) workerID password tags of
        Inl e \<Rightarrow> Inl e
      | Inr wa \<Rightarrow> Inr (srv\<lparr>ms_workerAuth := wa\<rparr>))"

text \<open>The gauges at the end of a successful Subscribe.\<close>

definition subscribe_gauges :: "('l, 's) MainWorkerServer \<Rightarrow> ('l, 's) MainWorkerServer" where
  "subscribe_gauges srv =
     srv\<lparr>ms_metrics := (ms_metrics srv)\<lparr>mm_RegisteredWorkers := int (card (auth_ListWorkers (ms_workerAuth srv))),
        mm_AvailableWorkers := int (card (ListAvailableWorkers (ms_registry srv))),
        mm_ActiveWorkerTokens := int (GetWorkerTokenCount (ms_tokenManager srv))\<rparr>\<rparr>"

definition main_Subscribe ::
    "('l, 's, 'p, 'rk, 'w) main_libs \<Rightarrow> main_env \<Rightarrow> SubscribeRequest option \<Rightarrow> ('l, 's) MainWorkerServer
      \<Rightarrow> ('l, 's) MainWorkerServer \<times> (rpc_error + SubscribeResponse)" where
  "main_Subscribe Lib env req srv =
     (if GetWorkerId req = [] then (count_subscribe ''error'' srv, Inl (InvalidArgument, ''worker_id is required''))
      else if GetPubkey req = [] then (count_subscribe ''error'' srv, Inl (InvalidArgument, ''pubkey is required''))
      else case ParsePublicKeyFromPEM (ml_rsa Lib) (GetPubkey req) of
             Inl _ \<Rightarrow> (count_subscribe ''error'' srv, Inl (InvalidArgument, ''invalid public key format''))
           | Inr pubkey \<Rightarrow>
               let workerID = GetWorkerId req;
                   srv1 = (if \<not> isWorkerRegistered srv workerID
                           then (case RegisterWorker (ml_sha256 Lib) (ms_workerAuth srv) workerID ''default-password'' (GetTags req) of
                                   Inl _ \<Rightarrow> srv
                                 | Inr wa \<Rightarrow> srv\<lparr>ms_workerAuth := wa\<rparr>)
                           else srv)
               in case WrapKey (ml_rsa Lib) (me_seed env) (Some pubkey) (ms_masterKey srv1) of
                    Inl _ \<Rightarrow> (count_subscribe ''error'' srv1, Inl (Internal, ''failed to wrap encryption key''))
                  | Inr wrappedKey \<Rightarrow>
                      (case GenerateWorkerToken (me_now env) (me_random env 32) (ms_tokenManager srv1) workerID (ms_masterKeyID srv1) (GetTags req) of
                         (tm, Inl _) \<Rightarrow> (count_subscribe ''error'' (srv1\<lparr>ms_tokenManager := tm\<rparr>), Inl (Internal, ''failed to generate token''))
                       | (tm, Inr token) \<Rightarrow>
                           let srv2 = srv1\<lparr>ms_tokenManager := tm\<rparr>;
                               srv3 = (case reg_Register (me_now env) (ms_registry srv2) workerID (ms_masterKeyID srv2) (GetTags req) of
                                         Inl _ \<Rightarrow> srv2
                                       | Inr r \<Rightarrow> srv2\<lparr>ms_registry := r\<rparr>)
                           in (subscribe_gauges (count_subscribe ''success'' srv3),
                               Inr \<lparr>sp_Token = wt_Token token, sp_WrappedKey = wrappedKey, sp_KeyId = ms_masterKeyID srv3\<rparr>)))"

section \<open>Process\<close>

definition store_key :: "string \<Rightarrow> string \<Rightarrow> string" where
  "store_key schemaID entityKey = schemaID @ [slash] @ entityKey"

text \<open>The two tiers of routing: the worker that last served the entity, else the least loaded one.\<close>

definition choose_worker :: "main_env \<Rightarrow> WorkerRegistry \<Rightarrow> string \<Rightarrow> WorkerInfo option" where
  "choose_worker env r entityID =
     (case FindWorkerForEntity r entityID of
        None \<Rightarrow> FindLeastLoadedWorker (me_workers env)
      | Some worker \<Rightarrow> Some worker)"

text \<open>The value of a key in a Go map of strings: the empty string when it is missing.\<close>

definition tag_value :: "tags \<Rightarrow> string \<Rightarrow> string" where
  "tag_value tags k = (case tags k of None \<Rightarrow> [] | Some v \<Rightarrow> v)"

text \<open>Forwarding to the chosen worker: the new registry and workers, and the answer if there is one to return.\<close>

definition forward_request ::
    "('l, 's, 'p, 'rk, 'w) main_libs \<Rightarrow> WorkerInfo \<Rightarrow> string \<Rightarrow> ProcessRequest option \<Rightarrow> WorkerRegistry \<Rightarrow> 'w
      \<Rightarrow> WorkerRegistry \<times> 'w \<times> ProcessResponse option" where
  "forward_request Lib worker entityID req r w =
     (let addr = tag_value (wi_Tags worker) ''grpc_addr'' in
      if addr = [] then (r, w, None)
      else
        let r1 = IncrementLoad r (wi_WorkerID worker) in
        case ml_forward Lib addr req w of
          (w', NoClient) \<Rightarrow> (DecrementLoad r1 (wi_WorkerID worker), w', None)
        | (w', Answered (Inl e)) \<Rightarrow> (DecrementLoad r1 (wi_WorkerID worker), w', None)
        | (w', Answered (Inr resp)) \<Rightarrow>
            (UpdateEntityLocation (DecrementLoad r1 (wi_WorkerID worker)) entityID (wi_WorkerID worker), w', Some resp))"

definition routeGETToProcWorker ::
    "('l, 's, 'p, 'rk, 'w) main_libs \<Rightarrow> main_env \<Rightarrow> ProcessRequest option \<Rightarrow> ('l, 's) MainWorkerServer \<Rightarrow> 'w
      \<Rightarrow> ('l, 's) MainWorkerServer \<times> 'w \<times> (rpc_error + ProcessResponse)" where
  "routeGETToProcWorker Lib env req srv w =
     (let entityID = store_key (GetSchemaId req) (GetEntityKey req);
          (r, w', answer) = (case choose_worker env (ms_registry srv) entityID of
                               None \<Rightarrow> (ms_registry srv, w, None)
                             | Some worker \<Rightarrow> forward_request Lib worker entityID req (ms_registry srv) w);
          srv1 = srv\<lparr>ms_registry := r\<rparr>
      in case answer of
           Some resp \<Rightarrow> (srv1, w', Inr resp)
         | None \<Rightarrow>
             (case cache_fetch (ml_lru Lib) (me_now env) (ms_entityStore srv1) entityID of
                (c, None) \<Rightarrow> (srv1\<lparr>ms_entityStore := c\<rparr>, w', Inl (NotFound, ''entity not found''))
              | (c, Some (data, version)) \<Rightarrow> (srv1\<lparr>ms_entityStore := c\<rparr>, w', Inr (response ''OK'' data version))))"

text \<open>The three operations on schema templates.\<close>

definition schema_operation ::
    "('l, 's, 'p, 'rk, 'w) main_libs \<Rightarrow> main_env \<Rightarrow> ProcessRequest option \<Rightarrow> ('l, 's) MainWorkerServer \<Rightarrow> file_sys
      \<Rightarrow> ('l, 's) MainWorkerServer \<times> file_sys \<times> (rpc_error + ProcessResponse)" where
  "schema_operation Lib env req srv fs =
     (let op = GetOperation req in
      case ms_validator srv of
        None \<Rightarrow> (count_process op ''error'' srv, fs, Inl (Unavailable, ''schema management unavailable''))
      | Some v \<Rightarrow>
          if op = ''SCHEMA_GET'' then
            (case GetTemplateData (me_faults env) v (GetSchemaId req) fs of
               Inl _ \<Rightarrow> (count_process op ''error'' srv, fs, Inl (NotFound, ''schema not found''))
             | Inr data \<Rightarrow> (count_process op ''success'' srv, fs, Inr (response ''OK'' data [])))
          else if op = ''SCHEMA_PUT'' then
            (case SaveTemplate (ml_schema Lib) (me_faults env) v (GetSchemaId req) (GetPayload req) fs of
               (fs', v', Some e) \<Rightarrow> (count_process op ''error'' (srv\<lparr>ms_validator := Some v'\<rparr>), fs', Inl (InvalidArgument, err_text e))
             | (fs', v', None) \<Rightarrow> (count_process op ''success'' (srv\<lparr>ms_validator := Some v'\<rparr>), fs', Inr (response ''OK'' [] [])))
          else
            (case DeleteTemplate (me_faults env) v (GetSchemaId req) fs of
               (fs', v', Some e) \<Rightarrow>
                 (count_process op ''error'' (srv\<lparr>ms_validator := Some v'\<rparr>), fs',
                  (case e of ErrSchemaNotFound _ \<Rightarrow> Inl (NotFound, err_text e) | _ \<Rightarrow> Inl (Internal, err_text e)))
             | (fs', v', None) \<Rightarrow> (count_process op ''success'' (srv\<lparr>ms_validator := Some v'\<rparr>), fs', Inr (response ''OK'' [] []))))"

definition main_Process ::
    "('l, 's, 'p, 'rk, 'w) main_libs \<Rightarrow> main_env \<Rightarrow> ProcessRequest option \<Rightarrow> ('l, 's) MainWorkerServer \<Rightarrow> 'w main_world
      \<Rightarrow> ('l, 's) MainWorkerServer \<times> 'w main_world \<times> (rpc_error + ProcessResponse)" where
  "main_Process Lib env req srv w =
     (let op = GetOperation req in
      if GetToken req = [] then (count_process op ''error'' srv, w, Inl (Unauthenticated, ''token is required''))
      else case ValidateWorkerToken (me_now env) (ms_tokenManager srv) (GetToken req) of
        (tm, Inl _) \<Rightarrow>
          (count_process op ''error'' (srv\<lparr>ms_tokenManager := tm\<rparr>), w, Inl (Unauthenticated, ''invalid or expired token''))
      | (tm, Inr _) \<Rightarrow>
          let srv0 = srv\<lparr>ms_tokenManager := tm\<rparr> in
          if op \<in> {''SCHEMA_GET'', ''SCHEMA_PUT'', ''SCHEMA_DELETE''} then
            (case schema_operation Lib env req srv0 (mw_files w) of (srv1, fs, r) \<Rightarrow> (srv1, w\<lparr>mw_files := fs\<rparr>, r))
          else if op \<noteq> ''GET'' \<and> op \<noteq> ''PUT'' \<and> op \<noteq> ''DELETE'' then
            (count_process op ''error'' srv0, w,
             Inl (InvalidArgument, ''operation must be GET, PUT, DELETE, SCHEMA_GET, SCHEMA_PUT, or SCHEMA_DELETE''))
          else if op = ''GET'' then
            (case routeGETToProcWorker Lib env req srv0 (mw_workers w) of
               (srv1, ws, r) \<Rightarrow>
                 (main_updateCacheMetrics (ml_lru Lib) (count_process op (case r of Inl _ \<Rightarrow> ''error'' | Inr _ \<Rightarrow> ''success'') srv1),
                  w\<lparr>mw_workers := ws\<rparr>, r))
          else
            let storeKey = store_key (GetSchemaId req) (GetEntityKey req) in
            if op = ''DELETE'' then
              (main_updateCacheMetrics (ml_lru Lib)
                 (count_process op ''success'' (srv0\<lparr>ms_entityStore := fst (cache_Evict (ml_lru Lib) (ms_entityStore srv0) storeKey)\<rparr>)),
               w, Inr (response ''OK'' [] []))
            else
              (main_updateCacheMetrics (ml_lru Lib)
                 (count_process op ''success''
                   (srv0\<lparr>ms_entityStore := cache_Set (ml_lru Lib) (me_now env) (ms_entityStore srv0) storeKey (GetPayload req) ''1''\<rparr>)),
               w, Inr (response ''OK'' [] ''1'')))"

text \<open>One goroutine \<open>go km.save()\<close>, and the statistics of the server.\<close>

definition run_key_save ::
    "('l, 's, 'p, 'rk, 'w) main_libs \<Rightarrow> main_env \<Rightarrow> ('l, 's) MainWorkerServer \<Rightarrow> 'w main_world
      \<Rightarrow> ('l, 's) MainWorkerServer \<times> 'w main_world" where
  "run_key_save Lib env srv w =
     (if ms_pendingSaves srv = 0 then (srv, w)
      else (srv\<lparr>ms_pendingSaves := ms_pendingSaves srv - 1\<rparr>,
            w\<lparr>mw_keyStore := save (ml_marshal Lib) (me_save env) (me_keys env) (ms_keyManager srv) (mw_keyStore w)\<rparr>))"

record main_stats =
  gs_active_worker_tokens :: nat
  gs_active_client_tokens :: nat
  gs_registered_workers :: nat
  gs_available_workers :: nat
  gs_master_key_id :: string
  gs_cache :: CacheStats
  gs_api_keys :: nat

definition GetStats :: "'l lru_ops \<Rightarrow> ('l, 's) MainWorkerServer \<Rightarrow> main_stats" where
  "GetStats L srv =
     \<lparr>gs_active_worker_tokens = GetWorkerTokenCount (ms_tokenManager srv),
      gs_active_client_tokens = GetClientTokenCount (ms_tokenManager srv),
      gs_registered_workers = card (auth_ListWorkers (ms_workerAuth srv)),
      gs_available_workers = card (ListAvailableWorkers (ms_registry srv)),
      gs_master_key_id = ms_masterKeyID srv, gs_cache = cache_Stats L (ms_entityStore srv),
      gs_api_keys = key_Count (ms_keyManager srv)\<rparr>"

definition GenerateTestKeyPair :: "('p, 'rk) rsa_lib \<Rightarrow> bytes \<Rightarrow> crypto_error + 'rk \<times> 'p" where
  "GenerateTestKeyPair R random = GenerateRSAKeyPair R random 2048"

end
