(* ===== verification/Go_Durations.thy ===== *)
theory Go_Durations
  imports Delta_Prelude
begin

text \<open>
  The lifetime notation of API keys (\<open>expires_in\<close> of POST /api/keys): \<open>time.ParseDuration\<close> and, when
  that fails and the text ends in d, a number of days read by \<open>fmt.Sscanf\<close>.  Both functions of
  the standard library are written out, with their overflow checks at 64 bits.  The one floating
  point expression of ParseDuration, which only fractions reach, is the argument \<open>ftime\<close>.
\<close>

section \<open>time.ParseDuration\<close>

definition is_digit :: "char \<Rightarrow> bool" where
  "is_digit c \<longleftrightarrow> 48 \<le> (of_char c :: nat) \<and> (of_char c :: nat) \<le> 57"

definition digit_value :: "char \<Rightarrow> nat" where
  "digit_value c = of_char c - 48"

text \<open>The leading digits of a string; None when the value passes \<open>1<<63\<close>.\<close>

fun leadingInt :: "nat \<Rightarrow> string \<Rightarrow> (nat \<times> string) option" where
  "leadingInt x [] = Some (x, [])"
| "leadingInt x (c # s) =
     (if \<not> is_digit c then Some (x, c # s)
      else if 2 ^ 63 div 10 < x then None
      else let x' = x * 10 + digit_value c in
           if 2 ^ 63 < x' then None else leadingInt x' s)"

text \<open>The digits of a fraction: their value and scale, up to the digit at which they would overflow.\<close>

fun leadingFraction :: "nat \<Rightarrow> nat \<Rightarrow> bool \<Rightarrow> string \<Rightarrow> nat \<times> nat \<times> string" where
  "leadingFraction x scale overflow [] = (x, scale, [])"
| "leadingFraction x scale overflow (c # s) =
     (if \<not> is_digit c then (x, scale, c # s)
      else if overflow then leadingFraction x scale True s
      else if (2 ^ 63 - 1) div 10 < x then leadingFraction x scale True s
      else let y = x * 10 + digit_value c in
           if 2 ^ 63 < y then leadingFraction x scale True s
           else leadingFraction y (scale * 10) False s)"

definition unitMap :: "string \<Rightarrow> nat option" where
  "unitMap u =
     (if u = ''ns'' then Some 1
      else if u = ''us'' \<or> u = [CHR 0xC2, CHR 0xB5, CHR ''s''] \<or> u = [CHR 0xCE, CHR 0xBC, CHR ''s''] then Some 1000
      else if u = ''ms'' then Some 1000000
      else if u = ''s'' then Some 1000000000
      else if u = ''m'' then Some 60000000000
      else if u = ''h'' then Some 3600000000000
      else None)"

lemma leadingInt_length: "leadingInt x s = Some (v, r) \<Longrightarrow> length r \<le> length s"
  by (induction x s rule: leadingInt.induct) (auto simp: Let_def split: if_splits)

lemma leadingFraction_length: "leadingFraction x sc ov s = (v, sc', r) \<Longrightarrow> length r \<le> length s"
  by (induction x sc ov s rule: leadingFraction.induct) (auto simp: Let_def split: if_splits)

text \<open>One number with its unit: its value in nanoseconds and the rest.\<close>

definition duration_term :: "(nat \<Rightarrow> nat \<Rightarrow> nat \<Rightarrow> nat) \<Rightarrow> string \<Rightarrow> (nat \<times> string) option" where
  "duration_term ftime s =
     (case leadingInt 0 s of
        None \<Rightarrow> None
      | Some (v, s1) \<Rightarrow>
          let pre = (length s1 \<noteq> length s);
              (f, scale, s2, post) =
                (case s1 of
                   c # s' \<Rightarrow> if c = CHR ''.''
                     then (case leadingFraction 0 1 False s' of (f, scale, r) \<Rightarrow> (f, scale, r, length r \<noteq> length s'))
                     else (0, 1, s1, False)
                 | [] \<Rightarrow> (0, 1, s1, False));
              u = takeWhile (\<lambda>c. \<not> (c = CHR ''.'' \<or> is_digit c)) s2
          in if \<not> pre \<and> \<not> post then None
             else if u = [] then None
             else case unitMap u of
                    None \<Rightarrow> None
                  | Some unit \<Rightarrow>
                      if 2 ^ 63 div unit < v then None
                      else let v' = v * unit + (if 0 < f then ftime f unit scale else 0) in
                           if 0 < f \<and> 2 ^ 63 < v' then None
                           else Some (v', drop (length u) s2))"

lemma duration_term_shorter:
  assumes "duration_term ftime s = Some (v, r)"
  shows "length r < length s"
proof -
  from assms obtain w s1 where i: "leadingInt 0 s = Some (w, s1)"
    by (auto simp: duration_term_def split: option.splits)
  define q where "q = (case s1 of
       c # s' \<Rightarrow> if c = CHR ''.''
         then (case leadingFraction 0 1 False s' of (f, scale, r) \<Rightarrow> (f, scale, r, length r \<noteq> length s'))
         else (0, 1, s1, False)
     | [] \<Rightarrow> (0 :: nat, 1 :: nat, s1, False))"
  obtain f scale s2 post where q': "q = (f, scale, s2, post)" by (cases q)
  have "length s2 \<le> length s1"
    using q' leadingFraction_length by (auto simp: q_def split: list.splits if_splits prod.splits intro: le_SucI)
  moreover have "length s1 \<le> length s" by (rule leadingInt_length [OF i])
  moreover have "r = drop (length (takeWhile (\<lambda>c. \<not> (c = CHR ''.'' \<or> is_digit c)) s2)) s2"
    and "takeWhile (\<lambda>c. \<not> (c = CHR ''.'' \<or> is_digit c)) s2 \<noteq> []"
    using assms i q' unfolding duration_term_def q_def [symmetric]
    by (auto simp: Let_def q_def [symmetric] split: if_splits option.splits)
  then have "length r < length s2"
    by (cases s2) (auto simp: le_imp_less_Suc)
  ultimately show ?thesis by linarith
qed

function duration_loop :: "(nat \<Rightarrow> nat \<Rightarrow> nat \<Rightarrow> nat) \<Rightarrow> nat \<Rightarrow> string \<Rightarrow> nat option" where
  "duration_loop ftime d s =
     (if s = [] then Some d
      else if \<not> (hd s = CHR ''.'' \<or> is_digit (hd s)) then None
      else case duration_term ftime s of
             None \<Rightarrow> None
           | Some (v, r) \<Rightarrow> if 2 ^ 63 < d + v then None else duration_loop ftime (d + v) r)"
  by pat_completeness auto
termination
  by (relation "measure (\<lambda>(ftime, d, s). length s)") (auto dest: duration_term_shorter)

declare duration_loop.simps [simp del]

definition ParseDuration :: "(nat \<Rightarrow> nat \<Rightarrow> nat \<Rightarrow> nat) \<Rightarrow> string \<Rightarrow> duration option" where
  "ParseDuration ftime s =
     (let (neg, s1) = (case s of [] \<Rightarrow> (False, [])
                       | c # cs \<Rightarrow> if c = CHR ''-'' then (True, cs) else if c = CHR ''+'' then (False, cs) else (False, s)) in
      if s1 = ''0'' then Some 0
      else if s1 = [] then None
      else case duration_loop ftime 0 s1 of
             None \<Rightarrow> None
           | Some d \<Rightarrow>
               if neg then Some (- int d)
               else if 2 ^ 63 - 1 < d then None else Some (int d))"

section \<open>Days\<close>

text \<open>
  \<open>fmt.Sscanf(s, "%d", &days)\<close>: leading blanks (the ASCII ones are written out), a sign, digits;
  what follows the digits is not looked at.
\<close>

definition is_blank :: "char \<Rightarrow> bool" where
  "is_blank c \<longleftrightarrow> c \<in> {CHR 0x09, CHR 0x0B, CHR 0x0C, CHR 0x0D, CHR 0x20}"

definition Sscanf_d :: "string \<Rightarrow> int option" where
  "Sscanf_d s =
     (let s1 = dropWhile is_blank s;
          (sign, s2) = (case s1 of [] \<Rightarrow> ([], [])
                        | c # cs \<Rightarrow> if c = CHR ''+'' \<or> c = CHR ''-'' then ([c], cs) else ([], s1));
          digits = takeWhile is_digit s2
      in if digits = [] then None
         else case Atoi (sign @ digits) of (n, None) \<Rightarrow> Some n | (n, Some _) \<Rightarrow> None)"

text \<open>The lifetime of a key request: \<open>time.Duration(days) * 24 * time.Hour\<close> wraps at 64 bits.\<close>

definition key_lifetime :: "(nat \<Rightarrow> nat \<Rightarrow> nat \<Rightarrow> nat) \<Rightarrow> string \<Rightarrow> duration option" where
  "key_lifetime ftime expiresIn =
     (case ParseDuration ftime expiresIn of
        Some d \<Rightarrow> Some d
      | None \<Rightarrow>
          if 1 < length expiresIn \<and> last expiresIn = CHR ''d'' then
            (case Sscanf_d (butlast expiresIn) of
               Some days \<Rightarrow> Some (i64 (i64 (days * 24) * hour))
             | None \<Rightarrow> None)
          else None)"

section \<open>Whole days\<close>

lemma dec_digits: "c \<in> set (dec_of_nat n) \<Longrightarrow> is_digit c"
  using dec_of_nat_digits [of c n] by (auto simp: is_digit_def)

lemma dec_hd: "hd (dec_of_nat n) \<in> set (dec_of_nat n)"
  by simp

lemma digit_no_sign: "is_digit c \<Longrightarrow> c \<noteq> CHR ''+'' \<and> c \<noteq> CHR ''-'' \<and> c \<noteq> CHR ''.'' \<and> \<not> is_blank c"
  by (auto simp: is_digit_def is_blank_def)

lemma leadingInt_digits:
  assumes "\<forall>c \<in> set ds. is_digit c" and "\<not> is_digit c"
  shows "leadingInt x (ds @ c # r) = None \<or> (\<exists>v. leadingInt x (ds @ c # r) = Some (v, c # r))"
  using assms by (induction ds arbitrary: x) (auto simp: Let_def)

lemma duration_term_days: "duration_term ftime (dec_of_nat n @ ''d'') = None"
proof -
  have nd: "\<not> is_digit CHR ''d''" by (simp add: is_digit_def)
  have "leadingInt 0 (dec_of_nat n @ ''d'') = None \<or> (\<exists>v. leadingInt 0 (dec_of_nat n @ ''d'') = Some (v, ''d''))"
    by (rule leadingInt_digits) (auto simp: nd dest: dec_digits)
  moreover have "unitMap ''d'' = None" by code_simp
  ultimately show ?thesis by (auto simp: duration_term_def Let_def nd)
qed

lemma ParseDuration_days: "ParseDuration ftime (dec_of_nat n @ ''d'') = None"
proof -
  obtain c cs where cs: "dec_of_nat n = c # cs" by (cases "dec_of_nat n") auto
  have d: "is_digit c" using dec_digits [of c n] cs by simp
  have "duration_loop ftime 0 (dec_of_nat n @ ''d'') = None"
    using duration_term_days [of ftime n] d cs by (subst duration_loop.simps) simp
  moreover have "dec_of_nat n @ ''d'' \<noteq> ''0''" by (simp add: cs)
  ultimately show ?thesis using digit_no_sign [OF d] cs by (simp add: ParseDuration_def)
qed

lemma Sscanf_d_dec:
  assumes "n < 2 ^ 63"
  shows "Sscanf_d (dec_of_nat n) = Some (int n)"
proof -
  obtain c cs where cs: "dec_of_nat n = c # cs" by (cases "dec_of_nat n") auto
  have d: "is_digit c" using dec_digits [of c n] cs by simp
  have "takeWhile is_digit (dec_of_nat n) = dec_of_nat n" using dec_digits [of _ n] by (simp add: takeWhile_eq_all_conv)
  moreover have "Atoi (dec_of_nat n) = (int n, None)"
    using Atoi_Itoa [of "int n"] assms by (simp add: Itoa_def is_i64_def)
  ultimately show ?thesis using digit_no_sign [OF d] cs by (simp add: Sscanf_d_def)
qed

lemma i64_mod: "i64 x mod 2 ^ 64 = x mod 2 ^ 64"
proof -
  have "((x + 2 ^ 63) mod 2 ^ 64 - 2 ^ 63) mod 2 ^ 64 = (x + 2 ^ 63 - 2 ^ 63) mod 2 ^ 64" by (rule mod_diff_left_eq)
  then show ?thesis by (simp add: i64_def)
qed

lemma i64_mult: "i64 (i64 a * b) = i64 (a * b)"
proof -
  have "(i64 a * b) mod 2 ^ 64 = (a * b) mod 2 ^ 64" by (metis i64_mod mod_mult_left_eq)
  then have "(i64 a * b + 2 ^ 63) mod 2 ^ 64 = (a * b + 2 ^ 63) mod 2 ^ 64" by (metis mod_add_left_eq)
  then show ?thesis by (simp add: i64_def)
qed

lemma key_lifetime_days:
  assumes "n < 2 ^ 63"
  shows "key_lifetime ftime (dec_of_nat n @ ''d'') = Some (i64 (int n * 24 * hour))"
proof -
  have "i64 (i64 (int n * 24) * hour) = i64 (int n * 24 * hour)"
    by (rule i64_mult)
  moreover have "1 < length (dec_of_nat n @ ''d'')" by (simp add: Suc_le_eq)
  ultimately show ?thesis
    using Sscanf_d_dec [OF assms] by (simp add: key_lifetime_def ParseDuration_days)
qed

end
