(* ===== verification/Main_Rest.thy ===== *)
theory Main_Rest
  imports Main_Worker Go_Durations "HOL-Library.List_Lexorder" "HOL-Library.Char_ord"
begin

text \<open>
  The REST interface of the Main Worker: cmd/main-worker/server.go and frontend.go.  A request
  has its method, path, Authorization header, the query parameter key and its body; a response
  its status code and the value that the handler gives to the encoder.  \<open>json.Decoder\<close> is the
  argument record \<open>json_lib\<close>, whose functions see the readable part of the body and whether it
  is complete: a body beyond the limit of \<open>http.MaxBytesReader\<close> is cut there.  An object is
  decoded to its members in the order in which the handler then visits the map.
\<close>

section \<open>Requests and responses\<close>

record http_request =
  hr_Method :: string
  hr_Path :: string
  hr_Authorization :: string
  hr_QueryKey :: string
  hr_Body :: bytes

record createKeyRequest =
  kr_Name :: string
  kr_Permissions :: "Permission list"
  kr_ExpiresIn :: string

record createKeyResponse =
  kp_ID :: string
  kp_Name :: string
  kp_Secret :: string
  kp_Permissions :: "Permission list"
  kp_ExpiresAt :: "gotime option"
  kp_CreatedAt :: gotime

record meResponse =
  mr_ClientID :: string
  mr_Permissions :: "Permission list"
  mr_IsAdmin :: bool

record loginRequest =
  lr_Key :: string
  lr_ClientID :: string

record loginResponse =
  lp_Token :: string
  lp_ClientID :: string
  lp_ExpiresAt :: gotime
  lp_Permissions :: "Permission list"

record json_lib =
  jn_object :: "bytes \<Rightarrow> bool \<Rightarrow> (string \<times> bytes) list option"
  jn_raw :: "bytes \<Rightarrow> bool \<Rightarrow> bytes option"
  jn_createKey :: "bytes \<Rightarrow> bool \<Rightarrow> createKeyRequest option"
  jn_login :: "bytes \<Rightarrow> bool \<Rightarrow> loginRequest option"

text \<open>
  \<open>ErrorText\<close> is a plain error page, \<open>ErrorJson m\<close> the text of the object with the member error = m.
  Lists that the code collects from a Go map are sets.
\<close>

datatype rest_body =
    ErrorText string
  | ErrorJson string
  | DataBytes bytes
  | StatusJson
  | StringsJson "string list"
  | WorkersJson "WorkerInfo set"
  | KeysJson "APIKey set"
  | CreatedJson createKeyResponse
  | MeJson meResponse
  | LoginJson loginResponse
  | StaticFile string
  | RedirectTo string

type_synonym http_response = "int \<times> rest_body"

definition limited :: "int \<Rightarrow> bytes \<Rightarrow> bytes \<times> bool" where
  "limited limit body = (take (nat limit) body, int (length body) \<le> limit)"

definition bad_id :: "string \<Rightarrow> bool" where
  "bad_id x \<longleftrightarrow> ContainsAny x path_seps \<or> Contains x ''..''"

section \<open>Authentication\<close>

text \<open>The permissions of a session: its roles, or read and write when it has none.\<close>

definition session_permissions :: "ClientToken \<Rightarrow> Permission list" where
  "session_permissions ct = (if ct_Roles ct = [] then [PermRead, PermWrite] else ct_Roles ct)"

definition is_admin_key :: "(bytes \<Rightarrow> bytes) \<Rightarrow> ('l, 's) MainWorkerServer \<Rightarrow> string \<Rightarrow> bool" where
  "is_admin_key sha256 srv token \<longleftrightarrow> ms_adminKeyHash srv \<noteq> [] \<and> hashAdminKey sha256 token = ms_adminKeyHash srv"

definition extractBearerToken ::
    "(bytes \<Rightarrow> bytes) \<Rightarrow> gotime \<Rightarrow> http_request \<Rightarrow> ('l, 's) MainWorkerServer
      \<Rightarrow> ('l, 's) MainWorkerServer \<times> (http_response + string \<times> Permission list)" where
  "extractBearerToken sha256 now r srv =
     (if \<not> HasPrefix (hr_Authorization r) ''Bearer '' then (srv, Inl (401, ErrorJson ''unauthorized''))
      else
        let bearerToken = TrimPrefix (hr_Authorization r) ''Bearer '' in
        if bearerToken = [] then (srv, Inl (401, ErrorJson ''unauthorized''))
        else if is_admin_key sha256 srv bearerToken then (srv, Inr (bearerToken, AllPermissions))
        else case ValidateKey sha256 now (ms_keyManager srv) bearerToken of
               Inr apiKey \<Rightarrow> (srv, Inr (bearerToken, ak_Permissions apiKey))
             | Inl _ \<Rightarrow>
                 (case ValidateClientToken now (ms_tokenManager srv) bearerToken of
                    (tm, Inr ct) \<Rightarrow> (srv\<lparr>ms_tokenManager := tm\<rparr>, Inr (bearerToken, session_permissions ct))
                  | (tm, Inl _) \<Rightarrow> (srv\<lparr>ms_tokenManager := tm\<rparr>, Inl (401, ErrorJson ''unauthorized''))))"

text \<open>\<open>requirePermission\<close>: None when the caller may go on, else the response that was written.\<close>

definition requirePermission ::
    "(bytes \<Rightarrow> bytes) \<Rightarrow> gotime \<Rightarrow> http_request \<Rightarrow> Permission \<Rightarrow> ('l, 's) MainWorkerServer
      \<Rightarrow> ('l, 's) MainWorkerServer \<times> http_response option" where
  "requirePermission sha256 now r perm srv =
     (case extractBearerToken sha256 now r srv of
        (srv', Inl resp) \<Rightarrow> (srv', Some resp)
      | (srv', Inr (_, perms)) \<Rightarrow>
          if list_ex (\<lambda>p. p = perm \<or> p = PermAdmin) perms then (srv', None)
          else (srv', Some (403, ErrorJson ''forbidden'')))"

section \<open>Handlers\<close>

type_synonym ('l, 's, 'w) rest_result = "('l, 's) MainWorkerServer \<times> 'w main_world \<times> http_response"

definition handleHealth :: "('l, 's) MainWorkerServer \<Rightarrow> 'w main_world \<Rightarrow> ('l, 's, 'w) rest_result" where
  "handleHealth srv w = (srv, w, (200, StatusJson))"

definition handleAdminWorkers ::
    "('l, 's, 'p, 'rk, 'w) main_libs \<Rightarrow> main_env \<Rightarrow> http_request \<Rightarrow> ('l, 's) MainWorkerServer \<Rightarrow> 'w main_world \<Rightarrow> ('l, 's, 'w) rest_result" where
  "handleAdminWorkers Lib env r srv w =
     (if hr_Method r \<noteq> ''GET'' then (srv, w, (405, ErrorText ''method not allowed''))
      else case requirePermission (ml_sha256 Lib) (me_now env) r PermAdmin srv of
             (srv1, Some resp) \<Rightarrow> (srv1, w, resp)
           | (srv1, None) \<Rightarrow> (srv1, w, (200, WorkersJson (reg_ListWorkers (ms_registry srv1)))))"

text \<open>The three operations of \<open>handleEntity\<close> once the caller is authorised and the schema id is checked.\<close>

definition entity_get ::
    "('l, 's, 'p, 'rk, 'w) main_libs \<Rightarrow> main_env \<Rightarrow> http_request \<Rightarrow> string \<Rightarrow> ('l, 's) MainWorkerServer
      \<Rightarrow> ('l, 's) MainWorkerServer \<times> http_response" where
  "entity_get Lib env r schemaID srv =
     (let key = hr_QueryKey r in
      if key = [] then (srv, (400, ErrorJson ''missing key''))
      else if bad_id key then (srv, (400, ErrorJson ''invalid key''))
      else case cache_fetch (ml_lru Lib) (me_now env) (ms_entityStore srv) (store_key schemaID key) of
             (c, None) \<Rightarrow> (srv\<lparr>ms_entityStore := c\<rparr>, (404, ErrorJson ''not_found''))
           | (c, Some (data, version)) \<Rightarrow> (srv\<lparr>ms_entityStore := c\<rparr>, (200, DataBytes data)))"

definition store_all :: "'l lru_ops \<Rightarrow> gotime \<Rightarrow> string \<Rightarrow> (string \<times> bytes) list \<Rightarrow> 'l Cache \<Rightarrow> 'l Cache" where
  "store_all L now schemaID payload c = fold (\<lambda>(key, value) c. cache_Set L now c (store_key schemaID key) value ''1'') payload c"

definition entity_put ::
    "('l, 's, 'p, 'rk, 'w) main_libs \<Rightarrow> json_lib \<Rightarrow> main_env \<Rightarrow> http_request \<Rightarrow> string \<Rightarrow> ('l, 's) MainWorkerServer
      \<Rightarrow> ('l, 's) MainWorkerServer \<times> http_response" where
  "entity_put Lib JL env r schemaID srv =
     (let (body, complete) = limited (cf_MaxRequestBodySize (ms_config srv)) (hr_Body r) in
      case jn_object JL body complete of
        None \<Rightarrow> (srv, (400, ErrorJson ''bad_json''))
      | Some payload \<Rightarrow>
          if payload = [] then (srv, (400, ErrorJson ''empty''))
          else if list_ex (\<lambda>(key, value). bad_id key) payload then (srv, (400, ErrorJson ''invalid key''))
          else (srv\<lparr>ms_entityStore := store_all (ml_lru Lib) (me_now env) schemaID payload (ms_entityStore srv)\<rparr>, (200, StatusJson)))"

definition entity_delete ::
    "('l, 's, 'p, 'rk, 'w) main_libs \<Rightarrow> http_request \<Rightarrow> string \<Rightarrow> ('l, 's) MainWorkerServer
      \<Rightarrow> ('l, 's) MainWorkerServer \<times> http_response" where
  "entity_delete Lib r schemaID srv =
     (let key = hr_QueryKey r in
      if key = [] then (srv, (400, ErrorJson ''missing key''))
      else if bad_id key then (srv, (400, ErrorJson ''invalid key''))
      else (srv\<lparr>ms_entityStore := fst (cache_Evict (ml_lru Lib) (ms_entityStore srv) (store_key schemaID key))\<rparr>, (200, StatusJson)))"

text \<open>The path without its prefix, up to a question mark.\<close>

definition entity_schema :: "http_request \<Rightarrow> string" where
  "entity_schema r = takeWhile (\<lambda>c. c \<noteq> CHR ''?'') (TrimPrefix (hr_Path r) ''/entity/'')"

definition handleEntity ::
    "('l, 's, 'p, 'rk, 'w) main_libs \<Rightarrow> json_lib \<Rightarrow> main_env \<Rightarrow> http_request \<Rightarrow> ('l, 's) MainWorkerServer \<Rightarrow> 'w main_world
      \<Rightarrow> ('l, 's, 'w) rest_result" where
  "handleEntity Lib JL env r srv w =
     (if hr_Method r \<notin> {''GET'', ''PUT'', ''DELETE''} then (srv, w, (405, ErrorText ''method not allowed''))
      else case requirePermission (ml_sha256 Lib) (me_now env) r (if hr_Method r = ''GET'' then PermRead else PermWrite) srv of
             (srv1, Some resp) \<Rightarrow> (srv1, w, resp)
           | (srv1, None) \<Rightarrow>
               let schemaID = entity_schema r in
               if schemaID = [] \<or> bad_id schemaID then (srv1, w, (400, ErrorJson ''invalid schema id''))
               else
                 let (srv2, resp) =
                       (if hr_Method r = ''GET'' then entity_get Lib env r schemaID srv1
                        else if hr_Method r = ''PUT'' then entity_put Lib JL env r schemaID srv1
                        else entity_delete Lib r schemaID srv1)
                 in (srv2, w, resp))"

definition handleAdminSchemas ::
    "main_env \<Rightarrow> http_request \<Rightarrow> ('l, 's) MainWorkerServer \<Rightarrow> 'w main_world \<Rightarrow> ('l, 's, 'w) rest_result" where
  "handleAdminSchemas env r srv w =
     (if hr_Method r \<noteq> ''GET'' then (srv, w, (405, ErrorText ''method not allowed''))
      else case ms_validator srv of
             None \<Rightarrow> (srv, w, (200, StringsJson []))
           | Some v \<Rightarrow>
               (case ListAvailableTemplates (me_faults env) v (mw_files w) of
                  Inl _ \<Rightarrow> (srv, w, (500, ErrorJson ''failed to list schemas''))
                | Inr schemas \<Rightarrow> (srv, w, (200, StringsJson schemas))))"

definition handleSchema ::
    "('l, 's, 'p, 'rk, 'w) main_libs \<Rightarrow> json_lib \<Rightarrow> main_env \<Rightarrow> http_request \<Rightarrow> ('l, 's) MainWorkerServer \<Rightarrow> 'w main_world
      \<Rightarrow> ('l, 's, 'w) rest_result" where
  "handleSchema Lib JL env r srv w =
     (let schemaID = TrimPrefix (hr_Path r) ''/schema/'' in
      if schemaID = [] \<or> bad_id schemaID then (srv, w, (400, ErrorJson ''invalid schema id''))
      else case ms_validator srv of
        None \<Rightarrow> (srv, w, (503, ErrorJson ''schema management unavailable''))
      | Some v \<Rightarrow>
          if hr_Method r = ''GET'' then
            (case GetTemplateData (me_faults env) v schemaID (mw_files w) of
               Inl _ \<Rightarrow> (srv, w, (404, ErrorJson ''not_found''))
             | Inr data \<Rightarrow> (srv, w, (200, DataBytes data)))
          else if hr_Method r = ''PUT'' then
            (case requirePermission (ml_sha256 Lib) (me_now env) r PermWrite srv of
               (srv1, Some resp) \<Rightarrow> (srv1, w, resp)
             | (srv1, None) \<Rightarrow>
                 let (body, complete) = limited (cf_MaxRequestBodySize (ms_config srv1)) (hr_Body r) in
                 case jn_raw JL body complete of
                   None \<Rightarrow> (srv1, w, (400, ErrorJson ''bad_json''))
                 | Some raw \<Rightarrow>
                     (case SaveTemplate (ml_schema Lib) (me_faults env) v schemaID raw (mw_files w) of
                        (fs, v', Some e) \<Rightarrow> (srv1\<lparr>ms_validator := Some v'\<rparr>, w\<lparr>mw_files := fs\<rparr>, (400, ErrorJson (err_text e)))
                      | (fs, v', None) \<Rightarrow> (srv1\<lparr>ms_validator := Some v'\<rparr>, w\<lparr>mw_files := fs\<rparr>, (200, StatusJson))))
          else if hr_Method r = ''DELETE'' then
            (case requirePermission (ml_sha256 Lib) (me_now env) r PermWrite srv of
               (srv1, Some resp) \<Rightarrow> (srv1, w, resp)
             | (srv1, None) \<Rightarrow>
                 (case DeleteTemplate (me_faults env) v schemaID (mw_files w) of
                    (fs, v', Some e) \<Rightarrow>
                      (srv1\<lparr>ms_validator := Some v'\<rparr>, w\<lparr>mw_files := fs\<rparr>,
                       (case e of ErrSchemaNotFound _ \<Rightarrow> (404, ErrorJson ''not_found'') | _ \<Rightarrow> (500, ErrorJson (err_text e))))
                  | (fs, v', None) \<Rightarrow> (srv1\<lparr>ms_validator := Some v'\<rparr>, w\<lparr>mw_files := fs\<rparr>, (200, StatusJson))))
          else (srv, w, (405, ErrorText ''method not allowed'')))"

text \<open>The schema ids of the cached entities: the part of each key before its first slash, if not empty.\<close>

definition cached_schemas :: "string list \<Rightarrow> string list" where
  "cached_schemas ks =
     sorted_list_of_set (set (map (takeWhile (\<lambda>c. c \<noteq> slash)) (filter (\<lambda>k. slash \<in> set k \<and> hd k \<noteq> slash) ks)))"

definition handleSchemas ::
    "('l, 's, 'p, 'rk, 'w) main_libs \<Rightarrow> main_env \<Rightarrow> http_request \<Rightarrow> ('l, 's) MainWorkerServer \<Rightarrow> 'w main_world \<Rightarrow> ('l, 's, 'w) rest_result" where
  "handleSchemas Lib env r srv w =
     (if hr_Method r \<noteq> ''GET'' then (srv, w, (405, ErrorJson ''method not allowed''))
      else case requirePermission (ml_sha256 Lib) (me_now env) r PermRead srv of
             (srv1, Some resp) \<Rightarrow> (srv1, w, resp)
           | (srv1, None) \<Rightarrow> (srv1, w, (200, StringsJson (cached_schemas (cache_Keys (ml_lru Lib) (ms_entityStore srv1))))))"

text \<open>Unlike \<open>extractBearerToken\<close>, \<open>handleMe\<close> only strips the prefix and does not ask for it.\<close>

definition handleMe ::
    "('l, 's, 'p, 'rk, 'w) main_libs \<Rightarrow> main_env \<Rightarrow> http_request \<Rightarrow> ('l, 's) MainWorkerServer \<Rightarrow> 'w main_world \<Rightarrow> ('l, 's, 'w) rest_result" where
  "handleMe Lib env r srv w =
     (if hr_Method r \<noteq> ''GET'' then (srv, w, (405, ErrorJson ''method not allowed''))
      else
        let bearerToken = TrimPrefix (hr_Authorization r) ''Bearer '';
            me = (\<lambda>clientID perms. (200, MeJson \<lparr>mr_ClientID = clientID, mr_Permissions = perms,
                                       mr_IsAdmin = list_ex (\<lambda>p. p = PermAdmin) perms\<rparr>))
        in if bearerToken = [] then (srv, w, (401, ErrorJson ''unauthorized''))
           else if is_admin_key (ml_sha256 Lib) srv bearerToken then (srv, w, me ''admin'' AllPermissions)
           else case ValidateKey (ml_sha256 Lib) (me_now env) (ms_keyManager srv) bearerToken of
                  Inr apiKey \<Rightarrow> (srv, w, me (ak_Name apiKey) (ak_Permissions apiKey))
                | Inl _ \<Rightarrow>
                    (case ValidateClientToken (me_now env) (ms_tokenManager srv) bearerToken of
                       (tm, Inr ct) \<Rightarrow> (srv\<lparr>ms_tokenManager := tm\<rparr>, w, me (ct_ClientID ct) (session_permissions ct))
                     | (tm, Inl _) \<Rightarrow> (srv\<lparr>ms_tokenManager := tm\<rparr>, w, (401, ErrorJson ''unauthorized''))))"

fun key_error_text :: "key_error \<Rightarrow> string" where
  "key_error_text KeyNameEmpty = ''key name cannot be empty''"
| "key_error_text NoPermissions = ''at least one permission is required''"
| "key_error_text SecretGenerationFailed = ''failed to generate key secret''"
| "key_error_text KeyIDGenerationFailed = ''failed to generate key ID''"
| "key_error_text KeySecretEmpty = ''key secret cannot be empty''"
| "key_error_text InvalidKey = ''invalid key''"
| "key_error_text KeyDisabled = ''key is disabled''"
| "key_error_text KeyExpired = ''key has expired''"
| "key_error_text (KeyNotFound kid) = ''key not found: '' @ kid"
| "key_error_text KeyStoreReadFailed = ''failed to load key store''"
| "key_error_text KeyStoreParseFailed = ''failed to parse key store''"
| "key_error_text NilDereference = ''invalid memory address or nil pointer dereference''"

text \<open>POST /api/keys after authorisation; \<open>CreateKey\<close> saves the key store before it returns.\<close>

definition create_api_key ::
    "('l, 's, 'p, 'rk, 'w) main_libs \<Rightarrow> json_lib \<Rightarrow> (nat \<Rightarrow> nat \<Rightarrow> nat \<Rightarrow> nat) \<Rightarrow> main_env \<Rightarrow> http_request
      \<Rightarrow> ('l, 's) MainWorkerServer \<Rightarrow> 'w main_world \<Rightarrow> ('l, 's, 'w) rest_result" where
  "create_api_key Lib JL ftime env r srv w =
     (let (body, complete) = limited 65536 (hr_Body r) in
      case jn_createKey JL body complete of
        None \<Rightarrow> (srv, w, (400, ErrorJson ''bad_json''))
      | Some req \<Rightarrow>
          if kr_Name req = [] then (srv, w, (400, ErrorJson ''name is required''))
          else if kr_Permissions req = [] then (srv, w, (400, ErrorJson ''permissions are required''))
          else case (if kr_ExpiresIn req = [] then Some None
                     else map_option (\<lambda>d. Some (me_now env + d)) (key_lifetime ftime (kr_ExpiresIn req))) of
                 None \<Rightarrow> (srv, w, (400, ErrorJson ''invalid expires_in (use Go duration e.g. 24h or 7d)''))
               | Some expiresAt \<Rightarrow>
                   (case CreateKey (ml_sha256 Lib) (me_now env) (me_random env 32) (me_random env 8) (ms_keyManager srv)
                           (kr_Name req) (kr_Permissions req) expiresAt of
                      (km, Inl e) \<Rightarrow> (srv\<lparr>ms_keyManager := km\<rparr>, w, (400, ErrorJson (key_error_text e)))
                    | (km, Inr (secret, key)) \<Rightarrow>
                        (srv\<lparr>ms_keyManager := km\<rparr>,
                         w\<lparr>mw_keyStore := save (ml_marshal Lib) (me_save env) (me_keys env) km (mw_keyStore w)\<rparr>,
                         (201, CreatedJson \<lparr>kp_ID = ak_ID key, kp_Name = ak_Name key, kp_Secret = secret,
                                 kp_Permissions = ak_Permissions key, kp_ExpiresAt = ak_ExpiresAt key, kp_CreatedAt = ak_CreatedAt key\<rparr>))))"

definition handleAPIKeys ::
    "('l, 's, 'p, 'rk, 'w) main_libs \<Rightarrow> json_lib \<Rightarrow> (nat \<Rightarrow> nat \<Rightarrow> nat \<Rightarrow> nat) \<Rightarrow> main_env \<Rightarrow> http_request
      \<Rightarrow> ('l, 's) MainWorkerServer \<Rightarrow> 'w main_world \<Rightarrow> ('l, 's, 'w) rest_result" where
  "handleAPIKeys Lib JL ftime env r srv w =
     (if hr_Method r = ''GET'' then
        (if key_Count (ms_keyManager srv) = 0 then (srv, w, (200, DataBytes (''[]'' @ [CHR 0x0A])))
         else case requirePermission (ml_sha256 Lib) (me_now env) r PermAdmin srv of
                (srv1, Some resp) \<Rightarrow> (srv1, w, resp)
              | (srv1, None) \<Rightarrow> (srv1, w, (200, KeysJson (ListKeys (ms_keyManager srv1)))))
      else if hr_Method r = ''POST'' then
        (case requirePermission (ml_sha256 Lib) (me_now env) r PermAdmin srv of
           (srv1, Some resp) \<Rightarrow> (srv1, w, resp)
         | (srv1, None) \<Rightarrow> create_api_key Lib JL ftime env r srv1 w)
      else (srv, w, (405, ErrorText ''method not allowed'')))"

definition handleAPIKeyByID ::
    "('l, 's, 'p, 'rk, 'w) main_libs \<Rightarrow> main_env \<Rightarrow> http_request \<Rightarrow> ('l, 's) MainWorkerServer \<Rightarrow> 'w main_world \<Rightarrow> ('l, 's, 'w) rest_result" where
  "handleAPIKeyByID Lib env r srv w =
     (let kid = TrimPrefix (hr_Path r) ''/api/keys/'' in
      if kid = [] then (srv, w, (400, ErrorJson ''key id is required''))
      else if hr_Method r \<noteq> ''DELETE'' then (srv, w, (405, ErrorText ''method not allowed''))
      else case requirePermission (ml_sha256 Lib) (me_now env) r PermAdmin srv of
             (srv1, Some resp) \<Rightarrow> (srv1, w, resp)
           | (srv1, None) \<Rightarrow>
               (case DeleteKey (ms_keyManager srv1) kid of
                  Inl _ \<Rightarrow> (srv1, w, (404, ErrorJson ''key not found''))
                | Inr km \<Rightarrow> (srv1\<lparr>ms_keyManager := km, ms_pendingSaves := ms_pendingSaves srv1 + 1\<rparr>, w, (200, StatusJson))))"

text \<open>Who logs in, and with which roles and permissions; a response when the login is refused.\<close>

definition login_identity ::
    "(bytes \<Rightarrow> bytes) \<Rightarrow> gotime \<Rightarrow> loginRequest \<Rightarrow> ('l, 's) MainWorkerServer \<Rightarrow> http_response + string \<times> string list \<times> Permission list" where
  "login_identity sha256 now req srv =
     (if lr_Key req \<noteq> [] then
        (if is_admin_key sha256 srv (lr_Key req) then Inr (''admin'', [''admin''], AllPermissions)
         else case ValidateKey sha256 now (ms_keyManager srv) (lr_Key req) of
                Inl _ \<Rightarrow> Inl (401, ErrorJson ''invalid or expired key'')
              | Inr apiKey \<Rightarrow> Inr (ak_Name apiKey, ak_Permissions apiKey, ak_Permissions apiKey))
      else if lr_ClientID req \<noteq> [] \<and> ms_adminKeyHash srv = [] then
        Inr (lr_ClientID req, [''read'', ''write''], [PermRead, PermWrite])
      else Inl (400, ErrorJson ''key is required''))"

definition handleLogin ::
    "('l, 's, 'p, 'rk, 'w) main_libs \<Rightarrow> json_lib \<Rightarrow> main_env \<Rightarrow> http_request \<Rightarrow> ('l, 's) MainWorkerServer \<Rightarrow> 'w main_world
      \<Rightarrow> ('l, 's, 'w) rest_result" where
  "handleLogin Lib JL env r srv w =
     (if hr_Method r \<noteq> ''POST'' then (srv, w, (405, ErrorJson ''method not allowed''))
      else case jn_login JL (hr_Body r) True of
        None \<Rightarrow> (srv, w, (400, ErrorJson ''bad_json''))
      | Some req \<Rightarrow>
          (case login_identity (ml_sha256 Lib) (me_now env) req srv of
             Inl resp \<Rightarrow> (srv, w, resp)
           | Inr (clientID, roles, perms) \<Rightarrow>
               (case GenerateClientToken (me_now env) (me_random env 32) (ms_tokenManager srv) clientID roles of
                  (tm, Inl _) \<Rightarrow> (srv\<lparr>ms_tokenManager := tm\<rparr>, w, (500, ErrorJson ''failed to generate token''))
                | (tm, Inr ct) \<Rightarrow>
                    (srv\<lparr>ms_tokenManager := tm\<rparr>, w,
                     (200, LoginJson \<lparr>lp_Token = ct_Token ct, lp_ClientID = ct_ClientID ct,
                             lp_ExpiresAt = ct_ExpiresAt ct, lp_Permissions = perms\<rparr>)))))"

section \<open>Routing\<close>

definition normalisePath :: "string \<Rightarrow> string" where
  "normalisePath p =
     (if p = ''/health'' then ''/health''
      else if p = ''/admin/workers'' then ''/admin/workers''
      else if p = ''/admin/schemas'' then ''/admin/schemas''
      else if p = ''/api/keys'' then ''/api/keys''
      else if HasPrefix p ''/api/keys/'' then ''/api/keys/:id''
      else if p = ''/api/schemas'' then ''/api/schemas''
      else if p = ''/api/me'' then ''/api/me''
      else if HasPrefix p ''/schema/'' then ''/schema/:id''
      else if HasPrefix p ''/entity/'' then ''/entity/:schema_id''
      else p)"

text \<open>
  \<open>http.ServeMux\<close> on the patterns of \<open>Run\<close>: a path that is not clean is redirected to its clean form
  (which keeps a final slash), a subtree pattern without its final slash to the subtree, and the
  longest matching pattern is served; the rest goes to the embedded static files.
\<close>

definition clean_url :: "string \<Rightarrow> string" where
  "clean_url p =
     (if p = [] then ''/''
      else let p1 = (if hd p = slash then p else slash # p);
               np = Clean p1
           in if last p1 = slash \<and> np \<noteq> ''/'' then np @ ''/'' else np)"

definition serve_mux ::
    "('l, 's, 'p, 'rk, 'w) main_libs \<Rightarrow> json_lib \<Rightarrow> (nat \<Rightarrow> nat \<Rightarrow> nat \<Rightarrow> nat) \<Rightarrow> main_env \<Rightarrow> http_request
      \<Rightarrow> ('l, 's) MainWorkerServer \<Rightarrow> 'w main_world \<Rightarrow> ('l, 's, 'w) rest_result" where
  "serve_mux Lib JL ftime env r srv w =
     (let p = hr_Path r in
      if clean_url p \<noteq> p then (srv, w, (301, RedirectTo (clean_url p)))
      else if p = ''/schema'' \<or> p = ''/entity'' then (srv, w, (301, RedirectTo (p @ ''/'')))
      else if p = ''/health'' then handleHealth srv w
      else if p = ''/admin/workers'' then handleAdminWorkers Lib env r srv w
      else if p = ''/admin/schemas'' then handleAdminSchemas env r srv w
      else if HasPrefix p ''/schema/'' then handleSchema Lib JL env r srv w
      else if HasPrefix p ''/entity/'' then handleEntity Lib JL env r srv w
      else if p = ''/api/keys'' then handleAPIKeys Lib JL ftime env r srv w
      else if HasPrefix p ''/api/keys/'' then handleAPIKeyByID Lib env r srv w
      else if p = ''/api/schemas'' then handleSchemas Lib env r srv w
      else if p = ''/api/me'' then handleMe Lib env r srv w
      else if p = ''/api/login'' then handleLogin Lib JL env r srv w
      else (srv, w, (ml_static Lib (hr_Method r) p, StaticFile p)))"

definition instrumentHTTP ::
    "http_request \<Rightarrow> ('l, 's, 'w) rest_result \<Rightarrow> ('l, 's, 'w) rest_result" where
  "instrumentHTTP r = (\<lambda>(srv, w, resp).
     let label = (hr_Method r, normalisePath (hr_Path r), Itoa (fst resp)); m = ms_metrics srv
     in (srv\<lparr>ms_metrics := m\<lparr>mm_HTTPRequests := (mm_HTTPRequests m)(label := mm_HTTPRequests m label + 1)\<rparr>\<rparr>, w, resp))"

definition serve_rest ::
    "('l, 's, 'p, 'rk, 'w) main_libs \<Rightarrow> json_lib \<Rightarrow> (nat \<Rightarrow> nat \<Rightarrow> nat \<Rightarrow> nat) \<Rightarrow> main_env \<Rightarrow> http_request
      \<Rightarrow> ('l, 's) MainWorkerServer \<Rightarrow> 'w main_world \<Rightarrow> ('l, 's, 'w) rest_result" where
  "serve_rest Lib JL ftime env r srv w = instrumentHTTP r (serve_mux Lib JL ftime env r srv w)"

end
