(* ===== verification/Main_Sample.thy ===== *)
theory Main_Sample
  imports Main_Rest
begin

text \<open>
  A small Main Worker on concrete libraries: the LRU list of theory Lru_Cache, keys that are their
  own hash, an RSA library whose ciphertexts are the plaintext, a key store with one key.  The
  hypotheses of the properties about the Main Worker are shown to hold together on it.
\<close>

definition sample_rsa :: "(unit, unit) rsa_lib" where
  "sample_rsa = \<lparr>rs_encrypt = (\<lambda>_ _ m. Some m), rs_decrypt = (\<lambda>_ c. Some c), rs_generate = (\<lambda>_ _. Some ()), rs_public = (\<lambda>_. ()),
     rs_marshal_pub = (\<lambda>_. Some ''p''), rs_parse_pub = (\<lambda>_. Some (Some ())), rs_marshal_priv = (\<lambda>_. []), rs_parse_priv = (\<lambda>_. Some ()),
     pem_encode = (\<lambda>_ der. der), pem_decode = (\<lambda>d. Some d)\<rparr>"

definition sample_api_key :: APIKey where
  "sample_api_key = \<lparr>ak_ID = ''k1'', ak_Name = ''reader'', ak_KeyHash = hash_secret (\<lambda>x. x) ''s'', ak_Permissions = [PermRead],
     ak_ExpiresAt = None, ak_CreatedAt = 0, ak_Enabled = True\<rparr>"

definition sample_config :: Config where
  "sample_config = \<lparr>cf_GRPCAddr = '':50051'', cf_RESTAddr = '':8080'', cf_SharedFSPath = [], cf_WorkerTokenTTL = 100, cf_ClientTokenTTL = 100,
     cf_MasterKey = replicate 32 CHR ''k'', cf_KeyID = [], cf_EntityCacheSize = 2, cf_MetricsAddr = [], cf_AdminKey = ''root'',
     cf_KeyStorePath = ''/keys'', cf_MaxRecvMsgSize = 0, cf_MaxRequestBodySize = 0\<rparr>"

text \<open>The Processing Workers are an argument: their state is \<open>'w\<close> and \<open>forward\<close> calls one of them.\<close>

definition sample_main_libs ::
    "(string \<Rightarrow> ProcessRequest option \<Rightarrow> 'w \<Rightarrow> 'w \<times> forwarded) \<Rightarrow> (list_lru, unit, unit, unit, 'w) main_libs" where
  "sample_main_libs forward = \<lparr>ml_lru = list_lru_ops, ml_rsa = sample_rsa, ml_sha256 = (\<lambda>x. x),
     ml_schema = \<lparr>sl_json_error = (\<lambda>_. None), sl_compile = (\<lambda>_. Inr ()), sl_check = (\<lambda>_ _. Inr (True, []))\<rparr>,
     ml_marshal = (\<lambda>_. Some ''store''), ml_unmarshal = (\<lambda>_. Some [Some sample_api_key]), ml_static = (\<lambda>_ _. 200), ml_forward = forward\<rparr>"

definition unreachable :: "string \<Rightarrow> ProcessRequest option \<Rightarrow> 'w \<Rightarrow> 'w \<times> forwarded" where
  "unreachable addr req ws = (ws, NoClient)"

definition sample_main_env :: "gotime \<Rightarrow> bytes \<Rightarrow> main_env" where
  "sample_main_env now rnd = \<lparr>me_now = now, me_random = (\<lambda>n. Some rnd), me_seed = [], me_faults = (\<lambda>_. None),
     me_workers = [], me_keys = [sample_api_key], me_save = \<lparr>mkdir_ok = True, write_ok = True, rename_ok = True\<rparr>\<rparr>"

definition sample_world :: "'w \<Rightarrow> 'w main_world" where
  "sample_world ws = \<lparr>mw_files = [], mw_keyStore = ReadOk ''store'', mw_workers = ws\<rparr>"

definition sample_main :: "(list_lru, unit) MainWorkerServer" where
  "sample_main = (case NewMainWorkerServer (sample_main_libs unreachable) (sample_main_env 0 ''r'') (Some sample_config) (sample_world ()) of
     (w, Inr srv) \<Rightarrow> srv)"

definition sample_keys :: KeyManager where
  "sample_keys = \<lparr>km_keys = [ak_KeyHash sample_api_key \<mapsto> sample_api_key], km_idIndex = [''k1'' \<mapsto> ak_KeyHash sample_api_key], km_storePath = ''/keys''\<rparr>"

definition sample_store_cache :: "list_lru Cache" where
  "sample_store_cache = (case NewCache list_lru_ops \<lparr>cfg_MaxSize = 2, cfg_DefaultTTL = 0, cfg_CleanupInterval = 0\<rparr> of Inr c \<Rightarrow> c)"

lemma sample_store_cache_new:
  "NewCache list_lru_ops \<lparr>cfg_MaxSize = 2, cfg_DefaultTTL = 0, cfg_CleanupInterval = 0\<rparr> = Inr sample_store_cache"
  by (simp add: sample_store_cache_def NewCache_def list_lru_ops_def)

lemma sample_store_cache_inv:
  "cache_inv ll_items ll_cap list_lru_ok sample_store_cache" "cache_lookup ll_items sample_store_cache k = None"
  using llru.NewCache_inv [OF sample_store_cache_new] by (simp_all add: cache_lookup_def)

lemma sample_main_libs_simps [simp]:
  "ml_lru (sample_main_libs f) = list_lru_ops" "ml_rsa (sample_main_libs f) = sample_rsa" "ml_sha256 (sample_main_libs f) = (\<lambda>x. x)"
  "ml_forward (sample_main_libs f) = f" "ml_unmarshal (sample_main_libs f) = (\<lambda>_. Some [Some sample_api_key])"
  by (simp_all add: sample_main_libs_def)

lemma sample_keys_loaded: "NewKeyManager (\<lambda>_. Some [Some sample_api_key]) (\<lambda>_. ReadOk ''store'') ''/keys'' = Inr sample_keys"
  by (simp add: NewKeyManager_def load_def sample_keys_def sample_api_key_def)

lemma sample_main_env_simps [simp]:
  "me_now (sample_main_env now rnd) = now" "me_random (sample_main_env now rnd) = (\<lambda>n. Some rnd)" "me_workers (sample_main_env now rnd) = []"
  "me_seed (sample_main_env now rnd) = []"
  by (simp_all add: sample_main_env_def)

lemma sample_main_started:
  "NewMainWorkerServer (sample_main_libs unreachable) (sample_main_env 0 ''r'') (Some sample_config) (sample_world ()) = (sample_world (), Inr sample_main)"
  and sample_main_simps [simp]:
  "ms_tokenManager sample_main = NewTokenManager 100 100" "ms_workerAuth sample_main = NewWorkerAuthenticator"
  "ms_keyManager sample_main = sample_keys" "ms_adminKeyHash sample_main = hashAdminKey (\<lambda>x. x) ''root''"
  "ms_registry sample_main = NewWorkerRegistry" "ms_entityStore sample_main = sample_store_cache" "ms_validator sample_main = None"
  "ms_masterKey sample_main = replicate 32 CHR ''k''" "ms_masterKeyID sample_main = ''main-key-v1''"
  "cf_MaxRequestBodySize (ms_config sample_main) = 1048576"
  using sample_keys_loaded sample_store_cache_new
  by (simp_all add: sample_main_def NewMainWorkerServer_def with_defaults_def sample_config_def Let_def sample_world_def)

lemma sample_hashes:
  "hashAdminKey (\<lambda>x. x) ''root'' = ''726f6f74''" "hash_secret (\<lambda>x. x) ''s'' = ''73''" "hashAdminKey (\<lambda>x. x) ''s'' = ''73''"
  by code_simp+

text \<open>A body that always asks to log in with the key of the sample, and requests with a given bearer token.\<close>

definition sample_json :: json_lib where
  "sample_json = \<lparr>jn_object = (\<lambda>b complete. if complete then Some [(''1'', b)] else None), jn_raw = (\<lambda>b complete. if complete then Some b else None),
     jn_createKey = (\<lambda>_ _. None), jn_login = (\<lambda>b complete. Some \<lparr>lr_Key = b, lr_ClientID = []\<rparr>)\<rparr>"

definition rest_request :: "string \<Rightarrow> string \<Rightarrow> string \<Rightarrow> string \<Rightarrow> bytes \<Rightarrow> http_request" where
  "rest_request meth url token key body = \<lparr>hr_Method = meth, hr_Path = url, hr_Authorization = ''Bearer '' @ token, hr_QueryKey = key, hr_Body = body\<rparr>"

lemma rest_request_simps [simp]:
  "hr_Method (rest_request m u t k b) = m" "hr_Path (rest_request m u t k b) = u" "hr_Authorization (rest_request m u t k b) = ''Bearer '' @ t"
  "hr_QueryKey (rest_request m u t k b) = k" "hr_Body (rest_request m u t k b) = b"
  by (simp_all add: rest_request_def)

lemma sample_validates:
  "ValidateKey (\<lambda>x. x) now sample_keys ''s'' = Inr sample_api_key"
  "secret \<noteq> [] \<Longrightarrow> hash_secret (\<lambda>x. x) secret \<noteq> ''73'' \<Longrightarrow> ValidateKey (\<lambda>x. x) now sample_keys secret = Inl InvalidKey"
  by (simp_all add: ValidateKey_def sample_keys_def sample_api_key_def sample_hashes key_IsExpired_def)

lemma sample_admin_key: "is_admin_key (\<lambda>x. x) sample_main t \<longleftrightarrow> hashAdminKey (\<lambda>x. x) t = ''726f6f74''"
  by (simp add: is_admin_key_def sample_hashes)

text \<open>The session opened with the key of the sample.\<close>

definition sample_session :: ClientToken where
  "sample_session = \<lparr>ct_Token = ''cg=='', ct_ClientID = ''reader'', ct_ExpiresAt = 110, ct_Roles = [PermRead]\<rparr>"

lemma sample_login:
  "handleLogin (sample_main_libs f) sample_json (sample_main_env 10 ''r'') (rest_request ''POST'' ''/api/login'' [] [] ''s'') sample_main w =
     (sample_main\<lparr>ms_tokenManager := (NewTokenManager 100 100)\<lparr>tm_clientTokens := [''cg=='' \<mapsto> sample_session]\<rparr>\<rparr>, w, 200,
      LoginJson \<lparr>lp_Token = ''cg=='', lp_ClientID = ''reader'', lp_ExpiresAt = 110, lp_Permissions = [PermRead]\<rparr>)"
proof -
  have "b64_encode b64_url ''r'' = ''cg==''" by code_simp
  then show ?thesis
    by (simp add: handleLogin_def sample_json_def login_identity_def sample_admin_key sample_hashes sample_validates
        sample_api_key_def GenerateClientToken_def generateSecureToken_def NewTokenManager_def sample_session_def Let_def)
qed

text \<open>The sample after a Processing Worker with address a:1 has subscribed.\<close>

definition sample_info :: WorkerInfo where
  "sample_info = \<lparr>wi_WorkerID = ''w1'', wi_Status = WorkerStatusAvailable, wi_KeyID = ''main-key-v1'', wi_LastSeen = 10,
     wi_Tags = [''grpc_addr'' \<mapsto> ''a:1''], wi_ActiveRequests = 0\<rparr>"

definition sample_worker_token :: WorkerToken where
  "sample_worker_token = \<lparr>wt_Token = ''cg=='', wt_WorkerID = ''w1'', wt_ExpiresAt = 110, wt_KeyID = ''main-key-v1'', wt_Tags = [''grpc_addr'' \<mapsto> ''a:1'']\<rparr>"

definition sample_joined :: "(list_lru, unit) MainWorkerServer" where
  "sample_joined = fst (main_Subscribe (sample_main_libs (unreachable :: _ \<Rightarrow> _ \<Rightarrow> unit \<Rightarrow> _)) (sample_main_env 10 ''r'')
     (Some \<lparr>sr_WorkerId = ''w1'', sr_Pubkey = ''p'', sr_Tags = [''grpc_addr'' \<mapsto> ''a:1'']\<rparr>) sample_main)"

lemma sample_joined_simps [simp]:
  "ms_registry sample_joined = NewWorkerRegistry\<lparr>wr_workers := [''w1'' \<mapsto> sample_info]\<rparr>"
  "ms_tokenManager sample_joined = (NewTokenManager 100 100)\<lparr>tm_workerTokens := [''cg=='' \<mapsto> sample_worker_token]\<rparr>"
  "ms_entityStore sample_joined = sample_store_cache"
proof -
  have b: "generateSecureToken (Some ''r'') = Some ''cg==''" by code_simp
  have s: "main_Subscribe (sample_main_libs (unreachable :: _ \<Rightarrow> _ \<Rightarrow> unit \<Rightarrow> _)) (sample_main_env 10 ''r'')
     (Some \<lparr>sr_WorkerId = ''w1'', sr_Pubkey = ''p'', sr_Tags = [''grpc_addr'' \<mapsto> ''a:1'']\<rparr>) sample_main = (sample_joined, r)
    \<Longrightarrow> ms_registry sample_joined = NewWorkerRegistry\<lparr>wr_workers := [''w1'' \<mapsto> sample_info]\<rparr> \<and>
      ms_tokenManager sample_joined = (NewTokenManager 100 100)\<lparr>tm_workerTokens := [''cg=='' \<mapsto> sample_worker_token]\<rparr> \<and>
      ms_entityStore sample_joined = sample_store_cache" for r
    unfolding sample_joined_def
    by (auto simp: main_Subscribe_def ParsePublicKeyFromPEM_def sample_rsa_def WrapKey_def GenerateWorkerToken_def b
        reg_Register_def subscribe_gauges_def count_subscribe_def Let_def NewTokenManager_def NewWorkerRegistry_def sample_info_def
        sample_worker_token_def isWorkerRegistered_def split: sum.splits)
  then show "ms_registry sample_joined = NewWorkerRegistry\<lparr>wr_workers := [''w1'' \<mapsto> sample_info]\<rparr>"
    "ms_tokenManager sample_joined = (NewTokenManager 100 100)\<lparr>tm_workerTokens := [''cg=='' \<mapsto> sample_worker_token]\<rparr>"
    "ms_entityStore sample_joined = sample_store_cache"
    by (metis prod.collapse sample_joined_def)+
qed

lemma sample_worker_valid:
  "ms_tokenManager srv = ms_tokenManager sample_joined \<Longrightarrow> now \<le> 110 \<Longrightarrow>
    ValidateWorkerToken now (ms_tokenManager srv) ''cg=='' = (ms_tokenManager sample_joined, Inr sample_worker_token)"
  by (simp add: ValidateWorkerToken_def sample_worker_token_def)

end
