(* ===== verification/Main_Access.thy ===== *)
theory Main_Access
  imports Main_Sample Cache_Properties
begin

text \<open>
  Access control of the REST interface: what a request may change or see, given the permissions of
  its bearer token, and what a session is worth compared with the key it was opened with.
\<close>

section \<open>Permissions of a request\<close>

definition caller_permissions ::
    "(bytes \<Rightarrow> bytes) \<Rightarrow> gotime \<Rightarrow> ('l, 's) MainWorkerServer \<Rightarrow> http_request \<Rightarrow> Permission set" where
  "caller_permissions sha256 now srv r =
     (case snd (extractBearerToken sha256 now r srv) of Inl _ \<Rightarrow> {} | Inr (token, perms) \<Rightarrow> set perms)"

definition may :: "(bytes \<Rightarrow> bytes) \<Rightarrow> gotime \<Rightarrow> ('l, 's) MainWorkerServer \<Rightarrow> http_request \<Rightarrow> Permission \<Rightarrow> bool" where
  "may sha256 now srv r perm \<longleftrightarrow> caller_permissions sha256 now srv r \<inter> {perm, PermAdmin} \<noteq> {}"

lemma extractBearerToken_frame: "fst (extractBearerToken sha256 now r srv) = srv\<lparr>ms_tokenManager := ms_tokenManager (fst (extractBearerToken sha256 now r srv))\<rparr>"
  by (simp add: extractBearerToken_def Let_def split: sum.splits prod.splits)

lemma requirePermission_frame:
  assumes "requirePermission sha256 now r perm srv = (srv1, x)"
  shows "srv1 = srv\<lparr>ms_tokenManager := ms_tokenManager srv1\<rparr>"
proof -
  have "srv1 = fst (extractBearerToken sha256 now r srv)"
    using assms by (auto simp: requirePermission_def split: prod.splits sum.splits if_splits)
  with extractBearerToken_frame [of sha256 now r srv] show ?thesis by simp
qed

lemma requirePermission_iff:
  assumes "requirePermission sha256 now r perm srv = (srv1, x)"
  shows "x = None \<longleftrightarrow> may sha256 now srv r perm"
  using assms
  by (auto simp: requirePermission_def may_def caller_permissions_def list_ex_iff split: prod.splits sum.splits if_splits)

lemma requirePermission_refusal:
  assumes "requirePermission sha256 now r perm srv = (srv1, Some resp)"
  shows "resp = (401, ErrorJson ''unauthorized'') \<or> resp = (403, ErrorJson ''forbidden'')"
  using assms
  by (auto simp: requirePermission_def extractBearerToken_def Let_def split: prod.splits sum.splits if_splits)

lemma requirePermission_keeps_session:
  assumes "requirePermission sha256 now r perm srv = (srv1, x)"
    and "tm_clientTokens (ms_tokenManager srv) t = Some ct" and "now \<le> ct_ExpiresAt ct"
  shows "tm_clientTokens (ms_tokenManager srv1) t = Some ct"
proof -
  have "srv1 = fst (extractBearerToken sha256 now r srv)"
    using assms(1) by (auto simp: requirePermission_def split: prod.splits sum.splits if_splits)
  with assms(2,3) show ?thesis
    by (auto simp: extractBearerToken_def ValidateClientToken_def Let_def split: prod.splits sum.splits if_splits option.splits)
qed

text \<open>Everything but the session tokens is as before.\<close>

definition tokens_only :: "('l, 's) MainWorkerServer \<Rightarrow> ('l, 's) MainWorkerServer \<Rightarrow> bool" where
  "tokens_only srv srv1 \<longleftrightarrow> srv1 = srv\<lparr>ms_tokenManager := ms_tokenManager srv1\<rparr>"

lemma tokens_only_fields:
  assumes "tokens_only srv srv1"
  shows "ms_workerAuth srv1 = ms_workerAuth srv" "ms_registry srv1 = ms_registry srv" "ms_masterKey srv1 = ms_masterKey srv"
    "ms_adminKeyHash srv1 = ms_adminKeyHash srv" "ms_config srv1 = ms_config srv" "ms_entityStore srv1 = ms_entityStore srv"
    "ms_validator srv1 = ms_validator srv" "ms_keyManager srv1 = ms_keyManager srv" "ms_pendingSaves srv1 = ms_pendingSaves srv"
  using arg_cong [OF assms [unfolded tokens_only_def], of ms_workerAuth] arg_cong [OF assms [unfolded tokens_only_def], of ms_registry]
    arg_cong [OF assms [unfolded tokens_only_def], of ms_masterKey] arg_cong [OF assms [unfolded tokens_only_def], of ms_adminKeyHash]
    arg_cong [OF assms [unfolded tokens_only_def], of ms_config] arg_cong [OF assms [unfolded tokens_only_def], of ms_entityStore]
    arg_cong [OF assms [unfolded tokens_only_def], of ms_validator] arg_cong [OF assms [unfolded tokens_only_def], of ms_keyManager]
    arg_cong [OF assms [unfolded tokens_only_def], of ms_pendingSaves]
  by simp_all

lemma may_cases:
  obtains (granted) srv1 where "may sha256 now srv r perm" "requirePermission sha256 now r perm srv = (srv1, None)" "tokens_only srv srv1"
  | (refused) srv1 code m where "\<not> may sha256 now srv r perm" "requirePermission sha256 now r perm srv = (srv1, Some (code, ErrorJson m))"
      "tokens_only srv srv1" "code \<in> {401, 403}"
proof -
  obtain srv1 x where q: "requirePermission sha256 now r perm srv = (srv1, x)" by (cases "requirePermission sha256 now r perm srv")
  note f = requirePermission_frame [OF q] and i = requirePermission_iff [OF q]
  show thesis
  proof (cases x)
    case None
    with granted [of srv1] q f i show thesis by (simp add: tokens_only_def)
  next
    case (Some resp)
    with refused [of srv1] q f i requirePermission_refusal [of sha256 now r perm srv srv1 resp] show thesis
      by (auto simp: tokens_only_def)
  qed
qed

section \<open>What a request can change\<close>

text \<open>
  A request is authorised for its effect: what changed of the server and the world, and what was
  shown, is covered by the permissions of the caller.
\<close>

definition authorised ::
    "'l lru_ops \<Rightarrow> gotime \<Rightarrow> (Permission \<Rightarrow> bool) \<Rightarrow> ('l, 's) MainWorkerServer \<Rightarrow> 'w main_world \<Rightarrow> ('l, 's, 'w) rest_result \<Rightarrow> bool" where
  "authorised L now can srv w = (\<lambda>(srv', w', code, body).
     ms_workerAuth srv' = ms_workerAuth srv \<and> ms_registry srv' = ms_registry srv \<and> ms_masterKey srv' = ms_masterKey srv \<and>
     ms_adminKeyHash srv' = ms_adminKeyHash srv \<and> ms_config srv' = ms_config srv \<and> mw_workers w' = mw_workers w \<and>
     (ms_entityStore srv' \<noteq> ms_entityStore srv \<longrightarrow>
        can PermWrite \<or> can PermRead \<and> (\<exists>k. ms_entityStore srv' = fst (cache_fetch L now (ms_entityStore srv) k))) \<and>
     (ms_validator srv' \<noteq> ms_validator srv \<or> mw_files w' \<noteq> mw_files w \<longrightarrow> can PermWrite) \<and>
     (ms_keyManager srv' \<noteq> ms_keyManager srv \<or> ms_pendingSaves srv' \<noteq> ms_pendingSaves srv \<or> mw_keyStore w' \<noteq> mw_keyStore w \<longrightarrow> can PermAdmin) \<and>
     (\<forall>x. body = KeysJson x \<longrightarrow> can PermAdmin) \<and> (\<forall>x. body = WorkersJson x \<longrightarrow> can PermAdmin) \<and> (\<forall>x. body = CreatedJson x \<longrightarrow> can PermAdmin))"

lemma handleAdminWorkers_authorised:
  "authorised (ml_lru Lib) (me_now env) (may (ml_sha256 Lib) (me_now env) srv r) srv w (handleAdminWorkers Lib env r srv w)"
proof (cases rule: may_cases [of "ml_sha256 Lib" "me_now env" srv r PermAdmin])
  case granted
  then show ?thesis by (simp add: handleAdminWorkers_def authorised_def tokens_only_fields)
next
  case refused
  then show ?thesis by (simp add: handleAdminWorkers_def authorised_def tokens_only_fields)
qed

lemma handleSchemas_authorised:
  "authorised (ml_lru Lib) (me_now env) (may (ml_sha256 Lib) (me_now env) srv r) srv w (handleSchemas Lib env r srv w)"
proof (cases rule: may_cases [of "ml_sha256 Lib" "me_now env" srv r PermRead])
  case granted
  then show ?thesis by (simp add: handleSchemas_def authorised_def tokens_only_fields)
next
  case refused
  then show ?thesis by (simp add: handleSchemas_def authorised_def tokens_only_fields)
qed

lemma handleAPIKeyByID_authorised:
  "authorised (ml_lru Lib) (me_now env) (may (ml_sha256 Lib) (me_now env) srv r) srv w (handleAPIKeyByID Lib env r srv w)"
proof (cases rule: may_cases [of "ml_sha256 Lib" "me_now env" srv r PermAdmin])
  case (granted srv1)
  then show ?thesis
    by (cases "DeleteKey (ms_keyManager srv1) (TrimPrefix (hr_Path r) ''/api/keys/'')")
      (simp_all add: handleAPIKeyByID_def authorised_def tokens_only_fields Let_def)
next
  case refused
  then show ?thesis by (simp add: handleAPIKeyByID_def authorised_def tokens_only_fields Let_def)
qed

lemma create_api_key_frame:
  assumes "create_api_key Lib JL ftime env r srv w = (srv', w', code, body)"
  shows "srv' = srv\<lparr>ms_keyManager := ms_keyManager srv'\<rparr>" "mw_files w' = mw_files w" "mw_workers w' = mw_workers w"
  using assms by (auto simp: create_api_key_def Let_def split: prod.splits option.splits if_splits sum.splits)

lemma handleAPIKeys_authorised:
  "authorised (ml_lru Lib) (me_now env) (may (ml_sha256 Lib) (me_now env) srv r) srv w (handleAPIKeys Lib JL ftime env r srv w)"
proof (cases rule: may_cases [of "ml_sha256 Lib" "me_now env" srv r PermAdmin])
  case (granted srv1)
  obtain srv' w' code body where c: "create_api_key Lib JL ftime env r srv1 w = (srv', w', code, body)"
    by (cases "create_api_key Lib JL ftime env r srv1 w") auto
  then obtain km where "srv' = srv1\<lparr>ms_keyManager := km\<rparr>" using create_api_key_frame(1) [OF c] by blast
  with granted create_api_key_frame(2,3) [OF c] c show ?thesis
    by (simp add: handleAPIKeys_def authorised_def tokens_only_fields)
next
  case refused
  then show ?thesis by (simp add: handleAPIKeys_def authorised_def tokens_only_fields)
qed

text \<open>The operations on entities touch the entity store only; GET does not change what is stored.\<close>

lemma entity_ops_frame:
  "fst (entity_get Lib env r sid srv) = srv\<lparr>ms_entityStore := ms_entityStore (fst (entity_get Lib env r sid srv))\<rparr>"
  "fst (entity_put Lib JL env r sid srv) = srv\<lparr>ms_entityStore := ms_entityStore (fst (entity_put Lib JL env r sid srv))\<rparr>"
  "fst (entity_delete Lib r sid srv) = srv\<lparr>ms_entityStore := ms_entityStore (fst (entity_delete Lib r sid srv))\<rparr>"
  by (simp_all add: entity_get_def entity_put_def entity_delete_def Let_def split: prod.splits option.splits)

lemma entity_ops_body:
  "snd (snd (entity_get Lib env r sid srv)) \<noteq> KeysJson x \<and> snd (snd (entity_get Lib env r sid srv)) \<noteq> WorkersJson y \<and>
    snd (snd (entity_get Lib env r sid srv)) \<noteq> CreatedJson z"
  "snd (snd (entity_put Lib JL env r sid srv)) \<noteq> KeysJson x \<and> snd (snd (entity_put Lib JL env r sid srv)) \<noteq> WorkersJson y \<and>
    snd (snd (entity_put Lib JL env r sid srv)) \<noteq> CreatedJson z"
  "snd (snd (entity_delete Lib r sid srv)) \<noteq> KeysJson x \<and> snd (snd (entity_delete Lib r sid srv)) \<noteq> WorkersJson y \<and>
    snd (snd (entity_delete Lib r sid srv)) \<noteq> CreatedJson z"
  by (simp_all add: entity_get_def entity_put_def entity_delete_def Let_def split: prod.splits option.splits)

lemma entity_get_store:
  "ms_entityStore (fst (entity_get Lib env r sid srv)) = ms_entityStore srv \<or>
    (\<exists>k. ms_entityStore (fst (entity_get Lib env r sid srv)) = fst (cache_fetch (ml_lru Lib) (me_now env) (ms_entityStore srv) k))"
proof (cases "hr_QueryKey r = [] \<or> bad_id (hr_QueryKey r)")
  case False
  then have "ms_entityStore (fst (entity_get Lib env r sid srv)) =
      fst (cache_fetch (ml_lru Lib) (me_now env) (ms_entityStore srv) (store_key sid (hr_QueryKey r)))"
    by (simp add: entity_get_def Let_def split: prod.splits option.splits)
  then show ?thesis by blast
qed (auto simp: entity_get_def Let_def)

lemma authorised_store:
  assumes "tokens_only srv srv1" and "srv2 = srv1\<lparr>ms_entityStore := c\<rparr>" and "can PermWrite \<or> can PermRead \<and> (\<exists>k. c = fst (cache_fetch L now (ms_entityStore srv1) k)) \<or> c = ms_entityStore srv1"
    and "\<And>x y z. body \<noteq> KeysJson x \<and> body \<noteq> WorkersJson y \<and> body \<noteq> CreatedJson z"
  shows "authorised L now can srv w (srv2, w, code, body)"
  using assms(2-4) by (auto simp: authorised_def tokens_only_fields [OF assms(1)])

lemma authorised_error:
  "tokens_only srv srv1 \<Longrightarrow> authorised L now can srv w (srv1, w, code, ErrorJson m)"
  "authorised L now can srv w (srv, w, code, ErrorText m)"
  by (simp_all add: authorised_def tokens_only_fields)

lemma authorised_if: "authorised L now can srv w x \<Longrightarrow> authorised L now can srv w y \<Longrightarrow> authorised L now can srv w (if b then x else y)"
  by simp

lemma handleEntity_authorised:
  "authorised (ml_lru Lib) (me_now env) (may (ml_sha256 Lib) (me_now env) srv r) srv w (handleEntity Lib JL env r srv w)"
proof (cases rule: may_cases [of "ml_sha256 Lib" "me_now env" srv r "if hr_Method r = ''GET'' then PermRead else PermWrite"])
  case (granted srv1)
  let ?sid = "entity_schema r"
  define q where "q = (if hr_Method r = ''GET'' then entity_get Lib env r ?sid srv1
      else if hr_Method r = ''PUT'' then entity_put Lib JL env r ?sid srv1 else entity_delete Lib r ?sid srv1)"
  obtain srv2 code body where q: "q = (srv2, code, body)" by (cases q) auto
  have "srv2 = srv1\<lparr>ms_entityStore := ms_entityStore srv2\<rparr>"
    using q entity_ops_frame(1) [of Lib env r ?sid srv1] entity_ops_frame(2) [of Lib JL env r ?sid srv1] entity_ops_frame(3) [of Lib r ?sid srv1]
    unfolding q_def by (auto split: if_splits)
  moreover have "body \<noteq> KeysJson x \<and> body \<noteq> WorkersJson y \<and> body \<noteq> CreatedJson z" for x y z
    using q entity_ops_body(1) [of Lib env r ?sid srv1 x y z] entity_ops_body(2) [of Lib JL env r ?sid srv1 x y z]
      entity_ops_body(3) [of Lib r ?sid srv1 x y z]
    unfolding q_def by (auto split: if_splits)
  moreover have "hr_Method r = ''GET'' \<Longrightarrow> ms_entityStore srv2 = ms_entityStore srv1 \<or>
      (\<exists>k. ms_entityStore srv2 = fst (cache_fetch (ml_lru Lib) (me_now env) (ms_entityStore srv1) k))"
    using q entity_get_store [of Lib env r ?sid srv1] unfolding q_def by simp
  ultimately have "authorised (ml_lru Lib) (me_now env) (may (ml_sha256 Lib) (me_now env) srv r) srv w (srv2, w, code, body)"
    using granted(1) by (intro authorised_store [OF granted(3)]) (auto split: if_splits)
  with granted q [unfolded q_def] show ?thesis
    by (auto simp: handleEntity_def Let_def authorised_error split: if_splits)
next
  case refused
  then show ?thesis by (simp add: handleEntity_def authorised_error)
qed

lemma handleSchema_authorised:
  "authorised (ml_lru Lib) (me_now env) (may (ml_sha256 Lib) (me_now env) srv r) srv w (handleSchema Lib JL env r srv w)"
proof (cases rule: may_cases [of "ml_sha256 Lib" "me_now env" srv r PermWrite])
  case granted
  then show ?thesis
    by (auto simp: handleSchema_def authorised_def tokens_only_fields Let_def
        split: option.splits sum.splits prod.splits schema_error.splits)
next
  case refused
  then show ?thesis
    by (auto simp: handleSchema_def authorised_def tokens_only_fields Let_def split: option.splits sum.splits)
qed

lemma login_identity_refusal: "login_identity sha256 now req srv = Inl resp \<Longrightarrow> \<exists>code m. resp = (code, ErrorJson m)"
  by (auto simp: login_identity_def split: if_splits sum.splits)

lemma open_handlers_authorised:
  "authorised L now can srv w (handleHealth srv w)"
  "authorised L now can srv w (handleAdminSchemas env r srv w)"
  "authorised L now can srv w (handleMe Lib env r srv w)"
  "authorised L now can srv w (srv, w, code, StaticFile p)"
  "authorised L now can srv w (srv, w, code, RedirectTo p)"
  by (simp_all add: handleHealth_def handleAdminSchemas_def handleMe_def authorised_def Let_def
      split: option.splits sum.splits prod.splits)

lemma handleLogin_authorised: "authorised L now can srv w (handleLogin Lib JL env r srv w)"
  by (auto simp: handleLogin_def authorised_def split: option.splits sum.splits prod.splits dest!: login_identity_refusal)

lemma serve_mux_authorised:
  "authorised (ml_lru Lib) (me_now env) (may (ml_sha256 Lib) (me_now env) srv r) srv w (serve_mux Lib JL ftime env r srv w)"
  unfolding serve_mux_def Let_def
  by (intro authorised_if handleAdminWorkers_authorised handleSchemas_authorised handleAPIKeyByID_authorised
      handleAPIKeys_authorised handleEntity_authorised handleSchema_authorised handleLogin_authorised open_handlers_authorised)

text \<open>Reading does not change what can be read from then on.\<close>

lemma fetch_keeps_readable:
  assumes "lru_spec L items cap ok" and "cache_inv items cap ok c" and "now \<le> later"
  shows "snd (cache_fetch L later (fst (cache_fetch L now c k)) k') = snd (cache_fetch L later c k')"
proof -
  note inv = lru_spec.Get_inv [OF assms(1,2), of now k, folded lru_spec.cache_fetch_Get [OF assms(1)]]
  note val = lru_spec.fetch_value [OF assms(1)]
  show ?thesis
    using assms(3) unfolding val [OF inv] val [OF assms(2)] lru_spec.fetch_effect [OF assms(1,2)]
    by (auto simp: val [OF assms(2)] expired_at_def split: option.splits if_splits)
qed

lemma instrument_authorised: "authorised L now can srv w x \<Longrightarrow> authorised L now can srv w (instrumentHTTP r x)"
  by (cases x) (simp add: authorised_def instrumentHTTP_def Let_def)

section \<open>Sessions\<close>

lemma session_accepted:
  assumes "tm_clientTokens (ms_tokenManager srv) t = Some ct" and "t \<noteq> []" and "later \<le> ct_ExpiresAt ct"
    and "\<not> is_admin_key sha256 srv t" and "ValidateKey sha256 later (ms_keyManager srv) t = Inl e"
    and "hr_Authorization r = ''Bearer '' @ t"
  shows "snd (extractBearerToken sha256 later r srv) = Inr (t, session_permissions ct)"
proof -
  have h: "HasPrefix (hr_Authorization r) ''Bearer ''" "TrimPrefix (hr_Authorization r) ''Bearer '' = t"
    unfolding assms(6) by (simp_all only: HasPrefix_append TrimPrefix_append)
  have "ValidateClientToken later (ms_tokenManager srv) t = (ms_tokenManager srv, Inr ct)"
    using assms(1-3) by (simp add: ValidateClientToken_def)
  with h assms(2,4,5) show ?thesis by (simp add: extractBearerToken_def Let_def)
qed

text \<open>What a successful login leaves behind.\<close>

lemma handleLogin_ok:
  assumes "handleLogin Lib JL env r srv w = (srv', w', 200, LoginJson lp)"
  obtains req roles ct where "jn_login JL (hr_Body r) True = Some req"
    "login_identity (ml_sha256 Lib) (me_now env) req srv = Inr (lp_ClientID lp, roles, lp_Permissions lp)"
    "srv' = srv\<lparr>ms_tokenManager := (ms_tokenManager srv)\<lparr>tm_clientTokens := (tm_clientTokens (ms_tokenManager srv))(lp_Token lp \<mapsto> ct)\<rparr>\<rparr>"
    "ct_Roles ct = roles" "ct_ExpiresAt ct = lp_ExpiresAt lp" "w' = w"
proof -
  from assms have post: "hr_Method r = ''POST''" by (cases "hr_Method r = ''POST''") (simp_all add: handleLogin_def)
  from assms post obtain req where req: "jn_login JL (hr_Body r) True = Some req"
    by (cases "jn_login JL (hr_Body r) True") (simp_all add: handleLogin_def)
  have "\<not> isl (login_identity (ml_sha256 Lib) (me_now env) req srv)"
    using assms post req login_identity_refusal [of "ml_sha256 Lib" "me_now env" req srv]
    by (cases "login_identity (ml_sha256 Lib) (me_now env) req srv") (auto simp: handleLogin_def)
  then obtain c roles perms where idt: "login_identity (ml_sha256 Lib) (me_now env) req srv = Inr (c, roles, perms)"
    by (cases "login_identity (ml_sha256 Lib) (me_now env) req srv") auto
  obtain tm x where gen: "GenerateClientToken (me_now env) (me_random env 32) (ms_tokenManager srv) c roles = (tm, x)"
    by (cases "GenerateClientToken (me_now env) (me_random env 32) (ms_tokenManager srv) c roles")
  with assms post req idt obtain ct where x: "x = Inr ct" by (cases x) (simp_all add: handleLogin_def)
  have res: "srv' = srv\<lparr>ms_tokenManager := tm\<rparr>" "w' = w"
    "lp = \<lparr>lp_Token = ct_Token ct, lp_ClientID = ct_ClientID ct, lp_ExpiresAt = ct_ExpiresAt ct, lp_Permissions = perms\<rparr>"
    using assms post req idt gen x by (simp_all add: handleLogin_def)
  have tok: "tm = (ms_tokenManager srv)\<lparr>tm_clientTokens := (tm_clientTokens (ms_tokenManager srv))(ct_Token ct \<mapsto> ct)\<rparr>"
    "ct_Roles ct = roles" "ct_ClientID ct = c"
    using gen x by (auto simp: GenerateClientToken_def Let_def split: if_splits option.splits)
  show ?thesis
    by (rule that [of req roles ct]) (simp_all add: req idt res tok)
qed

lemma login_roles:
  assumes "login_identity sha256 now req srv = Inr (c, roles, perms)"
  shows "p \<in> set roles \<or> PermAdmin \<in> set roles \<longleftrightarrow> p \<in> set perms \<or> PermAdmin \<in> set perms" "roles = [] \<longleftrightarrow> perms = []"
  using assms by (auto simp: login_identity_def AllPermissions_def split: if_splits sum.splits)

section \<open>Properties\<close>

text \<open>
  C2. Access control of the REST interface, over every path and method: a request never changes the
  worker credentials, the registry, the master key, the admin key or the configuration and never
  reaches a Processing Worker; stored entities change only for a caller with write (or admin)
  permission, while one with read permission at most refreshes the recency of an entry; schemas
  change only with write permission; API keys, their store, and any listing of keys or workers
  need admin permission.
\<close>

theorem rest_access_control:
  assumes "lru_spec (ml_lru Lib) items cap ok" and "cache_inv items cap ok (ms_entityStore srv)"
    and "serve_rest Lib JL ftime env r srv w = (srv', w', resp)"
  shows "authorised (ml_lru Lib) (me_now env) (may (ml_sha256 Lib) (me_now env) srv r) srv w (srv', w', resp) \<and>
    (\<not> may (ml_sha256 Lib) (me_now env) srv r PermWrite \<longrightarrow>
      (\<forall>k later. me_now env \<le> later \<longrightarrow>
        snd (cache_fetch (ml_lru Lib) later (ms_entityStore srv') k) = snd (cache_fetch (ml_lru Lib) later (ms_entityStore srv) k)))"
proof -
  obtain code body where resp: "resp = (code, body)" by (cases resp)
  have auth: "authorised (ml_lru Lib) (me_now env) (may (ml_sha256 Lib) (me_now env) srv r) srv w (srv', w', resp)"
    using instrument_authorised [OF serve_mux_authorised [of Lib env srv r w JL ftime], of r] assms(3) by (simp add: serve_rest_def)
  then have "ms_entityStore srv' = ms_entityStore srv \<or> may (ml_sha256 Lib) (me_now env) srv r PermWrite \<or>
      (\<exists>k. ms_entityStore srv' = fst (cache_fetch (ml_lru Lib) (me_now env) (ms_entityStore srv) k))"
    by (auto simp: authorised_def resp)
  with auth fetch_keeps_readable [OF assms(1,2)] show ?thesis by auto
qed

lemma sample_reader:
  assumes "hr_Authorization r = ''Bearer s''"
  shows "extractBearerToken (\<lambda>x. x) now r sample_main = (sample_main, Inr (''s'', [PermRead]))"
proof -
  have "HasPrefix ''Bearer s'' ''Bearer ''" "TrimPrefix ''Bearer s'' ''Bearer '' = ''s''" by code_simp+
  with assms show ?thesis
    by (simp add: extractBearerToken_def sample_admin_key sample_hashes sample_validates) (simp add: sample_api_key_def)
qed

theorem rest_access_control_witness:
  "\<not> may (\<lambda>x. x) 5 sample_main (rest_request ''PUT'' ''/entity/chat'' ''s'' [] ''{}'') PermWrite \<and>
   snd (cache_fetch list_lru_ops 5 (ms_entityStore (fst (serve_rest (sample_main_libs unreachable) sample_json (\<lambda>_ _ _. 0) (sample_main_env 5 ''r'')
     (rest_request ''PUT'' ''/entity/chat'' ''s'' [] ''{}'') sample_main (sample_world ())))) ''chat/1'') = None"
proof -
  let ?r = "rest_request ''PUT'' ''/entity/chat'' ''s'' [] ''{}''"
  obtain srv' w' resp where run: "serve_rest (sample_main_libs unreachable) sample_json (\<lambda>_ _ _. 0) (sample_main_env 5 ''r'') ?r sample_main (sample_world ()) = (srv', w', resp)"
    by (metis prod_cases3)
  have "\<not> may (\<lambda>x. x) 5 sample_main ?r PermWrite"
    using sample_reader [of ?r 5] by (simp add: may_def caller_permissions_def)
  moreover have "snd (cache_fetch list_lru_ops 5 sample_store_cache ''chat/1'') = None"
    by (simp add: llru.fetch_value [OF sample_store_cache_inv(1)] sample_store_cache_inv(2))
  ultimately show ?thesis
    using rest_access_control [OF _ _ run, of ll_items ll_cap list_lru_ok] llru.lru_spec_axioms sample_store_cache_inv(1) run by simp
qed

text \<open>
  C28. A session is worth what the login was worth: a login succeeds only with the admin key, with a
  valid API key, or, while no admin key is configured, with a client id; and until it expires its
  token grants exactly the permissions that the login response reports, provided that it reports
  some and that the token is not itself a key.
\<close>

theorem login_session_permissions:
  assumes "handleLogin Lib JL env r srv w = (srv', w', 200, LoginJson lp)"
    and "lp_Permissions lp \<noteq> []" and "lp_Token lp \<noteq> []" and "later \<le> lp_ExpiresAt lp"
    and "\<not> is_admin_key (ml_sha256 Lib) srv (lp_Token lp)"
    and "ValidateKey (ml_sha256 Lib) later (ms_keyManager srv) (lp_Token lp) = Inl e"
    and "hr_Authorization r2 = ''Bearer '' @ lp_Token lp"
  shows "(\<forall>p. may (ml_sha256 Lib) later srv' r2 p \<longleftrightarrow> p \<in> set (lp_Permissions lp) \<or> PermAdmin \<in> set (lp_Permissions lp)) \<and>
    (\<exists>req. jn_login JL (hr_Body r) True = Some req \<and>
      (if lr_Key req \<noteq> []
       then is_admin_key (ml_sha256 Lib) srv (lr_Key req) \<and> lp_Permissions lp = AllPermissions \<or>
         (\<exists>k. ValidateKey (ml_sha256 Lib) (me_now env) (ms_keyManager srv) (lr_Key req) = Inr k \<and> lp_Permissions lp = ak_Permissions k)
       else ms_adminKeyHash srv = [] \<and> lr_ClientID req \<noteq> [] \<and> lp_Permissions lp = [PermRead, PermWrite]))"
proof -
  from assms(1) obtain req roles ct where req: "jn_login JL (hr_Body r) True = Some req"
    and idt: "login_identity (ml_sha256 Lib) (me_now env) req srv = Inr (lp_ClientID lp, roles, lp_Permissions lp)"
    and srv': "srv' = srv\<lparr>ms_tokenManager := (ms_tokenManager srv)\<lparr>tm_clientTokens := (tm_clientTokens (ms_tokenManager srv))(lp_Token lp \<mapsto> ct)\<rparr>\<rparr>"
    and ct: "ct_Roles ct = roles" "ct_ExpiresAt ct = lp_ExpiresAt lp"
    by (rule handleLogin_ok)
  have "snd (extractBearerToken (ml_sha256 Lib) later r2 srv') = Inr (lp_Token lp, session_permissions ct)"
    by (rule session_accepted) (use assms(3-7) in \<open>simp_all add: srv' ct is_admin_key_def\<close>)
  moreover have "session_permissions ct = roles" using login_roles(2) [OF idt] assms(2) ct by (simp add: session_permissions_def)
  ultimately have "may (ml_sha256 Lib) later srv' r2 p \<longleftrightarrow> p \<in> set (lp_Permissions lp) \<or> PermAdmin \<in> set (lp_Permissions lp)" for p
    using login_roles(1) [OF idt, of p] by (auto simp: may_def caller_permissions_def)
  moreover have "if lr_Key req \<noteq> []
       then is_admin_key (ml_sha256 Lib) srv (lr_Key req) \<and> lp_Permissions lp = AllPermissions \<or>
         (\<exists>k. ValidateKey (ml_sha256 Lib) (me_now env) (ms_keyManager srv) (lr_Key req) = Inr k \<and> lp_Permissions lp = ak_Permissions k)
       else ms_adminKeyHash srv = [] \<and> lr_ClientID req \<noteq> [] \<and> lp_Permissions lp = [PermRead, PermWrite]"
    using idt by (auto simp: login_identity_def split: if_splits sum.splits)
  ultimately show ?thesis using req by blast
qed

theorem login_session_permissions_witness:
  "\<exists>srv'. fst (handleLogin (sample_main_libs unreachable) sample_json (sample_main_env 10 ''r'') (rest_request ''POST'' ''/api/login'' [] [] ''s'') sample_main (sample_world ())) = srv' \<and>
     may (\<lambda>x. x) 100 srv' (rest_request ''GET'' ''/entity/chat'' ''cg=='' ''1'' []) PermRead \<and>
     \<not> may (\<lambda>x. x) 100 srv' (rest_request ''PUT'' ''/entity/chat'' ''cg=='' [] ''{}'') PermWrite"
proof -
  let ?lp = "\<lparr>lp_Token = ''cg=='', lp_ClientID = ''reader'', lp_ExpiresAt = 110, lp_Permissions = [PermRead]\<rparr>"
  have h: "hash_secret (\<lambda>x. x) ''cg=='' \<noteq> ''73''" "hashAdminKey (\<lambda>x. x) ''cg=='' \<noteq> ''726f6f74''" by code_simp+
  have grants: "may (\<lambda>x. x) 100 (fst (handleLogin (sample_main_libs unreachable) sample_json (sample_main_env 10 ''r'')
      (rest_request ''POST'' ''/api/login'' [] [] ''s'') sample_main (sample_world ()))) (rest_request m u ''cg=='' key b) p \<longleftrightarrow> p = PermRead" for m u key b p
    using login_session_permissions [OF sample_login [of unreachable "sample_world ()"], of 100 InvalidKey "rest_request m u ''cg=='' key b"] h
    by (simp add: sample_login sample_admin_key sample_validates(2))
  show ?thesis by (simp add: grants)
qed

text \<open>
  C38. A session outlives its key: after a login with an API key, deleting that key makes the key
  invalid, but the session keeps the permissions of the key until it expires.  The answer to the
  deletion does not wait for the key store either: a server started before the store is saved
  accepts the key again.
\<close>

theorem deleted_key_still_grants:
  assumes "handleLogin Lib JL env r srv w = (srv1, w1, 200, LoginJson lp)" and "jn_login JL (hr_Body r) True = Some req"
    and "lr_Key req \<noteq> []" and "\<not> is_admin_key (ml_sha256 Lib) srv (lr_Key req)"
    and "ValidateKey (ml_sha256 Lib) (me_now env) (ms_keyManager srv) (lr_Key req) = Inr k" and "ak_Permissions k \<noteq> []"
    and "key_inv (ms_keyManager srv)" and "hr_Path r2 = ''/api/keys/'' @ ak_ID k"
    and "handleAPIKeyByID Lib env2 r2 srv1 w1 = (srv2, w2, 200, StatusJson)"
    and "lp_Token lp \<noteq> []" and "later \<le> lp_ExpiresAt lp" and "\<not> is_admin_key (ml_sha256 Lib) srv (lp_Token lp)"
    and "km_keys (ms_keyManager srv) (hash_secret (ml_sha256 Lib) (lp_Token lp)) = None"
    and "hr_Authorization r3 = ''Bearer '' @ lp_Token lp"
    and "me_now env2 \<le> lp_ExpiresAt lp"
    and "NewKeyManager (ml_unmarshal Lib) (\<lambda>_. mw_keyStore w) path = Inr (ms_keyManager srv)"
  shows "ValidateKey (ml_sha256 Lib) later (ms_keyManager srv2) (lr_Key req) = Inl InvalidKey \<and>
    snd (extractBearerToken (ml_sha256 Lib) later r3 srv2) = Inr (lp_Token lp, ak_Permissions k) \<and>
    (\<exists>km. NewKeyManager (ml_unmarshal Lib) (\<lambda>_. mw_keyStore w2) path = Inr km \<and>
      ValidateKey (ml_sha256 Lib) (me_now env) km (lr_Key req) = Inr k)"
proof -
  from assms(1) obtain req' roles ct where req: "jn_login JL (hr_Body r) True = Some req'"
    and idt: "login_identity (ml_sha256 Lib) (me_now env) req' srv = Inr (lp_ClientID lp, roles, lp_Permissions lp)"
    and srv1: "srv1 = srv\<lparr>ms_tokenManager := (ms_tokenManager srv)\<lparr>tm_clientTokens := (tm_clientTokens (ms_tokenManager srv))(lp_Token lp \<mapsto> ct)\<rparr>\<rparr>"
    and ct: "ct_Roles ct = roles" "ct_ExpiresAt ct = lp_ExpiresAt lp" and w1: "w1 = w"
    by (rule handleLogin_ok)
  have roles: "roles = ak_Permissions k" using idt assms(2-5) req by (simp add: login_identity_def)
  have live: "tm_clientTokens (ms_tokenManager srv1) (lp_Token lp) = Some ct" by (simp add: srv1)
  have "TrimPrefix (hr_Path r2) ''/api/keys/'' = ak_ID k" unfolding assms(8) by (rule TrimPrefix_append)
  then obtain km where del: "DeleteKey (ms_keyManager srv) (ak_ID k) = Inr km" and km: "ms_keyManager srv2 = km"
    and adm: "ms_adminKeyHash srv2 = ms_adminKeyHash srv" and w2: "w2 = w1"
    and kept: "tm_clientTokens (ms_tokenManager srv2) (lp_Token lp) = Some ct"
    using assms(9,15) live ct requirePermission_frame [of "ml_sha256 Lib" "me_now env2" r2 PermAdmin srv1]
    by (cases rule: may_cases [of "ml_sha256 Lib" "me_now env2" srv1 r2 PermAdmin])
      (auto simp: handleAPIKeyByID_def Let_def tokens_only_fields srv1 split: if_splits sum.splits dest: requirePermission_keeps_session)
  let ?h = "hash_secret (ml_sha256 Lib) (lr_Key req)"
  have kk: "km_keys (ms_keyManager srv) ?h = Some k"
    using assms(3,5) by (auto simp: ValidateKey_def split: if_splits option.splits)
  then have "km_idIndex (ms_keyManager srv) (ak_ID k) = Some ?h" using key_inv_keyD [OF assms(7)] by blast
  with del have km': "km = (ms_keyManager srv)\<lparr>km_keys := (km_keys (ms_keyManager srv))(?h := None), km_idIndex := (km_idIndex (ms_keyManager srv))(ak_ID k := None)\<rparr>"
    by (simp add: DeleteKey_def)
  have "ValidateKey (ml_sha256 Lib) later (ms_keyManager srv2) (lr_Key req) = Inl InvalidKey"
    using assms(3) by (simp add: ValidateKey_def km km')
  moreover have "snd (extractBearerToken (ml_sha256 Lib) later r3 srv2) = Inr (lp_Token lp, session_permissions ct)"
  proof (rule session_accepted)
    show "tm_clientTokens (ms_tokenManager srv2) (lp_Token lp) = Some ct" using kept by simp
    show "ValidateKey (ml_sha256 Lib) later (ms_keyManager srv2) (lp_Token lp) = Inl InvalidKey"
      using assms(10,13) by (simp add: ValidateKey_def km km')
    show "\<not> is_admin_key (ml_sha256 Lib) srv2 (lp_Token lp)" using assms(12) adm by (simp add: is_admin_key_def)
  qed (use assms(10,11,14) ct in simp_all)
  moreover have "session_permissions ct = ak_Permissions k" using ct roles assms(6) by (simp add: session_permissions_def)
  ultimately show ?thesis using assms(5,16) w1 w2 by auto
qed

theorem deleted_key_still_grants_witness:
  "\<exists>srv1 srv2 w2. fst (handleLogin (sample_main_libs unreachable) sample_json (sample_main_env 10 ''r'') (rest_request ''POST'' ''/api/login'' [] [] ''s'') sample_main (sample_world ())) = srv1 \<and>
     handleAPIKeyByID (sample_main_libs unreachable) (sample_main_env 20 ''r'') (rest_request ''DELETE'' ''/api/keys/k1'' ''root'' [] []) srv1 (sample_world ()) = (srv2, w2, 200, StatusJson) \<and>
     ValidateKey (\<lambda>x. x) 100 (ms_keyManager srv2) ''s'' = Inl InvalidKey \<and>
     snd (extractBearerToken (\<lambda>x. x) 100 (rest_request ''GET'' ''/entity/chat'' ''cg=='' ''1'' []) srv2) = Inr (''cg=='', [PermRead])"
proof -
  let ?srv1 = "sample_main\<lparr>ms_tokenManager := (NewTokenManager 100 100)\<lparr>tm_clientTokens := [''cg=='' \<mapsto> sample_session]\<rparr>\<rparr>"
  let ?r2 = "rest_request ''DELETE'' ''/api/keys/k1'' ''root'' [] []"
  have h: "hash_secret (\<lambda>x. x) ''cg=='' \<noteq> ''73''" "hashAdminKey (\<lambda>x. x) ''cg=='' \<noteq> ''726f6f74''" by code_simp+
  have p: "HasPrefix ''Bearer root'' ''Bearer ''" "TrimPrefix ''Bearer root'' ''Bearer '' = ''root''" "TrimPrefix ''/api/keys/k1'' ''/api/keys/'' = ''k1''" by code_simp+
  have "requirePermission (\<lambda>x. x) 20 ?r2 PermAdmin ?srv1 = (?srv1, None)"
    using p by (simp add: requirePermission_def extractBearerToken_def is_admin_key_def sample_hashes AllPermissions_def)
  then obtain srv2 where del: "handleAPIKeyByID (sample_main_libs unreachable) (sample_main_env 20 ''r'') ?r2 ?srv1 (sample_world ()) = (srv2, sample_world (), 200, StatusJson)"
    using p by (simp add: handleAPIKeyByID_def DeleteKey_def sample_keys_def)
  have inv: "key_inv sample_keys" by (simp add: key_inv_def sample_keys_def sample_api_key_def)
  have lookup: "km_keys sample_keys (hash_secret (\<lambda>x. x) ''cg=='') = None" using h by (simp add: sample_keys_def sample_api_key_def sample_hashes)
  note main = deleted_key_still_grants [OF sample_login [of unreachable "sample_world ()"], of "\<lparr>lr_Key = ''s'', lr_ClientID = []\<rparr>" sample_api_key ?r2
      "sample_main_env 20 ''r''" srv2 "sample_world ()" 100 "rest_request ''GET'' ''/entity/chat'' ''cg=='' ''1'' []" "''/keys''"]
  have perms: "ak_Permissions sample_api_key = [PermRead]" "ak_ID sample_api_key = ''k1''" by (simp_all add: sample_api_key_def)
  show ?thesis
    unfolding sample_login using main del inv lookup h perms sample_keys_loaded
    by (simp add: sample_admin_key sample_hashes sample_validates sample_json_def sample_world_def)
qed

end
