(* ===== verification/Main_Properties.thy ===== *)
theory Main_Properties
  imports Main_Access
begin

text \<open>
  What the Main Worker does with entities: a GET over gRPC is answered by the chosen Processing
  Worker or else by the entity store, a PUT stays in the entity store, and the REST interface
  reads back what it stored.
\<close>

section \<open>Routing a GET\<close>

text \<open>The answer of the chosen worker, if it has an address and answers.\<close>

definition worker_answer ::
    "('l, 's, 'p, 'rk, 'w) main_libs \<Rightarrow> main_env \<Rightarrow> ProcessRequest option \<Rightarrow> WorkerRegistry \<Rightarrow> 'w \<Rightarrow> (string \<times> ProcessResponse) option" where
  "worker_answer Lib env req r ws =
     (case choose_worker env r (store_key (GetSchemaId req) (GetEntityKey req)) of
        None \<Rightarrow> None
      | Some worker \<Rightarrow>
          if tag_value (wi_Tags worker) ''grpc_addr'' = [] then None
          else case snd (ml_forward Lib (tag_value (wi_Tags worker) ''grpc_addr'') req ws) of
                 Answered (Inr resp) \<Rightarrow> Some (wi_WorkerID worker, resp)
               | _ \<Rightarrow> None)"

definition store_answer :: "'l lru_ops \<Rightarrow> gotime \<Rightarrow> 'l Cache \<Rightarrow> string \<Rightarrow> rpc_error + ProcessResponse" where
  "store_answer L now c k =
     (case snd (cache_fetch L now c k) of
        None \<Rightarrow> Inl (NotFound, ''entity not found'')
      | Some (data, version) \<Rightarrow> Inr (response ''OK'' data version))"

text \<open>Every counter stays in the range where one more request does not wrap it.\<close>

definition loads_in_range :: "WorkerRegistry \<Rightarrow> bool" where
  "loads_in_range r \<longleftrightarrow> (\<forall>info \<in> ran (wr_workers r). 0 \<le> wi_ActiveRequests info \<and> wi_ActiveRequests info < 2 ^ 63 - 1)"

lemma load_restored:
  assumes "loads_in_range r"
  shows "DecrementLoad (IncrementLoad r i) i = r"
proof (cases "wr_workers r i")
  case (Some info)
  then have "0 \<le> wi_ActiveRequests info \<and> wi_ActiveRequests info < 2 ^ 63 - 1"
    using assms by (auto simp: loads_in_range_def ran_def)
  then have "i64 (wi_ActiveRequests info + 1) = wi_ActiveRequests info + 1" "i64 (wi_ActiveRequests info) = wi_ActiveRequests info"
    by (simp_all add: is_i64_def)
  with Some \<open>0 \<le> wi_ActiveRequests info \<and> _\<close> show ?thesis
    by (simp add: IncrementLoad_def DecrementLoad_def fun_upd_idem)
qed (simp add: IncrementLoad_def DecrementLoad_def)

lemma forward_request_result:
  assumes "loads_in_range r" and "forward_request Lib worker eid req r ws = (r', ws', answer)"
  shows "let addr = tag_value (wi_Tags worker) ''grpc_addr'' in
    answer = (if addr = [] then None else case snd (ml_forward Lib addr req ws) of Answered (Inr resp) \<Rightarrow> Some resp | _ \<Rightarrow> None) \<and>
    ws' = (if addr = [] then ws else fst (ml_forward Lib addr req ws)) \<and>
    r' = (if answer = None then r else UpdateEntityLocation r eid (wi_WorkerID worker))"
  using assms(2) load_restored [OF assms(1)]
  by (auto simp: forward_request_def Let_def split: if_splits prod.splits forwarded.splits sum.splits)

lemma route_result:
  assumes "loads_in_range (ms_registry srv)" and "routeGETToProcWorker Lib env req srv ws = (srv', ws', r)"
  shows "case worker_answer Lib env req (ms_registry srv) ws of
      Some (i, resp) \<Rightarrow> r = Inr resp \<and>
        srv' = srv\<lparr>ms_registry := UpdateEntityLocation (ms_registry srv) (store_key (GetSchemaId req) (GetEntityKey req)) i\<rparr>
    | None \<Rightarrow> r = store_answer (ml_lru Lib) (me_now env) (ms_entityStore srv) (store_key (GetSchemaId req) (GetEntityKey req)) \<and>
        srv' = srv\<lparr>ms_entityStore := fst (cache_fetch (ml_lru Lib) (me_now env) (ms_entityStore srv) (store_key (GetSchemaId req) (GetEntityKey req)))\<rparr>"
proof -
  let ?eid = "store_key (GetSchemaId req) (GetEntityKey req)"
  obtain r1 ws1 answer where fw: "(case choose_worker env (ms_registry srv) ?eid of None \<Rightarrow> (ms_registry srv, ws, None)
      | Some worker \<Rightarrow> forward_request Lib worker ?eid req (ms_registry srv) ws) = (r1, ws1, answer)"
    by (metis prod_cases3)
  have main: "answer = map_option snd (worker_answer Lib env req (ms_registry srv) ws)"
    "r1 = (case worker_answer Lib env req (ms_registry srv) ws of None \<Rightarrow> ms_registry srv | Some (i, _) \<Rightarrow> UpdateEntityLocation (ms_registry srv) ?eid i)"
  proof (atomize (full), cases "choose_worker env (ms_registry srv) ?eid")
    case None
    with fw show "answer = map_option snd (worker_answer Lib env req (ms_registry srv) ws) \<and>
      r1 = (case worker_answer Lib env req (ms_registry srv) ws of None \<Rightarrow> ms_registry srv | Some (i, _) \<Rightarrow> UpdateEntityLocation (ms_registry srv) ?eid i)"
      by (simp add: worker_answer_def)
  next
    case (Some worker)
    with fw have "forward_request Lib worker ?eid req (ms_registry srv) ws = (r1, ws1, answer)" by simp
    from forward_request_result [OF assms(1) this] Some
    show "answer = map_option snd (worker_answer Lib env req (ms_registry srv) ws) \<and>
      r1 = (case worker_answer Lib env req (ms_registry srv) ws of None \<Rightarrow> ms_registry srv | Some (i, _) \<Rightarrow> UpdateEntityLocation (ms_registry srv) ?eid i)"
      by (auto simp: worker_answer_def Let_def split: forwarded.splits sum.splits)
  qed
  show ?thesis
    using assms(2) fw main
    by (auto simp: routeGETToProcWorker_def store_answer_def Let_def split: option.splits prod.splits)
qed

lemma cache_metrics_frame [simp]:
  "ms_registry (main_updateCacheMetrics L srv) = ms_registry srv" "ms_entityStore (main_updateCacheMetrics L srv) = ms_entityStore srv"
  "ms_keyManager (main_updateCacheMetrics L srv) = ms_keyManager srv" "ms_tokenManager (main_updateCacheMetrics L srv) = ms_tokenManager srv"
  "ms_validator (main_updateCacheMetrics L srv) = ms_validator srv"
  by (simp_all add: main_updateCacheMetrics_def Let_def)

lemma count_process_frame [simp]:
  "ms_registry (count_process op l srv) = ms_registry srv" "ms_entityStore (count_process op l srv) = ms_entityStore srv"
  "ms_keyManager (count_process op l srv) = ms_keyManager srv" "ms_tokenManager (count_process op l srv) = ms_tokenManager srv"
  "ms_validator (count_process op l srv) = ms_validator srv"
  by (simp_all add: count_process_def Let_def)

text \<open>The dispatch of \<open>Process\<close> for a caller with a valid worker token.\<close>

lemma main_Process_GET:
  assumes "ValidateWorkerToken (me_now env) (ms_tokenManager srv) (GetToken req) = (tm, Inr t)" and "GetOperation req = ''GET''"
    and "routeGETToProcWorker Lib env req (srv\<lparr>ms_tokenManager := tm\<rparr>) (mw_workers w) = (srv1, ws, r)"
  shows "main_Process Lib env req srv w =
    (main_updateCacheMetrics (ml_lru Lib) (count_process ''GET'' (case r of Inl _ \<Rightarrow> ''error'' | Inr _ \<Rightarrow> ''success'') srv1), w\<lparr>mw_workers := ws\<rparr>, r)"
proof -
  have "GetToken req \<noteq> []" using assms(1) by (auto simp: ValidateWorkerToken_def)
  with assms show ?thesis by (simp add: main_Process_def)
qed

lemma main_Process_PUT:
  assumes "ValidateWorkerToken (me_now env) (ms_tokenManager srv) (GetToken req) = (tm, Inr t)" and "GetOperation req = ''PUT''"
  shows "snd (main_Process Lib env req srv w) = (w, Inr (response ''OK'' [] ''1''))"
    "ms_registry (fst (main_Process Lib env req srv w)) = ms_registry srv"
    "ms_tokenManager (fst (main_Process Lib env req srv w)) = tm"
    "ms_entityStore (fst (main_Process Lib env req srv w)) =
      cache_Set (ml_lru Lib) (me_now env) (ms_entityStore srv) (store_key (GetSchemaId req) (GetEntityKey req)) (GetPayload req) ''1''"
proof -
  have "GetToken req \<noteq> []" using assms(1) by (auto simp: ValidateWorkerToken_def)
  then have run: "main_Process Lib env req srv w =
      (main_updateCacheMetrics (ml_lru Lib) (count_process ''PUT'' ''success'' (srv\<lparr>ms_tokenManager := tm, ms_entityStore :=
        cache_Set (ml_lru Lib) (me_now env) (ms_entityStore srv) (store_key (GetSchemaId req) (GetEntityKey req)) (GetPayload req) ''1''\<rparr>)),
       w, Inr (response ''OK'' [] ''1''))"
    using assms by (simp add: main_Process_def Let_def)
  show "snd (main_Process Lib env req srv w) = (w, Inr (response ''OK'' [] ''1''))"
    "ms_registry (fst (main_Process Lib env req srv w)) = ms_registry srv"
    "ms_tokenManager (fst (main_Process Lib env req srv w)) = tm"
    "ms_entityStore (fst (main_Process Lib env req srv w)) =
      cache_Set (ml_lru Lib) (me_now env) (ms_entityStore srv) (store_key (GetSchemaId req) (GetEntityKey req)) (GetPayload req) ''1''"
    unfolding run by simp_all
qed

section \<open>The REST entity store\<close>

lemma store_all_run:
  "store_all L now sid payload c = cache_run L (map (\<lambda>(k, v). OpSet now (store_key sid k) v ''1'') payload) c"
  unfolding store_all_def cache_run_def by (induction payload arbitrary: c) auto

lemma store_key_inj: "store_key sid k = store_key sid k' \<longleftrightarrow> k = k'"
  by (simp add: store_key_def)

lemma set_run_frame:
  assumes "lru_spec L items cap ok"
  shows "c_defaultTTL (cache_run L (map (\<lambda>(k, v). OpSet now (f k) v x) payload) c) = c_defaultTTL c \<and>
    c_maxSize (cache_run L (map (\<lambda>(k, v). OpSet now (f k) v x) payload) c) = c_maxSize c"
  unfolding cache_run_def
  by (induction payload arbitrary: c) (auto simp: cache_Set_def lru_spec.SetWithTTL_frame [OF assms])

text \<open>Every member of a stored object can be read, if they fit into the cache together.\<close>

lemma store_all_read:
  assumes lru: "lru_spec L items cap ok" and inv: "cache_inv items cap ok c" and "c_defaultTTL c = 0"
    and "distinct (map fst payload)" and "int (length payload) \<le> c_maxSize c" and "(k, v) \<in> set payload"
  shows "snd (cache_fetch L later (store_all L now sid payload c) (store_key sid k)) = Some (v, ''1'')"
proof -
  obtain pre post where split: "payload = pre @ (k, v) # post" using assms(6) by (meson split_list)
  let ?ops = "\<lambda>xs. map (\<lambda>(k, v). OpSet now (store_key sid k) v ''1'') xs"
  let ?c = "cache_run L (?ops pre) c" and ?K = "store_key sid ` fst ` set post"
  have inv': "cache_inv items cap ok ?c" and frame: "c_defaultTTL ?c = c_defaultTTL c" "c_maxSize ?c = c_maxSize c"
    using lru_spec.cache_run_refines [OF lru inv] set_run_frame [OF lru] by blast+
  have "card ?K \<le> length post" using card_image_le [of "set post" "\<lambda>x. store_key sid (fst x)"] card_length [of post] by (simp add: image_image)
  then have K: "int (card ?K) < c_maxSize ?c" using assms(5) by (simp add: split frame)
  have "inj (store_key sid)" by (simp add: inj_def store_key_inj)
  then have "store_key sid k \<notin> ?K" using assms(4) by (simp add: split inj_image_mem_iff)
  moreover have "list_all (within_keys ?K) (?ops post)" by (auto simp: list_all_iff image_iff split: prod.splits) (metis fst_conv)
  ultimately have "snd (cache_fetch L later (cache_run L (?ops post) (cache_Set L now ?c (store_key sid k) v ''1'')) (store_key sid k)) = Some (v, ''1'')"
    using retained_after_run [OF lru inv', of ?K "store_key sid k" "?ops post"] K assms(3) frame by simp
  then show ?thesis by (simp add: store_all_run split cache_run_def)
qed

text \<open>A PUT that was answered with 200 has stored the decoded object.\<close>

lemma handleEntity_put:
  assumes "handleEntity Lib JL env r srv w = (srv', w', 200, StatusJson)" and "hr_Method r = ''PUT''"
  obtains payload where "case_prod (jn_object JL) (limited (cf_MaxRequestBodySize (ms_config srv)) (hr_Body r)) = Some payload"
    "\<not> list_ex (\<lambda>(key, v). bad_id key) payload" "entity_schema r \<noteq> []" "\<not> bad_id (entity_schema r)" "w' = w"
    "ms_entityStore srv' = store_all (ml_lru Lib) (me_now env) (entity_schema r) payload (ms_entityStore srv)"
proof (cases rule: may_cases [of "ml_sha256 Lib" "me_now env" srv r PermWrite])
  case (granted srv1)
  note f = tokens_only_fields [OF granted(3)]
  show thesis
    using assms granted(2) that
    by (auto simp: handleEntity_def entity_put_def Let_def f split: if_splits prod.splits option.splits)
next
  case (refused srv1 code m)
  with assms show thesis by (auto simp: handleEntity_def)
qed

lemma handleEntity_get:
  assumes "hr_Method r = ''GET''" and "may (ml_sha256 Lib) (me_now env) srv r PermRead"
    and "entity_schema r \<noteq> []" "\<not> bad_id (entity_schema r)" and "hr_QueryKey r \<noteq> []" "\<not> bad_id (hr_QueryKey r)"
  shows "snd (handleEntity Lib JL env r srv w) =
    (w, case snd (cache_fetch (ml_lru Lib) (me_now env) (ms_entityStore srv) (store_key (entity_schema r) (hr_QueryKey r))) of
          None \<Rightarrow> (404, ErrorJson ''not_found'') | Some (d, v) \<Rightarrow> (200, DataBytes d))"
proof (cases rule: may_cases [of "ml_sha256 Lib" "me_now env" srv r PermRead])
  case (granted srv1)
  then show ?thesis
    using assms by (simp add: handleEntity_def entity_get_def tokens_only_fields [OF granted(3)] Let_def split: prod.splits option.splits)
next
  case refused
  with assms(2) show ?thesis by simp
qed

section \<open>Properties\<close>

text \<open>
  C26. Where a GET over gRPC is answered: with a valid worker token, the answer is that of the chosen
  Processing Worker (the one that last served the entity, else a least loaded one) if it has an
  address and answers without an error, and the worker is then remembered for the entity;
  otherwise it is that of the entity store, or NotFound.  In either case every load counter is
  as before, and neither the files, the key store nor what can be read from the entity store change.
\<close>

theorem get_routing:
  assumes "lru_spec (ml_lru Lib) items cap ok" and "cache_inv items cap ok (ms_entityStore srv)"
    and "ValidateWorkerToken (me_now env) (ms_tokenManager srv) (GetToken req) = (tm, Inr t)" and "GetOperation req = ''GET''"
    and "loads_in_range (ms_registry srv)" and "main_Process Lib env req srv w = (srv', w', r)"
  shows "let eid = store_key (GetSchemaId req) (GetEntityKey req) in
    (case worker_answer Lib env req (ms_registry srv) (mw_workers w) of
       Some (i, resp) \<Rightarrow> r = Inr resp \<and> ms_registry srv' = UpdateEntityLocation (ms_registry srv) eid i
     | None \<Rightarrow> r = store_answer (ml_lru Lib) (me_now env) (ms_entityStore srv) eid \<and> ms_registry srv' = ms_registry srv) \<and>
    wr_workers (ms_registry srv') = wr_workers (ms_registry srv) \<and> mw_files w' = mw_files w \<and> mw_keyStore w' = mw_keyStore w \<and>
    (\<forall>k later. me_now env \<le> later \<longrightarrow>
      snd (cache_fetch (ml_lru Lib) later (ms_entityStore srv') k) = snd (cache_fetch (ml_lru Lib) later (ms_entityStore srv) k))"
proof -
  obtain srv1 ws r1 where route: "routeGETToProcWorker Lib env req (srv\<lparr>ms_tokenManager := tm\<rparr>) (mw_workers w) = (srv1, ws, r1)"
    by (metis prod_cases3)
  from main_Process_GET [OF assms(3,4) route] assms(6)
  have res: "r = r1" "w' = w\<lparr>mw_workers := ws\<rparr>" "ms_registry srv' = ms_registry srv1" "ms_entityStore srv' = ms_entityStore srv1" by auto
  from route_result [OF _ route] assms(5) res fetch_keeps_readable [OF assms(1,2)]
  show ?thesis
    by (auto simp: Let_def UpdateEntityLocation_def split: option.splits)
qed

text \<open>The sample with a worker that answers every request with an old copy.\<close>

abbreviation old_copy :: ProcessResponse where
  "old_copy \<equiv> response ''OK'' ''old'' ''7''"

abbreviation old_libs :: "(list_lru, unit, unit, unit, unit) main_libs" where
  "old_libs \<equiv> sample_main_libs (\<lambda>addr req ws. (ws, Answered (Inr old_copy)))"

abbreviation worker_env :: main_env where
  "worker_env \<equiv> (sample_main_env 50 ''r'')\<lparr>me_workers := [sample_info]\<rparr>"

abbreviation entity_request :: "string \<Rightarrow> bytes \<Rightarrow> ProcessRequest option" where
  "entity_request op payload \<equiv> Some \<lparr>pr_SchemaId = ''chat'', pr_EntityKey = ''1'', pr_Operation = op, pr_Payload = payload, pr_Token = ''cg==''\<rparr>"

lemma sample_choice:
  assumes "ms_registry srv = NewWorkerRegistry\<lparr>wr_workers := [''w1'' \<mapsto> sample_info]\<rparr>"
  shows "loads_in_range (ms_registry srv)"
    "worker_answer old_libs worker_env (entity_request ''GET'' []) (ms_registry srv) ws = Some (''w1'', old_copy)"
  using assms
  by (simp_all add: loads_in_range_def worker_answer_def choose_worker_def FindWorkerForEntity_def NewWorkerRegistry_def
      FindLeastLoadedWorker_def sample_info_def tag_value_def)

theorem get_routing_witness:
  "\<exists>srv'. main_Process old_libs worker_env (entity_request ''GET'' []) sample_joined (sample_world ()) = (srv', sample_world (), Inr old_copy) \<and>
     wr_entityWorkerMap (ms_registry srv') ''chat/1'' = Some ''w1'' \<and> wr_workers (ms_registry srv') ''w1'' = Some sample_info"
proof -
  obtain srv' w' r where run: "main_Process old_libs worker_env (entity_request ''GET'' []) sample_joined (sample_world ()) = (srv', w', r)"
    by (metis prod_cases3)
  have "mw_workers w' = ()" by simp
  with get_routing [where items = ll_items and cap = ll_cap and ok = list_lru_ok, OF _ _ _ _ sample_choice(1) run]
  show ?thesis
    using run llru.lru_spec_axioms sample_store_cache_inv(1) sample_worker_valid [of sample_joined 50] sample_choice(2) [of sample_joined "()"]
    by (cases w') (auto simp: Let_def store_key_def UpdateEntityLocation_def sample_world_def)
qed

text \<open>
  A PUT over gRPC at the Main Worker is acknowledged with version 1 without any schema check, and
  changes no file and no Processing Worker.  A GET of the entity that a Processing Worker
  answers returns that worker's copy, whatever the PUT stored.
\<close>

theorem main_put_masked:
  assumes "ValidateWorkerToken (me_now env) (ms_tokenManager srv) (GetToken req) = (tm, Inr t)" and "GetOperation req = ''PUT''"
    and "main_Process Lib env req srv w = (srv1, w1, r1)"
    and "ValidateWorkerToken (me_now env2) (ms_tokenManager srv1) (GetToken req2) = (tm2, Inr t2)" and "GetOperation req2 = ''GET''"
    and "loads_in_range (ms_registry srv)"
    and "worker_answer Lib env2 req2 (ms_registry srv) (mw_workers w) = Some (i, resp)"
    and "main_Process Lib env2 req2 srv1 w1 = (srv2, w2, r2)"
  shows "r1 = Inr (response ''OK'' [] ''1'') \<and> w1 = w \<and> r2 = Inr resp"
proof -
  from main_Process_PUT [OF assms(1,2), of Lib w] assms(3)
  have put: "r1 = Inr (response ''OK'' [] ''1'')" "w1 = w" "ms_registry srv1 = ms_registry srv" by simp_all
  obtain srv3 ws r3 where route: "routeGETToProcWorker Lib env2 req2 (srv1\<lparr>ms_tokenManager := tm2\<rparr>) (mw_workers w1) = (srv3, ws, r3)"
    by (metis prod_cases3)
  have "r3 = Inr resp" using route_result [OF _ route] assms(6,7) put by simp
  with main_Process_GET [OF assms(4,5) route] assms(8) put show ?thesis by simp
qed

theorem main_put_masked_witness:
  "\<exists>srv1 srv2. main_Process old_libs worker_env (entity_request ''PUT'' ''new'') sample_joined (sample_world ()) = (srv1, sample_world (), Inr (response ''OK'' [] ''1'')) \<and>
     snd (snd (main_Process old_libs worker_env (entity_request ''GET'' []) srv1 (sample_world ()))) = Inr old_copy"
proof -
  obtain srv1 w1 r1 where put: "main_Process old_libs worker_env (entity_request ''PUT'' ''new'') sample_joined (sample_world ()) = (srv1, w1, r1)"
    by (metis prod_cases3)
  obtain srv2 w2 r2 where get: "main_Process old_libs worker_env (entity_request ''GET'' []) srv1 w1 = (srv2, w2, r2)"
    by (metis prod_cases3)
  have valid: "ValidateWorkerToken (me_now worker_env) (ms_tokenManager sample_joined) (GetToken (entity_request op p)) =
      (ms_tokenManager sample_joined, Inr sample_worker_token)" for op p
    using sample_worker_valid [of sample_joined 50] by simp
  have "ms_tokenManager srv1 = ms_tokenManager sample_joined"
    using main_Process_PUT(3) [OF valid [of "''PUT''" "''new''"], of old_libs "sample_world ()"] put by simp
  then have "ValidateWorkerToken (me_now worker_env) (ms_tokenManager srv1) (GetToken (entity_request ''GET'' [])) =
      (ms_tokenManager sample_joined, Inr sample_worker_token)"
    using valid by simp
  from main_put_masked [OF valid _ put this _ sample_choice(1) sample_choice(2) get]
  show ?thesis using put get by auto
qed

text \<open>
  The REST entity store reads back what it stored: after a PUT of an object with at most as many
  members as the store holds, a GET of any member by a caller with read permission returns its
  value, at any later time and with any of the other members in place.
\<close>

theorem rest_put_get:
  assumes "lru_spec (ml_lru Lib) items cap ok" and "cache_inv items cap ok (ms_entityStore srv)" and "c_defaultTTL (ms_entityStore srv) = 0"
    and "handleEntity Lib JL env r srv w = (srv', w', 200, StatusJson)" and "hr_Method r = ''PUT''"
    and "case_prod (jn_object JL) (limited (cf_MaxRequestBodySize (ms_config srv)) (hr_Body r)) = Some payload"
    and "distinct (map fst payload)" and "int (length payload) \<le> c_maxSize (ms_entityStore srv)"
    and "(k, v) \<in> set payload" and "k \<noteq> []" and "hr_Method r2 = ''GET''" and "hr_Path r2 = hr_Path r" and "hr_QueryKey r2 = k"
    and "may (ml_sha256 Lib) (me_now env2) srv' r2 PermRead"
  shows "snd (handleEntity Lib JL env2 r2 srv' w') = (w, 200, DataBytes v)"
proof -
  from assms(4,5) obtain payload' where p: "case_prod (jn_object JL) (limited (cf_MaxRequestBodySize (ms_config srv)) (hr_Body r)) = Some payload'"
    and ok: "\<not> list_ex (\<lambda>(key, v). bad_id key) payload'" "entity_schema r \<noteq> []" "\<not> bad_id (entity_schema r)" and w: "w' = w"
    and st: "ms_entityStore srv' = store_all (ml_lru Lib) (me_now env) (entity_schema r) payload' (ms_entityStore srv)"
    by (rule handleEntity_put)
  have "payload' = payload" using p assms(6) by simp
  moreover have "\<not> bad_id k" using ok(1) assms(9) calculation by (auto simp: list_ex_iff)
  moreover have "entity_schema r2 = entity_schema r" by (simp add: entity_schema_def assms(12))
  moreover have "snd (cache_fetch (ml_lru Lib) (me_now env2) (store_all (ml_lru Lib) (me_now env) (entity_schema r) payload (ms_entityStore srv))
      (store_key (entity_schema r) k)) = Some (v, ''1'')"
    by (rule store_all_read [OF assms(1,2,3,7,8,9)])
  ultimately show ?thesis
    using handleEntity_get [OF assms(11,14), of JL w'] ok st w assms(10,13) by simp
qed

theorem rest_put_get_witness:
  "\<exists>srv'. handleEntity (sample_main_libs unreachable) sample_json (sample_main_env 5 ''r'') (rest_request ''PUT'' ''/entity/chat'' ''root'' [] ''{}'') sample_main (sample_world ()) =
       (srv', sample_world (), 200, StatusJson) \<and>
     snd (handleEntity (sample_main_libs unreachable) sample_json (sample_main_env 9 ''r'') (rest_request ''GET'' ''/entity/chat'' ''s'' ''1'' []) srv' (sample_world ())) =
       (sample_world (), 200, DataBytes ''{}'')"
proof -
  let ?r = "rest_request ''PUT'' ''/entity/chat'' ''root'' [] ''{}''" and ?r2 = "rest_request ''GET'' ''/entity/chat'' ''s'' ''1'' []"
  have pre: "HasPrefix ''Bearer root'' ''Bearer ''" "TrimPrefix ''Bearer root'' ''Bearer '' = ''root''" by code_simp+
  have sch: "TrimPrefix ''/entity/chat'' ''/entity/'' = ''chat''" "\<not> bad_id ''chat''" "\<not> bad_id ''1''" by code_simp+
  have lim: "limited 1048576 ''{}'' = (''{}'', True)" by (simp add: limited_def)
  have "requirePermission (\<lambda>x. x) 5 ?r PermWrite sample_main = (sample_main, None)"
    using pre by (simp add: requirePermission_def extractBearerToken_def sample_admin_key sample_hashes AllPermissions_def)
  then obtain c where put: "handleEntity (sample_main_libs unreachable) sample_json (sample_main_env 5 ''r'') ?r sample_main (sample_world ()) =
      (sample_main\<lparr>ms_entityStore := c\<rparr>, sample_world (), 200, StatusJson)"
    using sch lim by (auto simp: handleEntity_def entity_put_def entity_schema_def sample_json_def Let_def)
  have "HasPrefix ''Bearer s'' ''Bearer ''" "TrimPrefix ''Bearer s'' ''Bearer '' = ''s''" by code_simp+
  then have "extractBearerToken (\<lambda>x. x) 9 ?r2 (sample_main\<lparr>ms_entityStore := c\<rparr>) = (sample_main\<lparr>ms_entityStore := c\<rparr>, Inr (''s'', [PermRead]))"
    by (simp add: extractBearerToken_def is_admin_key_def sample_hashes sample_validates) (simp add: sample_api_key_def)
  then have "may (\<lambda>x. x) 9 (sample_main\<lparr>ms_entityStore := c\<rparr>) ?r2 PermRead" by (simp add: may_def caller_permissions_def)
  moreover have "c_defaultTTL sample_store_cache = 0" "1 \<le> c_maxSize sample_store_cache"
    by (simp_all add: sample_store_cache_def NewCache_def list_lru_ops_def)
  ultimately show ?thesis
    using rest_put_get [where items = ll_items and cap = ll_cap and ok = list_lru_ok and k = "''1''" and v = "''{}''" and payload = "[(''1'', ''{}'')]", OF _ _ _ put, of ?r2 "sample_main_env 9 ''r''"]
      llru.lru_spec_axioms sample_store_cache_inv(1) lim put by (simp add: sample_json_def)
qed

section \<open>The lifetime of a key\<close>

lemma i64_days:
  assumes "n < 2 ^ 63"
  shows "n \<le> 106751 \<Longrightarrow> i64 (int n * 24 * hour) = int n * 24 * hour"
    "106752 \<le> n \<Longrightarrow> n \<le> 213503 \<Longrightarrow> i64 (int n * 24 * hour) < 0" "i64 (int 213504 * 24 * hour) = 1526290448384"
proof -
  show "i64 (int 213504 * 24 * hour) = 1526290448384" by (simp add: i64_def)
  show "i64 (int n * 24 * hour) = int n * 24 * hour" if "n \<le> 106751"
    using that by (simp add: is_i64_def)
  show "i64 (int n * 24 * hour) < 0" if "106752 \<le> n" "n \<le> 213503"
  proof -
    have "(int n * 24 * hour + 2 ^ 63) mod 2 ^ 64 = (int n * 24 * hour + 2 ^ 63 - 2 ^ 64) mod 2 ^ 64"
      by (simp only: minus_mod_self2)
    also have "\<dots> = int n * 24 * hour + 2 ^ 63 - 2 ^ 64" using that by (intro mod_pos_pos_trivial) simp_all
    finally have "(int n * 24 * hour + 2 ^ 63) mod 2 ^ 64 = int n * 24 * hour + 2 ^ 63 - 2 ^ 64" .
    then show ?thesis using that by (simp add: i64_def)
  qed
qed

lemma created_lookup:
  assumes "CreateKey sha256 now (Some raw) (Some ib) km name perms expiry = (km', Inr (secret, key))"
  shows "km_keys km' (hash_secret sha256 secret) = Some key \<and> ak_Enabled key \<and> secret \<noteq> []"
  using assms by (auto simp: CreateKey_def Let_def split: if_splits)

lemma create_api_key_ok:
  assumes "create_api_key Lib JL ftime env r srv w = (srv', w', 201, CreatedJson kp)"
    and "case_prod (jn_createKey JL) (limited 65536 (hr_Body r)) = Some req" and "kr_ExpiresIn req \<noteq> []"
  obtains raw ib d key where "me_random env 32 = Some raw" "key_lifetime ftime (kr_ExpiresIn req) = Some d"
    "CreateKey (ml_sha256 Lib) (me_now env) (Some raw) (Some ib) (ms_keyManager srv) (kr_Name req) (kr_Permissions req) (Some (me_now env + d)) =
      (ms_keyManager srv', Inr (kp_Secret kp, key))" "ak_ExpiresAt key = Some (me_now env + d)" "kp_ExpiresAt kp = ak_ExpiresAt key"
  using assms
  by (auto simp: create_api_key_def CreateKey_def Let_def split: if_splits prod.splits option.splits sum.splits)

text \<open>
  C34. The lifetime of a key asked for with n days, in the notation "nd": the key validates exactly up to the creation plus the
  product of n and a day, wrapped around to 64 bits.  So it expires exactly n days after its creation for every n up to 106751; from 106752 to 213503
  days the product is negative and the key that the answer announces as created is expired from the start; and 213504 days
  give a key of less than 26 minutes.
\<close>

theorem key_lifetime_bounds:
  assumes "create_api_key Lib JL ftime env r srv w = (srv', w', 201, CreatedJson kp)"
    and "case_prod (jn_createKey JL) (limited 65536 (hr_Body r)) = Some req" and "kr_ExpiresIn req = dec_of_nat n @ ''d''" and "n < 2 ^ 63"
  shows "kp_ExpiresAt kp = Some (me_now env + i64 (int n * 24 * hour)) \<and>
    (\<forall>later. (\<exists>k. ValidateKey (ml_sha256 Lib) later (ms_keyManager srv') (kp_Secret kp) = Inr k) \<longleftrightarrow> later \<le> me_now env + i64 (int n * 24 * hour)) \<and>
    (n \<le> 106751 \<longrightarrow> kp_ExpiresAt kp = Some (me_now env + int n * 24 * hour)) \<and>
    (106752 \<le> n \<and> n \<le> 213503 \<longrightarrow>
      (\<forall>later. me_now env \<le> later \<longrightarrow> ValidateKey (ml_sha256 Lib) later (ms_keyManager srv') (kp_Secret kp) = Inl KeyExpired)) \<and>
    (n = 213504 \<longrightarrow> kp_ExpiresAt kp = Some (me_now env + 1526290448384))"
proof -
  have "kr_ExpiresIn req \<noteq> []" by (simp add: assms(3))
  then obtain raw ib d key where d: "key_lifetime ftime (kr_ExpiresIn req) = Some d"
    and mk: "CreateKey (ml_sha256 Lib) (me_now env) (Some raw) (Some ib) (ms_keyManager srv) (kr_Name req) (kr_Permissions req) (Some (me_now env + d)) =
      (ms_keyManager srv', Inr (kp_Secret kp, key))" and ex: "ak_ExpiresAt key = Some (me_now env + d)" "kp_ExpiresAt kp = ak_ExpiresAt key"
    by (rule create_api_key_ok [OF assms(1,2)])
  have dn: "d = i64 (int n * 24 * hour)" using d key_lifetime_days [OF assms(4), of ftime] assms(3) by simp
  have val: "ValidateKey (ml_sha256 Lib) later (ms_keyManager srv') (kp_Secret kp) = (if me_now env + d < later then Inl KeyExpired else Inr key)" for later
    using created_lookup [OF mk] ex by (simp add: ValidateKey_def key_IsExpired_def)
  note days = i64_days [OF assms(4)]
  have "ValidateKey (ml_sha256 Lib) later (ms_keyManager srv') (kp_Secret kp) = Inl KeyExpired"
    if "106752 \<le> n \<and> n \<le> 213503" "me_now env \<le> later" for later
    using days(2) that by (simp add: val dn)
  moreover have "(\<exists>k. ValidateKey (ml_sha256 Lib) later (ms_keyManager srv') (kp_Secret kp) = Inr k) \<longleftrightarrow> later \<le> me_now env + i64 (int n * 24 * hour)" for later
    by (simp add: val dn)
  moreover have "kp_ExpiresAt kp = Some (me_now env + i64 (int n * 24 * hour))" using ex by (simp add: dn)
  ultimately show ?thesis using days(1,3) by auto
qed

theorem key_lifetime_bounds_witness:
  "\<exists>srv' w' kp. create_api_key (sample_main_libs unreachable) (sample_json\<lparr>jn_createKey := (\<lambda>_ _. Some \<lparr>kr_Name = ''n'', kr_Permissions = [PermRead],
       kr_ExpiresIn = ''106752d''\<rparr>)\<rparr>) (\<lambda>_ _ _. 0) (sample_main_env 5 ''r'') (rest_request ''POST'' ''/api/keys'' ''root'' [] ''{}'') sample_main (sample_world ()) =
       (srv', w', 201, CreatedJson kp) \<and>
     ValidateKey (\<lambda>x. x) 5 (ms_keyManager srv') (kp_Secret kp) = Inl KeyExpired"
proof -
  have n: "dec_of_nat 106752 @ ''d'' = ''106752d''" by (simp add: dec_of_nat.simps dec_digit_def char_of_def bit_0)
  let ?JL = "sample_json\<lparr>jn_createKey := (\<lambda>_ _. Some \<lparr>kr_Name = ''n'', kr_Permissions = [PermRead], kr_ExpiresIn = dec_of_nat 106752 @ ''d''\<rparr>)\<rparr>"
  have "key_lifetime (\<lambda>_ _ _. 0) (dec_of_nat 106752 @ ''d'') = Some (i64 (int 106752 * 24 * hour))" by (rule key_lifetime_days) simp
  then obtain srv' w' kp where run: "create_api_key (sample_main_libs unreachable) ?JL (\<lambda>_ _ _. 0) (sample_main_env 5 ''r'')
      (rest_request ''POST'' ''/api/keys'' ''root'' [] ''{}'') sample_main (sample_world ()) = (srv', w', 201, CreatedJson kp)"
    by (simp add: create_api_key_def CreateKey_def Let_def split: prod.splits)
  from key_lifetime_bounds [OF run, of _ 106752]
  have "ValidateKey (\<lambda>x. x) 5 (ms_keyManager srv') (kp_Secret kp) = Inl KeyExpired" by (simp split: prod.splits)
  with run show ?thesis unfolding n by blast
qed

end
