(* ===== verification/Proc_Handshake.thy ===== *)
theory Proc_Handshake
  imports Proc_Worker
begin

text \<open>
  The life of a Processing Worker before it serves: cmd/proc-worker/worker.go.  The connection to
  the Main Worker is an argument: it takes the address, the Subscribe request and the state \<open>'m\<close> of
  whatever answers.  The retry loop may run for ever, so it is a partial function whose result is
  None in that case; it also records the intervals it waited.
\<close>

datatype proc_error =
    ProcConfigNil
  | WorkerIDEmpty
  | MainAddrEmpty
  | KeyPairGenerationFailed crypto_error

definition NewProcWorker ::
    "('p, 'rk) rsa_lib \<Rightarrow> bytes \<Rightarrow> ProcConfig option \<Rightarrow> proc_error + 'rk ProcWorker" where
  "NewProcWorker R random config =
     (case config of
        None \<Rightarrow> Inl ProcConfigNil
      | Some c \<Rightarrow>
          if pc_WorkerID c = [] then Inl WorkerIDEmpty
          else if pc_MainAddr c = [] then Inl MainAddrEmpty
          else
            let c' = (if pc_MaxRecvMsgSize c \<le> 0 then c\<lparr>pc_MaxRecvMsgSize := 4 * 1024 * 1024\<rparr> else c) in
            case GenerateRSAKeyPair R random 2048 of
              Inl e \<Rightarrow> Inl (KeyPairGenerationFailed e)
            | Inr (privKey, pubKey) \<Rightarrow>
                Inr \<lparr>pw_config = c', pw_privateKey = Some privKey, pw_encryptionKey = [], pw_sessionToken = [], pw_keyID = []\<rparr>)"

text \<open>The answer to a Subscribe call; \<open>NoConnection\<close> is a client that cannot be made.\<close>

datatype subscribed = NoConnection | SubscribeAnswer "rpc_error + SubscribeResponse"

datatype handshake_error =
    ConnectFailed
  | PublicKeyMarshalFailed crypto_error
  | SubscribeFailed rpc_error
  | UnwrapFailed crypto_error
  | PrivateKeyNil

definition Handshake ::
    "('p, 'rk) rsa_lib \<Rightarrow> (string \<Rightarrow> SubscribeRequest option \<Rightarrow> 'm \<Rightarrow> 'm \<times> subscribed) \<Rightarrow> 'rk ProcWorker \<Rightarrow> 'm
      \<Rightarrow> 'rk ProcWorker \<times> 'm \<times> handshake_error option" where
  "Handshake R subscribe w m =
     (case pw_privateKey w of
        None \<Rightarrow> (w, m, Some PrivateKeyNil)
      | Some sk \<Rightarrow>
          (case MarshalPublicKeyToPEM R (Some (rs_public R sk)) of
             Inl e \<Rightarrow> (w, m, Some (PublicKeyMarshalFailed e))
           | Inr pubKeyPEM \<Rightarrow>
               (case subscribe (pc_MainAddr (pw_config w))
                       (Some \<lparr>sr_WorkerId = pc_WorkerID (pw_config w), sr_Pubkey = pubKeyPEM, sr_Tags = pc_Tags (pw_config w)\<rparr>) m of
                  (m', NoConnection) \<Rightarrow> (w, m', Some ConnectFailed)
                | (m', SubscribeAnswer (Inl e)) \<Rightarrow> (w, m', Some (SubscribeFailed e))
                | (m', SubscribeAnswer (Inr resp)) \<Rightarrow>
                    (case UnwrapKey R (pw_privateKey w) (sp_WrappedKey resp) of
                       Inl e \<Rightarrow> (w, m', Some (UnwrapFailed e))
                     | Inr decryptedKey \<Rightarrow>
                         (w\<lparr>pw_encryptionKey := decryptedKey, pw_sessionToken := sp_Token resp, pw_keyID := sp_KeyId resp\<rparr>, m', None)))))"

definition proc_Token :: "'rk ProcWorker \<Rightarrow> string" where
  "proc_Token w = pw_sessionToken w"

definition proc_KeyID :: "'rk ProcWorker \<Rightarrow> string" where
  "proc_KeyID w = pw_keyID w"

definition HasKey :: "'rk ProcWorker \<Rightarrow> bool" where
  "HasKey w \<longleftrightarrow> 0 < length (pw_encryptionKey w)"

section \<open>Retries\<close>

definition maxInterval :: duration where
  "maxInterval = 30 * second"

definition next_interval :: "duration \<Rightarrow> duration" where
  "next_interval interval = (let i = i64 (interval * 2) in if maxInterval < i then maxInterval else i)"

datatype retry_result = Subscribed | Cancelled

text \<open>
  The loop from attempt \<open>n\<close> on: \<open>attempt n\<close> is the n-th call of Handshake, \<open>cancelled n\<close> says whether the
  context ends while the loop waits after it.
\<close>

partial_function (option) retry_loop ::
    "(nat \<Rightarrow> 'a \<Rightarrow> 'a \<times> handshake_error option) \<Rightarrow> (nat \<Rightarrow> bool) \<Rightarrow> nat \<Rightarrow> duration \<Rightarrow> duration list \<Rightarrow> 'a
      \<Rightarrow> ('a \<times> retry_result \<times> duration list) option" where
  "retry_loop attempt cancelled n interval waited s =
     (case attempt n s of
        (s', None) \<Rightarrow> Some (s', Subscribed, waited)
      | (s', Some e) \<Rightarrow>
          if cancelled n then Some (s', Cancelled, waited)
          else retry_loop attempt cancelled (Suc n) (next_interval interval) (waited @ [interval]) s')"

text \<open>The call of Handshake in attempt \<open>n\<close>, in which the network behaves as \<open>net n\<close>.\<close>

definition handshake_attempt ::
    "('p, 'rk) rsa_lib \<Rightarrow> (nat \<Rightarrow> string \<Rightarrow> SubscribeRequest option \<Rightarrow> 'm \<Rightarrow> 'm \<times> subscribed) \<Rightarrow> nat \<Rightarrow> 'rk ProcWorker \<times> 'm
      \<Rightarrow> ('rk ProcWorker \<times> 'm) \<times> handshake_error option" where
  "handshake_attempt R net n = (\<lambda>(w, m). case Handshake R (net n) w m of (w', m', e) \<Rightarrow> ((w', m'), e))"

definition HandshakeWithRetry ::
    "('p, 'rk) rsa_lib \<Rightarrow> (nat \<Rightarrow> string \<Rightarrow> SubscribeRequest option \<Rightarrow> 'm \<Rightarrow> 'm \<times> subscribed) \<Rightarrow> (nat \<Rightarrow> bool) \<Rightarrow> 'rk ProcWorker \<times> 'm
      \<Rightarrow> (('rk ProcWorker \<times> 'm) \<times> retry_result \<times> duration list) option" where
  "HandshakeWithRetry R net cancelled s =
     retry_loop (handshake_attempt R net) cancelled 0 second [] s"

section \<open>The loop ends\<close>

text \<open>The n-th interval doubles from one second up to thirty.\<close>

definition backoff :: "nat \<Rightarrow> duration" where
  "backoff n = (if n < 5 then 2 ^ n * second else maxInterval)"

lemma next_interval_backoff: "next_interval (backoff n) = backoff (Suc n)"
proof -
  consider "n = 0" | "n = 1" | "n = 2" | "n = 3" | "n = 4" | "4 < n" by linarith
  then show ?thesis
    by cases (simp_all add: next_interval_def backoff_def maxInterval_def Let_def i64_def)
qed

lemma backoff_bounds: "second \<le> backoff n \<and> backoff n \<le> maxInterval"
proof -
  consider "n = 0" | "n = 1" | "n = 2" | "n = 3" | "n = 4" | "4 < n" by linarith
  then show ?thesis by cases (simp_all add: backoff_def maxInterval_def)
qed

text \<open>The state after \<open>n\<close> failed attempts.\<close>

fun after_attempts :: "(nat \<Rightarrow> 'a \<Rightarrow> 'a \<times> 'e option) \<Rightarrow> nat \<Rightarrow> 'a \<Rightarrow> 'a" where
  "after_attempts attempt 0 s = s"
| "after_attempts attempt (Suc n) s = fst (attempt n (after_attempts attempt n s))"

lemma retry_loop_step:
  assumes "snd (attempt n s) \<noteq> None" and "\<not> cancelled n"
  shows "retry_loop attempt cancelled n interval waited s =
    retry_loop attempt cancelled (Suc n) (next_interval interval) (waited @ [interval]) (fst (attempt n s))"
  using assms by (subst retry_loop.simps) (auto split: prod.splits option.splits)

lemma retry_loop_reaches:
  assumes "\<forall>i < n. snd (attempt i (after_attempts attempt i s)) \<noteq> None \<and> \<not> cancelled i"
  shows "retry_loop attempt cancelled 0 second [] s =
    retry_loop attempt cancelled n (backoff n) (map backoff [0..<n]) (after_attempts attempt n s)"
  using assms
proof (induction n)
  case 0
  then show ?case by (simp add: backoff_def)
next
  case (Suc n)
  then have "retry_loop attempt cancelled 0 second [] s =
      retry_loop attempt cancelled n (backoff n) (map backoff [0..<n]) (after_attempts attempt n s)" by simp
  also have "\<dots> = retry_loop attempt cancelled (Suc n) (backoff (Suc n)) (map backoff [0..<n] @ [backoff n]) (after_attempts attempt (Suc n) s)"
    using Suc.prems by (subst retry_loop_step) (simp_all add: next_interval_backoff)
  finally show ?case by simp
qed

lemma retry_loop_ends:
  assumes "\<forall>i < n. snd (attempt i (after_attempts attempt i s)) \<noteq> None \<and> \<not> cancelled i"
  shows "snd (attempt n (after_attempts attempt n s)) = None \<Longrightarrow>
      retry_loop attempt cancelled 0 second [] s = Some (after_attempts attempt (Suc n) s, Subscribed, map backoff [0..<n])"
    "snd (attempt n (after_attempts attempt n s)) \<noteq> None \<Longrightarrow> cancelled n \<Longrightarrow>
      retry_loop attempt cancelled 0 second [] s = Some (after_attempts attempt (Suc n) s, Cancelled, map backoff [0..<n])"
  unfolding retry_loop_reaches [where attempt = attempt and cancelled = cancelled and s = s, OF assms]
  by (subst retry_loop.simps; auto split: prod.splits option.splits)+

lemma after_attempts_shift:
  "after_attempts attempt (Suc n) s = after_attempts (\<lambda>i. attempt (Suc i)) n (fst (attempt 0 s))"
  by (induction n) simp_all

text \<open>Conversely, a loop that returns has met its first success or its cancellation.\<close>

definition stops_after :: "(nat \<Rightarrow> 'a \<Rightarrow> 'a \<times> 'e option) \<Rightarrow> (nat \<Rightarrow> bool) \<Rightarrow> nat \<Rightarrow> 'a \<Rightarrow> bool" where
  "stops_after attempt cancelled k s \<longleftrightarrow>
     (\<forall>i < k. snd (attempt i (after_attempts attempt i s)) \<noteq> None \<and> \<not> cancelled i) \<and>
     (snd (attempt k (after_attempts attempt k s)) = None \<or> cancelled k)"

lemma stops_after_Suc:
  assumes "snd (attempt 0 s) \<noteq> None" and "\<not> cancelled 0"
    and "stops_after (\<lambda>i. attempt (Suc i)) (\<lambda>i. cancelled (Suc i)) k (fst (attempt 0 s))"
  shows "stops_after attempt cancelled (Suc k) s"
  using assms unfolding stops_after_def after_attempts_shift [of attempt, symmetric]
  by (auto simp: less_Suc_eq_0_disj simp del: after_attempts.simps(2))

lemma retry_loop_stops:
  assumes "retry_loop attempt cancelled n interval waited s = Some y"
  shows "\<exists>k. stops_after (\<lambda>i. attempt (i + n)) (\<lambda>i. cancelled (i + n)) k s"
proof (rule retry_loop.raw_induct [where P = "\<lambda>attempt cancelled n interval waited s y.
      \<exists>k. stops_after (\<lambda>i. attempt (i + n)) (\<lambda>i. cancelled (i + n)) k s", OF _ assms])
  fix loop and attempt :: "nat \<Rightarrow> 'a \<Rightarrow> 'a \<times> handshake_error option" and cancelled n interval waited s y
  assume IH: "\<And>try c n i ws s y. loop try c n i ws s = Some y \<Longrightarrow> \<exists>k. stops_after (\<lambda>i. try (i + n)) (\<lambda>i. c (i + n)) k s"
    and res: "(case attempt n s of (s', None) \<Rightarrow> Some (s', Subscribed, waited)
      | (s', Some e) \<Rightarrow> if cancelled n then Some (s', Cancelled, waited)
          else loop attempt cancelled (Suc n) (next_interval interval) (waited @ [interval]) s') = Some y"
  show "\<exists>k. stops_after (\<lambda>i. attempt (i + n)) (\<lambda>i. cancelled (i + n)) k s"
  proof (cases "snd (attempt n s) = None \<or> cancelled n")
    case True
    then have "stops_after (\<lambda>i. attempt (i + n)) (\<lambda>i. cancelled (i + n)) 0 s" by (simp add: stops_after_def)
    then show ?thesis ..
  next
    case False
    then obtain e where "snd (attempt n s) = Some e" by auto
    with False res have "loop attempt cancelled (Suc n) (next_interval interval) (waited @ [interval]) (fst (attempt n s)) = Some y"
      by (simp add: case_prod_beta)
    from IH [OF this] obtain k where "stops_after (\<lambda>i. attempt (Suc i + n)) (\<lambda>i. cancelled (Suc i + n)) k (fst (attempt n s))" by auto
    with stops_after_Suc [of "\<lambda>i. attempt (i + n)" s "\<lambda>i. cancelled (i + n)" k] False show ?thesis by auto
  qed
qed

text \<open>A failed Handshake leaves the worker as it was.\<close>

lemma Handshake_failed: "Handshake R subscribe w m = (w', m', Some e) \<Longrightarrow> w' = w"
  by (auto simp: Handshake_def split: option.splits sum.splits prod.splits subscribed.splits)

lemma failed_attempts:
  assumes "\<forall>i < n. snd (handshake_attempt R net i (after_attempts (handshake_attempt R net) i (w, m))) \<noteq> None"
  shows "fst (after_attempts (handshake_attempt R net) n (w, m)) = w"
  using assms
proof (induction n)
  case (Suc n)
  then obtain m1 where prev: "after_attempts (handshake_attempt R net) n (w, m) = (w, m1)"
    by (metis less_SucI prod.collapse)
  obtain w2 m2 e where hs: "Handshake R (net n) w m1 = (w2, m2, e)" by (metis prod_cases3)
  then have "handshake_attempt R net n (w, m1) = ((w2, m2), e)" by (simp add: handshake_attempt_def)
  with Suc.prems prev hs show ?case by (force dest: Handshake_failed)
qed simp

text \<open>The n-th call of Handshake, and that the loop gets there.\<close>

definition nth_try ::
    "('p, 'rk) rsa_lib \<Rightarrow> (nat \<Rightarrow> string \<Rightarrow> SubscribeRequest option \<Rightarrow> 'm \<Rightarrow> 'm \<times> subscribed) \<Rightarrow> 'rk ProcWorker \<Rightarrow> 'm \<Rightarrow> nat
      \<Rightarrow> 'rk ProcWorker \<times> 'm \<times> handshake_error option" where
  "nth_try R net w m n = Handshake R (net n) w (snd (after_attempts (handshake_attempt R net) n (w, m)))"

definition all_fail ::
    "('p, 'rk) rsa_lib \<Rightarrow> (nat \<Rightarrow> string \<Rightarrow> SubscribeRequest option \<Rightarrow> 'm \<Rightarrow> 'm \<times> subscribed) \<Rightarrow> (nat \<Rightarrow> bool) \<Rightarrow> 'rk ProcWorker \<Rightarrow> 'm \<Rightarrow> nat \<Rightarrow> bool" where
  "all_fail R net cancelled w m n \<longleftrightarrow> (\<forall>i < n. snd (snd (nth_try R net w m i)) \<noteq> None \<and> \<not> cancelled i)"

lemma nth_attempt:
  assumes "\<forall>i < n. snd (handshake_attempt R net i (after_attempts (handshake_attempt R net) i (w, m))) \<noteq> None"
  shows "handshake_attempt R net n (after_attempts (handshake_attempt R net) n (w, m)) =
    (case nth_try R net w m n of (w', m', e) \<Rightarrow> ((w', m'), e))"
  using failed_attempts [OF assms] by (cases "after_attempts (handshake_attempt R net) n (w, m)") (simp add: handshake_attempt_def nth_try_def)

lemma all_fail_attempts:
  "all_fail R net cancelled w m n \<longleftrightarrow>
    (\<forall>i < n. snd (handshake_attempt R net i (after_attempts (handshake_attempt R net) i (w, m))) \<noteq> None \<and> \<not> cancelled i)"
proof (induction n)
  case (Suc n)
  show ?case
    using Suc.IH nth_attempt [of n R net w m]
    by (auto simp: all_fail_def less_Suc_eq all_conj_distrib split: prod.splits)
qed (simp add: all_fail_def)

lemma retry_result:
  assumes "all_fail R net cancelled w m n" and "nth_try R net w m n = (w', m', e)" and "e = None \<or> cancelled n"
  shows "HandshakeWithRetry R net cancelled (w, m) = Some ((w', m'), if e = None then Subscribed else Cancelled, map backoff [0..<n])"
proof -
  note fails = assms(1) [unfolded all_fail_attempts]
  note this_try = nth_attempt [of n R net w m, unfolded assms(2) prod.case]
  show ?thesis
    using retry_loop_ends [where attempt = "handshake_attempt R net", OF fails] this_try fails assms(3) by (auto simp: HandshakeWithRetry_def)
qed

section \<open>Property\<close>

text \<open>
  C30. The retry loop of the handshake returns exactly when an attempt succeeds or the context ends, at
  the first attempt where one of them holds: it reports success only for a successful Handshake
  and cancellation only for a failed one, it has waited the intervals 1, 2, 4, 8, 16, 30, 30, ...
  seconds between its attempts, and every attempt before the last left the worker unchanged.
\<close>

theorem handshake_retry_ends:
  "HandshakeWithRetry R net cancelled (w, m) = Some ((w', m'), res, waits) \<longleftrightarrow>
    (\<exists>n e. all_fail R net cancelled w m n \<and> nth_try R net w m n = (w', m', e) \<and>
       (if e = None then res = Subscribed else cancelled n \<and> res = Cancelled \<and> w' = w) \<and> waits = map backoff [0..<n])"
  (is "?L \<longleftrightarrow> ?R")
proof
  assume ret: ?L
  from retry_loop_stops [OF ret [unfolded HandshakeWithRetry_def]] obtain n where
    n: "all_fail R net cancelled w m n"
      "snd (handshake_attempt R net n (after_attempts (handshake_attempt R net) n (w, m))) = None \<or> cancelled n"
    by (auto simp: all_fail_attempts stops_after_def)
  obtain w1 m1 e where try_n: "nth_try R net w m n = (w1, m1, e)" by (metis prod_cases3)
  have stop: "e = None \<or> cancelled n"
    using n nth_attempt [of n R net w m] try_n by (simp add: all_fail_attempts)
  from retry_result [OF n(1) try_n stop] ret
  have res: "w1 = w'" "m1 = m'" "res = (if e = None then Subscribed else Cancelled)" "waits = map backoff [0..<n]" by simp_all
  have "w' = w" if "e \<noteq> None" using try_n res(1) that by (auto simp: nth_try_def dest: Handshake_failed)
  with n(1) try_n stop res show ?R by (intro exI [of _ n] exI [of _ e]) auto
next
  assume ?R
  then obtain n e where n: "all_fail R net cancelled w m n" and e: "nth_try R net w m n = (w', m', e)"
    and r: "if e = None then res = Subscribed else cancelled n \<and> res = Cancelled \<and> w' = w" and ws: "waits = map backoff [0..<n]" by blast
  from r have "e = None \<or> cancelled n" "res = (if e = None then Subscribed else Cancelled)" by (auto split: if_splits)
  with retry_result [OF n e] ws show ?L by simp
qed

end
