(* ===== verification/Cluster.thy ===== *)
theory Cluster
  imports Main_Properties Proc_Handshake Proc_Properties
begin

text \<open>
  The two programs together: a Processing Worker subscribes at the Main Worker and then serves the
  requests that the Main Worker forwards.  The transport is taken to deliver each call to the
  process at the address, or to fail.
\<close>

section \<open>Calls between the processes\<close>

definition subscribe_call ::
    "('l, 's, 'p, 'rk, 'w) main_libs \<Rightarrow> main_env \<Rightarrow> string \<Rightarrow> SubscribeRequest option \<Rightarrow> ('l, 's) MainWorkerServer
      \<Rightarrow> ('l, 's) MainWorkerServer \<times> subscribed" where
  "subscribe_call Lib env addr req srv = (case main_Subscribe Lib env req srv of (srv', r) \<Rightarrow> (srv', SubscribeAnswer r))"

text \<open>The workers by address, and the store that they share.\<close>

type_synonym ('l, 'k, 's, 'rk, 'st) pool = "(string \<rightharpoonup> ('l, 'k, 's, 'rk) ProcWorkerServer) \<times> 'st"

definition pool_call ::
    "('l, 'st, 'f, 'k, 's) proc_libs \<Rightarrow> 'f handler_env \<Rightarrow> string \<Rightarrow> ProcessRequest option \<Rightarrow> ('l, 'k, 's, 'rk, 'st) pool
      \<Rightarrow> ('l, 'k, 's, 'rk, 'st) pool \<times> forwarded" where
  "pool_call Lib env addr req = (\<lambda>(pool, st).
     case pool addr of
       None \<Rightarrow> ((pool, st), Answered (Inl (Unavailable, [])))
     | Some srv \<Rightarrow> (case proc_Process Lib env req srv st of (srv', st', r) \<Rightarrow> ((pool(addr \<mapsto> srv'), st'), Answered r)))"

section \<open>Subscribing\<close>

text \<open>What a Subscribe call with a good key does at the Main Worker.\<close>

lemma main_Subscribe_ok:
  assumes "GetWorkerId req \<noteq> []" and "GetPubkey req \<noteq> []" and "ParsePublicKeyFromPEM (ml_rsa Lib) (GetPubkey req) = Inr pk"
    and "WrapKey (ml_rsa Lib) (me_seed env) (Some pk) (ms_masterKey srv) = Inr wrapped" and "me_random env 32 = Some b"
    and "main_Subscribe Lib env req srv = (srv', r)"
  shows "r = Inr \<lparr>sp_Token = b64_encode b64_url b, sp_WrappedKey = wrapped, sp_KeyId = ms_masterKeyID srv\<rparr> \<and>
    ms_masterKey srv' = ms_masterKey srv \<and>
    tm_workerTokens (ms_tokenManager srv') (b64_encode b64_url b) = Some \<lparr>wt_Token = b64_encode b64_url b, wt_WorkerID = GetWorkerId req,
        wt_ExpiresAt = me_now env + tm_workerTokenTTL (ms_tokenManager srv), wt_KeyID = ms_masterKeyID srv, wt_Tags = GetTags req\<rparr> \<and>
    wr_workers (ms_registry srv') (GetWorkerId req) = Some \<lparr>wi_WorkerID = GetWorkerId req, wi_Status = WorkerStatusAvailable,
        wi_KeyID = ms_masterKeyID srv, wi_LastSeen = me_now env, wi_Tags = GetTags req, wi_ActiveRequests = 0\<rparr>"
proof -
  define srv1 where "srv1 = (if \<not> isWorkerRegistered srv (GetWorkerId req)
     then (case RegisterWorker (ml_sha256 Lib) (ms_workerAuth srv) (GetWorkerId req) ''default-password'' (GetTags req) of
             Inl _ \<Rightarrow> srv | Inr wa \<Rightarrow> srv\<lparr>ms_workerAuth := wa\<rparr>)
     else srv)"
  have f: "ms_masterKey srv1 = ms_masterKey srv" "ms_masterKeyID srv1 = ms_masterKeyID srv"
    "ms_tokenManager srv1 = ms_tokenManager srv" "ms_registry srv1 = ms_registry srv"
    by (simp_all add: srv1_def split: sum.splits)
  show ?thesis
    using assms f
    by (auto simp: main_Subscribe_def srv1_def [symmetric] GenerateWorkerToken_def generateSecureToken_def reg_Register_def
        subscribe_gauges_def count_subscribe_def Let_def)
qed

text \<open>
  C22. A handshake delivers the cluster key: if RSA inverts what it encrypted and neither the random
  source nor the encryption fails, a new worker that subscribes at the Main Worker ends up
  with the master key and its id, with a session token that the Main Worker accepts exactly
  until its lifetime ends, and with an entry in the registry as an available, idle worker with
  the tags of its configuration.
\<close>

theorem handshake_delivers_key:
  assumes "rsa_laws (ml_rsa Lib)" and "NewProcWorker (ml_rsa Lib) seed (Some config) = Inr w" and "pw_privateKey w = Some sk"
    and "MarshalPublicKeyToPEM (ml_rsa Lib) (Some (rs_public (ml_rsa Lib) sk)) = Inr pem" and "pem \<noteq> []"
    and "WrapKey (ml_rsa Lib) (me_seed env) (Some (rs_public (ml_rsa Lib) sk)) (ms_masterKey srv) = Inr wrapped"
    and "me_random env 32 = Some b" and "b \<noteq> []"
    and "Handshake (ml_rsa Lib) (subscribe_call Lib env) w srv = (w', srv', e)"
  shows "e = None \<and> pw_encryptionKey w' = ms_masterKey srv \<and> proc_KeyID w' = ms_masterKeyID srv \<and>
    (HasKey w' \<longleftrightarrow> ms_masterKey srv \<noteq> []) \<and>
    (\<forall>now. worker_accepts now (ms_tokenManager srv') (proc_Token w') \<longleftrightarrow> now \<le> me_now env + tm_workerTokenTTL (ms_tokenManager srv)) \<and>
    (\<exists>info \<in> ListAvailableWorkers (ms_registry srv'). wi_WorkerID info = pc_WorkerID config \<and> wi_Tags info = pc_Tags config \<and>
       wi_ActiveRequests info = 0)"
proof -
  have cfg: "pc_WorkerID (pw_config w) = pc_WorkerID config" "pc_Tags (pw_config w) = pc_Tags config" "pc_WorkerID config \<noteq> []"
    using assms(2) by (auto simp: NewProcWorker_def Let_def split: if_splits sum.splits prod.splits)
  let ?req = "Some \<lparr>sr_WorkerId = pc_WorkerID config, sr_Pubkey = pem, sr_Tags = pc_Tags config\<rparr>"
  obtain srv1 r where sub: "main_Subscribe Lib env ?req srv = (srv1, r)" by (cases "main_Subscribe Lib env ?req srv")
  note ok = main_Subscribe_ok [OF _ _ _ _ assms(7) sub, of "rs_public (ml_rsa Lib) sk" wrapped]
  have parse: "ParsePublicKeyFromPEM (ml_rsa Lib) pem = Inr (rs_public (ml_rsa Lib) sk)" by (rule key_pem_roundtrip [OF assms(1,4)])
  have unwrap: "UnwrapKey (ml_rsa Lib) (Some sk) wrapped = Inr (ms_masterKey srv)" by (rule unwrap_wrap [OF assms(1,6)])
  from ok cfg(3) assms(5,6) parse
  have r: "r = Inr \<lparr>sp_Token = b64_encode b64_url b, sp_WrappedKey = wrapped, sp_KeyId = ms_masterKeyID srv\<rparr>"
    and tok: "\<exists>wt. tm_workerTokens (ms_tokenManager srv1) (b64_encode b64_url b) = Some wt \<and> wt_ExpiresAt wt = me_now env + tm_workerTokenTTL (ms_tokenManager srv)"
    and reg: "wr_workers (ms_registry srv1) (pc_WorkerID config) = Some \<lparr>wi_WorkerID = pc_WorkerID config, wi_Status = WorkerStatusAvailable,
        wi_KeyID = ms_masterKeyID srv, wi_LastSeen = me_now env, wi_Tags = pc_Tags config, wi_ActiveRequests = 0\<rparr>"
    by simp_all
  have res: "e = None" "srv' = srv1" "w' = w\<lparr>pw_encryptionKey := ms_masterKey srv, pw_sessionToken := b64_encode b64_url b, pw_keyID := ms_masterKeyID srv\<rparr>"
    using assms(3,4,9) cfg sub r unwrap by (simp_all add: Handshake_def subscribe_call_def)
  have "b64_encode b64_url b \<noteq> []" using assms(8) by simp
  then have "worker_accepts now (ms_tokenManager srv') (proc_Token w') \<longleftrightarrow> now \<le> me_now env + tm_workerTokenTTL (ms_tokenManager srv)" for now
    using tok by (auto simp: res proc_Token_def worker_accepts_def ValidateWorkerToken_def split: if_splits)
  moreover have "\<exists>info \<in> ListAvailableWorkers (ms_registry srv'). wi_WorkerID info = pc_WorkerID config \<and> wi_Tags info = pc_Tags config \<and> wi_ActiveRequests info = 0"
    using ranI [of "wr_workers (ms_registry srv1)" "pc_WorkerID config"] reg by (auto simp: res ListAvailableWorkers_def)
  ultimately show ?thesis by (simp add: res proc_KeyID_def HasKey_def)
qed

definition sample_proc_config :: ProcConfig where
  "sample_proc_config = \<lparr>pc_MainAddr = ''main'', pc_WorkerID = ''w1'', pc_SharedFSPath = ''/db'', pc_Tags = [''grpc_addr'' \<mapsto> ''a:1''],
     pc_MetricsAddr = [], pc_MaxRecvMsgSize = 0\<rparr>"

theorem handshake_delivers_key_witness:
  "\<exists>w w' srv'. NewProcWorker sample_rsa ''seed'' (Some sample_proc_config) = Inr w \<and>
     Handshake sample_rsa (subscribe_call (sample_main_libs (unreachable :: _ \<Rightarrow> _ \<Rightarrow> unit \<Rightarrow> _)) (sample_main_env 10 ''r'')) w sample_main = (w', srv', None) \<and>
     pw_encryptionKey w' = replicate 32 CHR ''k'' \<and> worker_accepts 110 (ms_tokenManager srv') (proc_Token w')"
proof -
  let ?Lib = "sample_main_libs (unreachable :: _ \<Rightarrow> _ \<Rightarrow> unit \<Rightarrow> _)"
  obtain w where w: "NewProcWorker sample_rsa ''seed'' (Some sample_proc_config) = Inr w" "pw_privateKey w = Some ()"
    by (simp add: NewProcWorker_def sample_proc_config_def GenerateRSAKeyPair_def sample_rsa_def)
  obtain w' srv' e where h: "Handshake sample_rsa (subscribe_call ?Lib (sample_main_env 10 ''r'')) w sample_main = (w', srv', e)"
    by (metis prod_cases3)
  have "rsa_laws sample_rsa" "MarshalPublicKeyToPEM sample_rsa (Some (rs_public sample_rsa ())) = Inr ''p''"
    "WrapKey sample_rsa [] (Some (rs_public sample_rsa ())) (replicate 32 CHR ''k'') = Inr (replicate 32 CHR ''k'')"
    by (simp_all add: rsa_laws_def sample_rsa_def MarshalPublicKeyToPEM_def WrapKey_def)
  with handshake_delivers_key [of ?Lib "''seed''" sample_proc_config w "()" "''p''" "sample_main_env 10 ''r''" sample_main "replicate 32 CHR ''k''" "''r''" w' srv' e] w h
  show ?thesis by (simp add: NewTokenManager_def)
qed

section \<open>Reading through the Main Worker\<close>

text \<open>What a worker answers for an entity that is stored: its own copy while that is live, and what is stored otherwise.\<close>

context proc_system
begin

lemma GET_answer:
  assumes "able Lib key LockShared eid srv" and "cache_inv items cap lok (ps_cache srv)"
    and "so_read (pl_storage Lib) (he_read env) st eid = Inr \<lparr>fd_Blob = wj_blob job, fd_Metadata = wj_metadata job\<rparr>"
    and "promises (pl_aead Lib) key eid p ver job"
  shows "snd (processGET Lib env eid srv st) = (st, Inr (case cache_lookup items (ps_cache srv) eid of
      None \<Rightarrow> response ''OK'' p (Itoa ver)
    | Some (data, version, expiry) \<Rightarrow> if expired_at (he_first env) expiry then response ''OK'' p (Itoa ver) else response ''OK'' data version))"
proof (cases "snd (cache_fetch (pl_lru Lib) (he_first env) (ps_cache srv) eid)")
  case None
  then show ?thesis
    using GET_from_storage [OF assms(1) None assms(3,4)] C.ec.fetch_result [OF assms(2), of "he_first env" eid]
    by (auto split: option.splits if_splits)
next
  case (Some x)
  then obtain c data version where "cache_fetch (pl_lru Lib) (he_first env) (ps_cache srv) eid = (c, Some (data, version))" by (metis prod.collapse)
  then show ?thesis
    using C.ec.fetch_result [OF assms(2), of "he_first env" eid] by (auto simp: processGET_def split: option.splits if_splits)
qed

end

text \<open>
  C6. An accepted PUT can be read through the Main Worker: once the write that a Processing Worker
  promised is made, a GET of the entity at the Main Worker that is routed to a worker with the
  same data key returns the payload and the version of the PUT, whatever the Main Worker itself has stored under that key, if
  that worker has no copy of the entity in its cache or only an expired one; otherwise the
  answer is that copy, however old it is: the caches of the workers are not kept in step.
\<close>

theorem routed_get_reads_put:
  assumes "lru_spec L items cap lok" and "storage_inv s fs2"
    and "proc_Process (local_libs L J s K V) env req srv fs = (srv', fs', Inr resp)" and "GetOperation req = ''PUT''"
    and "\<forall>n. he_nonce env = Some n \<longrightarrow> length n = NonceSize"
    and "codable J (wj_metadata (last (ps_pendingWrites srv')))"
    and "able (local_libs L J s K V) (pw_encryptionKey (ps_worker srv)) LockExclusive (request_entity req) srvA"
    and "he_read envA = no_faults" and "he_write envA = no_faults"
    and "\<forall>x. fs_ReadFile J s no_faults fs2 (request_entity req) = Inr x \<longrightarrow>
      fm_Version (fd_Metadata x) < next_version (local_libs L J s K V) env srv fs (request_entity req)"
    and "async_write (local_libs L J s K V) envA (last (ps_pendingWrites srv')) srvA fs2 = (srvA', fs3)"
    and "able (local_libs L J s K V) (pw_encryptionKey (ps_worker srv)) LockShared (request_entity req) srvB"
    and "cache_inv items cap lok (ps_cache srvB)" and "he_read envB = no_faults"
    and "ml_forward MLib = pool_call (local_libs L J s K V) envB" and "mw_workers w = (pool, fs3)" and "pool addr = Some srvB" and "addr \<noteq> []"
    and "choose_worker menv (ms_registry main) (store_key (GetSchemaId req) (GetEntityKey req)) = Some worker"
    and "wi_Tags worker ''grpc_addr'' = Some addr" and "loads_in_range (ms_registry main)"
    and "ValidateWorkerToken (me_now menv) (ms_tokenManager main) (GetToken req2) = (tm, Inr t)" and "GetOperation req2 = ''GET''"
    and "GetSchemaId req2 = GetSchemaId req" and "GetEntityKey req2 = GetEntityKey req"
  shows "snd (snd (main_Process MLib menv req2 main w)) = Inr (
    case cache_lookup items (ps_cache srvB) (request_entity req) of
      None \<Rightarrow> response ''OK'' (GetPayload req) (rs_Version resp)
    | Some (data, version, expiry) \<Rightarrow>
        if expired_at (he_first envB) expiry then response ''OK'' (GetPayload req) (rs_Version resp) else response ''OK'' data version)"
    (is "_ = Inr ?answer")
proof -
  let ?Lib = "local_libs L J s K V"
  note pr = accepted_put_promises [OF assms(1,3,4,5)]
  note rd = promised_write_read [OF assms(1,2) conjunct1 [OF pr] assms(6) conjunct2 [OF conjunct2 [OF pr]] assms(7-11)]
  have get: "snd (processGET ?Lib envB (request_entity req) srvB fs3) = (fs3, Inr ?answer)"
    using proc_system.GET_answer [OF local_system [OF assms(1)] assms(12,13), of envB fs3 "last (ps_pendingWrites srv')" "GetPayload req"
        "next_version ?Lib env srv fs (request_entity req)"] rd assms(14) pr by (simp split: option.split)
  have "addressable req2" using Process_accepted_addressable [OF assms(3)] assms(24,25) by (simp add: addressable_def)
  from Process_dispatch(1) [OF this assms(23), of ?Lib envB srvB fs3] get
  have "snd (proc_Process ?Lib envB req2 srvB fs3) = (fs3, Inr ?answer)"
    by (simp add: assms(24,25))
  then have "snd (pool_call ?Lib envB addr req2 (pool, fs3)) = Answered (Inr ?answer)"
    by (cases "proc_Process ?Lib envB req2 srvB fs3") (simp add: pool_call_def assms(17))
  then have answer: "worker_answer MLib menv req2 (ms_registry main) (mw_workers w) = Some (wi_WorkerID worker, ?answer)"
    using assms(15,16,18-20,24,25) by (simp add: worker_answer_def tag_value_def)
  obtain srv1 ws r where route: "routeGETToProcWorker MLib menv req2 (main\<lparr>ms_tokenManager := tm\<rparr>) (mw_workers w) = (srv1, ws, r)"
    by (metis prod_cases3)
  have "r = Inr ?answer" using route_result [OF _ route] assms(21) answer by simp
  with main_Process_GET [OF assms(22,23) route] show ?thesis by simp
qed

theorem routed_get_reads_put_witness:
  "\<exists>fs. snd (snd (main_Process (sample_main_libs (pool_call (sample_libs (const_codec (wj_metadata (sample_job ''{}'')))) sample_env)) worker_env
      (entity_request ''GET'' []) sample_joined (sample_world ([''a:1'' \<mapsto> sample_server], fs)))) = Inr (response ''OK'' ''{}'' ''1'')"
proof -
  let ?J = "const_codec (wj_metadata (sample_job ''{}''))"
  obtain srv' where put: "proc_Process (sample_libs ?J) sample_env (sample_request ''PUT'' ''{}'') sample_server sample_tree =
      (srv', sample_tree, Inr (response ''OK'' [] ''1''))" and pend: "ps_pendingWrites srv' = [sample_job ''{}'']"
    using sample_put [of "''{}''" ?J] by auto
  obtain srvA fs where aw: "async_write (sample_libs ?J) sample_env (sample_job ''{}'') sample_server sample_tree = (srvA, fs)"
    by (metis prod.collapse)
  let ?main = "sample_main_libs (pool_call (sample_libs ?J) sample_env)" and ?w = "sample_world ([''a:1'' \<mapsto> sample_server], fs)"
  have choice: "choose_worker worker_env (ms_registry sample_joined) (store_key ''chat'' ''1'') = Some sample_info"
    "wi_Tags sample_info ''grpc_addr'' = Some ''a:1''" "loads_in_range (ms_registry sample_joined)"
    by (simp_all add: choose_worker_def FindWorkerForEntity_def NewWorkerRegistry_def FindLeastLoadedWorker_def sample_info_def loads_in_range_def)
  have valid: "ValidateWorkerToken (me_now worker_env) (ms_tokenManager sample_joined) (GetToken (entity_request ''GET'' [])) =
      (ms_tokenManager sample_joined, Inr sample_worker_token)"
    using sample_worker_valid [of sample_joined 50] by simp
  have "mw_workers ?w = ([''a:1'' \<mapsto> sample_server], fs)" by (simp add: sample_world_def)
  from routed_get_reads_put [OF llru.lru_spec_axioms sample_inv put _ sample_nonce _ _ _ _ _ _ _ _ _ _ this _ _ _ choice(2,3) valid,
      where srvA = sample_server and envA = sample_env and srvA' = srvA and envB = sample_env and MLib = ?main]
  show ?thesis
    using pend aw sample_able [of ?J] sample_cache_empty sample_not_stored [of ?J] sample_job_codable [of "''{}''"] choice(1)
    by (intro exI [of _ fs]) (simp add: response_def)
qed

end
