(* ===== verification/S3_Storage.thy ===== *)
theory S3_Storage
  imports File_Storage Proc_System "HOL-Library.List_Lexorder" "HOL-Library.Char_ord"
begin

text \<open>
  The storage backend of pkg/fs/s3_storage.go.  The object store client (package minio-go) is the
  argument record \<open>s3_client\<close>: its calls take a fault plan, the bucket and the key.  What the code
  relies on is the locale \<open>object_store\<close>: S3 is strongly consistent, a call that fails may or may
  not have taken effect.  From it follows the contract \<open>storage_origin\<close> of a storage backend, so
  what is proved of the Processing Workers holds with this backend too.
\<close>

section \<open>The client\<close>

datatype s3_error = NoSuchKey | S3Failure

text \<open>\<open>s3_get\<close>: the error of \<open>GetObject\<close>, or the error or content that reading the object gives.\<close>

record ('o, 'f) s3_client =
  s3_put :: "'f \<Rightarrow> string \<Rightarrow> string \<Rightarrow> bytes \<Rightarrow> 'o \<Rightarrow> 'o \<times> s3_error option"
  s3_get :: "'f \<Rightarrow> string \<Rightarrow> string \<Rightarrow> 'o \<Rightarrow> s3_error + (s3_error + bytes)"
  s3_stat :: "'f \<Rightarrow> string \<Rightarrow> string \<Rightarrow> 'o \<Rightarrow> s3_error option"
  s3_remove :: "'f \<Rightarrow> string \<Rightarrow> string \<Rightarrow> 'o \<Rightarrow> 'o \<times> s3_error option"
  s3_list :: "'f \<Rightarrow> string \<Rightarrow> string \<Rightarrow> 'o \<Rightarrow> (s3_error + string) list"
  s3_bucket_exists :: "'f \<Rightarrow> string \<Rightarrow> 'o \<Rightarrow> s3_error + bool"
  s3_make_bucket :: "'f \<Rightarrow> string \<Rightarrow> string \<Rightarrow> 'o \<Rightarrow> 'o \<times> s3_error option"

record S3Config =
  sc_Endpoint :: string
  sc_AccessKeyID :: string
  sc_SecretAccessKey :: string
  sc_Bucket :: string
  sc_UseSSL :: bool
  sc_Region :: string

record S3Storage =
  s3_bucket :: string
  s3_localTemplatesDir :: string
  s3_localTemplatesDirOnce :: bool
  s3_localTemplatesDirErr :: bool

section \<open>Operations\<close>

text \<open>\<open>minio.New\<close> makes a client from the configuration, or fails.\<close>

definition NewS3Storage ::
    "(S3Config \<Rightarrow> ('o, 'f) s3_client option) \<Rightarrow> 'f \<Rightarrow> S3Config \<Rightarrow> 'o \<Rightarrow> 'o \<times> (fs_error + ('o, 'f) s3_client \<times> S3Storage)" where
  "NewS3Storage new F cfg ob =
     (if sc_Endpoint cfg = [] then (ob, Inl (FsMessage ''S3 endpoint cannot be empty''))
      else if sc_Bucket cfg = [] then (ob, Inl (FsMessage ''S3 bucket cannot be empty''))
      else case new cfg of
        None \<Rightarrow> (ob, Inl (FsMessage ''failed to create S3 client''))
      | Some client \<Rightarrow>
          let s = \<lparr>s3_bucket = sc_Bucket cfg, s3_localTemplatesDir = [], s3_localTemplatesDirOnce = False, s3_localTemplatesDirErr = False\<rparr> in
          case s3_bucket_exists client F (sc_Bucket cfg) ob of
            Inl _ \<Rightarrow> (ob, Inl (FsMessage ''failed to check S3 bucket existence''))
          | Inr True \<Rightarrow> (ob, Inr (client, s))
          | Inr False \<Rightarrow>
              (case s3_make_bucket client F (sc_Bucket cfg) (sc_Region cfg) ob of
                 (ob1, Some _) \<Rightarrow> (ob1, Inl (FsMessage ''failed to create S3 bucket''))
               | (ob1, None) \<Rightarrow> (ob1, Inr (client, s))))"

definition blobKey :: "string \<Rightarrow> string" where
  "blobKey eid = ''files/'' @ eid @ ''.json.enc''"

definition metaKey :: "string \<Rightarrow> string" where
  "metaKey eid = ''files/'' @ eid @ ''.meta.json''"

definition templateKey :: "string \<Rightarrow> string" where
  "templateKey schemaID = ''templates/'' @ schemaID @ ''.json''"

definition s3_WriteFile ::
    "('o, 'f) s3_client \<Rightarrow> meta_codec \<Rightarrow> S3Storage \<Rightarrow> 'f \<Rightarrow> string \<Rightarrow> bytes \<Rightarrow> FileMetadata \<Rightarrow> 'o \<Rightarrow> 'o \<times> fs_error option" where
  "s3_WriteFile C J s F eid data metadata ob =
     (if \<not> isValidEntityID eid then (ob, Some ErrInvalidID)
      else case mc_marshal J metadata of
        None \<Rightarrow> (ob, Some (ErrWriteFailed ''failed to marshal metadata''))
      | Some metaJSON \<Rightarrow>
          (case s3_put C F (s3_bucket s) (blobKey eid) data ob of
             (ob1, Some _) \<Rightarrow> (ob1, Some (ErrWriteFailed ''failed to put blob''))
           | (ob1, None) \<Rightarrow>
               (case s3_put C F (s3_bucket s) (metaKey eid) metaJSON ob1 of
                  (ob2, Some _) \<Rightarrow> (ob2, Some (ErrWriteFailed ''failed to put metadata''))
                | (ob2, None) \<Rightarrow> (ob2, None))))"

text \<open>Reading one object: the content, or the error that \<open>ReadFile\<close> returns for it.\<close>

definition read_object :: "('o, 'f) s3_client \<Rightarrow> 'f \<Rightarrow> string \<Rightarrow> string \<Rightarrow> string \<Rightarrow> string \<Rightarrow> 'o \<Rightarrow> fs_error + bytes" where
  "read_object C F bucket key getMsg readMsg ob =
     (case s3_get C F bucket key ob of
        Inl _ \<Rightarrow> Inl (ErrReadFailed getMsg)
      | Inr (Inl e) \<Rightarrow> if e = NoSuchKey then Inl ErrFileNotFound else Inl (ErrReadFailed readMsg)
      | Inr (Inr data) \<Rightarrow> Inr data)"

definition s3_ReadFile ::
    "('o, 'f) s3_client \<Rightarrow> meta_codec \<Rightarrow> S3Storage \<Rightarrow> 'f \<Rightarrow> 'o \<Rightarrow> string \<Rightarrow> fs_error + FileData" where
  "s3_ReadFile C J s F ob eid =
     (if \<not> isValidEntityID eid then Inl ErrInvalidID
      else case read_object C F (s3_bucket s) (blobKey eid) ''failed to get blob'' ''failed to read blob'' ob of
        Inl e \<Rightarrow> Inl e
      | Inr blob \<Rightarrow>
          (case read_object C F (s3_bucket s) (metaKey eid) ''failed to get metadata'' ''failed to read metadata'' ob of
             Inl e \<Rightarrow> Inl e
           | Inr metaJSON \<Rightarrow>
               (case mc_unmarshal J metaJSON of
                  None \<Rightarrow> Inl (ErrReadFailed ''failed to unmarshal metadata'')
                | Some meta \<Rightarrow> Inr \<lparr>fd_Blob = blob, fd_Metadata = meta\<rparr>)))"

definition s3_FileExists :: "('o, 'f) s3_client \<Rightarrow> S3Storage \<Rightarrow> 'f \<Rightarrow> 'o \<Rightarrow> string \<Rightarrow> bool" where
  "s3_FileExists C s F ob eid \<longleftrightarrow>
     isValidEntityID eid \<and> s3_stat C F (s3_bucket s) (blobKey eid) ob = None \<and> s3_stat C F (s3_bucket s) (metaKey eid) ob = None"

definition s3_DeleteFile :: "('o, 'f) s3_client \<Rightarrow> S3Storage \<Rightarrow> 'f \<Rightarrow> string \<Rightarrow> 'o \<Rightarrow> 'o \<times> fs_error option" where
  "s3_DeleteFile C s F eid ob =
     (if \<not> isValidEntityID eid then (ob, Some ErrInvalidID)
      else
        let (ob1, e1) = s3_remove C F (s3_bucket s) (blobKey eid) ob in
        if e1 \<noteq> None \<and> e1 \<noteq> Some NoSuchKey then (ob1, Some (FsMessage ''failed to delete blob''))
        else
          let (ob2, e2) = s3_remove C F (s3_bucket s) (metaKey eid) ob1 in
          if e2 \<noteq> None \<and> e2 \<noteq> Some NoSuchKey then (ob2, Some (FsMessage ''failed to delete metadata''))
          else (ob2, None))"

text \<open>The loop of \<open>ListFiles\<close> over the listed objects, with the ids found so far.\<close>

fun listed_ids :: "(s3_error + string) list \<Rightarrow> string set \<Rightarrow> fs_error + string set" where
  "listed_ids [] ids = Inr ids"
| "listed_ids (Inl e # objs) ids = Inl (FsMessage ''failed to list objects'')"
| "listed_ids (Inr key # objs) ids =
     (let name = TrimPrefix key ''files/'' in
      if HasSuffix name ''.json.enc'' then listed_ids objs (insert (take (length name - 9) name) ids)
      else if HasSuffix name ''.meta.json'' then listed_ids objs (insert (take (length name - 10) name) ids)
      else listed_ids objs ids)"

definition s3_ListFiles :: "('o, 'f) s3_client \<Rightarrow> S3Storage \<Rightarrow> 'f \<Rightarrow> 'o \<Rightarrow> fs_error + string set" where
  "s3_ListFiles C s F ob = listed_ids (s3_list C F (s3_bucket s) ''files/'' ob) {}"

section \<open>Templates\<close>

text \<open>
  \<open>syncTemplatesFromS3\<close> over the listed objects; errors are skipped.  \<open>G\<close> is the fault plan of the
  local file system.
\<close>

fun sync_objects ::
    "('o, 'f) s3_client \<Rightarrow> S3Storage \<Rightarrow> 'f \<Rightarrow> faults \<Rightarrow> string \<Rightarrow> 'o \<Rightarrow> (s3_error + string) list \<Rightarrow> file_sys \<Rightarrow> file_sys" where
  "sync_objects C s F G localDir ob [] fs = fs"
| "sync_objects C s F G localDir ob (Inl e # objs) fs = sync_objects C s F G localDir ob objs fs"
| "sync_objects C s F G localDir ob (Inr key # objs) fs =
     (let name = TrimPrefix key ''templates/'' in
      if \<not> HasSuffix name ''.json'' \<or> name = [] then sync_objects C s F G localDir ob objs fs
      else case s3_get C F (s3_bucket s) key ob of
        Inr (Inr data) \<Rightarrow> sync_objects C s F G localDir ob objs (fst (os_WriteFile G (Join localDir name) data fs))
      | _ \<Rightarrow> sync_objects C s F G localDir ob objs fs)"

definition syncTemplatesFromS3 :: "('o, 'f) s3_client \<Rightarrow> S3Storage \<Rightarrow> 'f \<Rightarrow> faults \<Rightarrow> string \<Rightarrow> 'o \<Rightarrow> file_sys \<Rightarrow> file_sys" where
  "syncTemplatesFromS3 C s F G localDir ob fs = sync_objects C s F G localDir ob (s3_list C F (s3_bucket s) ''templates/'' ob) fs"

text \<open>
  \<open>GetTemplatesDir\<close> and its \<open>sync.Once\<close>: \<open>tmp\<close> is the directory that \<open>os.MkdirTemp\<close> would make, None when
  it fails.
\<close>

definition s3_GetTemplatesDir ::
    "('o, 'f) s3_client \<Rightarrow> 'f \<Rightarrow> faults \<Rightarrow> string option \<Rightarrow> 'o \<Rightarrow> S3Storage \<Rightarrow> file_sys \<Rightarrow> S3Storage \<times> file_sys \<times> string" where
  "s3_GetTemplatesDir C F G tmp ob s fs =
     (let (s1, fs1) =
            (if s3_localTemplatesDirOnce s then (s, fs)
             else case tmp of
               None \<Rightarrow> (s\<lparr>s3_localTemplatesDirOnce := True, s3_localTemplatesDirErr := True\<rparr>, fs)
             | Some dir \<Rightarrow>
                 (let s' = s\<lparr>s3_localTemplatesDirOnce := True, s3_localTemplatesDir := dir\<rparr>
                  in (s', syncTemplatesFromS3 C s' F G dir ob (fst (os_Mkdir (resolve dir) fs)))))
      in if s3_localTemplatesDirErr s1 then (s1, fs1, []) else (s1, fs1, s3_localTemplatesDir s1))"

definition s3_WriteTemplate ::
    "('o, 'f) s3_client \<Rightarrow> 'f \<Rightarrow> faults \<Rightarrow> string option \<Rightarrow> string \<Rightarrow> bytes \<Rightarrow> S3Storage \<Rightarrow> 'o \<Rightarrow> file_sys
      \<Rightarrow> S3Storage \<times> 'o \<times> file_sys \<times> fs_error option" where
  "s3_WriteTemplate C F G tmp schemaID schemaData s ob fs =
     (if \<not> isValidEntityID schemaID then (s, ob, fs, Some (FsMessage ''invalid schema ID''))
      else case s3_put C F (s3_bucket s) (templateKey schemaID) schemaData ob of
        (ob1, Some _) \<Rightarrow> (s, ob1, fs, Some (FsMessage ''failed to put template''))
      | (ob1, None) \<Rightarrow>
          (case s3_GetTemplatesDir C F G tmp ob1 s fs of
             (s1, fs1, dir) \<Rightarrow>
               (s1, ob1, if dir \<noteq> [] then fst (os_WriteFile G (Join dir (schemaID @ ''.json'')) schemaData fs1) else fs1, None)))"

definition s3_ReadTemplate :: "('o, 'f) s3_client \<Rightarrow> 'f \<Rightarrow> string \<Rightarrow> S3Storage \<Rightarrow> 'o \<Rightarrow> fs_error + bytes" where
  "s3_ReadTemplate C F schemaID s ob =
     (if \<not> isValidEntityID schemaID then Inl (FsMessage ''invalid schema ID'')
      else case s3_get C F (s3_bucket s) (templateKey schemaID) ob of
        Inl _ \<Rightarrow> Inl (FsMessage ''failed to get template'')
      | Inr (Inl e) \<Rightarrow> if e = NoSuchKey then Inl ErrFileNotFound else Inl (FsMessage ''failed to read template'')
      | Inr (Inr data) \<Rightarrow> Inr data)"

section \<open>What the code relies on\<close>

text \<open>
  The documented behaviour of the object store in one bucket: \<open>view\<close> is the map of its objects,
  \<open>ready\<close> says that the bucket is there, \<open>none\<close> is the fault plan without faults.
\<close>

locale object_store =
  fixes C :: "('o, 'f) s3_client" and bucket :: string and none :: 'f
    and view :: "'o \<Rightarrow> string \<Rightarrow> bytes option" and ready :: "'o \<Rightarrow> bool"
  assumes put_ready: "ready ob \<Longrightarrow> ready (fst (s3_put C f bucket k d ob))"
    and put_ok: "ready ob \<Longrightarrow> s3_put C f bucket k d ob = (ob', None) \<Longrightarrow> view ob' = (view ob)(k \<mapsto> d)"
    and put_err: "ready ob \<Longrightarrow> s3_put C f bucket k d ob = (ob', Some e) \<Longrightarrow> view ob' = view ob \<or> view ob' = (view ob)(k \<mapsto> d)"
    and remove_ready: "ready ob \<Longrightarrow> ready (fst (s3_remove C f bucket k ob))"
    and remove_ok: "ready ob \<Longrightarrow> s3_remove C f bucket k ob = (ob', r) \<Longrightarrow> r \<in> {None, Some NoSuchKey} \<Longrightarrow> view ob' = (view ob)(k := None)"
    and remove_err: "ready ob \<Longrightarrow> s3_remove C f bucket k ob = (ob', r) \<Longrightarrow> view ob' = view ob \<or> view ob' = (view ob)(k := None)"
    and get_data: "ready ob \<Longrightarrow> s3_get C f bucket k ob = Inr (Inr d) \<Longrightarrow> view ob k = Some d"
    and get_none: "ready ob \<Longrightarrow> s3_get C none bucket k ob = Inr (case view ob k of None \<Rightarrow> Inl NoSuchKey | Some d \<Rightarrow> Inr d)"
    and put_none: "ready ob \<Longrightarrow> snd (s3_put C none bucket k d ob) = None"
    and remove_none: "ready ob \<Longrightarrow> snd (s3_remove C none bucket k ob) = None"

lemma key_simps [simp]:
  "blobKey a = blobKey b \<longleftrightarrow> a = b" "metaKey a = metaKey b \<longleftrightarrow> a = b" "blobKey a \<noteq> metaKey b" "metaKey b \<noteq> blobKey a"
proof -
  have "last (blobKey a) \<noteq> last (metaKey b)" by (simp add: blobKey_def metaKey_def)
  then show "blobKey a \<noteq> metaKey b" "metaKey b \<noteq> blobKey a" by metis+
qed (simp_all add: blobKey_def metaKey_def)

text \<open>What a fault-free read returns, in terms of the objects.\<close>

definition s3_stored :: "meta_codec \<Rightarrow> (string \<Rightarrow> bytes option) \<Rightarrow> string \<Rightarrow> fs_error + FileData" where
  "s3_stored J V eid =
     (case V (blobKey eid) of
        None \<Rightarrow> Inl ErrFileNotFound
      | Some b \<Rightarrow>
          (case V (metaKey eid) of
             None \<Rightarrow> Inl ErrFileNotFound
           | Some t \<Rightarrow> (case mc_unmarshal J t of None \<Rightarrow> Inl (ErrReadFailed ''failed to unmarshal metadata'')
                        | Some m \<Rightarrow> Inr \<lparr>fd_Blob = b, fd_Metadata = m\<rparr>)))"

definition objects_satisfy ::
    "meta_codec \<Rightarrow> (string \<Rightarrow> bytes \<Rightarrow> bool) \<Rightarrow> (string \<Rightarrow> FileMetadata \<Rightarrow> bool) \<Rightarrow> (string \<Rightarrow> bytes option) \<Rightarrow> bool" where
  "objects_satisfy J PB PM V \<longleftrightarrow>
     (\<forall>eid b. V (blobKey eid) = Some b \<longrightarrow> PB eid b) \<and>
     (\<forall>eid t m. V (metaKey eid) = Some t \<longrightarrow> mc_unmarshal J t = Some m \<longrightarrow> PM eid m)"

context object_store
begin

lemma read_object_data: "ready ob \<Longrightarrow> read_object C f bucket k x y ob = Inr d \<Longrightarrow> view ob k = Some d"
  by (auto simp: read_object_def dest: get_data split: sum.splits if_splits)

lemma read_object_none:
  "ready ob \<Longrightarrow> read_object C none bucket k x y ob = (case view ob k of None \<Rightarrow> Inl ErrFileNotFound | Some d \<Rightarrow> Inr d)"
  by (simp add: read_object_def get_none split: option.splits)

lemma read_none:
  assumes "ready ob" and "s3_bucket s = bucket"
  shows "s3_ReadFile C J s none ob eid = (if isValidEntityID eid then s3_stored J (view ob) eid else Inl ErrInvalidID)"
  using assms by (simp add: s3_ReadFile_def read_object_none s3_stored_def split: option.splits)

lemma read_faults:
  assumes "ready ob" and "s3_bucket s = bucket" and "s3_ReadFile C J s f ob eid = Inr x"
  shows "isValidEntityID eid \<and> s3_stored J (view ob) eid = Inr x"
proof -
  from assms(3) obtain b t m where parts: "isValidEntityID eid" "mc_unmarshal J t = Some m" "x = \<lparr>fd_Blob = b, fd_Metadata = m\<rparr>"
    and rb: "read_object C f (s3_bucket s) (blobKey eid) ''failed to get blob'' ''failed to read blob'' ob = Inr b"
    and rt: "read_object C f (s3_bucket s) (metaKey eid) ''failed to get metadata'' ''failed to read metadata'' ob = Inr t"
    by (auto simp: s3_ReadFile_def split: if_splits sum.splits option.splits)
  from read_object_data [OF assms(1) rb [unfolded assms(2)]] read_object_data [OF assms(1) rt [unfolded assms(2)]] parts
  show ?thesis by (simp add: s3_stored_def)
qed

lemma write_view:
  assumes "ready ob" and "s3_bucket s = bucket" and "isValidEntityID eid" and "s3_WriteFile C J s f eid b m ob = (ob', r)"
  shows "ready ob' \<and>
    (case mc_marshal J m of
       None \<Rightarrow> ob' = ob \<and> r \<noteq> None
     | Some t \<Rightarrow> (let new = (view ob)(blobKey eid \<mapsto> b, metaKey eid \<mapsto> t) in
         view ob' = new \<or> r \<noteq> None \<and> (view ob' = view ob \<or> view ob' = (view ob)(blobKey eid \<mapsto> b))))"
proof (cases "mc_marshal J m")
  case None
  with assms show ?thesis by (auto simp: s3_WriteFile_def)
next
  case (Some t)
  obtain ob1 e1 where p1: "s3_put C f bucket (blobKey eid) b ob = (ob1, e1)" by (cases "s3_put C f bucket (blobKey eid) b ob")
  obtain ob2 e2 where p2: "s3_put C f bucket (metaKey eid) t ob1 = (ob2, e2)" by (cases "s3_put C f bucket (metaKey eid) t ob1")
  have r1: "ready ob1" using put_ready [OF assms(1), of f "blobKey eid" b] p1 by simp
  have r2: "ready ob2" using put_ready [OF r1, of f "metaKey eid" t] p2 by simp
  show ?thesis
  proof (cases e1)
    case (Some e)
    with assms p1 put_err [OF assms(1)] r1 \<open>mc_marshal J m = Some t\<close> show ?thesis by (auto simp: s3_WriteFile_def Let_def)
  next
    case None
    then have v1: "view ob1 = (view ob)(blobKey eid \<mapsto> b)" using put_ok [OF assms(1)] p1 by blast
    show ?thesis
    proof (cases e2)
      case (Some e)
      with put_err [OF r1] p2 have "view ob2 = view ob1 \<or> view ob2 = (view ob1)(metaKey eid \<mapsto> t)" by blast
      with assms p1 p2 None Some \<open>mc_marshal J m = Some t\<close> v1 r2 show ?thesis by (auto simp: s3_WriteFile_def Let_def)
    next
      case None
      then have "view ob2 = (view ob1)(metaKey eid \<mapsto> t)" using put_ok [OF r1] p2 by blast
      with assms p1 p2 None \<open>e1 = None\<close> \<open>mc_marshal J m = Some t\<close> v1 r2 show ?thesis by (auto simp: s3_WriteFile_def Let_def)
    qed
  qed
qed

lemma delete_view:
  assumes "ready ob" and "s3_bucket s = bucket" and "isValidEntityID eid" and "s3_DeleteFile C s f eid ob = (ob', r)"
  shows "ready ob' \<and> (let gone = (view ob)(blobKey eid := None, metaKey eid := None) in
    view ob' = gone \<or> r \<noteq> None \<and> (view ob' = view ob \<or> view ob' = (view ob)(blobKey eid := None)))"
proof -
  obtain ob1 e1 where p1: "s3_remove C f bucket (blobKey eid) ob = (ob1, e1)" by (cases "s3_remove C f bucket (blobKey eid) ob")
  obtain ob2 e2 where p2: "s3_remove C f bucket (metaKey eid) ob1 = (ob2, e2)" by (cases "s3_remove C f bucket (metaKey eid) ob1")
  have r1: "ready ob1" using remove_ready [OF assms(1), of f "blobKey eid"] p1 by simp
  have r2: "ready ob2" using remove_ready [OF r1, of f "metaKey eid"] p2 by simp
  note e1 = remove_err [OF assms(1) p1] and e2 = remove_err [OF r1 p2]
  show ?thesis
  proof (cases "e1 \<in> {None, Some NoSuchKey}")
    case False
    with assms p1 e1 r1 show ?thesis by (auto simp: s3_DeleteFile_def Let_def)
  next
    case True
    from remove_ok [OF assms(1) p1 this] have v1: "view ob1 = (view ob)(blobKey eid := None)" .
    show ?thesis
    proof (cases "e2 \<in> {None, Some NoSuchKey}")
      case False
      with assms p1 p2 e2 v1 True r2 show ?thesis by (auto simp: s3_DeleteFile_def Let_def)
    next
      case e2_ok: True
      from remove_ok [OF r1 p2 this] v1 have "view ob2 = (view ob)(blobKey eid := None, metaKey eid := None)" by simp
      with assms p1 p2 True e2_ok r2 show ?thesis by (auto simp: s3_DeleteFile_def Let_def)
    qed
  qed
qed

lemma invalid_noop:
  assumes "\<not> isValidEntityID eid"
  shows "s3_WriteFile C J s f eid b m ob = (ob, Some ErrInvalidID)" "s3_DeleteFile C s f eid ob = (ob, Some ErrInvalidID)"
    "s3_ReadFile C J s f ob eid = Inl ErrInvalidID"
  using assms by (simp_all add: s3_WriteFile_def s3_DeleteFile_def s3_ReadFile_def)

lemma s3_stored_cong:
  assumes "V' (blobKey eid) = V (blobKey eid)" and "V' (metaKey eid) = V (metaKey eid)"
  shows "s3_stored J V' eid = s3_stored J V eid"
  unfolding s3_stored_def assms ..

lemma stored_missing: "V (blobKey eid) = None \<Longrightarrow> s3_stored J V eid = Inl ErrFileNotFound"
  by (simp add: s3_stored_def)

lemma stored_frame:
  assumes "eid' \<noteq> eid" and "\<forall>k. k \<noteq> blobKey eid \<and> k \<noteq> metaKey eid \<longrightarrow> V' k = V k"
  shows "s3_stored J V' eid' = s3_stored J V eid'"
  by (rule s3_stored_cong) (use assms in simp_all)

lemma write_views:
  assumes "ready ob" and "s3_bucket s = bucket" and "s3_WriteFile C J s f eid b m ob = (ob', r)"
  shows "ready ob' \<and> (\<forall>k. k \<noteq> blobKey eid \<and> k \<noteq> metaKey eid \<longrightarrow> view ob' k = view ob k) \<and>
    (view ob' (blobKey eid) = view ob (blobKey eid) \<and> view ob' (metaKey eid) = view ob (metaKey eid) \<or> view ob' (blobKey eid) = Some b) \<and>
    (view ob' (metaKey eid) = view ob (metaKey eid) \<or> mc_marshal J m = view ob' (metaKey eid)) \<and>
    (r = None \<longrightarrow> view ob' (blobKey eid) = Some b \<and> mc_marshal J m = view ob' (metaKey eid) \<and> mc_marshal J m \<noteq> None)"
proof (cases "isValidEntityID eid")
  case True
  from write_view [OF assms(1,2) this assms(3)] show ?thesis
    by (cases "mc_marshal J m") (auto simp: Let_def)
next
  case False
  with assms show ?thesis by (auto simp: invalid_noop)
qed

lemma delete_views:
  assumes "ready ob" and "s3_bucket s = bucket" and "s3_DeleteFile C s f eid ob = (ob', r)"
  shows "ready ob' \<and> (\<forall>k. k \<noteq> blobKey eid \<and> k \<noteq> metaKey eid \<longrightarrow> view ob' k = view ob k) \<and>
    (view ob' = view ob \<or> view ob' (blobKey eid) = None) \<and> (\<forall>k. view ob' k = view ob k \<or> view ob' k = None) \<and>
    (r = None \<longrightarrow> isValidEntityID eid \<and> view ob' (blobKey eid) = None)"
proof (cases "isValidEntityID eid")
  case True
  from delete_view [OF assms(1,2) this assms(3)] True show ?thesis
    by (auto simp: Let_def split: if_splits)
next
  case False
  with assms show ?thesis by (auto simp: invalid_noop)
qed

lemma s3_backend:
  assumes s: "s3_bucket s = bucket"
  shows "storage_backend (s3_WriteFile C J s) (s3_ReadFile C J s) (s3_DeleteFile C s) none ready (codable J)"
proof
  fix ob f eid b m
  assume ob: "ready ob"
  obtain ob' r where w: "s3_WriteFile C J s f eid b m ob = (ob', r)" by (cases "s3_WriteFile C J s f eid b m ob")
  note v = write_views [OF ob s w]
  show "ready (fst (s3_WriteFile C J s f eid b m ob))" using v w by simp
  show "s3_ReadFile C J s none (fst (s3_WriteFile C J s f eid b m ob)) eid' = s3_ReadFile C J s none ob eid'" if "eid' \<noteq> eid" for eid'
    using v w that stored_frame [of eid' eid "view ob'" "view ob" J] by (simp add: read_none [OF _ s] ob)
next
  fix ob f eid
  assume ob: "ready ob"
  obtain ob' r where d: "s3_DeleteFile C s f eid ob = (ob', r)" by (cases "s3_DeleteFile C s f eid ob")
  note v = delete_views [OF ob s d]
  show "ready (fst (s3_DeleteFile C s f eid ob))" using v d by simp
  show "s3_ReadFile C J s none (fst (s3_DeleteFile C s f eid ob)) eid' = s3_ReadFile C J s none ob eid'" if "eid' \<noteq> eid" for eid'
    using v d that stored_frame [of eid' eid "view ob'" "view ob" J] by (simp add: read_none [OF _ s] ob)
next
  fix ob f eid x
  assume "ready ob" "s3_ReadFile C J s f ob eid = Inr x"
  with read_faults [OF _ s] show "s3_ReadFile C J s none ob eid = Inr x" by (simp add: read_none [OF _ s])
next
  fix ob f eid b m ob'
  assume ob: "ready ob" and "codable J m" and w: "s3_WriteFile C J s f eid b m ob = (ob', None)"
  then obtain t where "mc_marshal J m = Some t" "mc_unmarshal J t = Some m" by (auto simp: codable_def split: option.splits)
  moreover have "isValidEntityID eid" using w by (rule contrapos_pp) (simp add: invalid_noop)
  ultimately show "s3_ReadFile C J s none ob' eid = Inr \<lparr>fd_Blob = b, fd_Metadata = m\<rparr>"
    using write_views [OF ob s w] by (auto simp: read_none [OF _ s] s3_stored_def)
next
  fix ob f eid b m ob' r x
  assume ob: "ready ob" and w: "s3_WriteFile C J s f eid b m ob = (ob', r)" and x: "s3_ReadFile C J s none ob' eid = Inr x"
  note v = write_views [OF ob s w]
  from x v have st: "isValidEntityID eid" "s3_stored J (view ob') eid = Inr x" by (auto simp: read_none [OF _ s] split: if_splits)
  from v have "s3_stored J (view ob') eid = s3_stored J (view ob) eid \<or> view ob' (blobKey eid) = Some b" using s3_stored_cong [of "view ob'" eid "view ob" J] by blast
  then show "s3_ReadFile C J s none ob eid = Inr x \<or> fd_Blob x = b"
    using st ob by (auto simp: read_none [OF _ s] s3_stored_def split: option.splits)
next
  fix ob f eid ob'
  assume ob: "ready ob" and d: "s3_DeleteFile C s f eid ob = (ob', None)"
  from delete_views [OF ob s d] show "s3_ReadFile C J s none ob' eid = Inl ErrFileNotFound" by (simp add: read_none [OF _ s] s3_stored_def)
next
  fix ob f eid ob' e
  assume ob: "ready ob" and d: "s3_DeleteFile C s f eid ob = (ob', Some e)"
  from delete_views [OF ob s d] have r': "ready ob'" by (elim conjE)
  from delete_views [OF ob s d] have v: "view ob' = view ob \<or> view ob' (blobKey eid) = None" by (elim conjE)
  show "s3_ReadFile C J s none ob' eid = s3_ReadFile C J s none ob eid \<or> s3_ReadFile C J s none ob' eid = Inl ErrFileNotFound"
    unfolding read_none [OF ob s] read_none [OF r' s] using v stored_missing [of "view ob'" eid J] by auto
next
  fix ob eid b m
  assume ob: "ready ob" and e: "isValidEntityID eid" and "codable J m"
  then obtain t where t: "mc_marshal J m = Some t" by (auto simp: codable_def split: option.splits)
  obtain ob1 where p1: "s3_put C none bucket (blobKey eid) b ob = (ob1, None)" using put_none [OF ob] by (metis prod.collapse)
  have "ready ob1" using put_ready [OF ob, of none "blobKey eid" b] p1 by simp
  from put_none [OF this, of "metaKey eid" t] show "snd (s3_WriteFile C J s none eid b m ob) = None"
    using e t p1 s by (auto simp: s3_WriteFile_def split: prod.splits option.splits)
next
  fix ob eid
  assume ob: "ready ob" and "isValidEntityID eid"
  then show "snd (s3_DeleteFile C s none eid ob) = None"
    using remove_none [OF ob, of "blobKey eid"] remove_none [of "fst (s3_remove C none bucket (blobKey eid) ob)" "metaKey eid"]
      remove_ready [OF ob, of none "blobKey eid"] s
    by (auto simp: s3_DeleteFile_def Let_def split: prod.splits)
qed (simp add: invalid_noop)

lemma s3_origin:
  assumes s: "s3_bucket s = bucket"
  shows "storage_origin (s3_WriteFile C J s) (s3_ReadFile C J s) (s3_DeleteFile C s) none ready (codable J)
    (\<lambda>PB PM ob. objects_satisfy J PB PM (view ob))"
proof (rule storage_origin.intro [OF s3_backend [OF s]], unfold_locales)
  fix PB :: "string \<Rightarrow> bytes \<Rightarrow> bool" and PM :: "string \<Rightarrow> FileMetadata \<Rightarrow> bool" and ob f eid x
  assume "ready ob" "objects_satisfy J PB PM (view ob)" "s3_ReadFile C J s f ob eid = Inr x"
  with read_faults [OF _ s] show "PB eid (fd_Blob x) \<and> PM eid (fd_Metadata x)"
    by (fastforce simp: s3_stored_def objects_satisfy_def split: option.splits)
next
  fix PB :: "string \<Rightarrow> bytes \<Rightarrow> bool" and PM :: "string \<Rightarrow> FileMetadata \<Rightarrow> bool" and ob f eid b m
  assume ob: "ready ob" and sat: "objects_satisfy J PB PM (view ob)" and p: "PB eid b" "PM eid m" and "codable J m"
  then obtain t where t: "mc_marshal J m = Some t" "mc_unmarshal J t = Some m" by (auto simp: codable_def split: option.splits)
  obtain ob' r where w: "s3_WriteFile C J s f eid b m ob = (ob', r)" by (cases "s3_WriteFile C J s f eid b m ob")
  note v = write_views [OF ob s w]
  have "PB e d" if "view ob' (blobKey e) = Some d" for e d
    using that v sat p(1) by (cases "e = eid") (auto simp: objects_satisfy_def)
  moreover have "PM e m'" if "view ob' (metaKey e) = Some x" "mc_unmarshal J x = Some m'" for e x m'
  proof (cases "e = eid \<and> view ob' (metaKey eid) = Some t")
    case True
    with that t p(2) show ?thesis by simp
  next
    case False
    then have "view ob' (metaKey e) = view ob (metaKey e)" using v t(1) by (cases "e = eid") (metis, simp)
    with that sat show ?thesis by (simp add: objects_satisfy_def)
  qed
  ultimately show "objects_satisfy J PB PM (view (fst (s3_WriteFile C J s f eid b m ob)))" by (auto simp: objects_satisfy_def w)
next
  fix PB :: "string \<Rightarrow> bytes \<Rightarrow> bool" and PM :: "string \<Rightarrow> FileMetadata \<Rightarrow> bool" and ob f eid
  assume ob: "ready ob" and sat: "objects_satisfy J PB PM (view ob)"
  obtain ob' r where d: "s3_DeleteFile C s f eid ob = (ob', r)" by (cases "s3_DeleteFile C s f eid ob")
  from delete_views [OF ob s d] have "\<forall>k. view ob' k = view ob k \<or> view ob' k = None" by (elim conjE)
  with sat show "objects_satisfy J PB PM (view (fst (s3_DeleteFile C s f eid ob)))"
    unfolding objects_satisfy_def d fst_conv by (metis option.distinct(1))
qed (auto simp: objects_satisfy_def)

end

section \<open>A concrete object store\<close>

text \<open>
  Buckets of objects as maps.  A fault plan says for a call on a key whether it fails, and if so
  whether its effect has taken place all the same.
\<close>

type_synonym buckets = "string \<rightharpoonup> (string \<rightharpoonup> bytes)"

datatype s3_call = PutObject string | GetObject string | RemoveObject string | StatObject string | ListObjects string | BucketCall

definition s3_change :: "(s3_call \<Rightarrow> bool option) \<Rightarrow> s3_call \<Rightarrow> string \<Rightarrow> ((string \<rightharpoonup> bytes) \<Rightarrow> (string \<rightharpoonup> bytes)) \<Rightarrow> buckets
    \<Rightarrow> buckets \<times> s3_error option" where
  "s3_change F call bucket f bs =
     (case bs bucket of
        None \<Rightarrow> (bs, Some S3Failure)
      | Some objs \<Rightarrow>
          (case F call of
             None \<Rightarrow> (bs(bucket \<mapsto> f objs), None)
           | Some done \<Rightarrow> (if done then bs(bucket \<mapsto> f objs) else bs, Some S3Failure)))"

definition map_client :: "(buckets, s3_call \<Rightarrow> bool option) s3_client" where
  "map_client = \<lparr>
     s3_put = (\<lambda>F bucket k d bs. s3_change F (PutObject k) bucket (\<lambda>objs. objs(k \<mapsto> d)) bs),
     s3_get = (\<lambda>F bucket k bs. if F (GetObject k) \<noteq> None then Inl S3Failure
        else case bs bucket of None \<Rightarrow> Inr (Inl S3Failure) | Some objs \<Rightarrow> Inr (case objs k of None \<Rightarrow> Inl NoSuchKey | Some d \<Rightarrow> Inr d)),
     s3_stat = (\<lambda>F bucket k bs. if F (StatObject k) \<noteq> None then Some S3Failure
        else case bs bucket of None \<Rightarrow> Some S3Failure | Some objs \<Rightarrow> if objs k = None then Some NoSuchKey else None),
     s3_remove = (\<lambda>F bucket k bs. s3_change F (RemoveObject k) bucket (\<lambda>objs. objs(k := None)) bs),
     s3_list = (\<lambda>F bucket p bs. if F (ListObjects p) \<noteq> None then [Inl S3Failure]
        else case bs bucket of None \<Rightarrow> [Inl S3Failure] | Some objs \<Rightarrow> map Inr (sorted_list_of_set {k \<in> dom objs. HasPrefix k p})),
     s3_bucket_exists = (\<lambda>F bucket bs. if F BucketCall \<noteq> None then Inl S3Failure else Inr (bs bucket \<noteq> None)),
     s3_make_bucket = (\<lambda>F bucket region bs. if F BucketCall \<noteq> None then (bs, Some S3Failure) else (bs(bucket \<mapsto> Map.empty), None))\<rparr>"

definition bucket_objects :: "string \<Rightarrow> buckets \<Rightarrow> string \<Rightarrow> bytes option" where
  "bucket_objects bucket bs = (case bs bucket of None \<Rightarrow> Map.empty | Some objs \<Rightarrow> objs)"

interpretation map_store: object_store map_client bucket "\<lambda>_. None" "bucket_objects bucket" "\<lambda>bs. bs bucket \<noteq> None" for bucket
  by unfold_locales (auto simp: map_client_def s3_change_def bucket_objects_def split: option.splits if_splits)

end
