(* ===== verification/S3_Properties.thy ===== *)
theory S3_Properties
  imports S3_Storage Proc_Properties
begin

text \<open>
  The S3 backend in use: it gives the same reads as the local backend, and the Processing Workers
  on it serve only what was accepted.
\<close>

section \<open>Both backends agree\<close>

fun op_codable :: "(FileMetadata \<Rightarrow> bool) \<Rightarrow> 'f store_op \<Rightarrow> bool" where
  "op_codable cod (WriteOp f eid b m) = cod m"
| "op_codable cod (DeleteOp f eid) = True"

context storage_backend
begin

text \<open>A fault-free operation determines what is read afterwards.\<close>

lemma plain_step:
  assumes "inv s" and "op_codable cod op"
  shows "rd ok (store_step wr del (map_store_op (\<lambda>_. ok) op) s) e =
    (if store_op_id op = e \<and> isValidEntityID e
     then (case op of WriteOp f eid b m \<Rightarrow> Inr \<lparr>fd_Blob = b, fd_Metadata = m\<rparr> | DeleteOp f eid \<Rightarrow> Inl ErrFileNotFound)
     else rd ok s e)"
proof (cases "store_op_id op = e")
  case False
  have "store_op_id (map_store_op (\<lambda>_. ok) op) = store_op_id op" by (cases op) simp_all
  with False show ?thesis using step_frame [OF assms(1), of "map_store_op (\<lambda>_. ok) op" e] by simp
next
  case True
  show ?thesis
  proof (cases "isValidEntityID e")
    case valid: True
    show ?thesis
    proof (cases op)
      case (WriteOp f eid b m)
      obtain s' r where w: "wr ok eid b m s = (s', r)" by (cases "wr ok eid b m s")
      have "r = None" using write_succeeds [OF assms(1), of eid m b] assms(2) WriteOp True valid w by simp
      with write_read [OF assms(1), of m ok eid b s'] w assms(2) WriteOp True valid show ?thesis by simp
    next
      case (DeleteOp f eid)
      obtain s' r where w: "del ok eid s = (s', r)" by (cases "del ok eid s")
      have "r = None" using delete_succeeds [OF assms(1), of eid] DeleteOp True valid w by simp
      with delete_read [OF assms(1), of ok eid s'] w DeleteOp True valid show ?thesis by simp
    qed
  next
    case False
    with True show ?thesis by (cases op) (simp_all add: invalid_id)
  qed
qed

end

lemma backends_agree:
  assumes A: "storage_backend wrA rdA delA okA invA cod" and B: "storage_backend wrB rdB delB okB invB cod"
    and "invA sA" and "invB sB" and "\<forall>e. rdA okA sA e = rdB okB sB e" and "\<forall>op \<in> set ops. op_codable cod op"
  shows "\<forall>e. rdA okA (fold (store_step wrA delA) (map (map_store_op (\<lambda>_. okA)) ops) sA) e =
    rdB okB (fold (store_step wrB delB) (map (map_store_op (\<lambda>_. okB)) ops) sB) e"
  using assms(3-6)
proof (induction ops arbitrary: sA sB)
  case (Cons op ops)
  let ?a = "store_step wrA delA (map_store_op (\<lambda>_. okA) op) sA" and ?b = "store_step wrB delB (map_store_op (\<lambda>_. okB) op) sB"
  have "invA ?a" "invB ?b" using storage_backend.step_inv [OF A] storage_backend.step_inv [OF B] Cons.prems by simp_all
  moreover have "rdA okA ?a e = rdB okB ?b e" for e
    using storage_backend.plain_step [OF A, of sA op e] storage_backend.plain_step [OF B, of sB op e] Cons.prems by simp
  ultimately show ?case using Cons.IH [of ?a ?b] Cons.prems by simp
qed simp

text \<open>
  The two backends are interchangeable: from stores that read the same, any sequence of writes
  and deletions without faults, valid or not, leads to stores in which every ReadFile returns the
  same blob and metadata or the same error, on the local file system and on an object store
  that keeps its documented promises.
\<close>

theorem backends_equivalent:
  assumes "object_store C (s3_bucket t) none view ready" and "storage_inv s fs" and "ready ob"
    and "\<forall>eid. fs_ReadFile J s no_faults fs eid = s3_ReadFile C J t none ob eid"
    and "\<forall>op \<in> set ops. op_codable (codable J) op"
  shows "\<forall>eid. fs_ReadFile J s no_faults (fold (store_step (WriteFile J s) (DeleteFile s)) (map (map_store_op (\<lambda>_. no_faults)) ops) fs) eid =
    s3_ReadFile C J t none (fold (store_step (s3_WriteFile C J t) (s3_DeleteFile C t)) (map (map_store_op (\<lambda>_. none)) ops) ob) eid"
  by (rule backends_agree [OF local_fs.storage_backend_axioms [of J s] object_store.s3_backend [OF assms(1) refl, of J]]) (use assms(2-5) in simp_all)

section \<open>Processing Workers on S3\<close>

text \<open>The state of the backend: the objects, and the file tree with the local copy of the templates.\<close>

definition with_tree :: "('s \<Rightarrow> 's \<times> 'e) \<Rightarrow> 's \<times> 't \<Rightarrow> ('s \<times> 't) \<times> 'e" where
  "with_tree f = (\<lambda>(st, t). case f st of (st', e) \<Rightarrow> ((st', t), e))"

definition s3_storage :: "('o, 'f) s3_client \<Rightarrow> meta_codec \<Rightarrow> S3Storage \<Rightarrow> ('o \<times> file_sys, 'f) storage_ops" where
  "s3_storage C J s = \<lparr>so_write = (\<lambda>f eid b m. with_tree (s3_WriteFile C J s f eid b m)), so_read = (\<lambda>f st eid. s3_ReadFile C J s f (fst st) eid),
     so_delete = (\<lambda>f eid. with_tree (s3_DeleteFile C s f eid)), so_tree = snd\<rparr>"

definition s3_libs ::
    "'l lru_ops \<Rightarrow> ('o, 'f) s3_client \<Rightarrow> meta_codec \<Rightarrow> S3Storage \<Rightarrow> 'k lock_ops \<Rightarrow> 's schema_lib \<Rightarrow> ('l, 'o \<times> file_sys, 'f, 'k, 's) proc_libs" where
  "s3_libs L C J s K V = \<lparr>pl_lru = L, pl_storage = s3_storage C J s, pl_locks = K, pl_aead = aes_gcm, pl_schema = V\<rparr>"

lemma with_tree_parts [simp]: "fst (fst (with_tree f x)) = fst (f (fst x))" "snd (with_tree f x) = snd (f (fst x))"
  by (simp_all add: with_tree_def split: prod.splits)

lemma with_tree_eq: "with_tree f x = (y, e) \<longleftrightarrow> f (fst x) = (fst y, e) \<and> snd y = snd x"
  by (cases x; cases y) (auto simp: with_tree_def split: prod.splits)

context storage_origin
begin

lemma with_tree_origin:
  "storage_origin (\<lambda>f eid b m. with_tree (wr f eid b m)) (\<lambda>f st eid. rd f (fst st) eid) (\<lambda>f eid. with_tree (del f eid)) ok
    (\<lambda>st. inv (fst st)) cod (\<lambda>PB PM st. sat PB PM (fst st))"
proof
  show "inv (fst s) \<Longrightarrow> inv (fst (fst (with_tree (wr f eid b m) s)))" for f eid b m and s :: "'s \<times> 't" by (simp add: write_inv)
qed (auto simp: with_tree_eq write_inv delete_inv write_frame delete_frame invalid_id write_succeeds delete_succeeds delete_read write_read
    sat_write sat_delete intro: read_fault dest: write_fail delete_fail sat_read intro: sat_mono)

end

lemma s3_libs_simps [simp]:
  "pl_lru (s3_libs L C J s K V) = L" "pl_locks (s3_libs L C J s K V) = K" "pl_aead (s3_libs L C J s K V) = aes_gcm"
  "pl_schema (s3_libs L C J s K V) = V" "so_write (pl_storage (s3_libs L C J s K V)) = (\<lambda>f eid b m. with_tree (s3_WriteFile C J s f eid b m))"
  "so_read (pl_storage (s3_libs L C J s K V)) = (\<lambda>f st eid. s3_ReadFile C J s f (fst st) eid)"
  "so_delete (pl_storage (s3_libs L C J s K V)) = (\<lambda>f eid. with_tree (s3_DeleteFile C s f eid))"
  by (simp_all add: s3_libs_def s3_storage_def)

lemma s3_system:
  assumes "lru_spec L items cap lok" and "object_store C (s3_bucket s) none view ready"
  shows "proc_system (s3_libs L C J s K V) items cap lok none (\<lambda>st. ready (fst st)) (codable J) (\<lambda>PB PM st. objects_satisfy J PB PM (view (fst st)))"
  unfolding proc_system_def
  using assms storage_origin.with_tree_origin [OF object_store.s3_origin [OF assms(2) refl]] aes.gcm_cipher_axioms by simp

interpretation s3_workers: proc_system "s3_libs list_lru_ops map_client J s K V" ll_items ll_cap list_lru_ok "\<lambda>_. None"
    "\<lambda>st. fst st (s3_bucket s) \<noteq> None" "codable J" "\<lambda>PB PM st. objects_satisfy J PB PM (bucket_objects (s3_bucket s) (fst st))" for J s K V
  by (rule s3_system [OF llru.lru_spec_axioms map_store.object_store_axioms])

text \<open>
  C17. The integrity of the data served does not depend on the backend: on an object store that keeps
  its documented promises, with any number of workers, any requests, failing and half-done calls,
  restarts and promised writes in any order, a GET returns only payloads that were accepted for
  the entity.
\<close>

theorem s3_served_payload_was_accepted:
  assumes "lru_spec L items cap lok" and "object_store C (s3_bucket s) none view ready"
    and "system_start L (\<lambda>st. ready (fst st)) (\<lambda>PB PM st. objects_satisfy J PB PM (view (fst st))) key start"
    and "(sys_step (s3_libs L C J s K V) (codable J))\<^sup>*\<^sup>* start (srvs, st, lgs)" and "no_splice aes_gcm key lgs"
    and "proc_Process (s3_libs L C J s K V) env req (srvs i) st = (srv', st', Inr resp)" and "GetOperation req = ''GET''"
  shows "\<exists>g \<in> set lgs. lg_entity g = request_entity req \<and> lg_payload g = rs_Result resp"
  using proc_system.served_payload [OF s3_system [OF assms(1,2), of J K V], of key start] assms(3-7) by simp

section \<open>Witnesses\<close>

definition sample_s3 :: S3Storage where
  "sample_s3 = \<lparr>s3_bucket = ''db'', s3_localTemplatesDir = [], s3_localTemplatesDirOnce = False, s3_localTemplatesDirErr = False\<rparr>"

definition sample_buckets :: buckets where
  "sample_buckets = [''db'' \<mapsto> Map.empty]"

lemma sample_s3_reads: "s3_ReadFile map_client J sample_s3 f sample_buckets eid \<noteq> Inr x"
  "s3_ReadFile map_client J sample_s3 (\<lambda>_. None) sample_buckets eid = (if isValidEntityID eid then Inl ErrFileNotFound else Inl ErrInvalidID)"
  using map_store.read_faults [of sample_buckets "''db''" sample_s3 J f eid x] map_store.read_none [of sample_buckets "''db''" sample_s3 J eid]
  by (auto simp: sample_s3_def sample_buckets_def s3_stored_def bucket_objects_def)

theorem backends_equivalent_witness:
  "s3_ReadFile map_client sample_codec sample_s3 (\<lambda>_. None) (fold (store_step (s3_WriteFile map_client sample_codec sample_s3) (s3_DeleteFile map_client sample_s3))
     (map (map_store_op (\<lambda>_ _. None)) [WriteOp () ''chat_1'' ''old'' (sample_meta ''t1'' 1), WriteOp () ''chat_1'' ''new'' (sample_meta ''t2'' 2)]) sample_buckets) ''chat_1'' =
   fs_ReadFile sample_codec sample_store no_faults (fold (store_step (WriteFile sample_codec sample_store) (DeleteFile sample_store))
     (map (map_store_op (\<lambda>_. no_faults)) [WriteOp () ''chat_1'' ''old'' (sample_meta ''t1'' 1), WriteOp () ''chat_1'' ''new'' (sample_meta ''t2'' 2)]) sample_tree) ''chat_1''"
proof -
  have "\<forall>eid. fs_ReadFile sample_codec sample_store no_faults sample_tree eid = s3_ReadFile map_client sample_codec sample_s3 (\<lambda>_. None) sample_buckets eid"
    by (simp add: ReadFile_stored [OF sample_inv] stored_no_blob [OF sample_empty] sample_s3_reads)
  moreover have "\<forall>op \<in> set [WriteOp () ''chat_1'' ''old'' (sample_meta ''t1'' 1), WriteOp () ''chat_1'' ''new'' (sample_meta ''t2'' 2)].
      op_codable (codable sample_codec) op"
    using sample_codable by simp
  ultimately show ?thesis
    using backends_equivalent [OF map_store.object_store_axioms sample_inv, where t = sample_s3 and ob = sample_buckets and J = sample_codec
        and ops = "[WriteOp () ''chat_1'' ''old'' (sample_meta ''t1'' 1), WriteOp () ''chat_1'' ''new'' (sample_meta ''t2'' 2)]"]
    by (simp add: sample_s3_def sample_buckets_def)
qed

abbreviation s3_sample_libs :: "meta_codec \<Rightarrow> (list_lru, buckets \<times> file_sys, s3_call \<Rightarrow> bool option, unit, nat) proc_libs" where
  "s3_sample_libs J \<equiv> s3_libs list_lru_ops map_client J sample_s3 free_locks sample_lib"

definition s3_sample_env :: "(s3_call \<Rightarrow> bool option) handler_env" where
  "s3_sample_env = \<lparr>he_first = 10, he_second = 11, he_stamp = 12, he_nonce = Some (replicate 12 CHR ''n''),
     he_read = (\<lambda>_. None), he_write = (\<lambda>_. None), he_templates = no_faults\<rparr>"

lemma s3_sample_env_simps [simp]:
  "he_nonce s3_sample_env = Some (replicate 12 CHR ''n'')" "he_first s3_sample_env = 10" "he_second s3_sample_env = 11"
  by (simp_all add: s3_sample_env_def)

lemma s3_sample_put:
  assumes "p \<noteq> []"
  shows "\<exists>srv1 job. processPUT (s3_sample_libs J) s3_sample_env (sample_request ''PUT'' p) ''chat_1'' sample_server (sample_buckets, fs) =
      (srv1, (sample_buckets, fs), Inr (response ''OK'' [] ''1'')) \<and> ps_pendingWrites srv1 = [job] \<and>
      wj_metadata job = put_metadata s3_sample_env (sample_request ''PUT'' p) (ps_worker sample_server) (sample_enc p) 1"
proof -
  have one: "Itoa 1 = ''1''" "fst (Atoi []) = 0" by code_simp+
  have "GetVersion list_lru_ops (he_first s3_sample_env) sample_cache ''chat_1'' = []"
    using llru.GetVersion_value [OF sample_cache_empty(1)] sample_cache_empty(2) by simp
  then have "next_version (s3_sample_libs J) s3_sample_env sample_server (sample_buckets, fs) ''chat_1'' = 1"
    using one sample_s3_reads(1) [of J _ "''chat_1''"] by (simp add: next_version_def split: sum.splits)
  then show ?thesis
    using assms sample_key_size(2) sample_enc_ok [of p] one
    by (simp add: processPUT_def put_validate_def Let_def next_version_lock)
qed

lemma const_codable: "codable (const_codec m) m"
  by (simp add: codable_def const_codec_def)

theorem s3_served_payload_was_accepted_witness:
  "\<exists>J srvs lgs resp. (sys_step (s3_sample_libs J) (codable J))\<^sup>*\<^sup>* (\<lambda>_. sample_server, (sample_buckets, []), []) (srvs, (sample_buckets, []), lgs) \<and>
     snd (proc_Process (s3_sample_libs J) s3_sample_env (sample_request ''GET'' []) (srvs 0) (sample_buckets, [])) = ((sample_buckets, []), Inr resp) \<and>
     (\<exists>g \<in> set lgs. lg_entity g = ''chat_1'' \<and> lg_payload g = rs_Result resp)"
proof -
  let ?J = "const_codec (put_metadata s3_sample_env (sample_request ''PUT'' ''{}'') (ps_worker sample_server) (sample_enc ''{}'') 1)"
  let ?st = "(sample_buckets, [] :: file_sys)" and ?Lib = "s3_sample_libs ?J"
  obtain srv1 job where cput: "processPUT ?Lib s3_sample_env (sample_request ''PUT'' ''{}'') ''chat_1'' sample_server ?st = (srv1, ?st, Inr (response ''OK'' [] ''1''))"
    and pend: "ps_pendingWrites srv1 = [job]"
    and job: "wj_metadata job = put_metadata s3_sample_env (sample_request ''PUT'' ''{}'') (ps_worker sample_server) (sample_enc ''{}'') 1"
    using s3_sample_put [of "''{}''" ?J "[]"] by blast
  have meta: "codable ?J (wj_metadata job)" unfolding job by (rule const_codable)
  obtain srv' st' r where count: "count_request list_lru_ops ''PUT'' (srv1, ?st, Inr (response ''OK'' [] ''1'')) = (srv', st', r)"
    by (metis prod_cases3)
  note frame = count_request_frame [OF count]
  have put: "proc_Process ?Lib s3_sample_env (sample_request ''PUT'' ''{}'') sample_server ?st = (srv', ?st, Inr (response ''OK'' [] ''1''))"
    using Process_dispatch(2) [OF sample_addressable, of "''PUT''" "''{}''" ?Lib s3_sample_env sample_server ?st] cput count frame(5,6) by simp
  have same: "ps_cache srv' = ps_cache srv1" and pend': "ps_pendingWrites srv' = [job]" using frame pend by simp_all
  let ?g = "\<lparr>lg_entity = ''chat_1'', lg_nonce = replicate 12 CHR ''n'', lg_payload = ''{}''\<rparr>"
  let ?srvs = "(\<lambda>_ :: nat. sample_server)(0 := srv')"
  have "sys_step ?Lib (codable ?J) (\<lambda>_. sample_server, ?st, []) (?srvs, ?st, [] @ logged s3_sample_env (sample_request ''PUT'' ''{}'') (Inr (response ''OK'' [] ''1'')))"
    using put pend' meta by (intro sys_step.serve) (auto simp: NonceSize_def)
  then have reach: "(sys_step ?Lib (codable ?J))\<^sup>*\<^sup>* (\<lambda>_. sample_server, ?st, []) (?srvs, ?st, [?g])"
    by (simp add: logged_def)
  have "c_defaultTTL sample_cache = 0" by (simp add: sample_cache_def NewCache_def list_lru_ops_def)
  then have live: "\<not> expired_at (he_first s3_sample_env) (set_expiry (he_second s3_sample_env) (ps_cache sample_server))"
    by (simp add: expired_at_def set_expiry_def)
  have get: "snd (proc_Process ?Lib s3_sample_env (sample_request ''GET'' []) srv' ?st) = (?st, Inr (response ''OK'' ''{}'' ''1''))"
    using s3_workers.GET_after_PUT [OF _ cput live same] sample_cache_empty(1)
      Process_dispatch(1) [OF sample_addressable, of "''GET''" "[]" ?Lib s3_sample_env srv' ?st]
    by (simp add: response_def)
  then obtain srv2 where g2: "proc_Process ?Lib s3_sample_env (sample_request ''GET'' []) (?srvs 0) ?st = (srv2, ?st, Inr (response ''OK'' ''{}'' ''1''))"
    by (metis fun_upd_same prod.collapse)
  have splice: "no_splice aes_gcm sample_key [?g]" by (rule no_splice_single) (simp_all add: sample_key_size NonceSize_def)
  have start: "system_start list_lru_ops (\<lambda>st. fst st (s3_bucket sample_s3) \<noteq> None)
      (\<lambda>PB PM st. objects_satisfy ?J PB PM (bucket_objects (s3_bucket sample_s3) (fst st))) sample_key (\<lambda>_. sample_server, ?st, [])"
    using sample_cache_new by (auto simp: system_start_def sample_s3_def sample_buckets_def objects_satisfy_def bucket_objects_def)
  from s3_served_payload_was_accepted [where i = 0, OF llru.lru_spec_axioms map_store.object_store_axioms start reach splice g2] reach get show ?thesis
    by (intro exI [of _ ?J] exI [of _ ?srvs] exI [of _ "[?g]"] exI [of _ "response ''OK'' ''{}'' ''1''"] conjI) simp_all
qed

end
