(* ===== verification/Memory_Locks.thy ===== *)
theory Memory_Locks
  imports File_Locks
begin

text \<open>
  The in-process locks of pkg/fs/memory_lock.go.  A \<open>memLock\<close> is shared by pointer, so the locks live
  in a heap.  The mutex of the manager is held for short sections without waiting: each is one
  step.  Between them other goroutines run, so an operation is several steps, and a goroutine is
  described by where it stands.
\<close>

section \<open>State\<close>

record memLock =
  mk_mu :: bool
  mk_held :: bool

record MemoryLockManager =
  mlm_locks :: "string \<rightharpoonup> nat"
  mlm_heap :: "nat \<Rightarrow> memLock"
  mlm_next :: nat

definition free_lock :: memLock where
  "free_lock = \<lparr>mk_mu = False, mk_held = False\<rparr>"

definition NewMemoryLockManager :: MemoryLockManager where
  "NewMemoryLockManager = \<lparr>mlm_locks = Map.empty, mlm_heap = (\<lambda>_. free_lock), mlm_next = 0\<rparr>"

section \<open>Sections of the operations\<close>

definition mem_get :: "string \<Rightarrow> MemoryLockManager \<Rightarrow> MemoryLockManager \<times> nat" where
  "mem_get lid m =
     (case mlm_locks m lid of
        Some l \<Rightarrow> (m, l)
      | None \<Rightarrow> (m\<lparr>mlm_locks := (mlm_locks m)(lid \<mapsto> mlm_next m), mlm_heap := (mlm_heap m)(mlm_next m := free_lock),
                   mlm_next := Suc (mlm_next m)\<rparr>, mlm_next m))"

text \<open>\<open>l.mu.Lock()\<close> and \<open>l.mu.TryLock()\<close>: None when the mutex is taken.\<close>

definition mutex_lock :: "nat \<Rightarrow> MemoryLockManager \<Rightarrow> MemoryLockManager option" where
  "mutex_lock l m =
     (if mk_mu (mlm_heap m l) then None else Some (m\<lparr>mlm_heap := (mlm_heap m)(l := (mlm_heap m l)\<lparr>mk_mu := True\<rparr>)\<rparr>))"

text \<open>\<open>l.mu.Unlock()\<close>: None is the fatal error of unlocking a free mutex.\<close>

definition mutex_unlock :: "nat \<Rightarrow> MemoryLockManager \<Rightarrow> MemoryLockManager option" where
  "mutex_unlock l m =
     (if mk_mu (mlm_heap m l) then Some (m\<lparr>mlm_heap := (mlm_heap m)(l := (mlm_heap m l)\<lparr>mk_mu := False\<rparr>)\<rparr>) else None)"

definition set_held :: "nat \<Rightarrow> bool \<Rightarrow> MemoryLockManager \<Rightarrow> MemoryLockManager" where
  "set_held l b m = m\<lparr>mlm_heap := (mlm_heap m)(l := (mlm_heap m l)\<lparr>mk_held := b\<rparr>)\<rparr>"

text \<open>The section of \<open>ReleaseLock\<close> under the mutex of the manager: the lock to unlock afterwards, if any.\<close>

definition begin_release :: "string \<Rightarrow> MemoryLockManager \<Rightarrow> MemoryLockManager \<times> nat option" where
  "begin_release lid m =
     (case mlm_locks m lid of
        None \<Rightarrow> (m, None)
      | Some l \<Rightarrow> if mk_held (mlm_heap m l) then (set_held l False m, Some l) else (m, None))"

section \<open>Operations\<close>

text \<open>The operations as a goroutine runs them when no other one interferes.\<close>

definition mem_AcquireLock :: "string \<Rightarrow> LockType \<Rightarrow> MemoryLockManager \<Rightarrow> MemoryLockManager outcome" where
  "mem_AcquireLock lid lockType m =
     (let (m1, l) = mem_get lid m in
      case mutex_lock l m1 of None \<Rightarrow> Blocks | Some m2 \<Rightarrow> Done (set_held l True m2))"

definition mem_TryAcquireLock :: "string \<Rightarrow> LockType \<Rightarrow> MemoryLockManager \<Rightarrow> MemoryLockManager \<times> lock_error option" where
  "mem_TryAcquireLock lid lockType m =
     (let (m1, l) = mem_get lid m in
      case mutex_lock l m1 of None \<Rightarrow> (m1, Some ErrAlreadyLocked) | Some m2 \<Rightarrow> (set_held l True m2, None))"

definition mem_ReleaseLock :: "string \<Rightarrow> MemoryLockManager \<Rightarrow> MemoryLockManager option" where
  "mem_ReleaseLock lid m =
     (case begin_release lid m of (m1, None) \<Rightarrow> Some m1 | (m1, Some l) \<Rightarrow> mutex_unlock l m1)"

text \<open>\<open>ReleaseAll\<close> unlocks every held lock of the map and empties the map.\<close>

definition mem_ReleaseAll :: "MemoryLockManager \<Rightarrow> MemoryLockManager" where
  "mem_ReleaseAll m =
     m\<lparr>mlm_locks := Map.empty,
       mlm_heap := (\<lambda>l. if l \<in> ran (mlm_locks m) \<and> mk_held (mlm_heap m l) then (mlm_heap m l)\<lparr>mk_held := False, mk_mu := False\<rparr> else mlm_heap m l)\<rparr>"

section \<open>Goroutines\<close>

datatype goroutine =
    Idle
  | Queued bool string nat
  | Entered string nat
  | Holding string nat
  | Releasing nat

type_synonym mem_state = "MemoryLockManager \<times> (nat \<Rightarrow> goroutine)"

text \<open>
  \<open>request\<close> is the call of \<open>get\<close> in \<open>AcquireLock\<close> (or \<open>TryAcquireLock\<close>, with True), \<open>enter\<close> the mutex of the
  entity, \<open>refuse\<close> the failing \<open>TryLock\<close>, \<open>mark\<close> the flag.  A goroutine releases only a lock it marks.
  \<open>wipe\<close> is \<open>ReleaseAll\<close>, where the run allows it.
\<close>

inductive mem_step :: "bool \<Rightarrow> mem_state \<Rightarrow> mem_state \<Rightarrow> bool" for allow where
  request: "gs t = Idle \<Longrightarrow> mem_get lid m = (m', l) \<Longrightarrow> mem_step allow (m, gs) (m', gs(t := Queued nb lid l))"
| enter: "gs t = Queued nb lid l \<Longrightarrow> mutex_lock l m = Some m' \<Longrightarrow> mem_step allow (m, gs) (m', gs(t := Entered lid l))"
| refuse: "gs t = Queued True lid l \<Longrightarrow> mutex_lock l m = None \<Longrightarrow> mem_step allow (m, gs) (m, gs(t := Idle))"
| mark: "gs t = Entered lid l \<Longrightarrow> mem_step allow (m, gs) (set_held l True m, gs(t := Holding lid l))"
| release: "gs t = Holding lid l0 \<Longrightarrow> begin_release lid m = (m', r) \<Longrightarrow>
    mem_step allow (m, gs) (m', gs(t := (case r of None \<Rightarrow> Idle | Some l \<Rightarrow> Releasing l)))"
| unlock: "gs t = Releasing l \<Longrightarrow> mutex_unlock l m = Some m' \<Longrightarrow> mem_step allow (m, gs) (m', gs(t := Idle))"
| wipe: "allow \<Longrightarrow> gs t = Idle \<Longrightarrow> mem_step allow (m, gs) (mem_ReleaseAll m, gs)"

definition mem_start :: mem_state where
  "mem_start = (NewMemoryLockManager, \<lambda>_. Idle)"

inductive_cases mem_stepE: "mem_step allow s s'"

section \<open>Invariant\<close>

text \<open>The mutex that a goroutine has locked, and the lock that it refers to through the map.\<close>

fun owns :: "goroutine \<Rightarrow> nat option" where
  "owns (Entered lid l) = Some l"
| "owns (Holding lid l) = Some l"
| "owns (Releasing l) = Some l"
| "owns _ = None"

fun refers :: "goroutine \<Rightarrow> (string \<times> nat) option" where
  "refers (Queued nb lid l) = Some (lid, l)"
| "refers (Entered lid l) = Some (lid, l)"
| "refers (Holding lid l) = Some (lid, l)"
| "refers _ = None"

fun marks :: "goroutine \<Rightarrow> nat option" where
  "marks (Holding lid l) = Some l"
| "marks _ = None"

definition mem_inv :: "mem_state \<Rightarrow> bool" where
  "mem_inv s \<longleftrightarrow>
     (\<forall>lid l. mlm_locks (fst s) lid = Some l \<longrightarrow> l < mlm_next (fst s)) \<and>
     (\<forall>a b l. mlm_locks (fst s) a = Some l \<and> mlm_locks (fst s) b = Some l \<longrightarrow> a = b) \<and>
     (\<forall>t lid l. refers (snd s t) = Some (lid, l) \<longrightarrow> mlm_locks (fst s) lid = Some l) \<and>
     (\<forall>t l. owns (snd s t) = Some l \<longrightarrow> l < mlm_next (fst s) \<and> mk_mu (mlm_heap (fst s) l)) \<and>
     (\<forall>t u l. owns (snd s t) = Some l \<and> owns (snd s u) = Some l \<longrightarrow> t = u) \<and>
     (\<forall>l. mk_held (mlm_heap (fst s) l) \<longleftrightarrow> (\<exists>t. marks (snd s t) = Some l))"

lemma marks_owns: "marks g = Some l \<Longrightarrow> owns g = Some l"
  by (cases g) simp_all

lemma mem_start_inv: "mem_inv mem_start"
  by (simp add: mem_inv_def mem_start_def NewMemoryLockManager_def free_lock_def)

lemma mem_invD:
  assumes "mem_inv (m, gs)"
  shows "mlm_locks m lid = Some l \<Longrightarrow> l < mlm_next m"
    "mlm_locks m a = Some l \<Longrightarrow> mlm_locks m b = Some l \<Longrightarrow> a = b"
    "refers (gs t) = Some (lid, l) \<Longrightarrow> mlm_locks m lid = Some l"
    "owns (gs t) = Some l \<Longrightarrow> l < mlm_next m"
    "owns (gs t) = Some l \<Longrightarrow> mk_mu (mlm_heap m l)"
    "owns (gs t) = Some l \<Longrightarrow> owns (gs u) = Some l \<Longrightarrow> t = u"
    "mk_held (mlm_heap m l) \<longleftrightarrow> (\<exists>t. marks (gs t) = Some l)"
  using assms unfolding mem_inv_def by auto

lemma mem_invI:
  assumes "\<And>lid l. mlm_locks m lid = Some l \<Longrightarrow> l < mlm_next m"
    and "\<And>a b l. mlm_locks m a = Some l \<Longrightarrow> mlm_locks m b = Some l \<Longrightarrow> a = b"
    and "\<And>t lid l. refers (gs t) = Some (lid, l) \<Longrightarrow> mlm_locks m lid = Some l"
    and "\<And>t l. owns (gs t) = Some l \<Longrightarrow> l < mlm_next m \<and> mk_mu (mlm_heap m l)"
    and "\<And>t u l. owns (gs t) = Some l \<Longrightarrow> owns (gs u) = Some l \<Longrightarrow> t = u"
    and "\<And>l. mk_held (mlm_heap m l) \<longleftrightarrow> (\<exists>t. marks (gs t) = Some l)"
  shows "mem_inv (m, gs)"
  using assms unfolding mem_inv_def by auto

text \<open>A goroutine that neither owns nor marks anything new moves.\<close>

lemma marks_upd: "marks g = marks (gs t) \<Longrightarrow> (\<exists>u. marks ((gs(t := g)) u) = Some l) \<longleftrightarrow> (\<exists>u. marks (gs u) = Some l)"
  by (metis fun_upd_apply)

lemma request_inv:
  assumes inv: "mem_inv (m, gs)" and "gs t = Idle" and get: "mem_get lid m = (m', l)"
  shows "mem_inv (m', gs(t := Queued nb lid l))"
proof (rule mem_invI)
  note D = mem_invD [OF inv]
  have step: "m' = m \<and> mlm_locks m lid = Some l \<or> mlm_locks m lid = None \<and> l = mlm_next m \<and> mlm_locks m' = (mlm_locks m)(lid \<mapsto> l) \<and>
      mlm_heap m' = (mlm_heap m)(l := free_lock) \<and> mlm_next m' = Suc l"
    using get by (auto simp: mem_get_def split: option.splits)
  show "l' < mlm_next m'" if "mlm_locks m' lid' = Some l'" for lid' l'
    using step that D(1) [of lid' l'] by (auto split: if_splits)
  show "a = b" if "mlm_locks m' a = Some l'" "mlm_locks m' b = Some l'" for a b l'
    using step that D(1) [of a l'] D(1) [of b l'] D(2) [of a l' b] by (auto split: if_splits)
  show "mlm_locks m' lid' = Some l'" if "refers ((gs(t := Queued nb lid l)) u) = Some (lid', l')" for u lid' l'
    using step that D(3) [of u lid' l'] by (auto split: if_splits)
  show "l' < mlm_next m' \<and> mk_mu (mlm_heap m' l')" if "owns ((gs(t := Queued nb lid l)) u) = Some l'" for u l'
    using step that D(4,5) [of u l'] by (auto split: if_splits)
  show "u = v" if "owns ((gs(t := Queued nb lid l)) u) = Some l'" "owns ((gs(t := Queued nb lid l)) v) = Some l'" for u v l'
    using that D(6) [of u l' v] by (auto split: if_splits)
  have "\<not> (\<exists>u. marks (gs u) = Some (mlm_next m))" using D(4) by (auto dest: marks_owns)
  then show "mk_held (mlm_heap m' l') \<longleftrightarrow> (\<exists>u. marks ((gs(t := Queued nb lid l)) u) = Some l')" for l'
    using step D(7) [of l'] marks_upd [of "Queued nb lid l" gs t l'] assms(2) by (auto simp: free_lock_def split: if_splits)
qed

lemma enter_inv:
  assumes inv: "mem_inv (m, gs)" and "gs t = Queued nb lid l" and lock: "mutex_lock l m = Some m'"
  shows "mem_inv (m', gs(t := Entered lid l))"
proof (rule mem_invI)
  note D = mem_invD [OF inv]
  have free: "\<not> mk_mu (mlm_heap m l)" and step: "mlm_locks m' = mlm_locks m" "mlm_next m' = mlm_next m"
    "mlm_heap m' = (mlm_heap m)(l := (mlm_heap m l)\<lparr>mk_mu := True\<rparr>)"
    using lock by (auto simp: mutex_lock_def split: if_splits)
  have here: "mlm_locks m lid = Some l" using D(3) [of t lid l] assms(2) by simp
  have none: "owns (gs u) \<noteq> Some l" for u using D(5) [of u l] free by auto
  show "l' < mlm_next m'" if "mlm_locks m' lid' = Some l'" for lid' l' using that D(1) by (simp add: step)
  show "a = b" if "mlm_locks m' a = Some l'" "mlm_locks m' b = Some l'" for a b l' using that D(2) by (simp add: step)
  show "mlm_locks m' lid' = Some l'" if "refers ((gs(t := Entered lid l)) u) = Some (lid', l')" for u lid' l'
    using that here D(3) by (auto simp: step split: if_splits)
  show "l' < mlm_next m' \<and> mk_mu (mlm_heap m' l')" if "owns ((gs(t := Entered lid l)) u) = Some l'" for u l'
    using that here D(1) D(4,5) [of u l'] by (auto simp: step split: if_splits)
  show "u = v" if "owns ((gs(t := Entered lid l)) u) = Some l'" "owns ((gs(t := Entered lid l)) v) = Some l'" for u v l'
    using that none D(6) [of u l' v] by (auto split: if_splits)
  show "mk_held (mlm_heap m' l') \<longleftrightarrow> (\<exists>u. marks ((gs(t := Entered lid l)) u) = Some l')" for l'
    using D(7) [of l'] marks_upd [of "Entered lid l" gs t l'] assms(2) by (cases "l' = l") (simp_all add: step)
qed

lemma mark_inv:
  assumes inv: "mem_inv (m, gs)" and "gs t = Entered lid l"
  shows "mem_inv (set_held l True m, gs(t := Holding lid l))"
proof (rule mem_invI)
  note D = mem_invD [OF inv]
  have same: "owns ((gs(t := Holding lid l)) u) = owns (gs u)" "refers ((gs(t := Holding lid l)) u) = refers (gs u)" for u
    using assms(2) by simp_all
  show "l' < mlm_next (set_held l True m)" if "mlm_locks (set_held l True m) lid' = Some l'" for lid' l'
    using that D(1) by (simp add: set_held_def)
  show "a = b" if "mlm_locks (set_held l True m) a = Some l'" "mlm_locks (set_held l True m) b = Some l'" for a b l'
    using that D(2) by (simp add: set_held_def)
  show "mlm_locks (set_held l True m) lid' = Some l'" if "refers ((gs(t := Holding lid l)) u) = Some (lid', l')" for u lid' l'
    using that D(3) unfolding same by (simp add: set_held_def)
  show "l' < mlm_next (set_held l True m) \<and> mk_mu (mlm_heap (set_held l True m) l')" if "owns ((gs(t := Holding lid l)) u) = Some l'" for u l'
    using that D(4,5) [of u l'] unfolding same by (auto simp: set_held_def)
  show "u = v" if "owns ((gs(t := Holding lid l)) u) = Some l'" "owns ((gs(t := Holding lid l)) v) = Some l'" for u v l'
    using that D(6) unfolding same by blast
  have "(\<exists>u. marks ((gs(t := Holding lid l)) u) = Some l') \<longleftrightarrow> l' = l \<or> (\<exists>u. marks (gs u) = Some l')" for l'
    using assms(2) by (auto split: if_splits) (metis marks.simps(4) option.distinct(1))+
  then show "mk_held (mlm_heap (set_held l True m) l') \<longleftrightarrow> (\<exists>u. marks ((gs(t := Holding lid l)) u) = Some l')" for l'
    using D(7) [of l'] by (auto simp: set_held_def)
qed

lemma begin_release_held:
  assumes inv: "mem_inv (m, gs)" and "gs t = Holding lid l0"
  shows "begin_release lid m = (set_held l0 False m, Some l0)"
proof -
  have "mlm_locks m lid = Some l0" using mem_invD(3) [OF inv, of t lid l0] assms(2) by simp
  moreover have "mk_held (mlm_heap m l0)" using mem_invD(7) [OF inv, of l0] assms(2) by (metis marks.simps(1))
  ultimately show ?thesis by (simp add: begin_release_def)
qed

lemma release_inv:
  assumes inv: "mem_inv (m, gs)" and "gs t = Holding lid l"
  shows "mem_inv (set_held l False m, gs(t := Releasing l))"
proof (rule mem_invI)
  note D = mem_invD [OF inv]
  have same: "owns ((gs(t := Releasing l)) u) = owns (gs u)" for u using assms(2) by simp
  show "l' < mlm_next (set_held l False m)" if "mlm_locks (set_held l False m) lid' = Some l'" for lid' l'
    using that D(1) by (simp add: set_held_def)
  show "a = b" if "mlm_locks (set_held l False m) a = Some l'" "mlm_locks (set_held l False m) b = Some l'" for a b l'
    using that D(2) by (simp add: set_held_def)
  show "mlm_locks (set_held l False m) lid' = Some l'" if "refers ((gs(t := Releasing l)) u) = Some (lid', l')" for u lid' l'
    using that D(3) by (auto simp: set_held_def split: if_splits)
  show "l' < mlm_next (set_held l False m) \<and> mk_mu (mlm_heap (set_held l False m) l')" if "owns ((gs(t := Releasing l)) u) = Some l'" for u l'
    using that D(4,5) [of u l'] unfolding same by (auto simp: set_held_def)
  show "u = v" if "owns ((gs(t := Releasing l)) u) = Some l'" "owns ((gs(t := Releasing l)) v) = Some l'" for u v l'
    using that D(6) unfolding same by blast
  have other: "marks (gs u) \<noteq> Some l" if "u \<noteq> t" for u
    using D(6) [of u l t] that assms(2) by (auto dest: marks_owns)
  have "(\<exists>u. marks ((gs(t := Releasing l)) u) = Some l') \<longleftrightarrow> l' \<noteq> l \<and> (\<exists>u. marks (gs u) = Some l')" for l'
    using other assms(2) by (auto split: if_splits) (metis marks.simps(1) option.inject)
  then show "mk_held (mlm_heap (set_held l False m) l') \<longleftrightarrow> (\<exists>u. marks ((gs(t := Releasing l)) u) = Some l')" for l'
    using D(7) [of l'] by (auto simp: set_held_def)
qed

lemma unlock_inv:
  assumes inv: "mem_inv (m, gs)" and "gs t = Releasing l" and unlock: "mutex_unlock l m = Some m'"
  shows "mem_inv (m', gs(t := Idle))"
proof (rule mem_invI)
  note D = mem_invD [OF inv]
  have step: "mlm_locks m' = mlm_locks m" "mlm_next m' = mlm_next m" "mlm_heap m' = (mlm_heap m)(l := (mlm_heap m l)\<lparr>mk_mu := False\<rparr>)"
    using unlock by (auto simp: mutex_unlock_def split: if_splits)
  have other: "owns (gs u) \<noteq> Some l" if "u \<noteq> t" for u using D(6) [of u l t] that assms(2) by auto
  show "l' < mlm_next m'" if "mlm_locks m' lid' = Some l'" for lid' l' using that D(1) by (simp add: step)
  show "a = b" if "mlm_locks m' a = Some l'" "mlm_locks m' b = Some l'" for a b l' using that D(2) by (simp add: step)
  show "mlm_locks m' lid' = Some l'" if "refers ((gs(t := Idle)) u) = Some (lid', l')" for u lid' l'
    using that D(3) by (auto simp: step split: if_splits)
  show "l' < mlm_next m' \<and> mk_mu (mlm_heap m' l')" if "owns ((gs(t := Idle)) u) = Some l'" for u l'
    using that other [of u] D(4,5) [of u l'] by (auto simp: step split: if_splits)
  show "u = v" if "owns ((gs(t := Idle)) u) = Some l'" "owns ((gs(t := Idle)) v) = Some l'" for u v l'
    using that D(6) [of u l' v] by (auto split: if_splits)
  show "mk_held (mlm_heap m' l') \<longleftrightarrow> (\<exists>u. marks ((gs(t := Idle)) u) = Some l')" for l'
    using D(7) [of l'] marks_upd [of Idle gs t l'] assms(2) by (cases "l' = l") (simp_all add: step)
qed

lemma refuse_inv:
  assumes inv: "mem_inv (m, gs)" and "gs t = Queued nb lid l"
  shows "mem_inv (m, gs(t := Idle))"
proof (rule mem_invI)
  note D = mem_invD [OF inv]
  show "mlm_locks m lid' = Some l'" if "refers ((gs(t := Idle)) u) = Some (lid', l')" for u lid' l'
    using that D(3) by (auto split: if_splits)
  show "l' < mlm_next m \<and> mk_mu (mlm_heap m l')" if "owns ((gs(t := Idle)) u) = Some l'" for u l'
    using that D(4,5) [of u l'] by (auto split: if_splits)
  show "u = v" if "owns ((gs(t := Idle)) u) = Some l'" "owns ((gs(t := Idle)) v) = Some l'" for u v l'
    using that D(6) [of u l' v] by (auto split: if_splits)
  show "mk_held (mlm_heap m l') \<longleftrightarrow> (\<exists>u. marks ((gs(t := Idle)) u) = Some l')" for l'
    using D(7) [of l'] marks_upd [of Idle gs t l'] assms(2) by simp
qed (use mem_invD(1,2) [OF inv] in blast)+

lemma mem_step_inv: "mem_step False s s' \<Longrightarrow> mem_inv s \<Longrightarrow> mem_inv s'"
proof (induction rule: mem_step.induct)
  case (release gs t lid l0 m m' r)
  with begin_release_held [OF release(3,1)] release_inv [OF release(3,1)] show ?case by simp
qed (simp_all add: request_inv enter_inv refuse_inv mark_inv unlock_inv)

lemma mem_reach_inv: "(mem_step False)\<^sup>*\<^sup>* mem_start s \<Longrightarrow> mem_inv s"
  by (induction rule: rtranclp_induct) (auto simp: mem_start_inv dest: mem_step_inv)

section \<open>Uninterrupted operations\<close>

lemma queued_run:
  assumes "gs t = Queued b lid l" and "mutex_lock l m = Some m'"
  shows "(mem_step allow)\<^sup>*\<^sup>* (m, gs) (set_held l True m', gs(t := Holding lid l))"
proof -
  have "mem_step allow (m, gs) (m', gs(t := Entered lid l))" using assms by (rule mem_step.enter)
  moreover have "mem_step allow (m', gs(t := Entered lid l)) (set_held l True m', (gs(t := Entered lid l))(t := Holding lid l))"
    by (rule mem_step.mark) simp
  ultimately show ?thesis by (simp add: r_into_rtranclp rtranclp.rtrancl_into_rtrancl)
qed

lemma acquire_run:
  assumes "gs t = Idle" and "mem_get lid m = (m1, l)" and "mutex_lock l m1 = Some m2"
  shows "(mem_step allow)\<^sup>*\<^sup>* (m, gs) (set_held l True m2, gs(t := Holding lid l))"
proof -
  have "mem_step allow (m, gs) (m1, gs(t := Queued False lid l))" using assms(1,2) by (rule mem_step.request)
  with queued_run [of "gs(t := Queued False lid l)" t False lid l m1 m2 allow] assms(3) show ?thesis
    by (simp add: converse_rtranclp_into_rtranclp)
qed

text \<open>The steps of one goroutine, run in a row, are the operations.\<close>

lemma acquire_refines:
  assumes "gs t = Idle" and "mem_AcquireLock lid ty m = Done m'"
  shows "\<exists>l. (mem_step allow)\<^sup>*\<^sup>* (m, gs) (m', gs(t := Holding lid l))"
proof -
  obtain m1 l m2 where "mem_get lid m = (m1, l)" "mutex_lock l m1 = Some m2" "m' = set_held l True m2"
    using assms(2) by (auto simp: mem_AcquireLock_def split: prod.splits option.splits)
  with acquire_run [where gs = gs and t = t, OF assms(1)] show ?thesis by blast
qed

lemma try_acquire_free:
  "mem_AcquireLock lid ty m = Done m' \<Longrightarrow> mem_TryAcquireLock lid ty m = (m', None)"
  by (auto simp: mem_AcquireLock_def mem_TryAcquireLock_def split: prod.splits option.splits)

text \<open>A release by the holder: the mutex is unlocked, the lock is no longer marked, and the next request is granted.\<close>

lemma release_run:
  assumes inv: "mem_inv (m, gs)" and h: "gs t = Holding lid l"
  obtains m' where "mem_ReleaseLock lid m = Some m'" "(mem_step allow)\<^sup>*\<^sup>* (m, gs) (m', gs(t := Idle))"
    "mem_get lid m' = (m', l)" "\<not> mk_mu (mlm_heap m' l)"
proof -
  note b = begin_release_held [OF inv h]
  have here: "mlm_locks m lid = Some l" and mu: "mk_mu (mlm_heap m l)" using mem_invD(3,5) [OF inv, of t] h by simp_all
  then obtain m' where u: "mutex_unlock l (set_held l False m) = Some m'" by (simp add: mutex_unlock_def set_held_def)
  then have m': "mlm_locks m' lid = Some l" "\<not> mk_mu (mlm_heap m' l)" using here by (auto simp: mutex_unlock_def set_held_def split: if_splits)
  have "mem_step allow (m, gs) (set_held l False m, gs(t := Releasing l))" using mem_step.release [where gs = gs, OF h b] by simp
  moreover have "mem_step allow (set_held l False m, gs(t := Releasing l)) (m', (gs(t := Releasing l))(t := Idle))"
    by (rule mem_step.unlock [OF _ u]) simp
  ultimately have "(mem_step allow)\<^sup>*\<^sup>* (m, gs) (m', gs(t := Idle))" by (simp add: r_into_rtranclp rtranclp.rtrancl_into_rtrancl)
  with m' b u show thesis by (intro that) (simp_all add: mem_ReleaseLock_def mem_get_def)
qed

section \<open>Properties\<close>

text \<open>
  C18. The in-memory locks exclude each other: in every interleaving of goroutines that release only
  what they hold, and as long as \<open>ReleaseAll\<close> is not called, at most one goroutine holds the lock
  of an entity, for shared and exclusive requests alike; while it does, \<open>TryAcquireLock\<close> is refused and \<open>AcquireLock\<close> waits.  A
  release by the holder is neither ignored nor a fatal error: afterwards the holder holds nothing, and the next \<open>AcquireLock\<close> or \<open>TryAcquireLock\<close> of any
  other goroutine is granted and makes it the holder.
\<close>

theorem memory_locks_exclude:
  assumes "(mem_step False)\<^sup>*\<^sup>* mem_start (m, gs)" and "gs t = Holding lid l"
  shows "(\<forall>u l'. gs u = Holding lid l' \<longrightarrow> u = t) \<and> mem_TryAcquireLock lid ty m = (m, Some ErrAlreadyLocked) \<and>
    mem_AcquireLock lid ty m = Blocks \<and>
    (\<exists>m'. mem_ReleaseLock lid m = Some m' \<and> (mem_step False)\<^sup>*\<^sup>* (m, gs) (m', gs(t := Idle)) \<and>
      (\<forall>u ty'. u = t \<or> gs u = Idle \<longrightarrow>
        (\<exists>m''. mem_AcquireLock lid ty' m' = Done m'' \<and> mem_TryAcquireLock lid ty' m' = (m'', None) \<and>
          (mem_step False)\<^sup>*\<^sup>* (m', gs(t := Idle)) (m'', (gs(t := Idle))(u := Holding lid l)))))"
proof -
  have inv: "mem_inv (m, gs)" by (rule mem_reach_inv [OF assms(1)])
  note D = mem_invD [OF inv]
  have here: "mlm_locks m lid = Some l" using D(3) [of t lid l] assms(2) by simp
  have mu: "mk_mu (mlm_heap m l)" using D(5) [of t l] assms(2) by simp
  have "u = t" if "gs u = Holding lid l'" for u l'
    using D(3) [of u lid l'] D(6) [of u l t] that assms(2) here by simp
  moreover have "mem_TryAcquireLock lid ty m = (m, Some ErrAlreadyLocked)" "mem_AcquireLock lid ty m = Blocks"
    using here mu by (simp_all add: mem_TryAcquireLock_def mem_AcquireLock_def mem_get_def mutex_lock_def)
  moreover obtain m' where m': "mem_ReleaseLock lid m = Some m'" "(mem_step False)\<^sup>*\<^sup>* (m, gs) (m', gs(t := Idle))"
    "mem_get lid m' = (m', l)" "\<not> mk_mu (mlm_heap m' l)"
    by (rule release_run [OF inv assms(2)])
  have "\<exists>m''. mem_AcquireLock lid ty' m' = Done m'' \<and> mem_TryAcquireLock lid ty' m' = (m'', None) \<and>
      (mem_step False)\<^sup>*\<^sup>* (m', gs(t := Idle)) (m'', (gs(t := Idle))(u := Holding lid l))" if "u = t \<or> gs u = Idle" for u ty'
  proof -
    obtain m2 where lock: "mutex_lock l m' = Some m2" using m'(4) by (simp add: mutex_lock_def)
    have "mem_AcquireLock lid ty' m' = Done (set_held l True m2)" using m'(3) lock by (simp add: mem_AcquireLock_def)
    moreover have "(mem_step False)\<^sup>*\<^sup>* (m', gs(t := Idle)) (set_held l True m2, (gs(t := Idle))(u := Holding lid l))"
      using that by (intro acquire_run [OF _ m'(3) lock]) auto
    ultimately show ?thesis using try_acquire_free by blast
  qed
  ultimately show ?thesis using m'(1,2) by blast
qed

theorem memory_locks_exclude_witness:
  "\<exists>m gs m' m''. (mem_step False)\<^sup>*\<^sup>* mem_start (m, gs) \<and> gs 0 = Holding ''chat_1'' 0 \<and> mem_AcquireLock ''chat_1'' LockShared m = Blocks \<and>
     mem_ReleaseLock ''chat_1'' m = Some m' \<and> mem_AcquireLock ''chat_1'' LockShared m' = Done m''"
proof -
  let ?m1 = "\<lparr>mlm_locks = [''chat_1'' \<mapsto> 0], mlm_heap = (\<lambda>_. free_lock)(0 := free_lock), mlm_next = 1\<rparr>"
  let ?gs = "(\<lambda>_. Idle)(0 := Holding ''chat_1'' 0)"
  have get: "mem_get ''chat_1'' NewMemoryLockManager = (?m1, 0)" by (simp add: mem_get_def NewMemoryLockManager_def)
  obtain m2 where "mutex_lock 0 ?m1 = Some m2" by (simp add: mutex_lock_def free_lock_def)
  from acquire_run [where gs = "\<lambda>_. Idle" and t = 0, OF refl get this]
  have reach: "(mem_step False)\<^sup>*\<^sup>* mem_start (set_held 0 True m2, ?gs)" by (simp add: mem_start_def)
  have h: "?gs 0 = Holding ''chat_1'' 0" by simp
  from memory_locks_exclude [OF reach h, of LockShared] obtain m' m'' where
    "mem_AcquireLock ''chat_1'' LockShared (set_held 0 True m2) = Blocks" "mem_ReleaseLock ''chat_1'' (set_held 0 True m2) = Some m'"
    "mem_AcquireLock ''chat_1'' LockShared m' = Done m''" by blast
  then show ?thesis using reach by (intro exI [of _ "set_held 0 True m2"] exI [of _ ?gs] exI [of _ m'] exI [of _ m'']) simp
qed

text \<open>
  \<open>ReleaseAll\<close> does not mix with waiting goroutines: one that waits for a lock when \<open>ReleaseAll\<close> empties
  the map goes on to take the old lock, while the next request for the same entity makes a new
  one, and both hold the lock of the entity at the same time.
\<close>

theorem release_all_breaks_exclusion:
  "\<exists>m gs m' gs'. (mem_step True)\<^sup>*\<^sup>* mem_start (m, gs) \<and> gs 1 = Queued False lid 0 \<and> gs 2 = Idle \<and>
     (mem_step False)\<^sup>*\<^sup>* (mem_ReleaseAll m, gs) (m', gs') \<and> gs' 1 = Holding lid 0 \<and> gs' 2 = Holding lid 1"
proof -
  let ?m = "\<lambda>lock. \<lparr>mlm_locks = [lid \<mapsto> 0], mlm_heap = (\<lambda>_. free_lock)(0 := lock), mlm_next = 1\<rparr>"
  let ?taken = "\<lparr>mk_mu = True, mk_held = True\<rparr>" and ?mid = "\<lparr>mk_mu = True, mk_held = False\<rparr>"
  let ?g0 = "\<lambda>_ :: nat. Idle" and ?g1 = "(\<lambda>_ :: nat. Idle)(0 := Holding lid 0)"
  let ?g2 = "(\<lambda>_ :: nat. Idle)(0 := Holding lid 0, 1 := Queued False lid 0)"
  have lock: "mutex_lock 0 (?m free_lock) = Some (?m ?mid)" "set_held 0 True (?m ?mid) = ?m ?taken"
    by (simp_all add: mutex_lock_def set_held_def free_lock_def)
  have "mem_get lid NewMemoryLockManager = (?m free_lock, 0)" by (simp add: mem_get_def NewMemoryLockManager_def)
  from acquire_run [where gs = ?g0 and t = 0 and allow = True, OF refl this lock(1)]
  have "(mem_step True)\<^sup>*\<^sup>* mem_start (?m ?taken, ?g1)" by (simp only: mem_start_def lock(2))
  moreover have "mem_step True (?m ?taken, ?g1) (?m ?taken, ?g1(1 := Queued False lid 0))"
    by (rule mem_step.request) (simp_all add: mem_get_def)
  ultimately have before: "(mem_step True)\<^sup>*\<^sup>* mem_start (?m ?taken, ?g2)" by simp
  let ?w = "mem_ReleaseAll (?m ?taken)"
  have w: "?w = \<lparr>mlm_locks = Map.empty, mlm_heap = (\<lambda>_. free_lock), mlm_next = 1\<rparr>"
    by (simp add: mem_ReleaseAll_def free_lock_def fun_eq_iff)
  let ?w1 = "\<lparr>mlm_locks = Map.empty, mlm_heap = (\<lambda>_. free_lock)(0 := ?taken), mlm_next = 1\<rparr>"
  obtain m1 where m1: "mutex_lock 0 ?w = Some m1" "set_held 0 True m1 = ?w1"
    unfolding w by (simp add: mutex_lock_def set_held_def free_lock_def)
  have one: "(mem_step False)\<^sup>*\<^sup>* (?w, ?g2) (?w1, ?g2(1 := Holding lid 0))"
    using queued_run [where gs = ?g2 and t = 1 and b = False and lid = lid and allow = False, OF _ m1(1)] m1(2) by simp
  let ?w2 = "\<lparr>mlm_locks = [lid \<mapsto> 1], mlm_heap = (\<lambda>_. free_lock)(0 := ?taken, 1 := free_lock), mlm_next = 2\<rparr>"
  have get: "mem_get lid ?w1 = (?w2, 1)" by (simp add: mem_get_def)
  obtain m2 where m2: "mutex_lock 1 ?w2 = Some m2" by (simp add: mutex_lock_def free_lock_def)
  have "(mem_step False)\<^sup>*\<^sup>* (?w1, ?g2(1 := Holding lid 0)) (set_held 1 True m2, (?g2(1 := Holding lid 0))(2 := Holding lid 1))"
    by (rule acquire_run [OF _ get m2]) simp
  with one have "(mem_step False)\<^sup>*\<^sup>* (?w, ?g2) (set_held 1 True m2, (?g2(1 := Holding lid 0))(2 := Holding lid 1))" by simp
  with before show ?thesis
    by (intro exI [of _ "?m ?taken"] exI [of _ ?g2] exI [of _ "set_held 1 True m2"] exI [of _ "(?g2(1 := Holding lid 0))(2 := Holding lid 1)"]) simp
qed

end
