(* ===== verification/Hex_Text.thy ===== *)
theory Hex_Text
  imports Delta_Prelude
begin

text \<open>
  Decoding hexadecimal text: \<open>DecodeString\<close> of Go's package encoding/hex, and that it reverses
  \<open>EncodeToString\<close>.
\<close>

section \<open>Decoding\<close>

text \<open>Package encoding/hex: the table \<open>reverseHexTable\<close> and the loop of \<open>Decode\<close>.\<close>

datatype hex_error = InvalidByteError char | ErrLength

definition hex_value :: "char \<Rightarrow> nat option" where
  "hex_value c =
     (let n = (of_char c :: nat) in
      if 48 \<le> n \<and> n \<le> 57 then Some (n - 48)
      else if 97 \<le> n \<and> n \<le> 102 then Some (n - 87)
      else if 65 \<le> n \<and> n \<le> 70 then Some (n - 55)
      else None)"

fun hex_DecodeString :: "string \<Rightarrow> hex_error + bytes" where
  "hex_DecodeString [] = Inr []"
| "hex_DecodeString [p] = Inl (if hex_value p = None then InvalidByteError p else ErrLength)"
| "hex_DecodeString (p # q # s) =
     (case hex_value p of
        None \<Rightarrow> Inl (InvalidByteError p)
      | Some a \<Rightarrow>
          (case hex_value q of
             None \<Rightarrow> Inl (InvalidByteError q)
           | Some b \<Rightarrow>
               (case hex_DecodeString s of
                  Inl e \<Rightarrow> Inl e
                | Inr bs \<Rightarrow> Inr (char_of (16 * a + b) # bs))))"

section \<open>Round trip\<close>

definition hex_lower :: "char \<Rightarrow> char" where
  "hex_lower c = (if 65 \<le> (of_char c :: nat) \<and> (of_char c :: nat) \<le> 70 then char_of ((of_char c :: nat) + 32) else c)"

lemma char_eq_of_char: "c = d \<longleftrightarrow> (of_char c :: nat) = of_char d"
  by simp

lemma hex_value_iff: "hex_value c = Some d \<longleftrightarrow> d < 16 \<and> hex_lower c = hex_digit d"
proof -
  have c: "(of_char c :: nat) < 256" by simp
  have low: "(of_char (hex_lower c) :: nat) = (if 65 \<le> (of_char c :: nat) \<and> (of_char c :: nat) \<le> 70 then of_char c + 32 else of_char c)"
    by (simp add: hex_lower_def)
  have dig: "(of_char (hex_digit d) :: nat) = (if d < 10 then 48 + d else 87 + d)" if "d < 16"
    using that by (simp add: hex_digit_def)
  show ?thesis
    unfolding char_eq_of_char using c dig by (auto simp: low hex_value_def Let_def)
qed

text \<open>Decoding accepts exactly the texts that are, up to the case of the letters, the encoding of some bytes.\<close>

lemma hex_Decode_iff: "hex_DecodeString s = Inr bs \<longleftrightarrow> map hex_lower s = hex_EncodeToString bs"
proof (induction s arbitrary: bs rule: hex_DecodeString.induct)
  case (1 bs)
  then show ?case by (cases bs) (simp_all add: hex_EncodeToString_def)
next
  case (2 p bs)
  then show ?case by (cases bs) (simp_all add: hex_EncodeToString_def)
next
  case (3 p q s bs)
  show ?case
  proof (cases bs)
    case Nil
    then show ?thesis by (auto simp: hex_EncodeToString_def split: option.splits sum.splits)
  next
    case (Cons c cs)
    have c: "(of_char c :: nat) < 256" by simp
    have byte: "char_of (16 * a + b) = c \<longleftrightarrow> a = of_char c div 16 \<and> b = of_char c mod 16" if "a < 16" "b < 16" for a b :: nat
    proof -
      have "(of_char (char_of (16 * a + b)) :: nat) = 16 * a + b" using that by simp
      moreover have "16 * a + b = n \<longleftrightarrow> a = n div 16 \<and> b = n mod 16" for n :: nat using that by auto
      ultimately show ?thesis unfolding char_eq_of_char by (simp only:)
    qed
    have v: "hex_lower x = hex_digit d \<longleftrightarrow> hex_value x = Some d" if "d < 16" for x d using that by (simp add: hex_value_iff)
    have d: "(of_char c div 16 :: nat) < 16" "(of_char c mod 16 :: nat) < 16" using c by simp_all
    have r: "hex_value x = Some a \<Longrightarrow> a < 16" for x a by (simp add: hex_value_iff)
    show ?thesis
    proof (cases "hex_value p = None \<or> hex_value q = None")
      case True
      then show ?thesis unfolding Cons hex_EncodeToString_Cons by (auto simp: v d split: option.splits)
    next
      case False
      then obtain a b where ab: "hex_value p = Some a" "hex_value q = Some b" by auto
      show ?thesis
        unfolding Cons hex_EncodeToString_Cons using "3.IH" [OF ab, of cs] byte [OF r [OF ab(1)] r [OF ab(2)]]
        by (auto simp: v d ab split: sum.splits)
    qed
  qed
qed

lemma hex_lower_digit [simp]: "d < 16 \<Longrightarrow> hex_lower (hex_digit d) = hex_digit d"
  by (simp add: hex_lower_def hex_digit_def)

lemma hex_Decode_Encode: "hex_DecodeString (hex_EncodeToString bs) = Inr bs"
proof -
  have "(of_char c :: nat) < 256" for c :: char by simp
  then have "(of_char c div 16 :: nat) < 16" for c :: char by (intro less_mult_imp_div_less) simp
  then have "map hex_lower (hex_EncodeToString bs) = hex_EncodeToString bs"
    by (induction bs) (simp_all add: hex_EncodeToString_Cons, simp add: hex_EncodeToString_def)
  then show ?thesis by (simp add: hex_Decode_iff)
qed

end
