(* ===== verification/Start_Up.thy ===== *)
theory Start_Up
  imports Hex_Text Main_Worker Proc_Handshake S3_Storage Memory_Locks
begin

text \<open>
  The two programs from their flags to the running server: cmd/main-worker/main.go and
  cmd/proc-worker/main.go.  A value of the flag records is what \<open>flag.Parse\<close> leaves; the records of
  defaults are those of the declarations.  \<open>log.Fatalf\<close> is an error value.  What the programs ask of
  the system (environment variables, random bytes, the host name, a temporary directory, the client
  of the object store) is the argument \<open>start_env\<close>.
\<close>

section \<open>Flags and system\<close>

record s3_flags =
  sf_endpoint :: string
  sf_accessKey :: string
  sf_secretKey :: string
  sf_bucket :: string
  sf_useSSL :: bool
  sf_region :: string

record main_flags =
  mf_grpcAddr :: string
  mf_restAddr :: string
  mf_metricsAddr :: string
  mf_sharedFS :: string
  mf_masterKeyHex :: string
  mf_keyID :: string
  mf_workerTTL :: duration
  mf_clientTTL :: duration
  mf_entityCacheSize :: int
  mf_adminKey :: string
  mf_keyStorePath :: string
  mf_grpcMaxRecvMsgSize :: int
  mf_restMaxBodySize :: int
  mf_s3 :: s3_flags

record proc_flags =
  pf_mainAddr :: string
  pf_workerID :: string
  pf_sharedFS :: string
  pf_grpcAddr :: string
  pf_metricsAddr :: string
  pf_cacheSize :: int
  pf_cacheTTL :: duration
  pf_grpcMaxRecvMsgSize :: int
  pf_s3 :: s3_flags

definition default_s3_flags :: s3_flags where
  "default_s3_flags = \<lparr>sf_endpoint = [], sf_accessKey = [], sf_secretKey = [], sf_bucket = ''deltadatabase'', sf_useSSL = False, sf_region = []\<rparr>"

definition default_main_flags :: "(string \<Rightarrow> string) \<Rightarrow> main_flags" where
  "default_main_flags getenv = \<lparr>mf_grpcAddr = ''127.0.0.1:50051'', mf_restAddr = ''127.0.0.1:8080'', mf_metricsAddr = [],
     mf_sharedFS = ''./shared/db'', mf_masterKeyHex = [], mf_keyID = ''main-key-v1'', mf_workerTTL = 1 * hour, mf_clientTTL = 24 * hour,
     mf_entityCacheSize = 1024, mf_adminKey = getenv ''ADMIN_KEY'', mf_keyStorePath = [], mf_grpcMaxRecvMsgSize = 4 * 1024 * 1024,
     mf_restMaxBodySize = 1 * 1024 * 1024, mf_s3 = default_s3_flags\<rparr>"

definition default_proc_flags :: proc_flags where
  "default_proc_flags = \<lparr>pf_mainAddr = ''127.0.0.1:50051'', pf_workerID = [], pf_sharedFS = ''./shared/db'', pf_grpcAddr = ''127.0.0.1:0'',
     pf_metricsAddr = [], pf_cacheSize = 256, pf_cacheTTL = 0, pf_grpcMaxRecvMsgSize = 4 * 1024 * 1024, pf_s3 = default_s3_flags\<rparr>"

text \<open>\<open>se_tmp\<close> is the directory that \<open>os.MkdirTemp\<close> would make and \<open>se_hostname\<close> the host name, None when the call fails.\<close>

record ('o, 'f) start_env =
  se_getenv :: "string \<Rightarrow> string"
  se_random :: "nat \<Rightarrow> bytes option"
  se_client :: "S3Config \<Rightarrow> ('o, 'f) s3_client option"
  se_s3_faults :: 'f
  se_faults :: faults
  se_tmp :: "string option"
  se_hostname :: "string option"
  se_seed :: bytes

datatype start_error =
    KeyDecodeFailed hex_error
  | KeyLengthWrong nat
  | KeyNotGenerated crypto_error
  | S3Unavailable fs_error
  | NoTemplatesDir
  | MainNotCreated main_error
  | StorageUnavailable fs_error
  | CacheNotCreated cache_error
  | WorkerNotCreated proc_error

section \<open>The Main Worker\<close>

text \<open>The master key, and its text when it was generated and logged.\<close>

definition start_master_key :: "string \<Rightarrow> (nat \<Rightarrow> bytes option) \<Rightarrow> start_error + bytes \<times> string option" where
  "start_master_key masterKeyHex random =
     (if masterKeyHex \<noteq> [] then
        (case hex_DecodeString masterKeyHex of
           Inl e \<Rightarrow> Inl (KeyDecodeFailed e)
         | Inr masterKey \<Rightarrow>
             if length masterKey \<noteq> 32 then Inl (KeyLengthWrong (length masterKey)) else Inr (masterKey, None))
      else
        (case GenerateKey random 32 of
           Inl e \<Rightarrow> Inl (KeyNotGenerated e)
         | Inr masterKey \<Rightarrow> Inr (masterKey, Some (hex_EncodeToString masterKey))))"

definition start_s3_config :: "(string \<Rightarrow> string) \<Rightarrow> s3_flags \<Rightarrow> S3Config" where
  "start_s3_config getenv fl =
     \<lparr>sc_Endpoint = sf_endpoint fl,
      sc_AccessKeyID = (if sf_accessKey fl = [] then getenv ''S3_ACCESS_KEY'' else sf_accessKey fl),
      sc_SecretAccessKey = (if sf_secretKey fl = [] then getenv ''S3_SECRET_KEY'' else sf_secretKey fl),
      sc_Bucket = sf_bucket fl, sc_UseSSL = sf_useSSL fl, sc_Region = sf_region fl\<rparr>"

definition start_templates_dir ::
    "('o, 'f) start_env \<Rightarrow> main_flags \<Rightarrow> 'o \<Rightarrow> file_sys \<Rightarrow> 'o \<times> file_sys \<times> (start_error + string)" where
  "start_templates_dir env fl ob fs =
     (if sf_endpoint (mf_s3 fl) \<noteq> [] then
        (case NewS3Storage (se_client env) (se_s3_faults env) (start_s3_config (se_getenv env) (mf_s3 fl)) ob of
           (ob1, Inl e) \<Rightarrow> (ob1, fs, Inl (S3Unavailable e))
         | (ob1, Inr (client, s3)) \<Rightarrow>
             (case s3_GetTemplatesDir client (se_s3_faults env) (se_faults env) (se_tmp env) ob1 s3 fs of
                (_, fs1, templatesDir) \<Rightarrow> (ob1, fs1, if templatesDir = [] then Inl NoTemplatesDir else Inr templatesDir)))
      else (ob, fs, Inr (mf_sharedFS fl)))"

definition start_config :: "main_flags \<Rightarrow> string \<Rightarrow> bytes \<Rightarrow> Config" where
  "start_config fl templatesDir masterKey =
     \<lparr>cf_GRPCAddr = mf_grpcAddr fl, cf_RESTAddr = mf_restAddr fl, cf_SharedFSPath = templatesDir, cf_WorkerTokenTTL = mf_workerTTL fl,
      cf_ClientTokenTTL = mf_clientTTL fl, cf_MasterKey = masterKey, cf_KeyID = mf_keyID fl, cf_EntityCacheSize = mf_entityCacheSize fl,
      cf_MetricsAddr = mf_metricsAddr fl, cf_AdminKey = mf_adminKey fl, cf_KeyStorePath = mf_keyStorePath fl,
      cf_MaxRecvMsgSize = mf_grpcMaxRecvMsgSize fl, cf_MaxRequestBodySize = mf_restMaxBodySize fl\<rparr>"

definition main_start ::
    "('l, 's, 'p, 'rk, 'w) main_libs \<Rightarrow> main_env \<Rightarrow> ('o, 'f) start_env \<Rightarrow> main_flags \<Rightarrow> 'o \<Rightarrow> 'w main_world
      \<Rightarrow> 'o \<times> 'w main_world \<times> (start_error + ('l, 's) MainWorkerServer \<times> string option)" where
  "main_start Lib me env fl ob w =
     (case start_master_key (mf_masterKeyHex fl) (se_random env) of
        Inl e \<Rightarrow> (ob, w, Inl e)
      | Inr (masterKey, logged_key) \<Rightarrow>
          (case start_templates_dir env fl ob (mw_files w) of
             (ob1, fs1, Inl e) \<Rightarrow> (ob1, w\<lparr>mw_files := fs1\<rparr>, Inl e)
           | (ob1, fs1, Inr templatesDir) \<Rightarrow>
               (case NewMainWorkerServer Lib me (Some (start_config fl templatesDir masterKey)) (w\<lparr>mw_files := fs1\<rparr>) of
                  (w2, Inl e) \<Rightarrow> (ob1, w2, Inl (MainNotCreated e))
                | (w2, Inr server) \<Rightarrow> (ob1, w2, Inr (server, logged_key)))))"

section \<open>The Processing Worker\<close>

text \<open>The storage and lock backends that the program chooses between.\<close>

datatype ('o, 'f) backend =
    LocalBackend Storage LockManager
  | S3Backend "('o, 'f) s3_client" S3Storage MemoryLockManager

definition start_worker_id :: "string option \<Rightarrow> string \<Rightarrow> string" where
  "start_worker_id host workerID =
     (if workerID = [] then ''proc-'' @ (case host of None \<Rightarrow> ''proc-worker'' | Some hostname \<Rightarrow> hostname) else workerID)"

definition start_backend ::
    "('o, 'f) start_env \<Rightarrow> proc_flags \<Rightarrow> 'o \<Rightarrow> file_sys \<Rightarrow> 'o \<times> file_sys \<times> (start_error + ('o, 'f) backend)" where
  "start_backend env fl ob fs =
     (if sf_endpoint (pf_s3 fl) \<noteq> [] then
        (case NewS3Storage (se_client env) (se_s3_faults env) (start_s3_config (se_getenv env) (pf_s3 fl)) ob of
           (ob1, Inl e) \<Rightarrow> (ob1, fs, Inl (S3Unavailable e))
         | (ob1, Inr (client, s3)) \<Rightarrow> (ob1, fs, Inr (S3Backend client s3 NewMemoryLockManager)))
      else
        (case NewStorage (se_faults env) (pf_sharedFS fl) fs of
           (fs1, Inl e) \<Rightarrow> (ob, fs1, Inl (StorageUnavailable e))
         | (fs1, Inr localStorage) \<Rightarrow> (ob, fs1, Inr (LocalBackend localStorage (NewLockManager localStorage)))))"

definition start_proc_config :: "proc_flags \<Rightarrow> string \<Rightarrow> ProcConfig" where
  "start_proc_config fl workerID =
     \<lparr>pc_MainAddr = pf_mainAddr fl, pc_WorkerID = workerID, pc_SharedFSPath = pf_sharedFS fl, pc_Tags = [''grpc_addr'' \<mapsto> pf_grpcAddr fl],
      pc_MetricsAddr = pf_metricsAddr fl, pc_MaxRecvMsgSize = pf_grpcMaxRecvMsgSize fl\<rparr>"

text \<open>\<open>storage.GetTemplatesDir()\<close> of the chosen backend; only the S3 backend has state of its own.\<close>

definition backend_templates_dir ::
    "('o, 'f) start_env \<Rightarrow> 'o \<Rightarrow> ('o, 'f) backend \<Rightarrow> file_sys \<Rightarrow> ('o, 'f) backend \<times> file_sys \<times> string" where
  "backend_templates_dir env ob b fs =
     (case b of
        LocalBackend st lm \<Rightarrow> (b, fs, GetTemplatesDir st)
      | S3Backend client s3 mlm \<Rightarrow>
          (case s3_GetTemplatesDir client (se_s3_faults env) (se_faults env) (se_tmp env) ob s3 fs of
             (s3', fs1, dir) \<Rightarrow> (S3Backend client s3' mlm, fs1, dir)))"

text \<open>The lock manager is part of the backend, so the server holds a unit in its place.\<close>

definition proc_start ::
    "'l lru_ops \<Rightarrow> ('p, 'rk) rsa_lib \<Rightarrow> ('o, 'f) start_env \<Rightarrow> proc_flags \<Rightarrow> 'o \<Rightarrow> file_sys
      \<Rightarrow> 'o \<times> file_sys \<times> (start_error + ('o, 'f) backend \<times> ('l, unit, 's, 'rk) ProcWorkerServer)" where
  "proc_start L R env fl ob fs =
     (let workerID = start_worker_id (se_hostname env) (pf_workerID fl) in
      case start_backend env fl ob fs of
        (ob1, fs1, Inl e) \<Rightarrow> (ob1, fs1, Inl e)
      | (ob1, fs1, Inr b) \<Rightarrow>
          (case NewCache L \<lparr>cfg_MaxSize = pf_cacheSize fl, cfg_DefaultTTL = pf_cacheTTL fl, cfg_CleanupInterval = 0\<rparr> of
             Inl e \<Rightarrow> (ob1, fs1, Inl (CacheNotCreated e))
           | Inr c \<Rightarrow>
               (case NewProcWorker R (se_seed env) (Some (start_proc_config fl workerID)) of
                  Inl e \<Rightarrow> (ob1, fs1, Inl (WorkerNotCreated e))
                | Inr worker \<Rightarrow>
                    (case backend_templates_dir env ob1 b fs1 of
                       (b', fs2, templatesDir) \<Rightarrow>
                         (case NewProcWorkerServer (se_faults env) templatesDir worker () c fs2 of
                            (fs3, srv) \<Rightarrow> (ob1, fs3, Inr (b', srv)))))))"

end
