(* ===== verification/S3_Templates.thy ===== *)
theory S3_Templates
  imports S3_Storage Schema_Validator
begin

text \<open>
  Listing the objects of the S3 backend: \<open>ListFiles\<close> and the local copy of the templates that the
  schema validator reads.  The locale \<open>listed_store\<close> extends the object store by what a recursive
  listing returns; \<open>map_client\<close> provides it.
\<close>

locale listed_store = object_store +
  assumes list_none: "ready ob \<Longrightarrow>
    \<exists>ks. s3_list C none bucket p ob = map Inr ks \<and> distinct ks \<and> set ks = {k. view ob k \<noteq> None \<and> HasPrefix k p}"

section \<open>Names of listed objects\<close>

lemma keys_of_name:
  "HasSuffix name ''.json.enc'' \<Longrightarrow> ''files/'' @ name = blobKey (take (length name - 9) name)"
  "HasSuffix name ''.meta.json'' \<Longrightarrow> ''files/'' @ name = metaKey (take (length name - 10) name)"
  by (auto simp: HasSuffix_iff suffix_def blobKey_def metaKey_def)

lemma key_names:
  "HasPrefix (blobKey eid) ''files/''" "HasPrefix (metaKey eid) ''files/''" "HasPrefix (templateKey sid) ''templates/''"
  "TrimPrefix (blobKey eid) ''files/'' = eid @ ''.json.enc''" "TrimPrefix (metaKey eid) ''files/'' = eid @ ''.meta.json''"
  "TrimPrefix (templateKey sid) ''templates/'' = sid @ ''.json''" "templateKey a = templateKey b \<longleftrightarrow> a = b"
  unfolding blobKey_def metaKey_def templateKey_def by (simp_all only: HasPrefix_append TrimPrefix_append append_same_eq same_append_eq)

lemma suffixes_differ: "\<not> (HasSuffix name ''.json.enc'' \<and> HasSuffix name ''.meta.json'')"
  by (auto simp: HasSuffix_iff suffix_def dest: arg_cong [of _ _ last])

text \<open>The loop of \<open>ListFiles\<close> collects the entity of every blob and every metadata object.\<close>

lemma listed_ids_keys:
  assumes "\<forall>k \<in> set ks. HasPrefix k ''files/''"
  shows "listed_ids (map Inr ks) ids = Inr (ids \<union> {eid. blobKey eid \<in> set ks \<or> metaKey eid \<in> set ks})"
  using assms
proof (induction ks arbitrary: ids)
  case (Cons k ks)
  then obtain name where k: "k = ''files/'' @ name" by (auto simp: HasPrefix_iff prefix_def)
  have blob: "k = blobKey eid \<longleftrightarrow> HasSuffix name ''.json.enc'' \<and> eid = take (length name - 9) name" for eid
    using keys_of_name(1) [of name] unfolding k by (auto simp: blobKey_def)
  have meta: "k = metaKey eid \<longleftrightarrow> HasSuffix name ''.meta.json'' \<and> eid = take (length name - 10) name" for eid
    using keys_of_name(2) [of name] unfolding k by (auto simp: metaKey_def)
  have t: "TrimPrefix k ''files/'' = name" unfolding k by (rule TrimPrefix_append)
  have sym: "blobKey e = k \<longleftrightarrow> k = blobKey e" "metaKey e = k \<longleftrightarrow> k = metaKey e" for e by auto
  show ?case
    using Cons suffixes_differ [of name]
    by (auto simp: Let_def t sym blob meta simp del: key_simps)
qed simp

context listed_store
begin

lemma ListFiles_objects:
  assumes "ready ob" and "s3_bucket s = bucket"
  shows "s3_ListFiles C s none ob = Inr {eid. view ob (blobKey eid) \<noteq> None \<or> view ob (metaKey eid) \<noteq> None}"
proof -
  obtain ks where "s3_list C none bucket ''files/'' ob = map Inr ks" "set ks = {k. view ob k \<noteq> None \<and> HasPrefix k ''files/''}"
    using list_none [OF assms(1)] by blast
  then show ?thesis using listed_ids_keys [of ks "{}"] assms(2) by (simp add: s3_ListFiles_def key_names)
qed

end

section \<open>The local copy of the templates\<close>

text \<open>What \<open>os.MkdirTemp\<close> promises of the directory it is about to make: its ancestors are directories and nothing lies below it.\<close>

definition fresh_dir :: "path \<Rightarrow> file_sys \<Rightarrow> bool" where
  "fresh_dir d fs \<longleftrightarrow> \<not> is_dir fs d \<and> (\<forall>i < length (snd d). is_dir fs (fst d, take i (snd d)) \<and> (\<forall>b. node_at fs (fst d, take i (snd d)) \<noteq> Some (FileNode b))) \<and>
     (\<forall>names. node_at fs (fst d, snd d @ names) = None)"

lemma Mkdir_fresh:
  assumes "fresh_dir d fs"
  shows "fst (os_Mkdir d fs) = set_node d DirNode fs" "plain_dir d (set_node d DirNode fs)" "entry d (set_node d DirNode fs) = Map.empty"
proof -
  have "node_at fs (fst d, snd d @ []) = None" and ch: "node_at fs (child d n) = None" for n
    using assms unfolding fresh_dir_def child_def by blast+
  then show "fst (os_Mkdir d fs) = set_node d DirNode fs" using assms by (simp add: os_Mkdir_def fresh_dir_def)
  show "entry d (set_node d DirNode fs) = Map.empty" by (simp add: entry_def ch fun_eq_iff)
  have "node_at (set_node d DirNode fs) (fst d, take i (snd d)) \<noteq> Some (FileNode b)" if "i \<le> length (snd d)" for i b
    using that assms by (cases "i = length (snd d)") (auto simp: fresh_dir_def)
  then show "plain_dir d (set_node d DirNode fs)" by (simp add: plain_dir_def is_dir_def ch)
qed

lemma WriteFile_entry:
  assumes "plain_dir d fs" and "resolve p = child d n" and "plain_name n"
  shows "plain_dir d (fst (os_WriteFile no_faults p b fs))" "entry d (fst (os_WriteFile no_faults p b fs)) = (entry d fs)(n \<mapsto> b)"
    "\<forall>q. q \<noteq> child d n \<longrightarrow> node_at (fst (os_WriteFile no_faults p b fs)) q = node_at fs q"
  using assms by (simp_all add: os_WriteFile_def OpenFile_entry os_Write_def Let_def)

definition template_names :: "string list \<Rightarrow> bool" where
  "template_names ks \<longleftrightarrow> (\<forall>k \<in> set ks. \<exists>sid. isValidSchemaID sid \<and> k = templateKey sid)"

context object_store
begin

text \<open>One run of \<open>syncTemplatesFromS3\<close> without faults copies exactly the listed templates into the directory.\<close>

lemma sync_objects_copies:
  assumes "ready ob" and "s3_bucket s = bucket" and "localDir \<noteq> []" and "template_names ks" and "\<forall>k \<in> set ks. view ob k \<noteq> None"
    and "plain_dir (resolve localDir) fs"
  defines "fs' \<equiv> sync_objects C s none no_faults localDir ob (map Inr ks) fs"
  shows "plain_dir (resolve localDir) fs' \<and>
    (\<forall>sid. entry (resolve localDir) fs' (sid @ ''.json'') =
      (if templateKey sid \<in> set ks then view ob (templateKey sid) else entry (resolve localDir) fs (sid @ ''.json''))) \<and>
    (\<forall>q. (\<forall>sid. q \<noteq> child (resolve localDir) (sid @ ''.json'')) \<longrightarrow> node_at fs' q = node_at fs q)"
  using assms(4-6) unfolding fs'_def
proof (induction ks arbitrary: fs)
  case (Cons k ks)
  then obtain sid d where k: "isValidSchemaID sid" "k = templateKey sid" "view ob k = Some d" by (auto simp: template_names_def)
  let ?p = "Join localDir (sid @ ''.json'')"
  let ?fs1 = "fst (os_WriteFile no_faults ?p d fs)"
  have pl: "plain_name (sid @ ''.json'')" using k(1) by (simp add: isValidSchemaID_iff plain_name_suffix)
  have r: "resolve ?p = child (resolve localDir) (sid @ ''.json'')" using assms(3) pl by simp
  note w = WriteFile_entry [OF Cons.prems(3) r pl, of d]
  have step: "sync_objects C s none no_faults localDir ob (map Inr (k # ks)) fs = sync_objects C s none no_faults localDir ob (map Inr ks) ?fs1"
    using k get_none [OF assms(1), of k] assms(2) by (simp add: Let_def key_names)
  have ks: "template_names ks" "\<forall>k \<in> set ks. view ob k \<noteq> None" using Cons.prems by (simp_all add: template_names_def)
  show ?case
    unfolding step using Cons.IH [OF ks w(1)] w(2,3) k by (auto simp: key_names simp del: no_faults_simp)
qed simp

end

context listed_store
begin

text \<open>The first \<open>GetTemplatesDir\<close> of a process.\<close>

lemma GetTemplatesDir_mirrors:
  assumes "ready ob" and "s3_bucket s = bucket" and "\<not> s3_localTemplatesDirOnce s" and "\<not> s3_localTemplatesDirErr s" and "dir \<noteq> []"
    and "fresh_dir (resolve dir) fs"
    and "\<forall>k. view ob k \<noteq> None \<longrightarrow> HasPrefix k ''templates/'' \<longrightarrow> (\<exists>sid. isValidSchemaID sid \<and> k = templateKey sid)"
  obtains s' fs' where "s3_GetTemplatesDir C none no_faults (Some dir) ob s fs = (s', fs', dir)"
    "plain_dir (resolve dir) fs'" "\<forall>sid. entry (resolve dir) fs' (sid @ ''.json'') = view ob (templateKey sid)"
    "\<forall>q. q \<noteq> resolve dir \<longrightarrow> (\<forall>sid. q \<noteq> child (resolve dir) (sid @ ''.json'')) \<longrightarrow> node_at fs' q = node_at fs q"
proof -
  obtain ks where ks: "s3_list C none bucket ''templates/'' ob = map Inr ks" "set ks = {k. view ob k \<noteq> None \<and> HasPrefix k ''templates/''}"
    using list_none [OF assms(1)] by blast
  let ?s = "s\<lparr>s3_localTemplatesDirOnce := True, s3_localTemplatesDir := dir\<rparr>"
  let ?fs0 = "set_node (resolve dir) DirNode fs"
  let ?fs = "sync_objects C ?s none no_faults dir ob (map Inr ks) ?fs0"
  have n: "template_names ks" "\<forall>k \<in> set ks. view ob k \<noteq> None" using ks(2) assms(7) by (auto simp: template_names_def)
  have "s3_bucket ?s = bucket" using assms(2) by simp
  note m = Mkdir_fresh [OF assms(6)] and sy = sync_objects_copies [OF assms(1) this assms(5) n Mkdir_fresh(2) [OF assms(6)]]
  have "s3_GetTemplatesDir C none no_faults (Some dir) ob s fs = (?s, ?fs, dir)"
    using assms(2-4) m(1) ks(1) by (simp add: s3_GetTemplatesDir_def syncTemplatesFromS3_def Let_def)
  then show thesis
    by (rule that) (use sy m(3) ks(2) in \<open>auto simp: key_names\<close>)
qed

end

section \<open>The concrete object store lists its objects\<close>

interpretation map_listed: listed_store map_client bucket "\<lambda>_. None" "bucket_objects bucket"
    "\<lambda>bs. bs bucket \<noteq> None \<and> finite (dom (the (bs bucket)))" for bucket
proof
  fix bs :: buckets and p
  assume "bs bucket \<noteq> None \<and> finite (dom (the (bs bucket)))"
  then obtain objs where o: "bs bucket = Some objs" "finite (dom objs)" by auto
  let ?ks = "sorted_list_of_set {k \<in> dom objs. HasPrefix k p}"
  have "s3_list map_client (\<lambda>_. None) bucket p bs = map Inr ?ks" using o(1) by (simp add: map_client_def)
  moreover have "set ?ks = {k. bucket_objects bucket bs k \<noteq> None \<and> HasPrefix k p}"
    using o by (auto simp: bucket_objects_def)
  ultimately show "\<exists>ks. s3_list map_client (\<lambda>_. None) bucket p bs = map Inr ks \<and> distinct ks \<and>
      set ks = {k. bucket_objects bucket bs k \<noteq> None \<and> HasPrefix k p}" by auto
qed (auto simp: map_client_def s3_change_def bucket_objects_def split: option.splits if_splits)

end
