(* ===== verification/Start_Properties.thy ===== *)
theory Start_Properties
  imports Start_Up S3_Templates Main_Sample
begin

text \<open>
  What the start of the programs guarantees: which master keys are accepted, that the logged text
  of a generated key restores it, and where the schema templates are looked up with S3.
\<close>

section \<open>The master key\<close>

lemma NewMainWorkerServer_key:
  assumes "NewMainWorkerServer Lib me (Some c) w = (w', Inr srv)" and "cf_MasterKey c \<noteq> []"
  shows "ms_masterKey srv = cf_MasterKey c" "length (cf_MasterKey c) = 32"
proof -
  have wd: "cf_MasterKey (with_defaults x) = cf_MasterKey x" for x by (simp add: with_defaults_def Let_def)
  show "ms_masterKey srv = cf_MasterKey c" "length (cf_MasterKey c) = 32"
    using assms by (auto simp: NewMainWorkerServer_def Let_def wd split: if_splits sum.splits prod.splits)
qed

lemma main_start_key:
  assumes "main_start Lib me env fl ob w = (ob', w', Inr (srv, p))"
  obtains key where "start_master_key (mf_masterKeyHex fl) (se_random env) = Inr (key, p)" "key \<noteq> [] \<longrightarrow> ms_masterKey srv = key \<and> length key = 32"
proof -
  from assms obtain key dir fs1 where "start_master_key (mf_masterKeyHex fl) (se_random env) = Inr (key, p)"
      "NewMainWorkerServer Lib me (Some (start_config fl dir key)) (w\<lparr>mw_files := fs1\<rparr>) = (w', Inr srv)"
    by (auto simp: main_start_def split: sum.splits prod.splits)
  with NewMainWorkerServer_key [OF this(2)] that show thesis by (simp add: start_config_def)
qed

lemma given_key_iff:
  assumes "h \<noteq> []"
  shows "start_master_key h random = Inr (key, p) \<longleftrightarrow> length key = 32 \<and> map hex_lower h = hex_EncodeToString key \<and> p = None"
  using assms by (auto simp: start_master_key_def hex_Decode_iff [symmetric] split: sum.splits if_splits)

text \<open>
  The Main Worker runs with the key given by -master-key or not at all: whatever the flag says,
  a start that succeeds has the 32 bytes whose hexadecimal text it is, in lower or upper case; a
  text that is not the text of 32 bytes ends the program before anything is touched.
\<close>

theorem given_master_key:
  assumes "mf_masterKeyHex fl \<noteq> []"
  shows "(\<forall>ob' w' srv p. main_start Lib me env fl ob w = (ob', w', Inr (srv, p)) \<longrightarrow>
      length (ms_masterKey srv) = 32 \<and> map hex_lower (mf_masterKeyHex fl) = hex_EncodeToString (ms_masterKey srv) \<and> p = None) \<and>
    ((\<nexists>key. length key = 32 \<and> map hex_lower (mf_masterKeyHex fl) = hex_EncodeToString key) \<longrightarrow>
      (\<exists>e. main_start Lib me env fl ob w = (ob, w, Inl e)))"
proof (intro conjI allI impI)
  fix ob' w' srv p
  assume "main_start Lib me env fl ob w = (ob', w', Inr (srv, p))"
  then obtain key where "start_master_key (mf_masterKeyHex fl) (se_random env) = Inr (key, p)" "key \<noteq> [] \<longrightarrow> ms_masterKey srv = key \<and> length key = 32"
    by (rule main_start_key)
  with given_key_iff [OF assms]
  show "length (ms_masterKey srv) = 32" "map hex_lower (mf_masterKeyHex fl) = hex_EncodeToString (ms_masterKey srv)" "p = None"
    by fastforce+
next
  assume "\<nexists>key. length key = 32 \<and> map hex_lower (mf_masterKeyHex fl) = hex_EncodeToString key"
  then obtain e where "start_master_key (mf_masterKeyHex fl) (se_random env) = Inl e"
    using given_key_iff [OF assms, of "se_random env"] by (cases "start_master_key (mf_masterKeyHex fl) (se_random env)") auto
  then show "\<exists>e. main_start Lib me env fl ob w = (ob, w, Inl e)" by (simp add: main_start_def)
qed

text \<open>
  C35. A generated master key survives a restart: the text that the first start logs, given as
  -master-key to any later start, is accepted and gives the server the same key.
\<close>

theorem restart_with_logged_key:
  assumes "\<forall>n r. se_random env n = Some r \<longrightarrow> length r = n" and "mf_masterKeyHex fl = []"
    and "main_start Lib me env fl ob w = (ob1, w1, Inr (srv, p))"
  shows "\<exists>h. p = Some h \<and> h \<noteq> [] \<and> (\<forall>fl' (env' :: ('x, 'y) start_env). mf_masterKeyHex fl' = h \<longrightarrow>
    start_master_key (mf_masterKeyHex fl') (se_random env') = Inr (ms_masterKey srv, None) \<and>
    (\<forall>me' ob' w' ob2 w2 srv2 p2. main_start Lib me' env' fl' ob' w' = (ob2, w2, Inr (srv2, p2)) \<longrightarrow> ms_masterKey srv2 = ms_masterKey srv))"
proof -
  obtain key where key: "start_master_key [] (se_random env) = Inr (key, p)" "key \<noteq> [] \<longrightarrow> ms_masterKey srv = key \<and> length key = 32"
    using main_start_key [OF assms(3)] unfolding assms(2) by metis
  then have p: "p = Some (hex_EncodeToString key)" and "length key = 32"
    using assms(1) by (auto simp: start_master_key_def GenerateKey_def split: sum.splits option.splits)
  moreover from this have "key \<noteq> []" by auto
  ultimately have h: "hex_EncodeToString key \<noteq> []" "ms_masterKey srv = key" using key(2) by (auto dest: arg_cong [of _ _ length])
  have again: "start_master_key (hex_EncodeToString key) random = Inr (key, None)" for random
    using h \<open>length key = 32\<close> by (simp add: start_master_key_def hex_Decode_Encode)
  show ?thesis
  proof (intro exI [of _ "hex_EncodeToString key"] conjI allI impI)
    show "p = Some (hex_EncodeToString key)" "hex_EncodeToString key \<noteq> []" by fact+
  next
    fix fl' :: main_flags and env' :: "('x, 'y) start_env"
    assume fl': "mf_masterKeyHex fl' = hex_EncodeToString key"
    show "start_master_key (mf_masterKeyHex fl') (se_random env') = Inr (ms_masterKey srv, None)" unfolding fl' h(2) by (rule again)
    fix me' ob' w' ob2 w2 srv2 p2
    assume "main_start Lib me' env' fl' ob' w' = (ob2, w2, Inr (srv2, p2))"
    then show "ms_masterKey srv2 = ms_masterKey srv"
      using again fl' \<open>key \<noteq> []\<close> unfolding h(2) by (elim main_start_key) simp
  qed
qed

section \<open>A sample start\<close>

definition sample_start_env :: "(unit, unit) start_env" where
  "sample_start_env = \<lparr>se_getenv = (\<lambda>_. []), se_random = (\<lambda>n. Some (replicate n CHR ''k'')), se_client = (\<lambda>_. None), se_s3_faults = (),
     se_faults = no_faults, se_tmp = None, se_hostname = None, se_seed = []\<rparr>"

definition sample_flags :: "string \<Rightarrow> main_flags" where
  "sample_flags h = (default_main_flags (\<lambda>_. []))\<lparr>mf_sharedFS := [], mf_masterKeyHex := h, mf_entityCacheSize := 2, mf_keyStorePath := ''/keys''\<rparr>"

definition start_sample ::
    "string \<Rightarrow> unit \<times> unit main_world \<times> (start_error + (list_lru, unit) MainWorkerServer \<times> string option)" where
  "start_sample h = main_start (sample_main_libs unreachable) (sample_main_env 0 ''r'') sample_start_env (sample_flags h) () (sample_world ())"

lemma start_sample_succeeds:
  assumes "start_master_key h (\<lambda>n. Some (replicate n CHR ''k'')) = Inr (key, p)" and "length key = 32"
  shows "\<exists>srv. start_sample h = ((), sample_world (), Inr (srv, p))"
proof -
  have "key \<noteq> []" using assms(2) by auto
  then show ?thesis
    using assms sample_keys_loaded sample_store_cache_new
    by (simp add: start_sample_def main_start_def sample_start_env_def sample_flags_def default_main_flags_def default_s3_flags_def
        start_templates_dir_def start_config_def NewMainWorkerServer_def with_defaults_def Let_def sample_world_def)
qed

theorem given_master_key_witness:
  "(\<exists>srv. start_sample (concat (replicate 32 ''4B'')) = ((), sample_world (), Inr (srv, None)) \<and>
      length (ms_masterKey srv) = 32 \<and> hex_EncodeToString (ms_masterKey srv) = concat (replicate 32 ''4b'')) \<and>
    (\<exists>e. start_sample ''4B'' = ((), sample_world (), Inl e))"
proof
  let ?h = "concat (replicate 32 ''4B'')"
  have low: "map hex_lower ?h = concat (replicate 32 ''4b'')" and enc: "hex_EncodeToString (replicate 32 CHR ''K'') = concat (replicate 32 ''4b'')"
    by code_simp+
  have "?h \<noteq> []" by code_simp
  then obtain srv where s: "start_sample ?h = ((), sample_world (), Inr (srv, None))"
    using start_sample_succeeds [of ?h "replicate 32 CHR ''K''" None] given_key_iff [of ?h] low enc by auto
  moreover have "mf_masterKeyHex (sample_flags ?h) \<noteq> []" using \<open>?h \<noteq> []\<close> by (simp add: sample_flags_def)
  note given_master_key [OF this, of "sample_main_libs unreachable" "sample_main_env 0 ''r''" sample_start_env "()" "sample_world ()"]
  ultimately show "\<exists>srv. start_sample ?h = ((), sample_world (), Inr (srv, None)) \<and>
      length (ms_masterKey srv) = 32 \<and> hex_EncodeToString (ms_masterKey srv) = concat (replicate 32 ''4b'')"
    using low by (fastforce simp: start_sample_def sample_flags_def)
next
  have "\<nexists>key. length key = 32 \<and> map hex_lower ''4B'' = hex_EncodeToString key"
    by (auto dest!: arg_cong [of _ _ length])
  then show "\<exists>e. start_sample ''4B'' = ((), sample_world (), Inl e)"
    unfolding start_sample_def by (intro given_master_key [THEN conjunct2, THEN mp]) (simp_all add: sample_flags_def)
qed

theorem restart_with_logged_key_witness:
  "\<exists>srv h srv2. start_sample [] = ((), sample_world (), Inr (srv, Some h)) \<and>
    start_sample h = ((), sample_world (), Inr (srv2, None)) \<and> ms_masterKey srv2 = ms_masterKey srv"
proof -
  let ?r = "\<lambda>n. Some (replicate n CHR ''k'')"
  have "start_master_key [] ?r = Inr (replicate 32 CHR ''k'', Some (hex_EncodeToString (replicate 32 CHR ''k'')))"
    by (simp add: start_master_key_def GenerateKey_def)
  then obtain srv where s: "start_sample [] = ((), sample_world (), Inr (srv, Some (hex_EncodeToString (replicate 32 CHR ''k''))))"
    using start_sample_succeeds by fastforce
  have fl: "mf_masterKeyHex (sample_flags h) = h" for h by (simp add: sample_flags_def)
  have rnd: "se_random sample_start_env = ?r" by (simp add: sample_start_env_def)
  have full: "\<forall>n r. se_random sample_start_env n = Some r \<longrightarrow> length r = n" by (simp add: rnd)
  obtain h where "Some (hex_EncodeToString (replicate 32 CHR ''k'')) = Some h" and
    again: "\<forall>fl' env'. mf_masterKeyHex fl' = h \<longrightarrow>
      start_master_key (mf_masterKeyHex fl') (se_random (env' :: (unit, unit) start_env)) = Inr (ms_masterKey srv, None) \<and>
      (\<forall>me' ob' (w' :: unit main_world) ob2 w2 srv2 p2. main_start (sample_main_libs unreachable) me' env' fl' ob' w' = (ob2, w2, Inr (srv2, p2)) \<longrightarrow>
        ms_masterKey srv2 = ms_masterKey srv)"
    using restart_with_logged_key [OF full fl s [unfolded start_sample_def], where ?'x = unit and ?'y = unit] by (elim exE conjE) (rule that, assumption+)
  then have h: "h = hex_EncodeToString (replicate 32 CHR ''k'')" "start_master_key h ?r = Inr (ms_masterKey srv, None)"
    using again [rule_format, of "sample_flags h" sample_start_env, THEN conjunct1] by (simp_all add: fl rnd)
  have eq: "ms_masterKey srv2 = ms_masterKey srv" if "start_sample h = ((), sample_world (), Inr (srv2, None))" for srv2
    by (rule again [rule_format, THEN conjunct2, rule_format, OF fl that [unfolded start_sample_def]])
  have "h \<noteq> []" unfolding h(1) by code_simp
  then have "length (ms_masterKey srv) = 32" using h(2) given_key_iff by blast
  from start_sample_succeeds [OF h(2) this] eq s h(1) show ?thesis by blast
qed

section \<open>Templates with S3\<close>

text \<open>
  A start with S3 and no faults: the bucket is there, its templates were written under valid ids,
  and \<open>dir\<close> is the fresh directory of \<open>os.MkdirTemp\<close>.
\<close>

definition s3_ready ::
    "('o, 'f) start_env \<Rightarrow> s3_flags \<Rightarrow> ('o, 'f) s3_client \<Rightarrow> 'f \<Rightarrow> ('o \<Rightarrow> string \<Rightarrow> bytes option) \<Rightarrow> ('o \<Rightarrow> bool)
      \<Rightarrow> 'o \<Rightarrow> 'o \<Rightarrow> S3Storage \<Rightarrow> string \<Rightarrow> file_sys \<Rightarrow> bool" where
  "s3_ready env fl C none view ready ob ob1 s3 dir fs \<longleftrightarrow>
     sf_endpoint fl \<noteq> [] \<and> NewS3Storage (se_client env) none (start_s3_config (se_getenv env) fl) ob = (ob1, Inr (C, s3)) \<and> ready ob1 \<and>
     se_s3_faults env = none \<and> se_faults env = no_faults \<and> se_tmp env = Some dir \<and> dir \<noteq> [] \<and> fresh_dir (resolve dir) fs \<and>
     (\<forall>k. view ob1 k \<noteq> None \<longrightarrow> HasPrefix k ''templates/'' \<longrightarrow> (\<exists>sid. isValidSchemaID sid \<and> k = templateKey sid))"

lemma NewS3Storage_state:
  assumes "NewS3Storage new f cfg ob = (ob1, Inr (C, s3))"
  shows "s3_bucket s3 = sc_Bucket cfg" "\<not> s3_localTemplatesDirOnce s3" "\<not> s3_localTemplatesDirErr s3"
  using assms by (auto simp: NewS3Storage_def Let_def split: if_splits option.splits sum.splits bool.splits prod.splits)

lemma s3_ready_mirror:
  assumes "listed_store C (sf_bucket fl) none view ready" and "s3_ready env fl C none view ready ob ob1 s3 dir fs"
  obtains s' fs1 where "s3_GetTemplatesDir C none no_faults (Some dir) ob1 s3 fs = (s', fs1, dir)"
    "plain_dir (resolve dir) fs1" "\<forall>sid. entry (resolve dir) fs1 (sid @ ''.json'') = view ob1 (templateKey sid)"
    "\<forall>q. q \<noteq> resolve dir \<longrightarrow> (\<forall>sid. q \<noteq> child (resolve dir) (sid @ ''.json'')) \<longrightarrow> node_at fs1 q = node_at fs q"
proof -
  note r = assms(2) [unfolded s3_ready_def]
  have n: "NewS3Storage (se_client env) none (start_s3_config (se_getenv env) fl) ob = (ob1, Inr (C, s3))" using r by blast
  have b: "s3_bucket s3 = sf_bucket fl" using NewS3Storage_state(1) [OF n] by (simp add: start_s3_config_def)
  from r have ready: "ready ob1" "dir \<noteq> []" "fresh_dir (resolve dir) fs"
    "\<forall>k. view ob1 k \<noteq> None \<longrightarrow> HasPrefix k ''templates/'' \<longrightarrow> (\<exists>sid. isValidSchemaID sid \<and> k = templateKey sid)" by blast+
  show thesis
    by (rule listed_store.GetTemplatesDir_mirrors [OF assms(1) ready(1) b NewS3Storage_state(2,3) [OF n] ready(2-4)]) (rule that)
qed

lemma NewValidator_plain:
  assumes "plain_dir (resolve dir) fs" and "dir \<noteq> []"
  shows "NewValidator no_faults dir fs = (fs, Inr \<lparr>v_templatesPath = dir, v_schemas = Map.empty\<rparr>)"
proof -
  have "is_dir fs (resolve dir)" using assms(1) by (simp add: plain_dir_def)
  then show ?thesis using assms(2) by (simp add: NewValidator_def os_Stat_def Let_def)
qed

text \<open>A file of the local copy has what \<open>ReadTemplate\<close> finds in the bucket.\<close>

lemma bucket_template:
  assumes "listed_store C (sf_bucket fl) none view ready" and "s3_ready env fl C none view ready ob ob1 s3 dir fs" and "isValidSchemaID sid"
    and "plain_dir (resolve dir) fs1" and "\<forall>sid. entry (resolve dir) fs1 (sid @ ''.json'') = view ob1 (templateKey sid)"
  shows "os_ReadFile no_faults (Join dir (sid @ ''.json'')) fs1 = (case s3_ReadTemplate C none sid s3 ob1 of Inr d \<Rightarrow> Inr d | Inl e \<Rightarrow> Inl NotExist)"
proof -
  note r = assms(2) [unfolded s3_ready_def]
  have dir: "dir \<noteq> []" and n: "NewS3Storage (se_client env) none (start_s3_config (se_getenv env) fl) ob = (ob1, Inr (C, s3))"
    and ob1: "ready ob1" using r by blast+
  have bucket: "s3_bucket s3 = sf_bucket fl" using NewS3Storage_state(1) [OF n] by (simp add: start_s3_config_def)
  have pl: "plain_name (sid @ ''.json'')" using assms(3) by (simp add: isValidSchemaID_iff plain_name_suffix)
  from object_store.get_none [OF listed_store.axioms(1) [OF assms(1)] ob1]
  have "s3_ReadTemplate C none sid s3 ob1 = (case view ob1 (templateKey sid) of None \<Rightarrow> Inl ErrFileNotFound | Some d \<Rightarrow> Inr d)"
    using assms(3) bucket by (simp add: s3_ReadTemplate_def isValidSchemaID_iff split: option.splits)
  then show ?thesis
    using ReadFile_entry [OF assms(4) _ pl, of "Join dir (sid @ ''.json'')" no_faults] dir pl assms(5) by (simp split: option.splits)
qed

text \<open>
  C36. A Processing Worker started with S3 validates against the templates of the bucket: after a
  start in which no call of the object store or of the file system fails, from a bucket that has only valid names under its templates,
  its validator is there and reads for every valid schema id exactly the template that the
  bucket has, and none where the bucket has none.  (An object that fails to load is skipped without an error.)
\<close>

theorem worker_sees_bucket_templates:
  assumes "listed_store C (sf_bucket (pf_s3 fl)) none view ready" and "s3_ready env (pf_s3 fl) C none view ready ob ob1 s3 dir fs"
    and "proc_start L R env fl ob fs = (ob', fs', Inr (b, srv))"
  shows "ob' = ob1 \<and> (\<exists>v. ps_validator srv = Some v \<and> (\<forall>sid. isValidSchemaID sid \<longrightarrow>
    GetTemplateData no_faults v sid fs' = (case s3_ReadTemplate C none sid s3 ob' of
      Inr d \<Rightarrow> Inr d | Inl e \<Rightarrow> Inl (TemplateReadFailed (Join dir (sid @ ''.json'')) NotExist))))"
proof -
  obtain s' fs1 where g: "s3_GetTemplatesDir C none no_faults (Some dir) ob1 s3 fs = (s', fs1, dir)"
    "plain_dir (resolve dir) fs1" "\<forall>sid. entry (resolve dir) fs1 (sid @ ''.json'') = view ob1 (templateKey sid)"
    using s3_ready_mirror [OF assms(1,2)] by metis
  note r = assms(2) [unfolded s3_ready_def]
  have dir: "dir \<noteq> []" and n: "NewS3Storage (se_client env) none (start_s3_config (se_getenv env) (pf_s3 fl)) ob = (ob1, Inr (C, s3))"
    and ob1: "ready ob1" using r by blast+
  have out: "ob' = ob1" "fs' = fs1" "ps_validator srv = Some \<lparr>v_templatesPath = dir, v_schemas = Map.empty\<rparr>"
    using assms(3) r g(1)
    by (auto simp: proc_start_def start_backend_def backend_templates_dir_def NewProcWorkerServer_def NewValidator_plain [OF g(2) dir] Let_def
        split: sum.splits)
  have "GetTemplateData no_faults \<lparr>v_templatesPath = dir, v_schemas = Map.empty\<rparr> sid fs1 = (case s3_ReadTemplate C none sid s3 ob1 of
      Inr d \<Rightarrow> Inr d | Inl e \<Rightarrow> Inl (TemplateReadFailed (Join dir (sid @ ''.json'')) NotExist))" if sid: "isValidSchemaID sid" for sid
    using bucket_template [OF assms(1,2) sid g(2,3)] sid by (simp add: GetTemplateData_def Let_def split: sum.splits)
  with out show ?thesis by auto
qed

text \<open>Making a directory in a directory that is there.\<close>

lemma mkdirs_existing: "\<forall>q \<in> set qs. is_dir fs q \<Longrightarrow> mkdirs (qs @ rs) fs = mkdirs rs fs"
  by (induction qs) (simp_all add: os_Mkdir_def)

lemma MkdirAll_child:
  assumes "\<forall>i \<le> length (snd d). is_dir fs (fst d, take i (snd d))" and "resolve p = child d n" and "\<not> is_dir fs (child d n)" and "node_at fs (child d n) = None"
  shows "os_MkdirAll no_faults p fs = (set_node (child d n) DirNode fs, None)"
proof -
  have "map (\<lambda>i. (fst (child d n), take i (snd (child d n)))) [1..<Suc (length (snd (child d n)))] =
      map (\<lambda>i. (fst d, take i (snd d))) [1..<Suc (length (snd d))] @ [child d n]"
    by (auto simp: child_def)
  moreover have "\<forall>q \<in> set (map (\<lambda>i. (fst d, take i (snd d))) [1..<Suc (length (snd d))]). is_dir fs q" using assms(1) by (auto simp del: upt_Suc)
  ultimately show ?thesis
    using assms(2-4) mkdirs_existing by (simp add: os_MkdirAll_def Let_def os_Mkdir_def)
qed

lemma NewValidator_new_child:
  assumes "plain_dir d fs" and "\<forall>i \<le> length (snd d). is_dir fs (fst d, take i (snd d))" and "resolve p = child d n" and "p \<noteq> []" and "plain_name n"
    and "\<forall>names. node_at fs (fst d, snd d @ n # names) = None"
  shows "NewValidator no_faults p fs = (set_node (child d n) DirNode fs, Inr \<lparr>v_templatesPath = p, v_schemas = Map.empty\<rparr>)"
    "plain_dir (child d n) (set_node (child d n) DirNode fs)" "entry (child d n) (set_node (child d n) DirNode fs) = Map.empty"
proof -
  have none: "node_at fs (child d n) = None" "\<And>m. node_at fs (child (child d n) m) = None"
    using assms(6) by (simp_all add: child_def)
  have nd: "\<not> is_dir fs (child d n)" by (rule is_dir_child [OF assms(1,5)])
  have "entry d fs n = None" using none(1) by (simp add: entry_def)
  then have "os_Stat no_faults p fs = Some NotExist" using Stat_entry [OF assms(1,3,5)] by simp
  then show "NewValidator no_faults p fs = (set_node (child d n) DirNode fs, Inr \<lparr>v_templatesPath = p, v_schemas = Map.empty\<rparr>)"
    using assms(4) MkdirAll_child [OF assms(2,3) nd none(1)] by (simp add: NewValidator_def Let_def)
  show "entry (child d n) (set_node (child d n) DirNode fs) = Map.empty" by (simp add: entry_def none fun_eq_iff)
  have "node_at (set_node (child d n) DirNode fs) (fst (child d n), take i (snd (child d n))) \<noteq> Some (FileNode b)"
    if "i \<le> length (snd (child d n))" for i b
  proof (cases "i \<le> length (snd d)")
    case True
    then show ?thesis using assms(1) ancestor_not_child [OF True] by (simp add: plain_dir_def child_def)
  next
    case False
    with that have "take i (snd (child d n)) = snd (child d n)" by (simp add: child_def)
    then show ?thesis by simp
  qed
  then show "plain_dir (child d n) (set_node (child d n) DirNode fs)"
    by (simp add: plain_dir_def is_dir_def none)
qed

lemma ReadFile_new_dir:
  assumes "node_at fs q = None" and "resolve p \<noteq> q"
  shows "os_ReadFile F p (set_node q DirNode fs) = os_ReadFile F p fs"
proof -
  have "(case node_at (set_node q DirNode fs) x of Some (FileNode b) \<Rightarrow> True | _ \<Rightarrow> False) = (case node_at fs x of Some (FileNode b) \<Rightarrow> True | _ \<Rightarrow> False)" for x
    using assms(1) by (cases "x = q") simp_all
  then have "missing_error (set_node q DirNode fs) r = missing_error fs r" for r by (simp only: missing_error_def)
  with assms show ?thesis by (simp add: os_ReadFile_def is_dir_def Let_def split: option.splits node.splits)
qed

text \<open>A directory of plain files without entries has no templates.\<close>

lemma no_templates:
  assumes "plain_dir (resolve (v_templatesPath v)) fs" and "v_templatesPath v \<noteq> []" and "entry (resolve (v_templatesPath v)) fs = Map.empty"
  shows "ListAvailableTemplates no_faults v fs = Inr []"
    "isValidSchemaID sid \<Longrightarrow> GetTemplateData no_faults v sid fs = Inl (TemplateReadFailed (Join (v_templatesPath v) (sid @ ''.json'')) NotExist)"
proof -
  have inv: "validator_inv v fs" using assms(1,2) by (simp add: validator_inv_def)
  from ListAvailableTemplates_entry [OF this] show "ListAvailableTemplates no_faults v fs = Inr []" using assms(3) by auto
  assume sid: "isValidSchemaID sid"
  note tp = template_paths [OF assms(2) sid]
  show "GetTemplateData no_faults v sid fs = Inl (TemplateReadFailed (Join (v_templatesPath v) (sid @ ''.json'')) NotExist)"
    using sid ReadFile_entry [OF assms(1) tp(1,3), of no_faults] assms(3) by (simp add: GetTemplateData_def Let_def)
qed

lemma NewMainWorkerServer_parts:
  assumes "NewMainWorkerServer Lib me (Some c) w = (w', Inr srv)" and "cf_SharedFSPath c \<noteq> []"
    and "NewValidator (me_faults me) (Join (cf_SharedFSPath c) ''templates'') (mw_files w) = (fs', Inr v)"
  shows "mw_files w' = fs'" "ms_validator srv = Some v"
    "cf_KeyStorePath c = [] \<Longrightarrow> km_storePath (ms_keyManager srv) = Join (cf_SharedFSPath c) ''_auth/keys.json''"
proof -
  have lk: "load_keys ks km = Inr km' \<Longrightarrow> km_storePath km' = km_storePath km" for ks km km'
    by (induction ks km rule: load_keys.induct) simp_all
  have sp: "NewKeyManager u r q = Inr km \<Longrightarrow> km_storePath km = q" for u r q km
    by (auto dest!: lk simp: NewKeyManager_def load_def Let_def split: if_splits read_result.splits option.splits sum.splits)
  have wd: "cf_SharedFSPath (with_defaults x) = cf_SharedFSPath x"
    "cf_KeyStorePath (with_defaults x) = (if cf_KeyStorePath x = [] \<and> cf_SharedFSPath x \<noteq> [] then Join (cf_SharedFSPath x) ''_auth/keys.json'' else cf_KeyStorePath x)" for x
    by (auto simp: with_defaults_def Let_def)
  show "mw_files w' = fs'" "ms_validator srv = Some v"
    using assms by (auto simp: NewMainWorkerServer_def Let_def wd split: if_splits sum.splits prod.splits)
  show "cf_KeyStorePath c = [] \<Longrightarrow> km_storePath (ms_keyManager srv) = Join (cf_SharedFSPath c) ''_auth/keys.json''"
    using assms by (auto simp: NewMainWorkerServer_def Let_def wd dest!: sp split: if_splits sum.splits prod.splits)
qed

text \<open>The tree after the templates were copied into the fresh directory.\<close>

lemma mirror_layout:
  assumes fresh: "fresh_dir d fs" and "plain_dir d fs1"
    and frame: "\<forall>q. q \<noteq> d \<longrightarrow> (\<forall>sid. q \<noteq> child d (sid @ ''.json'')) \<longrightarrow> node_at fs1 q = node_at fs q"
  shows "\<forall>i \<le> length (snd d). is_dir fs1 (fst d, take i (snd d))" "\<forall>names. node_at fs1 (fst d, snd d @ ''templates'' # names) = None"
proof -
  show "\<forall>i \<le> length (snd d). is_dir fs1 (fst d, take i (snd d))"
  proof (intro allI impI)
    fix i assume i: "i \<le> length (snd d)"
    show "is_dir fs1 (fst d, take i (snd d))"
    proof (cases "i = length (snd d)")
      case False
      with i have "(fst d, take i (snd d)) \<noteq> d" "is_dir fs (fst d, take i (snd d))"
        using fresh by (auto simp: fresh_dir_def prod_eq_iff dest: arg_cong [of _ _ length])
      then show ?thesis using frame ancestor_not_child [OF i] by (simp add: is_dir_def)
    qed (use assms(2) in \<open>simp add: plain_dir_def\<close>)
  qed
  show "\<forall>names. node_at fs1 (fst d, snd d @ ''templates'' # names) = None"
  proof
    fix names
    have "(fst d, snd d @ ''templates'' # names) \<noteq> child d (sid @ ''.json'')" for sid
      by (auto simp: child_def dest: arg_cong [of _ _ last])
    then show "node_at fs1 (fst d, snd d @ ''templates'' # names) = None"
      using frame fresh by (simp add: fresh_dir_def prod_eq_iff)
  qed
qed

text \<open>
  The Main Worker does not use the templates of the bucket: started with S3 it copies them into
  a temporary directory, but its validator looks in the subdirectory templates of that directory,
  which is new and empty.  So it lists no schema and answers no schema request, whatever the
  bucket has; and unless -key-store is given, the API keys are saved below the same temporary
  directory.
\<close>

theorem main_misses_bucket_templates:
  assumes "listed_store C (sf_bucket (mf_s3 fl)) none view ready" and "s3_ready env (mf_s3 fl) C none view ready ob ob1 s3 dir (mw_files w)"
    and "me_faults me = no_faults" and "main_start Lib me env fl ob w = (ob', w', Inr (srv, p))"
  shows "(\<forall>sid. isValidSchemaID sid \<longrightarrow> os_ReadFile no_faults (Join dir (sid @ ''.json'')) (mw_files w') =
      (case s3_ReadTemplate C none sid s3 ob' of Inr d \<Rightarrow> Inr d | Inl e \<Rightarrow> Inl NotExist)) \<and>
    (\<exists>v. ms_validator srv = Some v \<and> v_templatesPath v = Join dir ''templates'' \<and>
      ListAvailableTemplates no_faults v (mw_files w') = Inr [] \<and>
      (\<forall>sid. isValidSchemaID sid \<longrightarrow> GetTemplateData no_faults v sid (mw_files w') =
        Inl (TemplateReadFailed (Join (Join dir ''templates'') (sid @ ''.json'')) NotExist))) \<and>
    (mf_keyStorePath fl = [] \<longrightarrow> km_storePath (ms_keyManager srv) = Join dir ''_auth/keys.json'')"
proof -
  let ?d = "resolve dir" and ?fs = "mw_files w"
  obtain s' fs1 where g: "s3_GetTemplatesDir C none no_faults (Some dir) ob1 s3 ?fs = (s', fs1, dir)"
    "plain_dir ?d fs1" "\<forall>sid. entry ?d fs1 (sid @ ''.json'') = view ob1 (templateKey sid)"
    "\<forall>q. q \<noteq> ?d \<longrightarrow> (\<forall>sid. q \<noteq> child ?d (sid @ ''.json'')) \<longrightarrow> node_at fs1 q = node_at ?fs q"
    using s3_ready_mirror [OF assms(1,2)] by metis
  note r = assms(2) [unfolded s3_ready_def]
  have dir: "dir \<noteq> []" and fresh: "fresh_dir ?d ?fs" using r by blast+
  note layout = mirror_layout [OF fresh g(2,4)]
  have pl: "plain_name ''templates''" by (simp add: plain_name_def)
  have rj: "resolve (Join dir ''templates'') = child ?d ''templates''" "Join dir ''templates'' \<noteq> []" using dir pl by simp_all
  note nv = NewValidator_new_child [OF g(2) layout(1) rj pl layout(2)]
  let ?fs2 = "set_node (child ?d ''templates'') DirNode fs1" and ?v = "\<lparr>v_templatesPath = Join dir ''templates'', v_schemas = Map.empty\<rparr>"
  obtain key where m: "NewMainWorkerServer Lib me (Some (start_config fl dir key)) (w\<lparr>mw_files := fs1\<rparr>) = (w', Inr srv)" "ob' = ob1"
    using assms(4) r g(1) dir by (auto simp: main_start_def start_templates_dir_def split: sum.splits prod.splits)
  have cfg: "cf_SharedFSPath (start_config fl dir key) = dir" "cf_KeyStorePath (start_config fl dir key) = mf_keyStorePath fl"
    by (simp_all add: start_config_def)
  have parts: "mw_files w' = ?fs2" "ms_validator srv = Some ?v"
    "mf_keyStorePath fl = [] \<Longrightarrow> km_storePath (ms_keyManager srv) = Join dir ''_auth/keys.json''"
    by (use NewMainWorkerServer_parts [OF m(1), of ?fs2 ?v] cfg dir assms(3) nv(1) in simp_all)
  have "os_ReadFile no_faults (Join dir (sid @ ''.json'')) ?fs2 = (case s3_ReadTemplate C none sid s3 ob1 of Inr d \<Rightarrow> Inr d | Inl e \<Rightarrow> Inl NotExist)"
    if sid: "isValidSchemaID sid" for sid
  proof -
    have "child ?d ''templates'' \<noteq> child ?d (sid @ ''.json'')" by (auto dest: arg_cong [of _ _ last])
    moreover have "resolve (Join dir (sid @ ''.json'')) = child ?d (sid @ ''.json'')"
      using dir sid by (simp add: isValidSchemaID_iff plain_name_suffix)
    moreover have "node_at fs1 (child ?d ''templates'') = None" using layout(2) by (simp add: child_def)
    ultimately have "os_ReadFile no_faults (Join dir (sid @ ''.json'')) ?fs2 = os_ReadFile no_faults (Join dir (sid @ ''.json'')) fs1"
      by (intro ReadFile_new_dir) simp_all
    then show ?thesis using bucket_template [OF assms(1,2) sid g(2,3)] by simp
  qed
  moreover obtain v where v: "ms_validator srv = Some v" "v_templatesPath v = Join dir ''templates''" using parts(2) by auto
  moreover have "plain_dir (resolve (v_templatesPath v)) ?fs2" "v_templatesPath v \<noteq> []" "entry (resolve (v_templatesPath v)) ?fs2 = Map.empty"
    unfolding v(2) using rj nv(2,3) by simp_all
  note no_templates [OF this]
  ultimately show ?thesis using parts(1,3) m(2) by simp
qed

section \<open>A sample start with S3\<close>

text \<open>A bucket with the template chat, and a machine whose temporary directory will be /tmp/t.\<close>

definition start_buckets :: buckets where
  "start_buckets = [''deltadatabase'' \<mapsto> [templateKey ''chat'' \<mapsto> ''{}'']]"

definition sample_s3_env :: "(buckets, s3_call \<Rightarrow> bool option) start_env" where
  "sample_s3_env = \<lparr>se_getenv = (\<lambda>_. ''minioadmin''), se_random = (\<lambda>n. Some (replicate n CHR ''k'')), se_client = (\<lambda>_. Some map_client),
     se_s3_faults = (\<lambda>_. None), se_faults = no_faults, se_tmp = Some ''/tmp/t'', se_hostname = Some ''host'', se_seed = []\<rparr>"

definition sample_s3_flags :: s3_flags where
  "sample_s3_flags = default_s3_flags\<lparr>sf_endpoint := ''minio:9000''\<rparr>"

definition start_tree :: file_sys where
  "start_tree = [((True, [''tmp'']), DirNode)]"

definition start_s3 :: S3Storage where
  "start_s3 = \<lparr>s3_bucket = ''deltadatabase'', s3_localTemplatesDir = [], s3_localTemplatesDirOnce = False, s3_localTemplatesDirErr = False\<rparr>"

abbreviation sample_bucket_ready :: "buckets \<Rightarrow> bool" where
  "sample_bucket_ready bs \<equiv> bs ''deltadatabase'' \<noteq> None \<and> finite (dom (the (bs ''deltadatabase'')))"

lemma sample_listed:
  "listed_store map_client (sf_bucket sample_s3_flags) (\<lambda>_. None) (bucket_objects ''deltadatabase'') sample_bucket_ready"
  using map_listed.listed_store_axioms [of "''deltadatabase''"] by (simp add: sample_s3_flags_def default_s3_flags_def)

lemma sample_fresh: "fresh_dir (resolve ''/tmp/t'') start_tree"
proof -
  have r: "resolve ''/tmp/t'' = (True, [''tmp'', ''t''])" by code_simp
  have "take i [''tmp'', ''t''] = [] \<or> take i [''tmp'', ''t''] = [''tmp'']" if "i < 2" for i
    using that by (auto simp: take_Cons')
  then have "is_dir start_tree (True, take i [''tmp'', ''t'']) \<and> node_at start_tree (True, take i [''tmp'', ''t'']) \<noteq> Some (FileNode b)" if "i < 2" for i b
    using that by (fastforce simp: is_dir_def start_tree_def)
  then show ?thesis unfolding r by (simp add: fresh_dir_def) (simp add: is_dir_def start_tree_def)
qed

lemma sample_s3_ready:
  "s3_ready sample_s3_env sample_s3_flags map_client (\<lambda>_. None) (bucket_objects ''deltadatabase'') sample_bucket_ready
     start_buckets start_buckets start_s3 ''/tmp/t'' start_tree"
proof -
  have "isValidSchemaID ''chat''" by code_simp
  then show ?thesis
    using sample_fresh
    by (auto simp: s3_ready_def sample_s3_env_def sample_s3_flags_def default_s3_flags_def NewS3Storage_def start_s3_config_def start_s3_def
        map_client_def start_buckets_def bucket_objects_def Let_def split: if_splits)
qed

lemma sample_chat: "s3_ReadTemplate map_client (\<lambda>_. None) ''chat'' start_s3 start_buckets = Inr ''{}''"
proof -
  have "isValidEntityID ''chat''" by code_simp
  then show ?thesis by (simp add: s3_ReadTemplate_def map_client_def start_buckets_def start_s3_def)
qed

definition sample_proc_start ::
    "buckets \<times> file_sys \<times> (start_error + (buckets, s3_call \<Rightarrow> bool option) backend \<times> (list_lru, unit, unit, unit) ProcWorkerServer)" where
  "sample_proc_start = proc_start list_lru_ops sample_rsa sample_s3_env (default_proc_flags\<lparr>pf_cacheSize := 2, pf_s3 := sample_s3_flags\<rparr>) start_buckets start_tree"

lemma sample_proc_started: "\<exists>ob' fs' b srv. sample_proc_start = (ob', fs', Inr (b, srv))"
  using sample_store_cache_new sample_s3_ready
  by (auto simp: sample_proc_start_def proc_start_def start_backend_def default_proc_flags_def s3_ready_def sample_s3_env_def NewProcWorker_def
      start_worker_id_def start_proc_config_def GenerateRSAKeyPair_def sample_rsa_def split: prod.splits)

theorem worker_sees_bucket_templates_witness:
  "\<exists>ob' fs' b srv v. sample_proc_start = (ob', fs', Inr (b, srv)) \<and> ps_validator srv = Some v \<and> GetTemplateData no_faults v ''chat'' fs' = Inr ''{}''"
proof -
  obtain ob' fs' b srv where s: "sample_proc_start = (ob', fs', Inr (b, srv))" using sample_proc_started by blast
  let ?fl = "default_proc_flags\<lparr>pf_cacheSize := 2, pf_s3 := sample_s3_flags\<rparr>"
  have fl: "pf_s3 ?fl = sample_s3_flags" by simp
  have "isValidSchemaID ''chat''" by code_simp
  with worker_sees_bucket_templates [of map_client ?fl, unfolded fl, OF sample_listed sample_s3_ready s [unfolded sample_proc_start_def]]
  obtain v where "ob' = start_buckets" "ps_validator srv = Some v" "GetTemplateData no_faults v ''chat'' fs' = Inr ''{}''"
    using sample_chat by auto
  with s show ?thesis by blast
qed

definition sample_main_start ::
    "buckets \<times> unit main_world \<times> (start_error + (list_lru, unit) MainWorkerServer \<times> string option)" where
  "sample_main_start = main_start (sample_main_libs unreachable) ((sample_main_env 0 ''r'')\<lparr>me_faults := no_faults\<rparr>) sample_s3_env
     ((sample_flags [])\<lparr>mf_s3 := sample_s3_flags\<rparr>) start_buckets ((sample_world ())\<lparr>mw_files := start_tree\<rparr>)"

lemma sample_main_start_succeeds: "\<exists>ob' w' srv p. sample_main_start = (ob', w', Inr (srv, p))"
proof -
  obtain s' fs1 where g: "s3_GetTemplatesDir map_client (\<lambda>_. None) no_faults (Some ''/tmp/t'') start_buckets start_s3 start_tree = (s', fs1, ''/tmp/t'')"
    using s3_ready_mirror [OF sample_listed sample_s3_ready] by metis
  have "start_templates_dir sample_s3_env ((sample_flags [])\<lparr>mf_s3 := sample_s3_flags\<rparr>) start_buckets start_tree = (start_buckets, fs1, Inr ''/tmp/t'')"
    using sample_s3_ready g by (simp add: start_templates_dir_def s3_ready_def sample_s3_env_def)
  then show ?thesis
    using sample_keys_loaded sample_store_cache_new
    by (simp add: sample_main_start_def main_start_def start_master_key_def GenerateKey_def sample_s3_env_def sample_flags_def default_main_flags_def
        start_config_def NewMainWorkerServer_def with_defaults_def Let_def sample_world_def split: prod.splits sum.splits)
qed

theorem main_misses_bucket_templates_witness:
  "\<exists>ob' w' srv p v e. sample_main_start = (ob', w', Inr (srv, p)) \<and> os_ReadFile no_faults (Join ''/tmp/t'' ''chat.json'') (mw_files w') = Inr ''{}'' \<and>
    ms_validator srv = Some v \<and> ListAvailableTemplates no_faults v (mw_files w') = Inr [] \<and> GetTemplateData no_faults v ''chat'' (mw_files w') = Inl e"
proof -
  obtain ob' w' srv p where s: "sample_main_start = (ob', w', Inr (srv, p))" using sample_main_start_succeeds by blast
  let ?fl = "(sample_flags [])\<lparr>mf_s3 := sample_s3_flags\<rparr>" and ?w = "(sample_world ())\<lparr>mw_files := start_tree\<rparr>"
  have fl: "mf_s3 ?fl = sample_s3_flags" "mw_files ?w = start_tree" by simp_all
  have ob': "ob' = start_buckets"
    using s sample_s3_ready unfolding sample_main_start_def main_start_def
    by (auto simp: start_templates_dir_def s3_ready_def fl sample_s3_env_def split: sum.splits prod.splits)
  have "isValidSchemaID ''chat''" by code_simp
  with main_misses_bucket_templates [of map_client ?fl, unfolded fl, OF sample_listed _ _ s [unfolded sample_main_start_def], unfolded fl, OF sample_s3_ready]
    sample_chat s ob' show ?thesis by fastforce
qed

end
