(* ===== verification/Json_Text.thy ===== *)
theory Json_Text
  imports Hex_Text
begin

text \<open>
  JSON text as Go's package encoding/json writes and reads it.  Strings are bytes: the encoder
  copies valid UTF-8, escapes what HTML or JSON requires, and replaces every byte that is not part
  of a valid encoding; the decoder does the same on its side.  The parser follows the grammar and
  the nesting limit of the package's scanner.  It is shown that what the encoder writes of a valid
  string is read back, and that every decoded string is valid UTF-8.
\<close>

section \<open>UTF-8\<close>

abbreviation code :: "char \<Rightarrow> nat" where "code c \<equiv> of_char c"

text \<open>The tables of package unicode/utf8: length of an encoding by its first byte, and the range of the second byte.\<close>

definition utf8_accept :: "nat \<Rightarrow> nat \<times> nat \<times> nat" where
  "utf8_accept b =
     (if b < 128 then (1, 0, 0)
      else if b < 194 then (0, 0, 0)
      else if b < 224 then (2, 128, 191)
      else if b = 224 then (3, 160, 191)
      else if b = 237 then (3, 128, 159)
      else if b < 240 then (3, 128, 191)
      else if b = 240 then (4, 144, 191)
      else if b < 244 then (4, 128, 191)
      else if b = 244 then (4, 128, 143)
      else (0, 0, 0))"

definition utf8_cont :: "char \<Rightarrow> bool" where
  "utf8_cont c \<longleftrightarrow> 128 \<le> code c \<and> code c \<le> 191"

text \<open>The length of the encoding at the front, 0 when there is none: \<open>utf8.DecodeRune\<close> returns \<open>RuneError\<close>.\<close>

fun utf8_len :: "bytes \<Rightarrow> nat" where
  "utf8_len [] = 0"
| "utf8_len (c # s) =
     (case utf8_accept (code c) of
        (n, lo, hi) \<Rightarrow>
          if n \<le> 1 then n
          else if n - 1 \<le> length s \<and> lo \<le> code (hd s) \<and> code (hd s) \<le> hi \<and> list_all utf8_cont (take (n - 2) (tl s)) then n
          else 0)"

lemma utf8_len_le: "utf8_len s \<le> length s"
  by (cases s) (auto simp: utf8_accept_def split: prod.splits)

function valid_utf8 :: "bytes \<Rightarrow> bool" where
  "valid_utf8 s = (if s = [] then True else if utf8_len s = 0 then False else valid_utf8 (drop (utf8_len s) s))"
  by pat_completeness auto
termination by (relation "measure length") auto

declare valid_utf8.simps [simp del]

lemma valid_utf8_Nil [simp]: "valid_utf8 []"
  by (simp add: valid_utf8.simps)

lemma utf8_len_append: "utf8_len a \<noteq> 0 \<Longrightarrow> utf8_len (a @ b) = utf8_len a"
proof (cases a)
  case (Cons c s)
  assume ne: "utf8_len a \<noteq> 0"
  obtain n lo hi where t: "utf8_accept (code c) = (n, lo, hi)" by (cases "utf8_accept (code c)")
  show ?thesis
  proof (cases "n \<le> 1")
    case False
    with ne t Cons have l: "n - 1 \<le> length s" by (auto split: if_splits)
    with False obtain x xs where s: "s = x # xs" by (cases s) auto
    with l have "take (n - 2) (xs @ b) = take (n - 2) xs" by simp
    with ne t Cons s False show ?thesis by (auto split: if_splits)
  qed (use t Cons in simp)
qed simp

lemma valid_utf8_append: "valid_utf8 a \<Longrightarrow> valid_utf8 b \<Longrightarrow> valid_utf8 (a @ b)"
proof (induction a rule: valid_utf8.induct)
  case (1 a)
  show ?case
  proof (cases "a = []")
    case False
    with 1 have n: "utf8_len a \<noteq> 0" "valid_utf8 (drop (utf8_len a) a @ b)" by (simp_all add: valid_utf8.simps [of a] split: if_splits)
    then show ?thesis using utf8_len_le [of a] by (simp add: valid_utf8.simps [of "a @ b"] utf8_len_append)
  qed (use 1 in simp)
qed

lemma utf8_len_first: "utf8_len s \<noteq> 0 \<Longrightarrow> utf8_len (take (utf8_len s) s) = utf8_len s"
proof -
  assume n: "utf8_len s \<noteq> 0"
  show ?thesis
  proof (cases s)
    case (Cons c t)
    obtain k lo hi where a: "utf8_accept (code c) = (k, lo, hi)" by (cases "utf8_accept (code c)")
    show ?thesis
    proof (cases "k \<le> 1")
      case True
      with n a Cons show ?thesis by (cases k) auto
    next
      case False
      with n a Cons have l: "k - 1 \<le> length t" "utf8_len s = k" by (auto split: if_splits)
      with False obtain x xs where t: "t = x # xs" by (cases t) auto
      obtain m where k: "k = Suc (Suc m)" using False by (metis One_nat_def Suc_le_mono not0_implies_Suc zero_le)
      show ?thesis using n a Cons l t by (auto simp: k min_def split: if_splits)
    qed
  qed (use n in simp)
qed

lemma valid_utf8_first: "utf8_len s \<noteq> 0 \<Longrightarrow> valid_utf8 (take (utf8_len s) s)"
  using utf8_len_first [of s] utf8_len_le [of s] by (simp add: valid_utf8.simps [of "take (utf8_len s) s"])


text \<open>\<open>utf8.AppendRune\<close> of a code point.\<close>

definition utf8_encode :: "nat \<Rightarrow> bytes" where
  "utf8_encode r =
     (if r < 128 then [char_of r]
      else if r < 2048 then [char_of (192 + r div 64), char_of (128 + r mod 64)]
      else if r < 65536 then [char_of (224 + r div 4096), char_of (128 + r div 64 mod 64), char_of (128 + r mod 64)]
      else [char_of (240 + r div 262144), char_of (128 + r div 4096 mod 64), char_of (128 + r div 64 mod 64), char_of (128 + r mod 64)])"

definition unicode_scalar :: "nat \<Rightarrow> bool" where
  "unicode_scalar r \<longleftrightarrow> r < 55296 \<or> 57344 \<le> r \<and> r < 1114112"


lemma byte_code [simp]: "n < 256 \<Longrightarrow> code (char_of n) = n"
  by simp

lemma utf8_len_encode: "unicode_scalar r \<Longrightarrow> utf8_len (utf8_encode r) = length (utf8_encode r)"
proof -
  assume r: "unicode_scalar r"
  consider "r < 128" | "128 \<le> r" "r < 2048" | "2048 \<le> r" "r < 65536" | "65536 \<le> r" "r < 1114112"
    using r by (fastforce simp: unicode_scalar_def)
  then show ?thesis
  proof cases
    case 1
    then show ?thesis by (simp add: utf8_encode_def utf8_accept_def)
  next
    case 2
    have "r div 64 < 32" "2 \<le> r div 64" "r mod 64 < 64" using 2 by (simp_all add: less_mult_imp_div_less less_eq_div_iff_mult_less_eq)
    with 2 show ?thesis by (simp add: utf8_encode_def utf8_accept_def)
  next
    case 3
    define a b where "a = r div 4096" and "b = r div 64 mod 64"
    have a: "a < 16" "b < 64" "r mod 64 < 64" using 3 by (simp_all add: a_def b_def less_mult_imp_div_less)
    have eq: "r = a * 4096 + b * 64 + r mod 64"
    proof -
      have "r div 64 div 64 = a" by (simp add: a_def div_mult2_eq [symmetric])
      moreover have "r div 64 div 64 * 64 + r div 64 mod 64 = r div 64" "r div 64 * 64 + r mod 64 = r" by simp_all
      ultimately show ?thesis unfolding b_def by linarith
    qed
    have "a = 0 \<Longrightarrow> 32 \<le> b" using 3 eq a by linarith
    moreover have "a = 13 \<Longrightarrow> b < 32" using r 3 eq a by (simp add: unicode_scalar_def)
    ultimately have "utf8_len [char_of (224 + a), char_of (128 + b), char_of (128 + r mod 64)] = 3"
      using a by (simp add: utf8_accept_def utf8_cont_def) linarith
    with 3 show ?thesis by (simp add: utf8_encode_def a_def b_def del: utf8_len.simps)
  next
    case 4
    define a b c where "a = r div 262144" and "b = r div 4096 mod 64" and "c = r div 64 mod 64"
    have a: "a < 5" "b < 64" "c < 64" "r mod 64 < 64" using 4 by (simp_all add: a_def b_def c_def less_mult_imp_div_less)
    have lo: "a * 262144 + b * 4096 \<le> r" "r < a * 262144 + b * 4096 + 4096"
    proof -
      have "r div 4096 div 64 = a" by (simp add: a_def div_mult2_eq [symmetric])
      moreover have "r div 4096 div 64 * 64 + r div 4096 mod 64 = r div 4096" "r div 4096 * 4096 + r mod 4096 = r" "r mod 4096 < 4096" by simp_all
      ultimately show "a * 262144 + b * 4096 \<le> r" "r < a * 262144 + b * 4096 + 4096" unfolding b_def by linarith+
    qed
    have "a = 0 \<Longrightarrow> 16 \<le> b" "a = 4 \<Longrightarrow> b < 16" using 4 lo a by linarith+
    moreover have "utf8_accept (240 + a) = (4, if a = 0 then 144 else 128, if a = 4 then 143 else 191)"
      using a(1) by (auto simp: utf8_accept_def)
    ultimately have "utf8_len [char_of (240 + a), char_of (128 + b), char_of (128 + c), char_of (128 + r mod 64)] = 4"
      using a by (auto simp: utf8_cont_def take_Cons')
    with 4 show ?thesis by (simp add: utf8_encode_def a_def b_def c_def del: utf8_len.simps)
  qed
qed

lemma valid_utf8_encode: "unicode_scalar r \<Longrightarrow> valid_utf8 (utf8_encode r)"
  using utf8_len_encode [of r] by (simp add: valid_utf8.simps [of "utf8_encode r"])

section \<open>Strings\<close>

abbreviation quote :: char where "quote \<equiv> CHR 0x22"
abbreviation backslash :: char where "backslash \<equiv> CHR 0x5C"

text \<open>The replacement character U+FFFD.\<close>

definition rune_error :: bytes where
  "rune_error = [CHR 0xEF, CHR 0xBF, CHR 0xBD]"

definition html_safe :: "char \<Rightarrow> bool" where
  "html_safe c \<longleftrightarrow> 32 \<le> code c \<and> code c < 128 \<and> c \<notin> {quote, CHR ''&'', CHR ''<'', CHR ''>'', backslash}"

definition escape_char :: "char \<Rightarrow> bytes" where
  "escape_char c =
     (if c = backslash \<or> c = quote then [backslash, c]
      else if c = CHR 0x08 then [backslash, CHR ''b'']
      else if c = CHR 0x0C then [backslash, CHR ''f'']
      else if c = CHR 0x0A then [backslash, CHR ''n'']
      else if c = CHR 0x0D then [backslash, CHR ''r'']
      else if c = CHR 0x09 then [backslash, CHR ''t'']
      else [backslash, CHR ''u'', CHR ''0'', CHR ''0'', hex_digit (code c div 16), hex_digit (code c mod 16)])"

text \<open>\<open>appendString\<close> with HTML escaping, without the quotes; U+2028 and U+2029 are escaped too.\<close>

function json_escape :: "bytes \<Rightarrow> bytes" where
  "json_escape [] = []"
| "json_escape (c # s) =
     (if code c < 128 then (if html_safe c then [c] else escape_char c) @ json_escape s
      else if utf8_len (c # s) = 0 then [backslash, CHR ''u'', CHR ''f'', CHR ''f'', CHR ''f'', CHR ''d''] @ json_escape s
      else
        let n = utf8_len (c # s); r = take n (c # s) in
        (if r = [CHR 0xE2, CHR 0x80, CHR 0xA8] then [backslash, CHR ''u'', CHR ''2'', CHR ''0'', CHR ''2'', CHR ''8'']
         else if r = [CHR 0xE2, CHR 0x80, CHR 0xA9] then [backslash, CHR ''u'', CHR ''2'', CHR ''0'', CHR ''2'', CHR ''9'']
         else r) @ json_escape (drop n (c # s)))"
  by pat_completeness auto
termination by (relation "measure length") (auto simp: Let_def)

definition json_quote :: "bytes \<Rightarrow> bytes" where
  "json_quote s = quote # json_escape s @ [quote]"

text \<open>\<open>getu4\<close> after the letter u: four hexadecimal digits.\<close>

fun getu4 :: "bytes \<Rightarrow> (nat \<times> bytes) option" where
  "getu4 (a # b # c # d # s) =
     (case (hex_value a, hex_value b, hex_value c, hex_value d) of
        (Some w, Some x, Some y, Some z) \<Rightarrow> Some (4096 * w + 256 * x + 16 * y + z, s)
      | _ \<Rightarrow> None)"
| "getu4 s = None"

text \<open>
  \<open>unquoteBytes\<close> on what follows \<open>\u\<close>: a surrogate needs its partner in a second escape, which is
  read with it, and is replaced by U+FFFD otherwise.
\<close>

definition surrogate :: "nat \<Rightarrow> bool" where
  "surrogate r \<longleftrightarrow> 55296 \<le> r \<and> r < 57344"

definition utf16_pair :: "nat \<Rightarrow> nat \<Rightarrow> nat option" where
  "utf16_pair r1 r2 =
     (if 55296 \<le> r1 \<and> r1 < 56320 \<and> 56320 \<le> r2 \<and> r2 < 57344
      then Some (65536 + (r1 - 55296) * 1024 + (r2 - 56320)) else None)"

fun second_escape :: "bytes \<Rightarrow> (nat \<times> bytes) option" where
  "second_escape (a # b # s) = (if a = backslash \<and> b = CHR ''u'' then getu4 s else None)"
| "second_escape s = None"

definition unescape_u :: "bytes \<Rightarrow> (bytes \<times> bytes) option" where
  "unescape_u s =
     (case getu4 s of
        None \<Rightarrow> None
      | Some (r, t) \<Rightarrow>
          if surrogate r then
            (case second_escape t of
               Some (r2, u) \<Rightarrow> (case utf16_pair r r2 of Some p \<Rightarrow> Some (utf8_encode p, u) | None \<Rightarrow> Some (rune_error, t))
             | None \<Rightarrow> Some (rune_error, t))
          else Some (utf8_encode r, t))"

definition unescape_char :: "char \<Rightarrow> char option" where
  "unescape_char c =
     (if c = quote \<or> c = backslash \<or> c = CHR ''/'' then Some c
      else if c = CHR ''b'' then Some (CHR 0x08)
      else if c = CHR ''f'' then Some (CHR 0x0C)
      else if c = CHR ''n'' then Some (CHR 0x0A)
      else if c = CHR ''r'' then Some (CHR 0x0D)
      else if c = CHR ''t'' then Some (CHR 0x09)
      else None)"

text \<open>One character of a string literal: its bytes and the rest; None for an invalid literal.\<close>

fun unescape_one :: "bytes \<Rightarrow> (bytes \<times> bytes) option" where
  "unescape_one [] = None"
| "unescape_one (c # s) =
     (if c = backslash then
        (case s of
           [] \<Rightarrow> None
         | e # t \<Rightarrow>
             if e = CHR ''u'' then unescape_u t
             else (case unescape_char e of None \<Rightarrow> None | Some d \<Rightarrow> Some ([d], t)))
      else if code c < 32 then None
      else if code c < 128 then Some ([c], s)
      else if utf8_len (c # s) = 0 then Some (rune_error, s)
      else Some (take (utf8_len (c # s)) (c # s), drop (utf8_len (c # s)) (c # s)))"

lemma getu4_shorter: "getu4 s = Some (r, t) \<Longrightarrow> length t < length s"
  by (cases s rule: getu4.cases) (auto split: option.splits)

lemma second_escape_shorter: "second_escape s = Some (r, t) \<Longrightarrow> length t < length s"
  by (cases s rule: second_escape.cases) (auto split: if_splits dest: getu4_shorter)

lemma unescape_one_shorter: "unescape_one s = Some (b, t) \<Longrightarrow> length t < length s"
  by (cases s)
    (auto simp: unescape_u_def split: if_splits list.splits option.splits dest!: getu4_shorter second_escape_shorter)

declare unescape_one.simps [simp del]

text \<open>The literal after its opening quote: the decoded bytes and what follows the closing quote.\<close>

function json_unquote :: "bytes \<Rightarrow> (bytes \<times> bytes) option" where
  "json_unquote s =
     (case s of
        [] \<Rightarrow> None
      | c # s' \<Rightarrow>
          if c = quote then Some ([], s')
          else (case unescape_one s of
                  None \<Rightarrow> None
                | Some (b, t) \<Rightarrow> (case json_unquote t of None \<Rightarrow> None | Some (d, u) \<Rightarrow> Some (b @ d, u))))"
  by pat_completeness auto
termination
  by (relation "measure length") (auto dest!: unescape_one_shorter)

declare json_unquote.simps [simp del]

lemma json_unquote_end [simp]: "json_unquote (quote # s) = Some ([], s)"
  by (simp add: json_unquote.simps)

lemma json_unquote_step:
  "unescape_one (c # s) = Some (b, t) \<Longrightarrow> c \<noteq> quote \<Longrightarrow>
     json_unquote (c # s) = (case json_unquote t of None \<Rightarrow> None | Some (d, u) \<Rightarrow> Some (b @ d, u))"
  by (subst json_unquote.simps) simp

subsection \<open>Reading back what was written\<close>

lemma utf8_len_ascii: "s \<noteq> [] \<Longrightarrow> code (hd s) < 128 \<Longrightarrow> utf8_len s = 1"
  by (cases s) (simp_all add: utf8_accept_def)

lemma valid_utf8_ascii: "code c < 128 \<Longrightarrow> valid_utf8 (c # s) = valid_utf8 s"
  by (simp add: valid_utf8.simps [of "c # s"] utf8_len_ascii del: utf8_len.simps)

lemma hex_value_digit: "d < 16 \<Longrightarrow> hex_value (hex_digit d) = Some d"
  by (simp add: hex_value_iff)

lemma unescape_ascii:
  assumes "code c < 128"
  shows "unescape_one ((if html_safe c then [c] else escape_char c) @ s) = Some ([c], s)"
    "hd (if html_safe c then [c] else escape_char c) \<noteq> quote" "(if html_safe c then [c] else escape_char c) \<noteq> []"
proof -
  have d: "code c div 16 < 16" using assms by simp
  have u: "unescape_u (CHR ''0'' # CHR ''0'' # hex_digit (code c div 16) # hex_digit (code c mod 16) # s) = Some ([c], s)"
  proof -
    have h0: "hex_value (CHR ''0'') = Some 0" by (simp add: hex_value_def)
    have "getu4 (CHR ''0'' # CHR ''0'' # hex_digit (code c div 16) # hex_digit (code c mod 16) # s) = Some (code c, s)"
      using d by (simp add: h0 hex_value_digit)
    with assms show ?thesis by (simp add: unescape_u_def surrogate_def utf8_encode_def)
  qed
  show "unescape_one ((if html_safe c then [c] else escape_char c) @ s) = Some ([c], s)"
    using assms u by (auto simp: html_safe_def escape_char_def unescape_one.simps unescape_char_def)
  show "hd (if html_safe c then [c] else escape_char c) \<noteq> quote" "(if html_safe c then [c] else escape_char c) \<noteq> []"
    by (auto simp: html_safe_def escape_char_def)
qed

lemma unescape_line_separators:
  "unescape_one ([backslash, CHR ''u'', CHR ''2'', CHR ''0'', CHR ''2'', CHR ''8''] @ s) = Some ([CHR 0xE2, CHR 0x80, CHR 0xA8], s)"
  "unescape_one ([backslash, CHR ''u'', CHR ''2'', CHR ''0'', CHR ''2'', CHR ''9''] @ s) = Some ([CHR 0xE2, CHR 0x80, CHR 0xA9], s)"
proof -
  have h: "hex_value (CHR ''0'') = Some 0" "hex_value (CHR ''2'') = Some 2" "hex_value (CHR ''8'') = Some 8" "hex_value (CHR ''9'') = Some 9"
    by (simp_all add: hex_value_def)
  have e: "utf8_encode 8232 = [CHR 0xE2, CHR 0x80, CHR 0xA8]" "utf8_encode 8233 = [CHR 0xE2, CHR 0x80, CHR 0xA9]"
    by (simp_all add: utf8_encode_def char_eq_of_char)
  show "unescape_one ([backslash, CHR ''u'', CHR ''2'', CHR ''0'', CHR ''2'', CHR ''8''] @ s) = Some ([CHR 0xE2, CHR 0x80, CHR 0xA8], s)"
    "unescape_one ([backslash, CHR ''u'', CHR ''2'', CHR ''0'', CHR ''2'', CHR ''9''] @ s) = Some ([CHR 0xE2, CHR 0x80, CHR 0xA9], s)"
    by (simp_all add: unescape_one.simps unescape_u_def h surrogate_def e)
qed

lemma unescape_copied:
  assumes "128 \<le> code c" and "utf8_len (c # s) \<noteq> 0"
  shows "unescape_one (take (utf8_len (c # s)) (c # s) @ t) = Some (take (utf8_len (c # s)) (c # s), t)"
proof -
  let ?r = "take (utf8_len (c # s)) (c # s)"
  obtain r' where r: "?r = c # r'" using assms(2) by (cases "utf8_len (c # s)") (simp_all del: utf8_len.simps)
  have len: "utf8_len ?r = length ?r" using utf8_len_first [OF assms(2)] utf8_len_le [of "c # s"] by (simp del: utf8_len.simps)
  then have "utf8_len (c # r' @ t) = length ?r" using utf8_len_append [of ?r t] r by (simp del: utf8_len.simps)
  moreover have "c \<noteq> backslash" using assms(1) by auto
  ultimately show ?thesis
    unfolding r using assms(1) len r by (simp add: unescape_one.simps del: utf8_len.simps)
qed

lemma json_unquote_escape: "valid_utf8 s \<Longrightarrow> json_unquote (json_escape s @ quote # t) = Some (s, t)"
proof (induction s rule: json_escape.induct)
  case (2 c s)
  show ?case
  proof (cases "code c < 128")
    case True
    let ?e = "if html_safe c then [c] else escape_char c"
    note e = unescape_ascii [OF True]
    have "json_unquote (json_escape s @ quote # t) = Some (s, t)" using 2 True by (simp add: valid_utf8_ascii)
    moreover obtain d r where "?e = d # r" "d \<noteq> quote" using e(2,3) by (cases ?e) auto
    ultimately show ?thesis
      using True json_unquote_step [of d "r @ json_escape s @ quote # t" "[c]" "json_escape s @ quote # t"] e(1) by simp
  next
    case False
    let ?n = "utf8_len (c # s)" let ?r = "take ?n (c # s)"
    from 2(4) have n: "?n \<noteq> 0" and v: "valid_utf8 (drop ?n (c # s))" by (simp_all add: valid_utf8.simps [of "c # s"] del: utf8_len.simps split: if_splits)
    have ih: "json_unquote (json_escape (drop ?n (c # s)) @ quote # t) = Some (drop ?n (c # s), t)"
      using "2.IH"(3) False n v by simp
    let ?e = "if ?r = [CHR 0xE2, CHR 0x80, CHR 0xA8] then [backslash, CHR ''u'', CHR ''2'', CHR ''0'', CHR ''2'', CHR ''8'']
      else if ?r = [CHR 0xE2, CHR 0x80, CHR 0xA9] then [backslash, CHR ''u'', CHR ''2'', CHR ''0'', CHR ''2'', CHR ''9''] else ?r"
    have one: "unescape_one (?e @ u) = Some (?r, u)" for u
      using unescape_line_separators [of u] unescape_copied [of c s u] False n by (simp del: utf8_len.simps)
    have "c \<noteq> quote" using False by auto
    moreover obtain r' where "?r = c # r'" using n by (cases ?n) (simp_all del: utf8_len.simps)
    ultimately have "?e \<noteq> [] \<and> hd ?e \<noteq> quote" by simp
    then obtain d q where d: "?e = d # q" "d \<noteq> quote" by (cases ?e) auto
    have "json_escape (c # s) = ?e @ json_escape (drop ?n (c # s))" using False n by (simp add: Let_def del: utf8_len.simps)
    then show ?thesis
      using json_unquote_step [of d "q @ json_escape (drop ?n (c # s)) @ quote # t" ?r "json_escape (drop ?n (c # s)) @ quote # t"] one d ih
      by (simp del: utf8_len.simps json_escape.simps) 
  qed
qed simp

text \<open>A quoted string is read back if it is valid UTF-8.\<close>

lemma json_unquote_quote: "valid_utf8 s \<Longrightarrow> \<exists>r. json_quote s @ t = quote # r \<and> json_unquote r = Some (s, t)"
  by (simp add: json_quote_def json_unquote_escape)

text \<open>Every decoded string is valid UTF-8.\<close>

lemma valid_rune_error: "valid_utf8 rune_error"
  by code_simp

lemma getu4_bound: "getu4 s = Some (r, t) \<Longrightarrow> r < 65536"
  by (cases s rule: getu4.cases) (auto simp: hex_value_iff split: option.splits)

lemma unescape_one_valid: "unescape_one s = Some (b, t) \<Longrightarrow> valid_utf8 b"
proof (cases s)
  case (Cons c r)
  assume o: "unescape_one s = Some (b, t)"
  have u: "valid_utf8 b" if "unescape_u r = Some (b, t)" for r
    using that
    by (auto simp: unescape_u_def surrogate_def utf16_pair_def valid_rune_error split: option.splits if_splits prod.splits
        dest!: getu4_bound intro!: valid_utf8_encode simp: unicode_scalar_def)
  have one: "valid_utf8 [d]" if "code d < 128" for d using that by (simp add: valid_utf8_ascii)
  have ch: "code d < 128" if "unescape_char e = Some d" for e d using that by (auto simp: unescape_char_def split: if_splits)
  show ?thesis
    using o u one ch valid_utf8_first [of s]
    by (auto simp: Cons unescape_one.simps valid_rune_error simp del: utf8_len.simps split: if_splits list.splits option.splits)
qed (simp add: unescape_one.simps)

lemma json_unquote_valid: "json_unquote s = Some (d, u) \<Longrightarrow> valid_utf8 d"
proof (induction s arbitrary: d u rule: json_unquote.induct)
  case (1 s)
  show ?case
  proof (cases s)
    case (Cons c r)
    show ?thesis
    proof (cases "c = quote")
      case False
      with "1.prems" Cons obtain b t d' where "unescape_one s = Some (b, t)" "json_unquote t = Some (d', u)" "d = b @ d'"
        by (subst (asm) json_unquote.simps) (auto split: option.splits)
      with "1.IH" [OF Cons False] show ?thesis by (auto intro: valid_utf8_append unescape_one_valid)
    qed (use "1.prems" Cons in simp)
  qed (use "1.prems" in \<open>simp add: json_unquote.simps\<close>)
qed

end
