(* ===== verification/Json_Values.thy ===== *)
theory Json_Values
  imports Json_Text
begin

text \<open>
  JSON values: the parser of Go's package encoding/json with its nesting limit, and the texts that
  \<open>Marshal\<close> and \<open>MarshalIndent\<close> write.  Parsing what was written gives the value back.  A string keeps
  the bytes between its quotes beside the decoded bytes, because some decoders read the former.
\<close>

datatype json =
    JNull
  | JBool bool
  | JNum bytes
  | JStr bytes bytes
  | JArr "json list"
  | JObj "(bytes \<times> json) list"

abbreviation jstr :: "bytes \<Rightarrow> json" where
  "jstr s \<equiv> JStr (json_escape s) s"

section \<open>Parsing\<close>

definition is_space :: "char \<Rightarrow> bool" where
  "is_space c \<longleftrightarrow> c = CHR '' '' \<or> c = CHR 0x09 \<or> c = CHR 0x0A \<or> c = CHR 0x0D"

definition skip_ws :: "bytes \<Rightarrow> bytes" where
  "skip_ws s = dropWhile is_space s"

definition is_digit :: "char \<Rightarrow> bool" where
  "is_digit c \<longleftrightarrow> 48 \<le> code c \<and> code c \<le> 57"

text \<open>The parts of a number: digits that must be there, a fraction and an exponent that may be.\<close>

definition scan_digits :: "bytes \<Rightarrow> (bytes \<times> bytes) option" where
  "scan_digits s = (let ds = takeWhile is_digit s in if ds = [] then None else Some (ds, dropWhile is_digit s))"

definition scan_integer :: "bytes \<Rightarrow> (bytes \<times> bytes) option" where
  "scan_integer s =
     (case s of
        [] \<Rightarrow> None
      | c # t \<Rightarrow> if c = CHR ''0'' then Some ([c], t) else scan_digits s)"

definition scan_fraction :: "bytes \<Rightarrow> (bytes \<times> bytes) option" where
  "scan_fraction s =
     (case s of
        [] \<Rightarrow> Some ([], s)
      | c # t \<Rightarrow> if c = CHR ''.'' then map_option (\<lambda>(ds, r). (c # ds, r)) (scan_digits t) else Some ([], s))"

definition scan_exponent :: "bytes \<Rightarrow> (bytes \<times> bytes) option" where
  "scan_exponent s =
     (case s of
        [] \<Rightarrow> Some ([], s)
      | c # t \<Rightarrow>
          if c = CHR ''e'' \<or> c = CHR ''E'' then
            (case t of
               [] \<Rightarrow> None
             | g # u \<Rightarrow>
                 if g = CHR ''+'' \<or> g = CHR ''-'' then map_option (\<lambda>(ds, r). (c # g # ds, r)) (scan_digits u)
                 else map_option (\<lambda>(ds, r). (c # ds, r)) (scan_digits t))
          else Some ([], s))"

definition scan_number :: "bytes \<Rightarrow> (bytes \<times> bytes) option" where
  "scan_number s =
     (let (sg, s1) = (case s of [] \<Rightarrow> ([], s) | c # t \<Rightarrow> if c = CHR ''-'' then ([c], t) else ([], s)) in
      case scan_integer s1 of
        None \<Rightarrow> None
      | Some (i, s2) \<Rightarrow>
          (case scan_fraction s2 of
             None \<Rightarrow> None
           | Some (f, s3) \<Rightarrow>
               (case scan_exponent s3 of
                  None \<Rightarrow> None
                | Some (e, s4) \<Rightarrow> Some (sg @ i @ f @ e, s4))))"

definition scan_literal :: "bytes \<Rightarrow> (json \<times> bytes) option" where
  "scan_literal s =
     (if HasPrefix s ''true'' then Some (JBool True, drop 4 s)
      else if HasPrefix s ''false'' then Some (JBool False, drop 5 s)
      else if HasPrefix s ''null'' then Some (JNull, drop 4 s)
      else map_option (\<lambda>(t, r). (JNum t, r)) (scan_number s))"

text \<open>
  The parser.  The first argument is fuel, of which the length of the text is enough (lemma
  \<open>parse_fuel\<close>); the second is how much deeper arrays and objects may be nested.
\<close>

fun parse_value :: "nat \<Rightarrow> nat \<Rightarrow> bytes \<Rightarrow> (json \<times> bytes) option"
  and parse_members :: "nat \<Rightarrow> nat \<Rightarrow> bytes \<Rightarrow> ((bytes \<times> json) list \<times> bytes) option"
  and parse_elements :: "nat \<Rightarrow> nat \<Rightarrow> bytes \<Rightarrow> (json list \<times> bytes) option" where
  "parse_value 0 d s = None"
| "parse_value (Suc n) d s =
     (case skip_ws s of
        [] \<Rightarrow> None
      | c # t \<Rightarrow>
          if c = quote then (case json_unquote t of None \<Rightarrow> None | Some (x, u) \<Rightarrow> Some (JStr (take (length t - length u - 1) t) x, u))
          else if c = CHR ''{'' then
            if d = 0 then None
            else (case skip_ws t of
                    [] \<Rightarrow> None
                  | x # u \<Rightarrow>
                      if x = CHR ''}'' then Some (JObj [], u)
                      else (case parse_members n (d - 1) t of None \<Rightarrow> None | Some (ms, r) \<Rightarrow> Some (JObj ms, r)))
          else if c = CHR ''['' then
            if d = 0 then None
            else (case skip_ws t of
                    [] \<Rightarrow> None
                  | x # u \<Rightarrow>
                      if x = CHR '']'' then Some (JArr [], u)
                      else (case parse_elements n (d - 1) t of None \<Rightarrow> None | Some (vs, r) \<Rightarrow> Some (JArr vs, r)))
          else scan_literal (c # t))"
| "parse_members 0 d s = None"
| "parse_members (Suc n) d s =
     (case skip_ws s of
        [] \<Rightarrow> None
      | c # t \<Rightarrow>
          if c \<noteq> quote then None
          else (case json_unquote t of
                  None \<Rightarrow> None
                | Some (k, u) \<Rightarrow>
                    (case skip_ws u of
                       [] \<Rightarrow> None
                     | x # w \<Rightarrow>
                         if x \<noteq> CHR '':'' then None
                         else (case parse_value n d w of
                                 None \<Rightarrow> None
                               | Some (v, y) \<Rightarrow>
                                   (case skip_ws y of
                                      [] \<Rightarrow> None
                                    | z # q \<Rightarrow>
                                        if z = CHR ''}'' then Some ([(k, v)], q)
                                        else if z = CHR '','' then
                                          (case parse_members n d q of None \<Rightarrow> None | Some (ms, r) \<Rightarrow> Some ((k, v) # ms, r))
                                        else None)))))"
| "parse_elements 0 d s = None"
| "parse_elements (Suc n) d s =
     (case parse_value n d s of
        None \<Rightarrow> None
      | Some (v, y) \<Rightarrow>
          (case skip_ws y of
             [] \<Rightarrow> None
           | z # q \<Rightarrow>
               if z = CHR '']'' then Some ([v], q)
               else if z = CHR '','' then (case parse_elements n d q of None \<Rightarrow> None | Some (vs, r) \<Rightarrow> Some (v # vs, r))
               else None))"

text \<open>\<open>Unmarshal\<close> up to the value: one value and nothing but space after it; the limit is \<open>maxNestingDepth\<close>.\<close>

definition json_parse :: "bytes \<Rightarrow> json option" where
  "json_parse s =
     (case parse_value (2 * length s + 1) 10000 s of
        None \<Rightarrow> None
      | Some (v, r) \<Rightarrow> if skip_ws r = [] then Some v else None)"

section \<open>The fuel is enough\<close>

lemma skip_ws_le: "length (skip_ws s) \<le> length s"
  by (simp add: skip_ws_def length_dropWhile_le)

lemma skip_ws_Cons_le: "skip_ws s = c # t \<Longrightarrow> length t < length s"
  using skip_ws_le [of s] by simp

lemma json_unquote_shorter: "json_unquote s = Some (d, u) \<Longrightarrow> length u < length s"
proof (induction s arbitrary: d u rule: json_unquote.induct)
  case (1 s)
  show ?case
  proof (cases s)
    case (Cons c r)
    show ?thesis
    proof (cases "c = quote")
      case False
      with "1.prems" Cons obtain b t d' where "unescape_one s = Some (b, t)" "json_unquote t = Some (d', u)"
        by (subst (asm) json_unquote.simps) (auto split: option.splits)
      with "1.IH" [OF Cons False] unescape_one_shorter [of s b t] show ?thesis by fastforce
    qed (use "1.prems" Cons in simp)
  qed (use "1.prems" in \<open>simp add: json_unquote.simps\<close>)
qed

lemma scan_digits_shorter: "scan_digits s = Some (ds, r) \<Longrightarrow> length r < length s"
  by (cases s) (auto simp: scan_digits_def Let_def length_dropWhile_le le_imp_less_Suc split: if_splits)

lemma scan_number_shorter: "scan_number s = Some (t, r) \<Longrightarrow> length r < length s"
proof -
  assume n: "scan_number s = Some (t, r)"
  obtain sg s1 where sg: "(case s of [] \<Rightarrow> ([], s) | c # t \<Rightarrow> if c = CHR ''-'' then ([c], t) else ([], s)) = (sg, s1)" by fastforce
  then have s1: "length s1 \<le> length s" by (auto split: list.splits if_splits)
  from n obtain i s2 f s3 e where parts: "scan_integer s1 = Some (i, s2)" "scan_fraction s2 = Some (f, s3)" "scan_exponent s3 = Some (e, r)"
    by (auto simp: scan_number_def sg split: option.splits)
  have "length s2 < length s1" using parts(1) by (auto simp: scan_integer_def dest: scan_digits_shorter split: list.splits if_splits)
  moreover have "length s3 \<le> length s2"
    using parts(2) by (auto simp: scan_fraction_def dest: scan_digits_shorter split: list.splits if_splits)
  moreover have "length r \<le> length s3"
    using parts(3) by (auto simp: scan_exponent_def dest!: scan_digits_shorter split: list.splits if_splits)
  ultimately show ?thesis using s1 by linarith
qed

lemma scan_literal_shorter: "scan_literal s = Some (v, r) \<Longrightarrow> length r < length s"
proof -
  assume l: "scan_literal s = Some (v, r)"
  have p: "length (drop (length x) s) < length s" if "HasPrefix s x" "x \<noteq> []" for x
    using that prefix_length_le [of x s] by (cases s) (auto simp: HasPrefix_iff prefix_def)
  show ?thesis
    using l p [of "''true''"] p [of "''false''"] p [of "''null''"] by (auto simp: scan_literal_def dest: scan_number_shorter split: if_splits)
qed

lemma parse_shorter:
  "parse_value n d s = Some (v, r) \<Longrightarrow> length r < length s"
  "parse_members n d s = Some (ms, r) \<Longrightarrow> length r < length s"
  "parse_elements n d s = Some (vs, r) \<Longrightarrow> length r < length s"
proof (induction n arbitrary: d s v r ms vs)
  case (Suc n)
  {
    case 1
    then obtain c t where c: "skip_ws s = c # t" by (auto split: list.splits)
    note lt = skip_ws_Cons_le [OF c]
    from 1 c show ?case
      using lt skip_ws_le [of s]
      by (auto split: if_splits option.splits list.splits dest!: json_unquote_shorter skip_ws_Cons_le scan_literal_shorter Suc.IH(2,3))
  next
    case 2
    then obtain c t k u x w v y z q where c: "skip_ws s = c # t" "json_unquote t = Some (k, u)" "skip_ws u = x # w" "parse_value n d w = Some (v, y)" "skip_ws y = z # q"
      by (auto split: list.splits option.splits if_splits)
    from skip_ws_Cons_le [OF c(1)] json_unquote_shorter [OF c(2)] skip_ws_Cons_le [OF c(3)] Suc.IH(1) [OF c(4)] skip_ws_Cons_le [OF c(5)]
    have "length q < length s" by linarith
    with 2 c show ?case by (auto split: if_splits option.splits dest!: Suc.IH(2))
  next
    case 3
    then obtain v y z q where v: "parse_value n d s = Some (v, y)" "skip_ws y = z # q"
      by (auto split: list.splits option.splits if_splits)
    from Suc.IH(1) [OF v(1)] skip_ws_Cons_le [OF v(2)] have "length q < length s" by linarith
    with 3 v show ?case by (auto split: if_splits option.splits dest!: Suc.IH(3))
  }
qed simp_all

text \<open>More fuel than twice the length of the text changes nothing.\<close>

lemma parse_fuel:
  "2 * length s < n \<Longrightarrow> 2 * length s < m \<Longrightarrow> parse_value n d s = parse_value m d s"
  "2 * length s < n \<Longrightarrow> 2 * length s < m \<Longrightarrow> parse_members n d s = parse_members m d s"
  "2 * length s + 1 < n \<Longrightarrow> 2 * length s + 1 < m \<Longrightarrow> parse_elements n d s = parse_elements m d s"
proof (induction n arbitrary: d s m)
  case (Suc n)
  {
    case 1
    then obtain m' where m: "m = Suc m'" by (cases m) auto
    have "parse_members n (d - 1) t = parse_members m' (d - 1) t" "parse_elements n (d - 1) t = parse_elements m' (d - 1) t"
      if "skip_ws s = c # t" for c t
      using skip_ws_Cons_le [OF that] 1 m by (auto intro!: Suc.IH(2,3))
    then show ?case unfolding m by (cases "skip_ws s") (simp_all split: list.split)
  next
    case 2
    then obtain m' where m: "m = Suc m'" by (cases m) auto
    have v: "parse_value n d w = parse_value m' d w" if "skip_ws s = c # t" "json_unquote t = Some (k, u)" "skip_ws u = x # w" for c t k u x w
      using skip_ws_Cons_le [OF that(1)] json_unquote_shorter [OF that(2)] skip_ws_Cons_le [OF that(3)] 2 m by (intro Suc.IH(1)) auto
    have q: "parse_members n d q = parse_members m' d q"
      if "skip_ws s = c # t" "json_unquote t = Some (k, u)" "skip_ws u = x # w" "parse_value n d w = Some (y, l)" "skip_ws l = z # q" for c t k u x w y l z q
      using skip_ws_Cons_le [OF that(1)] json_unquote_shorter [OF that(2)] skip_ws_Cons_le [OF that(3)] parse_shorter(1) [OF that(4)] skip_ws_Cons_le [OF that(5)] 2 m
      by (intro Suc.IH(2)) auto
    show ?case unfolding m by (auto simp: v q split: list.split option.split)
  next
    case 3
    then obtain m' where m: "m = Suc m'" by (cases m) auto
    have v: "parse_value n d s = parse_value m' d s" using 3 m by (intro Suc.IH(1)) auto
    have q: "parse_elements n d q = parse_elements m' d q" if "parse_value n d s = Some (y, l)" "skip_ws l = z # q" for y l z q
      using parse_shorter(1) [OF that(1)] skip_ws_Cons_le [OF that(2)] 3 m by (intro Suc.IH(3)) auto
    show ?case unfolding m using v q by (auto split: list.split option.split)
  }
qed simp_all

lemma json_parse_fuel: "2 * length s < n \<Longrightarrow>
    json_parse s = (case parse_value n 10000 s of None \<Rightarrow> None | Some (v, r) \<Rightarrow> if skip_ws r = [] then Some v else None)"
  using parse_fuel(1) [of s "2 * length s + 1" n 10000] by (simp add: json_parse_def)

section \<open>Writing\<close>

text \<open>
  The text of a value: compact as \<open>Marshal\<close> writes it (None), or with every member on a line of its
  own as \<open>MarshalIndent\<close> does with two spaces (Some n, at nesting depth n).
\<close>

definition line_break :: "nat option \<Rightarrow> bytes" where
  "line_break ind = (case ind of None \<Rightarrow> [] | Some n \<Rightarrow> CHR 0x0A # replicate (2 * n) (CHR '' ''))"

definition colon :: "nat option \<Rightarrow> bytes" where
  "colon ind = (if ind = None then '':'' else '': '')"

fun json_text :: "nat option \<Rightarrow> json \<Rightarrow> bytes"
  and members_text :: "nat option \<Rightarrow> (bytes \<times> json) list \<Rightarrow> bytes"
  and elements_text :: "nat option \<Rightarrow> json list \<Rightarrow> bytes" where
  "json_text ind JNull = ''null''"
| "json_text ind (JBool b) = (if b then ''true'' else ''false'')"
| "json_text ind (JNum t) = t"
| "json_text ind (JStr raw s) = json_quote s"
| "json_text ind (JArr vs) =
     (if vs = [] then ''[]'' else ''['' @ elements_text (map_option Suc ind) vs @ line_break ind @ '']'')"
| "json_text ind (JObj ms) =
     (if ms = [] then ''{}'' else ''{'' @ members_text (map_option Suc ind) ms @ line_break ind @ ''}'')"
| "members_text ind [] = []"
| "members_text ind ((k, v) # ms) =
     line_break ind @ json_quote k @ colon ind @ json_text ind v @ (if ms = [] then [] else '','' @ members_text ind ms)"
| "elements_text ind [] = []"
| "elements_text ind (v # vs) = line_break ind @ json_text ind v @ (if vs = [] then [] else '','' @ elements_text ind vs)"

text \<open>Values whose text is read back: strings are valid, numbers are numbers, and the nesting is at most d.\<close>

fun json_ok :: "nat \<Rightarrow> json \<Rightarrow> bool" where
  "json_ok d (JNum t) = (scan_number t = Some (t, []))"
| "json_ok d (JStr raw s) = (valid_utf8 s \<and> raw = json_escape s)"
| "json_ok d (JArr vs) = (0 < d \<and> (\<forall>v \<in> set vs. json_ok (d - 1) v))"
| "json_ok d (JObj ms) = (0 < d \<and> (\<forall>(k, v) \<in> set ms. valid_utf8 k \<and> json_ok (d - 1) v))"
| "json_ok d _ = True"

text \<open>What can follow a value.\<close>

definition value_ends :: "bytes \<Rightarrow> bool" where
  "value_ends r \<longleftrightarrow> r = [] \<or> is_space (hd r) \<or> hd r \<in> {CHR '','', CHR ''}'', CHR '']''}"

lemma value_ends_char:
  assumes "value_ends r" and "r \<noteq> []"
  shows "\<not> is_digit (hd r)" "hd r \<notin> {CHR ''.'', CHR ''e'', CHR ''E''}"
  using assms by (auto simp: value_ends_def is_space_def is_digit_def)

lemma scan_digits_append:
  "scan_digits s = Some (ds, u) \<Longrightarrow> value_ends r \<Longrightarrow> scan_digits (s @ r) = Some (ds, u @ r)"
proof -
  assume sd: "scan_digits s = Some (ds, u)" and r: "value_ends r"
  have w: "takeWhile is_digit r = []" "dropWhile is_digit r = r" using value_ends_char(1) [OF r] by (cases r; simp)+
  show ?thesis
  proof (cases "\<forall>x \<in> set s. is_digit x")
    case True
    then have "takeWhile is_digit s = s" "dropWhile is_digit s = []" by simp_all
    with sd w True show ?thesis by (auto simp: scan_digits_def Let_def takeWhile_append dropWhile_append split: if_splits)
  next
    case False
    then show ?thesis using sd by (auto simp: scan_digits_def Let_def takeWhile_append dropWhile_append split: if_splits)
  qed
qed

lemma scan_number_append:
  assumes n: "scan_number s = Some (t, u)" and r: "value_ends r"
  shows "scan_number (s @ r) = Some (t, u @ r)"
proof -
  obtain sg s1 where sg: "(case s of [] \<Rightarrow> ([], s) | c # t \<Rightarrow> if c = CHR ''-'' then ([c], t) else ([], s)) = (sg, s1)" by fastforce
  from n obtain i s2 f s3 e where parts: "scan_integer s1 = Some (i, s2)" "scan_fraction s2 = Some (f, s3)" "scan_exponent s3 = Some (e, u)" "t = sg @ i @ f @ e"
    by (auto simp: scan_number_def sg split: option.splits)
  have ne: "s1 \<noteq> []" using parts(1) by (auto simp: scan_integer_def)
  have 0: "(case s @ r of [] \<Rightarrow> ([], s @ r) | c # t \<Rightarrow> if c = CHR ''-'' then ([c], t) else ([], s @ r)) = (sg, s1 @ r)"
    using sg ne by (auto split: list.splits if_splits)
  have 1: "scan_integer (s1 @ r) = Some (i, s2 @ r)"
    using parts(1) scan_digits_append [OF _ r] by (auto simp: scan_integer_def split: list.splits if_splits) (metis append_Cons)
  have 2: "scan_fraction (s2 @ r) = Some (f, s3 @ r)"
  proof (cases s2)
    case Nil
    with parts(2) value_ends_char(2) [OF r] show ?thesis by (cases r) (auto simp: scan_fraction_def)
  next
    case (Cons c x)
    with parts(2) show ?thesis by (auto simp: scan_fraction_def dest: scan_digits_append [OF _ r] split: if_splits)
  qed
  have 3: "scan_exponent (s3 @ r) = Some (e, u @ r)"
  proof (cases s3)
    case Nil
    with parts(3) value_ends_char(2) [OF r] show ?thesis by (cases r) (auto simp: scan_exponent_def)
  next
    case (Cons c x)
    with parts(3) show ?thesis
      by (auto simp: scan_exponent_def dest: scan_digits_append [OF _ r] split: list.splits if_splits)
  qed
  show ?thesis by (simp add: scan_number_def 0 1 2 3 parts(4))
qed

lemma number_head:
  assumes "scan_number t = Some (x, r)"
  shows "t \<noteq> [] \<and> (hd t = CHR ''-'' \<or> is_digit (hd t))"
proof -
  have d: "scan_digits s = Some (ds, u) \<Longrightarrow> s \<noteq> [] \<and> is_digit (hd s)" for s ds u
    by (cases s) (auto simp: scan_digits_def Let_def split: if_splits)
  have "is_digit (CHR ''0'')" by (simp add: is_digit_def)
  then show ?thesis
    using assms
    by (cases t) (auto simp: scan_number_def scan_integer_def split: if_splits option.splits prod.splits list.splits dest!: d)
qed

lemma scan_literal_number:
  assumes "scan_number t = Some (t, [])" and "value_ends r"
  shows "scan_literal (t @ r) = Some (JNum t, r)"
proof -
  have "hd t \<noteq> CHR ''t''" "hd t \<noteq> CHR ''f''" "hd t \<noteq> CHR ''n''" and ne: "t \<noteq> []"
    using number_head [OF assms(1)] by (auto simp: is_digit_def)
  then have "\<not> HasPrefix (t @ r) ''true''" "\<not> HasPrefix (t @ r) ''false''" "\<not> HasPrefix (t @ r) ''null''"
    by (cases t; simp add: HasPrefix_def)+
  with scan_number_append [OF assms] show ?thesis by (simp add: scan_literal_def)
qed

section \<open>Reading back what was written\<close>

definition all_space :: "bytes \<Rightarrow> bool" where
  "all_space w \<longleftrightarrow> (\<forall>c \<in> set w. is_space c)"

lemma skip_ws_append: "all_space w \<Longrightarrow> skip_ws (w @ s) = skip_ws s"
  by (simp add: all_space_def skip_ws_def dropWhile_append)

lemma skip_ws_id: "s \<noteq> [] \<Longrightarrow> \<not> is_space (hd s) \<Longrightarrow> skip_ws s = s"
  by (cases s) (simp_all add: skip_ws_def)

lemma spaces: "all_space (line_break ind)" "is_space (CHR '' '')"
  by (auto simp: all_space_def line_break_def is_space_def split: option.splits)

lemma skip_break [simp]: "skip_ws (line_break ind @ s) = skip_ws s"
  by (simp add: skip_ws_append spaces)

lemma not_space [simp]:
  "\<not> is_space quote" "\<not> is_space (CHR ''{'')" "\<not> is_space (CHR ''}'')" "\<not> is_space (CHR ''['')" "\<not> is_space (CHR '']'')"
  "\<not> is_space (CHR '','')" "\<not> is_space (CHR '':'')"
  by (simp_all add: is_space_def)

lemma skip_token [simp]: "\<not> is_space c \<Longrightarrow> skip_ws (c # s) = c # s"
  by (simp add: skip_ws_def)

lemma text_head:
  assumes "json_ok d v"
  shows "json_text ind v \<noteq> []" "\<not> is_space (hd (json_text ind v))" "hd (json_text ind v) \<noteq> CHR '']''"
proof -
  have n: "t \<noteq> [] \<and> \<not> is_space (hd t) \<and> hd t \<noteq> CHR '']''" if "scan_number t = Some (t, [])" for t
    using number_head [OF that] by (auto simp: is_space_def is_digit_def)
  have "json_text ind v \<noteq> [] \<and> \<not> is_space (hd (json_text ind v)) \<and> hd (json_text ind v) \<noteq> CHR '']''"
  proof (cases v)
    case (JNum t)
    with assms n show ?thesis by simp
  qed (auto simp: json_quote_def is_space_def)
  then show "json_text ind v \<noteq> []" "\<not> is_space (hd (json_text ind v))" "hd (json_text ind v) \<noteq> CHR '']''" by blast+
qed

lemma value_ends_simps [simp]: "value_ends []" "value_ends (CHR '','' # r)" "value_ends (CHR ''}'' # r)" "value_ends (CHR '']'' # r)"
  by (simp_all add: value_ends_def)

lemma value_ends_break: "value_ends r \<Longrightarrow> value_ends (line_break ind @ r)"
  by (auto simp: value_ends_def line_break_def is_space_def split: option.splits)

text \<open>Leading space does not matter to the parser.\<close>

lemma parse_value_skip: "parse_value n d (w @ s) = parse_value n d s" if "all_space w"
  using that by (cases n) (simp_all add: skip_ws_append)

lemma parse_literals:
  "parse_value (Suc n) d (''null'' @ r) = Some (JNull, r)"
  "parse_value (Suc n) d (''true'' @ r) = Some (JBool True, r)" "parse_value (Suc n) d (''false'' @ r) = Some (JBool False, r)"
  by (simp_all add: skip_ws_def is_space_def scan_literal_def HasPrefix_def)

lemma parse_number:
  assumes "scan_number t = Some (t, [])" and "value_ends r"
  shows "parse_value (Suc n) d (t @ r) = Some (JNum t, r)"
proof -
  from number_head [OF assms(1)] obtain c x where t: "t = c # x" "c = CHR ''-'' \<or> is_digit c" by (cases t) auto
  then have c: "\<not> is_space c" "c \<noteq> quote" "c \<noteq> CHR ''{''" "c \<noteq> CHR ''[''" by (auto simp: is_space_def is_digit_def)
  show ?thesis using scan_literal_number [OF assms] c by (simp add: t(1))
qed

lemma parse_text:
  "json_ok d v \<Longrightarrow> value_ends r \<Longrightarrow> 2 * length (json_text ind v @ r) < n \<Longrightarrow> parse_value n d (json_text ind v @ r) = Some (v, r)"
  "ms \<noteq> [] \<Longrightarrow> \<forall>(k, v) \<in> set ms. valid_utf8 k \<and> json_ok d v \<Longrightarrow> all_space w \<Longrightarrow> 2 * length (members_text ind ms @ w @ CHR ''}'' # r) < n \<Longrightarrow>
    parse_members n d (members_text ind ms @ w @ CHR ''}'' # r) = Some (ms, r)"
  "vs \<noteq> [] \<Longrightarrow> \<forall>v \<in> set vs. json_ok d v \<Longrightarrow> all_space w \<Longrightarrow> 2 * length (elements_text ind vs @ w @ CHR '']'' # r) + 1 < n \<Longrightarrow>
    parse_elements n d (elements_text ind vs @ w @ CHR '']'' # r) = Some (vs, r)"
proof (induction ind v and ind ms and ind vs arbitrary: d r n and d r w n and d r w n rule: json_text_members_text_elements_text.induct)
  case (1 ind)
  then obtain m where "n = Suc m" by (cases n) auto
  then show ?case using parse_literals(1) by simp
next
  case (2 ind b)
  then obtain m where "n = Suc m" by (cases n) auto
  then show ?case using parse_literals(2,3) by (cases b) simp_all
next
  case (3 ind t)
  then obtain m where "n = Suc m" by (cases n) auto
  then show ?case using parse_number 3 by simp
next
  case (4 ind raw s)
  then obtain m where "n = Suc m" by (cases n) auto
  then show ?case using 4 by (simp add: json_quote_def json_unquote_escape)
next
  case (5 ind vs)
  then obtain m where n: "n = Suc m" by (cases n) auto
  show ?case
  proof (cases "vs = []")
    case False
    then obtain v vs' where vs: "vs = v # vs'" by (cases vs) auto
    let ?t = "elements_text (map_option Suc ind) vs @ line_break ind @ CHR '']'' # r"
    have ok: "json_ok (d - 1) v" using 5(2) vs by simp
    have "skip_ws ?t = skip_ws (json_text (map_option Suc ind) v @ (if vs' = [] then [] else '','' @ elements_text (map_option Suc ind) vs') @ line_break ind @ CHR '']'' # r)"
      by (simp add: vs)
    also have "\<dots> = json_text (map_option Suc ind) v @ (if vs' = [] then [] else '','' @ elements_text (map_option Suc ind) vs') @ line_break ind @ CHR '']'' # r"
      using text_head [OF ok] by (intro skip_ws_id) simp_all
    finally have "\<exists>c u. skip_ws ?t = c # u \<and> c \<noteq> CHR '']''" using text_head(1,3) [OF ok, of "map_option Suc ind"] by (cases "json_text (map_option Suc ind) v") auto
    moreover have "parse_elements m (d - 1) ?t = Some (vs, r)" using 5 False n by (intro "5.IH") (auto simp: spaces)
    ultimately show ?thesis using 5(2) False n by auto
  qed (use 5 n in simp)
next
  case (6 ind ms)
  then obtain m where n: "n = Suc m" by (cases n) auto
  show ?case
  proof (cases "ms = []")
    case False
    then obtain k v ms' where ms: "ms = (k, v) # ms'" by (cases ms) auto
    let ?t = "members_text (map_option Suc ind) ms @ line_break ind @ CHR ''}'' # r"
    have "\<exists>u. skip_ws ?t = quote # u" by (simp add: ms json_quote_def)
    moreover have "parse_members m (d - 1) ?t = Some (ms, r)" using 6 False n by (intro "6.IH") (auto simp: spaces)
    ultimately show ?thesis using 6(2) False n by auto
  qed (use 6 n in simp)
next
  case (8 ind k v ms)
  then obtain m where n: "n = Suc m" by (cases n) auto
  let ?rest = "(if ms = [] then [] else '','' @ members_text ind ms) @ w @ CHR ''}'' # r"
  have k: "valid_utf8 k" and v: "json_ok d v" using "8.prems"(2) by simp_all
  have ends: "value_ends ?rest" using "8.prems"(3) by (cases w) (auto simp: value_ends_def all_space_def)
  have pv: "parse_value m d (json_text ind v @ ?rest) = Some (v, ?rest)"
    using "8.prems"(4) n by (intro "8.IH"(1) [OF v ends]) (simp add: json_quote_def)
  have "parse_value m d (tl (colon ind) @ json_text ind v @ ?rest) = Some (v, ?rest)"
    using pv parse_value_skip [of "tl (colon ind)"] by (simp add: colon_def all_space_def spaces)
  moreover have "skip_ws (colon ind @ x) = CHR '':'' # tl (colon ind) @ x" for x by (simp add: colon_def)
  moreover have "parse_members m d (members_text ind ms @ w @ CHR ''}'' # r) = Some (ms, r)" if "ms \<noteq> []"
    using that "8.prems" n by (intro "8.IH"(2)) auto
  moreover have "skip_ws (w @ CHR ''}'' # r) = CHR ''}'' # r" using "8.prems"(3) by (simp add: skip_ws_append)
  ultimately show ?case
    using k by (auto simp: n json_quote_def json_unquote_escape)
next
  case (10 ind v vs)
  then obtain m where n: "n = Suc m" by (cases n) auto
  let ?rest = "(if vs = [] then [] else '','' @ elements_text ind vs) @ w @ CHR '']'' # r"
  have v: "json_ok d v" using "10.prems"(2) by simp
  have ends: "value_ends ?rest" using "10.prems"(3) by (cases w) (auto simp: value_ends_def all_space_def)
  have "parse_value m d (json_text ind v @ ?rest) = Some (v, ?rest)"
    using "10.prems"(4) n by (intro "10.IH"(1) [OF v ends]) simp
  then have "parse_value m d (line_break ind @ json_text ind v @ ?rest) = Some (v, ?rest)"
    by (simp add: parse_value_skip spaces)
  moreover have "parse_elements m d (elements_text ind vs @ w @ CHR '']'' # r) = Some (vs, r)" if "vs \<noteq> []"
    using that "10.prems" n by (intro "10.IH"(2)) auto
  moreover have "skip_ws (w @ CHR '']'' # r) = CHR '']'' # r" using "10.prems"(3) by (simp add: skip_ws_append)
  ultimately show ?case by (auto simp: n)
qed simp_all

text \<open>The text of a value is read back, with or without indentation.\<close>

lemma json_parse_text: "json_ok 10000 v \<Longrightarrow> json_parse (json_text ind v) = Some v"
  using parse_text(1) [of 10000 v "[]" ind "2 * length (json_text ind v) + 1"] by (simp add: json_parse_def skip_ws_def)

section \<open>Parsed strings are valid\<close>

fun strings_valid :: "json \<Rightarrow> bool" where
  "strings_valid (JStr raw s) = valid_utf8 s"
| "strings_valid (JArr vs) = (\<forall>v \<in> set vs. strings_valid v)"
| "strings_valid (JObj ms) = (\<forall>(k, v) \<in> set ms. valid_utf8 k \<and> strings_valid v)"
| "strings_valid _ = True"

lemma parse_strings_valid:
  "parse_value n d s = Some (v, r) \<Longrightarrow> strings_valid v"
  "parse_members n d s = Some (ms, r) \<Longrightarrow> \<forall>(k, v) \<in> set ms. valid_utf8 k \<and> strings_valid v"
  "parse_elements n d s = Some (vs, r) \<Longrightarrow> \<forall>v \<in> set vs. strings_valid v"
proof (induction n arbitrary: d s v r ms vs)
  case (Suc n)
  have lit: "strings_valid v" if "scan_literal s = Some (v, r)" for s v r
    using that by (auto simp: scan_literal_def split: if_splits)
  {
    case 1
    then show ?case
      using Suc.IH(2,3) lit by (auto split: list.splits if_splits option.splits dest: json_unquote_valid)
  next
    case 2
    then show ?case
      using Suc.IH(1,2) by (fastforce split: list.splits if_splits option.splits dest: json_unquote_valid)
  next
    case 3
    then show ?case using Suc.IH(1,3) by (fastforce split: list.splits if_splits option.splits)
  }
qed simp_all

lemma json_parse_valid: "json_parse s = Some v \<Longrightarrow> strings_valid v"
  by (auto simp: json_parse_def simp del: parse_value.simps dest: parse_strings_valid(1) split: option.splits if_splits)

end
