(* ===== verification/Json_Messages.thy ===== *)
theory Json_Messages
  imports Json_Values Base64_Text Rpc_Messages "HOL-Library.List_Lexorder" "HOL-Library.Char_ord"
begin

text \<open>
  The messages of api/proto/worker.pb.go on the wire: \<open>JSONCodec\<close> of api/proto/codec.go encodes and
  decodes them with package encoding/json.  The locale \<open>wire_message\<close> is what the codec relies on of
  one message type; it is interpreted for each of the four.
\<close>

section \<open>Decoding into a struct\<close>

text \<open>
  The folding of names that \<open>Unmarshal\<close> falls back on: ASCII letters become upper case; the Kelvin sign
  and the long s are the only other characters that fold to a letter of the field names.
\<close>

fun fold_name :: "bytes \<Rightarrow> bytes" where
  "fold_name [] = []"
| "fold_name (c # s) =
     (if 97 \<le> code c \<and> code c \<le> 122 then char_of (code c - 32) # fold_name s
      else case s of
        [] \<Rightarrow> [c]
      | b # t \<Rightarrow>
          if c = CHR 0xC5 \<and> b = CHR 0xBF then CHR ''S'' # fold_name t
          else if c = CHR 0xE2 \<and> b = CHR 0x84 \<and> t \<noteq> [] \<and> hd t = CHR 0xAA then CHR ''K'' # fold_name (tl t)
          else c # fold_name s)"

definition field_of :: "string list \<Rightarrow> bytes \<Rightarrow> string option" where
  "field_of names key =
     (if key \<in> set names then Some key else List.find (\<lambda>name. fold_name name = fold_name key) names)"

text \<open>
  \<open>put\<close> decodes a value into a field.  The package goes on after a field that does not fit and returns
  the error at the end; None stands for the error.
\<close>

fun decode_members :: "string list \<Rightarrow> (string \<Rightarrow> json \<Rightarrow> 'm \<Rightarrow> 'm option) \<Rightarrow> (bytes \<times> json) list \<Rightarrow> 'm \<Rightarrow> 'm option" where
  "decode_members names put [] m = Some m"
| "decode_members names put ((key, v) # ms) m =
     (case field_of names key of
        None \<Rightarrow> decode_members names put ms m
      | Some name \<Rightarrow> (case put name v m of None \<Rightarrow> None | Some m' \<Rightarrow> decode_members names put ms m'))"

definition decode_struct :: "string list \<Rightarrow> (string \<Rightarrow> json \<Rightarrow> 'm \<Rightarrow> 'm option) \<Rightarrow> json \<Rightarrow> 'm \<Rightarrow> 'm option" where
  "decode_struct names put v m =
     (case v of JNull \<Rightarrow> Some m | JObj ms \<Rightarrow> decode_members names put ms m | _ \<Rightarrow> None)"

definition decode_string :: "json \<Rightarrow> string \<Rightarrow> string option" where
  "decode_string v old = (case v of JStr raw s \<Rightarrow> Some s | JNull \<Rightarrow> Some old | _ \<Rightarrow> None)"

text \<open>A byte slice is a base64 string, or an array of numbers; a null element leaves the byte that is there.\<close>

definition decode_byte :: "json \<Rightarrow> char \<Rightarrow> char option" where
  "decode_byte v old =
     (case v of
        JNum t \<Rightarrow> (case ParseUint_loop 0 t of (n, None) \<Rightarrow> if n \<le> 255 then Some (char_of n) else None | _ \<Rightarrow> None)
      | JNull \<Rightarrow> Some old
      | _ \<Rightarrow> None)"

fun decode_byte_list :: "json list \<Rightarrow> bytes \<Rightarrow> bytes option" where
  "decode_byte_list [] old = Some []"
| "decode_byte_list (v # vs) old =
     (case decode_byte v (case old of [] \<Rightarrow> CHR 0x00 | c # _ \<Rightarrow> c) of
        None \<Rightarrow> None
      | Some c \<Rightarrow> map_option ((#) c) (decode_byte_list vs (tl old)))"

definition decode_bytes :: "json \<Rightarrow> bytes \<Rightarrow> bytes option" where
  "decode_bytes v old =
     (case v of
        JStr raw s \<Rightarrow> b64_decode b64_std s
      | JNull \<Rightarrow> Some []
      | JArr vs \<Rightarrow> decode_byte_list vs old
      | _ \<Rightarrow> None)"

fun decode_entries :: "(bytes \<times> json) list \<Rightarrow> tag_map \<Rightarrow> tag_map option" where
  "decode_entries [] m = Some m"
| "decode_entries ((k, v) # ms) m =
     (case decode_string v [] of None \<Rightarrow> None | Some x \<Rightarrow> decode_entries ms (m(k \<mapsto> x)))"

definition decode_tags :: "json \<Rightarrow> tag_map \<Rightarrow> tag_map option" where
  "decode_tags v old = (case v of JObj ms \<Rightarrow> decode_entries ms old | JNull \<Rightarrow> Some Map.empty | _ \<Rightarrow> None)"

section \<open>Encoding\<close>

text \<open>Members with the option omitempty; map keys are written in order.\<close>

definition string_member :: "string \<Rightarrow> string \<Rightarrow> (bytes \<times> json) list" where
  "string_member name s = (if s = [] then [] else [(name, jstr s)])"

definition bytes_member :: "string \<Rightarrow> bytes \<Rightarrow> (bytes \<times> json) list" where
  "bytes_member name b = (if b = [] then [] else [(name, jstr (b64_encode b64_std b))])"

definition tags_member :: "string \<Rightarrow> tag_map \<Rightarrow> (bytes \<times> json) list" where
  "tags_member name m =
     (if m = Map.empty then [] else [(name, JObj (map (\<lambda>k. (k, jstr (the (m k)))) (sorted_list_of_set (dom m))))])"

section \<open>The messages\<close>

definition put_ProcessRequest :: "string \<Rightarrow> json \<Rightarrow> ProcessRequest \<Rightarrow> ProcessRequest option" where
  "put_ProcessRequest name v m =
     (if name = ''schema_id'' then map_option (\<lambda>x. m\<lparr>pr_SchemaId := x\<rparr>) (decode_string v (pr_SchemaId m))
      else if name = ''entity_key'' then map_option (\<lambda>x. m\<lparr>pr_EntityKey := x\<rparr>) (decode_string v (pr_EntityKey m))
      else if name = ''operation'' then map_option (\<lambda>x. m\<lparr>pr_Operation := x\<rparr>) (decode_string v (pr_Operation m))
      else if name = ''payload'' then map_option (\<lambda>x. m\<lparr>pr_Payload := x\<rparr>) (decode_bytes v (pr_Payload m))
      else if name = ''token'' then map_option (\<lambda>x. m\<lparr>pr_Token := x\<rparr>) (decode_string v (pr_Token m))
      else None)"

definition ProcessRequest_fields :: "string list" where
  "ProcessRequest_fields = [''schema_id'', ''entity_key'', ''operation'', ''payload'', ''token'']"

definition ProcessRequest_json :: "ProcessRequest \<Rightarrow> json" where
  "ProcessRequest_json m = JObj
     (string_member ''schema_id'' (pr_SchemaId m) @ string_member ''entity_key'' (pr_EntityKey m) @
      string_member ''operation'' (pr_Operation m) @ bytes_member ''payload'' (pr_Payload m) @ string_member ''token'' (pr_Token m))"

definition put_ProcessResponse :: "string \<Rightarrow> json \<Rightarrow> ProcessResponse \<Rightarrow> ProcessResponse option" where
  "put_ProcessResponse name v m =
     (if name = ''status'' then map_option (\<lambda>x. m\<lparr>rs_Status := x\<rparr>) (decode_string v (rs_Status m))
      else if name = ''result'' then map_option (\<lambda>x. m\<lparr>rs_Result := x\<rparr>) (decode_bytes v (rs_Result m))
      else if name = ''version'' then map_option (\<lambda>x. m\<lparr>rs_Version := x\<rparr>) (decode_string v (rs_Version m))
      else if name = ''error'' then map_option (\<lambda>x. m\<lparr>rs_Error := x\<rparr>) (decode_string v (rs_Error m))
      else None)"

definition ProcessResponse_fields :: "string list" where
  "ProcessResponse_fields = [''status'', ''result'', ''version'', ''error'']"

definition ProcessResponse_json :: "ProcessResponse \<Rightarrow> json" where
  "ProcessResponse_json m = JObj
     (string_member ''status'' (rs_Status m) @ bytes_member ''result'' (rs_Result m) @
      string_member ''version'' (rs_Version m) @ string_member ''error'' (rs_Error m))"

definition put_SubscribeRequest :: "string \<Rightarrow> json \<Rightarrow> SubscribeRequest \<Rightarrow> SubscribeRequest option" where
  "put_SubscribeRequest name v m =
     (if name = ''worker_id'' then map_option (\<lambda>x. m\<lparr>sr_WorkerId := x\<rparr>) (decode_string v (sr_WorkerId m))
      else if name = ''pubkey'' then map_option (\<lambda>x. m\<lparr>sr_Pubkey := x\<rparr>) (decode_bytes v (sr_Pubkey m))
      else if name = ''tags'' then map_option (\<lambda>x. m\<lparr>sr_Tags := x\<rparr>) (decode_tags v (sr_Tags m))
      else None)"

definition SubscribeRequest_fields :: "string list" where
  "SubscribeRequest_fields = [''worker_id'', ''pubkey'', ''tags'']"

definition SubscribeRequest_json :: "SubscribeRequest \<Rightarrow> json" where
  "SubscribeRequest_json m = JObj
     (string_member ''worker_id'' (sr_WorkerId m) @ bytes_member ''pubkey'' (sr_Pubkey m) @ tags_member ''tags'' (sr_Tags m))"

definition put_SubscribeResponse :: "string \<Rightarrow> json \<Rightarrow> SubscribeResponse \<Rightarrow> SubscribeResponse option" where
  "put_SubscribeResponse name v m =
     (if name = ''token'' then map_option (\<lambda>x. m\<lparr>sp_Token := x\<rparr>) (decode_string v (sp_Token m))
      else if name = ''wrapped_key'' then map_option (\<lambda>x. m\<lparr>sp_WrappedKey := x\<rparr>) (decode_bytes v (sp_WrappedKey m))
      else if name = ''key_id'' then map_option (\<lambda>x. m\<lparr>sp_KeyId := x\<rparr>) (decode_string v (sp_KeyId m))
      else None)"

definition SubscribeResponse_fields :: "string list" where
  "SubscribeResponse_fields = [''token'', ''wrapped_key'', ''key_id'']"

definition SubscribeResponse_json :: "SubscribeResponse \<Rightarrow> json" where
  "SubscribeResponse_json m = JObj
     (string_member ''token'' (sp_Token m) @ bytes_member ''wrapped_key'' (sp_WrappedKey m) @ string_member ''key_id'' (sp_KeyId m))"

section \<open>The codec\<close>

text \<open>\<open>JSONCodec.Marshal\<close> of a pointer to a message, and \<open>JSONCodec.Unmarshal\<close> into a new message.\<close>

definition codec_Marshal :: "('m \<Rightarrow> json) \<Rightarrow> 'm option \<Rightarrow> bytes" where
  "codec_Marshal enc v = json_text None (case v of None \<Rightarrow> JNull | Some m \<Rightarrow> enc m)"

definition codec_Unmarshal :: "string list \<Rightarrow> (string \<Rightarrow> json \<Rightarrow> 'm \<Rightarrow> 'm option) \<Rightarrow> 'm \<Rightarrow> bytes \<Rightarrow> 'm option" where
  "codec_Unmarshal names put new data =
     (case json_parse data of None \<Rightarrow> None | Some v \<Rightarrow> decode_struct names put v new)"

definition new_ProcessRequest :: ProcessRequest where
  "new_ProcessRequest = \<lparr>pr_SchemaId = [], pr_EntityKey = [], pr_Operation = [], pr_Payload = [], pr_Token = []\<rparr>"

definition new_ProcessResponse :: ProcessResponse where
  "new_ProcessResponse = \<lparr>rs_Status = [], rs_Result = [], rs_Version = [], rs_Error = []\<rparr>"

definition new_SubscribeRequest :: SubscribeRequest where
  "new_SubscribeRequest = \<lparr>sr_WorkerId = [], sr_Pubkey = [], sr_Tags = Map.empty\<rparr>"

definition new_SubscribeResponse :: SubscribeResponse where
  "new_SubscribeResponse = \<lparr>sp_Token = [], sp_WrappedKey = [], sp_KeyId = []\<rparr>"

section \<open>What the codec relies on\<close>

locale wire_message =
  fixes enc :: "'m \<Rightarrow> json" and names :: "string list" and put :: "string \<Rightarrow> json \<Rightarrow> 'm \<Rightarrow> 'm option" and new :: 'm and ok :: "'m \<Rightarrow> bool"
  assumes enc_ok: "ok m \<Longrightarrow> json_ok 10000 (enc m)"
    and dec_enc: "ok m \<Longrightarrow> decode_struct names put (enc m) new = Some m"
    and new_ok: "ok new"
    and put_ok: "ok m \<Longrightarrow> strings_valid v \<Longrightarrow> name \<in> set names \<Longrightarrow> put name v m = Some m' \<Longrightarrow> ok m'"

lemma field_of_names: "field_of names key = Some name \<Longrightarrow> name \<in> set names"
  by (auto simp: field_of_def find_Some_iff split: if_splits)

lemma field_of_exact [simp]: "name \<in> set names \<Longrightarrow> field_of names name = Some name"
  by (simp add: field_of_def)

context wire_message
begin

lemma decode_members_ok:
  "ok m \<Longrightarrow> \<forall>(k, v) \<in> set ms. strings_valid v \<Longrightarrow> decode_members names put ms m = Some m' \<Longrightarrow> ok m'"
proof (induction ms arbitrary: m)
  case (Cons kv ms)
  obtain k v where kv: "kv = (k, v)" by (cases kv)
  show ?case
  proof (cases "field_of names k")
    case None
    with Cons kv show ?thesis by simp
  next
    case (Some name)
    with Cons.prems kv obtain m1 where "put name v m = Some m1" "decode_members names put ms m1 = Some m'"
      by (auto split: option.splits)
    with Cons kv put_ok [of m v name m1] field_of_names [OF Some] show ?thesis by simp
  qed
qed simp

lemma received_ok: "codec_Unmarshal names put new data = Some m \<Longrightarrow> ok m"
proof -
  assume "codec_Unmarshal names put new data = Some m"
  then obtain v where v: "json_parse data = Some v" "decode_struct names put v new = Some m"
    by (auto simp: codec_Unmarshal_def split: option.splits)
  from json_parse_valid [OF v(1)] v(2) new_ok show ?thesis
    by (auto simp: decode_struct_def split: json.splits intro: decode_members_ok)
qed

lemma marshalled: "ok m \<Longrightarrow> codec_Unmarshal names put new (codec_Marshal enc (Some m)) = Some m"
  by (simp add: codec_Unmarshal_def codec_Marshal_def json_parse_text enc_ok dec_enc)

text \<open>A message that was received is passed on unchanged.\<close>

lemma resent: "codec_Unmarshal names put new data = Some m \<Longrightarrow> codec_Unmarshal names put new (codec_Marshal enc (Some m)) = Some m"
  by (intro marshalled received_ok)

end

section \<open>The members of a message\<close>

lemma valid_utf8_all_ascii: "\<forall>c \<in> set s. code c < 128 \<Longrightarrow> valid_utf8 s"
  by (induction s) (simp_all add: valid_utf8_ascii)

lemma b64_encode_chars: "b64_alphabet al \<Longrightarrow> set (b64_encode al bs) \<subseteq> set al \<union> {CHR ''=''}"
proof (induction al bs rule: b64_encode.induct)
  case (4 al a b c r)
  then have "length al = 64" by (simp add: b64_alphabet_def)
  with 4 show ?case by (auto simp: Let_def of_char_parts)
qed (auto simp: Let_def b64_alphabet_def of_char_parts)

lemma valid_utf8_b64: "valid_utf8 (b64_encode b64_std bs)"
proof -
  have "\<forall>c \<in> set b64_std \<union> {CHR ''=''}. code c < 128" by code_simp
  with b64_encode_chars [OF b64_std_alphabet, of bs] show ?thesis by (intro valid_utf8_all_ascii) blast
qed

lemma decode_members_append:
  "decode_members names put (xs @ ys) m = (case decode_members names put xs m of None \<Rightarrow> None | Some m' \<Rightarrow> decode_members names put ys m')"
  by (induction xs arbitrary: m) (auto split: option.splits)

lemma decode_string_member:
  "name \<in> set names \<Longrightarrow> decode_members names put (string_member name s) m = (if s = [] then Some m else put name (jstr s) m)"
  by (auto simp: string_member_def split: option.splits)

lemma decode_bytes_member:
  "name \<in> set names \<Longrightarrow> decode_members names put (bytes_member name b) m = (if b = [] then Some m else put name (jstr (b64_encode b64_std b)) m)"
  by (auto simp: bytes_member_def split: option.splits)

lemma decode_tags_member:
  "name \<in> set names \<Longrightarrow> decode_members names put (tags_member name t) m =
     (if t = Map.empty then Some m else put name (JObj (map (\<lambda>k. (k, jstr (the (t k)))) (sorted_list_of_set (dom t)))) m)"
  by (auto simp: tags_member_def split: option.splits)

lemma decode_simps [simp]:
  "decode_string (JStr raw s) old = Some s" "decode_bytes (JStr raw (b64_encode b64_std b)) old = Some b"
  by (simp_all add: decode_string_def decode_bytes_def)

lemma decode_entries_tags:
  "decode_entries (map (\<lambda>k. (k, jstr (the (t k)))) ks) m = Some (\<lambda>x. if x \<in> set ks then Some (the (t x)) else m x)"
  by (induction ks arbitrary: m) (auto simp: fun_eq_iff)

lemma decode_tags_back:
  assumes "finite (dom t)"
  shows "decode_tags (JObj (map (\<lambda>k. (k, jstr (the (t k)))) (sorted_list_of_set (dom t)))) Map.empty = Some t"
  using assms by (auto simp: decode_tags_def decode_entries_tags fun_eq_iff domIff)

definition members_ok :: "(bytes \<times> json) list \<Rightarrow> bool" where
  "members_ok ms \<longleftrightarrow> (\<forall>(k, v) \<in> set ms. valid_utf8 k \<and> json_ok 9999 v)"

lemma members_ok_simps [simp]:
  "members_ok []" "members_ok (xs @ ys) \<longleftrightarrow> members_ok xs \<and> members_ok ys"
  "valid_utf8 name \<Longrightarrow> valid_utf8 s \<Longrightarrow> members_ok (string_member name s)" "valid_utf8 name \<Longrightarrow> members_ok (bytes_member name b)"
  by (auto simp: members_ok_def string_member_def bytes_member_def valid_utf8_b64)

lemma json_ok_object: "members_ok ms \<Longrightarrow> json_ok 10000 (JObj ms)"
  by (auto simp: members_ok_def)

lemmas decode_member = decode_members_append decode_string_member decode_bytes_member decode_tags_member

definition tags_ok :: "tag_map \<Rightarrow> bool" where
  "tags_ok t \<longleftrightarrow> finite (dom t) \<and> (\<forall>k x. t k = Some x \<longrightarrow> valid_utf8 k \<and> valid_utf8 x)"

lemma members_ok_tags: "valid_utf8 name \<Longrightarrow> tags_ok t \<Longrightarrow> members_ok (tags_member name t)"
  by (auto simp: members_ok_def tags_member_def tags_ok_def)

lemma decode_string_valid: "decode_string v old = Some s \<Longrightarrow> strings_valid v \<Longrightarrow> valid_utf8 old \<Longrightarrow> valid_utf8 s"
  by (auto simp: decode_string_def split: json.splits)

lemma decode_tags_ok: "decode_tags v old = Some t \<Longrightarrow> strings_valid v \<Longrightarrow> tags_ok old \<Longrightarrow> tags_ok t"
proof -
  have e: "decode_entries ms m = Some t \<Longrightarrow> \<forall>(k, v) \<in> set ms. valid_utf8 k \<and> strings_valid v \<Longrightarrow> tags_ok m \<Longrightarrow> tags_ok t" for ms m
  proof (induction ms arbitrary: m)
    case (Cons kv ms)
    obtain k v where kv: "kv = (k, v)" by (cases kv)
    with Cons.prems(1) obtain x where x: "decode_string v [] = Some x" "decode_entries ms (m(k \<mapsto> x)) = Some t" by (auto split: option.splits)
    have "tags_ok (m(k \<mapsto> x))" using Cons.prems(2,3) kv decode_string_valid [OF x(1)] by (auto simp: tags_ok_def)
    then show ?case by (rule Cons.IH [OF x(2), rotated]) (use Cons.prems(2) in simp)
  qed simp
  assume "decode_tags v old = Some t" "strings_valid v" "tags_ok old"
  then show ?thesis by (auto simp: decode_tags_def tags_ok_def [of Map.empty] split: json.splits intro: e)
qed

section \<open>The four messages\<close>

definition request_ok :: "ProcessRequest \<Rightarrow> bool" where
  "request_ok m \<longleftrightarrow> valid_utf8 (pr_SchemaId m) \<and> valid_utf8 (pr_EntityKey m) \<and> valid_utf8 (pr_Operation m) \<and> valid_utf8 (pr_Token m)"

definition response_ok :: "ProcessResponse \<Rightarrow> bool" where
  "response_ok m \<longleftrightarrow> valid_utf8 (rs_Status m) \<and> valid_utf8 (rs_Version m) \<and> valid_utf8 (rs_Error m)"

definition subscribe_ok :: "SubscribeRequest \<Rightarrow> bool" where
  "subscribe_ok m \<longleftrightarrow> valid_utf8 (sr_WorkerId m) \<and> tags_ok (sr_Tags m)"

definition subscribed_ok :: "SubscribeResponse \<Rightarrow> bool" where
  "subscribed_ok m \<longleftrightarrow> valid_utf8 (sp_Token m) \<and> valid_utf8 (sp_KeyId m)"

lemmas field_defs = ProcessRequest_fields_def ProcessResponse_fields_def SubscribeRequest_fields_def SubscribeResponse_fields_def

lemma field_names_valid:
  "n \<in> set (ProcessRequest_fields @ ProcessResponse_fields @ SubscribeRequest_fields @ SubscribeResponse_fields) \<Longrightarrow> valid_utf8 n"
  by (rule valid_utf8_all_ascii) (auto simp: field_defs)

interpretation process_request: wire_message ProcessRequest_json ProcessRequest_fields put_ProcessRequest new_ProcessRequest request_ok
proof
  fix m :: ProcessRequest assume "request_ok m"
  then show "json_ok 10000 (ProcessRequest_json m)"
    unfolding ProcessRequest_json_def by (intro json_ok_object) (simp add: request_ok_def field_names_valid field_defs)
  show "decode_struct ProcessRequest_fields put_ProcessRequest (ProcessRequest_json m) new_ProcessRequest = Some m"
    by (cases m) (simp add: decode_struct_def ProcessRequest_json_def decode_member ProcessRequest_fields_def put_ProcessRequest_def new_ProcessRequest_def)
next
  fix m m' :: ProcessRequest and v name
  assume "request_ok m" "strings_valid v" "put_ProcessRequest name v m = Some m'"
  then show "request_ok m'"
    by (auto simp: put_ProcessRequest_def request_ok_def split: if_splits dest: decode_string_valid)
qed (simp add: request_ok_def new_ProcessRequest_def)

interpretation process_response: wire_message ProcessResponse_json ProcessResponse_fields put_ProcessResponse new_ProcessResponse response_ok
proof
  fix m :: ProcessResponse assume "response_ok m"
  then show "json_ok 10000 (ProcessResponse_json m)"
    unfolding ProcessResponse_json_def by (intro json_ok_object) (simp add: response_ok_def field_names_valid field_defs)
  show "decode_struct ProcessResponse_fields put_ProcessResponse (ProcessResponse_json m) new_ProcessResponse = Some m"
    by (cases m) (simp add: decode_struct_def ProcessResponse_json_def decode_member ProcessResponse_fields_def put_ProcessResponse_def new_ProcessResponse_def)
next
  fix m m' :: ProcessResponse and v name
  assume "response_ok m" "strings_valid v" "put_ProcessResponse name v m = Some m'"
  then show "response_ok m'"
    by (auto simp: put_ProcessResponse_def response_ok_def split: if_splits dest: decode_string_valid)
qed (simp add: response_ok_def new_ProcessResponse_def)

interpretation subscribe_request: wire_message SubscribeRequest_json SubscribeRequest_fields put_SubscribeRequest new_SubscribeRequest subscribe_ok
proof
  fix m :: SubscribeRequest assume m: "subscribe_ok m"
  then show "json_ok 10000 (SubscribeRequest_json m)"
    unfolding SubscribeRequest_json_def by (intro json_ok_object) (simp add: subscribe_ok_def field_names_valid field_defs members_ok_tags)
  show "decode_struct SubscribeRequest_fields put_SubscribeRequest (SubscribeRequest_json m) new_SubscribeRequest = Some m"
    using m
    by (cases m)
      (simp add: decode_struct_def SubscribeRequest_json_def decode_member SubscribeRequest_fields_def put_SubscribeRequest_def new_SubscribeRequest_def
        decode_tags_back subscribe_ok_def tags_ok_def)
next
  fix m m' :: SubscribeRequest and v name
  assume "subscribe_ok m" "strings_valid v" "put_SubscribeRequest name v m = Some m'"
  then show "subscribe_ok m'"
    by (auto simp: put_SubscribeRequest_def subscribe_ok_def split: if_splits dest: decode_string_valid decode_tags_ok)
qed (simp add: subscribe_ok_def tags_ok_def new_SubscribeRequest_def)

interpretation subscribe_response: wire_message SubscribeResponse_json SubscribeResponse_fields put_SubscribeResponse new_SubscribeResponse subscribed_ok
proof
  fix m :: SubscribeResponse assume "subscribed_ok m"
  then show "json_ok 10000 (SubscribeResponse_json m)"
    unfolding SubscribeResponse_json_def by (intro json_ok_object) (simp add: subscribed_ok_def field_names_valid field_defs)
  show "decode_struct SubscribeResponse_fields put_SubscribeResponse (SubscribeResponse_json m) new_SubscribeResponse = Some m"
    by (cases m) (simp add: decode_struct_def SubscribeResponse_json_def decode_member SubscribeResponse_fields_def put_SubscribeResponse_def new_SubscribeResponse_def)
next
  fix m m' :: SubscribeResponse and v name
  assume "subscribed_ok m" "strings_valid v" "put_SubscribeResponse name v m = Some m'"
  then show "subscribed_ok m'"
    by (auto simp: put_SubscribeResponse_def subscribed_ok_def split: if_splits dest: decode_string_valid)
qed (simp add: subscribed_ok_def new_SubscribeResponse_def)

end
