(* ===== verification/Rpc_Wire.thy ===== *)
theory Rpc_Wire
  imports Json_Messages
begin

text \<open>
  Calls over the wire: the client stubs, the server handlers and the service description of
  api/proto/worker_grpc.pb.go with the codec of api/proto/codec.go.  Of package grpc the model has
  what the stubs rely on: a message is encoded and decoded with the codec, an end refuses a message
  that is longer than its limit, and the method is found by its full name; the status errors
  it reports then are arguments.  The locale \<open>rpc_method\<close> joins the contracts of the two messages
  of a method; both methods interpret it.
\<close>

section \<open>The transport\<close>

record grpc_errors =
  ge_tooLarge :: rpc_error
  ge_undecodable :: rpc_error
  ge_unknown :: rpc_error

text \<open>Decoding a received message into the one that the stub allocated.\<close>

definition grpc_decode ::
    "grpc_errors \<Rightarrow> int \<Rightarrow> string list \<Rightarrow> (string \<Rightarrow> json \<Rightarrow> 'm \<Rightarrow> 'm option) \<Rightarrow> bytes \<Rightarrow> 'm \<Rightarrow> rpc_error + 'm" where
  "grpc_decode E limit names put data new =
     (if limit < int (length data) then Inl (ge_tooLarge E)
      else case codec_Unmarshal names put new data of None \<Rightarrow> Inl (ge_undecodable E) | Some m \<Rightarrow> Inr m)"

type_synonym 's connection = "string \<Rightarrow> bytes \<Rightarrow> 's \<Rightarrow> 's \<times> (rpc_error + bytes)"

definition grpc_Invoke ::
    "grpc_errors \<Rightarrow> int \<Rightarrow> ('p \<Rightarrow> json) \<Rightarrow> string list \<Rightarrow> (string \<Rightarrow> json \<Rightarrow> 'q \<Rightarrow> 'q option) \<Rightarrow> 's connection
      \<Rightarrow> string \<Rightarrow> 'p option \<Rightarrow> 'q \<Rightarrow> 's \<Rightarrow> 's \<times> (rpc_error + 'q)" where
  "grpc_Invoke E limit enc names put conn full inp out s =
     (case conn full (codec_Marshal enc inp) s of
        (s', Inl e) \<Rightarrow> (s', Inl e)
      | (s', Inr data) \<Rightarrow> (s', grpc_decode E limit names put data out))"

definition grpc_unary ::
    "('q \<Rightarrow> json) \<Rightarrow> ('p \<Rightarrow> rpc_error + 'p) \<Rightarrow> (('p \<Rightarrow> rpc_error + 'p) \<Rightarrow> 'i option \<Rightarrow> 's \<Rightarrow> 's \<times> (rpc_error + 'q))
      \<Rightarrow> 's \<Rightarrow> 's \<times> (rpc_error + bytes)" where
  "grpc_unary enc dec handler s =
     (case handler dec None s of
        (s', Inl e) \<Rightarrow> (s', Inl e)
      | (s', Inr out) \<Rightarrow> (s', Inr (codec_Marshal enc (Some out))))"

section \<open>Stubs\<close>

text \<open>The server interface, and an interceptor: it gets the request, the full name and the method.\<close>

record 's MainWorkerServer_iface =
  if_Subscribe :: "SubscribeRequest option \<Rightarrow> 's \<Rightarrow> 's \<times> (rpc_error + SubscribeResponse)"
  if_Process :: "ProcessRequest option \<Rightarrow> 's \<Rightarrow> 's \<times> (rpc_error + ProcessResponse)"

type_synonym ('p, 'q, 's) interceptor =
  "'p option \<Rightarrow> string \<Rightarrow> ('p option \<Rightarrow> 's \<Rightarrow> 's \<times> (rpc_error + 'q)) \<Rightarrow> 's \<Rightarrow> 's \<times> (rpc_error + 'q)"

definition client_Subscribe ::
    "(string \<Rightarrow> SubscribeRequest option \<Rightarrow> SubscribeResponse \<Rightarrow> 's \<Rightarrow> 's \<times> (rpc_error + SubscribeResponse))
      \<Rightarrow> SubscribeRequest option \<Rightarrow> 's \<Rightarrow> 's \<times> (rpc_error + SubscribeResponse)" where
  "client_Subscribe invoke inp s =
     (case invoke ''/deltadb.MainWorker/Subscribe'' inp new_SubscribeResponse s of
        (s', Inl err) \<Rightarrow> (s', Inl err)
      | (s', Inr out) \<Rightarrow> (s', Inr out))"

definition client_Process ::
    "(string \<Rightarrow> ProcessRequest option \<Rightarrow> ProcessResponse \<Rightarrow> 's \<Rightarrow> 's \<times> (rpc_error + ProcessResponse))
      \<Rightarrow> ProcessRequest option \<Rightarrow> 's \<Rightarrow> 's \<times> (rpc_error + ProcessResponse)" where
  "client_Process invoke inp s =
     (case invoke ''/deltadb.MainWorker/Process'' inp new_ProcessResponse s of
        (s', Inl err) \<Rightarrow> (s', Inl err)
      | (s', Inr out) \<Rightarrow> (s', Inr out))"

definition Subscribe_Handler ::
    "'s MainWorkerServer_iface \<Rightarrow> (SubscribeRequest \<Rightarrow> rpc_error + SubscribeRequest)
      \<Rightarrow> (SubscribeRequest, SubscribeResponse, 's) interceptor option \<Rightarrow> 's \<Rightarrow> 's \<times> (rpc_error + SubscribeResponse)" where
  "Subscribe_Handler srv dec interceptor s =
     (case dec new_SubscribeRequest of
        Inl err \<Rightarrow> (s, Inl err)
      | Inr inp \<Rightarrow>
          (case interceptor of
             None \<Rightarrow> if_Subscribe srv (Some inp) s
           | Some ic \<Rightarrow> ic (Some inp) ''/deltadb.MainWorker/Subscribe'' (if_Subscribe srv) s))"

definition Process_Handler ::
    "'s MainWorkerServer_iface \<Rightarrow> (ProcessRequest \<Rightarrow> rpc_error + ProcessRequest)
      \<Rightarrow> (ProcessRequest, ProcessResponse, 's) interceptor option \<Rightarrow> 's \<Rightarrow> 's \<times> (rpc_error + ProcessResponse)" where
  "Process_Handler srv dec interceptor s =
     (case dec new_ProcessRequest of
        Inl err \<Rightarrow> (s, Inl err)
      | Inr inp \<Rightarrow>
          (case interceptor of
             None \<Rightarrow> if_Process srv (Some inp) s
           | Some ic \<Rightarrow> ic (Some inp) ''/deltadb.MainWorker/Process'' (if_Process srv) s))"

text \<open>The service with its methods by name, each reading at most \<open>limit\<close> bytes.\<close>

definition MainWorker_ServiceDesc ::
    "grpc_errors \<Rightarrow> int \<Rightarrow> 's MainWorkerServer_iface \<Rightarrow> string \<times> (string \<times> (bytes \<Rightarrow> 's \<Rightarrow> 's \<times> (rpc_error + bytes))) list" where
  "MainWorker_ServiceDesc E limit srv = (''deltadb.MainWorker'',
     [(''Subscribe'', \<lambda>data. grpc_unary SubscribeResponse_json
         (grpc_decode E limit SubscribeRequest_fields put_SubscribeRequest data) (Subscribe_Handler srv)),
      (''Process'', \<lambda>data. grpc_unary ProcessResponse_json
         (grpc_decode E limit ProcessRequest_fields put_ProcessRequest data) (Process_Handler srv))])"

definition grpc_Serve :: "grpc_errors \<Rightarrow> int \<Rightarrow> 's MainWorkerServer_iface \<Rightarrow> 's connection" where
  "grpc_Serve E limit srv full data s =
     (let (svc, methods) = MainWorker_ServiceDesc E limit srv
      in case map_of (map (\<lambda>(name, h). (''/'' @ svc @ ''/'' @ name, h)) methods) full of
           None \<Rightarrow> (s, Inl (ge_unknown E))
         | Some h \<Rightarrow> h data s)"

definition Unimplemented_Process :: "ProcessRequest option \<Rightarrow> rpc_error + ProcessResponse" where
  "Unimplemented_Process req = Inl (Unimplemented, ''method Process not implemented'')"

definition Unimplemented_Subscribe :: "SubscribeRequest option \<Rightarrow> rpc_error + SubscribeResponse" where
  "Unimplemented_Subscribe req = Inl (Unimplemented, ''method Subscribe not implemented'')"

section \<open>A method and its two messages\<close>

definition fits :: "int \<Rightarrow> ('m \<Rightarrow> json) \<Rightarrow> 'm \<Rightarrow> bool" where
  "fits limit enc m \<longleftrightarrow> int (length (codec_Marshal enc (Some m))) \<le> limit"

text \<open>What the other end gets of a message.\<close>

definition received :: "grpc_errors \<Rightarrow> int \<Rightarrow> ('m \<Rightarrow> json) \<Rightarrow> 'm \<Rightarrow> rpc_error + 'm" where
  "received E limit enc m = (if fits limit enc m then Inr m else Inl (ge_tooLarge E))"

context wire_message
begin

lemma decode_marshalled: "ok m \<Longrightarrow> grpc_decode E limit names put (codec_Marshal enc (Some m)) new = received E limit enc m"
  by (simp add: grpc_decode_def received_def fits_def marshalled)

lemma decoded_ok: "grpc_decode E limit names put data new = Inr m \<Longrightarrow> ok m"
  by (auto simp: grpc_decode_def split: if_splits option.splits intro: received_ok)

text \<open>A message that was received and is sent on arrives as it was.\<close>

lemma decode_resent: "grpc_decode E limit names put data new = Inr m \<Longrightarrow>
    grpc_decode E limit' names put (codec_Marshal enc (Some m)) new = received E limit' enc m"
  by (intro decode_marshalled decoded_ok)

end

text \<open>
  A call as the two ends see it: a request that is too long does not reach the method, an answer
  that is too long does not reach the client, and all else is the method itself.
\<close>

definition limited_call ::
    "grpc_errors \<Rightarrow> int \<Rightarrow> ('p \<Rightarrow> json) \<Rightarrow> int \<Rightarrow> ('q \<Rightarrow> json) \<Rightarrow> ('p option \<Rightarrow> 's \<Rightarrow> 's \<times> (rpc_error + 'q)) \<Rightarrow> 'p \<Rightarrow> 's
      \<Rightarrow> 's \<times> (rpc_error + 'q)" where
  "limited_call E lp encp lq encq meth m s =
     (if \<not> fits lp encp m then (s, Inl (ge_tooLarge E))
      else case meth (Some m) s of
        (s', Inl e) \<Rightarrow> (s', Inl e)
      | (s', Inr out) \<Rightarrow> (s', received E lq encq out))"

locale rpc_method =
  request: wire_message encp namesp putp newp okp + answer: wire_message encq namesq putq newq okq
  for encp :: "'p \<Rightarrow> json" and namesp putp newp okp and encq :: "'q \<Rightarrow> json" and namesq putq newq okq
begin

text \<open>The bytes that a handler of the method answers, if its stub runs the method on what was decoded.\<close>

lemma call_limited:
  assumes "\<And>dec s. handler dec None s = (case dec newp of Inl e \<Rightarrow> (s, Inl e) | Inr inp \<Rightarrow> meth (Some inp) s)"
    and "\<And>data s. conn full data s = grpc_unary encq (grpc_decode E lp namesp putp data) handler s"
    and "okp m" and "\<And>s' out. meth (Some m) s = (s', Inr out) \<Longrightarrow> okq out"
  shows "grpc_Invoke E lq encp namesq putq conn full (Some m) newq s = limited_call E lp encp lq encq meth m s"
proof (cases "meth (Some m) s")
  case (Pair s' r)
  then show ?thesis
    using assms(3,4)
    by (cases r)
      (simp_all add: grpc_Invoke_def grpc_unary_def limited_call_def assms(1,2) request.decode_marshalled answer.decode_marshalled received_def)
qed

end

interpretation process_method: rpc_method
    ProcessRequest_json ProcessRequest_fields put_ProcessRequest new_ProcessRequest request_ok
    ProcessResponse_json ProcessResponse_fields put_ProcessResponse new_ProcessResponse response_ok ..

interpretation subscribe_method: rpc_method
    SubscribeRequest_json SubscribeRequest_fields put_SubscribeRequest new_SubscribeRequest subscribe_ok
    SubscribeResponse_json SubscribeResponse_fields put_SubscribeResponse new_SubscribeResponse subscribed_ok ..

lemma served_methods:
  "grpc_Serve E limit srv ''/deltadb.MainWorker/Process'' data s =
     grpc_unary ProcessResponse_json (grpc_decode E limit ProcessRequest_fields put_ProcessRequest data) (Process_Handler srv) s"
  "grpc_Serve E limit srv ''/deltadb.MainWorker/Subscribe'' data s =
     grpc_unary SubscribeResponse_json (grpc_decode E limit SubscribeRequest_fields put_SubscribeRequest data) (Subscribe_Handler srv) s"
  by (simp_all add: grpc_Serve_def MainWorker_ServiceDesc_def)

lemma handler_direct:
  "Process_Handler srv dec None s = (case dec new_ProcessRequest of Inl e \<Rightarrow> (s, Inl e) | Inr inp \<Rightarrow> if_Process srv (Some inp) s)"
  "Subscribe_Handler srv dec' None s = (case dec' new_SubscribeRequest of Inl e \<Rightarrow> (s, Inl e) | Inr inp \<Rightarrow> if_Subscribe srv (Some inp) s)"
  by (simp_all add: Process_Handler_def Subscribe_Handler_def split: sum.splits)

section \<open>The clients\<close>

text \<open>A client of a server: the limits are those of the server and of the client.\<close>

definition dial_Process ::
    "grpc_errors \<Rightarrow> int \<Rightarrow> int \<Rightarrow> 's MainWorkerServer_iface \<Rightarrow> ProcessRequest option \<Rightarrow> 's \<Rightarrow> 's \<times> (rpc_error + ProcessResponse)" where
  "dial_Process E lsrv lcli srv =
     client_Process (grpc_Invoke E lcli ProcessRequest_json ProcessResponse_fields put_ProcessResponse (grpc_Serve E lsrv srv))"

definition dial_Subscribe ::
    "grpc_errors \<Rightarrow> int \<Rightarrow> int \<Rightarrow> 's MainWorkerServer_iface \<Rightarrow> SubscribeRequest option \<Rightarrow> 's \<Rightarrow> 's \<times> (rpc_error + SubscribeResponse)" where
  "dial_Subscribe E lsrv lcli srv =
     client_Subscribe (grpc_Invoke E lcli SubscribeRequest_json SubscribeResponse_fields put_SubscribeResponse (grpc_Serve E lsrv srv))"

lemma client_returns: "client_Process iv m s = iv ''/deltadb.MainWorker/Process'' m new_ProcessResponse s"
  "client_Subscribe iv' q s = iv' ''/deltadb.MainWorker/Subscribe'' q new_SubscribeResponse s"
  by (auto simp: client_Process_def client_Subscribe_def split: prod.splits sum.splits)

lemma dial_Process_limited:
  assumes "request_ok m" and "\<And>s' out. if_Process srv (Some m) s = (s', Inr out) \<Longrightarrow> response_ok out"
  shows "dial_Process E lsrv lcli srv (Some m) s = limited_call E lsrv ProcessRequest_json lcli ProcessResponse_json (if_Process srv) m s"
  unfolding dial_Process_def client_returns
  by (rule process_method.call_limited [where handler = "Process_Handler srv"]) (simp_all add: handler_direct served_methods assms)

lemma dial_Subscribe_limited:
  assumes "subscribe_ok q" and "\<And>s' out. if_Subscribe srv (Some q) s = (s', Inr out) \<Longrightarrow> subscribed_ok out"
  shows "dial_Subscribe E lsrv lcli srv (Some q) s = limited_call E lsrv SubscribeRequest_json lcli SubscribeResponse_json (if_Subscribe srv) q s"
  unfolding dial_Subscribe_def client_returns
  by (rule subscribe_method.call_limited [where handler = "Subscribe_Handler srv"]) (simp_all add: handler_direct served_methods assms)

section \<open>Properties\<close>

text \<open>
  C23. A call over the wire is the call of the method within the limits of both ends: a request whose
  strings are valid UTF-8 reaches the method as it was sent, payload bytes included, unless its
  text is longer than the limit of the server; an answer with valid strings comes back as it was
  given, errors too, unless its text is longer than the limit of the client, and then
  the method has run all the same.  This holds for both methods.
\<close>

theorem wire_call_transparent:
  assumes "request_ok m" and "\<forall>s' out. if_Process srv (Some m) s = (s', Inr out) \<longrightarrow> response_ok out"
    and "subscribe_ok q" and "\<forall>s' out. if_Subscribe srv (Some q) s = (s', Inr out) \<longrightarrow> subscribed_ok out"
  shows "dial_Process E lsrv lcli srv (Some m) s = limited_call E lsrv ProcessRequest_json lcli ProcessResponse_json (if_Process srv) m s \<and>
    dial_Subscribe E lsrv lcli srv (Some q) s = limited_call E lsrv SubscribeRequest_json lcli SubscribeResponse_json (if_Subscribe srv) q s"
  using assms by (blast intro: dial_Process_limited dial_Subscribe_limited)


definition echo_server :: "nat MainWorkerServer_iface" where
  "echo_server = \<lparr>if_Subscribe = (\<lambda>q n. (n + 1, Inr \<lparr>sp_Token = GetWorkerId q, sp_WrappedKey = GetPubkey q, sp_KeyId = ''k''\<rparr>)),
     if_Process = (\<lambda>m n. (n + 1, Inr (response ''OK'' (GetPayload m) ''1'')))\<rparr>"

definition no_errors :: grpc_errors where
  "no_errors = \<lparr>ge_tooLarge = (Internal, ''large''), ge_undecodable = (Internal, ''bad''), ge_unknown = (Unimplemented, [])\<rparr>"

definition echo_put :: ProcessRequest where
  "echo_put = \<lparr>pr_SchemaId = ''s'', pr_EntityKey = ''e'', pr_Operation = ''PUT'', pr_Payload = ''{}'', pr_Token = []\<rparr>"

definition echo_join :: SubscribeRequest where
  "echo_join = \<lparr>sr_WorkerId = ''w'', sr_Pubkey = ''p'', sr_Tags = Map.empty\<rparr>"

lemma echo_put_text: "codec_Marshal ProcessRequest_json (Some echo_put) =
    ''{\"schema_id\":\"s\",\"entity_key\":\"e\",\"operation\":\"PUT\",\"payload\":\"e30=\"}''"
  by code_simp

lemma echo_join_fits: "fits 100 SubscribeRequest_json echo_join"
proof -
  have "SubscribeRequest_json echo_join = JObj [(''worker_id'', jstr ''w''), (''pubkey'', jstr (b64_encode b64_std ''p''))]"
    by (simp add: SubscribeRequest_json_def echo_join_def string_member_def bytes_member_def tags_member_def)
  moreover have "int (length (json_text None (JObj [(''worker_id'', jstr ''w''), (''pubkey'', jstr (b64_encode b64_std ''p''))]))) \<le> 100"
    by code_simp
  ultimately show ?thesis by (simp add: fits_def codec_Marshal_def)
qed

lemma echo_fits: "fits 100 ProcessRequest_json echo_put"
  "fits 100 ProcessResponse_json (response ''OK'' ''{}'' ''1'')" "\<not> fits 40 SubscribeResponse_json \<lparr>sp_Token = ''w'', sp_WrappedKey = ''p'', sp_KeyId = ''k''\<rparr>"
  by code_simp+

lemma echo_ok: "request_ok echo_put" "subscribe_ok echo_join" "response_ok (response ''OK'' ''{}'' ''1'')"
  "subscribed_ok \<lparr>sp_Token = ''w'', sp_WrappedKey = ''p'', sp_KeyId = ''k''\<rparr>"
  by (simp_all add: request_ok_def subscribe_ok_def response_ok_def subscribed_ok_def tags_ok_def echo_put_def echo_join_def response_def
      valid_utf8_all_ascii)

theorem wire_call_transparent_witness:
  "dial_Process no_errors 100 100 echo_server (Some echo_put) 0 = (1, Inr (response ''OK'' ''{}'' ''1'')) \<and>
   dial_Subscribe no_errors 100 40 echo_server (Some echo_join) 0 = (1, Inl (Internal, ''large''))"
  using wire_call_transparent [of echo_put echo_server 0 echo_join no_errors 100 100]
    wire_call_transparent [of echo_put echo_server 0 echo_join no_errors 100 40] echo_ok echo_fits echo_join_fits
  by (simp add: limited_call_def received_def echo_server_def) (simp add: echo_put_def echo_join_def no_errors_def received_def)

text \<open>
  Whatever bytes arrive, a method runs, if at all, on a request whose strings are valid UTF-8, and such a request
  that is sent on runs the method of the next server on the same request, unless it is too long for it.
\<close>

theorem received_request_forwarded:
  assumes "grpc_decode E limit ProcessRequest_fields put_ProcessRequest data new_ProcessRequest = Inr m"
  shows "request_ok m \<and>
    grpc_Serve E limit' srv ''/deltadb.MainWorker/Process'' (codec_Marshal ProcessRequest_json (Some m)) s =
      (if fits limit' ProcessRequest_json m then grpc_Serve E limit srv ''/deltadb.MainWorker/Process'' data s else (s, Inl (ge_tooLarge E)))"
  using process_request.decoded_ok [OF assms] process_request.decode_resent [OF assms, of limit'] assms
  by (simp add: served_methods grpc_unary_def handler_direct received_def)

theorem received_request_forwarded_witness:
  "grpc_Serve no_errors 100 echo_server ''/deltadb.MainWorker/Process''
     (codec_Marshal ProcessRequest_json (Some echo_put)) 0 =
   grpc_Serve no_errors 200 echo_server ''/deltadb.MainWorker/Process''
     ('' '' @ codec_Marshal ProcessRequest_json (Some echo_put)) 0"
proof -
  have "grpc_decode no_errors 200 ProcessRequest_fields put_ProcessRequest ('' '' @ codec_Marshal ProcessRequest_json (Some echo_put)) new_ProcessRequest = Inr echo_put"
    unfolding echo_put_text by code_simp
  from received_request_forwarded [OF this, of 100 echo_server 0] echo_fits(1) show ?thesis by simp
qed

end
