(* ===== verification/Time_Text.thy ===== *)
theory Time_Text
  imports Json_Values
begin

text \<open>
  Instants as text: the calendar of package time and the format RFC 3339 in which encoding/json
  writes and reads a \<open>time.Time\<close> with the offset of its location.  An instant is the number of nanoseconds since the first
  of January of the year 1.
\<close>

section \<open>The calendar\<close>

definition is_leap :: "int \<Rightarrow> bool" where
  "is_leap y \<longleftrightarrow> y mod 4 = 0 \<and> (y mod 100 \<noteq> 0 \<or> y mod 400 = 0)"

definition month_lengths :: "int \<Rightarrow> int list" where
  "month_lengths y = [31, if is_leap y then 29 else 28, 31, 30, 31, 30, 31, 31, 30, 31, 30, 31]"

text \<open>The days from the first of January of the year 1 to that of a year.\<close>

definition days_before_year :: "int \<Rightarrow> int" where
  "days_before_year y = 365 * (y - 1) + (y - 1) div 4 - (y - 1) div 100 + (y - 1) div 400"

definition days_of_date :: "int \<Rightarrow> nat \<Rightarrow> int \<Rightarrow> int" where
  "days_of_date y m d = days_before_year y + sum_list (take (m - 1) (month_lengths y)) + (d - 1)"

text \<open>
  The year of a day and the day in it: cycles of 400, 100, 4 and 1 years are cut off, where the
  fourth century and the fourth year of a cycle have one day more.
\<close>

definition year_of_day :: "int \<Rightarrow> int \<times> int" where
  "year_of_day d =
     (let n400 = d div 146097; d1 = d - 146097 * n400;
          n100 = min 3 (d1 div 36524); d2 = d1 - 36524 * n100;
          n4 = d2 div 1461; d3 = d2 - 1461 * n4;
          n = min 3 (d3 div 365)
      in (400 * n400 + 100 * n100 + 4 * n4 + n + 1, d3 - 365 * n))"

fun month_of_day :: "int list \<Rightarrow> nat \<Rightarrow> int \<Rightarrow> nat \<times> int" where
  "month_of_day [] m d = (m, d + 1)"
| "month_of_day (l # ls) m d = (if d < l then (m, d + 1) else month_of_day ls (m + 1) (d - l))"

definition date_of_days :: "int \<Rightarrow> int \<times> nat \<times> int" where
  "date_of_days d = (let (y, yd) = year_of_day d in (y, month_of_day (month_lengths y) 1 yd))"

lemma div_bounds: "0 < n \<Longrightarrow> n * (x div n) \<le> x \<and> x < n * (x div n) + n" for x n :: int
  using mult_div_mod_eq [of n x] pos_mod_bound [of n x] pos_mod_sign [of n x] by linarith

lemma div_le_bound:
  fixes x n k :: int
  assumes "x < (k + 1) * n" and "0 < n"
  shows "x div n \<le> k"
proof (rule ccontr)
  assume "\<not> x div n \<le> k"
  then have "n * (k + 1) \<le> n * (x div n)" using assms(2) by (intro mult_left_mono) auto
  with div_bounds [OF assms(2), of x] assms(1) [unfolded mult.commute [of "k + 1" n]] show False by linarith
qed

text \<open>A cycle with a long last part: the part that a day is in, and the rest.\<close>

lemma cut_part:
  fixes d n :: int
  assumes "0 \<le> d" and "d \<le> 4 * n" and "0 < n"
  shows "0 \<le> min 3 (d div n) \<and> 0 \<le> d - n * min 3 (d div n) \<and>
    (d - n * min 3 (d div n) < n \<or> min 3 (d div n) = 3 \<and> d = 4 * n)"
proof (cases "d div n \<le> 3")
  case True
  moreover have "0 \<le> d div n" using assms by (simp add: pos_imp_zdiv_nonneg_iff)
  ultimately show ?thesis using div_bounds [OF assms(3), of d] by (simp add: min_def)
next
  case False
  then have "n * 4 \<le> n * (d div n)" using assms(3) by simp
  with div_bounds [OF assms(3), of d] assms have "d = 4 * n" by linarith
  with assms(3) show ?thesis by simp
qed

lemma leap_last:
  fixes a b c :: int
  assumes "0 \<le> b" "b \<le> 3" "0 \<le> c" "c \<le> 24" "c = 24 \<Longrightarrow> b = 3"
  shows "is_leap (400 * a + 100 * b + 4 * c + 4)"
proof (cases "c = 24")
  case True
  with assms(5) have "400 * a + 100 * b + 4 * c + 4 = 400 * (a + 1)" by simp
  then show ?thesis by (simp only: is_leap_def) simp
next
  case False
  have "(400 * a + 100 * b + 4 * c + 4) mod 100 = 4 * c + 4"
    by (rule int_mod_pos_eq [where q = "4 * a + b"]) (use assms False in auto)
  moreover have "(400 * a + 100 * b + 4 * c + 4) mod 4 = 0"
    by (rule int_mod_pos_eq [where q = "100 * a + 25 * b + c + 1"]) auto
  ultimately show ?thesis using assms by (simp add: is_leap_def)
qed

lemma days_before_cycles:
  fixes a b c e :: int
  assumes "0 \<le> b" "b \<le> 3" "0 \<le> c" "c \<le> 24" "0 \<le> e" "e \<le> 3"
  shows "days_before_year (400 * a + 100 * b + 4 * c + e + 1) = 146097 * a + 36524 * b + 1461 * c + 365 * e"
proof -
  let ?y = "400 * a + 100 * b + 4 * c + e"
  have "?y div 4 = 100 * a + 25 * b + c" by (rule int_div_pos_eq [where r = e]) (use assms in auto)
  moreover have "?y div 100 = 4 * a + b" by (rule int_div_pos_eq [where r = "4 * c + e"]) (use assms in auto)
  moreover have "?y div 400 = a" by (rule int_div_pos_eq [where r = "100 * b + 4 * c + e"]) (use assms in auto)
  ultimately show ?thesis by (simp add: days_before_year_def)
qed

text \<open>The counts of cycles, and the day in the year.\<close>

lemma year_of_day_cycles:
  assumes "year_of_day d = (y, yd)"
  obtains b c e where "y = 400 * (d div 146097) + 100 * b + 4 * c + e + 1" "d = 146097 * (d div 146097) + 36524 * b + 1461 * c + 365 * e + yd"
    "0 \<le> b" "b \<le> 3" "0 \<le> c" "c \<le> 24" "0 \<le> e" "e \<le> 3" "0 \<le> yd"
    "yd < 365 \<or> e = 3 \<and> yd < 366 \<and> (c = 24 \<longrightarrow> b = 3)"
proof -
  define a where "a = d div 146097"
  define d1 where "d1 = d - 146097 * a"
  define b where "b = min 3 (d1 div 36524)"
  define d2 where "d2 = d1 - 36524 * b"
  define c where "c = d2 div 1461"
  define d3 where "d3 = d2 - 1461 * c"
  define e where "e = min 3 (d3 div 365)"
  have y: "y = 400 * a + 100 * b + 4 * c + e + 1" and yd: "yd = d3 - 365 * e"
    using assms unfolding year_of_day_def Let_def a_def [symmetric] d1_def [symmetric] b_def [symmetric] d2_def [symmetric]
      c_def [symmetric] d3_def [symmetric] e_def [symmetric] by blast+
  have r1: "0 \<le> d1" "d1 \<le> 146096" using div_bounds [of 146097 d] by (simp_all add: d1_def a_def)
  have b: "0 \<le> b" "b \<le> 3" "0 \<le> d2" "d2 < 36524 \<or> b = 3 \<and> d1 = 146096"
    using cut_part [of d1 36524] r1 by (simp_all add: b_def d2_def)
  have d2: "d2 \<le> 36524" using b(4) d2_def by linarith
  have c3: "0 \<le> d3" "d3 < 1461" using div_bounds [of 1461 d2] unfolding c_def d3_def by linarith+
  with b(3) d2 d3_def have c: "0 \<le> c" "c \<le> 24" by linarith+
  have last: "c = 24 \<longrightarrow> b = 3" if "d3 = 1460" using that b(4) d3_def by linarith
  have e: "0 \<le> e" "e \<le> 3" "0 \<le> yd" "yd < 365 \<or> e = 3 \<and> d3 = 1460"
    using cut_part [of d3 365] c3 by (simp_all add: e_def yd)
  have "yd < 365 \<or> e = 3 \<and> yd < 366 \<and> (c = 24 \<longrightarrow> b = 3)" using e(4) last yd by auto
  moreover have "d = 146097 * a + 36524 * b + 1461 * c + 365 * e + yd" using yd d3_def d2_def d1_def by linarith
  ultimately show thesis using that [of b c e] y b c e by (simp only: a_def)
qed

lemma year_cycle: "year_of_day d = (y, yd) \<Longrightarrow> 400 * (d div 146097) + 1 \<le> y \<and> y \<le> 400 * (d div 146097) + 400"
  by (elim year_of_day_cycles) linarith

lemma year_of_day:
  assumes "year_of_day d = (y, yd)"
  shows "days_before_year y + yd = d \<and> 0 \<le> yd \<and> yd < (if is_leap y then 366 else 365)"
  using assms
proof (rule year_of_day_cycles)
  fix b c e :: int
  let ?a = "d div 146097"
  assume y: "y = 400 * ?a + 100 * b + 4 * c + e + 1" and d: "d = 146097 * ?a + 36524 * b + 1461 * c + 365 * e + yd"
    and bnd: "0 \<le> b" "b \<le> 3" "0 \<le> c" "c \<le> 24" "0 \<le> e" "e \<le> 3" "0 \<le> yd"
    and rest: "yd < 365 \<or> e = 3 \<and> yd < 366 \<and> (c = 24 \<longrightarrow> b = 3)"
  have "is_leap y" if "e = 3" "c = 24 \<longrightarrow> b = 3"
    using leap_last [of b c ?a] bnd that by (simp add: y ac_simps)
  moreover have "days_before_year y + yd = d" using days_before_cycles [OF bnd(1-6), of ?a] d unfolding y [symmetric] by linarith
  ultimately show ?thesis using rest bnd(7) by auto
qed

lemma year_range:
  assumes "0 \<le> d" and "d < days_before_year 10000" and "year_of_day d = (y, yd)"
  shows "1 \<le> y \<and> y \<le> 9999"
proof -
  have ten: "days_before_year 10000 = 3652059" by code_simp
  have "0 \<le> d div 146097" "d div 146097 \<le> 24" using div_bounds [of 146097 d] assms(1,2) ten by linarith+
  with year_cycle [OF assms(3)] have "1 \<le> y" "y \<le> 10000" by linarith+
  moreover have "y \<noteq> 10000" using year_of_day [OF assms(3)] assms(2) by auto
  ultimately show ?thesis by linarith
qed

lemma month_of_day:
  assumes "0 \<le> d" "d < sum_list ls" "\<forall>l \<in> set ls. 0 < l" "month_of_day ls m d = (m', d')"
  shows "m \<le> m' \<and> m' < m + length ls \<and> 1 \<le> d' \<and> d' \<le> ls ! (m' - m) \<and> sum_list (take (m' - m) ls) + (d' - 1) = d"
  using assms
proof (induction ls m d arbitrary: m' d' rule: month_of_day.induct)
  case (2 l ls m d)
  show ?case
  proof (cases "d < l")
    case False
    with 2 have *: "m + 1 \<le> m' \<and> m' < m + 1 + length ls \<and> 1 \<le> d' \<and> d' \<le> ls ! (m' - (m + 1)) \<and> sum_list (take (m' - (m + 1)) ls) + (d' - 1) = d - l"
      by (intro "2.IH") auto
    then obtain k where "m' = Suc (m + k)" by (metis add_Suc_right add.commute le_Suc_ex plus_1_eq_Suc)
    with * show ?thesis by simp
  qed (use 2 in auto)
qed simp

lemma month_lengths_sum: "sum_list (month_lengths y) = (if is_leap y then 366 else 365)"
  by (simp add: month_lengths_def)

lemma date_of_days:
  assumes "date_of_days d = (y, m, dd)"
  shows "days_of_date y m dd = d \<and> 1 \<le> m \<and> m \<le> 12 \<and> 1 \<le> dd \<and> dd \<le> month_lengths y ! (m - 1)"
proof -
  obtain yd where yd: "year_of_day d = (y, yd)" and m: "month_of_day (month_lengths y) 1 yd = (m, dd)"
    using assms by (auto simp: date_of_days_def split: prod.splits)
  note y = year_of_day [OF yd]
  have "\<forall>l \<in> set (month_lengths y). 0 < l" "length (month_lengths y) = 12" by (auto simp: month_lengths_def)
  with month_of_day [OF _ _ _ m] y show ?thesis by (auto simp: month_lengths_sum days_of_date_def)
qed

section \<open>Digits\<close>

text \<open>A number with a fixed count of digits, and the value of a text of digits.\<close>

fun fixed_digits :: "nat \<Rightarrow> nat \<Rightarrow> string" where
  "fixed_digits 0 n = []"
| "fixed_digits (Suc k) n = fixed_digits k (n div 10) @ [dec_digit (n mod 10)]"

definition digits_value :: "string \<Rightarrow> nat" where
  "digits_value s = foldl (\<lambda>x c. 10 * x + (code c - 48)) 0 s"

text \<open>\<open>parseUint\<close> of \<open>parseRFC3339\<close>.\<close>

definition parse_uint :: "string \<Rightarrow> nat \<Rightarrow> nat \<Rightarrow> nat option" where
  "parse_uint s lo hi =
     (if list_all is_digit s \<and> lo \<le> digits_value s \<and> digits_value s \<le> hi then Some (digits_value s) else None)"

lemma length_fixed_digits [simp]: "length (fixed_digits k n) = k"
  by (induction k arbitrary: n) simp_all

lemma is_digit_dec_digit [simp]: "d < 10 \<Longrightarrow> is_digit (dec_digit d)"
  by (simp add: is_digit_def)

lemma fixed_digits_all [simp]: "list_all is_digit (fixed_digits k n)"
  by (induction k arbitrary: n) simp_all

lemma digits_value_snoc [simp]: "digits_value (s @ [c]) = 10 * digits_value s + (code c - 48)" "digits_value [] = 0"
  by (simp_all add: digits_value_def)

lemma fixed_digits_value [simp]: "n < 10 ^ k \<Longrightarrow> digits_value (fixed_digits k n) = n"
proof (induction k arbitrary: n)
  case (Suc k)
  then have "n div 10 < 10 ^ k" by (simp add: less_mult_imp_div_less mult.commute)
  from Suc.IH [OF this] show ?case by simp
qed simp

lemma parse_uint_fixed: "n < 10 ^ k \<Longrightarrow> lo \<le> n \<Longrightarrow> n \<le> hi \<Longrightarrow> parse_uint (fixed_digits k n) lo hi = Some n"
  by (simp add: parse_uint_def)

text \<open>Trailing zeros of a fraction.\<close>

definition strip_zeros :: "string \<Rightarrow> string" where
  "strip_zeros s = rev (dropWhile (\<lambda>c. c = CHR ''0'') (rev s))"

lemma strip_zeros_value: "digits_value s = digits_value (strip_zeros s) * 10 ^ (length s - length (strip_zeros s)) \<and> length (strip_zeros s) \<le> length s"
proof (induction s rule: rev_induct)
  case (snoc c s)
  show ?case
  proof (cases "c = CHR ''0''")
    case True
    with snoc show ?thesis by (simp add: strip_zeros_def Suc_diff_le)
  qed (simp add: strip_zeros_def)
qed (simp add: strip_zeros_def)

lemma strip_zeros_digits: "list_all is_digit s \<Longrightarrow> list_all is_digit (strip_zeros s)"
  by (auto simp: strip_zeros_def list_all_iff dest: set_dropWhileD)

section \<open>RFC 3339\<close>

text \<open>
  \<open>appendStrictRFC3339\<close> on an instant in a location with an offset in seconds: it fails for a year of more
  than four digits and for an offset of a day.  The seconds of an offset are not written.
\<close>

definition zone_suffix :: "int \<Rightarrow> string" where
  "zone_suffix off =
     (if off = 0 then ''Z''
      else let zone = \<bar>off\<bar> div 60 in
        (if off \<le> - 60 then ''-'' else ''+'') @ fixed_digits 2 (nat (zone div 60)) @ '':'' @ fixed_digits 2 (nat (zone mod 60)))"

definition format_RFC3339 :: "int \<Rightarrow> gotime \<Rightarrow> string option" where
  "format_RFC3339 off t =
     (let local = t + off * second; (y, m, d) = date_of_days (local div (24 * hour)); rest = local mod (24 * hour);
          frac = strip_zeros (fixed_digits 9 (nat (rest mod second)))
      in if 0 \<le> y \<and> y \<le> 9999 \<and> \<bar>off\<bar> < 86400
         then Some (fixed_digits 4 (nat y) @ ''-'' @ fixed_digits 2 m @ ''-'' @ fixed_digits 2 (nat d) @ ''T'' @
           fixed_digits 2 (nat (rest div hour)) @ '':'' @ fixed_digits 2 (nat (rest mod hour div minute)) @ '':'' @
           fixed_digits 2 (nat (rest mod minute div second)) @ (if frac = [] then [] else ''.'' @ frac) @ zone_suffix off)
         else None)"

text \<open>The fraction of a second after the point, of which nine digits count.\<close>

definition nanoseconds :: "string \<Rightarrow> int" where
  "nanoseconds ds = int (digits_value (take 9 ds) * 10 ^ (9 - length (take 9 ds)))"

definition parse_fraction :: "string \<Rightarrow> int \<times> string" where
  "parse_fraction s =
     (if 2 \<le> length s \<and> s ! 0 = CHR ''.'' \<and> is_digit (s ! 1)
      then (nanoseconds (takeWhile is_digit (tl s)), dropWhile is_digit (tl s)) else (0, s))"

definition parse_zone :: "string \<Rightarrow> duration option" where
  "parse_zone s =
     (if s = ''Z'' then Some 0
      else if length s \<noteq> 6 then None
      else case (parse_uint (take 2 (drop 1 s)) 0 23, parse_uint (take 2 (drop 4 s)) 0 59) of
             (Some hr, Some mm) \<Rightarrow>
               if (s ! 0 = CHR ''-'' \<or> s ! 0 = CHR ''+'') \<and> s ! 3 = CHR '':''
               then Some ((if s ! 0 = CHR ''-'' then - 1 else 1) * (int hr * 60 + int mm) * minute) else None
           | _ \<Rightarrow> None)"

text \<open>\<open>parseRFC3339\<close>: None is the answer that it is not of the common form.\<close>

definition parse_RFC3339 :: "string \<Rightarrow> gotime option" where
  "parse_RFC3339 s =
     (if length s < 19 then None
      else case (parse_uint (take 4 s) 0 9999, parse_uint (take 2 (drop 5 s)) 1 12) of
        (Some y, Some m) \<Rightarrow>
          (case (parse_uint (take 2 (drop 8 s)) 1 (nat (month_lengths (int y) ! (m - 1))), parse_uint (take 2 (drop 11 s)) 0 23,
                 parse_uint (take 2 (drop 14 s)) 0 59, parse_uint (take 2 (drop 17 s)) 0 59) of
             (Some d, Some hh, Some mi, Some ss) \<Rightarrow>
               if s ! 4 = CHR ''-'' \<and> s ! 7 = CHR ''-'' \<and> s ! 10 = CHR ''T'' \<and> s ! 13 = CHR '':'' \<and> s ! 16 = CHR '':''
               then let (ns, z) = parse_fraction (drop 19 s) in
                 map_option (\<lambda>off. days_of_date (int y) m (int d) * (24 * hour) + int hh * hour + int mi * minute + int ss * second + ns - off)
                   (parse_zone z)
               else None
           | _ \<Rightarrow> None)
      | _ \<Rightarrow> None)"

lemma parse_parts:
  assumes "length Y = 4" "length M = 2" "length D = 2" "length H = 2" "length I = 2" "length S = 2"
  shows "parse_RFC3339 (Y @ ''-'' @ M @ ''-'' @ D @ ''T'' @ H @ '':'' @ I @ '':'' @ S @ r) =
    (case (parse_uint Y 0 9999, parse_uint M 1 12) of
       (Some y, Some m) \<Rightarrow>
         (case (parse_uint D 1 (nat (month_lengths (int y) ! (m - 1))), parse_uint H 0 23, parse_uint I 0 59, parse_uint S 0 59) of
            (Some d, Some hh, Some mi, Some ss) \<Rightarrow>
              (let (ns, z) = parse_fraction r in
                 map_option (\<lambda>off. days_of_date (int y) m (int d) * (24 * hour) + int hh * hour + int mi * minute + int ss * second + ns - off)
                   (parse_zone z))
          | _ \<Rightarrow> None)
     | _ \<Rightarrow> None)"
proof -
  define s where "s = Y @ ''-'' @ M @ ''-'' @ D @ ''T'' @ H @ '':'' @ I @ '':'' @ S @ r"
  have "(length s < 19) = False" "take 4 s = Y" "take 2 (drop 5 s) = M" "take 2 (drop 8 s) = D" "take 2 (drop 11 s) = H"
    "take 2 (drop 14 s) = I" "take 2 (drop 17 s) = S" "drop 19 s = r"
    "s ! 4 = CHR ''-''" "s ! 7 = CHR ''-''" "s ! 10 = CHR ''T''" "s ! 13 = CHR '':''" "s ! 16 = CHR '':''"
    using assms by (simp_all add: s_def nth_append)
  then show ?thesis unfolding s_def [symmetric] by (simp only: parse_RFC3339_def simp_thms if_True if_False)
qed

lemma parse_given:
  assumes "length Y = 4" "length M = 2" "length D = 2" "length H = 2" "length I = 2" "length S = 2"
    and "parse_uint Y 0 9999 = Some y" "parse_uint M 1 12 = Some m" "parse_uint D 1 (nat (month_lengths (int y) ! (m - 1))) = Some d"
    and "parse_uint H 0 23 = Some hh" "parse_uint I 0 59 = Some mi" "parse_uint S 0 59 = Some ss" and "parse_fraction r = (ns, z)" and "parse_zone z = Some off"
  shows "parse_RFC3339 (Y @ ''-'' @ M @ ''-'' @ D @ ''T'' @ H @ '':'' @ I @ '':'' @ S @ r) =
    Some (days_of_date (int y) m (int d) * (24 * hour) + int hh * hour + int mi * minute + int ss * second + ns - off)"
  unfolding parse_parts [OF assms(1-6)] by (simp only: assms(7-14) prod.case option.case option.map Let_def)

lemma parse_fraction_stripped:
  assumes "list_all is_digit ds" and "length ds \<le> 9" and "z \<noteq> []" and "\<not> is_digit (hd z)" and "hd z \<noteq> CHR ''.''"
  shows "parse_fraction ((if ds = [] then [] else ''.'' @ ds) @ z) = (int (digits_value ds * 10 ^ (9 - length ds)), z)"
proof (cases ds)
  case Nil
  with assms(3-5) show ?thesis by (cases z) (simp_all add: parse_fraction_def)
next
  case (Cons c cs)
  have "takeWhile is_digit (ds @ z) = ds" "dropWhile is_digit (ds @ z) = z"
    using assms by (cases z; auto simp: takeWhile_append2 dropWhile_append2 list_all_iff)+
  moreover have "is_digit c" using assms(1) Cons by simp
  ultimately show ?thesis using assms(2) Cons by (simp add: parse_fraction_def nanoseconds_def)
qed

lemma parse_zone_suffix:
  assumes "\<bar>off\<bar> < 86400" and "off mod 60 = 0"
  shows "parse_zone (zone_suffix off) = Some (off * second)" "zone_suffix off \<noteq> []" "\<not> is_digit (hd (zone_suffix off))" "hd (zone_suffix off) \<noteq> CHR ''.''"
proof -
  show "zone_suffix off \<noteq> []" "\<not> is_digit (hd (zone_suffix off))" "hd (zone_suffix off) \<noteq> CHR ''.''"
    by (simp_all add: zone_suffix_def Let_def is_digit_def)
  show "parse_zone (zone_suffix off) = Some (off * second)"
  proof (cases "off = 0")
    case True
    then show ?thesis by (simp add: zone_suffix_def parse_zone_def)
  next
    case False
    define sg where "sg = (if off \<le> - 60 then CHR ''-'' else CHR ''+'')"
    define H where "H = fixed_digits 2 (nat (\<bar>off\<bar> div 60 div 60))"
    define M where "M = fixed_digits 2 (nat (\<bar>off\<bar> div 60 mod 60))"
    have z: "zone_suffix off = sg # H @ CHR '':'' # M" using False by (simp add: zone_suffix_def Let_def sg_def H_def M_def)
    have l: "length H = 2" "length M = 2" by (simp_all add: H_def M_def)
    have "\<bar>off\<bar> div 60 div 60 \<le> 23" using assms(1) by (simp add: zdiv_zmult2_eq [symmetric] div_le_bound)
    then have p: "parse_uint H 0 23 = Some (nat (\<bar>off\<bar> div 60 div 60))" "parse_uint M 0 59 = Some (nat (\<bar>off\<bar> div 60 mod 60))"
      unfolding H_def M_def by (intro parse_uint_fixed; simp)+
    have abs: "(\<bar>off\<bar> div 60 div 60 * 60 + \<bar>off\<bar> div 60 mod 60) * 60 = \<bar>off\<bar>"
      using assms(2) by (auto simp: abs_if)
    have "sg = CHR ''-'' \<longleftrightarrow> off < 0" using assms(2) False by (auto simp: sg_def)
    have parts: "take 2 (drop 1 (zone_suffix off)) = H" "take 2 (drop 4 (zone_suffix off)) = M" "length (zone_suffix off) = 6"
      "zone_suffix off ! 0 = sg" "zone_suffix off ! 3 = CHR '':''" "zone_suffix off \<noteq> ''Z''"
      using l by (simp_all add: z nth_append sg_def)
    have "parse_zone (zone_suffix off) = Some ((if off < 0 then - 1 else 1) * (int (nat (\<bar>off\<bar> div 60 div 60)) * 60 + int (nat (\<bar>off\<bar> div 60 mod 60))) * minute)"
      unfolding parse_zone_def parts(1-5) p using parts(6) \<open>sg = CHR ''-'' \<longleftrightarrow> off < 0\<close> by (auto simp: sg_def)
    moreover have "int (nat (\<bar>off\<bar> div 60 div 60)) = \<bar>off\<bar> div 60 div 60" "int (nat (\<bar>off\<bar> div 60 mod 60)) = \<bar>off\<bar> div 60 mod 60"
      by (simp_all add: pos_imp_zdiv_nonneg_iff)
    ultimately have "parse_zone (zone_suffix off) = Some ((if off < 0 then - 1 else 1) * (\<bar>off\<bar> div 60) * minute)"
      by (simp only: div_mult_mod_eq)
    moreover have "\<bar>off\<bar> div 60 * 60 = \<bar>off\<bar>" using abs by simp
    ultimately show ?thesis by (cases "off < 0") simp_all
  qed
qed

lemma clock_sum: "r div hour * hour + r mod hour div minute * minute + r mod minute div second * second + r mod second = r" for r :: int
proof -
  have "r mod hour mod minute = r mod minute" "r mod minute mod second = r mod second" by (simp_all add: mod_mod_cancel)
  then show ?thesis
    using div_mult_mod_eq [of r hour] div_mult_mod_eq [of "r mod hour" minute] div_mult_mod_eq [of "r mod minute" second] by linarith
qed

lemma clock_bounds:
  assumes "0 \<le> r" and "r < 24 * hour"
  shows "0 \<le> r div hour \<and> r div hour \<le> 23 \<and> 0 \<le> r mod hour div minute \<and> r mod hour div minute \<le> 59 \<and>
    0 \<le> r mod minute div second \<and> r mod minute div second \<le> 59 \<and> 0 \<le> r mod second \<and> r mod second < second"
proof -
  have part: "0 \<le> x div n \<and> x div n \<le> k" if "0 \<le> x" "x < (k + 1) * n" "0 < n" for x n k :: int
    using that using div_le_bound [of x k n] by (simp add: pos_imp_zdiv_nonneg_iff)
  show ?thesis
    using part [of r 23 hour] part [of "r mod hour" 59 minute] part [of "r mod minute" 59 second] assms
      pos_mod_sign [of hour r] pos_mod_bound [of hour r] pos_mod_sign [of minute r] pos_mod_bound [of minute r]
      pos_mod_sign [of second r] pos_mod_bound [of second r] by simp
qed

text \<open>What is written is read back.\<close>

lemma parse_format:
  assumes "format_RFC3339 off t = Some s" and "off mod 60 = 0"
  shows "parse_RFC3339 s = Some t"
proof -
  obtain y m d where date: "date_of_days ((t + off * second) div (24 * hour)) = (y, m, d)" by (metis prod_cases3)
  define r where "r = (t + off * second) mod (24 * hour)"
  define frac where "frac = strip_zeros (fixed_digits 9 (nat (r mod second)))"
  note dt = date_of_days [OF date]
  have s: "s = fixed_digits 4 (nat y) @ ''-'' @ fixed_digits 2 m @ ''-'' @ fixed_digits 2 (nat d) @ ''T'' @ fixed_digits 2 (nat (r div hour)) @ '':'' @
      fixed_digits 2 (nat (r mod hour div minute)) @ '':'' @ fixed_digits 2 (nat (r mod minute div second)) @ (if frac = [] then [] else ''.'' @ frac) @ zone_suffix off"
    and y: "0 \<le> y" "y \<le> 9999" "\<bar>off\<bar> < 86400"
    using assms(1) date by (auto simp: format_RFC3339_def Let_def r_def frac_def split: if_splits)
  have r: "0 \<le> r" "r < 24 * hour" by (simp_all add: r_def)
  have parts: "0 \<le> r div hour" "r div hour \<le> 23" "0 \<le> r mod hour div minute" "r mod hour div minute \<le> 59"
    "0 \<le> r mod minute div second" "r mod minute div second \<le> 59" "0 \<le> r mod second" "r mod second < second"
    using clock_bounds [OF r] by blast+
  have "set (month_lengths y) \<subseteq> {..31}" "m - 1 < length (month_lengths y)" using dt by (auto simp: month_lengths_def)
  with nth_mem have "month_lengths y ! (m - 1) \<le> 31" by blast
  with dt have day: "0 \<le> d" "nat d < 10 ^ 2" "1 \<le> nat d" "nat d \<le> nat (month_lengths y ! (m - 1))" by auto
  have "digits_value frac * 10 ^ (9 - length frac) = nat (r mod second)" "length frac \<le> 9" "list_all is_digit frac"
    using strip_zeros_value [of "fixed_digits 9 (nat (r mod second))"] parts(7,8) strip_zeros_digits by (simp_all add: frac_def)
  with parse_fraction_stripped [of frac, OF _ _ parse_zone_suffix(2-4) [OF y(3) assms(2)]] parts(7)
  have fr: "parse_fraction ((if frac = [] then [] else ''.'' @ frac) @ zone_suffix off) = (r mod second, zone_suffix off)" by simp
  have two: "parse_uint (fixed_digits 2 (nat x)) 0 (nat k) = Some (nat x)" if "0 \<le> x" "x \<le> k" "k < 100" for x k :: int
    by (rule parse_uint_fixed) (use that in simp_all)
  have clock: "parse_uint (fixed_digits 2 (nat (r div hour))) 0 23 = Some (nat (r div hour))"
    "parse_uint (fixed_digits 2 (nat (r mod hour div minute))) 0 59 = Some (nat (r mod hour div minute))"
    "parse_uint (fixed_digits 2 (nat (r mod minute div second))) 0 59 = Some (nat (r mod minute div second))"
    using two [OF parts(1,2)] two [OF parts(3,4)] two [OF parts(5,6)] by simp_all
  have ymd: "parse_uint (fixed_digits 4 (nat y)) 0 9999 = Some (nat y)" "parse_uint (fixed_digits 2 m) 1 12 = Some m"
    "parse_uint (fixed_digits 2 (nat d)) 1 (nat (month_lengths (int (nat y)) ! (m - 1))) = Some (nat d)"
    by (rule parse_uint_fixed; use y dt day in simp)+
  note eq = parse_given [OF _ _ _ _ _ _ ymd clock fr parse_zone_suffix(1) [OF y(3) assms(2)]]
  have "parse_RFC3339 s = Some (days_of_date (int (nat y)) m (int (nat d)) * (24 * hour) + int (nat (r div hour)) * hour +
      int (nat (r mod hour div minute)) * minute + int (nat (r mod minute div second)) * second + r mod second - off * second)"
    unfolding s by (rule eq) simp_all
  then have "parse_RFC3339 s = Some (days_of_date y m d * (24 * hour) + r div hour * hour + r mod hour div minute * minute + r mod minute div second * second + r mod second - off * second)"
    by (simp only: int_nat_eq y(1) day parts if_True)
  also have "days_of_date y m d * (24 * hour) + r div hour * hour + r mod hour div minute * minute + r mod minute div second * second + r mod second - off * second = t"
    using clock_sum [of r] conjunct1 [OF dt] div_mult_mod_eq [of "t + off * second" "24 * hour", folded r_def] by linarith
  finally show ?thesis .
qed

lemma format_defined:
  assumes "0 \<le> t + off * second" and "t + off * second < days_before_year 10000 * (24 * hour)" and "\<bar>off\<bar> < 86400"
  shows "\<exists>s. format_RFC3339 off t = Some s"
proof -
  obtain y m d where date: "date_of_days ((t + off * second) div (24 * hour)) = (y, m, d)" by (metis prod_cases3)
  then obtain yd where yd: "year_of_day ((t + off * second) div (24 * hour)) = (y, yd)" by (auto simp: date_of_days_def split: prod.splits)
  have "0 \<le> (t + off * second) div (24 * hour)" using assms(1) by (simp add: pos_imp_zdiv_nonneg_iff)
  moreover have "(t + off * second) div (24 * hour) < days_before_year 10000"
    using div_le_bound [of "t + off * second" "days_before_year 10000 - 1" "24 * hour"] assms(2) by simp
  ultimately have "1 \<le> y \<and> y \<le> 9999" using year_range [OF _ _ yd] by blast
  with date assms(3) show ?thesis by (simp add: format_RFC3339_def Let_def)
qed

definition time_char :: "char \<Rightarrow> bool" where
  "time_char c \<longleftrightarrow> is_digit c \<or> c \<in> {CHR ''-'', CHR ''+'', CHR ''T'', CHR '':'', CHR ''.'', CHR ''Z''}"

lemma time_char_digits [simp]: "list_all time_char (fixed_digits k n)" "list_all time_char (strip_zeros (fixed_digits k n))"
  using fixed_digits_all [of k n] strip_zeros_digits [of "fixed_digits k n"] by (auto simp: list_all_iff time_char_def)

lemma format_chars: "format_RFC3339 off t = Some s \<Longrightarrow> list_all time_char s"
proof -
  have m: "time_char (CHR ''-'')" "time_char (CHR ''+'')" "time_char (CHR ''T'')" "time_char (CHR '':'')" "time_char (CHR ''.'')" "time_char (CHR ''Z'')"
    by (simp_all add: time_char_def)
  then have z: "list_all time_char (zone_suffix off)" by (simp add: zone_suffix_def Let_def)
  assume "format_RFC3339 off t = Some s"
  then show ?thesis using m z by (auto simp: format_RFC3339_def Let_def split: prod.splits if_splits)
qed

end
