(* ===== verification/Meta_Json.thy ===== *)
theory Meta_Json
  imports Json_Messages Time_Text File_Storage
begin

text \<open>
  The metadata files as text: \<open>FileMetadata\<close> of pkg/fs/storage.go under its struct tags, written with
  \<open>json.MarshalIndent\<close> and read with \<open>json.Unmarshal\<close>.  This is the codec that the storage theories take as
  an argument; here the records that survive a round trip are found.
\<close>

section \<open>The codec\<close>

definition decode_int :: "json \<Rightarrow> int \<Rightarrow> int option" where
  "decode_int v old = (case v of JNum t \<Rightarrow> (case Atoi t of (n, None) \<Rightarrow> Some n | _ \<Rightarrow> None) | JNull \<Rightarrow> Some old | _ \<Rightarrow> None)"

text \<open>
  \<open>Time.UnmarshalJSON\<close> works on the text between the quotes; \<open>slow\<close> stands for the general parser that it falls
  back on for a text that is not of the form that is written.
\<close>

definition decode_time :: "(bytes \<Rightarrow> gotime option) \<Rightarrow> json \<Rightarrow> gotime \<Rightarrow> gotime option" where
  "decode_time slow v old =
     (case v of
        JStr raw s \<Rightarrow> (case parse_RFC3339 raw of Some t \<Rightarrow> Some t | None \<Rightarrow> slow raw)
      | JNull \<Rightarrow> Some old
      | _ \<Rightarrow> None)"

definition FileMetadata_json :: "FileMetadata \<Rightarrow> json option" where
  "FileMetadata_json m = map_option (\<lambda>ts. JObj
     [(''key_id'', jstr (fm_KeyID m)), (''alg'', jstr (fm_Algorithm m)), (''iv'', jstr (fm_IV m)), (''tag'', jstr (fm_Tag m)),
      (''schema_id'', jstr (fm_SchemaID m)), (''version'', JNum (Itoa (fm_Version m))), (''writer_id'', jstr (fm_WriterID m)),
      (''timestamp'', jstr ts), (''schema'', jstr (fm_Schema m)), (''entity_key'', jstr (fm_EntityKey m))])
     (format_RFC3339 0 (fm_Timestamp m))"

definition FileMetadata_fields :: "string list" where
  "FileMetadata_fields = [''key_id'', ''alg'', ''iv'', ''tag'', ''schema_id'', ''version'', ''writer_id'', ''timestamp'', ''schema'', ''entity_key'']"

definition put_FileMetadata :: "(bytes \<Rightarrow> gotime option) \<Rightarrow> string \<Rightarrow> json \<Rightarrow> FileMetadata \<Rightarrow> FileMetadata option" where
  "put_FileMetadata slow name v m =
     (if name = ''key_id'' then map_option (\<lambda>x. m\<lparr>fm_KeyID := x\<rparr>) (decode_string v (fm_KeyID m))
      else if name = ''alg'' then map_option (\<lambda>x. m\<lparr>fm_Algorithm := x\<rparr>) (decode_string v (fm_Algorithm m))
      else if name = ''iv'' then map_option (\<lambda>x. m\<lparr>fm_IV := x\<rparr>) (decode_string v (fm_IV m))
      else if name = ''tag'' then map_option (\<lambda>x. m\<lparr>fm_Tag := x\<rparr>) (decode_string v (fm_Tag m))
      else if name = ''schema_id'' then map_option (\<lambda>x. m\<lparr>fm_SchemaID := x\<rparr>) (decode_string v (fm_SchemaID m))
      else if name = ''version'' then map_option (\<lambda>x. m\<lparr>fm_Version := x\<rparr>) (decode_int v (fm_Version m))
      else if name = ''writer_id'' then map_option (\<lambda>x. m\<lparr>fm_WriterID := x\<rparr>) (decode_string v (fm_WriterID m))
      else if name = ''timestamp'' then map_option (\<lambda>x. m\<lparr>fm_Timestamp := x\<rparr>) (decode_time slow v (fm_Timestamp m))
      else if name = ''schema'' then map_option (\<lambda>x. m\<lparr>fm_Schema := x\<rparr>) (decode_string v (fm_Schema m))
      else if name = ''entity_key'' then map_option (\<lambda>x. m\<lparr>fm_EntityKey := x\<rparr>) (decode_string v (fm_EntityKey m))
      else None)"

definition new_FileMetadata :: FileMetadata where
  "new_FileMetadata = \<lparr>fm_KeyID = [], fm_Algorithm = [], fm_IV = [], fm_Tag = [], fm_SchemaID = [], fm_Version = 0, fm_WriterID = [],
     fm_Timestamp = 0, fm_Schema = [], fm_EntityKey = []\<rparr>"

definition meta_json :: "(bytes \<Rightarrow> gotime option) \<Rightarrow> meta_codec" where
  "meta_json slow =
     \<lparr>mc_marshal = (\<lambda>m. map_option (json_text (Some 0)) (FileMetadata_json m)),
      mc_unmarshal = codec_Unmarshal FileMetadata_fields (put_FileMetadata slow) new_FileMetadata\<rparr>"

section \<open>The records that survive\<close>

lemma plain_escape: "\<forall>c \<in> set s. html_safe c \<Longrightarrow> json_escape s = s"
  by (induction s) (simp_all add: html_safe_def)

lemma digit_safe: "is_digit c \<Longrightarrow> html_safe c"
  by (auto simp: is_digit_def html_safe_def)

lemma format_plain: "format_RFC3339 off t = Some s \<Longrightarrow> json_escape s = s \<and> valid_utf8 s"
proof -
  assume f: "format_RFC3339 off t = Some s"
  have "\<forall>c \<in> {CHR ''-'', CHR ''+'', CHR ''T'', CHR '':'', CHR ''.'', CHR ''Z''}. html_safe c" by code_simp
  then have "html_safe c" if "time_char c" for c using that digit_safe by (auto simp: time_char_def)
  with format_chars [OF f] have safe: "\<forall>c \<in> set s. html_safe c" by (simp add: list_all_iff)
  then have "\<forall>c \<in> set s. code c < 128" by (simp add: html_safe_def)
  with safe show ?thesis by (simp add: plain_escape valid_utf8_all_ascii)
qed

lemma dec_of_nat_head: "0 < n \<Longrightarrow> hd (dec_of_nat n) \<noteq> CHR ''0''"
proof (induction n rule: dec_of_nat.induct)
  case (1 n)
  have "dec_digit n \<noteq> CHR ''0''" if "n < 10"
  proof
    assume "dec_digit n = CHR ''0''"
    then have "code (dec_digit n) = 48" by simp
    with that 1(2) show False by simp
  qed
  with 1 show ?case by (subst dec_of_nat.simps) simp
qed

lemma scan_integer_dec: "scan_integer (dec_of_nat n) = Some (dec_of_nat n, [])"
proof (cases "n = 0")
  case True
  moreover have "dec_of_nat 0 = ''0''" by code_simp
  ultimately show ?thesis by (simp add: scan_integer_def)
next
  case False
  have all: "\<forall>c \<in> set (dec_of_nat n). is_digit c" using dec_of_nat_digits [of _ n] by fastforce
  then have "scan_digits (dec_of_nat n) = Some (dec_of_nat n, [])" by (simp add: scan_digits_def Let_def takeWhile_eq_all_conv [THEN iffD2] dropWhile_eq_Nil_conv)
  with False dec_of_nat_head [of n] show ?thesis by (cases "dec_of_nat n") (simp_all add: scan_integer_def)
qed

lemma scan_number_Itoa: "scan_number (Itoa n) = Some (Itoa n, [])"
proof -
  have tail: "scan_fraction [] = Some ([], [])" "scan_exponent [] = Some ([], [])" by (simp_all add: scan_fraction_def scan_exponent_def)
  obtain c cs where c: "dec_of_nat (nat n) = c # cs" by (cases "dec_of_nat (nat n)") auto
  then have "c \<noteq> CHR ''-''" using dec_of_nat_no_sign by blast
  with c scan_integer_dec [of "nat n"] scan_integer_dec [of "nat (- n)"] tail show ?thesis
    by (simp add: scan_number_def Itoa_def)
qed

definition meta_ok :: "FileMetadata \<Rightarrow> bool" where
  "meta_ok m \<longleftrightarrow> list_all valid_utf8 [fm_KeyID m, fm_Algorithm m, fm_IV m, fm_Tag m, fm_SchemaID m, fm_WriterID m, fm_Schema m, fm_EntityKey m] \<and>
     is_i64 (fm_Version m) \<and> 0 \<le> fm_Timestamp m \<and> fm_Timestamp m < days_before_year 10000 * (24 * hour)"

lemma meta_json_codable:
  assumes "meta_ok m"
  shows "codable (meta_json slow) m"
proof -
  obtain ts where ts: "format_RFC3339 0 (fm_Timestamp m) = Some ts" using format_defined [of "fm_Timestamp m" 0] assms by (auto simp: meta_ok_def)
  note plain = format_plain [OF ts]
  note readback = parse_format [OF ts, simplified]
  obtain v where v: "FileMetadata_json m = Some v" by (simp add: FileMetadata_json_def ts)
  have names: "list_all valid_utf8 FileMetadata_fields"
    unfolding FileMetadata_fields_def list_all_iff by (auto intro!: valid_utf8_all_ascii)
  have "json_ok 10000 v"
    using v assms plain names by (auto simp: FileMetadata_json_def ts meta_ok_def scan_number_Itoa FileMetadata_fields_def)
  then have p: "json_parse (json_text (Some 0) v) = Some v" by (rule json_parse_text)
  have "decode_struct FileMetadata_fields (put_FileMetadata slow) v new_FileMetadata = Some m"
    using v assms plain readback ts
    by (cases m) (auto simp: FileMetadata_json_def decode_struct_def FileMetadata_fields_def put_FileMetadata_def new_FileMetadata_def
        decode_int_def decode_time_def meta_ok_def)
  with v p show ?thesis by (simp add: codable_def meta_json_def codec_Unmarshal_def)
qed

end
