(* ===== verification/Wire_Durable.thy ===== *)
theory Wire_Durable
  imports Rpc_Wire Meta_Json Proc_Properties
begin

text \<open>
  From the bytes of a request to the files and back: a request that the codec decoded has valid
  strings, so the metadata of its write survives the JSON text of the metadata file, and no assumption
  on the encoding is left.
\<close>

section \<open>The metadata of an accepted PUT\<close>

lemma next_version_i64: "is_i64 (next_version Lib env srv st eid)"
  by (auto simp: next_version_def Let_def split: sum.splits) (simp add: is_i64_def)

lemma put_metadata_ok:
  assumes "request_ok m" and "valid_utf8 (pw_keyID w)" and "valid_utf8 (pc_WorkerID (pw_config w))" and "is_i64 ver"
    and "0 \<le> he_stamp env" and "he_stamp env < days_before_year 10000 * (24 * hour)"
  shows "meta_ok (put_metadata env (Some m) w enc ver)"
proof -
  have "valid_utf8 ''AES-GCM''" by (rule valid_utf8_all_ascii) simp
  with assms show ?thesis by (simp add: meta_ok_def put_metadata_def request_ok_def valid_utf8_b64)
qed

lemma accepted_put_codable:
  assumes "proc_Process Lib env (Some m) srv st = (srv', st', Inr resp)" and "pr_Operation m = ''PUT''" and "request_ok m"
    and "valid_utf8 (pw_keyID (ps_worker srv))" and "valid_utf8 (pc_WorkerID (pw_config (ps_worker srv)))"
    and "0 \<le> he_stamp env" and "he_stamp env < days_before_year 10000 * (24 * hour)"
  shows "codable (meta_json slow) (wj_metadata (last (ps_pendingWrites srv')))"
proof -
  obtain srv1 where put: "processPUT Lib env (Some m) (request_entity (Some m)) srv st = (srv1, st', Inr resp)"
    and same: "ps_pendingWrites srv' = ps_pendingWrites srv1"
    using processPUT_cong [OF assms(1)] assms(2) by auto
  from put obtain enc where "wj_metadata (last (ps_pendingWrites srv1)) =
      put_metadata env (Some m) (ps_worker srv) enc (next_version Lib env srv st (request_entity (Some m)))"
    by (elim processPUT_accepted) simp
  moreover have "meta_ok (put_metadata env (Some m) (ps_worker srv) enc (next_version Lib env srv st (request_entity (Some m))))"
    by (rule put_metadata_ok [OF assms(3-5) next_version_i64 assms(6,7)])
  ultimately show ?thesis by (simp add: same meta_json_codable)
qed

section \<open>Properties\<close>

text \<open>
  C9. From the wire to the disk and back: take the bytes of a message that a Processing Worker decodes to a PUT
  and accepts, in a process whose key id and worker id are valid UTF-8 and whose clock is in the
  years 1 to 9999.  Once its promised write has run without a fault on a disk with no newer version, every
  worker with the key that does not have the entity cached reads the payload with the promised
  version, from files whose metadata is the JSON text that the code writes.
\<close>

theorem received_put_durable:
  assumes "lru_spec L items cap lok" and "storage_inv s fs2"
    and "grpc_decode E limit ProcessRequest_fields put_ProcessRequest data new_ProcessRequest = Inr m" and "pr_Operation m = ''PUT''"
    and "proc_Process (local_libs L (meta_json slow) s K V) env (Some m) srv fs = (srv', fs', Inr resp)"
    and "\<forall>n. he_nonce env = Some n \<longrightarrow> length n = NonceSize"
    and "valid_utf8 (pw_keyID (ps_worker srv))" and "valid_utf8 (pc_WorkerID (pw_config (ps_worker srv)))"
    and "0 \<le> he_stamp env" and "he_stamp env < days_before_year 10000 * (24 * hour)"
    and "able (local_libs L (meta_json slow) s K V) (pw_encryptionKey (ps_worker srv)) LockExclusive (request_entity (Some m)) srvA"
    and "he_read envA = no_faults" and "he_write envA = no_faults"
    and "\<forall>x. fs_ReadFile (meta_json slow) s no_faults fs2 (request_entity (Some m)) = Inr x \<longrightarrow>
      fm_Version (fd_Metadata x) < next_version (local_libs L (meta_json slow) s K V) env srv fs (request_entity (Some m))"
    and "async_write (local_libs L (meta_json slow) s K V) envA (last (ps_pendingWrites srv')) srvA fs2 = (srvA', fs3)"
    and "able (local_libs L (meta_json slow) s K V) (pw_encryptionKey (ps_worker srv)) LockShared (request_entity (Some m)) srvB"
    and "cache_inv items cap lok (ps_cache srvB)" and "cache_lookup items (ps_cache srvB) (request_entity (Some m)) = None"
    and "he_read envB = no_faults"
  shows "snd (processGET (local_libs L (meta_json slow) s K V) envB (request_entity (Some m)) srvB fs3) =
    (fs3, Inr (response ''OK'' (pr_Payload m) (rs_Version resp)))"
proof -
  have op: "GetOperation (Some m) = ''PUT''" using assms(4) by simp
  note pr = accepted_put_promises [OF assms(1,5) op assms(6)]
  note cod = accepted_put_codable [OF assms(5,4) process_request.decoded_ok [OF assms(3)] assms(7-10)]
  note rd = promised_write_read [OF assms(1,2) conjunct1 [OF pr] cod conjunct2 [OF conjunct2 [OF pr]] assms(11-15)]
  from proc_system.GET_from_disk [OF local_system [OF assms(1)] assms(16-18), of envB fs3] rd assms(19) pr show ?thesis by simp
qed

theorem received_put_durable_witness:
  "\<exists>fs. snd (processGET (sample_libs (meta_json (\<lambda>_. None))) sample_env ''chat_1'' sample_server fs) = (fs, Inr (response ''OK'' ''{}'' ''1''))"
proof -
  let ?J = "meta_json (\<lambda>_. None)"
    and ?m = "\<lparr>pr_SchemaId = ''chat'', pr_EntityKey = ''1'', pr_Operation = ''PUT'', pr_Payload = ''{}'', pr_Token = []\<rparr>"
  obtain srv' where put: "proc_Process (sample_libs ?J) sample_env (Some ?m) sample_server sample_tree = (srv', sample_tree, Inr (response ''OK'' [] ''1''))"
    and pend: "ps_pendingWrites srv' = [sample_job ''{}'']"
    using sample_put [of "''{}''" ?J] by (auto simp: sample_request_def)
  obtain srvA fs where aw: "async_write (sample_libs ?J) sample_env (sample_job ''{}'') sample_server sample_tree = (srvA, fs)" by (metis prod.collapse)
  have "request_ok ?m" by (simp add: request_ok_def valid_utf8_all_ascii)
  moreover have "fits 1000 ProcessRequest_json ?m" by code_simp
  ultimately have dec: "grpc_decode no_errors 1000 ProcessRequest_fields put_ProcessRequest (codec_Marshal ProcessRequest_json (Some ?m)) new_ProcessRequest = Inr ?m"
    by (simp add: process_request.decode_marshalled received_def)
  have year: "he_stamp sample_env < days_before_year 10000 * (24 * hour)" by code_simp
  from received_put_durable [OF llru.lru_spec_axioms sample_inv dec _ put sample_nonce _ _ _ year,
      of sample_server sample_env srvA fs sample_server sample_env]
  show ?thesis
    using pend aw sample_able [of ?J] sample_cache_empty sample_not_stored [of ?J]
    by (auto simp: response_def valid_utf8_all_ascii sample_env_def)
qed

end
