(* ===== verification/Wire_Cluster.thy ===== *)
theory Wire_Cluster
  imports Wire_Durable Cluster
begin

text \<open>
  The two programs over the wire: the answers of a Processing Worker are messages that the codec
  transmits unchanged, the calls of the cluster model are the calls that the generated stubs make
  with the JSON codec, and what a worker accepts in a message of some size it can also return
  in one.
\<close>

section \<open>The versions in a cache\<close>

definition versions_text :: "('l \<Rightarrow> (string \<times> addr) list) \<Rightarrow> 'l Cache \<Rightarrow> bool" where
  "versions_text items c \<longleftrightarrow> (\<forall>k d v x. cache_lookup items c k = Some (d, v, x) \<longrightarrow> v \<in> range Itoa)"

definition plain_answer :: "rpc_error + ProcessResponse \<Rightarrow> bool" where
  "plain_answer r \<longleftrightarrow> (\<forall>resp. r = Inr resp \<longrightarrow> rs_Status resp = ''OK'' \<and> rs_Error resp = [] \<and> rs_Version resp \<in> insert [] (range Itoa))"

lemma plain_answer_simps [simp]:
  "plain_answer (Inl e)" "plain_answer (Inr (response ''OK'' d v)) \<longleftrightarrow> v = [] \<or> v \<in> range Itoa"
  by (simp_all add: plain_answer_def response_def)

context lru_spec
begin

lemma versions_text_iff: "versions_text items c = ec.all_cached (\<lambda>k d v. v \<in> range Itoa) c"
  by (simp add: versions_text_def ec.all_cached_def)

abbreviation versioned :: "'l Cache \<Rightarrow> bool" where
  "versioned c \<equiv> cache_inv items cap ok c \<and> versions_text items c"

lemma versioned_fetch:
  assumes "versioned c" and "cache_fetch L now c k = (c', r)"
  shows "versioned c'" "r = Some (d, v) \<Longrightarrow> v \<in> range Itoa"
  using assms ec.fetch_inv [of c now k] ec.all_cached_fetch [of c _ now k] ec.all_cached_fetched [of c _ now k d v]
  by (auto simp: versions_text_iff)

lemma versioned_Set: "versioned c \<Longrightarrow> versioned (cache_Set L now c k d (Itoa n))"
  by (simp add: versions_text_iff ec.store_inv ec.all_cached_store)

lemma versioned_Evict: "versioned c \<Longrightarrow> versioned (fst (cache_Evict L c k))"
  by (simp add: versions_text_iff ec.evict_inv ec.all_cached_evict)

lemma versioned_new: "NewCache L config = Inr c \<Longrightarrow> versioned c"
  using NewCache_inv [of config c] by (simp add: versions_text_def cache_lookup_def)

lemma versioned_expire: "versioned c \<Longrightarrow> versioned (removeExpiredEntries L now c)"
  unfolding versions_text_def using expire_inv lookup_expire by blast

text \<open>A request keeps the versions in the cache texts of numbers, and the answer has such a version or none.\<close>

lemma get_locked_plain:
  assumes "pl_lru Lib = L" and "versioned (ps_cache srv)" and "get_locked Lib env srv st eid = (srv', r)"
  shows "versioned (ps_cache srv') \<and> plain_answer r"
  using assms(2,3) by (auto simp: get_locked_def Let_def versioned_Set assms(1) split: sum.splits if_splits option.splits)

lemma processGET_plain:
  assumes "pl_lru Lib = L" and "versioned (ps_cache srv)" and "processGET Lib env eid srv st = (srv', st', r)"
  shows "versioned (ps_cache srv') \<and> plain_answer r"
proof -
  obtain c hit where f: "cache_fetch L (he_first env) (ps_cache srv) eid = (c, hit)" by (cases "cache_fetch L (he_first env) (ps_cache srv) eid")
  note v = versioned_fetch [OF assms(2) f]
  show ?thesis
  proof (cases hit)
    case (Some dv)
    with assms(1,3) f v show ?thesis by (cases dv) (auto simp: processGET_def)
  next
    case None
    obtain k e where a: "lo_acquire (pl_locks Lib) (ps_lockMgr srv) eid LockShared = (k, e)"
      by (cases "lo_acquire (pl_locks Lib) (ps_lockMgr srv) eid LockShared")
    obtain srv1 r1 where g: "get_locked Lib env (srv\<lparr>ps_cache := c, ps_lockMgr := k\<rparr>) st eid = (srv1, r1)"
      by (cases "get_locked Lib env (srv\<lparr>ps_cache := c, ps_lockMgr := k\<rparr>) st eid")
    from assms(1,3) f a g None get_locked_plain [OF assms(1) _ g] v(1) show ?thesis
      by (cases e) (auto simp: processGET_def)
  qed
qed

lemma processPUT_plain:
  assumes "pl_lru Lib = L" and "versioned (ps_cache srv)" and "processPUT Lib env req eid srv st = (srv', st', r)"
  shows "versioned (ps_cache srv') \<and> plain_answer r"
proof (cases r)
  case (Inl e)
  with assms processPUT_refused(2) [of Lib env req eid srv st srv' st' e] show ?thesis by simp
next
  case (Inr resp)
  with assms(3) have "processPUT Lib env req eid srv st = (srv', st', Inr resp)" by simp
  from processPUT_accepted [OF this] obtain ver where
    "ps_cache srv' = cache_Set L (he_second env) (ps_cache srv) eid (GetPayload req) (Itoa ver)" "resp = response ''OK'' [] (Itoa ver)"
    unfolding assms(1) by metis
  with assms(2) Inr show ?thesis by (simp add: versioned_Set)
qed

lemma processDELETE_plain:
  assumes "pl_lru Lib = L" and "versioned (ps_cache srv)" and "processDELETE Lib env eid srv st = (srv', st', r)"
  shows "versioned (ps_cache srv') \<and> plain_answer r"
  using assms(2,3) by (auto simp: processDELETE_def Let_def versioned_Evict assms(1) split: prod.splits option.splits)

lemma Process_plain:
  assumes "pl_lru Lib = L" and "versioned (ps_cache srv)" and "proc_Process Lib env req srv st = (srv', st', r)"
  shows "versioned (ps_cache srv') \<and> plain_answer r"
proof -
  have counted: "\<exists>srv1. p = (srv1, st', r) \<and> ps_cache srv' = ps_cache srv1" if "count_request L' op p = (srv', st', r)" for L' op p
    using that by (cases p) (auto dest: count_request_frame)
  from assms(3) show ?thesis
  proof (cases rule: Process_cases)
    case get
    from counted [OF get(2)] processGET_plain [OF assms(1,2)] show ?thesis by metis
  next
    case put
    from counted [OF put(2)] processPUT_plain [OF assms(1,2)] show ?thesis by metis
  next
    case delete
    from counted [OF delete(2)] processDELETE_plain [OF assms(1,2)] show ?thesis by metis
  qed (use assms(2) in simp)
qed

lemma system_versioned:
  assumes "pl_lru Lib = L" and "(sys_step Lib cod)\<^sup>*\<^sup>* (srvs0, st0, lgs0) (srvs, st, lgs)" and "\<forall>i. versioned (ps_cache (srvs0 i))"
  shows "versioned (ps_cache (srvs i))"
proof -
  have "\<forall>i. versioned (ps_cache (fst z i))" if "(sys_step Lib cod)\<^sup>*\<^sup>* (srvs0, st0, lgs0) z" for z
    using that
  proof (induction rule: rtranclp_induct)
    case (step y z)
    from step(2,3) show ?case
    proof (cases rule: sys_step.cases)
      case (serve env req srvs i st srv' st' r lgs)
      with step(3) Process_plain [OF assms(1) _ serve(3)] show ?thesis by simp
    next
      case (flush srvs i xs job ys env st srv' st' lgs)
      then have "ps_cache srv' = ps_cache (srvs i)"
        by (auto simp: async_write_def Let_def split: prod.splits option.splits if_splits sum.splits)
      with step(3) flush show ?thesis by simp
    next
      case (tick srvs st lgs i now)
      with step(3) show ?thesis by (simp add: assms(1) versioned_expire)
    next
      case (restart config c srvs st lgs i)
      with step(3) show ?thesis by (simp add: assms(1) versioned_new)
    qed
  qed (use assms(3) in simp)
  from this [OF assms(2)] show ?thesis by simp
qed

end

section \<open>Texts of numbers\<close>

lemma valid_utf8_Itoa: "valid_utf8 (Itoa n)"
proof (rule valid_utf8_all_ascii)
  have "\<forall>c \<in> set (dec_of_nat k). code c < 128" for k using dec_of_nat_digits [of _ k] by fastforce
  then show "\<forall>c \<in> set (Itoa n). code c < 128" by (simp add: Itoa_def)
qed

lemma dec_of_nat_length: "n < 10 ^ Suc k \<Longrightarrow> length (dec_of_nat n) \<le> Suc k"
proof (induction k arbitrary: n)
  case (Suc k)
  show ?case
  proof (cases "n < 10")
    case False
    have "n div 10 < 10 ^ Suc k" using Suc.prems by (simp add: less_mult_imp_div_less mult.commute)
    from Suc.IH [OF this] False show ?thesis by (subst dec_of_nat.simps) simp
  qed (simp add: dec_of_nat.simps)
qed (simp add: dec_of_nat.simps)

lemma Itoa_length:
  assumes "is_i64 n"
  shows "length (Itoa n) \<le> 20"
proof -
  have "length (dec_of_nat (nat m)) \<le> 19" if "m \<le> 2 ^ 63" for m :: int
    using dec_of_nat_length [of "nat m" 18] that by simp
  from this [of n] this [of "- n"] assms show ?thesis by (simp add: Itoa_def is_i64_def)
qed

section \<open>Sizes of messages\<close>

lemma json_escape_nonempty: "s \<noteq> [] \<Longrightarrow> 0 < length (json_escape s)"
  by (cases s) (simp_all add: Let_def escape_char_def)

lemma quote_length: "length (json_quote s) = length (json_escape s) + 2"
  by (simp add: json_quote_def)

lemma constant_lengths:
  "length (json_quote ''schema_id'') = 11" "length (json_quote ''entity_key'') = 12" "length (json_quote ''operation'') = 11"
  "length (json_quote ''payload'') = 9" "length (json_quote ''token'') = 7" "length (json_quote ''PUT'') = 5"
  "length (json_quote ''status'') = 8" "length (json_quote ''result'') = 8" "length (json_quote ''version'') = 9" "length (json_quote ''OK'') = 4"
  by code_simp+

definition member_length :: "bytes \<times> json \<Rightarrow> nat" where
  "member_length kv = length (json_quote (fst kv)) + length (json_text None (snd kv)) + 2"

lemma object_length: "ms \<noteq> [] \<Longrightarrow> length (json_text None (JObj ms)) = Suc (sum_list (map member_length ms))"
proof -
  have "length (members_text None ms) + 1 = sum_list (map member_length ms)" if "ms \<noteq> []" for ms
    using that
  proof (induction ms)
    case (Cons kv ms)
    then show ?case by (cases kv; cases "ms = []") (simp_all add: member_length_def line_break_def colon_def)
  qed simp
  then show "ms \<noteq> [] \<Longrightarrow> ?thesis" by (simp add: line_break_def)
qed

lemma Itoa_escape: "json_escape (Itoa n) = Itoa n"
proof (rule plain_escape)
  have "\<forall>d \<in> {..<10}. html_safe (dec_digit d)" by code_simp
  then have "\<forall>c \<in> set (dec_of_nat k). html_safe c" for k using dec_of_nat_digits [of _ k] by blast
  moreover have "html_safe CHR ''-''" by code_simp
  ultimately show "\<forall>c \<in> set (Itoa n). html_safe c" by (simp add: Itoa_def)
qed

text \<open>The text of an answer with a payload is not longer than that of the PUT that brought it.\<close>

lemma answer_not_longer:
  assumes "pr_SchemaId m \<noteq> []" and "pr_EntityKey m \<noteq> []" and "pr_Operation m = ''PUT''" and "pr_Payload m \<noteq> []" and "is_i64 n"
  shows "length (codec_Marshal ProcessResponse_json (Some (response ''OK'' (pr_Payload m) (Itoa n)))) \<le> length (codec_Marshal ProcessRequest_json (Some m))"
proof -
  let ?b = "length (json_quote (b64_encode b64_std (pr_Payload m)))"
  note ls = constant_lengths object_length member_length_def string_member_def bytes_member_def codec_Marshal_def
  have "length (codec_Marshal ProcessResponse_json (Some (response ''OK'' (pr_Payload m) (Itoa n)))) \<le> ?b + 58"
    using Itoa_length [OF assms(5)] assms(4) by (simp add: ls ProcessResponse_json_def response_def Itoa_escape quote_length [of "Itoa n"] del: json_text.simps(6))
  moreover have "0 < length (json_escape (pr_SchemaId m))" "0 < length (json_escape (pr_EntityKey m))" by (rule json_escape_nonempty, fact)+
  then have "2 \<le> length (json_escape (pr_SchemaId m)) + length (json_escape (pr_EntityKey m))" by linarith
  then have "?b + 63 \<le> length (codec_Marshal ProcessRequest_json (Some m))"
    using assms by (simp add: ls ProcessRequest_json_def quote_length [of "pr_SchemaId m"] quote_length [of "pr_EntityKey m"] del: json_text.simps(6))
  ultimately show ?thesis by linarith
qed

section \<open>The servers behind the stubs\<close>

definition proc_iface ::
    "('l, 'st, 'f, 'k, 's) proc_libs \<Rightarrow> 'f handler_env \<Rightarrow> (('l, 'k, 's, 'rk) ProcWorkerServer \<times> 'st) MainWorkerServer_iface" where
  "proc_iface Lib env =
     \<lparr>if_Subscribe = (\<lambda>req s. (s, proc_Subscribe req)),
      if_Process = (\<lambda>req (srv, st). case proc_Process Lib env req srv st of (srv', st', r) \<Rightarrow> ((srv', st'), r))\<rparr>"

definition main_iface ::
    "('l, 's, 'p, 'rk, 'w) main_libs \<Rightarrow> main_env \<Rightarrow> (('l, 's) MainWorkerServer \<times> 'w main_world) MainWorkerServer_iface" where
  "main_iface Lib env =
     \<lparr>if_Subscribe = (\<lambda>req (srv, w). case main_Subscribe Lib env req srv of (srv', r) \<Rightarrow> ((srv', w), r)),
      if_Process = (\<lambda>req (srv, w). case main_Process Lib env req srv w of (srv', w', r) \<Rightarrow> ((srv', w'), r))\<rparr>"

text \<open>
  The call that the Main Worker makes at the worker with an address, and the call that a worker
  makes at the Main Worker: each server reads at most the size of its own configuration, and the
  client the size of its own, which is the argument \<open>limit\<close>.
\<close>

definition wire_pool_call ::
    "grpc_errors \<Rightarrow> int \<Rightarrow> ('l, 'st, 'f, 'k, 's) proc_libs \<Rightarrow> 'f handler_env \<Rightarrow> string \<Rightarrow> ProcessRequest option
      \<Rightarrow> ('l, 'k, 's, 'rk, 'st) pool \<Rightarrow> ('l, 'k, 's, 'rk, 'st) pool \<times> forwarded" where
  "wire_pool_call E limit Lib env addr req = (\<lambda>(pool, st).
     case pool addr of
       None \<Rightarrow> ((pool, st), Answered (Inl (Unavailable, [])))
     | Some srv \<Rightarrow>
         (case dial_Process E (pc_MaxRecvMsgSize (pw_config (ps_worker srv))) limit (proc_iface Lib env) req (srv, st) of
            ((srv', st'), r) \<Rightarrow> ((pool(addr \<mapsto> srv'), st'), Answered r)))"

definition wire_subscribe_call ::
    "grpc_errors \<Rightarrow> int \<Rightarrow> ('l, 's, 'p, 'rk, 'w) main_libs \<Rightarrow> main_env \<Rightarrow> string \<Rightarrow> SubscribeRequest option
      \<Rightarrow> ('l, 's) MainWorkerServer \<times> 'w main_world \<Rightarrow> (('l, 's) MainWorkerServer \<times> 'w main_world) \<times> subscribed" where
  "wire_subscribe_call E limit Lib env addr req s =
     (case dial_Subscribe E (cf_MaxRecvMsgSize (ms_config (fst s))) limit (main_iface Lib env) req s of
        (s', r) \<Rightarrow> (s', SubscribeAnswer r))"

section \<open>The cluster over the wire\<close>

lemma plain_answer_ok: "plain_answer (Inr resp) \<Longrightarrow> response_ok resp"
  by (auto simp: plain_answer_def response_ok_def valid_utf8_Itoa valid_utf8_all_ascii)

lemma limited_call_fits:
  "fits lp encp m \<Longrightarrow> (\<And>s' out. meth (Some m) s = (s', Inr out) \<Longrightarrow> fits lq encq out) \<Longrightarrow>
     limited_call E lp encp lq encq meth m s = meth (Some m) s"
  by (auto simp: limited_call_def received_def split: prod.splits sum.splits)

lemma wire_pool_call_direct:
  assumes "lru_spec (pl_lru Lib) items cap lok" and "request_ok m"
    and "\<And>srv. pool addr = Some srv \<Longrightarrow> cache_inv items cap lok (ps_cache srv) \<and> versions_text items (ps_cache srv) \<and>
      fits (pc_MaxRecvMsgSize (pw_config (ps_worker srv))) ProcessRequest_json m"
    and "\<And>srv srv' st' resp. pool addr = Some srv \<Longrightarrow> proc_Process Lib env (Some m) srv st = (srv', st', Inr resp) \<Longrightarrow> fits limit ProcessResponse_json resp"
  shows "wire_pool_call E limit Lib env addr (Some m) (pool, st) = pool_call Lib env addr (Some m) (pool, st)"
proof (cases "pool addr")
  case (Some srv)
  let ?lim = "pc_MaxRecvMsgSize (pw_config (ps_worker srv))"
  have ok: "response_ok out \<and> fits limit ProcessResponse_json out" if "if_Process (proc_iface Lib env) (Some m) (srv, st) = (s', Inr out)" for s' out
  proof -
    from that obtain srv' st' where p: "proc_Process Lib env (Some m) srv st = (srv', st', Inr out)"
      by (auto simp: proc_iface_def split: prod.splits)
    from lru_spec.Process_plain [OF assms(1) refl _ p] assms(3) [OF Some] have "plain_answer (Inr out :: rpc_error + ProcessResponse)" by blast
    with assms(4) [OF Some p] show ?thesis by (simp add: plain_answer_ok)
  qed
  have "dial_Process E ?lim limit (proc_iface Lib env) (Some m) (srv, st) = if_Process (proc_iface Lib env) (Some m) (srv, st)"
    using dial_Process_limited [OF assms(2), of "proc_iface Lib env" "(srv, st)" E ?lim limit] ok assms(3) [OF Some]
    by (simp add: limited_call_fits)
  with Some show ?thesis by (auto simp: wire_pool_call_def pool_call_def proc_iface_def split: prod.splits)
qed (simp add: wire_pool_call_def pool_call_def)

lemma main_Process_forward_cong:
  assumes "\<And>addr. f addr req (mw_workers w) = g addr req (mw_workers w)"
  shows "main_Process (Lib\<lparr>ml_forward := f\<rparr>) env req srv w = main_Process (Lib\<lparr>ml_forward := g\<rparr>) env req srv w"
proof -
  have "forward_request (Lib\<lparr>ml_forward := f\<rparr>) wk eid req r (mw_workers w) = forward_request (Lib\<lparr>ml_forward := g\<rparr>) wk eid req r (mw_workers w)" for wk eid r
    by (simp add: forward_request_def Let_def assms)
  then have "routeGETToProcWorker (Lib\<lparr>ml_forward := f\<rparr>) env req srv0 (mw_workers w) = routeGETToProcWorker (Lib\<lparr>ml_forward := g\<rparr>) env req srv0 (mw_workers w)" for srv0
    by (simp add: routeGETToProcWorker_def Let_def cong: option.case_cong)
  moreover have "schema_operation (Lib\<lparr>ml_forward := f\<rparr>) env req srv0 fs = schema_operation (Lib\<lparr>ml_forward := g\<rparr>) env req srv0 fs" for srv0 fs
    by (cases Lib) (simp only: schema_operation_def main_libs.update_convs main_libs.select_convs)
  moreover have "ml_lru (Lib\<lparr>ml_forward := f\<rparr>) = ml_lru (Lib\<lparr>ml_forward := g\<rparr>)" by simp
  ultimately show ?thesis by (simp only: main_Process_def)
qed

text \<open>The answer of the Main Worker to a subscription has valid strings: its token is base64.\<close>

lemma valid_utf8_b64_url: "valid_utf8 (b64_encode b64_url bs)"
proof -
  have "\<forall>c \<in> set b64_url \<union> {CHR ''=''}. code c < 128" by code_simp
  with b64_encode_chars [OF b64_url_alphabet, of bs] show ?thesis by (intro valid_utf8_all_ascii) blast
qed

lemma Subscribe_answer_ok:
  assumes "main_Subscribe Lib env req srv = (srv', Inr out)" and "valid_utf8 (ms_masterKeyID srv)"
  shows "subscribed_ok out"
proof -
  have token: "valid_utf8 (wt_Token t)" if "GenerateWorkerToken now rnd tm wid kid tags = (tm', Inr t)" for now rnd tm wid kid tags tm' t
    using that by (auto simp: GenerateWorkerToken_def generateSecureToken_def Let_def valid_utf8_b64_url split: if_splits option.splits)
  show ?thesis
    using assms
    by (auto simp: main_Subscribe_def subscribed_ok_def Let_def split: if_splits sum.splits prod.splits dest: token)
qed

lemma wire_subscribe_direct:
  assumes "subscribe_ok q" and "valid_utf8 (ms_masterKeyID srv)" and "fits (cf_MaxRecvMsgSize (ms_config srv)) SubscribeRequest_json q"
    and "\<And>srv' out. main_Subscribe Lib env (Some q) srv = (srv', Inr out) \<Longrightarrow> fits limit SubscribeResponse_json out"
  shows "wire_subscribe_call E limit Lib env addr (Some q) (srv, wd) =
    (case subscribe_call Lib env addr (Some q) srv of (srv', r) \<Rightarrow> ((srv', wd), r))"
proof -
  have ok: "subscribed_ok out \<and> fits limit SubscribeResponse_json out"
    if r: "if_Subscribe (main_iface Lib env) (Some q) (srv, wd) = (s', Inr out)" for s' out
  proof -
    from r obtain srv' where "main_Subscribe Lib env (Some q) srv = (srv', Inr out)" by (auto simp: main_iface_def split: prod.splits)
    with assms(2,4) show ?thesis by (blast intro: Subscribe_answer_ok)
  qed
  have "dial_Subscribe E (cf_MaxRecvMsgSize (ms_config srv)) limit (main_iface Lib env) (Some q) (srv, wd) = if_Subscribe (main_iface Lib env) (Some q) (srv, wd)"
    using dial_Subscribe_limited [OF assms(1), of "main_iface Lib env" "(srv, wd)" E "cf_MaxRecvMsgSize (ms_config srv)" limit] ok assms(3)
    by (simp add: limited_call_fits)
  then show ?thesis by (auto simp: wire_subscribe_call_def subscribe_call_def main_iface_def split: prod.splits)
qed

section \<open>Properties\<close>

text \<open>
  C24. The answers of the Processing Workers are well-formed messages: for any number of workers with
  fresh caches on any store, after any requests, promised writes, expiries and restarts,
  the status, version and error of every answer are valid UTF-8, and the codec gives back the answer.
\<close>

theorem worker_answers_wellformed:
  assumes "lru_spec (pl_lru Lib) items cap lok" and "\<forall>i. \<exists>config. NewCache (pl_lru Lib) config = Inr (ps_cache (srvs0 i))"
    and "(sys_step Lib cod)\<^sup>*\<^sup>* (srvs0, st0, lgs0) (srvs, st, lgs)"
    and "proc_Process Lib env req (srvs i) st = (srv', st', Inr resp)"
  shows "response_ok resp \<and>
    codec_Unmarshal ProcessResponse_fields put_ProcessResponse new_ProcessResponse (codec_Marshal ProcessResponse_json (Some resp)) = Some resp"
proof -
  from assms(2) have "\<forall>i. cache_inv items cap lok (ps_cache (srvs0 i)) \<and> versions_text items (ps_cache (srvs0 i))"
    using lru_spec.versioned_new [OF assms(1)] by blast
  from lru_spec.Process_plain [OF assms(1) refl lru_spec.system_versioned [OF assms(1) refl assms(3) this] assms(4)]
  have "response_ok resp" by (intro plain_answer_ok) blast
  with process_response.marshalled show ?thesis by blast
qed

theorem worker_answers_wellformed_witness:
  "\<exists>srv' :: (list_lru, unit, nat, unit) ProcWorkerServer. \<exists>resp.
     proc_Process (sample_libs sample_codec) sample_env (sample_request ''PUT'' ''{}'') sample_server sample_tree = (srv', sample_tree, Inr resp) \<and>
     codec_Unmarshal ProcessResponse_fields put_ProcessResponse new_ProcessResponse (codec_Marshal ProcessResponse_json (Some resp)) = Some resp"
proof -
  obtain srv' where put: "proc_Process (sample_libs sample_codec) sample_env (sample_request ''PUT'' ''{}'') sample_server sample_tree =
      (srv', sample_tree, Inr (response ''OK'' [] ''1''))"
    using sample_put [of "''{}''" sample_codec] by auto
  have "\<forall>i :: nat. \<exists>config. NewCache (pl_lru (sample_libs sample_codec)) config = Inr (ps_cache ((\<lambda>_. sample_server) i))"
    using sample_cache_new by auto
  from worker_answers_wellformed [where srvs = "\<lambda>_. sample_server", OF _ this rtranclp.rtrancl_refl put] llru.lru_spec_axioms put
  show ?thesis by auto
qed

text \<open>
  C25. What comes in goes out: when a Processing Worker accepts a PUT, the answer to a later GET
  that returns this payload with the version of the PUT is not longer on the wire than the message of the
  PUT, so a limit on the size of messages that let the PUT pass lets the answer pass.
\<close>

theorem accepted_payload_fits:
  assumes "proc_Process Lib env (Some m) srv st = (srv', st', Inr resp)" and "pr_Operation m = ''PUT''"
    and "fits limit ProcessRequest_json m"
  shows "fits limit ProcessResponse_json (response ''OK'' (pr_Payload m) (rs_Version resp))"
proof -
  obtain srv1 where put: "processPUT Lib env (Some m) (request_entity (Some m)) srv st = (srv1, st', Inr resp)"
    using processPUT_cong [OF assms(1)] assms(2) by auto
  then obtain ver where ver: "ver = next_version Lib env srv st (request_entity (Some m))" "rs_Version resp = Itoa ver" "pr_Payload m \<noteq> []"
    by (elim processPUT_accepted) (simp add: response_def)
  have "is_i64 ver" unfolding ver(1) by (rule next_version_i64)
  from answer_not_longer [OF _ _ assms(2) ver(3) this] Process_accepted_addressable [OF assms(1)] assms(3)
  show ?thesis by (auto simp: addressable_def fits_def ver(2))
qed

theorem accepted_payload_fits_witness:
  "fits 100 ProcessResponse_json (response ''OK'' ''{}'' ''1'')"
proof -
  let ?m = "\<lparr>pr_SchemaId = ''chat'', pr_EntityKey = ''1'', pr_Operation = ''PUT'', pr_Payload = ''{}'', pr_Token = []\<rparr>"
  obtain srv' where put: "proc_Process (sample_libs sample_codec) sample_env (Some ?m) sample_server sample_tree =
      (srv', sample_tree, Inr (response ''OK'' [] ''1''))"
    using sample_put [of "''{}''" sample_codec] by (auto simp: sample_request_def)
  have "fits 100 ProcessRequest_json ?m" by code_simp
  from accepted_payload_fits [OF put _ this] show ?thesis by (simp add: response_def)
qed

text \<open>
  C7. The cluster over the wire: for a request with valid strings that fits the limit of every worker, and
  answers that fit the limit of the Main Worker, forwarding with the generated stubs and the
  JSON codec gives exactly what calling the workers directly gives, in the answer, the servers and the store.
\<close>

theorem cluster_over_wire:
  assumes "lru_spec (pl_lru Lib) items cap lok" and "request_ok m" and "mw_workers w = (pool, st)"
    and "\<forall>addr srv. pool addr = Some srv \<longrightarrow> cache_inv items cap lok (ps_cache srv) \<and> versions_text items (ps_cache srv) \<and>
      fits (pc_MaxRecvMsgSize (pw_config (ps_worker srv))) ProcessRequest_json m \<and>
      (\<forall>srv' st' resp. proc_Process Lib env (Some m) srv st = (srv', st', Inr resp) \<longrightarrow> fits limit ProcessResponse_json resp)"
  shows "main_Process (MLib\<lparr>ml_forward := wire_pool_call E limit Lib env\<rparr>) menv (Some m) main w =
    main_Process (MLib\<lparr>ml_forward := pool_call Lib env\<rparr>) menv (Some m) main w"
  by (intro main_Process_forward_cong, unfold assms(3), rule wire_pool_call_direct [OF assms(1,2)]) (use assms(4) in blast)+

theorem cluster_over_wire_witness:
  "\<exists>srv :: (list_lru, unit, nat, unit) ProcWorkerServer. main_Process ((sample_main_libs unreachable)\<lparr>ml_forward := wire_pool_call no_errors 1000 (sample_libs sample_codec) sample_env\<rparr>) (sample_main_env 10 ''r'')
       (entity_request ''GET'' []) sample_joined (sample_world ([''a:1'' \<mapsto> srv], sample_tree)) =
     main_Process ((sample_main_libs unreachable)\<lparr>ml_forward := pool_call (sample_libs sample_codec) sample_env\<rparr>) (sample_main_env 10 ''r'')
       (entity_request ''GET'' []) sample_joined (sample_world ([''a:1'' \<mapsto> srv], sample_tree)) \<and>
     snd (proc_Process (sample_libs sample_codec) sample_env (entity_request ''GET'' []) srv sample_tree) = (sample_tree, Inr (response ''OK'' ''{}'' ''1''))"
proof -
  let ?Lib = "sample_libs sample_codec"
    and ?m = "\<lparr>pr_SchemaId = ''chat'', pr_EntityKey = ''1'', pr_Operation = ''GET'', pr_Payload = [], pr_Token = ''cg==''\<rparr>"
  obtain srv where put: "proc_Process ?Lib sample_env (sample_request ''PUT'' ''{}'') sample_server sample_tree = (srv, sample_tree, Inr (response ''OK'' [] ''1''))"
    using sample_put [of "''{}''" sample_codec] by auto
  obtain srv1 where cput: "processPUT ?Lib sample_env (sample_request ''PUT'' ''{}'') ''chat_1'' sample_server sample_tree =
      (srv1, sample_tree, Inr (response ''OK'' [] ''1''))" and same: "ps_cache srv = ps_cache srv1" "ps_worker srv = ps_worker srv1"
    using processPUT_cong [OF put] by auto
  have "c_defaultTTL sample_cache = 0" by (simp add: sample_cache_def NewCache_def list_lru_ops_def)
  then have live: "\<not> expired_at (he_first sample_env) (set_expiry (he_second sample_env) (ps_cache sample_server))"
    by (simp add: expired_at_def set_expiry_def)
  have "addressable (Some ?m)" using sample_addressable by (simp add: addressable_def)
  from Process_dispatch(1) [OF this, of ?Lib sample_env srv sample_tree] local_workers.GET_after_PUT [OF _ cput live same(1)] sample_cache_empty(1)
  have get: "snd (proc_Process ?Lib sample_env (Some ?m) srv sample_tree) = (sample_tree, Inr (response ''OK'' ''{}'' ''1''))"
    by (simp add: response_def)
  have w: "ps_worker srv = ps_worker sample_server" using processPUT_accepted [OF cput] same(2) by metis
  have v: "cache_inv ll_items ll_cap list_lru_ok (ps_cache srv) \<and> versions_text ll_items (ps_cache srv)"
    using llru.Process_plain [OF _ _ put] llru.versioned_new [OF sample_cache_new] by simp
  have size: "fits 4194304 ProcessRequest_json ?m" "fits 1000 ProcessResponse_json (response ''OK'' ''{}'' ''1'')" by code_simp+
  have ok: "request_ok ?m" by (simp add: request_ok_def valid_utf8_all_ascii)
  let ?pool = "[''a:1'' \<mapsto> srv]"
  have all: "\<forall>addr s. ?pool addr = Some s \<longrightarrow> cache_inv ll_items ll_cap list_lru_ok (ps_cache s) \<and> versions_text ll_items (ps_cache s) \<and>
      fits (pc_MaxRecvMsgSize (pw_config (ps_worker s))) ProcessRequest_json ?m \<and>
      (\<forall>srv' st' resp. proc_Process ?Lib sample_env (Some ?m) s sample_tree = (srv', st', Inr resp) \<longrightarrow> fits 1000 ProcessResponse_json resp)"
    using get v size by (auto simp: w)
  have "mw_workers (sample_world (?pool, sample_tree)) = (?pool, sample_tree)" by (simp add: sample_world_def)
  from cluster_over_wire [OF _ ok this all, where MLib = "sample_main_libs unreachable" and E = no_errors and menv = "sample_main_env 10 ''r''" and main = sample_joined]
    llru.lru_spec_axioms get
  show ?thesis by (intro exI [of _ srv] conjI) simp_all
qed

text \<open>
  The handshake over the wire: with a worker id and tags of valid UTF-8 and messages within the limits
  of both ends, the handshake of a worker through the generated stubs and the JSON codec is the
  handshake with the Main Worker itself.
\<close>

theorem handshake_over_wire:
  assumes "valid_utf8 (pc_WorkerID (pw_config w))" and "tags_ok (pc_Tags (pw_config w))" and "valid_utf8 (ms_masterKeyID srv)"
    and "\<forall>pem. MarshalPublicKeyToPEM (ml_rsa Lib) (map_option (rs_public (ml_rsa Lib)) (pw_privateKey w)) = Inr pem \<longrightarrow>
      fits (cf_MaxRecvMsgSize (ms_config srv)) SubscribeRequest_json
        \<lparr>sr_WorkerId = pc_WorkerID (pw_config w), sr_Pubkey = pem, sr_Tags = pc_Tags (pw_config w)\<rparr>"
    and "\<forall>q srv' out. main_Subscribe Lib env q srv = (srv', Inr out) \<longrightarrow> fits (pc_MaxRecvMsgSize (pw_config w)) SubscribeResponse_json out"
  shows "Handshake (ml_rsa Lib) (wire_subscribe_call E (pc_MaxRecvMsgSize (pw_config w)) Lib env) w (srv, wd) =
    (case Handshake (ml_rsa Lib) (subscribe_call Lib env) w srv of (w', srv', e) \<Rightarrow> (w', (srv', wd), e))"
proof (cases "pw_privateKey w")
  case (Some sk)
  show ?thesis
  proof (cases "MarshalPublicKeyToPEM (ml_rsa Lib) (Some (rs_public (ml_rsa Lib) sk))")
    case (Inr pem)
    let ?q = "\<lparr>sr_WorkerId = pc_WorkerID (pw_config w), sr_Pubkey = pem, sr_Tags = pc_Tags (pw_config w)\<rparr>"
    have "subscribe_ok ?q" using assms(1,2) by (simp add: subscribe_ok_def)
    from wire_subscribe_direct [OF this assms(3), of Lib env "pc_MaxRecvMsgSize (pw_config w)" E "pc_MainAddr (pw_config w)" wd] assms(4,5) Some Inr
    show ?thesis by (auto simp: Handshake_def split: prod.splits subscribed.splits sum.splits)
  qed (simp add: Handshake_def Some)
qed (simp add: Handshake_def)

theorem handshake_over_wire_witness:
  "\<exists>w. NewProcWorker sample_rsa ''seed'' (Some sample_proc_config) = Inr w \<and>
     Handshake sample_rsa (wire_subscribe_call no_errors 4194304 (sample_main_libs unreachable) (sample_main_env 10 ''r'')) w (sample_main, sample_world ()) =
     (case Handshake sample_rsa (subscribe_call (sample_main_libs (unreachable :: _ \<Rightarrow> _ \<Rightarrow> unit \<Rightarrow> _)) (sample_main_env 10 ''r'')) w sample_main of
        (w', srv', e) \<Rightarrow> (w', (srv', sample_world ()), e))"
proof -
  let ?Lib = "sample_main_libs (unreachable :: _ \<Rightarrow> _ \<Rightarrow> unit \<Rightarrow> _)" and ?env = "sample_main_env 10 ''r''"
  let ?cfg = "sample_proc_config\<lparr>pc_MaxRecvMsgSize := 4194304\<rparr>"
  obtain w where w: "NewProcWorker sample_rsa ''seed'' (Some sample_proc_config) = Inr w" "pw_privateKey w = Some ()" "pw_config w = ?cfg"
    by (simp add: NewProcWorker_def sample_proc_config_def GenerateRSAKeyPair_def sample_rsa_def)
  have lim: "cf_MaxRecvMsgSize (ms_config sample_main) = 4194304"
    using sample_main_started sample_keys_loaded sample_store_cache_new
    by (simp add: NewMainWorkerServer_def with_defaults_def sample_config_def Let_def sample_world_def sample_main_def)
  have pem: "MarshalPublicKeyToPEM sample_rsa (Some (rs_public sample_rsa ())) = Inr ''p''" by (simp add: sample_rsa_def MarshalPublicKeyToPEM_def)
  have q: "fits 4194304 SubscribeRequest_json \<lparr>sr_WorkerId = ''w1'', sr_Pubkey = ''p'', sr_Tags = [''grpc_addr'' \<mapsto> ''a:1'']\<rparr>"
  proof -
    have "int (length (json_text None (JObj [(''worker_id'', jstr ''w1''), (''pubkey'', jstr (b64_encode b64_std ''p'')),
        (''tags'', JObj [(''grpc_addr'', jstr ''a:1'')])]))) \<le> 4194304" by code_simp
    then show ?thesis
      by (simp add: fits_def codec_Marshal_def SubscribeRequest_json_def string_member_def bytes_member_def tags_member_def)
  qed
  have a: "fits 4194304 SubscribeResponse_json out" if "main_Subscribe ?Lib ?env q sample_main = (srv', Inr out)" for q srv' out
  proof -
    have "fits 4194304 SubscribeResponse_json \<lparr>sp_Token = b64_encode b64_url ''r'', sp_WrappedKey = replicate 32 CHR ''k'', sp_KeyId = ''main-key-v1''\<rparr>"
      by code_simp
    with that show ?thesis
      by (auto simp: main_Subscribe_def GenerateWorkerToken_def generateSecureToken_def WrapKey_def sample_rsa_def Let_def split: if_splits sum.splits)
  qed
  have "tags_ok (pc_Tags (pw_config w))" by (simp add: w sample_proc_config_def tags_ok_def valid_utf8_all_ascii)
  from handshake_over_wire [OF _ this, of sample_main ?Lib ?env no_errors "sample_world ()"] w lim pem q a
  show ?thesis by (simp add: sample_proc_config_def valid_utf8_all_ascii)
qed

end
