(* ===== verification/Metrics.thy ===== *)
theory Metrics
  imports Main_Rest
begin

text \<open>
  The metrics of pkg/metrics/metrics.go: the collectors that each program makes and registers, and the
  labels under which requests are counted.  The package prometheus is a parameter: a registry takes
  collectors and panics (None) when it refuses one; the locale \<open>metric_registry\<close> states when it
  does not, and \<open>names_registry\<close> is an instance.
\<close>

section \<open>Collectors\<close>

datatype metric_kind = Counter | Gauge | Histogram

record metric =
  mt_kind :: metric_kind
  mt_fqName :: string
  mt_Help :: string
  mt_labels :: "string list"

definition BuildFQName :: "string \<Rightarrow> string \<Rightarrow> string \<Rightarrow> string" where
  "BuildFQName ns subsystem name = ns @ ''_'' @ subsystem @ ''_'' @ name"

definition NewMetric :: "metric_kind \<Rightarrow> string \<Rightarrow> string \<Rightarrow> string \<Rightarrow> string list \<Rightarrow> metric" where
  "NewMetric kind subsystem name help labels =
     \<lparr>mt_kind = kind, mt_fqName = BuildFQName ''deltadatabase'' subsystem name, mt_Help = help, mt_labels = labels\<rparr>"

abbreviation NewCounter :: "string \<Rightarrow> string \<Rightarrow> string \<Rightarrow> metric" where
  "NewCounter subsystem name help \<equiv> NewMetric Counter subsystem name help []"

abbreviation NewGauge :: "string \<Rightarrow> string \<Rightarrow> string \<Rightarrow> metric" where
  "NewGauge subsystem name help \<equiv> NewMetric Gauge subsystem name help []"

abbreviation NewCounterVec :: "string \<Rightarrow> string \<Rightarrow> string \<Rightarrow> string list \<Rightarrow> metric" where
  "NewCounterVec \<equiv> NewMetric Counter"

abbreviation NewHistogramVec :: "string \<Rightarrow> string \<Rightarrow> string \<Rightarrow> string list \<Rightarrow> metric" where
  "NewHistogramVec \<equiv> NewMetric Histogram"

text \<open>A registry of the library, with the collectors of the Go runtime and of the process, and the names it exposes.\<close>

record 'r prom_lib =
  pb_NewRegistry :: 'r
  pb_Register :: "'r \<Rightarrow> metric list \<Rightarrow> 'r option"
  pb_Gather :: "'r \<Rightarrow> string set"
  pb_GoCollector :: "metric list"
  pb_ProcessCollector :: "metric list"

definition name_char :: "char \<Rightarrow> bool" where
  "name_char c \<longleftrightarrow> c \<in> set ''abcdefghijklmnopqrstuvwxyzABCDEFGHIJKLMNOPQRSTUVWXYZ_''"

definition good_name :: "string \<Rightarrow> bool" where
  "good_name s \<longleftrightarrow> s \<noteq> [] \<and> list_all name_char s"

section \<open>The Main Worker\<close>

record 'r MainWorkerMetrics =
  mwm_SubscribeRequestsTotal :: metric
  mwm_SubscribeDurationSeconds :: metric
  mwm_ProcessRequestsTotal :: metric
  mwm_ProcessDurationSeconds :: metric
  mwm_HTTPRequestsTotal :: metric
  mwm_HTTPDurationSeconds :: metric
  mwm_ActiveWorkerTokens :: metric
  mwm_ActiveClientTokens :: metric
  mwm_RegisteredWorkers :: metric
  mwm_AvailableWorkers :: metric
  mwm_EntityCacheSize :: metric
  mwm_EntityCacheHitsTotal :: metric
  mwm_EntityCacheMissesTotal :: metric
  mwm_EntityCacheEvictionsTotal :: metric
  mwm_registry :: 'r

definition mwm_metrics :: "'r \<Rightarrow> 'r MainWorkerMetrics" where
  "mwm_metrics reg = \<lparr>
     mwm_SubscribeRequestsTotal = NewCounterVec ''main''
       ''subscribe_requests_total''
       ''Total number of Subscribe gRPC requests received by the Main Worker.'' [''status''],
     mwm_SubscribeDurationSeconds = NewHistogramVec ''main''
       ''subscribe_request_duration_seconds''
       ''Duration of Subscribe gRPC requests in seconds.'' [''status''],
     mwm_ProcessRequestsTotal = NewCounterVec ''main''
       ''process_requests_total''
       ''Total number of Process gRPC requests received by the Main Worker.'' [''operation'', ''status''],
     mwm_ProcessDurationSeconds = NewHistogramVec ''main''
       ''process_request_duration_seconds''
       ''Duration of Process gRPC requests in seconds.'' [''operation'', ''status''],
     mwm_HTTPRequestsTotal = NewCounterVec ''main''
       ''http_requests_total''
       ''Total number of HTTP requests received by the Main Worker REST server.'' [''method'', ''path'', ''status_code''],
     mwm_HTTPDurationSeconds = NewHistogramVec ''main''
       ''http_request_duration_seconds''
       ''Duration of HTTP requests served by the Main Worker REST server.'' [''method'', ''path''],
     mwm_ActiveWorkerTokens = NewGauge ''main''
       ''active_worker_tokens''
       ''Current number of active (non-expired) Processing Worker session tokens.'',
     mwm_ActiveClientTokens = NewGauge ''main''
       ''active_client_tokens''
       ''Current number of active (non-expired) client session tokens.'',
     mwm_RegisteredWorkers = NewGauge ''main''
       ''registered_workers''
       ''Number of Processing Workers registered with the Main Worker.'',
     mwm_AvailableWorkers = NewGauge ''main''
       ''available_workers''
       ''Number of Processing Workers currently in the Available state.'',
     mwm_EntityCacheSize = NewGauge ''main''
       ''entity_cache_size''
       (''Current number of entries in the Main Worker'' @ [CHR 0x27] @ ''s in-memory entity LRU cache.''),
     mwm_EntityCacheHitsTotal = NewCounter ''main''
       ''entity_cache_hits_total''
       ''Total number of entity cache hits on the Main Worker.'',
     mwm_EntityCacheMissesTotal = NewCounter ''main''
       ''entity_cache_misses_total''
       ''Total number of entity cache misses on the Main Worker.'',
     mwm_EntityCacheEvictionsTotal = NewCounter ''main''
       ''entity_cache_evictions_total''
       ''Total number of entity cache evictions on the Main Worker.'',
     mwm_registry = reg\<rparr>"

definition mwm_collectors :: "'r MainWorkerMetrics \<Rightarrow> metric list" where
  "mwm_collectors m = [mwm_SubscribeRequestsTotal m, mwm_SubscribeDurationSeconds m, mwm_ProcessRequestsTotal m, mwm_ProcessDurationSeconds m, mwm_HTTPRequestsTotal m, mwm_HTTPDurationSeconds m, mwm_ActiveWorkerTokens m, mwm_ActiveClientTokens m, mwm_RegisteredWorkers m, mwm_AvailableWorkers m, mwm_EntityCacheSize m, mwm_EntityCacheHitsTotal m, mwm_EntityCacheMissesTotal m, mwm_EntityCacheEvictionsTotal m]"

definition NewMainWorkerMetrics :: "'r prom_lib \<Rightarrow> 'r MainWorkerMetrics option" where
  "NewMainWorkerMetrics P =
     (case pb_Register P (pb_NewRegistry P) (pb_GoCollector P @ pb_ProcessCollector P) of
        None \<Rightarrow> None
      | Some reg \<Rightarrow>
          let m = mwm_metrics reg in
          map_option (\<lambda>reg'. m\<lparr>mwm_registry := reg'\<rparr>) (pb_Register P reg (mwm_collectors m)))"

section \<open>The Processing Worker\<close>

record 'r ProcWorkerMetrics =
  pwm_ProcessRequestsTotal :: metric
  pwm_ProcessDurationSeconds :: metric
  pwm_CacheHitsTotal :: metric
  pwm_CacheMissesTotal :: metric
  pwm_CacheEvictionsTotal :: metric
  pwm_CacheSize :: metric
  pwm_AsyncWritesPending :: metric
  pwm_AsyncWritesTotal :: metric
  pwm_AsyncWriteFailuresTotal :: metric
  pwm_EncryptionOperationsTotal :: metric
  pwm_EncryptionFailuresTotal :: metric
  pwm_HandshakeAttemptsTotal :: metric
  pwm_registry :: 'r

definition pwm_metrics :: "'r \<Rightarrow> 'r ProcWorkerMetrics" where
  "pwm_metrics reg = \<lparr>
     pwm_ProcessRequestsTotal = NewCounterVec ''proc''
       ''process_requests_total''
       ''Total number of Process gRPC requests handled by the Processing Worker.'' [''operation'', ''status''],
     pwm_ProcessDurationSeconds = NewHistogramVec ''proc''
       ''process_request_duration_seconds''
       ''Duration of Process gRPC requests handled by the Processing Worker.'' [''operation''],
     pwm_CacheHitsTotal = NewCounter ''proc''
       ''cache_hits_total''
       ''Total number of in-memory cache hits on the Processing Worker.'',
     pwm_CacheMissesTotal = NewCounter ''proc''
       ''cache_misses_total''
       ''Total number of in-memory cache misses on the Processing Worker.'',
     pwm_CacheEvictionsTotal = NewCounter ''proc''
       ''cache_evictions_total''
       ''Total number of in-memory cache evictions on the Processing Worker.'',
     pwm_CacheSize = NewGauge ''proc''
       ''cache_size''
       (''Current number of entries in the Processing Worker'' @ [CHR 0x27] @ ''s in-memory LRU cache.''),
     pwm_AsyncWritesPending = NewGauge ''proc''
       ''async_writes_pending''
       ''Number of asynchronous disk-write goroutines currently in-flight.'',
     pwm_AsyncWritesTotal = NewCounter ''proc''
       ''async_writes_total''
       ''Total number of asynchronous disk writes attempted by the Processing Worker.'',
     pwm_AsyncWriteFailuresTotal = NewCounter ''proc''
       ''async_write_failures_total''
       ''Total number of failed asynchronous disk writes.'',
     pwm_EncryptionOperationsTotal = NewCounterVec ''proc''
       ''encryption_operations_total''
       ''Total number of encryption/decryption operations performed by the Processing Worker.'' [''operation''],
     pwm_EncryptionFailuresTotal = NewCounterVec ''proc''
       ''encryption_failures_total''
       ''Total number of failed encryption/decryption operations.'' [''operation''],
     pwm_HandshakeAttemptsTotal = NewCounterVec ''proc''
       ''handshake_attempts_total''
       ''Total number of Subscribe handshake attempts with the Main Worker.'' [''status''],
     pwm_registry = reg\<rparr>"

definition pwm_collectors :: "'r ProcWorkerMetrics \<Rightarrow> metric list" where
  "pwm_collectors m = [pwm_ProcessRequestsTotal m, pwm_ProcessDurationSeconds m, pwm_CacheHitsTotal m, pwm_CacheMissesTotal m, pwm_CacheEvictionsTotal m, pwm_CacheSize m, pwm_AsyncWritesPending m, pwm_AsyncWritesTotal m, pwm_AsyncWriteFailuresTotal m, pwm_EncryptionOperationsTotal m, pwm_EncryptionFailuresTotal m, pwm_HandshakeAttemptsTotal m]"

definition NewProcWorkerMetrics :: "'r prom_lib \<Rightarrow> 'r ProcWorkerMetrics option" where
  "NewProcWorkerMetrics P =
     (case pb_Register P (pb_NewRegistry P) (pb_GoCollector P @ pb_ProcessCollector P) of
        None \<Rightarrow> None
      | Some reg \<Rightarrow>
          let m = pwm_metrics reg in
          map_option (\<lambda>reg'. m\<lparr>pwm_registry := reg'\<rparr>) (pb_Register P reg (pwm_collectors m)))"

section \<open>Registration\<close>

text \<open>
  What the package documents: collectors with good names are registered when their names are new and
  different; the collectors of the runtime have names under \<open>go_\<close> and \<open>process_\<close>.
\<close>

definition runtime_names :: "'r prom_lib \<Rightarrow> string set" where
  "runtime_names P = mt_fqName ` set (pb_GoCollector P @ pb_ProcessCollector P)"

lemma HasPrefix_hd: "HasPrefix s (c # p) \<Longrightarrow> hd s = c"
  by (cases s) (auto simp: HasPrefix_def)

locale metric_registry =
  fixes P :: "'r prom_lib"
  assumes new_empty: "pb_Gather P (pb_NewRegistry P) = {}"
    and register: "distinct (map mt_fqName ms) \<Longrightarrow> list_all (good_name \<circ> mt_fqName) ms \<Longrightarrow>
        mt_fqName ` set ms \<inter> pb_Gather P r = {} \<Longrightarrow>
        \<exists>r'. pb_Register P r ms = Some r' \<and> pb_Gather P r' = pb_Gather P r \<union> mt_fqName ` set ms"
    and runtime: "distinct (map mt_fqName (pb_GoCollector P @ pb_ProcessCollector P))"
        "list_all (good_name \<circ> mt_fqName) (pb_GoCollector P @ pb_ProcessCollector P)"
        "list_all (\<lambda>m. HasPrefix (mt_fqName m) ''go_'' \<or> HasPrefix (mt_fqName m) ''process_'') (pb_GoCollector P @ pb_ProcessCollector P)"
begin

lemma runtime_registered:
  "\<exists>reg. pb_Register P (pb_NewRegistry P) (pb_GoCollector P @ pb_ProcessCollector P) = Some reg \<and> pb_Gather P reg = runtime_names P"
  using register [OF runtime(1,2), of "pb_NewRegistry P"] unfolding new_empty runtime_names_def by blast

text \<open>Collectors of this program have the prefix of the database.\<close>

lemma own_registered:
  assumes "pb_Gather P reg = runtime_names P" and "distinct (map mt_fqName ms)" and "list_all (good_name \<circ> mt_fqName) ms"
    and "list_all (\<lambda>m. HasPrefix (mt_fqName m) ''deltadatabase_'') ms"
  shows "\<exists>reg'. pb_Register P reg ms = Some reg' \<and> pb_Gather P reg' = runtime_names P \<union> mt_fqName ` set ms"
proof -
  have "hd (mt_fqName m) = CHR ''d''" if "m \<in> set ms" for m
    using that assms(4) by (auto simp: list_all_iff dest: HasPrefix_hd)
  moreover have "hd x = CHR ''g'' \<or> hd x = CHR ''p''" if "x \<in> runtime_names P" for x
    using that runtime(3) by (auto simp: list_all_iff runtime_names_def dest: HasPrefix_hd)
  ultimately have "mt_fqName ` set ms \<inter> runtime_names P = {}" by fastforce
  with register [OF assms(2,3), of reg] assms(1) show ?thesis by simp
qed

end

definition own_names :: "string list \<Rightarrow> bool" where
  "own_names ns \<longleftrightarrow> distinct ns \<and> list_all good_name ns \<and> list_all (\<lambda>s. HasPrefix s ''deltadatabase_'') ns"

lemma fq_lists:
  "map mt_fqName (mwm_collectors (mwm_metrics reg)) = map (BuildFQName ''deltadatabase'' ''main'')
     [''subscribe_requests_total'', ''subscribe_request_duration_seconds'', ''process_requests_total'', ''process_request_duration_seconds'', ''http_requests_total'', ''http_request_duration_seconds'', ''active_worker_tokens'', ''active_client_tokens'', ''registered_workers'', ''available_workers'', ''entity_cache_size'', ''entity_cache_hits_total'', ''entity_cache_misses_total'', ''entity_cache_evictions_total'']"
  "map mt_fqName (pwm_collectors (pwm_metrics reg)) = map (BuildFQName ''deltadatabase'' ''proc'')
     [''process_requests_total'', ''process_request_duration_seconds'', ''cache_hits_total'', ''cache_misses_total'', ''cache_evictions_total'', ''cache_size'', ''async_writes_pending'', ''async_writes_total'', ''async_write_failures_total'', ''encryption_operations_total'', ''encryption_failures_total'', ''handshake_attempts_total'']"
  by (simp_all add: mwm_collectors_def mwm_metrics_def pwm_collectors_def pwm_metrics_def NewMetric_def)

text \<open>A registry that keeps the names.\<close>

definition names_registry :: "string list prom_lib" where
  "names_registry =
     \<lparr>pb_NewRegistry = [],
      pb_Register = (\<lambda>r ms. let ns = map mt_fqName ms in
        if distinct ns \<and> list_all good_name ns \<and> set ns \<inter> set r = {} then Some (r @ ns) else None),
      pb_Gather = set,
      pb_GoCollector = [\<lparr>mt_kind = Gauge, mt_fqName = ''go_goroutines'', mt_Help = [], mt_labels = []\<rparr>],
      pb_ProcessCollector = [\<lparr>mt_kind = Counter, mt_fqName = ''process_cpu_seconds_total'', mt_Help = [], mt_labels = []\<rparr>]\<rparr>"

interpretation names: metric_registry names_registry
proof
  show "list_all (good_name \<circ> mt_fqName) (pb_GoCollector names_registry @ pb_ProcessCollector names_registry)"
    by code_simp
qed (auto simp: names_registry_def Let_def list_all_iff HasPrefix_def)

section \<open>Labels\<close>

text \<open>Requests served one after the other.\<close>

fun serve_all ::
    "('l, 's, 'p, 'rk, 'w) main_libs \<Rightarrow> json_lib \<Rightarrow> (nat \<Rightarrow> nat \<Rightarrow> nat \<Rightarrow> nat) \<Rightarrow> main_env \<Rightarrow> http_request list
      \<Rightarrow> ('l, 's) MainWorkerServer \<Rightarrow> 'w main_world \<Rightarrow> ('l, 's) MainWorkerServer \<times> 'w main_world" where
  "serve_all Lib JL ftime env [] srv w = (srv, w)"
| "serve_all Lib JL ftime env (r # rs) srv w =
     (case serve_rest Lib JL ftime env r srv w of (srv', w', resp) \<Rightarrow> serve_all Lib JL ftime env rs srv' w')"

definition stray_request :: "nat \<Rightarrow> http_request" where
  "stray_request k = \<lparr>hr_Method = ''GET'', hr_Path = slash # replicate (Suc k) (CHR ''x''), hr_Authorization = [], hr_QueryKey = [], hr_Body = []\<rparr>"

lemma clean_url_name:
  assumes "plain_name e"
  shows "clean_url (slash # e) = slash # e"
proof -
  have "clean_path (child (True, []) e)" using assms by (intro clean_path_child) (simp_all add: clean_path_def clean_stack_def)
  then have "resolve (path_string (child (True, []) e)) = child (True, []) e" by (rule resolve_path_string)
  then have "Clean (slash # e) = slash # e" by (simp add: Clean_def child_def path_string_def)
  moreover have "last e \<noteq> slash" using assms by (metis plain_name_def last_in_set)
  moreover have "e \<noteq> []" using assms by (simp add: plain_name_def)
  ultimately show ?thesis by (simp add: clean_url_def)
qed

text \<open>A path outside the routes is served by the file server and counted under itself.\<close>

lemma stray_served:
  "serve_mux Lib JL ftime env (stray_request k) srv w =
     (srv, w, (ml_static Lib ''GET'' (hr_Path (stray_request k)), StaticFile (hr_Path (stray_request k))))"
  "normalisePath (hr_Path (stray_request k)) = hr_Path (stray_request k)"
proof -
  have "plain_name (replicate (Suc k) (CHR ''x''))" by (auto simp: plain_name_def)
  from clean_url_name [OF this]
  show "serve_mux Lib JL ftime env (stray_request k) srv w =
     (srv, w, (ml_static Lib ''GET'' (hr_Path (stray_request k)), StaticFile (hr_Path (stray_request k))))"
    by (simp add: serve_mux_def stray_request_def Let_def HasPrefix_def)
  show "normalisePath (hr_Path (stray_request k)) = hr_Path (stray_request k)"
    by (simp add: normalisePath_def stray_request_def HasPrefix_def)
qed

abbreviation http_count :: "('l, 's) MainWorkerServer \<Rightarrow> string \<times> string \<times> string \<Rightarrow> int" where
  "http_count srv \<equiv> mm_HTTPRequests (ms_metrics srv)"

lemma stray_counted:
  "http_count (fst (serve_all Lib JL ftime env (map stray_request ks) srv w)) l =
     http_count srv l + int (count_list (map (\<lambda>k. (''GET'', hr_Path (stray_request k), Itoa (ml_static Lib ''GET'' (hr_Path (stray_request k))))) ks) l)"
proof (induction ks arbitrary: srv)
  case (Cons k ks)
  then show ?case by (simp add: serve_rest_def stray_served instrumentHTTP_def Let_def) (simp add: stray_request_def)
qed simp

section \<open>Properties\<close>

text \<open>
  Neither program panics when it makes its metrics: on a registry that accepts collectors with
  good, new and different names, the constructors register every collector, and the registry then
  exposes exactly their names beside those of the runtime.
\<close>

theorem metrics_registered:
  assumes "metric_registry P"
  shows "(\<exists>m. NewMainWorkerMetrics P = Some m \<and> pb_Gather P (mwm_registry m) = runtime_names P \<union> mt_fqName ` set (mwm_collectors m)) \<and>
    (\<exists>m. NewProcWorkerMetrics P = Some m \<and> pb_Gather P (pwm_registry m) = runtime_names P \<union> mt_fqName ` set (pwm_collectors m))"
proof -
  obtain reg where reg: "pb_Register P (pb_NewRegistry P) (pb_GoCollector P @ pb_ProcessCollector P) = Some reg" "pb_Gather P reg = runtime_names P"
    using metric_registry.runtime_registered [OF assms] by blast
  have own: "\<exists>reg'. pb_Register P reg ms = Some reg' \<and> pb_Gather P reg' = runtime_names P \<union> mt_fqName ` set ms" if "own_names (map mt_fqName ms)" for ms
    using metric_registry.own_registered [OF assms reg(2), of ms] that by (simp add: own_names_def list.pred_map o_def)
  have "own_names (map mt_fqName (mwm_collectors (mwm_metrics reg)))" "own_names (map mt_fqName (pwm_collectors (pwm_metrics reg)))"
    unfolding fq_lists by code_simp+
  from this [THEN own] show ?thesis
    by (auto simp: NewMainWorkerMetrics_def NewProcWorkerMetrics_def reg Let_def mwm_collectors_def pwm_collectors_def)
qed

theorem metrics_registered_witness:
  "\<exists>m. NewMainWorkerMetrics names_registry = Some m \<and>
     ''deltadatabase_main_http_requests_total'' \<in> pb_Gather names_registry (mwm_registry m)"
proof -
  from metrics_registered [OF names.metric_registry_axioms] obtain m where m: "NewMainWorkerMetrics names_registry = Some m"
    "pb_Gather names_registry (mwm_registry m) = runtime_names names_registry \<union> mt_fqName ` set (mwm_collectors m)" by blast
  from m(1) have "mt_fqName (mwm_HTTPRequestsTotal m) = ''deltadatabase_main_http_requests_total''"
    by (auto simp: NewMainWorkerMetrics_def Let_def mwm_metrics_def NewMetric_def BuildFQName_def split: option.splits)
  then have "''deltadatabase_main_http_requests_total'' \<in> mt_fqName ` set (mwm_collectors m)" by (simp add: mwm_collectors_def)
  with m show ?thesis by blast
qed

text \<open>
  The labels of the request counter are not bounded: \<open>normalisePath\<close> collapses only the known routes, so n requests
  without any credential to paths outside them make n new labels, whatever the file server answers.
\<close>

theorem http_labels_unbounded:
  "let rs = map stray_request [0..<n]; srv' = fst (serve_all Lib JL ftime env rs srv w) in
     list_all (\<lambda>r. hr_Authorization r = [] \<and> hr_QueryKey r = []) rs \<and>
     (\<exists>L. finite L \<and> card L = n \<and> (\<forall>l. l \<in> L \<longleftrightarrow> http_count srv l < http_count srv' l))"
proof -
  define label where "label = (\<lambda>k. (''GET'', hr_Path (stray_request k), Itoa (ml_static Lib ''GET'' (hr_Path (stray_request k)))))"
  have inj: "inj_on label {0..<n}" by (auto simp: inj_on_def label_def stray_request_def dest: arg_cong [where f = length])
  have "http_count srv l < http_count (fst (serve_all Lib JL ftime env (map stray_request [0..<n]) srv w)) l \<longleftrightarrow> l \<in> label ` {0..<n}" for l
  proof -
    have "http_count (fst (serve_all Lib JL ftime env (map stray_request [0..<n]) srv w)) l = http_count srv l + int (count_list (map label [0..<n]) l)"
      unfolding label_def by (rule stray_counted)
    then show ?thesis using count_list_0_iff [of "map label [0..<n]" l] by auto
  qed
  moreover have "card (label ` {0..<n}) = n" using card_image [OF inj] by simp
  moreover have "list_all (\<lambda>r. hr_Authorization r = [] \<and> hr_QueryKey r = []) (map stray_request [0..<n])"
    by (simp add: list_all_iff stray_request_def)
  ultimately show ?thesis unfolding Let_def by (intro conjI exI [of _ "label ` {0..<n}"]) simp_all
qed

end
