(* ===== verification/Key_Json.thy ===== *)
theory Key_Json
  imports Meta_Json Api_Keys
begin

text \<open>
  The key store as text: \<open>APIKey\<close> of internal/auth/keys.go under its struct tags, as \<open>save\<close> writes the list of keys
  and \<open>load\<close> reads it.  \<open>zone\<close> is the offset of the location of an instant in seconds: an expiry
  time is in the local zone of the process that made the key, a creation time in UTC.
\<close>

section \<open>The codec\<close>

fun decode_strings :: "json list \<Rightarrow> string list \<Rightarrow> string list option" where
  "decode_strings [] old = Some []"
| "decode_strings (v # vs) old =
     (case decode_string v (case old of [] \<Rightarrow> [] | x # _ \<Rightarrow> x) of
        None \<Rightarrow> None
      | Some x \<Rightarrow> map_option ((#) x) (decode_strings vs (tl old)))"

definition decode_permissions :: "json \<Rightarrow> Permission list \<Rightarrow> Permission list option" where
  "decode_permissions v old = (case v of JArr vs \<Rightarrow> decode_strings vs old | JNull \<Rightarrow> Some [] | _ \<Rightarrow> None)"

definition decode_expiry :: "(bytes \<Rightarrow> gotime option) \<Rightarrow> json \<Rightarrow> gotime option \<Rightarrow> gotime option option" where
  "decode_expiry slow v old =
     (case v of JNull \<Rightarrow> Some None | _ \<Rightarrow> map_option Some (decode_time slow v (case old of None \<Rightarrow> 0 | Some t \<Rightarrow> t)))"

definition decode_bool :: "json \<Rightarrow> bool \<Rightarrow> bool option" where
  "decode_bool v old = (case v of JBool b \<Rightarrow> Some b | JNull \<Rightarrow> Some old | _ \<Rightarrow> None)"

text \<open>The lists of the model do not tell a nil slice, which is written as null, from an empty one.\<close>

definition APIKey_json :: "(gotime \<Rightarrow> int) \<Rightarrow> APIKey \<Rightarrow> json option" where
  "APIKey_json zone k =
     (case (case ak_ExpiresAt k of None \<Rightarrow> Some [] | Some t \<Rightarrow> map_option (\<lambda>s. [(''expires_at'', jstr s)]) (format_RFC3339 (zone t) t)) of
        None \<Rightarrow> None
      | Some expires \<Rightarrow>
          map_option (\<lambda>created. JObj
            ([(''id'', jstr (ak_ID k)), (''name'', jstr (ak_Name k)), (''key_hash'', jstr (ak_KeyHash k)),
              (''permissions'', JArr (map jstr (ak_Permissions k)))] @ expires @
             [(''created_at'', jstr created), (''enabled'', JBool (ak_Enabled k))]))
            (format_RFC3339 0 (ak_CreatedAt k)))"

definition APIKey_fields :: "string list" where
  "APIKey_fields = [''id'', ''name'', ''key_hash'', ''permissions'', ''expires_at'', ''created_at'', ''enabled'']"

definition put_APIKey :: "(bytes \<Rightarrow> gotime option) \<Rightarrow> string \<Rightarrow> json \<Rightarrow> APIKey \<Rightarrow> APIKey option" where
  "put_APIKey slow name v k =
     (if name = ''id'' then map_option (\<lambda>x. k\<lparr>ak_ID := x\<rparr>) (decode_string v (ak_ID k))
      else if name = ''name'' then map_option (\<lambda>x. k\<lparr>ak_Name := x\<rparr>) (decode_string v (ak_Name k))
      else if name = ''key_hash'' then map_option (\<lambda>x. k\<lparr>ak_KeyHash := x\<rparr>) (decode_string v (ak_KeyHash k))
      else if name = ''permissions'' then map_option (\<lambda>x. k\<lparr>ak_Permissions := x\<rparr>) (decode_permissions v (ak_Permissions k))
      else if name = ''expires_at'' then map_option (\<lambda>x. k\<lparr>ak_ExpiresAt := x\<rparr>) (decode_expiry slow v (ak_ExpiresAt k))
      else if name = ''created_at'' then map_option (\<lambda>x. k\<lparr>ak_CreatedAt := x\<rparr>) (decode_time slow v (ak_CreatedAt k))
      else if name = ''enabled'' then map_option (\<lambda>x. k\<lparr>ak_Enabled := x\<rparr>) (decode_bool v (ak_Enabled k))
      else None)"

definition new_APIKey :: APIKey where
  "new_APIKey = \<lparr>ak_ID = [], ak_Name = [], ak_KeyHash = [], ak_Permissions = [], ak_ExpiresAt = None, ak_CreatedAt = 0, ak_Enabled = False\<rparr>"

definition keys_Marshal :: "(gotime \<Rightarrow> int) \<Rightarrow> APIKey list \<Rightarrow> bytes option" where
  "keys_Marshal zone ks = map_option (\<lambda>vs. json_text (Some 0) (JArr vs)) (those (map (APIKey_json zone) ks))"

definition decode_key :: "(bytes \<Rightarrow> gotime option) \<Rightarrow> json \<Rightarrow> APIKey option option" where
  "decode_key slow v = (case v of JNull \<Rightarrow> Some None | _ \<Rightarrow> map_option Some (decode_struct APIKey_fields (put_APIKey slow) v new_APIKey))"

definition keys_Unmarshal :: "(bytes \<Rightarrow> gotime option) \<Rightarrow> bytes \<Rightarrow> APIKey option list option" where
  "keys_Unmarshal slow data =
     (case json_parse data of
        Some (JArr vs) \<Rightarrow> those (map (decode_key slow) vs)
      | Some JNull \<Rightarrow> Some []
      | _ \<Rightarrow> None)"

section \<open>The keys that survive\<close>

definition time_ok :: "int \<Rightarrow> gotime \<Rightarrow> bool" where
  "time_ok off t \<longleftrightarrow> \<bar>off\<bar> < 86400 \<and> off mod 60 = 0 \<and> 0 \<le> t + off * second \<and> t + off * second < days_before_year 10000 * (24 * hour)"

definition key_ok :: "(gotime \<Rightarrow> int) \<Rightarrow> APIKey \<Rightarrow> bool" where
  "key_ok zone k \<longleftrightarrow> list_all valid_utf8 [ak_ID k, ak_Name k, ak_KeyHash k] \<and> list_all valid_utf8 (ak_Permissions k) \<and>
     time_ok 0 (ak_CreatedAt k) \<and> (case ak_ExpiresAt k of None \<Rightarrow> True | Some t \<Rightarrow> time_ok (zone t) t)"

text \<open>The text of a good time: it is there, it is read back, and it needs no escapes.\<close>

lemma time_text:
  assumes "time_ok off t"
  obtains s where "format_RFC3339 off t = Some s" "parse_RFC3339 s = Some t" "json_escape s = s" "valid_utf8 s"
proof -
  obtain s where s: "format_RFC3339 off t = Some s" using assms format_defined by (auto simp: time_ok_def)
  from parse_format [OF s] format_plain [OF s] assms s that show thesis by (auto simp: time_ok_def)
qed

lemma decode_strings_back: "decode_strings (map jstr xs) old = Some xs"
  by (induction xs arbitrary: old) simp_all

lemma key_survives:
  assumes "key_ok zone k"
  obtains v where "APIKey_json zone k = Some v" "json_ok 9999 v" "decode_key slow v = Some (Some k)"
proof -
  have "time_ok 0 (ak_CreatedAt k)" using assms by (simp add: key_ok_def)
  then obtain c where c: "format_RFC3339 0 (ak_CreatedAt k) = Some c" "parse_RFC3339 c = Some (ak_CreatedAt k)" "json_escape c = c" "valid_utf8 c"
    by (rule time_text)
  have names: "list_all valid_utf8 APIKey_fields"
    unfolding APIKey_fields_def list_all_iff by (auto intro!: valid_utf8_all_ascii)
  note dec = decode_key_def decode_struct_def APIKey_fields_def put_APIKey_def new_APIKey_def decode_permissions_def decode_time_def decode_expiry_def
    decode_bool_def decode_strings_back
  define ex where "ex = (case ak_ExpiresAt k of None \<Rightarrow> [] | Some t \<Rightarrow> [(''expires_at'', jstr (the (format_RFC3339 (zone t) t)))])"
  let ?v = "JObj ([(''id'', jstr (ak_ID k)), (''name'', jstr (ak_Name k)), (''key_hash'', jstr (ak_KeyHash k)),
      (''permissions'', JArr (map jstr (ak_Permissions k)))] @ ex @ [(''created_at'', jstr c), (''enabled'', JBool (ak_Enabled k))])"
  have "APIKey_json zone k = Some ?v \<and> json_ok 9999 ?v \<and> decode_key slow ?v = Some (Some k)"
  proof (cases "ak_ExpiresAt k")
    case None
    have "json_ok 9999 ?v" using c assms names None by (auto simp: ex_def key_ok_def APIKey_fields_def list_all_iff)
    moreover have "APIKey_json zone k = Some ?v" using None c by (simp add: ex_def APIKey_json_def)
    moreover have "decode_key slow ?v = Some (Some k)" using None c by (cases k) (simp add: ex_def dec)
    ultimately show ?thesis by blast
  next
    case (Some t)
    with assms have "time_ok (zone t) t" by (simp add: key_ok_def)
    then obtain x where x: "format_RFC3339 (zone t) t = Some x" "parse_RFC3339 x = Some t" "json_escape x = x" "valid_utf8 x" by (rule time_text)
    have "json_ok 9999 ?v" using c x assms names Some by (auto simp: ex_def key_ok_def APIKey_fields_def list_all_iff)
    moreover have "APIKey_json zone k = Some ?v" using Some c x by (simp add: ex_def APIKey_json_def)
    moreover have "decode_key slow ?v = Some (Some k)" using Some c x by (cases k) (simp add: ex_def dec)
    ultimately show ?thesis by blast
  qed
  with that show thesis by blast
qed

lemma those_Some: "those (map f xs) = Some ys \<longleftrightarrow> list_all2 (\<lambda>x y. f x = Some y) xs ys"
  by (induction xs arbitrary: ys) (auto simp: list_all2_Cons1 split: option.splits)

lemma keys_survive:
  assumes "list_all (key_ok zone) ks"
  shows "\<exists>data. keys_Marshal zone ks = Some data \<and> keys_Unmarshal slow data = Some (map Some ks)"
proof -
  obtain vs where vs: "list_all2 (\<lambda>k v. APIKey_json zone k = Some v \<and> json_ok 9999 v \<and> decode_key slow v = Some (Some k)) ks vs"
  proof -
    have "\<exists>vs. list_all2 (\<lambda>k v. APIKey_json zone k = Some v \<and> json_ok 9999 v \<and> decode_key slow v = Some (Some k)) ks vs"
      using assms by (induction ks) (auto simp: list_all2_Cons1 elim!: key_survives [where slow = slow])
    with that show thesis by blast
  qed
  then have enc: "those (map (APIKey_json zone) ks) = Some vs" by (auto simp: those_Some elim: list_all2_mono)
  have "json_ok 10000 (JArr vs)" using vs by (induction rule: list_all2_induct) auto
  moreover have "those (map (decode_key slow) vs) = Some (map Some ks)"
    using vs by (auto simp: those_Some list.rel_map list_all2_conv_all_nth)
  ultimately show ?thesis by (simp add: keys_Marshal_def keys_Unmarshal_def enc json_parse_text del: json_text.simps json_ok.simps)
qed

section \<open>Properties\<close>

text \<open>
  C37. The key store survives a restart as the text that the code writes: take a manager whose keys have
  valid UTF-8 strings, times in the years 1 to 9999, and expiry times in any zones with offsets of
  whole minutes.  After a save without I/O failure, a manager opened on the same path holds exactly
  the same records and index, whatever order the records were visited in.
\<close>

theorem key_file_roundtrip:
  assumes "key_inv km" and "km_storePath km \<noteq> []" and "iteration_order km order" and "list_all (key_ok zone) order"
    and "mkdir_ok io" "write_ok io" "rename_ok io"
  shows "NewKeyManager (keys_Unmarshal slow) (\<lambda>_. save (keys_Marshal zone) io order km file) (km_storePath km) = Inr km"
  using keys_survive [OF assms(4), of slow] assms(2,5-7) iteration_order_maps [OF assms(1,3)]
  by (auto simp: NewKeyManager_def save_def load_def Let_def load_keys_map)

theorem key_file_roundtrip_witness:
  "\<exists>km k. km_keys km ''h'' = Some k \<and> ak_ExpiresAt k = Some 1000 \<and> \<not> ak_Enabled k \<and>
     NewKeyManager (keys_Unmarshal (\<lambda>_. None))
       (\<lambda>_. save (keys_Marshal (\<lambda>_. 7200)) \<lparr>mkdir_ok = True, write_ok = True, rename_ok = True\<rparr> [k] km ReadNotExist) ''keys.json'' = Inr km"
proof -
  let ?k = "\<lparr>ak_ID = ''i'', ak_Name = ''n'', ak_KeyHash = ''h'', ak_Permissions = [PermRead],
     ak_ExpiresAt = Some 1000, ak_CreatedAt = 1, ak_Enabled = False\<rparr>"
  let ?km = "\<lparr>km_keys = [''h'' \<mapsto> ?k], km_idIndex = [''i'' \<mapsto> ''h''], km_storePath = ''keys.json''\<rparr>"
  let ?io = "\<lparr>mkdir_ok = True, write_ok = True, rename_ok = True\<rparr>"
  have inv: "key_inv ?km" and ord: "iteration_order ?km [?k]" by (simp_all add: key_inv_def iteration_order_def)
  have "time_ok 0 1" "time_ok 7200 1000" by code_simp+
  then have "list_all (key_ok (\<lambda>_. 7200)) [?k]" by (simp add: key_ok_def valid_utf8_all_ascii)
  from key_file_roundtrip [OF inv _ ord this, of ?io "\<lambda>_. None" ReadNotExist] show ?thesis
    by (intro exI [of _ ?km] exI [of _ ?k]) simp
qed

end
