(* ===== verification/Json_Prefix.thy ===== *)
theory Json_Prefix
  imports Json_Values "HOL-Library.Sublist"
begin

text \<open>
  What the JSON parser has read does not depend on what comes after it: a value that ends before the end of the text, or
  with a bracket, is read in the same way when the text continues.  So no part of the text of an object is itself
  the text of an object.
\<close>

section \<open>Strings\<close>

lemma skip_ws_more: "skip_ws s = c # t \<Longrightarrow> skip_ws (s @ x) = c # t @ x"
  unfolding skip_ws_def by (induction s) (auto split: if_splits)

lemma getu4_no_quote: "getu4 s = Some y \<Longrightarrow> 4 \<le> length s \<and> quote \<notin> set (take 4 s)"
proof -
  have q: "hex_value quote = None" by (simp add: hex_value_def)
  show "getu4 s = Some y \<Longrightarrow> ?thesis" by (cases s rule: getu4.cases) (auto simp: q split: option.splits)
qed

lemma getu4_more:
  assumes "quote \<in> set s \<or> getu4 s \<noteq> None"
  shows "getu4 (s @ x) = map_option (\<lambda>(r, t). (r, t @ x)) (getu4 s)"
proof (cases "4 \<le> length s")
  case True
  then obtain a b c d u where "s = a # b # c # d # u"
    by (metis (no_types, opaque_lifting) length_Cons Suc_le_length_iff numeral_eq_Suc pred_numeral_simps(2,3) semiring_norm(26,27) eval_nat_numeral(3) One_nat_def)
  then show ?thesis by (simp split: option.splits)
next
  case False
  then have "getu4 s = None" by (cases "getu4 s") (auto dest: getu4_no_quote)
  moreover from this assms have "quote \<in> set (take 4 (s @ x))" using False by simp
  then have "getu4 (s @ x) = None" using getu4_no_quote [of "s @ x"] by (cases "getu4 (s @ x)") auto
  ultimately show ?thesis by simp
qed

lemma second_escape_more:
  assumes "quote \<in> set s \<or> second_escape s \<noteq> None"
  shows "second_escape (s @ x) = map_option (\<lambda>(r, t). (r, t @ x)) (second_escape s)"
proof (cases s)
  case (Cons a s')
  show ?thesis
  proof (cases s')
    case Nil
    with assms Cons show ?thesis by (cases x) (auto split: if_splits)
  next
    case (Cons b u)
    with assms \<open>s = a # s'\<close> getu4_more [of u x] show ?thesis by (auto split: if_splits)
  qed
qed (use assms in simp)

lemma unescape_u_more:
  assumes "unescape_u s = Some (b, t)" and "quote \<in> set t"
  shows "unescape_u (s @ x) = Some (b, t @ x)"
proof -
  from assms(1) obtain r u where g: "getu4 s = Some (r, u)" by (auto simp: unescape_u_def split: option.splits)
  have g': "getu4 (s @ x) = Some (r, u @ x)" using getu4_more [of s x] g by simp
  show ?thesis
  proof (cases "second_escape u")
    case None
    with assms g have "\<not> surrogate r \<and> t = u \<and> b = utf8_encode r \<or> surrogate r \<and> t = u \<and> b = rune_error"
      by (auto simp: unescape_u_def split: if_splits)
    with None g' second_escape_more [of u x] assms(2) show ?thesis by (auto simp: unescape_u_def)
  next
    case (Some y)
    obtain r2 v where y: "y = (r2, v)" by (cases y)
    with Some second_escape_more [of u x] have "second_escape (u @ x) = Some (r2, v @ x)" by simp
    with Some y g g' assms(1) show ?thesis by (auto simp: unescape_u_def split: if_splits option.splits)
  qed
qed

lemma utf8_len_more:
  assumes "utf8_len (c # s) = 0" and "quote \<in> set s"
  shows "utf8_len (c # s @ x) = 0"
proof -
  obtain n lo hi where a: "utf8_accept (code c) = (n, lo, hi)" by (metis prod_cases3)
  have lo: "n \<le> 1 \<or> 128 \<le> lo" "n \<le> 4" using a by (auto simp: utf8_accept_def split: if_splits)
  obtain b u where s: "s = b # u" using assms(2) by (cases s) auto
  consider "n \<le> 1" | "\<not> n \<le> 1" "n - 1 \<le> length s" | "\<not> n \<le> 1" "\<not> n - 1 \<le> length s" by blast
  then show ?thesis
  proof cases
    case 1
    with a assms(1) show ?thesis by simp
  next
    case 2
    with a assms(1) s show ?thesis by (auto split: if_splits)
  next
    case 3
    then have sub: "set u \<subseteq> set (take (n - 2) (u @ x))" using s by auto
    have "\<not> utf8_cont quote" "code quote < 128" by (simp_all add: utf8_cont_def)
    with assms(2) s sub lo 3(1) have "code b < lo \<or> \<not> list_all utf8_cont (take (n - 2) (u @ x))"
      by (auto simp: list_all_iff simp del: of_char_of)
    with a s 3(1) show ?thesis by auto
  qed
qed

lemma unescape_one_more:
  assumes "unescape_one s = Some (b, t)" and "quote \<in> set t"
  shows "unescape_one (s @ x) = Some (b, t @ x)"
proof (cases s)
  case (Cons c u)
  show ?thesis
  proof (cases "c = backslash")
    case True
    with assms Cons obtain e v where u: "u = e # v" by (cases u) (auto simp: unescape_one.simps)
    with assms Cons True unescape_u_more [of v b t x] show ?thesis
      by (auto simp: unescape_one.simps split: if_splits option.splits)
  next
    case False
    show ?thesis
    proof (cases "utf8_len (c # u) = 0")
      case True
      with assms Cons False have "utf8_len (c # u @ x) = 0 \<or> code c < 128"
        using utf8_len_more [of c u x] by (auto simp: unescape_one.simps simp del: utf8_len.simps split: if_splits)
      with assms Cons False True show ?thesis by (auto simp: unescape_one.simps simp del: utf8_len.simps split: if_splits)
    next
      case l: False
      define n where "n = utf8_len (c # u)"
      have n: "utf8_len (c # u @ x) = n" "n \<noteq> 0" using utf8_len_append [of "c # u" x] l by (simp_all add: n_def del: utf8_len.simps)
      have "take n ((c # u) @ x) = take n (c # u)" "drop n ((c # u) @ x) = drop n (c # u) @ x"
        using utf8_len_le [of "c # u"] unfolding n_def take_append drop_append by (simp_all del: utf8_len.simps)
      with n assms Cons False n_def show ?thesis by (auto simp: unescape_one.simps simp del: utf8_len.simps split: if_splits)
    qed
  qed
qed (use assms in \<open>simp add: unescape_one.simps\<close>)

lemma getu4_suffix: "getu4 s = Some (r, t) \<Longrightarrow> suffix t s"
  by (cases s rule: getu4.cases) (auto simp: suffix_def split: option.splits)

lemma second_escape_suffix: "second_escape s = Some (r, t) \<Longrightarrow> suffix t s"
  by (cases s rule: second_escape.cases) (auto simp: suffix_Cons split: if_splits dest: getu4_suffix)

lemma unescape_one_suffix: "unescape_one s = Some (b, t) \<Longrightarrow> suffix t s"
proof (cases s)
  case (Cons c u)
  have "suffix t v" if "unescape_u v = Some (b, t)" for v
    using that by (auto simp: unescape_u_def split: if_splits option.splits dest!: getu4_suffix second_escape_suffix intro: suffix_order.trans)
  then show "unescape_one s = Some (b, t) \<Longrightarrow> ?thesis"
    using Cons by (auto simp: unescape_one.simps suffix_drop suffix_Cons simp del: utf8_len.simps drop.simps split: if_splits list.splits option.splits)
      (metis drop_Cons' suffix_Cons suffix_drop)
qed (simp add: unescape_one.simps)

lemma unquote_has_quote: "json_unquote s = Some (d, u) \<Longrightarrow> quote \<in> set s"
proof (induction s arbitrary: d u rule: json_unquote.induct)
  case (1 s)
  show ?case
  proof (cases s)
    case (Cons c s')
    show ?thesis
    proof (cases "c = quote")
      case False
      with "1.prems" Cons obtain b t d' where "unescape_one s = Some (b, t)" "json_unquote t = Some (d', u)"
        by (subst (asm) json_unquote.simps) (auto split: option.splits)
      with "1.IH" [OF Cons False] have "quote \<in> set t" by fastforce
      moreover have "set t \<subseteq> set s" using \<open>unescape_one s = Some (b, t)\<close> by (intro set_mono_suffix unescape_one_suffix)
      ultimately show ?thesis by blast
    qed (use Cons in simp)
  qed (use "1.prems" in \<open>simp add: json_unquote.simps\<close>)
qed

lemma json_unquote_more: "json_unquote s = Some (d, u) \<Longrightarrow> json_unquote (s @ x) = Some (d, u @ x)"
proof (induction s arbitrary: d u rule: json_unquote.induct)
  case (1 s)
  show ?case
  proof (cases s)
    case (Cons c s')
    show ?thesis
    proof (cases "c = quote")
      case False
      with "1.prems" Cons obtain b t d' where t: "unescape_one s = Some (b, t)" "json_unquote t = Some (d', u)" "d = b @ d'"
        by (subst (asm) json_unquote.simps) (auto split: option.splits)
      have "unescape_one (s @ x) = Some (b, t @ x)" by (rule unescape_one_more [OF t(1) unquote_has_quote [OF t(2)]])
      moreover have "json_unquote (t @ x) = Some (d', u @ x)" using "1.IH" [OF Cons False t(1)] t(2) by simp
      ultimately show ?thesis using Cons False t(3) json_unquote_step [of c "s' @ x" b "t @ x"] by simp
    qed (use "1.prems" Cons in simp)
  qed (use "1.prems" in \<open>simp add: json_unquote.simps\<close>)
qed

section \<open>Numbers and literals\<close>

lemma scan_digits_more:
  assumes "scan_digits s = Some (ds, r)" and "r \<noteq> []"
  shows "scan_digits (s @ x) = Some (ds, r @ x)"
proof -
  have "\<exists>c \<in> set s. \<not> is_digit c" using assms by (auto simp: scan_digits_def Let_def dropWhile_eq_Nil_conv split: if_splits)
  then show ?thesis using assms(1) by (auto simp: scan_digits_def Let_def takeWhile_append dropWhile_append split: if_splits)
qed

lemma scan_number_more:
  assumes n: "scan_number s = Some (t, r)" and r: "r \<noteq> []"
  shows "scan_number (s @ x) = Some (t, r @ x)"
proof -
  obtain sg s1 where sg: "(case s of [] \<Rightarrow> ([], s) | c # t \<Rightarrow> if c = CHR ''-'' then ([c], t) else ([], s)) = (sg, s1)" by fastforce
  from n obtain i s2 f s3 e where parts: "scan_integer s1 = Some (i, s2)" "scan_fraction s2 = Some (f, s3)" "scan_exponent s3 = Some (e, r)" "t = sg @ i @ f @ e"
    by (auto simp: scan_number_def sg split: option.splits)
  have ne: "s3 \<noteq> []" using parts(3) r by (auto simp: scan_exponent_def)
  then have ne2: "s2 \<noteq> []" using parts(2) by (auto simp: scan_fraction_def)
  then have ne1: "s1 \<noteq> []" using parts(1) by (auto simp: scan_integer_def)
  have 0: "(case s @ x of [] \<Rightarrow> ([], s @ x) | c # t \<Rightarrow> if c = CHR ''-'' then ([c], t) else ([], s @ x)) = (sg, s1 @ x)"
    using sg ne1 by (auto split: list.splits if_splits)
  have 1: "scan_integer (s1 @ x) = Some (i, s2 @ x)"
    using parts(1) ne1 ne2 scan_digits_more [of s1 i s2 x] by (cases s1) (auto simp: scan_integer_def split: if_splits)
  have 2: "scan_fraction (s2 @ x) = Some (f, s3 @ x)"
    using parts(2) ne ne2 by (cases s2) (auto simp: scan_fraction_def dest: scan_digits_more split: if_splits)
  have 3: "scan_exponent (s3 @ x) = Some (e, r @ x)"
    using parts(3) ne r by (cases s3) (auto simp: scan_exponent_def dest: scan_digits_more split: list.splits if_splits)
  show ?thesis by (simp add: scan_number_def 0 1 2 3 parts(4))
qed

lemma scan_literal_more:
  assumes "scan_literal s = Some (v, r)" and "r \<noteq> []"
  shows "scan_literal (s @ x) = Some (v, r @ x)"
proof -
  have p: "HasPrefix (s @ x) w \<and> drop (length w) (s @ x) = drop (length w) s @ x" if "HasPrefix s w" for w
    using that by (auto simp: HasPrefix_iff prefix_def)
  have hd: "hd s = hd w" if "HasPrefix s w" "w \<noteq> []" for w using that by (cases w) (auto simp: HasPrefix_iff prefix_def)
  have no: "\<not> HasPrefix (s @ x) w" if "s \<noteq> []" "w \<noteq> []" "hd s \<noteq> hd w" for w
    using that by (cases s; cases w) (auto simp: HasPrefix_iff)
  have ne: "s \<noteq> []" using assms(1) by (auto simp: scan_literal_def HasPrefix_def scan_number_def scan_integer_def split: if_splits)
  consider "HasPrefix s ''true''" | "\<not> HasPrefix s ''true''" "HasPrefix s ''false''" | "\<not> HasPrefix s ''true''" "\<not> HasPrefix s ''false''" "HasPrefix s ''null''"
    | t where "scan_number s = Some (t, r)" "v = JNum t" using assms(1) by (auto simp: scan_literal_def split: if_splits)
  then show ?thesis
  proof cases
    case 1
    then show ?thesis using p [of "''true''"] assms(1) by (simp add: scan_literal_def eval_nat_numeral)
  next
    case 2
    then show ?thesis using p [of "''false''"] hd [of "''false''"] no [OF ne, of "''true''"] assms(1) by (simp add: scan_literal_def eval_nat_numeral)
  next
    case 3
    then show ?thesis
      using p [of "''null''"] hd [of "''null''"] no [OF ne, of "''true''"] no [OF ne, of "''false''"] assms(1) by (simp add: scan_literal_def eval_nat_numeral)
  next
    case 4
    then have "hd s \<noteq> CHR ''t''" "hd s \<noteq> CHR ''f''" "hd s \<noteq> CHR ''n''" using number_head [OF 4(1)] by (auto simp: is_digit_def)
    with no [OF ne, of "''true''"] no [OF ne, of "''false''"] no [OF ne, of "''null''"] scan_number_more [OF 4(1) assms(2)] 4(2)
    show ?thesis by (simp add: scan_literal_def)
  qed
qed

section \<open>Values\<close>

fun bracketed :: "json \<Rightarrow> bool" where
  "bracketed (JArr vs) = True"
| "bracketed (JObj ms) = True"
| "bracketed _ = False"

lemma parse_more:
  "parse_value n d s = Some (v, r) \<Longrightarrow> r \<noteq> [] \<or> bracketed v \<Longrightarrow> parse_value n d (s @ x) = Some (v, r @ x)"
  "parse_members n d s = Some (ms, r) \<Longrightarrow> parse_members n d (s @ x) = Some (ms, r @ x)"
  "parse_elements n d s = Some (vs, r) \<Longrightarrow> parse_elements n d (s @ x) = Some (vs, r @ x)"
proof (induction n arbitrary: d s v r ms vs)
  case (Suc n)
  {
    case 1
    then obtain c t where c: "skip_ws s = c # t" by (auto split: list.splits)
    note c' = skip_ws_more [OF c, of x]
    show ?case
    proof (cases "c = quote \<or> c = CHR ''{'' \<or> c = CHR ''[''")
      case True
      then consider "c = quote" | "c = CHR ''{''" | "c = CHR ''[''" by blast
      then show ?thesis
      proof cases
        case a: 1
        with 1 c obtain y u where u: "json_unquote t = Some (y, u)" "v = JStr (take (length t - length u - 1) t) y" "r = u" by (auto split: option.splits)
        have "take (length (t @ x) - length (u @ x) - 1) (t @ x) = take (length t - length u - 1) t" by simp
        with a u c' json_unquote_more [OF u(1), of x] show ?thesis by simp
      next
        case a: 2
        with 1 c obtain y u where y: "d \<noteq> 0" "skip_ws t = y # u" by (auto split: if_splits list.splits)
        note y' = skip_ws_more [OF y(2), of x]
        show ?thesis using 1 a c c' y y' Suc.IH(2) [of "d - 1" t] by (auto split: if_splits option.splits)
      next
        case a: 3
        with 1 c obtain y u where y: "d \<noteq> 0" "skip_ws t = y # u" by (auto split: if_splits list.splits)
        note y' = skip_ws_more [OF y(2), of x]
        show ?thesis using 1 a c c' y y' Suc.IH(3) [of "d - 1" t] by (auto split: if_splits option.splits)
      qed
    next
      case False
      with 1 c have l: "scan_literal (c # t) = Some (v, r)" by simp
      then have "\<not> bracketed v" by (auto simp: scan_literal_def split: if_splits)
      with 1(2) scan_literal_more [OF l, of x] False c' show ?thesis by simp
    qed
  next
    case 2
    then obtain c t k u y w v z l q where c: "skip_ws s = c # t" "c = quote" "json_unquote t = Some (k, u)" "skip_ws u = y # w" "y = CHR '':''"
      "parse_value n d w = Some (v, l)" "skip_ws l = z # q"
      by (auto split: list.splits option.splits if_splits)
    have "l \<noteq> []" using c(7) by (auto simp: skip_ws_def)
    then have pv: "parse_value n d (w @ x) = Some (v, l @ x)" using Suc.IH(1) [OF c(6)] by simp
    note m = skip_ws_more [OF c(1), of x] json_unquote_more [OF c(3), of x] skip_ws_more [OF c(4), of x] skip_ws_more [OF c(7), of x]
    show ?case using 2 c m pv Suc.IH(2) [of d q] by (auto split: if_splits option.splits)
  next
    case 3
    then obtain v l z q where v: "parse_value n d s = Some (v, l)" "skip_ws l = z # q" by (auto split: list.splits option.splits if_splits)
    have "l \<noteq> []" using v(2) by (auto simp: skip_ws_def)
    then have "parse_value n d (s @ x) = Some (v, l @ x)" using Suc.IH(1) [OF v(1)] by simp
    with 3 v skip_ws_more [OF v(2), of x] Suc.IH(3) [of d q] show ?case by (auto split: if_splits option.splits)
  }
qed simp_all

section \<open>The bytes of a value alone\<close>

text \<open>What was read does not depend on what follows it, in the other direction: the text after the value may be removed.\<close>

lemma suffix_of_append: "suffix (t @ x) v \<Longrightarrow> suffix v (s @ x) \<Longrightarrow> \<exists>v'. v = v' @ x"
  by (auto simp: suffix_def)

lemma getu4_less: "getu4 (s @ x) = Some (r, t @ x) \<Longrightarrow> getu4 s = Some (r, t)"
proof -
  assume g: "getu4 (s @ x) = Some (r, t @ x)"
  then have "length (s @ x) = length (t @ x) + 4" by (cases "s @ x" rule: getu4.cases) (auto split: option.splits)
  then have "4 \<le> length s" by simp
  then obtain a b c d u where "s = a # b # c # d # u"
    by (metis (no_types, opaque_lifting) length_Cons Suc_le_length_iff numeral_eq_Suc pred_numeral_simps(2,3) semiring_norm(26,27) eval_nat_numeral(3) One_nat_def)
  with g show ?thesis by (simp split: option.splits)
qed

lemma second_escape_less: "second_escape (s @ x) = Some (r, t @ x) \<Longrightarrow> second_escape s = Some (r, t)"
proof -
  assume g: "second_escape (s @ x) = Some (r, t @ x)"
  then have "length (s @ x) > length (t @ x) + 1" by (cases "s @ x" rule: second_escape.cases) (auto split: if_splits dest: getu4_shorter)
  then obtain a b u where "s = a # b # u" by (cases s; cases "tl s") auto
  with g show ?thesis by (auto split: if_splits intro: getu4_less)
qed

lemma unescape_u_less:
  assumes u: "unescape_u (s @ x) = Some (b, t @ x)"
  shows "unescape_u s = Some (b, t)"
proof -
  from u obtain r v where g: "getu4 (s @ x) = Some (r, v)" by (auto simp: unescape_u_def split: option.splits)
  have "suffix (t @ x) v" using u g by (auto simp: unescape_u_def split: if_splits option.splits dest: second_escape_suffix)
  then obtain v' where v: "v = v' @ x" using suffix_of_append [OF _ getu4_suffix [OF g]] by blast
  have g': "getu4 s = Some (r, v')" using getu4_less [of s x r v'] g v by simp
  show ?thesis
  proof (cases "second_escape v'")
    case None
    have "utf16_pair r r2 = None" if "second_escape (v' @ x) = Some (r2, w)" "surrogate r" for r2 w
    proof (rule ccontr)
      assume "utf16_pair r r2 \<noteq> None"
      with that u g v have "w = t @ x" by (auto simp: unescape_u_def)
      with that second_escape_less [of v' x r2 t] None show False by simp
    qed
    with u g v g' None show ?thesis by (auto simp: unescape_u_def split: if_splits option.splits)
  next
    case (Some y)
    obtain r2 w where y: "y = (r2, w)" by (cases y)
    with Some second_escape_more [of v' x] have "second_escape (v' @ x) = Some (r2, w @ x)" by simp
    with Some y u g v g' show ?thesis by (auto simp: unescape_u_def split: if_splits option.splits)
  qed
qed

lemma unescape_one_less:
  assumes u: "unescape_one (s @ x) = Some (b, t @ x)"
  shows "unescape_one s = Some (b, t)"
proof -
  have len: "length t < length s" using unescape_one_shorter [OF u] by simp
  then obtain c s' where s: "s = c # s'" by (cases s) auto
  show ?thesis
  proof (cases "c = backslash")
    case True
    show ?thesis
    proof (cases s')
      case Nil
      with s len have "t = []" by simp
      with u s Nil True show ?thesis
        by (auto simp: unescape_one.simps unescape_u_def split: list.splits if_splits option.splits dest!: getu4_shorter second_escape_shorter)
    next
      case (Cons e v)
      with u s True unescape_u_less [of v x b t] show ?thesis by (auto simp: unescape_one.simps split: if_splits option.splits)
    qed
  next
    case False
    define n where "n = utf8_len (c # s' @ x)"
    show ?thesis
    proof (cases "code c < 128")
      case True
      with u s False show ?thesis by (auto simp: unescape_one.simps simp del: utf8_len.simps split: if_splits)
    next
      case c: False
      show ?thesis
      proof (cases "utf8_len s = 0")
        case True
        have "n = 0"
        proof (rule ccontr)
          assume n: "n \<noteq> 0"
          with u s False c n_def have t: "t @ x = drop n (s @ x)" by (simp add: unescape_one.simps del: utf8_len.simps drop.simps split: if_splits)
          have "n \<le> length (s @ x)" using utf8_len_le [of "s @ x"] by (simp add: n_def s del: utf8_len.simps)
          with arg_cong [OF t, of length] have "n \<le> length s" by simp
          then have "take n (s @ x) = take n s" by simp
          with utf8_len_first [of "s @ x"] n n_def s have "utf8_len (take n s) \<noteq> 0" by (simp del: utf8_len.simps take.simps)
          with utf8_len_append [of "take n s" "drop n s"] True show False by (simp del: utf8_len.simps)
        qed
        with u s False c True n_def show ?thesis by (simp add: unescape_one.simps del: utf8_len.simps split: if_splits)
      next
        case l: False
        have n: "n = utf8_len s" using utf8_len_append [OF l, of x] by (simp add: n_def s del: utf8_len.simps)
        have "take n (s @ x) = take n s" "drop n (s @ x) = drop n s @ x" using utf8_len_le [of s] by (simp_all add: n del: utf8_len.simps)
        with u s False c l n n_def show ?thesis by (simp add: unescape_one.simps del: utf8_len.simps drop.simps take.simps split: if_splits)
      qed
    qed
  qed
qed

lemma json_unquote_suffix: "json_unquote s = Some (d, u) \<Longrightarrow> suffix u s"
proof (induction s arbitrary: d u rule: json_unquote.induct)
  case (1 s)
  show ?case
  proof (cases s)
    case (Cons c s')
    show ?thesis
    proof (cases "c = quote")
      case False
      with "1.prems" Cons obtain b t d' where t: "unescape_one s = Some (b, t)" "json_unquote t = Some (d', u)"
        by (subst (asm) json_unquote.simps) (auto split: option.splits)
      with "1.IH" [OF Cons False] have "suffix u t" by fastforce
      from suffix_order.trans [OF this unescape_one_suffix [OF t(1)]] show ?thesis .
    qed (use "1.prems" Cons in \<open>simp add: suffix_Cons\<close>)
  qed (use "1.prems" in \<open>simp add: json_unquote.simps\<close>)
qed

lemma json_unquote_less: "json_unquote (s @ x) = Some (d, u @ x) \<Longrightarrow> json_unquote s = Some (d, u)"
proof (induction s arbitrary: d rule: length_induct)
  case (1 s)
  obtain c s' where s: "s = c # s'" using json_unquote_shorter [OF "1.prems"] by (cases s) auto
  show ?case
  proof (cases "c = quote")
    case False
    with "1.prems" s obtain b v d' where v: "unescape_one (s @ x) = Some (b, v)" "json_unquote v = Some (d', u @ x)" "d = b @ d'"
      by (subst (asm) json_unquote.simps) (auto split: option.splits)
    obtain t where t: "v = t @ x" using suffix_of_append [OF json_unquote_suffix [OF v(2)] unescape_one_suffix [OF v(1)]] by blast
    have one: "unescape_one s = Some (b, t)" using unescape_one_less [of s x b t] v(1) t by simp
    have "json_unquote t = Some (d', u)" using "1.IH" unescape_one_shorter [OF one] v(2) t by simp
    with one s False v(3) json_unquote_step [of c s' b t] show ?thesis by simp
  qed (use "1.prems" s in simp)
qed

lemma scan_digits_suffix: "scan_digits s = Some (ds, r) \<Longrightarrow> suffix r s"
  by (auto simp: scan_digits_def Let_def suffix_dropWhile split: if_splits)

lemma scan_digits_less: "scan_digits (s @ x) = Some (ds, r @ x) \<Longrightarrow> scan_digits s = Some (ds, r)"
proof (cases "\<exists>c \<in> set s. \<not> is_digit c")
  case True
  then show "scan_digits (s @ x) = Some (ds, r @ x) \<Longrightarrow> ?thesis"
    by (auto simp: scan_digits_def Let_def takeWhile_append dropWhile_append split: if_splits)
next
  case False
  assume g: "scan_digits (s @ x) = Some (ds, r @ x)"
  with False have d: "dropWhile is_digit x = r @ x" "ds = s @ takeWhile is_digit x" "ds \<noteq> []"
    by (auto simp: scan_digits_def Let_def takeWhile_append dropWhile_append split: if_splits)
  have "length (r @ x) \<le> length x" using length_dropWhile_le [of is_digit x] by (simp only: d(1))
  then have "r = []" by simp
  with d have "takeWhile is_digit x = []" by (metis append_Nil append_self_conv2 takeWhile_dropWhile_id)
  moreover have "takeWhile is_digit s = s" "dropWhile is_digit s = []" using False by simp_all
  ultimately show ?thesis using d \<open>r = []\<close> unfolding scan_digits_def Let_def by (simp del: takeWhile_eq_Nil_iff takeWhile_eq_all_conv)
qed

lemma scan_integer_suffix: "scan_integer s = Some (i, r) \<Longrightarrow> suffix r s \<and> length r < length s"
  by (cases s) (auto simp: scan_integer_def suffix_Cons dest: scan_digits_suffix scan_digits_shorter split: if_splits)

lemma scan_fraction_suffix: "scan_fraction s = Some (f, r) \<Longrightarrow> suffix r s \<and> (f = [] \<and> r = s \<or> length r < length s)"
  by (cases s) (auto simp: scan_fraction_def suffix_Cons dest: scan_digits_suffix scan_digits_shorter split: if_splits)

lemma scan_exponent_suffix: "scan_exponent s = Some (e, r) \<Longrightarrow> suffix r s \<and> (e = [] \<and> r = s \<or> Suc (length r) < length s)"
  by (auto simp: scan_exponent_def suffix_Cons dest: scan_digits_suffix scan_digits_shorter split: if_splits list.splits)

lemma scan_integer_less: "scan_integer (s @ x) = Some (i, r @ x) \<Longrightarrow> scan_integer s = Some (i, r)"
proof -
  assume g: "scan_integer (s @ x) = Some (i, r @ x)"
  then obtain c s' where s: "s = c # s'" using scan_integer_suffix [OF g] by (cases s) auto
  with g scan_digits_less [of s x i r] show ?thesis by (auto simp: scan_integer_def split: if_splits)
qed

lemma scan_fraction_less: "scan_fraction (s @ x) = Some (f, r @ x) \<Longrightarrow> scan_fraction s = Some (f, r)"
proof (cases s)
  case Nil
  assume "scan_fraction (s @ x) = Some (f, r @ x)"
  from scan_fraction_suffix [OF this] Nil show ?thesis by (simp add: scan_fraction_def)
next
  case (Cons c s')
  then show "scan_fraction (s @ x) = Some (f, r @ x) \<Longrightarrow> ?thesis"
    by (auto simp: scan_fraction_def intro: scan_digits_less split: if_splits)
qed

lemma scan_exponent_less: "scan_exponent (s @ x) = Some (e, r @ x) \<Longrightarrow> scan_exponent s = Some (e, r)"
proof -
  assume g: "scan_exponent (s @ x) = Some (e, r @ x)"
  note l = scan_exponent_suffix [OF g]
  consider "s = []" | c where "s = [c]" | c y u where "s = c # y # u" by (metis list.exhaust)
  then show ?thesis
  proof cases
    case 1
    with l show ?thesis by (auto simp: scan_exponent_def)
  next
    case 2
    with l have "e = [] \<and> r = [c]" by auto
    with g 2 show ?thesis by (auto simp: scan_exponent_def split: if_splits list.splits)
  next
    case 3
    with g scan_digits_less [of u x _ r] scan_digits_less [of "y # u" x _ r] show ?thesis
      by (auto simp: scan_exponent_def split: if_splits)
  qed
qed

lemma scan_number_suffix: "scan_number s = Some (t, r) \<Longrightarrow> suffix r s"
proof -
  assume n: "scan_number s = Some (t, r)"
  obtain sg s1 where sg: "(case s of [] \<Rightarrow> ([], s) | c # t \<Rightarrow> if c = CHR ''-'' then ([c], t) else ([], s)) = (sg, s1)" by fastforce
  then have s1: "suffix s1 s" by (auto simp: suffix_Cons split: list.splits if_splits)
  from n obtain i s2 f s3 e where "scan_integer s1 = Some (i, s2)" "scan_fraction s2 = Some (f, s3)" "scan_exponent s3 = Some (e, r)"
    by (auto simp: scan_number_def sg split: option.splits)
  then have "suffix s2 s1" "suffix s3 s2" "suffix r s3" using scan_integer_suffix scan_fraction_suffix scan_exponent_suffix by blast+
  with s1 show ?thesis by (meson suffix_order.trans)
qed

lemma scan_number_less:
  assumes n: "scan_number (s @ x) = Some (t, r @ x)"
  shows "scan_number s = Some (t, r)"
proof -
  from scan_number_shorter [OF n] obtain c s' where s: "s = c # s'" by (cases s) auto
  define sg s1 where "sg = (if c = CHR ''-'' then [c] else [])" and "s1 = (if c = CHR ''-'' then s' else s)"
  have sg: "(case s @ y of [] \<Rightarrow> ([], s @ y) | c # t \<Rightarrow> if c = CHR ''-'' then ([c], t) else ([], s @ y)) = (sg, s1 @ y)" for y
    by (simp add: s sg_def s1_def)
  from n obtain i s2 f s3 e where p: "scan_integer (s1 @ x) = Some (i, s2)" "scan_fraction s2 = Some (f, s3)" "scan_exponent s3 = Some (e, r @ x)" "t = sg @ i @ f @ e"
    by (auto simp: scan_number_def sg split: option.splits)
  have suf: "suffix (r @ x) s3" "suffix s3 s2" "suffix s2 (s1 @ x)"
    using p scan_integer_suffix scan_fraction_suffix scan_exponent_suffix by blast+
  obtain u2 where u2: "s2 = u2 @ x" using suffix_of_append [OF suffix_order.trans [OF suf(1,2)] suf(3)] by blast
  obtain u3 where u3: "s3 = u3 @ x" using suffix_of_append [OF suf(1)] suf(2) u2 by blast
  have "scan_integer s1 = Some (i, u2)" "scan_fraction u2 = Some (f, u3)" "scan_exponent u3 = Some (e, r)"
    using p(1-3) scan_integer_less [of s1 x i u2] scan_fraction_less [of u2 x f u3] scan_exponent_less [of u3 x e r] by (simp_all add: u2 u3)
  with sg [of "[]", unfolded append_Nil2] p(4) show ?thesis by (simp only: scan_number_def) simp
qed

lemma scan_literal_suffix: "scan_literal s = Some (v, r) \<Longrightarrow> suffix r s"
  by (auto simp: scan_literal_def suffix_drop split: if_splits dest: scan_number_suffix)

lemma scan_literal_less:
  assumes l: "scan_literal (s @ x) = Some (v, r @ x)"
  shows "scan_literal s = Some (v, r)"
proof -
  have p: "HasPrefix s w \<and> drop n s = r" if "HasPrefix (s @ x) w" "drop n (s @ x) = r @ x" "n = length w" for w n
  proof -
    have "length (s @ x) = n + length (drop n (s @ x))"
      using that(3) prefix_length_le [of w "s @ x"] that(1) by (simp add: HasPrefix_iff)
    then have "n \<le> length s" unfolding that(2) by simp
    with that show ?thesis by (auto simp: HasPrefix_def)
  qed
  have q: "\<not> HasPrefix s w" if "\<not> HasPrefix (s @ x) w" for w using that by (auto simp: HasPrefix_iff)
  consider "HasPrefix (s @ x) ''true''" "v = JBool True" "drop 4 (s @ x) = r @ x"
    | "\<not> HasPrefix (s @ x) ''true''" "HasPrefix (s @ x) ''false''" "v = JBool False" "drop 5 (s @ x) = r @ x"
    | "\<not> HasPrefix (s @ x) ''true''" "\<not> HasPrefix (s @ x) ''false''" "HasPrefix (s @ x) ''null''" "v = JNull" "drop 4 (s @ x) = r @ x"
    | t where "\<not> HasPrefix (s @ x) ''true''" "\<not> HasPrefix (s @ x) ''false''" "\<not> HasPrefix (s @ x) ''null''" "v = JNum t" "scan_number (s @ x) = Some (t, r @ x)"
    using l unfolding scan_literal_def by (auto simp del: drop_append split: if_splits)
  then show ?thesis
  proof cases
    case 1
    with p [OF 1(1,3)] show ?thesis by (simp add: scan_literal_def)
  next
    case 2
    with p [OF 2(2,4)] q [OF 2(1)] show ?thesis by (simp add: scan_literal_def)
  next
    case 3
    with p [OF 3(3,5)] q [OF 3(1)] q [OF 3(2)] show ?thesis by (simp add: scan_literal_def)
  next
    case 4
    with scan_number_less [OF 4(5)] q [OF 4(1)] q [OF 4(2)] q [OF 4(3)] show ?thesis by (simp add: scan_literal_def)
  qed
qed

text \<open>Values.\<close>

lemma skip_ws_suffix: "suffix (skip_ws s) s"
  by (simp add: skip_ws_def suffix_dropWhile)

lemma skip_ws_less:
  assumes "skip_ws (s @ x) = c # t" and "suffix (r @ x) t"
  obtains u where "skip_ws s = c # u" "t = u @ x"
proof (cases "skip_ws s")
  case Nil
  then have "\<forall>y \<in> set s. is_space y" by (simp add: skip_ws_def)
  then have "skip_ws (s @ x) = skip_ws x" by (simp add: skip_ws_append all_space_def)
  with assms skip_ws_Cons_le [of x c t] suffix_length_le [OF assms(2)] show ?thesis by simp
next
  case (Cons y u)
  from skip_ws_more [OF this, of x] assms(1) that Cons show ?thesis by simp
qed

lemma parse_suffix:
  "parse_value n d s = Some (v, r) \<Longrightarrow> suffix r s"
  "parse_members n d s = Some (ms, r) \<Longrightarrow> suffix r s"
  "parse_elements n d s = Some (vs, r) \<Longrightarrow> suffix r s"
proof (induction n arbitrary: d s v r ms vs)
  case (Suc n)
  have sk: "suffix t s" if "skip_ws s = c # t" for c t s using suffix_order.trans [OF _ skip_ws_suffix [of s], of t] that by (simp add: suffix_Cons)
  {
    case 1
    then obtain c t where c: "skip_ws s = c # t" by (auto split: list.splits)
    have "suffix r (c # t)"
      using 1 c
      by (auto simp: suffix_Cons split: if_splits option.splits list.splits dest!: json_unquote_suffix sk Suc.IH(2,3) scan_literal_suffix)
    with skip_ws_suffix [of s] show ?case unfolding c by (meson suffix_order.trans)
  next
    case 2
    then obtain c t k u x w v y z q where c: "skip_ws s = c # t" "json_unquote t = Some (k, u)" "skip_ws u = x # w" "parse_value n d w = Some (v, y)" "skip_ws y = z # q"
      by (auto split: list.splits option.splits if_splits)
    have "suffix q s"
      using sk [OF c(1)] json_unquote_suffix [OF c(2)] sk [OF c(3)] Suc.IH(1) [OF c(4)] sk [OF c(5)] by (meson suffix_order.trans)
    moreover have "suffix r q" using 2 c by (auto split: if_splits option.splits dest!: Suc.IH(2))
    ultimately show ?case by (meson suffix_order.trans)
  next
    case 3
    then obtain v y z q where v: "parse_value n d s = Some (v, y)" "skip_ws y = z # q"
      by (auto split: list.splits option.splits if_splits)
    have "suffix q s" using Suc.IH(1) [OF v(1)] sk [OF v(2)] by (meson suffix_order.trans)
    moreover have "suffix r q" using 3 v by (auto split: if_splits option.splits dest!: Suc.IH(3))
    ultimately show ?case by (meson suffix_order.trans)
  }
qed simp_all

lemma scan_literal_tail: "scan_literal (c # t) = Some (v, r) \<Longrightarrow> suffix r t"
  using scan_literal_suffix [of "c # t" v r] scan_literal_shorter [of "c # t" v r] by (auto simp: suffix_Cons)

lemma parse_nonempty:
  "parse_value n d s = Some y \<Longrightarrow> skip_ws s \<noteq> []"
  "parse_members n d s = Some z \<Longrightarrow> skip_ws s \<noteq> []"
  by (cases n; simp split: list.splits)+

lemma parse_elements_nonempty: "parse_elements n d s = Some z \<Longrightarrow> skip_ws s \<noteq> []"
  by (cases n) (auto split: option.splits dest!: parse_nonempty(1))

lemma parse_less:
  "parse_value n d (s @ x) = Some (v, r @ x) \<Longrightarrow> parse_value n d s = Some (v, r)"
  "parse_members n d (s @ x) = Some (ms, r @ x) \<Longrightarrow> parse_members n d s = Some (ms, r)"
  "parse_elements n d (s @ x) = Some (vs, r @ x) \<Longrightarrow> parse_elements n d s = Some (vs, r)"
proof (induction n arbitrary: d s v r ms vs)
  case (Suc n)
  have sk: "suffix t s" if "skip_ws s = c # t" for c t s using suffix_order.trans [OF _ skip_ws_suffix [of s], of t] that by (simp add: suffix_Cons)
  {
    case 1
    then obtain c t' where c': "skip_ws (s @ x) = c # t'" by (auto split: list.splits)
    have "suffix (r @ x) t'"
      using 1 c'
      by (auto simp: suffix_Cons split: if_splits option.splits list.splits
          dest!: json_unquote_suffix sk parse_suffix(2,3) scan_literal_tail)
    then obtain t where c: "skip_ws s = c # t" "t' = t @ x" by (rule skip_ws_less [OF c'])
    show ?case
    proof (cases "c = CHR ''{'' \<or> c = CHR ''[''")
      case True
      with 1 c' c obtain y w where y: "d \<noteq> 0" "skip_ws (t @ x) = y # w" by (auto split: if_splits list.splits)
      show ?thesis
      proof (cases "c = CHR ''{'' \<and> y = CHR ''}'' \<or> c = CHR ''['' \<and> y = CHR '']''")
        case True
        with 1 c' c y have "w = r @ x" by auto
        then obtain u where "skip_ws t = y # u" "r @ x = u @ x" using skip_ws_less [OF y(2), of r] by auto
        with True 1 c' c y show ?thesis by auto
      next
        case False
        have "skip_ws t \<noteq> []"
          using 1 c' c y False \<open>c = CHR ''{'' \<or> c = CHR ''[''\<close>
          by (auto split: option.splits if_splits dest!: Suc.IH(2,3) dest: parse_nonempty(2) parse_elements_nonempty)
        then obtain u where u: "skip_ws t = y # u" using y(2) skip_ws_more [of t] by (cases "skip_ws t") auto
        with 1 c' c y False \<open>c = CHR ''{'' \<or> c = CHR ''[''\<close> show ?thesis by (auto split: option.splits if_splits dest!: Suc.IH(2,3))
      qed
    next
      case False
      show ?thesis
      proof (cases "c = quote")
        case True
        with 1 c' c obtain y where y: "json_unquote (t @ x) = Some (y, r @ x)" "v = JStr (take (length t - length r - 1) (t @ x)) y" by (auto split: option.splits)
        with True c json_unquote_less [OF y(1)] show ?thesis by simp
      next
        case q: False
        with False 1 c' c have "scan_literal ((c # t) @ x) = Some (v, r @ x)" by simp
        from scan_literal_less [OF this] False q c show ?thesis by simp
      qed
    qed
  next
    case 2
    then obtain c t k u y w v l z q where c: "skip_ws (s @ x) = c # t" "c = quote" "json_unquote t = Some (k, u)" "skip_ws u = y # w" "y = CHR '':''"
      "parse_value n d w = Some (v, l)" "skip_ws l = z # q"
      by (auto split: list.splits option.splits if_splits)
    have q: "suffix (r @ x) q" using 2 c by (auto split: if_splits option.splits dest!: parse_suffix(2))
    note l = suffix_order.trans [OF q sk [OF c(7)]]
    note w = suffix_order.trans [OF l parse_suffix(1) [OF c(6)]]
    note u = suffix_order.trans [OF w sk [OF c(4)]]
    note t = suffix_order.trans [OF u json_unquote_suffix [OF c(3)]]
    obtain t0 where t0: "skip_ws s = c # t0" "t = t0 @ x" by (rule skip_ws_less [OF c(1) t])
    obtain u0 where u0: "u = u0 @ x" using suffix_of_append [OF u] json_unquote_suffix [OF c(3)] t0(2) by blast
    obtain w0 where w0: "skip_ws u0 = y # w0" "w = w0 @ x" by (rule skip_ws_less [OF c(4) [unfolded u0] w])
    obtain l0 where l0: "l = l0 @ x" using suffix_of_append [OF l] parse_suffix(1) [OF c(6)] w0(2) by blast
    obtain q0 where q0: "skip_ws l0 = z # q0" "q = q0 @ x" by (rule skip_ws_less [OF c(7) [unfolded l0] q])
    have "json_unquote t0 = Some (k, u0)" by (rule json_unquote_less [OF c(3) [unfolded t0(2) u0]])
    moreover have "parse_value n d w0 = Some (v, l0)" by (rule Suc.IH(1) [OF c(6) [unfolded w0(2) l0]])
    ultimately show ?case using 2 c t0 w0 q0 u0 l0 by (auto split: if_splits option.splits dest!: Suc.IH(2))
  next
    case 3
    then obtain v l z q where v: "parse_value n d (s @ x) = Some (v, l)" "skip_ws l = z # q" by (auto split: list.splits option.splits if_splits)
    have q: "suffix (r @ x) q" using 3 v by (auto split: if_splits option.splits dest!: parse_suffix(3))
    note l = suffix_order.trans [OF q sk [OF v(2)]]
    obtain l0 where l0: "l = l0 @ x" using suffix_of_append [OF l parse_suffix(1) [OF v(1)]] by blast
    obtain q0 where q0: "skip_ws l0 = z # q0" "q = q0 @ x" by (rule skip_ws_less [OF v(2) [unfolded l0] q])
    have "parse_value n d s = Some (v, l0)" by (rule Suc.IH(1) [OF v(1) [unfolded l0]])
    with 3 v l0 q0 show ?case by (auto split: if_splits option.splits dest!: Suc.IH(3))
  }
qed simp_all

section \<open>Texts that are cut off\<close>

text \<open>A text that is cut off before the end of its bracketed value has no value.\<close>

lemma parse_cut:
  assumes v: "parse_value n d (p @ x) = Some (v, r)" "bracketed v" and n: "2 * length (p @ x) < n" and r: "length r < length x"
  shows "parse_value (2 * length p + 1) d p = None"
proof (rule ccontr)
  assume "parse_value (2 * length p + 1) d p \<noteq> None"
  then obtain v' r' where "parse_value (2 * length p + 1) d p = Some (v', r')" by auto
  then have p: "parse_value n d p = Some (v', r')" using n parse_fuel(1) [of p n "2 * length p + 1" d] by simp
  obtain m where m: "n = Suc m" using n by (cases n) auto
  from p m obtain c t where c: "skip_ws p = c # t" by (auto split: list.splits)
  have "c = CHR ''{'' \<or> c = CHR ''[''"
    using v m skip_ws_more [OF c, of x] by (auto simp: scan_literal_def split: if_splits option.splits)
  with p m c have "bracketed v'" by (auto split: if_splits list.splits option.splits)
  with parse_more(1) [OF p, of x] v(1) r show False by simp
qed

text \<open>The parser needs no more fuel and no more depth than it was given.\<close>

lemma parse_mono:
  "parse_value n d s = Some y \<Longrightarrow> n \<le> m \<Longrightarrow> d \<le> e \<Longrightarrow> parse_value m e s = Some y"
  "parse_members n d s = Some z \<Longrightarrow> n \<le> m \<Longrightarrow> d \<le> e \<Longrightarrow> parse_members m e s = Some z"
  "parse_elements n d s = Some zs \<Longrightarrow> n \<le> m \<Longrightarrow> d \<le> e \<Longrightarrow> parse_elements m e s = Some zs"
proof (induction n arbitrary: d e m s y z zs)
  case (Suc n)
  {
    case 1
    then obtain m' where m: "m = Suc m'" "n \<le> m'" by (cases m) auto
    have a: "parse_members m' (e - 1) t = Some x" if "parse_members n (d - 1) t = Some x" for t x using Suc.IH(2) [OF that m(2)] 1 by simp
    have b: "parse_elements m' (e - 1) t = Some x" if "parse_elements n (d - 1) t = Some x" for t x using Suc.IH(3) [OF that m(2)] 1 by simp
    obtain c t where c: "skip_ws s = c # t" using 1 by (auto split: list.splits)
    show ?case
    proof (cases "skip_ws t")
      case Nil
      with 1 c m(1) show ?thesis by (auto split: if_splits)
    next
      case (Cons x u)
      have "parse_members n (d - 1) t = None \<or> parse_members m' (e - 1) t = parse_members n (d - 1) t"
        "parse_elements n (d - 1) t = None \<or> parse_elements m' (e - 1) t = parse_elements n (d - 1) t" using a [of t] b [of t] by (metis option.exhaust)+
      with 1 c Cons m(1) show ?thesis by (auto split: if_splits)
    qed
  next
    case 2
    then obtain m' where m: "m = Suc m'" "n \<le> m'" by (cases m) auto
    have a: "parse_value m' e t = Some x" if "parse_value n d t = Some x" for t x using Suc.IH(1) [OF that m(2)] 2 by simp
    have b: "parse_members m' e t = Some x" if "parse_members n d t = Some x" for t x using Suc.IH(2) [OF that m(2)] 2 by simp
    show ?case using 2 unfolding m(1) by (auto split: list.splits option.splits if_splits dest!: a b)
  next
    case 3
    then obtain m' where m: "m = Suc m'" "n \<le> m'" by (cases m) auto
    have a: "parse_value m' e t = Some x" if "parse_value n d t = Some x" for t x using Suc.IH(1) [OF that m(2)] 3 by simp
    have b: "parse_elements m' e t = Some x" if "parse_elements n d t = Some x" for t x using Suc.IH(3) [OF that m(2)] 3 by simp
    show ?case using 3 unfolding m(1) by (auto split: list.splits option.splits if_splits dest!: a b)
  }
qed simp_all

lemma json_parse_whole:
  assumes "parse_value n d s = Some (v, [])" and "d \<le> 10000"
  shows "json_parse s = Some v"
  using parse_mono(1) [OF assms(1), of "max n (2 * length s + 1)" 10000] assms(2)
  by (simp add: json_parse_fuel [of s "max n (2 * length s + 1)"] skip_ws_def)

end
