(* ===== verification/Rest_Json.thy ===== *)
theory Rest_Json
  imports Key_Json Json_Prefix Main_Properties "HOL-Library.Multiset"
begin

text \<open>
  The bodies of the REST requests as bytes: \<open>json.Decoder\<close> of encoding/json on the part of a body that
  \<open>http.MaxBytesReader\<close> lets through, into the four types that the handlers of cmd/main-worker decode.  It
  provides the record \<open>json_lib\<close> on which the handlers are built, so that their properties hold of texts.
\<close>

section \<open>The decoder\<close>

text \<open>
  \<open>Decoder.readValue\<close>: an object or an array ends with its closing bracket, every other value only with the next byte or
  the end of the input.  When the input was cut off at the limit, there is no such end.  What follows the value is not read.
\<close>

definition Decoder_value :: "bytes \<Rightarrow> bool \<Rightarrow> (json \<times> bytes) option" where
  "Decoder_value s whole =
     (case parse_value (2 * length s + 1) 10000 s of
        None \<Rightarrow> None
      | Some (v, r) \<Rightarrow> if whole \<or> r \<noteq> [] \<or> bracketed v then Some (v, r) else None)"

text \<open>The bytes of a value that starts after the space in s and leaves r: what a \<open>json.RawMessage\<close> receives.\<close>

definition raw_value :: "bytes \<Rightarrow> bytes \<Rightarrow> bytes" where
  "raw_value s r = (let t = skip_ws s in take (length t - length r) t)"

fun raw_members :: "nat \<Rightarrow> nat \<Rightarrow> bytes \<Rightarrow> ((bytes \<times> bytes) list \<times> bytes) option" where
  "raw_members 0 d s = None"
| "raw_members (Suc n) d s =
     (case skip_ws s of
        [] \<Rightarrow> None
      | c # t \<Rightarrow>
          if c \<noteq> quote then None
          else (case json_unquote t of
                  None \<Rightarrow> None
                | Some (k, u) \<Rightarrow>
                    (case skip_ws u of
                       [] \<Rightarrow> None
                     | x # w \<Rightarrow>
                         if x \<noteq> CHR '':'' then None
                         else (case parse_value n d w of
                                 None \<Rightarrow> None
                               | Some (v, y) \<Rightarrow>
                                   (case skip_ws y of
                                      [] \<Rightarrow> None
                                    | z # q \<Rightarrow>
                                        if z = CHR ''}'' then Some ([(k, raw_value w y)], q)
                                        else if z = CHR '','' then
                                          (case raw_members n d q of None \<Rightarrow> None | Some (ms, r) \<Rightarrow> Some ((k, raw_value w y) # ms, r))
                                        else None)))))"

text \<open>The map that the members are stored into: a later member replaces an earlier one with the same name.\<close>

fun latest :: "(bytes \<times> bytes) list \<Rightarrow> (bytes \<times> bytes) list" where
  "latest [] = []"
| "latest ((k, v) # ms) = (if k \<in> fst ` set ms then latest ms else (k, v) # latest ms)"

definition object_members :: "bytes \<Rightarrow> (bytes \<times> bytes) list" where
  "object_members s =
     (case skip_ws s of
        [] \<Rightarrow> []
      | c # t \<Rightarrow> (case raw_members (2 * length s + 1) 9999 t of None \<Rightarrow> [] | Some (ms, r) \<Rightarrow> latest ms))"

text \<open>\<open>order\<close> is the order in which the handler then visits the map.\<close>

definition decode_object :: "((string \<times> bytes) list \<Rightarrow> (string \<times> bytes) list) \<Rightarrow> bytes \<Rightarrow> bool \<Rightarrow> (string \<times> bytes) list option" where
  "decode_object order s whole =
     (case Decoder_value s whole of
        Some (JNull, r) \<Rightarrow> Some []
      | Some (JObj ms, r) \<Rightarrow> Some (order (object_members s))
      | _ \<Rightarrow> None)"

definition decode_raw :: "bytes \<Rightarrow> bool \<Rightarrow> bytes option" where
  "decode_raw s whole = map_option (\<lambda>(v, r). raw_value s r) (Decoder_value s whole)"

definition createKeyRequest_fields :: "string list" where
  "createKeyRequest_fields = [''name'', ''permissions'', ''expires_in'']"

definition put_createKeyRequest :: "string \<Rightarrow> json \<Rightarrow> createKeyRequest \<Rightarrow> createKeyRequest option" where
  "put_createKeyRequest name v m =
     (if name = ''name'' then map_option (\<lambda>x. m\<lparr>kr_Name := x\<rparr>) (decode_string v (kr_Name m))
      else if name = ''permissions'' then map_option (\<lambda>x. m\<lparr>kr_Permissions := x\<rparr>) (decode_permissions v (kr_Permissions m))
      else if name = ''expires_in'' then map_option (\<lambda>x. m\<lparr>kr_ExpiresIn := x\<rparr>) (decode_string v (kr_ExpiresIn m))
      else None)"

definition loginRequest_fields :: "string list" where
  "loginRequest_fields = [''key'', ''client_id'']"

definition put_loginRequest :: "string \<Rightarrow> json \<Rightarrow> loginRequest \<Rightarrow> loginRequest option" where
  "put_loginRequest name v m =
     (if name = ''key'' then map_option (\<lambda>x. m\<lparr>lr_Key := x\<rparr>) (decode_string v (lr_Key m))
      else if name = ''client_id'' then map_option (\<lambda>x. m\<lparr>lr_ClientID := x\<rparr>) (decode_string v (lr_ClientID m))
      else None)"

definition go_json :: "((string \<times> bytes) list \<Rightarrow> (string \<times> bytes) list) \<Rightarrow> json_lib" where
  "go_json order = \<lparr>
     jn_object = decode_object order,
     jn_raw = decode_raw,
     jn_createKey = (\<lambda>s whole. case Decoder_value s whole of None \<Rightarrow> None
        | Some (v, r) \<Rightarrow> decode_struct createKeyRequest_fields put_createKeyRequest v \<lparr>kr_Name = [], kr_Permissions = [], kr_ExpiresIn = []\<rparr>),
     jn_login = (\<lambda>s whole. case Decoder_value s whole of None \<Rightarrow> None
        | Some (v, r) \<Rightarrow> decode_struct loginRequest_fields put_loginRequest v \<lparr>lr_Key = [], lr_ClientID = []\<rparr>)\<rparr>"

section \<open>What the decoder reads\<close>

text \<open>The limit of the body cuts an object off, or does not matter.\<close>

lemma Decoder_value_cut:
  assumes v: "Decoder_value body True = Some (v, r)" "bracketed v"
  shows "Decoder_value (take n body) whole =
    (if length body - length r \<le> n then Some (v, take (n - (length body - length r)) r) else None)"
proof -
  let ?N = "2 * length body + 1"
  have p: "parse_value ?N 10000 body = Some (v, r)"
    using v(1) unfolding Decoder_value_def by (simp del: parse_value.simps split: option.splits prod.splits)
  from parse_suffix(1) [OF p] obtain u where u: "body = u @ r" by (auto simp: suffix_def)
  show ?thesis
  proof (cases "length u \<le> n")
    case True
    let ?k = "n - length u"
    let ?s = "take n body"
    have s: "?s = u @ take ?k r" using True by (simp add: u)
    have b: "?s @ drop ?k r = body" unfolding s by (simp add: u)
    have "parse_value ?N 10000 (?s @ drop ?k r) = Some (v, take ?k r @ drop ?k r)" using p unfolding b by simp
    then have "parse_value ?N 10000 ?s = Some (v, take ?k r)" by (rule parse_less)
    moreover have "parse_value (2 * length ?s + 1) 10000 ?s = parse_value ?N 10000 ?s" by (rule parse_fuel) simp_all
    ultimately have "Decoder_value ?s whole = Some (v, take ?k r)"
      using v(2) unfolding Decoder_value_def by simp
    with True show ?thesis by (simp add: u)
  next
    case False
    have "parse_value ?N 10000 (take n body @ drop n body) = Some (v, r)" using p by simp
    from parse_cut [OF this v(2)] False have "parse_value (2 * length (take n body) + 1) 10000 (take n body) = None"
      by (simp add: u)
    with False show ?thesis unfolding Decoder_value_def by (simp add: u)
  qed
qed

lemma skip_ws_twice: "skip_ws (skip_ws s) = skip_ws s"
  unfolding skip_ws_def by (induction s) auto

lemma raw_value_parse:
  assumes p: "parse_value n d w = Some (v, y)"
  shows "parse_value n d (raw_value w y) = Some (v, []) \<and> sublist (raw_value w y) w"
proof -
  have "parse_value n d (skip_ws w) = Some (v, y)" using p by (cases n) (simp_all add: skip_ws_twice)
  from parse_suffix(1) [OF this] obtain u where u: "skip_ws w = u @ y" by (auto simp: suffix_def)
  then have raw: "raw_value w y = u" by (simp add: raw_value_def)
  have "parse_value n d u = Some (v, [])"
    using \<open>parse_value n d (skip_ws w) = Some (v, y)\<close> parse_less(1) [of n d u y v "[]"] by (simp add: u)
  moreover have "sublist u w" using skip_ws_suffix [of w] by (auto simp: u suffix_def sublist_def)
  ultimately show ?thesis by (simp add: raw)
qed

definition raw_of :: "bytes \<Rightarrow> bytes \<times> bytes \<Rightarrow> bytes \<times> json \<Rightarrow> bool" where
  "raw_of s m m' \<longleftrightarrow> fst m = fst m' \<and> json_parse (snd m) = Some (snd m') \<and> sublist (snd m) s"

lemma raw_members_parse:
  assumes "parse_members n d s = Some (ms, r)" and "d \<le> 10000"
  shows "\<exists>rs. raw_members n d s = Some (rs, r) \<and> list_all2 (raw_of s) rs ms"
  using assms(1)
proof (induction n arbitrary: s ms r)
  case (Suc n)
  then obtain c t k u y w v l z q where c: "skip_ws s = c # t" "c = quote" "json_unquote t = Some (k, u)" "skip_ws u = y # w" "y = CHR '':''"
      "parse_value n d w = Some (v, l)" "skip_ws l = z # q"
    by (auto split: list.splits option.splits if_splits)
  have sk: "suffix t s" if "skip_ws s = c # t" for c t s using suffix_order.trans [OF _ skip_ws_suffix [of s], of t] that by (simp add: suffix_Cons)
  have w: "suffix w s" using sk [OF c(1)] json_unquote_suffix [OF c(3)] sk [OF c(4)] by (meson suffix_order.trans)
  have q: "suffix q s" using w parse_suffix(1) [OF c(6)] sk [OF c(7)] by (meson suffix_order.trans)
  have sub: "sublist a s" if "sublist a b" "suffix b s" for a b using that by (meson sublist_order.order_trans suffix_imp_sublist)
  have raw: "raw_of s (k, raw_value w l) (k, v)"
    using raw_value_parse [OF c(6)] json_parse_whole [OF _ assms(2)] sub [OF _ w] by (auto simp: raw_of_def)
  show ?case
  proof (cases "z = CHR ''}''")
    case True
    with Suc.prems c raw show ?thesis by auto
  next
    case False
    with Suc.prems c obtain ms' where ms': "z = CHR '',''" "parse_members n d q = Some (ms', r)" "ms = (k, v) # ms'"
      by (auto split: if_splits option.splits)
    from Suc.IH [OF ms'(2)] obtain rs where rs: "raw_members n d q = Some (rs, r)" "list_all2 (raw_of q) rs ms'" by blast
    have "list_all2 (raw_of s) rs ms'" using rs(2) by (rule list_all2_mono) (use sub [OF _ q] in \<open>auto simp: raw_of_def\<close>)
    with c raw rs ms' False show ?thesis by auto
  qed
qed simp

lemma latest_keys: "fst ` set (latest ms) = fst ` set ms" "distinct (map fst (latest ms))" "length (latest ms) \<le> length ms"
proof -
  show "fst ` set (latest ms) = fst ` set ms" for ms by (induction ms rule: latest.induct) auto
  then show "distinct (map fst (latest ms))" by (induction ms rule: latest.induct) auto
  show "length (latest ms) \<le> length ms" by (induction ms rule: latest.induct) (auto intro: le_SucI)
qed

lemma latest_map: "map_of (latest ms) k = map_of (rev ms) k"
proof (induction ms rule: latest.induct)
  case (2 j v ms)
  have "map_of (rev ms) j = None \<longleftrightarrow> j \<notin> fst ` set ms" by (simp add: map_of_eq_None_iff)
  with 2 show ?case by (auto simp: map_add_def split: option.splits)
qed simp

lemma raw_of_latest:
  assumes "list_all2 (raw_of s) rs ms" and "map_of (rev ms) k = Some v"
  obtains raw where "map_of (rev rs) k = Some raw" "json_parse raw = Some v" "sublist raw s"
proof -
  have "rel_option (\<lambda>raw v. json_parse raw = Some v \<and> sublist raw s) (map_of rs' k) (map_of ms' k)" if "list_all2 (raw_of s) rs' ms'" for rs' ms'
    using that by (induction rs' ms' rule: list_all2_induct) (auto simp: raw_of_def)
  from this [of "rev rs" "rev ms"] assms that show ?thesis by (auto simp: option_rel_Some2)
qed

lemma parse_members_some: "parse_members n d s = Some (ms, r) \<Longrightarrow> ms \<noteq> []"
  by (cases n) (auto split: list.splits option.splits if_splits)

lemma decode_object_members:
  assumes dv: "Decoder_value s whole = Some (JObj ms, r)" and order: "\<And>xs. mset (order xs) = mset xs"
  obtains payload where "decode_object order s whole = Some payload" "distinct (map fst payload)" "fst ` set payload = fst ` set ms"
    "\<And>k v. map_of (rev ms) k = Some v \<Longrightarrow> \<exists>raw. (k, raw) \<in> set payload \<and> json_parse raw = Some v \<and> sublist raw s"
proof -
  have p: "parse_value (Suc (2 * length s)) 10000 s = Some (JObj ms, r)"
    using dv unfolding Decoder_value_def by (simp del: parse_value.simps split: option.splits prod.splits if_splits)
  then obtain c t where c: "skip_ws s = c # t" by (auto split: list.splits)
  have "suffix t s" using suffix_order.trans [OF _ skip_ws_suffix [of s], of t] c by (simp add: suffix_Cons)
  have "\<exists>rs. object_members s = latest rs \<and> list_all2 (raw_of s) rs ms"
  proof (cases "ms = []")
    case True
    with p c parse_members_some have "\<exists>u. skip_ws t = CHR ''}'' # u"
      by (fastforce simp: scan_literal_def split: if_splits list.splits option.splits)
    then have "object_members s = latest []" by (auto simp: object_members_def c)
    with True show ?thesis by blast
  next
    case False
    with p c have "parse_members (2 * length s) 9999 t = Some (ms, r)"
      by (auto simp: scan_literal_def split: if_splits list.splits option.splits)
    then have "parse_members (2 * length s + 1) 9999 t = Some (ms, r)" by (rule parse_mono) simp_all
    from raw_members_parse [OF this] obtain rs where rs: "raw_members (2 * length s + 1) 9999 t = Some (rs, r)" "list_all2 (raw_of t) rs ms" by auto
    have "list_all2 (raw_of s) rs ms"
      using rs(2) by (rule list_all2_mono) (use \<open>suffix t s\<close> in \<open>auto simp: raw_of_def intro: sublist_order.order_trans suffix_imp_sublist\<close>)
    with rs(1) c show ?thesis by (auto simp: object_members_def)
  qed
  then obtain rs where rs: "object_members s = latest rs" "list_all2 (raw_of s) rs ms" by blast
  have keys: "fst ` set rs = fst ` set ms" using rs(2) by (induction rs ms rule: list_all2_induct) (auto simp: raw_of_def)
  have set_order: "set (order xs) = set xs" for xs using order [of xs] by (metis set_mset_mset)
  have "distinct (map fst (order (latest rs)))"
    using latest_keys(2) [of rs] order [of "latest rs"] by (metis mset_eq_imp_distinct_iff mset_map)
  moreover have "\<exists>raw. (k, raw) \<in> set (order (latest rs)) \<and> json_parse raw = Some v \<and> sublist raw s" if km: "map_of (rev ms) k = Some v" for k v
  proof -
    obtain raw where "map_of (rev rs) k = Some raw" "json_parse raw = Some v" "sublist raw s" by (rule raw_of_latest [OF rs(2) km])
    then show ?thesis using map_of_SomeD [of "latest rs" k raw] by (auto simp: latest_map set_order)
  qed
  moreover have "decode_object order s whole = Some (order (latest rs))" using dv by (simp add: decode_object_def rs(1))
  moreover have "fst ` set (order (latest rs)) = fst ` set ms" by (simp add: set_order latest_keys(1) keys)
  ultimately show thesis using that by blast
qed

lemma Decoder_value_text:
  assumes "json_ok 10000 v" and "value_ends r" and "whole \<or> r \<noteq> [] \<or> bracketed v"
  shows "Decoder_value (json_text ind v @ r) whole = Some (v, r)"
  using parse_text(1) [OF assms(1,2), of ind "2 * length (json_text ind v @ r) + 1"] assms(3)
  by (simp add: Decoder_value_def del: parse_value.simps)

text \<open>The two requests that are decoded into structs, as a client writes them.\<close>

lemma login_text:
  assumes "valid_utf8 (lr_Key m)" and "valid_utf8 (lr_ClientID m)" and "value_ends r"
  shows "jn_login (go_json order) (json_text ind (JObj [(''key'', jstr (lr_Key m)), (''client_id'', jstr (lr_ClientID m))]) @ r) whole = Some m"
proof -
  have "valid_utf8 ''key''" "valid_utf8 ''client_id''" by code_simp+
  with assms(1,2) have "json_ok 10000 (JObj [(''key'', jstr (lr_Key m)), (''client_id'', jstr (lr_ClientID m))])" by simp
  from Decoder_value_text [OF this assms(3)] show ?thesis
    by (simp add: go_json_def decode_struct_def decode_member loginRequest_fields_def put_loginRequest_def del: json_text.simps)
qed

lemma createKey_text:
  assumes "valid_utf8 (kr_Name m)" and "\<forall>p \<in> set (kr_Permissions m). valid_utf8 p" and "valid_utf8 (kr_ExpiresIn m)" and "value_ends r"
  shows "jn_createKey (go_json order) (json_text ind (JObj [(''name'', jstr (kr_Name m)), (''permissions'', JArr (map jstr (kr_Permissions m))),
      (''expires_in'', jstr (kr_ExpiresIn m))]) @ r) whole = Some m"
proof -
  let ?v = "JObj [(''name'', jstr (kr_Name m)), (''permissions'', JArr (map jstr (kr_Permissions m))), (''expires_in'', jstr (kr_ExpiresIn m))]"
  have "valid_utf8 ''name''" "valid_utf8 ''permissions''" "valid_utf8 ''expires_in''" by code_simp+
  with assms(1-3) have "json_ok 10000 ?v" by auto
  from Decoder_value_text [OF this assms(4)] show ?thesis
    by (simp add: go_json_def decode_struct_def decode_member createKeyRequest_fields_def put_createKeyRequest_def decode_permissions_def decode_strings_back
        del: json_text.simps)
qed

section \<open>The body of a PUT\<close>

lemma Decoder_value_shorter: "Decoder_value s whole = Some (v, r) \<Longrightarrow> length r < length s"
  unfolding Decoder_value_def by (auto split: option.splits if_splits simp del: parse_value.simps dest: parse_shorter(1))

lemma limited_value:
  assumes body: "Decoder_value body True = Some (JObj ms, rest)" and order: "\<And>xs. mset (order xs) = mset xs"
  shows "int (length body - length rest) \<le> limit \<Longrightarrow> \<exists>payload. case_prod (decode_object order) (limited limit body) = Some payload \<and>
      distinct (map fst payload) \<and> fst ` set payload = fst ` set ms \<and>
      (\<forall>k v. map_of (rev ms) k = Some v \<longrightarrow> (\<exists>raw. (k, raw) \<in> set payload \<and> json_parse raw = Some v \<and> sublist raw body))"
    "\<not> int (length body - length rest) \<le> limit \<Longrightarrow> case_prod (decode_object order) (limited limit body) = None"
proof -
  let ?s = "take (nat limit) body" and ?whole = "int (length body) \<le> limit"
  have eq: "int (length body - length rest) \<le> limit \<longleftrightarrow> length body - length rest \<le> nat limit"
    using Decoder_value_shorter [OF body] by linarith
  note cut = Decoder_value_cut [OF body, of "nat limit" ?whole, unfolded bracketed.simps, OF TrueI]
  have sub: "sublist raw body" if "sublist raw ?s" for raw
    using sublist_order.order_trans [OF that, of body] by (simp add: sublist_take)
  show "\<exists>payload. case_prod (decode_object order) (limited limit body) = Some payload \<and>
      distinct (map fst payload) \<and> fst ` set payload = fst ` set ms \<and>
      (\<forall>k v. map_of (rev ms) k = Some v \<longrightarrow> (\<exists>raw. (k, raw) \<in> set payload \<and> json_parse raw = Some v \<and> sublist raw body))"
    if "int (length body - length rest) \<le> limit"
  proof -
    have "length body - length rest \<le> nat limit" using that eq by blast
    with cut have "Decoder_value ?s ?whole = Some (JObj ms, take (nat limit - (length body - length rest)) rest)" by simp
    then obtain payload where "decode_object order ?s ?whole = Some payload" "distinct (map fst payload)" "fst ` set payload = fst ` set ms"
        "\<And>k v. map_of (rev ms) k = Some v \<Longrightarrow> \<exists>raw. (k, raw) \<in> set payload \<and> json_parse raw = Some v \<and> sublist raw ?s"
      using decode_object_members [OF _ order] by metis
    with sub show ?thesis unfolding limited_def by (simp add: Ball_def) blast
  qed
  show "case_prod (decode_object order) (limited limit body) = None" if "\<not> int (length body - length rest) \<le> limit"
  proof -
    have "\<not> length body - length rest \<le> nat limit" using that eq by blast
    with cut show ?thesis by (simp add: limited_def decode_object_def)
  qed
qed



text \<open>The entity store after an accepted PUT: the members of the object, as far as they fit.\<close>

lemma accepted_members:
  assumes "handleEntity Lib (go_json order) env r srv w = (srv', w', 200, StatusJson)" and "hr_Method r = ''PUT''"
    and "Decoder_value (hr_Body r) True = Some (JObj ms, rest)" and "\<And>xs. mset (order xs) = mset xs"
    and "int (length (hr_Body r) - length rest) \<le> cf_MaxRequestBodySize (ms_config srv)"
  obtains payload where "distinct (map fst payload)" "fst ` set payload = fst ` set ms" "length payload = card (fst ` set ms)" "w' = w"
    "ms_entityStore srv' = store_all (ml_lru Lib) (me_now env) (entity_schema r) payload (ms_entityStore srv)"
    "\<not> list_ex (\<lambda>(key, v). bad_id key) payload" "entity_schema r \<noteq> []" "\<not> bad_id (entity_schema r)"
    "\<forall>k v. map_of (rev ms) k = Some v \<longrightarrow> (\<exists>raw. (k, raw) \<in> set payload \<and> json_parse raw = Some v \<and> sublist raw (hr_Body r))"
proof -
  from limited_value(1) [OF assms(3-5)] obtain payload
    where p: "case_prod (decode_object order) (limited (cf_MaxRequestBodySize (ms_config srv)) (hr_Body r)) = Some payload"
      "distinct (map fst payload)" "fst ` set payload = fst ` set ms"
      "\<forall>k v. map_of (rev ms) k = Some v \<longrightarrow> (\<exists>raw. (k, raw) \<in> set payload \<and> json_parse raw = Some v \<and> sublist raw (hr_Body r))" by blast
  from assms(1,2) obtain payload' where p': "case_prod (jn_object (go_json order)) (limited (cf_MaxRequestBodySize (ms_config srv)) (hr_Body r)) = Some payload'"
    and q: "\<not> list_ex (\<lambda>(key, v). bad_id key) payload'" "entity_schema r \<noteq> []" "\<not> bad_id (entity_schema r)" "w' = w"
      "ms_entityStore srv' = store_all (ml_lru Lib) (me_now env) (entity_schema r) payload' (ms_entityStore srv)"
    by (rule handleEntity_put)
  have "payload' = payload" using p(1) p' by (simp add: go_json_def)
  moreover have "length payload = card (fst ` set ms)" using distinct_card [OF p(2)] p(3) by simp
  ultimately show thesis using that [of payload] p q by simp
qed




text \<open>
  An object with more members than the entity store has room for is accepted all the same: the answer is 200 and at least one of its members is not stored.
\<close>

theorem rest_put_drops_members:
  assumes lru: "lru_spec (ml_lru Lib) items cap ok" and inv: "cache_inv items cap ok (ms_entityStore srv)"
    and put: "handleEntity Lib (go_json order) env r srv w = (srv', w', 200, StatusJson)" "hr_Method r = ''PUT''"
      "Decoder_value (hr_Body r) True = Some (JObj ms, rest)" "\<And>xs. mset (order xs) = mset xs"
      "int (length (hr_Body r) - length rest) \<le> cf_MaxRequestBodySize (ms_config srv)"
    and many: "c_maxSize (ms_entityStore srv) < int (card (fst ` set ms))"
  shows "\<exists>k \<in> fst ` set ms. \<forall>later. snd (cache_fetch (ml_lru Lib) later (ms_entityStore srv') (store_key (entity_schema r) k)) = None"
proof -
  obtain payload where st: "ms_entityStore srv' = store_all (ml_lru Lib) (me_now env) (entity_schema r) payload (ms_entityStore srv)"
    by (rule accepted_members [OF put])
  let ?c = "ms_entityStore srv'" and ?key = "store_key (entity_schema r)"
  have inv': "cache_inv items cap ok ?c" and max: "c_maxSize ?c = c_maxSize (ms_entityStore srv)"
    using lru_spec.cache_run_refines [OF lru inv] set_run_frame [OF lru] unfolding st store_all_run by blast+
  have "int (length (entries items ?c)) \<le> c_maxSize ?c" 
    using lru_spec.size_bound [OF lru, of "c_cache ?c"] inv' by (simp add: cache_inv_def entries_def)
  then have "int (card (dom (map_of (entries items ?c)))) \<le> c_maxSize ?c"
    using card_length [of "map fst (entries items ?c)"] by (simp add: dom_map_of_conv_image_fst)
  moreover have "card (?key ` fst ` set ms) = card (fst ` set ms)" by (rule card_image) (simp add: inj_on_def store_key_inj)
  ultimately have "\<not> ?key ` fst ` set ms \<subseteq> dom (map_of (entries items ?c))"
    using many max card_mono [OF finite_dom_map_of, of "?key ` fst ` set ms" "entries items ?c"] by linarith
  then obtain k where k: "k \<in> fst ` set ms" "map_of (entries items ?c) (?key k) = None" by blast
  then have "snd (cache_fetch (ml_lru Lib) later ?c (?key k)) = None" for later
    using lru_spec.fetch_value [OF lru inv', of later "?key k"] by (simp add: cache_lookup_def)
  with k(1) show ?thesis by blast
qed

section \<open>Witnesses\<close>

text \<open>An object with a repeated member, and space and more text after it.\<close>

definition sample_members :: "(bytes \<times> json) list" where
  "sample_members = [(''1'', JObj []), (''2'', JBool True), (''1'', JArr [JNull])]"

definition sample_body :: bytes where
  "sample_body = json_text None (JObj sample_members) @ '' x''"

definition rest_put :: http_request where
  "rest_put = rest_request ''PUT'' ''/entity/chat'' ''root'' [] sample_body"




lemma sample_may_put: "may (\<lambda>x. x) 5 (sample_main\<lparr>ms_config := cf\<rparr>) rest_put PermWrite"
proof -
  have "HasPrefix ''Bearer root'' ''Bearer ''" "TrimPrefix ''Bearer root'' ''Bearer '' = ''root''" by code_simp+
  then show ?thesis
    by (simp add: may_def caller_permissions_def rest_put_def extractBearerToken_def is_admin_key_def sample_hashes AllPermissions_def)
qed

text \<open>The sample with another limit, of which 28 is the length of the object.\<close>

definition sample_limited :: "int \<Rightarrow> (list_lru, unit) MainWorkerServer" where
  "sample_limited n = sample_main\<lparr>ms_config := (ms_config sample_main)\<lparr>cf_MaxRequestBodySize := n\<rparr>\<rparr>"

lemma sample_limited_simps [simp]:
  "cf_MaxRequestBodySize (ms_config (sample_limited n)) = n" "ms_entityStore (sample_limited n) = ms_entityStore sample_main"
  "may (\<lambda>x. x) 5 (sample_limited n) rest_put PermWrite"
  by (simp_all add: sample_limited_def sample_may_put del: sample_main_simps)




end
