(* ===== verification/Backends.thy ===== *)
theory Backends
  imports S3_Templates S3_Properties
begin

text \<open>
  The interface \<open>StorageBackend\<close> of pkg/fs/backend.go with all its methods, as a record that extends
  what the Processing Worker calls, its two implementations, and the specification both refine: a
  map of entities and a map of templates.  The comment in the source promises that callers can
  switch between the backends without changing any logic; the theorem at the end says in which
  sense that is true.
\<close>

section \<open>The interface\<close>

record ('st, 'f) StorageBackend = "('st, 'f) storage_ops" +
  sb_FileExists :: "'f \<Rightarrow> 'st \<Rightarrow> string \<Rightarrow> bool"
  sb_ListFiles :: "'f \<Rightarrow> 'st \<Rightarrow> fs_error + string set"
  sb_WriteTemplate :: "'f \<Rightarrow> string \<Rightarrow> bytes \<Rightarrow> 'st \<Rightarrow> 'st \<times> fs_error option"
  sb_ReadTemplate :: "'f \<Rightarrow> 'st \<Rightarrow> string \<Rightarrow> fs_error + bytes"
  sb_GetTemplatesDir :: "'f \<Rightarrow> 'st \<Rightarrow> 'st \<times> string"

definition local_backend :: "meta_codec \<Rightarrow> Storage \<Rightarrow> (file_sys, faults) StorageBackend" where
  "local_backend J s = \<lparr>so_write = WriteFile J s, so_read = fs_ReadFile J s, so_delete = DeleteFile s, so_tree = (\<lambda>fs. fs),
     sb_FileExists = FileExists s, sb_ListFiles = ListFiles s, sb_WriteTemplate = WriteTemplate s, sb_ReadTemplate = ReadTemplate s,
     sb_GetTemplatesDir = (\<lambda>F fs. (fs, GetTemplatesDir s))\<rparr>"

text \<open>
  The state of the S3 backend is the object \<open>S3Storage\<close>, the objects of the store and the local
  file tree; its calls depend on the faults of the store, those of the tree, and the directory
  that \<open>os.MkdirTemp\<close> would make.
\<close>

type_synonym 'o s3_state = "S3Storage \<times> 'o \<times> file_sys"

type_synonym 'f s3_faults = "'f \<times> faults \<times> string option"

definition s3_backend :: "('o, 'f) s3_client \<Rightarrow> meta_codec \<Rightarrow> ('o s3_state, 'f s3_faults) StorageBackend" where
  "s3_backend C J = \<lparr>
     so_write = (\<lambda>(F, G, tmp) eid b m (s, ob, fs). case s3_WriteFile C J s F eid b m ob of (ob', e) \<Rightarrow> ((s, ob', fs), e)),
     so_read = (\<lambda>(F, G, tmp) (s, ob, fs) eid. s3_ReadFile C J s F ob eid),
     so_delete = (\<lambda>(F, G, tmp) eid (s, ob, fs). case s3_DeleteFile C s F eid ob of (ob', e) \<Rightarrow> ((s, ob', fs), e)),
     so_tree = (\<lambda>(s, ob, fs). fs),
     sb_FileExists = (\<lambda>(F, G, tmp) (s, ob, fs) eid. s3_FileExists C s F ob eid),
     sb_ListFiles = (\<lambda>(F, G, tmp) (s, ob, fs). s3_ListFiles C s F ob),
     sb_WriteTemplate = (\<lambda>(F, G, tmp) sid d (s, ob, fs). case s3_WriteTemplate C F G tmp sid d s ob fs of (s', ob', fs', e) \<Rightarrow> ((s', ob', fs'), e)),
     sb_ReadTemplate = (\<lambda>(F, G, tmp) (s, ob, fs) sid. s3_ReadTemplate C F sid s ob),
     sb_GetTemplatesDir = (\<lambda>(F, G, tmp) (s, ob, fs). case s3_GetTemplatesDir C F G tmp ob s fs of (s', fs', dir) \<Rightarrow> ((s', ob, fs'), dir))\<rparr>"

section \<open>The specification\<close>

record abs_store =
  as_entities :: "string \<rightharpoonup> FileData"
  as_templates :: "string \<rightharpoonup> bytes"

definition empty_store :: abs_store where
  "empty_store = \<lparr>as_entities = Map.empty, as_templates = Map.empty\<rparr>"

datatype store_call = PutFile string bytes FileMetadata | DropFile string | PutTemplate string bytes

fun spec_call :: "store_call \<Rightarrow> abs_store \<Rightarrow> abs_store \<times> fs_error option" where
  "spec_call (PutFile eid b m) a =
     (if isValidEntityID eid then (a\<lparr>as_entities := (as_entities a)(eid \<mapsto> \<lparr>fd_Blob = b, fd_Metadata = m\<rparr>)\<rparr>, None)
      else (a, Some ErrInvalidID))"
| "spec_call (DropFile eid) a =
     (if isValidEntityID eid then (a\<lparr>as_entities := (as_entities a)(eid := None)\<rparr>, None) else (a, Some ErrInvalidID))"
| "spec_call (PutTemplate sid d) a =
     (if isValidEntityID sid then (a\<lparr>as_templates := (as_templates a)(sid \<mapsto> d)\<rparr>, None)
      else (a, Some (FsMessage ''invalid schema ID'')))"

fun do_call :: "('st, 'f) StorageBackend \<Rightarrow> 'f \<Rightarrow> store_call \<Rightarrow> 'st \<Rightarrow> 'st \<times> fs_error option" where
  "do_call B f (PutFile eid b m) st = so_write B f eid b m st"
| "do_call B f (DropFile eid) st = so_delete B f eid st"
| "do_call B f (PutTemplate sid d) st = sb_WriteTemplate B f sid d st"

text \<open>A sequence of calls, with the results they return.\<close>

fun run_calls :: "(store_call \<Rightarrow> 's \<Rightarrow> 's \<times> fs_error option) \<Rightarrow> store_call list \<Rightarrow> 's \<Rightarrow> 's \<times> fs_error option list" where
  "run_calls f [] st = (st, [])"
| "run_calls f (c # cs) st = (let (st1, e) = f c st; (st2, es) = run_calls f cs st1 in (st2, e # es))"

fun call_codable :: "(FileMetadata \<Rightarrow> bool) \<Rightarrow> store_call \<Rightarrow> bool" where
  "call_codable cod (PutFile eid b m) = cod m"
| "call_codable cod _ = True"

text \<open>What the methods without effect return, of a backend and of the specification.\<close>

type_synonym observation = "(string \<Rightarrow> fs_error + FileData) \<times> (string \<Rightarrow> bool) \<times> (fs_error + string set) \<times> (string \<Rightarrow> fs_error + bytes)"

definition observe :: "('st, 'f) StorageBackend \<Rightarrow> 'f \<Rightarrow> 'st \<Rightarrow> observation" where
  "observe B f st = (so_read B f st, sb_FileExists B f st, sb_ListFiles B f st, sb_ReadTemplate B f st)"

definition spec_observe :: "abs_store \<Rightarrow> observation" where
  "spec_observe a =
     (\<lambda>eid. if isValidEntityID eid then (case as_entities a eid of None \<Rightarrow> Inl ErrFileNotFound | Some x \<Rightarrow> Inr x) else Inl ErrInvalidID,
      \<lambda>eid. as_entities a eid \<noteq> None,
      Inr (dom (as_entities a)),
      \<lambda>sid. if isValidEntityID sid then (case as_templates a sid of None \<Rightarrow> Inl ErrFileNotFound | Some d \<Rightarrow> Inr d)
            else Inl (FsMessage ''invalid schema ID''))"

section \<open>Refinement\<close>

text \<open>A backend with a relation to the specification that every call keeps and every observation follows.\<close>

locale backend_refines =
  fixes B :: "('st, 'f) StorageBackend" and ok :: 'f and cod :: "FileMetadata \<Rightarrow> bool" and rel :: "abs_store \<Rightarrow> 'st \<Rightarrow> bool"
  assumes simulates: "rel a st \<Longrightarrow> call_codable cod c \<Longrightarrow> rel (fst (spec_call c a)) (fst (do_call B ok c st)) \<and>
      snd (do_call B ok c st) = snd (spec_call c a)"
    and observes: "rel a st \<Longrightarrow> observe B ok st = spec_observe a"
begin

lemma run_simulates:
  assumes "rel a st" and "\<forall>c \<in> set cs. call_codable cod c"
  shows "rel (fst (run_calls spec_call cs a)) (fst (run_calls (do_call B ok) cs st)) \<and>
    snd (run_calls (do_call B ok) cs st) = snd (run_calls spec_call cs a)"
  using assms
proof (induction cs arbitrary: a st)
  case (Cons c cs)
  then have "rel (fst (spec_call c a)) (fst (do_call B ok c st))" "snd (do_call B ok c st) = snd (spec_call c a)"
    using simulates by simp_all
  with Cons.IH [OF this(1)] Cons.prems(2) show ?case by (simp add: Let_def case_prod_unfold)
qed simp

lemma run_observes:
  assumes "rel a st" and "\<forall>c \<in> set cs. call_codable cod c"
  shows "snd (run_calls (do_call B ok) cs st) = snd (run_calls spec_call cs a) \<and>
    observe B ok (fst (run_calls (do_call B ok) cs st)) = spec_observe (fst (run_calls spec_call cs a))"
  using run_simulates [OF assms] observes by blast

end

section \<open>The local backend\<close>

text \<open>Each entity has exactly its two files, each template its file.\<close>

fun kept :: "meta_codec \<Rightarrow> string \<Rightarrow> FileData option \<Rightarrow> bytes option \<Rightarrow> bytes option \<Rightarrow> bool" where
  "kept J eid None blob meta \<longleftrightarrow> blob = None \<and> meta = None"
| "kept J eid (Some x) blob meta \<longleftrightarrow>
     isValidEntityID eid \<and> codable J (fd_Metadata x) \<and> blob = Some (fd_Blob x) \<and> meta = mc_marshal J (fd_Metadata x)"

definition keeps :: "meta_codec \<Rightarrow> (string \<rightharpoonup> FileData) \<Rightarrow> (string \<rightharpoonup> bytes) \<Rightarrow> (string \<rightharpoonup> bytes) \<Rightarrow> bool" where
  "keeps J ents blob meta \<longleftrightarrow> (\<forall>eid. kept J eid (ents eid) (blob eid) (meta eid))"

definition local_rel :: "meta_codec \<Rightarrow> Storage \<Rightarrow> abs_store \<Rightarrow> file_sys \<Rightarrow> bool" where
  "local_rel J s a fs \<longleftrightarrow> storage_inv s fs \<and> plain_dir (templates_at s) fs \<and>
     keeps J (as_entities a) (\<lambda>eid. entry (files_at s) fs (eid @ ''.json.enc'')) (\<lambda>eid. entry (files_at s) fs (eid @ ''.meta.json'')) \<and>
     (\<forall>sid. entry (templates_at s) fs (sid @ ''.json'') = as_templates a sid) \<and> (\<forall>sid \<in> dom (as_templates a). isValidEntityID sid)"

lemma keepsD:
  assumes "keeps J ents blob meta"
  shows "ents eid = None \<Longrightarrow> blob eid = None \<and> meta eid = None"
    "ents eid = Some x \<Longrightarrow> isValidEntityID eid \<and> blob eid = Some (fd_Blob x) \<and> (\<exists>t. meta eid = Some t \<and> mc_unmarshal J t = Some (fd_Metadata x))"
proof -
  have k: "kept J eid (ents eid) (blob eid) (meta eid)" using assms by (simp add: keeps_def)
  then show "ents eid = None \<Longrightarrow> blob eid = None \<and> meta eid = None" by simp
  assume "ents eid = Some x"
  with k show "isValidEntityID eid \<and> blob eid = Some (fd_Blob x) \<and> (\<exists>t. meta eid = Some t \<and> mc_unmarshal J t = Some (fd_Metadata x))"
    by (cases "mc_marshal J (fd_Metadata x)") (simp_all add: codable_def)
qed

lemma keeps_put:
  assumes "keeps J ents blob meta" and "isValidEntityID eid" and "codable J m" and "mc_marshal J m = Some t"
    and "blob' = blob(eid \<mapsto> b)" and "meta' = meta(eid \<mapsto> t)"
  shows "keeps J (ents(eid \<mapsto> \<lparr>fd_Blob = b, fd_Metadata = m\<rparr>)) blob' meta'"
  using assms by (simp add: keeps_def)

lemma keeps_drop:
  assumes "keeps J ents blob meta" and "blob' = blob(eid := None)" and "meta' = meta(eid := None)"
  shows "keeps J (ents(eid := None)) blob' meta'"
  using assms by (simp add: keeps_def)

text \<open>The files and the templates are in sibling directories, so a change of an entry of one leaves the other.\<close>

definition siblings :: "path \<Rightarrow> path \<Rightarrow> bool" where
  "siblings d d' \<longleftrightarrow> d \<noteq> d' \<and> fst d = fst d' \<and> length (snd d) = length (snd d')"

lemma siblings_dirs: "siblings (files_at s) (templates_at s)" "siblings (templates_at s) (files_at s)"
  by (simp_all add: siblings_def files_at_def templates_at_def child_def)

lemma sibling_untouched:
  assumes "siblings d d'" and "\<forall>q. (\<forall>n. q \<noteq> child d n) \<longrightarrow> node_at fs' q = node_at fs q"
  shows "plain_dir d' fs \<Longrightarrow> plain_dir d' fs'" "entry d' fs' = entry d' fs"
proof -
  have "child d' n' \<noteq> child d n" for n n' using assms(1) by (auto simp: siblings_def child_def prod_eq_iff)
  then have ch: "node_at fs' (child d' n) = node_at fs (child d' n)" for n using assms(2) by blast
  have "(fst d', take i (snd d')) \<noteq> child d n" if "i \<le> length (snd d')" for i n
    using that assms(1) by (auto simp: siblings_def child_def dest!: arg_cong [of _ _ length])
  then have up: "node_at fs' (fst d', take i (snd d')) = node_at fs (fst d', take i (snd d'))" if "i \<le> length (snd d')" for i
    using that assms(2) by blast
  show "entry d' fs' = entry d' fs" by (simp add: entry_def ch fun_eq_iff)
  show "plain_dir d' fs \<Longrightarrow> plain_dir d' fs'" using up [of "length (snd d')"] up ch by (simp add: plain_dir_def is_dir_def)
qed

lemma WriteFile_outside:
  assumes "storage_inv s fs" and "isValidEntityID eid" and "\<forall>n. q \<noteq> child (files_at s) n"
  shows "node_at (fst (WriteFile J s no_faults eid b m fs)) q = node_at fs q" "node_at (fst (DeleteFile s no_faults eid fs)) q = node_at fs q"
  using assms(2,3) storage_inv_dir [OF assms(1)] write_paths [OF assms(1,2)]
  by (simp_all add: WriteFile_def DeleteFile_def Let_def writeSynced_entry [where d = "files_at s"]
      Rename_entry [where d = "files_at s"] Remove_entry [where d = "files_at s"] split: option.splits)

lemma template_path:
  assumes "storage_inv s fs" and "isValidEntityID sid"
  shows "resolve (Join (GetTemplatesDir s) (sid @ ''.json'')) = child (templates_at s) (sid @ ''.json'')" "plain_name (sid @ ''.json'')"
proof -
  show pl: "plain_name (sid @ ''.json'')" using assms(2) by (simp add: plain_name_suffix)
  show "resolve (Join (GetTemplatesDir s) (sid @ ''.json'')) = child (templates_at s) (sid @ ''.json'')"
    using resolve_dirs [OF storage_inv_base [OF assms(1)]] pl by simp
qed

lemma local_write:
  assumes rel: "local_rel J s a fs" and "isValidEntityID eid" and "codable J m"
  shows "local_rel J s (a\<lparr>as_entities := (as_entities a)(eid \<mapsto> \<lparr>fd_Blob = b, fd_Metadata = m\<rparr>)\<rparr>) (fst (WriteFile J s no_faults eid b m fs)) \<and>
    snd (WriteFile J s no_faults eid b m fs) = None"
proof -
  note inv = rel [unfolded local_rel_def, THEN conjunct1]
  let ?fs = "fst (WriteFile J s no_faults eid b m fs)" and ?E = "entry (files_at s)"
  obtain t where t: "mc_marshal J m = Some t" using assms(3) by (auto simp: codable_def split: option.splits)
  have ok: "snd (WriteFile J s no_faults eid b m fs) = None" using no_faults_succeed(1) [OF inv assms(2)] t by simp
  with WriteFile_effect [OF inv assms(2) t, of no_faults b]
  have inv': "storage_inv s ?fs" and eff: "write_effect eid b t None (?E fs) (?E ?fs)"
    using inv by (auto simp: storage_inv_def split: prod.splits)
  note out = sibling_untouched [OF siblings_dirs(1), of s ?fs fs] WriteFile_outside(1) [OF inv assms(2), of _ J b m]
  have "?E ?fs (x @ ''.json.enc'') = (if x = eid then Some b else ?E fs (x @ ''.json.enc''))"
    "?E ?fs (x @ ''.meta.json'') = (if x = eid then Some t else ?E fs (x @ ''.meta.json''))" for x
    using eff by (simp_all add: write_effect_def)
  then have "(\<lambda>x. ?E ?fs (x @ ''.json.enc'')) = (\<lambda>x. ?E fs (x @ ''.json.enc''))(eid \<mapsto> b)"
    "(\<lambda>x. ?E ?fs (x @ ''.meta.json'')) = (\<lambda>x. ?E fs (x @ ''.meta.json''))(eid \<mapsto> t)" by auto
  then have "keeps J ((as_entities a)(eid \<mapsto> \<lparr>fd_Blob = b, fd_Metadata = m\<rparr>)) (\<lambda>x. ?E ?fs (x @ ''.json.enc'')) (\<lambda>x. ?E ?fs (x @ ''.meta.json''))"
    using keeps_put [OF _ assms(2,3) t] rel by (simp add: local_rel_def)
  then show ?thesis using ok inv' out rel by (simp add: local_rel_def)
qed

lemma local_delete:
  assumes rel: "local_rel J s a fs" and "isValidEntityID eid"
  shows "local_rel J s (a\<lparr>as_entities := (as_entities a)(eid := None)\<rparr>) (fst (DeleteFile s no_faults eid fs)) \<and>
    snd (DeleteFile s no_faults eid fs) = None"
proof -
  note inv = rel [unfolded local_rel_def, THEN conjunct1]
  let ?fs = "fst (DeleteFile s no_faults eid fs)" and ?E = "entry (files_at s)"
  have ok: "snd (DeleteFile s no_faults eid fs) = None" by (rule no_faults_succeed(2) [OF inv assms(2)])
  with DeleteFile_effect [OF inv assms(2), of no_faults]
  have inv': "storage_inv s ?fs" and eff: "?E ?fs = (?E fs)(eid @ ''.json.enc'' := None, eid @ ''.meta.json'' := None)"
    using inv by (auto simp: storage_inv_def delete_effect_def split: prod.splits)
  note out = sibling_untouched [OF siblings_dirs(1), of s ?fs fs] WriteFile_outside(2) [OF inv assms(2)]
  have "(\<lambda>x. ?E ?fs (x @ ''.json.enc'')) = (\<lambda>x. ?E fs (x @ ''.json.enc''))(eid := None)"
    "(\<lambda>x. ?E ?fs (x @ ''.meta.json'')) = (\<lambda>x. ?E fs (x @ ''.meta.json''))(eid := None)" by (auto simp: eff)
  then have "keeps J ((as_entities a)(eid := None)) (\<lambda>x. ?E ?fs (x @ ''.json.enc'')) (\<lambda>x. ?E ?fs (x @ ''.meta.json''))"
    using keeps_drop rel by (simp add: local_rel_def)
  then show ?thesis using ok inv' out rel by (simp add: local_rel_def)
qed

lemma local_template:
  assumes rel: "local_rel J s a fs" and "isValidEntityID sid"
  shows "local_rel J s (a\<lparr>as_templates := (as_templates a)(sid \<mapsto> d)\<rparr>) (fst (WriteTemplate s no_faults sid d fs)) \<and>
    snd (WriteTemplate s no_faults sid d fs) = None"
proof -
  note inv = rel [unfolded local_rel_def, THEN conjunct1]
  have pd: "plain_dir (templates_at s) fs" using rel by (simp add: local_rel_def)
  let ?fs = "fst (os_WriteFile no_faults (Join (GetTemplatesDir s) (sid @ ''.json'')) d fs)"
  note w = WriteFile_entry [OF pd template_path [OF inv assms(2)], of d]
  have "snd (os_WriteFile no_faults (Join (GetTemplatesDir s) (sid @ ''.json'')) d fs) = None"
    using OpenFile_entry [OF pd template_path [OF inv assms(2)]] by (simp add: os_WriteFile_def os_Write_def os_Close_def Let_def)
  then have wt: "WriteTemplate s no_faults sid d fs = (?fs, None)"
    using assms(2) by (auto simp: WriteTemplate_def Let_def split: prod.splits option.splits)
  have "\<forall>q. (\<forall>n. q \<noteq> child (templates_at s) n) \<longrightarrow> node_at ?fs q = node_at fs q" using w(3) by blast
  note out = sibling_untouched [OF siblings_dirs(2) this]
  show ?thesis
    using rel out w(1,2) assms(2) unfolding wt fst_conv snd_conv by (auto simp: local_rel_def storage_inv_def)
qed

lemma local_observes:
  assumes rel: "local_rel J s a fs"
  shows "observe (local_backend J s) no_faults fs = spec_observe a"
proof -
  note inv = rel [unfolded local_rel_def, THEN conjunct1]
  note k = keepsD [OF rel [unfolded local_rel_def, THEN conjunct2, THEN conjunct2, THEN conjunct1]]
  have valid: "isValidEntityID eid" if "as_entities a eid = Some x" for eid x using k(2) [OF that] by simp
  have ne: "\<not> isValidEntityID []" by (simp add: isValidEntityID_iff)
  have "fs_ReadFile J s no_faults fs eid = fst (spec_observe a) eid" for eid
    using k(1,2) [of eid] by (cases "as_entities a eid") (auto simp: ReadFile_stored [OF inv] stored_def spec_observe_def)
  moreover have "FileExists s no_faults fs eid \<longleftrightarrow> as_entities a eid \<noteq> None" for eid
  proof (cases "isValidEntityID eid")
    case True
    with k(1,2) [of eid] show ?thesis by (cases "as_entities a eid") (auto simp: FileExists_entry [OF inv])
  next
    case False
    with valid [of eid] show ?thesis by (cases "as_entities a eid") (auto simp: FileExists_def)
  qed
  moreover have "{eid. eid \<noteq> [] \<and> (entry (files_at s) fs (eid @ ''.json.enc'') \<noteq> None \<or> entry (files_at s) fs (eid @ ''.meta.json'') \<noteq> None)}
      = dom (as_entities a)"
    using k valid ne by (fastforce simp: dom_def)
  moreover have "ReadTemplate s no_faults fs sid = snd (snd (snd (spec_observe a))) sid" for sid
  proof (cases "isValidEntityID sid")
    case True
    have "plain_dir (templates_at s) fs" "entry (templates_at s) fs (sid @ ''.json'') = as_templates a sid" using rel by (simp_all add: local_rel_def)
    with ReadFile_entry [OF this(1) template_path [OF inv True], of no_faults] True show ?thesis
      by (simp add: ReadTemplate_def Let_def spec_observe_def split: option.splits)
  qed (simp add: ReadTemplate_def spec_observe_def)
  ultimately show ?thesis
    by (simp add: observe_def local_backend_def ListFiles_entry [OF inv] spec_observe_def fun_eq_iff)
qed

interpretation local_refines: backend_refines "local_backend J s" no_faults "codable J" "local_rel J s" for J s
proof
  fix a fs c
  assume rel: "local_rel J s a fs" and "call_codable (codable J) c"
  then show "local_rel J s (fst (spec_call c a)) (fst (do_call (local_backend J s) no_faults c fs)) \<and>
      snd (do_call (local_backend J s) no_faults c fs) = snd (spec_call c a)"
    using local_write [OF rel] local_delete [OF rel] local_template [OF rel]
    by (cases c) (simp_all add: local_backend_def WriteFile_def DeleteFile_def WriteTemplate_def)
qed (rule local_observes)

section \<open>The S3 backend\<close>

text \<open>The documented behaviour of \<open>StatObject\<close>, on top of the other calls.\<close>

locale stat_store = listed_store +
  assumes stat_none: "ready ob \<Longrightarrow> s3_stat C none bucket k ob = (if view ob k = None then Some NoSuchKey else None)"

definition s3_rel ::
    "meta_codec \<Rightarrow> string \<Rightarrow> ('o \<Rightarrow> string \<Rightarrow> bytes option) \<Rightarrow> ('o \<Rightarrow> bool) \<Rightarrow> abs_store \<Rightarrow> 'o s3_state \<Rightarrow> bool" where
  "s3_rel J bucket view ready a = (\<lambda>(s, ob, fs). s3_bucket s = bucket \<and> ready ob \<and>
     keeps J (as_entities a) (\<lambda>eid. view ob (blobKey eid)) (\<lambda>eid. view ob (metaKey eid)) \<and>
     (\<forall>sid. view ob (templateKey sid) = as_templates a sid))"

lemma template_key_differs: "templateKey a \<noteq> blobKey b" "templateKey a \<noteq> metaKey b" "blobKey b \<noteq> templateKey a" "metaKey b \<noteq> templateKey a"
  by (simp_all add: templateKey_def blobKey_def metaKey_def)

lemma GetTemplatesDir_bucket: "s3_GetTemplatesDir C F G tmp ob s fs = (s', fs', dir) \<Longrightarrow> s3_bucket s' = s3_bucket s"
  by (auto simp: s3_GetTemplatesDir_def Let_def split: if_splits option.splits)

context stat_store
begin

lemma s3_write_refines:
  assumes rel: "s3_rel J bucket view ready a (s, ob, fs)" and "isValidEntityID eid" and "codable J m"
    and w: "s3_WriteFile C J s none eid b m ob = (ob', e)"
  shows "s3_rel J bucket view ready (a\<lparr>as_entities := (as_entities a)(eid \<mapsto> \<lparr>fd_Blob = b, fd_Metadata = m\<rparr>)\<rparr>) (s, ob', fs) \<and> e = None"
proof -
  have ob: "ready ob" and s: "s3_bucket s = bucket" using rel by (simp_all add: s3_rel_def)
  obtain t where t: "mc_marshal J m = Some t" using assms(3) by (auto simp: codable_def split: option.splits)
  obtain ob1 where p1: "s3_put C none bucket (blobKey eid) b ob = (ob1, None)" using put_none [OF ob] by (metis prod.collapse)
  have ob1: "ready ob1" using put_ready [OF ob, of none "blobKey eid" b] p1 by simp
  obtain ob2 where p2: "s3_put C none bucket (metaKey eid) t ob1 = (ob2, None)" using put_none [OF ob1] by (metis prod.collapse)
  have ob2: "ready ob2" using put_ready [OF ob1, of none "metaKey eid" t] p2 by simp
  have v: "view ob2 = (view ob)(blobKey eid \<mapsto> b, metaKey eid \<mapsto> t)" using put_ok [OF ob p1] put_ok [OF ob1 p2] by simp
  have "ob' = ob2" "e = None" using w assms(2) t p1 p2 s by (simp_all add: s3_WriteFile_def)
  moreover have "(\<lambda>x. view ob2 (blobKey x)) = (\<lambda>x. view ob (blobKey x))(eid \<mapsto> b)"
    "(\<lambda>x. view ob2 (metaKey x)) = (\<lambda>x. view ob (metaKey x))(eid \<mapsto> t)" by (auto simp: v)
  then have "keeps J ((as_entities a)(eid \<mapsto> \<lparr>fd_Blob = b, fd_Metadata = m\<rparr>)) (\<lambda>x. view ob2 (blobKey x)) (\<lambda>x. view ob2 (metaKey x))"
    using keeps_put [OF _ assms(2,3) t] rel by (simp add: s3_rel_def)
  ultimately show ?thesis using rel ob2 by (simp add: s3_rel_def v template_key_differs)
qed

lemma s3_delete_refines:
  assumes rel: "s3_rel J bucket view ready a (s, ob, fs)" and "isValidEntityID eid" and d: "s3_DeleteFile C s none eid ob = (ob', e)"
  shows "s3_rel J bucket view ready (a\<lparr>as_entities := (as_entities a)(eid := None)\<rparr>) (s, ob', fs) \<and> e = None"
proof -
  have ob: "ready ob" and s: "s3_bucket s = bucket" using rel by (simp_all add: s3_rel_def)
  obtain ob1 where p1: "s3_remove C none bucket (blobKey eid) ob = (ob1, None)" using remove_none [OF ob] by (metis prod.collapse)
  have ob1: "ready ob1" using remove_ready [OF ob, of none "blobKey eid"] p1 by simp
  obtain ob2 where p2: "s3_remove C none bucket (metaKey eid) ob1 = (ob2, None)" using remove_none [OF ob1] by (metis prod.collapse)
  have ob2: "ready ob2" using remove_ready [OF ob1, of none "metaKey eid"] p2 by simp
  have v: "view ob2 = (view ob)(blobKey eid := None, metaKey eid := None)" using remove_ok [OF ob p1] remove_ok [OF ob1 p2] by simp
  have "ob' = ob2" "e = None" using d assms(2) p1 p2 s by (simp_all add: s3_DeleteFile_def)
  moreover have "(\<lambda>x. view ob2 (blobKey x)) = (\<lambda>x. view ob (blobKey x))(eid := None)"
    "(\<lambda>x. view ob2 (metaKey x)) = (\<lambda>x. view ob (metaKey x))(eid := None)" by (auto simp: v)
  then have "keeps J ((as_entities a)(eid := None)) (\<lambda>x. view ob2 (blobKey x)) (\<lambda>x. view ob2 (metaKey x))"
    using keeps_drop rel by (simp add: s3_rel_def)
  ultimately show ?thesis using rel ob2 by (simp add: s3_rel_def v template_key_differs)
qed

text \<open>A template is stored whatever becomes of its local copy.\<close>

lemma s3_template_refines:
  assumes rel: "s3_rel J bucket view ready a (s, ob, fs)" and "isValidEntityID sid"
    and w: "s3_WriteTemplate C none G tmp sid d s ob fs = (s', ob', fs', e)"
  shows "s3_rel J bucket view ready (a\<lparr>as_templates := (as_templates a)(sid \<mapsto> d)\<rparr>) (s', ob', fs') \<and> e = None"
proof -
  have ob: "ready ob" and s: "s3_bucket s = bucket" using rel by (simp_all add: s3_rel_def)
  obtain ob1 where p: "s3_put C none bucket (templateKey sid) d ob = (ob1, None)" using put_none [OF ob] by (metis prod.collapse)
  have ob1: "ready ob1" using put_ready [OF ob, of none "templateKey sid" d] p by simp
  obtain s1 fs1 dir where g: "s3_GetTemplatesDir C none G tmp ob1 s fs = (s1, fs1, dir)" by (metis prod_cases3)
  have "ob' = ob1" "s' = s1" "e = None" using w assms(2) p s g by (simp_all add: s3_WriteTemplate_def)
  with rel ob1 put_ok [OF ob p] GetTemplatesDir_bucket [OF g] show ?thesis
    by (auto simp: s3_rel_def template_key_differs key_names)
qed

lemma s3_observes:
  assumes rel: "s3_rel J bucket view ready a st"
  shows "observe (s3_backend C J) (none, G, tmp) st = spec_observe a"
proof -
  obtain s ob fs where st: "st = (s, ob, fs)" by (cases st)
  have ob: "ready ob" and s: "s3_bucket s = bucket" and k0: "keeps J (as_entities a) (\<lambda>eid. view ob (blobKey eid)) (\<lambda>eid. view ob (metaKey eid))"
    and t: "view ob (templateKey sid) = as_templates a sid" for sid using rel by (simp_all add: s3_rel_def st)
  note k = keepsD [OF k0]
  have valid: "isValidEntityID eid" if "as_entities a eid = Some x" for eid x using k(2) [OF that] by simp
  have "s3_ReadFile C J s none ob eid = fst (spec_observe a) eid" for eid
    using k(1,2) [of eid] by (cases "as_entities a eid") (auto simp: read_none [OF ob s] s3_stored_def spec_observe_def)
  moreover have "s3_FileExists C s none ob eid \<longleftrightarrow> as_entities a eid \<noteq> None" for eid
    using k(1,2) [of eid] by (cases "as_entities a eid") (auto simp: s3_FileExists_def stat_none [OF ob] s)
  moreover have "{eid. view ob (blobKey eid) \<noteq> None \<or> view ob (metaKey eid) \<noteq> None} = dom (as_entities a)"
    using k by (fastforce simp: dom_def)
  moreover have "s3_ReadTemplate C none sid s ob = snd (snd (snd (spec_observe a))) sid" for sid
    using get_none [OF ob, of "templateKey sid"] by (simp add: s3_ReadTemplate_def s spec_observe_def t split: option.splits)
  ultimately show ?thesis
    by (simp add: observe_def s3_backend_def st ListFiles_objects [OF ob s] spec_observe_def fun_eq_iff)
qed

lemma s3_refines: "backend_refines (s3_backend C J) (none, G, tmp) (codable J) (s3_rel J bucket view ready)"
proof
  fix a st c
  assume rel: "s3_rel J bucket view ready a st" and cod: "call_codable (codable J) c"
  obtain s ob fs where st: "st = (s, ob, fs)" by (cases st)
  show "s3_rel J bucket view ready (fst (spec_call c a)) (fst (do_call (s3_backend C J) (none, G, tmp) c st)) \<and>
      snd (do_call (s3_backend C J) (none, G, tmp) c st) = snd (spec_call c a)"
    using rel cod s3_write_refines [OF rel [unfolded st]] s3_delete_refines [OF rel [unfolded st]] s3_template_refines [OF rel [unfolded st], of _ G tmp]
    by (cases c) (auto simp: st s3_backend_def invalid_noop s3_WriteTemplate_def split: prod.splits)
qed (rule s3_observes)

end

interpretation map_stat: stat_store map_client bucket "\<lambda>_. None" "bucket_objects bucket"
    "\<lambda>bs. bs bucket \<noteq> None \<and> finite (dom (the (bs bucket)))" for bucket
  by unfold_locales (auto simp: map_client_def bucket_objects_def)

interpretation s3_map_refines: backend_refines "s3_backend map_client J" "(\<lambda>_. None, G, tmp)" "codable J"
    "s3_rel J bucket (bucket_objects bucket) (\<lambda>bs. bs bucket \<noteq> None \<and> finite (dom (the (bs bucket))))" for J G tmp bucket
  by (rule map_stat.s3_refines)

section \<open>Properties\<close>

text \<open>
  C5. The two storage backends are interchangeable: take a directory and a bucket, both empty, an object store
  that keeps its documented promises, and any sequence of calls of WriteFile, DeleteFile and
  WriteTemplate without faults, with valid and invalid ids.  Both return the same errors, those of the
  specification by two maps, and afterwards ReadFile, FileExists, ListFiles and ReadTemplate of both
  return what the specification says, for every id.
\<close>

theorem storage_backends_refine_spec:
  assumes "stat_store C (s3_bucket t) none view ready" and "ready ob" and "\<forall>k. view ob k = None"
    and "storage_inv s fs" and "plain_dir (templates_at s) fs"
    and "\<forall>n. entry (files_at s) fs n = None" and "\<forall>n. entry (templates_at s) fs n = None"
    and "\<forall>c \<in> set cs. call_codable (codable J) c"
    and "run_calls (do_call (local_backend J s) no_faults) cs fs = (fs', errs)"
    and "run_calls (do_call (s3_backend C J) (none, G, tmp)) cs (t, ob, tree) = (st', errs')"
  shows "errs' = errs \<and> errs = snd (run_calls spec_call cs empty_store) \<and>
    observe (local_backend J s) no_faults fs' = spec_observe (fst (run_calls spec_call cs empty_store)) \<and>
    observe (s3_backend C J) (none, G, tmp) st' = observe (local_backend J s) no_faults fs'"
proof -
  have "local_rel J s empty_store fs" using assms(4-7) by (simp add: local_rel_def empty_store_def keeps_def)
  note l = local_refines.run_observes [OF this assms(8)]
  have "s3_rel J (s3_bucket t) view ready empty_store (t, ob, tree)" using assms(2,3) by (simp add: s3_rel_def empty_store_def keeps_def)
  note r = backend_refines.run_observes [OF stat_store.s3_refines [OF assms(1)] this assms(8), of G tmp]
  from l r assms(9,10) show ?thesis by simp
qed

theorem storage_backends_refine_spec_witness:
  "observe (s3_backend map_client sample_codec) (\<lambda>_. None, no_faults, None)
      (fst (run_calls (do_call (s3_backend map_client sample_codec) (\<lambda>_. None, no_faults, None))
        [PutFile ''chat_1'' ''x'' (sample_meta ''t1'' 1), PutTemplate ''chat'' ''{}'', DropFile ''..''] (sample_s3, sample_buckets, []))) =
    observe (local_backend sample_codec sample_store) no_faults
      (fst (run_calls (do_call (local_backend sample_codec sample_store) no_faults)
        [PutFile ''chat_1'' ''x'' (sample_meta ''t1'' 1), PutTemplate ''chat'' ''{}'', DropFile ''..''] sample_tree))"
proof -
  let ?cs = "[PutFile ''chat_1'' ''x'' (sample_meta ''t1'' 1), PutTemplate ''chat'' ''{}'', DropFile ''..'']"
  have td: "templates_at sample_store = (True, [''db'', ''templates''])" by code_simp
  have "is_dir sample_tree (True, [''db'', ''templates''])" by code_simp
  then have pd: "plain_dir (templates_at sample_store) sample_tree" by (simp add: plain_dir_def td sample_tree_def child_def)
  have te: "\<forall>n. entry (templates_at sample_store) sample_tree n = None" by (simp add: entry_def td sample_tree_def child_def)
  have cod: "\<forall>c \<in> set ?cs. call_codable (codable sample_codec) c" by (simp add: codable_def sample_codec_def)
  have ob: "sample_buckets (s3_bucket sample_s3) \<noteq> None \<and> finite (dom (the (sample_buckets (s3_bucket sample_s3))))"
    "\<forall>k. bucket_objects (s3_bucket sample_s3) sample_buckets k = None" by (simp_all add: sample_buckets_def sample_s3_def bucket_objects_def)
  have fe: "\<forall>n. entry (files_at sample_store) sample_tree n = None" by (simp add: sample_empty)
  obtain fs' errs where l: "run_calls (do_call (local_backend sample_codec sample_store) no_faults) ?cs sample_tree = (fs', errs)" by fastforce
  obtain st' errs' where r: "run_calls (do_call (s3_backend map_client sample_codec) (\<lambda>_. None, no_faults, None)) ?cs (sample_s3, sample_buckets, []) = (st', errs')"
    by fastforce
  from storage_backends_refine_spec [OF map_stat.stat_store_axioms [of "s3_bucket sample_s3"] ob sample_inv pd fe te cod l r] show ?thesis
    unfolding l r fst_conv by (elim conjE)
qed

end
