(* ===== verification/Lock_Backends.thy ===== *)
theory Lock_Backends
  imports Lock_Properties Memory_Locks Storage_Properties
begin

text \<open>
  The interface \<open>LockBackend\<close> of pkg/fs/backend.go, its two implementations as one caller at a time sees them,
  and the specification they share: the set of the ids that the manager holds.  They differ in
  one point, stated at the end: what \<open>AcquireLock\<close> does for an id that the same manager holds already.
\<close>

section \<open>The interface\<close>

text \<open>
  What a call returns.  \<open>LockWaits\<close> is a call that does not return yet; \<open>LockCrash\<close> the fatal error of Go for a
  mutex that is unlocked twice.
\<close>

datatype lock_reply = LockGranted | LockRefused lock_error | LockWaits | LockReleased "lock_error option" | LockCrash

record ('k, 'f) LockBackend =
  lb_AcquireLock :: "'f \<Rightarrow> string \<Rightarrow> LockType \<Rightarrow> 'k \<Rightarrow> 'k \<times> lock_reply"
  lb_TryAcquireLock :: "'f \<Rightarrow> string \<Rightarrow> LockType \<Rightarrow> 'k \<Rightarrow> 'k \<times> lock_reply"
  lb_ReleaseLock :: "'f \<Rightarrow> string \<Rightarrow> 'k \<Rightarrow> 'k \<times> lock_reply"
  lb_ReleaseAll :: "'f \<Rightarrow> 'k \<Rightarrow> 'k \<times> lock_reply"

text \<open>The file locks: the state is the system's lock table and the manager; \<open>order\<close> is the iteration order of the map.\<close>

fun acquired_reply :: "LockManager \<Rightarrow> lock_sys \<times> acquired \<Rightarrow> (lock_sys \<times> LockManager) \<times> lock_reply" where
  "acquired_reply lm (w, Granted lm') = ((w, lm'), LockGranted)"
| "acquired_reply lm (w, Refused e) = ((w, lm), LockRefused e)"
| "acquired_reply lm (w, Waiting fl) = ((w, lm), LockWaits)"

definition file_locks :: "(string set \<Rightarrow> string list) \<Rightarrow> (lock_sys \<times> LockManager, faults) LockBackend" where
  "file_locks order = \<lparr>
     lb_AcquireLock = (\<lambda>F eid t (w, lm). acquired_reply lm (AcquireLock F lm eid t w)),
     lb_TryAcquireLock = (\<lambda>F eid t (w, lm). acquired_reply lm (TryAcquireLock F lm eid t w)),
     lb_ReleaseLock = (\<lambda>F eid (w, lm). case ReleaseLock F lm eid w of (w', lm', e) \<Rightarrow> ((w', lm'), LockReleased e)),
     lb_ReleaseAll = (\<lambda>F (w, lm). case ReleaseAll F (order (dom (lm_locks lm))) lm w of (w', lm', e) \<Rightarrow> ((w', lm'), LockReleased e))\<rparr>"

definition memory_locks :: "(MemoryLockManager, unit) LockBackend" where
  "memory_locks = \<lparr>
     lb_AcquireLock = (\<lambda>_ eid t m. case mem_AcquireLock eid t m of
        Done m' \<Rightarrow> (m', LockGranted) | Fails e \<Rightarrow> (m, LockRefused e) | Blocks \<Rightarrow> (fst (mem_get eid m), LockWaits)),
     lb_TryAcquireLock = (\<lambda>_ eid t m. case mem_TryAcquireLock eid t m of
        (m', None) \<Rightarrow> (m', LockGranted) | (m', Some e) \<Rightarrow> (m', LockRefused e)),
     lb_ReleaseLock = (\<lambda>_ eid m. case mem_ReleaseLock eid m of Some m' \<Rightarrow> (m', LockReleased None) | None \<Rightarrow> (m, LockCrash)),
     lb_ReleaseAll = (\<lambda>_ m. (mem_ReleaseAll m, LockReleased None))\<rparr>"

section \<open>The specification\<close>

datatype lock_call = Acquire string LockType | TryAcquire string LockType | Release string | ReleaseEvery

fun spec_lock :: "lock_call \<Rightarrow> string set \<Rightarrow> string set \<times> lock_reply" where
  "spec_lock (Acquire eid t) H = (if eid \<in> H then (H, LockWaits) else (insert eid H, LockGranted))"
| "spec_lock (TryAcquire eid t) H = (if eid \<in> H then (H, LockRefused ErrAlreadyLocked) else (insert eid H, LockGranted))"
| "spec_lock (Release eid) H = (H - {eid}, LockReleased None)"
| "spec_lock ReleaseEvery H = ({}, LockReleased None)"

fun do_lock :: "('k, 'f) LockBackend \<Rightarrow> 'f \<Rightarrow> lock_call \<Rightarrow> 'k \<Rightarrow> 'k \<times> lock_reply" where
  "do_lock B f (Acquire eid t) k = lb_AcquireLock B f eid t k"
| "do_lock B f (TryAcquire eid t) k = lb_TryAcquireLock B f eid t k"
| "do_lock B f (Release eid) k = lb_ReleaseLock B f eid k"
| "do_lock B f ReleaseEvery k = lb_ReleaseAll B f k"

fun run_locks :: "(lock_call \<Rightarrow> 's \<Rightarrow> 's \<times> lock_reply) \<Rightarrow> lock_call list \<Rightarrow> 's \<Rightarrow> 's \<times> lock_reply list" where
  "run_locks f [] st = (st, [])"
| "run_locks f (c # cs) st = (let (st1, e) = f c st; (st2, es) = run_locks f cs st1 in (st2, e # es))"

text \<open>A call that a single caller can make: it waits for no lock that the manager itself holds, and names valid ids.\<close>

fun lock_proper :: "lock_call \<Rightarrow> string set \<Rightarrow> bool" where
  "lock_proper (Acquire eid t) H \<longleftrightarrow> isValidEntityID eid \<and> eid \<notin> H"
| "lock_proper (TryAcquire eid t) H \<longleftrightarrow> isValidEntityID eid"
| "lock_proper _ H \<longleftrightarrow> True"

fun locks_proper :: "lock_call list \<Rightarrow> string set \<Rightarrow> bool" where
  "locks_proper [] H \<longleftrightarrow> True"
| "locks_proper (c # cs) H \<longleftrightarrow> lock_proper c H \<and> locks_proper cs (fst (spec_lock c H))"

locale lock_backend =
  fixes B :: "('k, 'f) LockBackend" and f :: 'f and rel :: "string set \<Rightarrow> 'k \<Rightarrow> bool"
  assumes lock_simulates: "rel H k \<Longrightarrow> lock_proper c H \<Longrightarrow> rel (fst (spec_lock c H)) (fst (do_lock B f c k)) \<and> snd (do_lock B f c k) = snd (spec_lock c H)"
begin

lemma locks_simulate:
  assumes "rel H k" and "locks_proper cs H"
  shows "rel (fst (run_locks spec_lock cs H)) (fst (run_locks (do_lock B f) cs k)) \<and>
    snd (run_locks (do_lock B f) cs k) = snd (run_locks spec_lock cs H)"
  using assms
proof (induction cs arbitrary: H k)
  case (Cons c cs)
  then have "rel (fst (spec_lock c H)) (fst (do_lock B f c k))" "snd (do_lock B f c k) = snd (spec_lock c H)"
    using lock_simulates by simp_all
  with Cons.IH [OF this(1)] Cons.prems(2) show ?case by (simp add: Let_def case_prod_unfold)
qed simp

text \<open>A critical section of an idle manager: the lock is granted and gone afterwards.\<close>

lemma section_idle:
  assumes "rel {} k" and "isValidEntityID eid"
  obtains k' where "lb_AcquireLock B f eid t k = (k', LockGranted)" "rel {eid} k'" "rel {} (fst (lb_ReleaseLock B f eid k'))"
proof -
  have a: "rel {eid} (fst (lb_AcquireLock B f eid t k))" "snd (lb_AcquireLock B f eid t k) = LockGranted"
    using lock_simulates [OF assms(1), of "Acquire eid t"] assms(2) by simp_all
  moreover have "rel {} (fst (lb_ReleaseLock B f eid (fst (lb_AcquireLock B f eid t k))))"
    using lock_simulates [OF a(1), of "Release eid"] by simp
  ultimately show thesis by (intro that [of "fst (lb_AcquireLock B f eid t k)"]) (simp_all add: prod_eq_iff)
qed

end

section \<open>The file locks\<close>

text \<open>The manager is the only user of its lock files, and every lock of the table is in its map.\<close>

definition file_rel :: "Storage \<Rightarrow> string set \<Rightarrow> lock_sys \<times> LockManager \<Rightarrow> bool" where
  "file_rel s H = (\<lambda>(w, lm). lm_storage lm = s \<and> storage_inv s (ls_tree w) \<and> table_ok w \<and> dom (lm_locks lm) = H \<and> finite H \<and>
     (\<forall>eid \<in> H. isValidEntityID eid) \<and>
     (\<forall>eid fl. lm_locks lm eid = Some fl \<longrightarrow> fl_locked fl \<and> \<not> fl_closed fl \<and> fl_path fl = resolve (lock_path s eid) \<and> fl_file fl < ls_next w) \<and>
     (\<forall>h \<in> set (ls_table w). \<exists>eid fl. lm_locks lm eid = Some fl \<and> hl_handle h = fl_file fl \<and> hl_path h = fl_path fl))"

lemma lock_paths_differ:
  assumes "storage_inv s fs" and "isValidEntityID a" and "isValidEntityID b" and "a \<noteq> b"
  shows "resolve (lock_path s a) \<noteq> resolve (lock_path s b)"
  using lock_path_entry(1) [OF assms(1,2)] lock_path_entry(1) [OF assms(1,3)] assms(4) by simp

lemma file_free:
  assumes "file_rel s H (w, lm)" and "isValidEntityID eid" and "eid \<notin> H"
  shows "\<forall>h \<in> set (ls_table w). \<not> conflicts (resolve (lock_path (lm_storage lm) eid)) t h" "\<not> already_locked lm eid"
proof
  fix h
  assume "h \<in> set (ls_table w)"
  with assms(1) obtain eid' fl where e: "lm_locks lm eid' = Some fl" "hl_path h = fl_path fl" by (fastforce simp: file_rel_def)
  with assms(1) have "eid' \<in> H" "isValidEntityID eid'" "hl_path h = resolve (lock_path s eid')" by (auto simp: file_rel_def)
  moreover from this(1) assms(3) have "eid' \<noteq> eid" by auto
  ultimately show "\<not> conflicts (resolve (lock_path (lm_storage lm) eid)) t h"
    using assms(1,2) lock_paths_differ [of s "ls_tree w" eid' eid] by (simp add: file_rel_def conflicts_def)
next
  have "lm_locks lm eid = None" using assms(1,3) by (auto simp: file_rel_def)
  then show "\<not> already_locked lm eid" by (simp add: already_locked_def)
qed

lemma file_acquire:
  assumes rel: "file_rel s H (w, lm)" and "isValidEntityID eid" and "eid \<notin> H"
  obtains w' lm' where "AcquireLock no_faults lm eid t w = (w', Granted lm')" "file_rel s (insert eid H) (w', lm')"
proof -
  have inv: "storage_inv (lm_storage lm) (ls_tree w)" and ok: "table_ok w" and lm: "lm_storage lm = s" using rel by (simp_all add: file_rel_def)
  from acquire_free [OF inv assms(2) file_free(2,1) [OF assms]] obtain w' lm' where
    a: "AcquireLock no_faults lm eid t w = (w', Granted lm')" and inv': "storage_inv (lm_storage lm) (ls_tree w')" by blast
  from acquire_effect [OF ok disjI1 [OF a]] obtain fl where fl: "lm' = lm\<lparr>lm_locks := (lm_locks lm)(eid \<mapsto> fl)\<rparr>" "fl_locked fl" "\<not> fl_closed fl"
    "fl_file fl < ls_next w'" "fl_path fl = resolve (lock_path s eid)" and w': "table_ok w'" "ls_next w \<le> ls_next w'"
    "set (ls_table w') = insert \<lparr>hl_handle = fl_file fl, hl_path = fl_path fl, hl_type = t\<rparr> (set (ls_table w))"
    by (auto simp: lm)
  have free: "lm_locks lm eid = None" using rel assms(3) by (auto simp: file_rel_def)
  have "\<exists>e x. lm_locks lm' e = Some x \<and> hl_handle h = fl_file x \<and> hl_path h = fl_path x" if h: "h \<in> set (ls_table w')" for h
  proof (cases "h \<in> set (ls_table w)")
    case True
    with rel obtain e x where "lm_locks lm e = Some x" "hl_handle h = fl_file x" "hl_path h = fl_path x" by (fastforce simp: file_rel_def)
    with free show ?thesis by (intro exI [of _ e] exI [of _ x]) (auto simp: fl(1))
  next
    case False
    with h w'(3) show ?thesis by (intro exI [of _ eid] exI [of _ fl]) (simp add: fl(1))
  qed
  moreover have "fl_locked x \<and> \<not> fl_closed x \<and> fl_path x = resolve (lock_path s e) \<and> fl_file x < ls_next w'" if "lm_locks lm' e = Some x" for e x
  proof (cases "e = eid")
    case False
    with that have "lm_locks lm e = Some x" by (simp add: fl(1))
    with rel have "fl_locked x \<and> \<not> fl_closed x \<and> fl_path x = resolve (lock_path s e) \<and> fl_file x < ls_next w" by (simp add: file_rel_def)
    with w'(2) show ?thesis by simp
  qed (use that fl in simp)
  moreover have "dom (lm_locks lm') = insert eid H" "finite (insert eid H)" "\<forall>e \<in> insert eid H. isValidEntityID e"
    using rel assms(2) by (auto simp: fl(1) file_rel_def)
  ultimately have "file_rel s (insert eid H) (w', lm')" using inv' w'(1) lm by (simp add: file_rel_def fl(1))
  with a show thesis by (rule that)
qed

lemma Close_no_faults:
  "\<not> fl_closed fl \<Longrightarrow> lock_Close no_faults fl w =
    (drop_handle (fl_file fl) w, (if fl_locked fl then fl\<lparr>fl_locked := False\<rparr> else fl)\<lparr>fl_closed := True\<rparr>, None)"
  by (simp add: lock_Close_def Unlock_def platformUnlock_def close_file_def drop_handle_def)

lemma file_drop:
  assumes "file_rel s H (w, lm)" and "lm_locks lm eid = Some fl"
  shows "file_rel s (H - {eid}) (drop_handle (fl_file fl) w, lm\<lparr>lm_locks := (lm_locks lm)(eid := None)\<rparr>)"
proof -
  have "\<exists>e x. e \<noteq> eid \<and> lm_locks lm e = Some x \<and> hl_handle h = fl_file x \<and> hl_path h = fl_path x"
    if "h \<in> set (ls_table w)" "hl_handle h \<noteq> fl_file fl" for h
  proof -
    from that(1) assms(1) obtain e x where ex: "lm_locks lm e = Some x" "hl_handle h = fl_file x" "hl_path h = fl_path x"
      by (fastforce simp: file_rel_def)
    with assms(2) that(2) have "e \<noteq> eid" by auto
    with ex show ?thesis by blast
  qed
  then have tab: "\<forall>h \<in> set (ls_table (drop_handle (fl_file fl) w)). \<exists>e x. ((lm_locks lm)(eid := None)) e = Some x \<and> hl_handle h = fl_file x \<and> hl_path h = fl_path x"
    by (fastforce simp: set_drop_handle)
  have "ls_tree (drop_handle (fl_file fl) w) = ls_tree w" by (simp add: drop_handle_def)
  with tab assms(1) show ?thesis by (auto simp: file_rel_def drop_handle_ok split: if_splits)
qed

lemma file_release_each:
  assumes "file_rel s H (w, lm)" and "release_each no_faults ids lm None w = (w', lm', e)"
  shows "file_rel s (H - set ids) (w', lm') \<and> e = None"
  using assms
proof (induction ids arbitrary: H lm w)
  case (Cons eid ids)
  show ?case
  proof (cases "lm_locks lm eid")
    case None
    with Cons.prems(1) have "eid \<notin> H" by (auto simp: file_rel_def)
    with Cons.IH [OF Cons.prems(1)] Cons.prems(2) None show ?thesis by (simp add: Diff_insert0)
  next
    case (Some fl)
    have "\<not> fl_closed fl" using Cons.prems(1) Some by (auto simp: file_rel_def)
    with Some Cons.IH [OF file_drop [OF Cons.prems(1) Some]] Cons.prems(2) show ?thesis
      by (simp add: Close_no_faults Diff_insert2 [symmetric] del: no_faults_simp)
  qed
qed simp

lemma file_release:
  assumes "file_rel s H (w, lm)" and "ReleaseLock no_faults lm eid w = (w', lm', e)"
  shows "file_rel s (H - {eid}) (w', lm') \<and> e = None"
proof (cases "lm_locks lm eid")
  case None
  with assms(1) have "eid \<notin> H" by (auto simp: file_rel_def)
  with assms None show ?thesis by (auto simp: ReleaseLock_def)
next
  case (Some fl)
  have "\<not> fl_closed fl" using assms(1) Some by (auto simp: file_rel_def)
  with Some file_drop [OF assms(1) Some] assms(2) show ?thesis by (auto simp: ReleaseLock_def Close_no_faults)
qed

lemma file_lock_backend:
  assumes "\<forall>D. finite D \<longrightarrow> set (order D) = D"
  shows "lock_backend (file_locks order) no_faults (file_rel s)"
proof
  fix H k c
  assume "file_rel s H k" and pr: "lock_proper c H"
  moreover obtain w lm where k: "k = (w, lm)" by (cases k)
  ultimately have rel: "file_rel s H (w, lm)" by simp
  have held: "already_locked lm eid" if "eid \<in> H" for eid
    using rel that by (force simp: file_rel_def already_locked_def IsLocked_def split: option.splits)
  have all: "set (order (dom (lm_locks lm))) = H" using assms rel by (simp add: file_rel_def)
  show "file_rel s (fst (spec_lock c H)) (fst (do_lock (file_locks order) no_faults c k)) \<and>
      snd (do_lock (file_locks order) no_faults c k) = snd (spec_lock c H)"
  proof (cases c)
    case (Acquire eid t)
    with pr have v: "isValidEntityID eid" "eid \<notin> H" by simp_all
    obtain w' lm' where "AcquireLock no_faults lm eid t w = (w', Granted lm')" "file_rel s (insert eid H) (w', lm')"
      by (rule file_acquire [OF rel v])
    with Acquire v show ?thesis by (simp add: file_locks_def k)
  next
    case (TryAcquire eid t)
    show ?thesis
    proof (cases "eid \<in> H")
      case True
      with TryAcquire rel held show ?thesis by (simp add: file_locks_def k TryAcquireLock_def)
    next
      case False
      with pr TryAcquire have v: "isValidEntityID eid" "eid \<notin> H" by simp_all
      obtain w' lm' where "AcquireLock no_faults lm eid t w = (w', Granted lm')" "file_rel s (insert eid H) (w', lm')"
        by (rule file_acquire [OF rel v])
      with TryAcquire v show ?thesis by (simp add: file_locks_def k TryAcquireLock_granted)
    qed
  next
    case (Release eid)
    with file_release [OF rel, of eid] show ?thesis by (auto simp: file_locks_def k split: prod.splits)
  next
    case ReleaseEvery
    with file_release_each [OF rel, of "order (dom (lm_locks lm))"] all show ?thesis
      by (auto simp: file_locks_def k ReleaseAll_def split: prod.splits)
  qed
qed

interpretation file_mgr: lock_backend "file_locks sorted_list_of_set" no_faults "file_rel s" for s
  by (rule file_lock_backend) simp

section \<open>The in-memory locks\<close>

definition mem_rel :: "string set \<Rightarrow> MemoryLockManager \<Rightarrow> bool" where
  "mem_rel H m \<longleftrightarrow> (\<forall>eid l. mlm_locks m eid = Some l \<longrightarrow> l < mlm_next m) \<and>
     (\<forall>a b l. mlm_locks m a = Some l \<longrightarrow> mlm_locks m b = Some l \<longrightarrow> a = b) \<and> (\<forall>eid \<in> H. mlm_locks m eid \<noteq> None) \<and>
     (\<forall>l. mk_mu (mlm_heap m l) \<longleftrightarrow> (\<exists>eid \<in> H. mlm_locks m eid = Some l)) \<and>
     (\<forall>l. mk_held (mlm_heap m l) \<longleftrightarrow> (\<exists>eid \<in> H. mlm_locks m eid = Some l))"

lemma mem_relD:
  assumes "mem_rel H m"
  shows "mlm_locks m eid = Some l \<Longrightarrow> l < mlm_next m" "mlm_locks m a = Some l \<Longrightarrow> mlm_locks m b = Some l \<Longrightarrow> a = b"
    "eid \<in> H \<Longrightarrow> \<exists>l. mlm_locks m eid = Some l" "mk_mu (mlm_heap m l) \<longleftrightarrow> (\<exists>eid \<in> H. mlm_locks m eid = Some l)"
    "mk_held (mlm_heap m l) \<longleftrightarrow> (\<exists>eid \<in> H. mlm_locks m eid = Some l)"
  using assms unfolding mem_rel_def by blast+

lemma mem_get_rel:
  assumes rel: "mem_rel H m" and get: "mem_get eid m = (m', l)"
  shows "mem_rel H m'" "mlm_locks m' eid = Some l" "mk_mu (mlm_heap m' l) \<longleftrightarrow> eid \<in> H"
proof -
  note D = mem_relD [OF rel]
  have step: "m' = m \<and> mlm_locks m eid = Some l \<or> mlm_locks m eid = None \<and> l = mlm_next m \<and> mlm_locks m' = (mlm_locks m)(eid \<mapsto> l) \<and>
      mlm_heap m' = (mlm_heap m)(l := free_lock) \<and> mlm_next m' = Suc l"
    using get by (auto simp: mem_get_def split: option.splits)
  then show at: "mlm_locks m' eid = Some l" by auto
  show r: "mem_rel H m'"
  proof (cases "m' = m")
    case False
    with step have new: "mlm_locks m eid = None" "l = mlm_next m" "mlm_locks m' = (mlm_locks m)(eid \<mapsto> l)"
      "mlm_heap m' = (mlm_heap m)(l := free_lock)" "mlm_next m' = Suc l" by auto
    have "eid \<notin> H" using D(3) [of eid] new(1) by auto
    moreover have "mlm_locks m x \<noteq> Some l" for x using D(1) [of x l] new(2) by auto
    ultimately have who: "(\<exists>x \<in> H. ((mlm_locks m)(eid \<mapsto> l)) x = Some k) \<longleftrightarrow> k \<noteq> l \<and> (\<exists>x \<in> H. mlm_locks m x = Some k)" for k
      by (metis fun_upd_other)
    show ?thesis unfolding mem_rel_def new(3) who
      using D new(2,4,5) who [of l] by (auto simp: free_lock_def less_Suc_eq)
  qed (use rel in simp)
  show "mk_mu (mlm_heap m' l) \<longleftrightarrow> eid \<in> H" using mem_relD(2,4) [OF r] at by metis
qed

lemma mem_take:
  assumes rel: "mem_rel H m" and at: "mlm_locks m eid = Some l" and lock: "mutex_lock l m = Some m'"
  shows "mem_rel (insert eid H) (set_held l True m')"
proof -
  note D = mem_relD [OF rel]
  have "mlm_locks m' = mlm_locks m" "mlm_next m' = mlm_next m" "mlm_heap m' = (mlm_heap m)(l := (mlm_heap m l)\<lparr>mk_mu := True\<rparr>)"
    using lock by (auto simp: mutex_lock_def split: if_splits)
  with D at show ?thesis unfolding mem_rel_def set_held_def by auto
qed

lemma mem_drop:
  assumes rel: "mem_rel H m"
  obtains m' where "mem_ReleaseLock eid m = Some m'" "mem_rel (H - {eid}) m'"
proof (cases "eid \<in> H")
  note D = mem_relD [OF rel]
  case True
  then obtain l where l: "mlm_locks m eid = Some l" using D(3) by blast
  let ?m = "m\<lparr>mlm_heap := (mlm_heap m)(l := (mlm_heap m l)\<lparr>mk_held := False, mk_mu := False\<rparr>)\<rparr>"
  have h: "mk_held (mlm_heap m l)" "mk_mu (mlm_heap m l)" using D(4,5) True l by blast+
  have run: "mem_ReleaseLock eid m = Some ?m"
    using l h by (simp add: mem_ReleaseLock_def begin_release_def mutex_unlock_def set_held_def)
  have only: "mlm_locks m x = Some l \<longleftrightarrow> x = eid" for x using D(2) [of x l eid] l by auto
  have "(\<exists>x \<in> H - {eid}. mlm_locks m x = Some k) \<longleftrightarrow> k \<noteq> l \<and> (\<exists>x \<in> H. mlm_locks m x = Some k)" for k
    using only l by (cases "k = l") (auto, metis Diff_iff option.inject singletonD)
  then have "mem_rel (H - {eid}) ?m" using D unfolding mem_rel_def by simp
  with run show thesis by (rule that)
next
  note D = mem_relD [OF rel]
  case False
  have "mem_ReleaseLock eid m = Some m"
  proof (cases "mlm_locks m eid")
    case (Some l)
    with D(2) [of _ l eid] D(5) [of l] False have "\<not> mk_held (mlm_heap m l)" by metis
    with Some show ?thesis by (simp add: mem_ReleaseLock_def begin_release_def)
  qed (simp add: mem_ReleaseLock_def begin_release_def)
  with False rel show thesis by (intro that [of m]) simp_all
qed

lemma mem_clear: "mem_rel H m \<Longrightarrow> mem_rel {} (mem_ReleaseAll m)"
  unfolding mem_rel_def mem_ReleaseAll_def by (auto simp: ran_def)

interpretation memory_mgr: lock_backend memory_locks "()" mem_rel
proof
  fix H m c
  assume rel: "mem_rel H m" and pr: "lock_proper c H"
  show "mem_rel (fst (spec_lock c H)) (fst (do_lock memory_locks () c m)) \<and> snd (do_lock memory_locks () c m) = snd (spec_lock c H)"
  proof (cases c)
    case (Acquire eid t)
    obtain m1 l where g: "mem_get eid m = (m1, l)" by fastforce
    note r = mem_get_rel [OF rel g]
    from pr Acquire r(3) obtain m2 where "mutex_lock l m1 = Some m2" by (simp add: mutex_lock_def)
    with mem_take [OF r(1,2) this] g pr Acquire show ?thesis by (simp add: memory_locks_def mem_AcquireLock_def)
  next
    case (TryAcquire eid t)
    obtain m1 l where g: "mem_get eid m = (m1, l)" by fastforce
    note r = mem_get_rel [OF rel g]
    show ?thesis
    proof (cases "mutex_lock l m1")
      case None
      with r(3) have "eid \<in> H" by (simp add: mutex_lock_def split: if_splits)
      with None g r(1) TryAcquire show ?thesis by (simp add: memory_locks_def mem_TryAcquireLock_def)
    next
      case (Some m2)
      with r(3) have "eid \<notin> H" by (auto simp: mutex_lock_def split: if_splits)
      with mem_take [OF r(1,2) Some] Some g TryAcquire show ?thesis by (simp add: memory_locks_def mem_TryAcquireLock_def)
    qed
  next
    case (Release eid)
    obtain m' where "mem_ReleaseLock eid m = Some m'" "mem_rel (H - {eid}) m'" by (rule mem_drop [OF rel])
    with Release show ?thesis by (simp add: memory_locks_def)
  next
    case ReleaseEvery
    with mem_clear [OF rel] show ?thesis by (simp add: memory_locks_def)
  qed
qed

section \<open>Properties\<close>

lemma new_managers_idle:
  assumes "storage_inv s (ls_tree w)" and "ls_table w = []"
  shows "file_rel s {} (w, NewLockManager s)" "mem_rel {} NewMemoryLockManager"
  using assms by (simp_all add: file_rel_def NewLockManager_def table_ok_def consistent_def mem_rel_def NewMemoryLockManager_def free_lock_def)

text \<open>
  C19. The two lock managers keep the same contract: starting from new managers with no other user of the lock files and
  no failing system call, every sequence of calls by one caller, with valid ids and without AcquireLock of an id that it holds itself, gets the same
  replies from both, those of the set of held ids: a free lock is granted, a held one is refused by TryAcquireLock
  with ErrAlreadyLocked, a release succeeds, also of a lock that is not held, and after ReleaseAll
  everything is free.  They differ only in AcquireLock for a held id: the file
  locks refuse it with ErrAlreadyLocked, the in-memory locks wait.
\<close>

theorem lock_backends_agree:
  assumes "storage_inv s (ls_tree w)" and "ls_table w = []" and "\<forall>D. finite D \<longrightarrow> set (order D) = D" and "locks_proper cs {}"
    and "run_locks (do_lock (file_locks order) no_faults) cs (w, NewLockManager s) = (k, replies)"
    and "run_locks (do_lock memory_locks ()) cs NewMemoryLockManager = (m, replies')"
    and "run_locks spec_lock cs {} = (H, spec_replies)"
  shows "replies = spec_replies \<and> replies' = spec_replies \<and>
    (\<forall>eid \<in> H. \<forall>t. snd (lb_AcquireLock (file_locks order) no_faults eid t k) = LockRefused ErrAlreadyLocked \<and>
      snd (lb_AcquireLock memory_locks () eid t m) = LockWaits)"
proof -
  note idle = new_managers_idle [OF assms(1,2)]
  have f: "file_rel s H k" "replies = spec_replies"
    using lock_backend.locks_simulate [OF file_lock_backend [OF assms(3)] idle(1) assms(4)] assms(5,7) by simp_all
  have g: "mem_rel H m" "replies' = spec_replies" using memory_mgr.locks_simulate [OF idle(2) assms(4)] assms(6,7) by simp_all
  obtain w' lm where k: "k = (w', lm)" by (cases k)
  have "snd (lb_AcquireLock (file_locks order) no_faults eid t k) = LockRefused ErrAlreadyLocked" if "eid \<in> H" for eid t
  proof -
    have "already_locked lm eid" using f(1) that by (force simp: k file_rel_def already_locked_def IsLocked_def split: option.splits)
    then show ?thesis by (simp add: k file_locks_def AcquireLock_def)
  qed
  moreover have "snd (lb_AcquireLock memory_locks () eid t m) = LockWaits" if "eid \<in> H" for eid t
  proof -
    obtain m1 l where mg: "mem_get eid m = (m1, l)" by fastforce
    from mem_get_rel(3) [OF g(1) mg] that have "mutex_lock l m1 = None" by (simp add: mutex_lock_def)
    with mg show ?thesis by (simp add: memory_locks_def mem_AcquireLock_def)
  qed
  ultimately show ?thesis using f(2) g(2) by blast
qed

theorem lock_backends_agree_witness:
  "snd (run_locks (do_lock (file_locks sorted_list_of_set) no_faults) [Acquire ''a'' LockShared, TryAcquire ''a'' LockExclusive, Release ''b'']
      (\<lparr>ls_tree = sample_tree, ls_table = [], ls_next = 0\<rparr>, NewLockManager sample_store)) =
    snd (run_locks (do_lock memory_locks ()) [Acquire ''a'' LockShared, TryAcquire ''a'' LockExclusive, Release ''b''] NewMemoryLockManager)"
proof -
  let ?cs = "[Acquire ''a'' LockShared, TryAcquire ''a'' LockExclusive, Release ''b'']"
    and ?w = "\<lparr>ls_tree = sample_tree, ls_table = [], ls_next = 0\<rparr>"
  have "isValidEntityID ''a''" by code_simp
  then have cs: "locks_proper ?cs {}" by simp
  obtain k replies where f: "run_locks (do_lock (file_locks sorted_list_of_set) no_faults) ?cs (?w, NewLockManager sample_store) = (k, replies)" by fastforce
  obtain m replies' where g: "run_locks (do_lock memory_locks ()) ?cs NewMemoryLockManager = (m, replies')" by fastforce
  obtain H spec_replies where h: "run_locks spec_lock ?cs {} = (H, spec_replies)" by fastforce
  have "storage_inv sample_store (ls_tree ?w)" using sample_inv by simp
  from lock_backends_agree [OF this _ _ cs f g h] show ?thesis unfolding f g snd_conv by simp
qed

end
