(* ===== verification/Pending_Writes.thy ===== *)
theory Pending_Writes
  imports Lock_Backends S3_Properties
begin

text \<open>
  A Processing Worker at work on real lock managers, and its end: requests and promised writes leave no lock behind, and the shutdown
  of cmd/proc-worker/main.go does not wait for the promised writes.  Here a request or the goroutine of a promised write runs
  to its end before the next one starts; the interleaving of the goroutines is the subject of the theory Write_Races.
\<close>

section \<open>Handlers on a lock backend\<close>

text \<open>
  The lock manager as the handlers use it.  A handler starts with an idle manager, so its call of \<open>AcquireLock\<close> returns at
  once (lemma \<open>handler_section\<close>); the value given for a call that does not return is never used.
\<close>

definition handler_locks :: "('k, 'f) LockBackend \<Rightarrow> 'f \<Rightarrow> 'k lock_ops" where
  "handler_locks B f = \<lparr>
     lo_acquire = (\<lambda>k eid t. case lb_AcquireLock B f eid t k of
        (k', LockGranted) \<Rightarrow> (k', None) | (k', LockRefused e) \<Rightarrow> (k', Some e) | (k', _) \<Rightarrow> (k', Some ErrAlreadyLocked)),
     lo_release = (\<lambda>k eid. fst (lb_ReleaseLock B f eid k))\<rparr>"

text \<open>One goroutine of the promised writes runs from its start to its end, with no other in between.\<close>

definition finish_write ::
    "('l, 'st, 'f, 'k, 's) proc_libs \<Rightarrow> 'f handler_env \<Rightarrow> nat \<Rightarrow> ('l, 'k, 's, 'rk) ProcWorkerServer \<Rightarrow> 'st
      \<Rightarrow> ('l, 'k, 's, 'rk) ProcWorkerServer \<times> 'st" where
  "finish_write Lib env n srv st =
     (let jobs = ps_pendingWrites srv in
      if n < length jobs then async_write Lib env (jobs ! n) (srv\<lparr>ps_pendingWrites := take n jobs @ drop (Suc n) jobs\<rparr>) st
      else (srv, st))"

text \<open>What a server does between its start and its end: it serves requests, and its goroutines end.\<close>

datatype 'f work = Serve "'f handler_env" "ProcessRequest option" | Finish "'f handler_env" nat

fun do_work ::
    "('l, 'st, 'f, 'k, 's) proc_libs \<Rightarrow> 'f work \<Rightarrow> ('l, 'k, 's, 'rk) ProcWorkerServer \<times> 'st \<Rightarrow> ('l, 'k, 's, 'rk) ProcWorkerServer \<times> 'st" where
  "do_work Lib (Serve env req) (srv, st) = (case proc_Process Lib env req srv st of (srv', st', r) \<Rightarrow> (srv', st'))"
| "do_work Lib (Finish env n) (srv, st) = finish_write Lib env n srv st"

text \<open>
  The end of the program after a signal: the handshake loop is cancelled, the cache is closed by the deferred call, and the
  process ends.  Goroutines that are still running end with it, so the storage stays as it is.
\<close>

definition proc_shutdown :: "('l, 'k, 's, 'rk) ProcWorkerServer \<Rightarrow> 'st \<Rightarrow> 'l Cache \<times> 'st" where
  "proc_shutdown srv st = (cache_Close (ps_cache srv), st)"

section \<open>Locks are not leaked\<close>

definition jobs_ok :: "('l, 'k, 's, 'rk) ProcWorkerServer \<Rightarrow> bool" where
  "jobs_ok srv \<longleftrightarrow> (\<forall>job \<in> set (ps_pendingWrites srv). isValidEntityID (wj_entityID job) \<and> fm_Version (wj_metadata job) = wj_nextVersion job)"

lemma get_locked_frame:
  "get_locked Lib env srv st eid = (srv', r) \<Longrightarrow> ps_lockMgr srv' = ps_lockMgr srv \<and> ps_pendingWrites srv' = ps_pendingWrites srv"
  by (auto simp: get_locked_def Let_def split: sum.splits option.splits if_splits)

lemma async_write_frame:
  "async_write Lib env job srv st = (srv', st') \<Longrightarrow> ps_pendingWrites srv' = ps_pendingWrites srv \<and>
    pm_AsyncWritesPending (ps_metrics srv') = pm_AsyncWritesPending (ps_metrics srv) - 1"
  by (auto simp: async_write_def count_async_failure_def Let_def split: prod.splits option.splits if_splits)

context lock_backend
begin

lemma handler_section:
  assumes "rel {} k" and "isValidEntityID eid" and "pl_locks Lib = handler_locks B f"
  obtains k' where "lo_acquire (pl_locks Lib) k eid t = (k', None)" "rel {} (lo_release (pl_locks Lib) k' eid)"
  by (rule section_idle [OF assms(1,2), of t]) (use assms(3) that in \<open>simp add: handler_locks_def\<close>)

lemma processGET_idle:
  assumes "rel {} (ps_lockMgr srv)" and v: "isValidEntityID eid" and L: "pl_locks Lib = handler_locks B f"
    and "processGET Lib env eid srv st = (srv', st', r)"
  shows "rel {} (ps_lockMgr srv') \<and> ps_pendingWrites srv' = ps_pendingWrites srv"
proof -
  obtain k' where "lo_acquire (pl_locks Lib) (ps_lockMgr srv) eid LockShared = (k', None)" "rel {} (lo_release (pl_locks Lib) k' eid)"
    by (rule handler_section [OF assms(1) v L])
  then show ?thesis
    using assms(1,4) by (auto simp: processGET_def Let_def split: prod.splits option.splits dest!: get_locked_frame)
qed

lemma processPUT_idle:
  assumes "rel {} (ps_lockMgr srv)" and v: "isValidEntityID eid" and L: "pl_locks Lib = handler_locks B f"
    and put: "processPUT Lib env req eid srv st = (srv', st', r)"
  shows "rel {} (ps_lockMgr srv')"
proof -
  obtain srv1 e where pv: "put_validate Lib env req srv st = (srv1, e)" by fastforce
  have same: "ps_lockMgr srv1 = ps_lockMgr srv" by (rule put_validate_frame(4) [OF pv])
  obtain k' where "lo_acquire (pl_locks Lib) (ps_lockMgr srv) eid LockExclusive = (k', None)" "rel {} (lo_release (pl_locks Lib) k' eid)"
    by (rule handler_section [OF assms(1) v L])
  with put pv assms(1) same show ?thesis
    by (auto simp: processPUT_def Let_def split: if_splits option.splits sum.splits)
qed

lemma processDELETE_idle:
  assumes "rel {} (ps_lockMgr srv)" and v: "isValidEntityID eid" and L: "pl_locks Lib = handler_locks B f"
    and "processDELETE Lib env eid srv st = (srv', st', r)"
  shows "rel {} (ps_lockMgr srv') \<and> ps_pendingWrites srv' = ps_pendingWrites srv"
proof -
  obtain k' where "lo_acquire (pl_locks Lib) (ps_lockMgr srv) eid LockExclusive = (k', None)" "rel {} (lo_release (pl_locks Lib) k' eid)"
    by (rule handler_section [OF assms(1) v L])
  with assms(4) show ?thesis by (auto simp: processDELETE_def Let_def split: prod.splits option.splits)
qed

lemma async_write_idle:
  assumes "rel {} (ps_lockMgr srv)" and v: "isValidEntityID (wj_entityID job)" and L: "pl_locks Lib = handler_locks B f"
    and "async_write Lib env job srv st = (srv', st')"
  shows "rel {} (ps_lockMgr srv')"
proof -
  obtain k' where "lo_acquire (pl_locks Lib) (ps_lockMgr srv) (wj_entityID job) LockExclusive = (k', None)"
      "rel {} (lo_release (pl_locks Lib) k' (wj_entityID job))"
    by (rule handler_section [OF assms(1) v L])
  with assms(4) show ?thesis by (auto simp: async_write_def count_async_failure_def Let_def split: prod.splits option.splits if_splits)
qed

lemma Process_idle:
  assumes idle: "rel {} (ps_lockMgr srv)" and L: "pl_locks Lib = handler_locks B f" and jobs: "jobs_ok srv"
    and proc: "proc_Process Lib env req srv st = (srv', st', r)"
  shows "rel {} (ps_lockMgr srv') \<and> jobs_ok srv'"
proof (cases "addressable req \<and> GetOperation req \<in> {''GET'', ''PUT'', ''DELETE''}")
  case False
  from Process_not_addressable [OF False, of Lib env srv st] proc idle jobs show ?thesis by auto
next
  case True
  then have v: "isValidEntityID (request_entity req)" by (simp add: entity_id_valid)
  from proc show ?thesis
  proof (cases rule: Process_cases)
    case (refused e)
    with idle jobs show ?thesis by simp
  next
    case get
    obtain srv1 st1 r1 where g: "processGET Lib env (request_entity req) srv st = (srv1, st1, r1)" by (metis prod_cases3)
    from processGET_idle [OF idle v L g] count_request_frame [OF get(2) [unfolded g]] jobs show ?thesis by (simp add: jobs_ok_def)
  next
    case put
    obtain srv1 st1 r1 where g: "processPUT Lib env req (request_entity req) srv st = (srv1, st1, r1)" by (metis prod_cases3)
    note fr = count_request_frame [OF put(2) [unfolded g]]
    have "jobs_ok srv1"
    proof (cases r1)
      case (Inl e)
      with processPUT_refused(3) [OF g [unfolded Inl]] jobs show ?thesis by (simp add: jobs_ok_def)
    next
      case (Inr resp)
      from g [unfolded Inr] v jobs show ?thesis
        by (elim processPUT_accepted) (auto simp: jobs_ok_def put_metadata_def)
    qed
    with processPUT_idle [OF idle v L g] fr show ?thesis by (simp add: jobs_ok_def)
  next
    case delete
    obtain srv1 st1 r1 where g: "processDELETE Lib env (request_entity req) srv st = (srv1, st1, r1)" by (metis prod_cases3)
    from processDELETE_idle [OF idle v L g] count_request_frame [OF delete(2) [unfolded g]] jobs show ?thesis by (simp add: jobs_ok_def)
  qed
qed

lemma finish_write_idle:
  assumes idle: "rel {} (ps_lockMgr srv)" and L: "pl_locks Lib = handler_locks B f" and jobs: "jobs_ok srv"
    and fin: "finish_write Lib env n srv st = (srv', st')"
  shows "rel {} (ps_lockMgr srv') \<and> jobs_ok srv'"
proof (cases "n < length (ps_pendingWrites srv)")
  case True
  let ?job = "ps_pendingWrites srv ! n" and ?srv = "srv\<lparr>ps_pendingWrites := take n (ps_pendingWrites srv) @ drop (Suc n) (ps_pendingWrites srv)\<rparr>"
  have aw: "async_write Lib env ?job ?srv st = (srv', st')" using fin True by (simp add: finish_write_def Let_def)
  have "isValidEntityID (wj_entityID ?job)" using jobs True by (simp add: jobs_ok_def)
  with async_write_idle [OF _ this L aw] async_write_frame [OF aw] idle jobs show ?thesis
    by (auto simp: jobs_ok_def dest: in_set_takeD in_set_dropD)
next
  case False
  with fin idle jobs show ?thesis by (simp add: finish_write_def)
qed

lemma work_idle:
  assumes "rel {} (ps_lockMgr srv)" and L: "pl_locks Lib = handler_locks B f" and "jobs_ok srv" and "fold (do_work Lib) ws (srv, st) = (srv', st')"
  shows "rel {} (ps_lockMgr srv') \<and> jobs_ok srv'"
  using assms(1,3,4)
proof (induction ws arbitrary: srv st)
  case (Cons w ws)
  obtain srv1 st1 where w: "do_work Lib w (srv, st) = (srv1, st1)" by fastforce
  have "rel {} (ps_lockMgr srv1) \<and> jobs_ok srv1"
  proof (cases w)
    case (Serve env req)
    with w show ?thesis using Process_idle [OF Cons.prems(1) L Cons.prems(2)] by (auto split: prod.splits)
  next
    case (Finish env n)
    with w show ?thesis using finish_write_idle [OF Cons.prems(1) L Cons.prems(2)] by simp
  qed
  with Cons.IH [of srv1 st1] Cons.prems(3) w show ?case by simp
qed simp

end

section \<open>Accepted writes and missing entities\<close>

lemma accepted_put_pends:
  assumes "proc_Process Lib env req srv st = (srv', st', Inr resp)" and "GetOperation req = ''PUT''"
  shows "ps_pendingWrites srv' \<noteq> [] \<and> rs_Status resp = ''OK''"
proof -
  obtain srv1 where put: "processPUT Lib env req (request_entity req) srv st = (srv1, st', Inr resp)" and same: "ps_pendingWrites srv' = ps_pendingWrites srv1"
    using processPUT_cong [OF assms] by metis
  from put have "ps_pendingWrites srv1 \<noteq> [] \<and> rs_Status resp = ''OK''" by (rule processPUT_accepted) (simp add: response_def)
  with same show ?thesis by simp
qed

context proc_system
begin

lemma GET_missing:
  assumes "able Lib key LockShared eid srv" and "cache_inv items cap lok (ps_cache srv)" and "cache_lookup items (ps_cache srv) eid = None"
    and "so_read (pl_storage Lib) (he_read env) st eid = Inl ErrFileNotFound"
  shows "snd (processGET Lib env eid srv st) = (st, Inl (NotFound, ''entity not found''))"
proof -
  have "snd (cache_fetch (pl_lru Lib) (he_first env) (ps_cache srv) eid) = None"
    using C.ec.fetch_result [OF assms(2), of "he_first env" eid] assms(3) by simp
  then obtain c where f: "cache_fetch (pl_lru Lib) (he_first env) (ps_cache srv) eid = (c, None)" by (metis prod.collapse)
  obtain k where k: "lo_acquire (pl_locks Lib) (ps_lockMgr srv) eid LockShared = (k, None)"
    using assms(1) unfolding able_def by (metis prod.collapse)
  show ?thesis using f k assms(4) by (simp add: processGET_def get_locked_def)
qed

end

section \<open>Properties\<close>

text \<open>
  C11. No request leaks a lock: a worker on the file locks that starts with an idle lock manager and no promised
  writes, and that is the only user of its lock files, holds no lock after any sequence of requests, valid or
  not, served or refused, and of promised writes, made or failed, one after another, with any failures of the storage calls: the map of the
  manager and the system's table of locks are empty again.
\<close>

theorem requests_release_locks:
  assumes "pl_locks Lib = handler_locks (file_locks order) no_faults" and "\<forall>D. finite D \<longrightarrow> set (order D) = D"
    and "ps_lockMgr srv = (w, NewLockManager s)" and "storage_inv s (ls_tree w)" and "ls_table w = []" and "ps_pendingWrites srv = []"
    and "fold (do_work Lib) ws (srv, st) = (srv', st')"
  shows "lm_locks (snd (ps_lockMgr srv')) = Map.empty \<and> ls_table (fst (ps_lockMgr srv')) = []"
proof -
  have "file_rel s {} (ps_lockMgr srv)" using new_managers_idle(1) [OF assms(4,5)] by (simp add: assms(3))
  moreover have "jobs_ok srv" by (simp add: jobs_ok_def assms(6))
  ultimately have "file_rel s {} (ps_lockMgr srv')"
    using lock_backend.work_idle [OF file_lock_backend [OF assms(2)] _ assms(1)] assms(7) by blast
  moreover obtain w' lm where "ps_lockMgr srv' = (w', lm)" by fastforce
  ultimately have "dom (lm_locks lm) = {}" "\<forall>h \<in> set (ls_table w'). \<exists>eid fl. lm_locks lm eid = Some fl" and l: "ps_lockMgr srv' = (w', lm)"
    by (auto simp: file_rel_def)
  then have "lm_locks lm = Map.empty" "set (ls_table w') = {}" by auto
  with l show ?thesis by simp
qed

text \<open>
  C40. A shutdown loses accepted writes: the worker program ends on a signal without waiting for the promised
  writes, so a PUT that was answered with success and whose write has not been made is gone: the files are as before, and a worker that is
  started afterwards answers NotFound.
\<close>

theorem shutdown_loses_put:
  assumes "lru_spec L items cap lok" and "storage_inv s fs"
    and "proc_Process (local_libs L J s K V) env req srv fs = (srv', fs', Inr resp)" and "GetOperation req = ''PUT''"
    and "fs_ReadFile J s no_faults fs (request_entity req) = Inl ErrFileNotFound"
    and "able (local_libs L J s K V) key LockShared (request_entity req) srvB"
    and "cache_inv items cap lok (ps_cache srvB)" and "cache_lookup items (ps_cache srvB) (request_entity req) = None"
    and "he_read envB = no_faults" and "proc_shutdown srv' fs' = (c, fs2)"
  shows "rs_Status resp = ''OK'' \<and> fs2 = fs \<and>
    snd (processGET (local_libs L J s K V) envB (request_entity req) srvB fs2) = (fs2, Inl (NotFound, ''entity not found''))"
proof -
  have fs: "fs2 = fs" using Process_store [OF assms(3)] assms(4,10) by (simp add: proc_shutdown_def)
  have "snd (processGET (local_libs L J s K V) envB (request_entity req) srvB fs) = (fs, Inl (NotFound, ''entity not found''))"
    by (rule proc_system.GET_missing [OF local_system [OF assms(1)] assms(6-8)]) (use assms(5,9) in simp)
  with fs accepted_put_pends [OF assms(3,4)] show ?thesis by simp
qed

section \<open>Witnesses\<close>

text \<open>The sample worker on any lock manager.\<close>

definition idle_server :: "'k \<Rightarrow> (list_lru, 'k, nat, unit) ProcWorkerServer" where
  "idle_server k = \<lparr>ps_worker = ps_worker sample_server, ps_lockMgr = k, ps_cache = sample_cache, ps_validator = None, ps_pendingWrites = [],
     ps_metrics = no_metrics, ps_lastCacheHits = 0, ps_lastCacheMisses = 0, ps_lastCacheEvicts = 0\<rparr>"

abbreviation lock_libs :: "'k lock_ops \<Rightarrow> meta_codec \<Rightarrow> (list_lru, file_sys, faults, 'k, nat) proc_libs" where
  "lock_libs K J \<equiv> local_libs list_lru_ops J sample_store K sample_lib"

lemma idle_server_simps [simp]:
  "ps_worker (idle_server k) = ps_worker sample_server" "ps_lockMgr (idle_server k) = k" "ps_cache (idle_server k) = sample_cache"
  "ps_validator (idle_server k) = None" "ps_pendingWrites (idle_server k) = []"
  by (simp_all add: idle_server_def)

lemma idle_put:
  assumes "lo_acquire K k ''chat_1'' LockExclusive = (k', None)" and "p \<noteq> []"
  shows "\<exists>srv'. proc_Process (lock_libs K J) sample_env (sample_request ''PUT'' p) (idle_server k) sample_tree =
      (srv', sample_tree, Inr (response ''OK'' [] ''1'')) \<and> ps_pendingWrites srv' = [sample_job p]"
proof -
  have one: "Itoa 1 = ''1''" by code_simp
  have ver: "next_version (lock_libs K J) sample_env (idle_server k) sample_tree ''chat_1'' = 1"
    using first_version [OF llru.lru_spec_axioms sample_inv sample_not_stored, of "idle_server k"] sample_cache_empty by simp
  have "snd (processPUT (lock_libs K J) sample_env (sample_request ''PUT'' p) ''chat_1'' (idle_server k) sample_tree) =
      (sample_tree, Inr (response ''OK'' [] ''1'')) \<and>
    ps_pendingWrites (fst (processPUT (lock_libs K J) sample_env (sample_request ''PUT'' p) ''chat_1'' (idle_server k) sample_tree)) = [sample_job p]"
    using assms sample_key_size(2) sample_enc_ok [of p] ver one
    by (simp add: processPUT_def put_validate_def Let_def sample_job_def next_version_lock)
  then show ?thesis
    using Process_dispatch(2) [OF sample_addressable, of "''PUT''" p "lock_libs K J" sample_env "idle_server k" sample_tree]
    by (intro exI [of _ "fst (proc_Process (lock_libs K J) sample_env (sample_request ''PUT'' p) (idle_server k) sample_tree)"])
      (simp add: prod_eq_iff)
qed

theorem requests_release_locks_witness:
  "lm_locks (snd (ps_lockMgr (fst (fold (do_work (lock_libs (handler_locks (file_locks sorted_list_of_set) no_faults) sample_codec))
     [Serve sample_env (sample_request ''PUT'' ''{}''), Serve sample_env (sample_request ''GET'' []), Finish sample_env 0]
     (idle_server (\<lparr>ls_tree = sample_tree, ls_table = [], ls_next = 0\<rparr>, NewLockManager sample_store), sample_tree))))) = Map.empty"
proof -
  let ?w = "\<lparr>ls_tree = sample_tree, ls_table = [], ls_next = 0\<rparr>" and ?Lib = "lock_libs (handler_locks (file_locks sorted_list_of_set) no_faults) sample_codec"
  let ?ws = "[Serve sample_env (sample_request ''PUT'' ''{}''), Serve sample_env (sample_request ''GET'' []), Finish sample_env 0]"
  obtain srv' st' where run: "fold (do_work ?Lib) ?ws (idle_server (?w, NewLockManager sample_store), sample_tree) = (srv', st')" by fastforce
  have inv: "storage_inv sample_store (ls_tree ?w)" using sample_inv by simp
  have L: "pl_locks ?Lib = handler_locks (file_locks sorted_list_of_set) no_faults" by (rule local_libs_simps)
  have ord: "\<forall>D. finite D \<longrightarrow> set (sorted_list_of_set D) = (D :: string set)" by simp
  from requests_release_locks [OF L ord _ inv _ _ run] show ?thesis unfolding run by simp
qed

theorem shutdown_loses_put_witness:
  "\<exists>srv' fs' resp. proc_Process (sample_libs sample_codec) sample_env (sample_request ''PUT'' ''{}'') sample_server sample_tree = (srv', fs', Inr resp) \<and>
     snd (processGET (sample_libs sample_codec) sample_env ''chat_1'' sample_server (snd (proc_shutdown srv' fs'))) =
       (sample_tree, Inl (NotFound, ''entity not found''))"
proof -
  obtain srv' where put: "proc_Process (sample_libs sample_codec) sample_env (sample_request ''PUT'' ''{}'') sample_server sample_tree =
      (srv', sample_tree, Inr (response ''OK'' [] ''1''))"
    using sample_put [of "''{}''" sample_codec] by auto
  obtain c fs2 where sd: "proc_shutdown srv' sample_tree = (c, fs2)" by fastforce
  from shutdown_loses_put [OF llru.lru_spec_axioms sample_inv put _ _ _ _ _ _ sd, of sample_key sample_server sample_env]
  show ?thesis
    using put sd sample_able [of sample_codec] sample_cache_empty sample_not_stored [of sample_codec] by auto
qed

end
