(* ===== verification/Write_Races.thy ===== *)
theory Write_Races
  imports Pending_Writes
begin

text \<open>
  The goroutines that make the promised writes, interleaved: each takes the lock of its entity, reads for the guard against stale
  writes, writes, and releases the lock, and between any two of these actions, and within the calls of the lock manager, the
  other goroutines and the handlers run.  The lock manager is the one of pkg/fs/memory_lock.go, which a worker on S3 has; a goroutine waits
  in it until the lock is free.  The manager of the file locks refuses instead of waiting, and the last section shows what
  becomes of a write then.
\<close>

section \<open>State\<close>

text \<open>
  Where the goroutine of a promised write stands: before or within \<open>AcquireLock\<close>, before the read of the guard, before the write,
  at the deferred calls, and ended.
\<close>

datatype writer = Starting | Guarding | Writing | Leaving | Ended

text \<open>
  Goroutine \<open>n\<close> is the n-th that was started; \<open>rc_locks\<close> says where it stands in the lock manager, and \<open>rc_pending\<close> is the counter
  of the \<open>WaitGroup\<close>.  The job list of the server is empty between requests: a job is a goroutine at once.
\<close>

record ('l, 'st, 's, 'rk) racing =
  rc_server :: "('l, MemoryLockManager, 's, 'rk) ProcWorkerServer"
  rc_store :: 'st
  rc_locks :: "nat \<Rightarrow> goroutine"
  rc_writers :: "(write_job \<times> writer) list"
  rc_pending :: nat

definition race_start :: "('l, MemoryLockManager, 's, 'rk) ProcWorkerServer \<Rightarrow> 'st \<Rightarrow> ('l, 'st, 's, 'rk) racing" where
  "race_start srv st = \<lparr>rc_server = srv, rc_store = st, rc_locks = (\<lambda>_. Idle), rc_writers = [], rc_pending = 0\<rparr>"

text \<open>The jobs whose goroutines have not ended.\<close>

definition running :: "('l, 'st, 's, 'rk) racing \<Rightarrow> write_job list" where
  "running s = map fst (filter (\<lambda>w. snd w \<noteq> Ended) (rc_writers s))"

section \<open>Steps\<close>

definition move :: "nat \<Rightarrow> writer \<Rightarrow> ('l, 'st, 's, 'rk) racing \<Rightarrow> ('l, 'st, 's, 'rk) racing" where
  "move n p s = s\<lparr>rc_writers := (rc_writers s)[n := (fst (rc_writers s ! n), p)]\<rparr>"

definition relock :: "nat \<Rightarrow> MemoryLockManager \<Rightarrow> goroutine \<Rightarrow> ('l, 'st, 's, 'rk) racing \<Rightarrow> ('l, 'st, 's, 'rk) racing" where
  "relock n m g s = s\<lparr>rc_server := (rc_server s)\<lparr>ps_lockMgr := m\<rparr>, rc_locks := (rc_locks s)(n := g)\<rparr>"

text \<open>The two deferred calls that follow the release: the gauge is decreased, and \<open>pendingWrites.Done()\<close>.\<close>

definition end_writer :: "nat \<Rightarrow> ('l, 'st, 's, 'rk) racing \<Rightarrow> ('l, 'st, 's, 'rk) racing" where
  "end_writer n s =
     (let srv = rc_server s; met = ps_metrics srv
      in move n Ended (s\<lparr>rc_server := srv\<lparr>ps_metrics := met\<lparr>pm_AsyncWritesPending := pm_AsyncWritesPending met - 1\<rparr>\<rparr>, rc_pending := rc_pending s - 1\<rparr>))"

text \<open>
  One action of a goroutine; None when it cannot run: it waits for a mutex, or has ended.  \<open>AcquireLock\<close> is three actions (the lock
  is looked up, its mutex taken, the flag set), \<open>ReleaseLock\<close> two.
\<close>

fun writer_at ::
    "('l, 'st, 'f, MemoryLockManager, 's) proc_libs \<Rightarrow> 'f handler_env \<Rightarrow> nat \<Rightarrow> write_job \<Rightarrow> writer \<Rightarrow> goroutine
      \<Rightarrow> ('l, 'st, 's, 'rk) racing \<Rightarrow> ('l, 'st, 's, 'rk) racing option" where
  "writer_at Lib env n job Starting Idle s =
     (case mem_get (wj_entityID job) (ps_lockMgr (rc_server s)) of (m, l) \<Rightarrow> Some (relock n m (Queued False (wj_entityID job) l) s))"
| "writer_at Lib env n job Starting (Queued nb eid l) s =
     (case mutex_lock l (ps_lockMgr (rc_server s)) of None \<Rightarrow> None | Some m \<Rightarrow> Some (relock n m (Entered eid l) s))"
| "writer_at Lib env n job Starting (Entered eid l) s =
     Some (move n Guarding (relock n (set_held l True (ps_lockMgr (rc_server s))) (Holding eid l) s))"
| "writer_at Lib env n job Guarding g s =
     (let stale = (case so_read (pl_storage Lib) (he_read env) (rc_store s) (wj_entityID job) of
                     Inr existing \<Rightarrow> wj_nextVersion job \<le> fm_Version (fd_Metadata existing)
                   | Inl _ \<Rightarrow> False)
      in Some (move n (if stale then Leaving else Writing) s))"
| "writer_at Lib env n job Writing g s =
     (case so_write (pl_storage Lib) (he_write env) (wj_entityID job) (wj_blob job) (wj_metadata job) (rc_store s) of
        (st, Some e) \<Rightarrow> Some (move n Leaving (s\<lparr>rc_store := st, rc_server := count_async_failure (rc_server s)\<rparr>))
      | (st, None) \<Rightarrow> Some (move n Leaving (s\<lparr>rc_store := st\<rparr>)))"
| "writer_at Lib env n job Leaving (Holding eid l) s =
     (case begin_release (wj_entityID job) (ps_lockMgr (rc_server s)) of
        (m, r) \<Rightarrow> Some (relock n m (case r of None \<Rightarrow> Idle | Some l' \<Rightarrow> Releasing l') s))"
| "writer_at Lib env n job Leaving (Releasing l) s =
     (case mutex_unlock l (ps_lockMgr (rc_server s)) of None \<Rightarrow> None | Some m \<Rightarrow> Some (relock n m Idle s))"
| "writer_at Lib env n job Leaving Idle s = Some (end_writer n s)"
| "writer_at Lib env n job _ _ s = None"

definition run_writer ::
    "('l, 'st, 'f, MemoryLockManager, 's) proc_libs \<Rightarrow> 'f handler_env \<Rightarrow> nat \<Rightarrow> ('l, 'st, 's, 'rk) racing \<Rightarrow> ('l, 'st, 's, 'rk) racing option" where
  "run_writer Lib env n s =
     (if n < length (rc_writers s) then case rc_writers s ! n of (job, p) \<Rightarrow> writer_at Lib env n job p (rc_locks s n) s else None)"

text \<open>A request: the goroutine of an accepted PUT is started, and \<open>pendingWrites.Add(1)\<close>.\<close>

definition serve ::
    "('l, 'st, 'f, MemoryLockManager, 's) proc_libs \<Rightarrow> 'f handler_env \<Rightarrow> ProcessRequest option \<Rightarrow> ('l, 'st, 's, 'rk) racing
      \<Rightarrow> ('l, 'st, 's, 'rk) racing \<times> (rpc_error + ProcessResponse)" where
  "serve Lib env req s =
     (case proc_Process Lib env req (rc_server s) (rc_store s) of
        (srv, st, r) \<Rightarrow>
          (s\<lparr>rc_server := srv\<lparr>ps_pendingWrites := []\<rparr>, rc_store := st,
             rc_writers := rc_writers s @ map (\<lambda>job. (job, Starting)) (ps_pendingWrites srv),
             rc_pending := rc_pending s + length (ps_pendingWrites srv)\<rparr>, r))"

text \<open>\<open>pendingWrites.Wait()\<close> returns when the counter is zero.\<close>

definition WaitForPendingWrites :: "('l, 'st, 's, 'rk) racing \<Rightarrow> bool" where
  "WaitForPendingWrites s \<longleftrightarrow> rc_pending s = 0"

text \<open>
  The runs of a server.  A handler whose lock is taken waits for it: its step is taken when it no longer fails to get the lock, which
  is the only way in which the in-memory manager does not grant one.
\<close>

datatype 'f race_event = Served "'f handler_env" "ProcessRequest option" | Ran "'f handler_env" nat

definition lock_failure :: "rpc_error + ProcessResponse \<Rightarrow> bool" where
  "lock_failure r \<longleftrightarrow> r = Inl (Internal, ''failed to acquire shared lock'') \<or> r = Inl (Internal, ''failed to acquire exclusive lock'')"

inductive race_step ::
    "('l, 'st, 'f, MemoryLockManager, 's) proc_libs \<Rightarrow> 'f race_event \<Rightarrow> ('l, 'st, 's, 'rk) racing \<Rightarrow> ('l, 'st, 's, 'rk) racing \<Rightarrow> bool" for Lib where
  served: "serve Lib env req s = (s', r) \<Longrightarrow> \<not> lock_failure r \<Longrightarrow> race_step Lib (Served env req) s s'"
| ran: "run_writer Lib env n s = Some s' \<Longrightarrow> race_step Lib (Ran env n) s s'"

inductive race_run ::
    "('l, 'st, 'f, MemoryLockManager, 's) proc_libs \<Rightarrow> ('f race_event \<Rightarrow> bool) \<Rightarrow> ('l, 'st, 's, 'rk) racing \<Rightarrow> ('l, 'st, 's, 'rk) racing \<Rightarrow> bool"
  for Lib E s where
  run_start: "race_run Lib E s s"
| run_step: "race_run Lib E s s1 \<Longrightarrow> race_step Lib ev s1 s2 \<Longrightarrow> E ev \<Longrightarrow> race_run Lib E s s2"

lemma race_run_trans: "race_run Lib E s1 s2 \<Longrightarrow> race_run Lib E s s1 \<Longrightarrow> race_run Lib E s s2"
  by (induction rule: race_run.induct) (auto intro: race_run.run_step)

section \<open>The lock manager under the goroutines\<close>

text \<open>Every mutex that is taken has its goroutine.\<close>

definition owned :: "mem_state \<Rightarrow> bool" where
  "owned s \<longleftrightarrow> (\<forall>l. mk_mu (mlm_heap (fst s) l) \<longrightarrow> (\<exists>t. owns (snd s t) = Some l))"

lemma owned_update:
  assumes "owned (m, gs)" and "\<And>k. mk_mu (mlm_heap m' k) \<Longrightarrow> owns g = Some k \<or> mk_mu (mlm_heap m k) \<and> owns (gs t) \<noteq> Some k"
  shows "owned (m', gs(t := g))"
proof -
  have "\<exists>u. owns ((gs(t := g)) u) = Some k" if "mk_mu (mlm_heap m' k)" for k
  proof (cases "owns g = Some k")
    case False
    with assms(2) [OF that] have k: "mk_mu (mlm_heap m k)" "owns (gs t) \<noteq> Some k" by auto
    with assms(1) obtain u where "owns (gs u) = Some k" by (auto simp: owned_def)
    with k(2) show ?thesis by (intro exI [of _ u]) auto
  qed (intro exI [of _ t], simp)
  then show ?thesis by (simp add: owned_def)
qed

lemma owned_step: "mem_step False s s' \<Longrightarrow> mem_inv s \<Longrightarrow> owned s \<Longrightarrow> owned s'"
proof (induction rule: mem_step.induct)
  case (request gs t lid m m' l nb)
  then show ?case by (intro owned_update [where m = m and gs = gs and t = t]) (auto simp: mem_get_def free_lock_def split: option.splits if_splits)
next
  case (enter gs t nb lid l m m')
  then show ?case by (intro owned_update [where m = m and gs = gs and t = t]) (auto simp: mutex_lock_def split: if_splits)
next
  case (refuse gs t lid l m)
  then show ?case by (intro owned_update [where m = m and gs = gs and t = t]) auto
next
  case (mark gs t lid l m)
  then show ?case by (intro owned_update [where m = m and gs = gs and t = t]) (auto simp: set_held_def split: if_splits)
next
  case (release gs t lid l0 m m' r)
  with begin_release_held [OF release(3,1)] show ?case by (intro owned_update [where m = m and gs = gs and t = t]) (auto simp: set_held_def split: if_splits)
next
  case (unlock gs t l m m')
  then show ?case by (intro owned_update [where m = m and gs = gs and t = t]) (auto simp: mutex_unlock_def split: if_splits)
qed simp

definition locks_ok :: "mem_state \<Rightarrow> bool" where
  "locks_ok s \<longleftrightarrow> mem_inv s \<and> owned s"

lemma locks_ok_step: "mem_step False s s' \<Longrightarrow> locks_ok s \<Longrightarrow> locks_ok s'"
  unfolding locks_ok_def using mem_step_inv owned_step by blast

lemma locks_ok_steps: "(mem_step False)\<^sup>*\<^sup>* s s' \<Longrightarrow> locks_ok s \<Longrightarrow> locks_ok s'"
  by (induction rule: rtranclp_induct) (auto dest: locks_ok_step)

lemma locks_ok_start: "locks_ok mem_start"
  using mem_start_inv unfolding locks_ok_def by (simp add: owned_def mem_start_def NewMemoryLockManager_def free_lock_def)

text \<open>The critical section of a handler, on a goroutine of its own.\<close>

abbreviation mem_ops :: "MemoryLockManager lock_ops" where
  "mem_ops \<equiv> handler_locks memory_locks ()"

lemma handler_granted:
  assumes "lo_acquire mem_ops m eid t = (m1, None)"
  shows "mem_AcquireLock eid t m = Done m1"
  using assms by (auto simp: handler_locks_def memory_locks_def split: outcome.splits lock_reply.splits)

lemma handler_section_ok:
  assumes ok: "locks_ok (m, gs)" and u: "gs u = Idle" and acq: "lo_acquire mem_ops m eid t = (m1, None)"
  shows "locks_ok (lo_release mem_ops m1 eid, gs)"
proof -
  obtain l where to: "(mem_step False)\<^sup>*\<^sup>* (m, gs) (m1, gs(u := Holding eid l))"
    using acquire_refines [where gs = gs and t = u, OF u handler_granted [OF acq]] by blast
  then have ok1: "locks_ok (m1, gs(u := Holding eid l))" using locks_ok_steps ok by blast
  then obtain m2 where m2: "mem_ReleaseLock eid m1 = Some m2" "(mem_step False)\<^sup>*\<^sup>* (m1, gs(u := Holding eid l)) (m2, (gs(u := Holding eid l))(u := Idle))"
    using release_run [where gs = "gs(u := Holding eid l)" and t = u and lid = eid and l = l and m = m1 and allow = False] by (auto simp: locks_ok_def)
  have "(gs(u := Holding eid l))(u := Idle) = gs" using u by (simp add: fun_eq_iff)
  with locks_ok_steps [OF m2(2) ok1] m2(1) show ?thesis by (simp add: handler_locks_def memory_locks_def)
qed

lemma handler_refused_ok:
  assumes ok: "locks_ok (m, gs)" and u: "gs u = Idle" and acq: "lo_acquire mem_ops m eid t = (m1, Some e)"
  shows "locks_ok (m1, gs)"
proof -
  obtain m2 l where g: "mem_get eid m = (m2, l)" by fastforce
  have "m1 = m2" using acq g by (auto simp: handler_locks_def memory_locks_def mem_AcquireLock_def split: outcome.splits option.splits)
  moreover have "locks_ok (m2, gs(u := Queued False eid l))" by (rule locks_ok_step [OF mem_step.request [where gs = gs, OF u g] ok])
  moreover have "(gs(u := Queued False eid l))(u := Idle) = gs" using u by (simp add: fun_eq_iff)
  moreover have "owned (m2, gs)" if "owned (m2, gs(u := Queued False eid l))"
    using that by (fastforce simp: owned_def split: if_splits)
  ultimately show ?thesis
    using refuse_inv [where gs = "gs(u := Queued False eid l)" and t = u and nb = False and lid = eid and l = l and m = m2]
    by (simp add: locks_ok_def)
qed

text \<open>A request takes and releases locks only in such sections.\<close>

lemma Process_sections:
  assumes "proc_Process Lib env req srv st = (srv', st', r)" and old: "Q (ps_lockMgr srv)"
    and granted: "\<And>eid t k. lo_acquire (pl_locks Lib) (ps_lockMgr srv) eid t = (k, None) \<Longrightarrow> Q (lo_release (pl_locks Lib) k eid)"
    and refused: "\<And>eid t k e. lo_acquire (pl_locks Lib) (ps_lockMgr srv) eid t = (k, Some e) \<Longrightarrow> Q k"
  shows "Q (ps_lockMgr srv')"
  using assms(1)
proof (cases rule: Process_cases)
  case get
  obtain srv1 st1 r1 where g: "processGET Lib env (request_entity req) srv st = (srv1, st1, r1)" by (metis prod_cases3)
  then have "Q (ps_lockMgr srv1)"
    using old granted refused by (auto simp: processGET_def Let_def split: prod.splits option.splits dest!: get_locked_frame)
  with count_request_frame(4) [OF get(2) [unfolded g]] show ?thesis by simp
next
  case put
  obtain srv1 st1 r1 where g: "processPUT Lib env req (request_entity req) srv st = (srv1, st1, r1)" by (metis prod_cases3)
  obtain srv2 e where pv: "put_validate Lib env req srv st = (srv2, e)" by fastforce
  have "Q (ps_lockMgr srv1)"
    using g pv put_validate_frame(4) [OF pv] old granted refused by (auto simp: processPUT_def Let_def split: if_splits option.splits prod.splits sum.splits)
  with count_request_frame(4) [OF put(2) [unfolded g]] show ?thesis by simp
next
  case delete
  obtain srv1 st1 r1 where g: "processDELETE Lib env (request_entity req) srv st = (srv1, st1, r1)" by (metis prod_cases3)
  then have "Q (ps_lockMgr srv1)" using granted refused by (auto simp: processDELETE_def Let_def split: prod.splits option.splits)
  with count_request_frame(4) [OF delete(2) [unfolded g]] show ?thesis by simp
qed (use old in simp)

section \<open>Where the goroutines stand\<close>

text \<open>A job that is the newest of its entity among some, and an entity that is stored with an older version or not at all.\<close>

definition newest :: "write_job \<Rightarrow> write_job list \<Rightarrow> bool" where
  "newest job jobs \<longleftrightarrow> (\<forall>j \<in> set jobs. wj_entityID j = wj_entityID job \<longrightarrow> j = job \<or> wj_nextVersion j < wj_nextVersion job)"

definition behind :: "write_job \<Rightarrow> fs_error + FileData \<Rightarrow> bool" where
  "behind job r \<longleftrightarrow> (\<forall>x. r = Inr x \<longrightarrow> fm_Version (fd_Metadata x) < wj_nextVersion job)"

definition job_data :: "write_job \<Rightarrow> FileData" where
  "job_data job = \<lparr>fd_Blob = wj_blob job, fd_Metadata = wj_metadata job\<rparr>"

fun at_lock :: "string \<Rightarrow> writer \<Rightarrow> goroutine \<Rightarrow> bool" where
  "at_lock eid Starting g \<longleftrightarrow> g = Idle \<or> (\<exists>l. g = Queued False eid l \<or> g = Entered eid l)"
| "at_lock eid Guarding g \<longleftrightarrow> (\<exists>l. g = Holding eid l)"
| "at_lock eid Writing g \<longleftrightarrow> (\<exists>l. g = Holding eid l)"
| "at_lock eid Leaving g \<longleftrightarrow> g = Idle \<or> (\<exists>l. g = Holding eid l \<or> g = Releasing l)"
| "at_lock eid Ended g \<longleftrightarrow> g = Idle"

definition job_ok :: "write_job \<Rightarrow> bool" where
  "job_ok job \<longleftrightarrow> isValidEntityID (wj_entityID job) \<and> fm_Version (wj_metadata job) = wj_nextVersion job"

definition race_inv :: "('l, 'st, 's, 'rk) racing \<Rightarrow> bool" where
  "race_inv s \<longleftrightarrow> locks_ok (ps_lockMgr (rc_server s), rc_locks s) \<and> ps_pendingWrites (rc_server s) = [] \<and> rc_pending s = length (running s) \<and>
     (\<forall>n < length (rc_writers s). job_ok (fst (rc_writers s ! n)) \<and>
       at_lock (wj_entityID (fst (rc_writers s ! n))) (snd (rc_writers s ! n)) (rc_locks s n)) \<and>
     (\<forall>n \<ge> length (rc_writers s). rc_locks s n = Idle)"

text \<open>How many actions a goroutine has left, if it does not have to wait.\<close>

fun steps_left :: "writer \<Rightarrow> goroutine \<Rightarrow> nat" where
  "steps_left Starting Idle = 8"
| "steps_left Starting (Queued nb eid l) = 7"
| "steps_left Starting g = 6"
| "steps_left Guarding g = 5"
| "steps_left Writing g = 4"
| "steps_left Leaving (Holding eid l) = 3"
| "steps_left Leaving (Releasing l) = 2"
| "steps_left Leaving g = 1"
| "steps_left Ended g = 0"

definition work_left :: "('l, 'st, 's, 'rk) racing \<Rightarrow> nat" where
  "work_left s = (\<Sum>n < length (rc_writers s). steps_left (snd (rc_writers s ! n)) (rc_locks s n))"

lemma filter_update_length:
  "n < length xs \<Longrightarrow> P (xs ! n) \<Longrightarrow> length (filter P (xs[n := y])) = length (filter P xs) - (if P y then 0 else 1)"
proof (induction xs arbitrary: n)
  case (Cons x xs)
  show ?case
  proof (cases n)
    case (Suc k)
    with Cons have "P (xs ! k)" "k < length xs" by simp_all
    then have "0 < length (filter P xs)" by (metis filter_empty_conv length_greater_0_conv nth_mem)
    with Suc Cons show ?thesis by auto
  qed (use Cons in auto)
qed simp

lemma run_writer_job: "run_writer Lib env n s = Some s' \<Longrightarrow> n < length (rc_writers s)"
  by (simp add: run_writer_def split: if_splits)

text \<open>What one action of a goroutine changes.\<close>

lemma run_writer_step:
  assumes inv: "race_inv s" and run: "run_writer Lib env n s = Some s'" and w: "rc_writers s ! n = (job, p)"
  obtains q g where "rc_writers s' = (rc_writers s)[n := (job, q)]" "rc_locks s' = (rc_locks s)(n := g)" "at_lock (wj_entityID job) q g"
    "locks_ok (ps_lockMgr (rc_server s'), (rc_locks s)(n := g))" "ps_pendingWrites (rc_server s') = []"
    "p \<noteq> Ended" "rc_pending s' = rc_pending s - (if q = Ended then 1 else 0)" "steps_left q g < steps_left p (rc_locks s n)"
    "p = Guarding \<longrightarrow> rc_store s' = rc_store s \<and>
      q = (if behind job (so_read (pl_storage Lib) (he_read env) (rc_store s) (wj_entityID job)) then Writing else Leaving)"
    "p = Writing \<longrightarrow> q = Leaving \<and>
      rc_store s' = fst (so_write (pl_storage Lib) (he_write env) (wj_entityID job) (wj_blob job) (wj_metadata job) (rc_store s))"
    "p = Starting \<longrightarrow> rc_store s' = rc_store s \<and> q \<in> {Starting, Guarding}"
    "p = Leaving \<longrightarrow> rc_store s' = rc_store s \<and> q \<in> {Leaving, Ended}"
proof -
  let ?m = "ps_lockMgr (rc_server s)" and ?gs = "rc_locks s" and ?eid = "wj_entityID job"
  have n: "n < length (rc_writers s)" by (rule run_writer_job [OF run])
  have ok: "locks_ok (?m, ?gs)" and pend: "ps_pendingWrites (rc_server s) = []" and at: "at_lock ?eid p (?gs n)"
    using inv n w by (auto simp: race_inv_def)
  have run: "writer_at Lib env n job p (?gs n) s = Some s'" using run n w by (simp add: run_writer_def)
  have same: "?gs(n := ?gs n) = ?gs" by (rule fun_upd_triv)
  have upd: "rc_writers s = (rc_writers s)[n := (job, p)]" using w list_update_id [of "rc_writers s" n] by simp
  note step = locks_ok_step [OF _ ok]
  show thesis
  proof (cases p)
    case Starting
    with at consider "?gs n = Idle" | l where "?gs n = Queued False ?eid l" | l where "?gs n = Entered ?eid l" by auto
    then show thesis
    proof cases
      case 1
      obtain m l where g: "mem_get ?eid ?m = (m, l)" by fastforce
      from step [OF mem_step.request [where gs = ?gs, OF 1 g]] have "locks_ok (m, ?gs(n := Queued False ?eid l))" .
      then show thesis using run 1 g Starting pend upd by (intro that [of Starting "Queued False ?eid l"]) (auto simp: relock_def)
    next
      case (2 l)
      obtain m where g: "mutex_lock l ?m = Some m" using run 2 Starting by (auto split: option.splits)
      from step [OF mem_step.enter [where gs = ?gs, OF 2 g]] have "locks_ok (m, ?gs(n := Entered ?eid l))" .
      then show thesis using run 2 g Starting pend upd by (intro that [of Starting "Entered ?eid l"]) (auto simp: relock_def)
    next
      case (3 l)
      from step [OF mem_step.mark [where gs = ?gs, OF 3]] have "locks_ok (set_held l True ?m, ?gs(n := Holding ?eid l))" .
      then show thesis using run 3 Starting pend w by (intro that [of Guarding "Holding ?eid l"]) (auto simp: relock_def move_def)
    qed
  next
    case Guarding
    with at obtain l where l: "?gs n = Holding ?eid l" by auto
    show thesis using run l Guarding pend w ok same
      by (intro that [of "if behind job (so_read (pl_storage Lib) (he_read env) (rc_store s) ?eid) then Writing else Leaving" "?gs n"])
        (auto simp: move_def Let_def behind_def not_le split: sum.splits if_splits)
  next
    case Writing
    with at obtain l where l: "?gs n = Holding ?eid l" by auto
    show thesis using run l Writing pend w ok same
      by (intro that [of Leaving "?gs n"]) (auto simp: move_def count_async_failure_def split: prod.splits option.splits)
  next
    case Leaving
    with at consider "?gs n = Idle" | l where "?gs n = Holding ?eid l" | l where "?gs n = Releasing l" by auto
    then show thesis
    proof cases
      case 1
      then show thesis using run Leaving pend w ok same by (intro that [of Ended Idle]) (auto simp: end_writer_def move_def Let_def)
    next
      case (2 l)
      have b: "begin_release ?eid ?m = (set_held l False ?m, Some l)"
        using begin_release_held [where gs = ?gs and t = n, OF _ 2] ok by (simp add: locks_ok_def)
      from step [OF mem_step.release [where gs = ?gs, OF 2 b]] have "locks_ok (set_held l False ?m, ?gs(n := Releasing l))" by simp
      then show thesis using run 2 b ok Leaving pend upd by (intro that [of Leaving "Releasing l"]) (auto simp: relock_def locks_ok_def)
    next
      case (3 l)
      obtain m where g: "mutex_unlock l ?m = Some m" using run 3 Leaving by (auto split: option.splits)
      from step [OF mem_step.unlock [where gs = ?gs, OF 3 g]] have "locks_ok (m, ?gs(n := Idle))" .
      then show thesis using run 3 g Leaving pend upd by (intro that [of Leaving Idle]) (auto simp: relock_def)
    qed
  next
    case Ended
    with run show thesis by simp
  qed
qed

lemma run_writer_inv:
  assumes inv: "race_inv s" and run: "run_writer Lib env n s = Some s'"
  shows "race_inv s' \<and> work_left s' < work_left s"
proof -
  obtain job p where w: "rc_writers s ! n = (job, p)" by fastforce
  note n = run_writer_job [OF run]
  from run_writer_step [OF inv run w] obtain q g where s': "rc_writers s' = (rc_writers s)[n := (job, q)]" "rc_locks s' = (rc_locks s)(n := g)"
    "at_lock (wj_entityID job) q g" "locks_ok (ps_lockMgr (rc_server s'), (rc_locks s)(n := g))" "ps_pendingWrites (rc_server s') = []"
    "p \<noteq> Ended" "rc_pending s' = rc_pending s - (if q = Ended then 1 else 0)" "steps_left q g < steps_left p (rc_locks s n)" by metis
  have "length (running s') = length (running s) - (if q = Ended then 1 else 0)"
    using filter_update_length [of n "rc_writers s" "\<lambda>w. snd w \<noteq> Ended" "(job, q)"] n w s'(1,6) by (simp add: running_def)
  then have "race_inv s'" using inv s' n w by (auto simp: race_inv_def nth_list_update split: if_splits)
  moreover have "work_left s' < work_left s"
    unfolding work_left_def s'(1,2) using n w s'(8) by (auto simp: nth_list_update intro!: sum_strict_mono_ex1)
  ultimately show ?thesis ..
qed

text \<open>No deadlock: as long as \<open>Wait\<close> has not returned, some goroutine can run, whatever the calls of its storage do.\<close>

lemma writer_can_run:
  assumes n: "n < length (rc_writers s)" and w: "rc_writers s ! n = (job, p)" and inv: "race_inv s" and p: "p \<noteq> Ended"
    and free: "\<And>nb eid l. rc_locks s n = Queued nb eid l \<Longrightarrow> \<not> mk_mu (mlm_heap (ps_lockMgr (rc_server s)) l)"
  shows "run_writer Lib env n s \<noteq> None"
proof -
  have at: "at_lock (wj_entityID job) p (rc_locks s n)" using inv n w by (auto simp: race_inv_def)
  have "mk_mu (mlm_heap (ps_lockMgr (rc_server s)) l)" if "rc_locks s n = Releasing l" for l
    using inv mem_invD(5) [of "ps_lockMgr (rc_server s)" "rc_locks s" n l] that by (simp add: race_inv_def locks_ok_def)
  moreover have "\<not> mk_mu (mlm_heap (ps_lockMgr (rc_server s)) l)" if "rc_locks s n = Queued False (wj_entityID job) l" for l using free that by blast
  ultimately show ?thesis using at p n w
    by (cases p) (auto simp: run_writer_def mutex_lock_def mutex_unlock_def Let_def split: prod.splits option.splits)
qed

lemma writers_progress:
  assumes inv: "race_inv s" and wait: "\<not> WaitForPendingWrites s"
  shows "\<exists>n. \<forall>env. run_writer Lib env n s \<noteq> None"
proof -
  let ?m = "ps_lockMgr (rc_server s)" and ?gs = "rc_locks s"
  have "running s \<noteq> []" using inv wait by (auto simp: race_inv_def WaitForPendingWrites_def)
  then obtain w where "w \<in> set (rc_writers s)" "snd w \<noteq> Ended" by (auto simp: running_def filter_empty_conv)
  then obtain n job p where n: "n < length (rc_writers s)" "rc_writers s ! n = (job, p)" "p \<noteq> Ended" by (metis in_set_conv_nth prod.collapse)
  show ?thesis
  proof (cases "\<exists>nb eid l. ?gs n = Queued nb eid l \<and> mk_mu (mlm_heap ?m l)")
    case False
    with writer_can_run [OF n(1,2) inv n(3)] show ?thesis by blast
  next
    case True
    then obtain l where "mk_mu (mlm_heap ?m l)" by blast
    then obtain t where t: "owns (?gs t) = Some l" using inv by (auto simp: race_inv_def locks_ok_def owned_def)
    then have lt: "t < length (rc_writers s)" using inv by (cases "t < length (rc_writers s)") (auto simp: race_inv_def not_less)
    obtain job' p' where w: "rc_writers s ! t = (job', p')" by fastforce
    have "at_lock (wj_entityID job') p' (?gs t)" using inv lt w by (auto simp: race_inv_def)
    with t have "p' \<noteq> Ended" "\<And>nb eid k. ?gs t \<noteq> Queued nb eid k" by auto
    with writer_can_run [OF lt w inv] show ?thesis by blast
  qed
qed

section \<open>Requests between the goroutines\<close>

lemma Process_jobs:
  assumes "proc_Process Lib env req srv st = (srv', st', r)"
  obtains "ps_pendingWrites srv' = ps_pendingWrites srv"
  | job resp where "GetOperation req = ''PUT''" "r = Inr resp" "ps_pendingWrites srv' = ps_pendingWrites srv @ [job]"
      "wj_entityID job = request_entity req" "job_ok job"
  using assms
proof (cases rule: Process_cases)
  case get
  obtain srv1 st1 r1 where g: "processGET Lib env (request_entity req) srv st = (srv1, st1, r1)" by (metis prod_cases3)
  then have "ps_pendingWrites srv1 = ps_pendingWrites srv"
    by (auto simp: processGET_def Let_def split: prod.splits option.splits dest!: get_locked_frame)
  with count_request_frame(3) [OF get(2) [unfolded g]] that(1) show thesis by simp
next
  case put
  obtain srv1 st1 r1 where g: "processPUT Lib env req (request_entity req) srv st = (srv1, st1, r1)" by (metis prod_cases3)
  note fr = count_request_frame(3,6) [OF put(2) [unfolded g]]
  show thesis
  proof (cases r1)
    case (Inl e)
    from processPUT_refused(3) [OF g [unfolded Inl]] fr that(1) show thesis by simp
  next
    case (Inr resp)
    have "isValidEntityID (request_entity req)"
      using Process_accepted_addressable [of Lib env req srv st srv' st' resp] assms Inr fr(2) by (intro entity_id_valid) simp
    with g [unfolded Inr] put(1) fr Inr that(2) show thesis by (elim processPUT_accepted) (simp add: job_ok_def put_metadata_def)
  qed
next
  case delete
  obtain srv1 st1 r1 where g: "processDELETE Lib env (request_entity req) srv st = (srv1, st1, r1)" by (metis prod_cases3)
  then have "ps_pendingWrites srv1 = ps_pendingWrites srv" by (auto simp: processDELETE_def Let_def split: prod.splits option.splits)
  with count_request_frame(3) [OF delete(2) [unfolded g]] that(1) show thesis by simp
qed (use that(1) in simp)

lemma serve_inv:
  assumes L: "pl_locks Lib = mem_ops" and inv: "race_inv s" and serve: "serve Lib env req s = (s', r)"
  shows "race_inv s'"
proof -
  obtain srv st r1 where pr: "proc_Process Lib env req (rc_server s) (rc_store s) = (srv, st, r1)" by (metis prod_cases3)
  let ?n = "length (rc_writers s)" and ?Q = "\<lambda>m. locks_ok (m, rc_locks s)"
  have idle: "rc_locks s ?n = Idle" and ok: "?Q (ps_lockMgr (rc_server s))" and pend: "ps_pendingWrites (rc_server s) = []"
    using inv by (simp_all add: race_inv_def)
  have lk: "?Q (ps_lockMgr srv)"
    by (rule Process_sections [OF pr, of ?Q]) (use ok handler_section_ok [OF ok idle] handler_refused_ok [OF ok idle] in \<open>auto simp: L\<close>)
  have s': "s' = s\<lparr>rc_server := srv\<lparr>ps_pendingWrites := []\<rparr>, rc_store := st, rc_writers := rc_writers s @ map (\<lambda>job. (job, Starting)) (ps_pendingWrites srv),
      rc_pending := rc_pending s + length (ps_pendingWrites srv)\<rparr>"
    using serve pr by (simp add: serve_def)
  have jobs: "\<forall>job \<in> set (ps_pendingWrites srv). job_ok job" using pr by (rule Process_jobs) (simp_all add: pend)
  have "job_ok (fst (rc_writers s' ! n)) \<and> at_lock (wj_entityID (fst (rc_writers s' ! n))) (snd (rc_writers s' ! n)) (rc_locks s' n)"
    if "n < length (rc_writers s')" for n
    using that jobs inv by (cases "n < ?n") (auto simp: s' race_inv_def nth_append)
  moreover have "rc_pending s' = length (running s')" using inv by (simp add: s' race_inv_def running_def)
  moreover have "\<forall>n \<ge> length (rc_writers s'). rc_locks s' n = Idle" using inv by (simp add: s' race_inv_def)
  ultimately show ?thesis using lk by (simp add: race_inv_def s')
qed

lemma race_start_inv:
  "ps_lockMgr srv = NewMemoryLockManager \<Longrightarrow> ps_pendingWrites srv = [] \<Longrightarrow> race_inv (race_start srv st)"
  using locks_ok_start by (simp add: race_inv_def race_start_def running_def mem_start_def)

lemma race_run_inv:
  assumes "pl_locks Lib = mem_ops"
  shows "race_run Lib E s s' \<Longrightarrow> race_inv s \<Longrightarrow> race_inv s'"
proof (induction rule: race_run.induct)
  case (run_step s1 ev s2)
  from run_step(2) show ?case
    by cases (use run_step(4,5) serve_inv [OF assms] run_writer_inv in blast)+
qed

section \<open>The writes of one entity\<close>

text \<open>The events after a PUT: goroutines whose storage calls do not fail, and requests that neither write nor delete the entity.\<close>

fun spares :: "string \<Rightarrow> 'f \<Rightarrow> 'f race_event \<Rightarrow> bool" where
  "spares eid none (Ran env n) \<longleftrightarrow> he_read env = none \<and> he_write env = none"
| "spares eid none (Served env req) \<longleftrightarrow> (GetOperation req \<in> {''PUT'', ''DELETE''} \<longrightarrow> request_entity req \<noteq> eid)"

locale race_system = proc_system Lib items cap lok fok sinv cod sat
  for Lib :: "('l, 'st, 'f, MemoryLockManager, 's) proc_libs" and items cap lok fok sinv cod sat +
  assumes lib_locks: "pl_locks Lib = mem_ops"
begin

lemma race_run_store: "race_run Lib E s s' \<Longrightarrow> race_inv s \<Longrightarrow> sinv (rc_store s) \<Longrightarrow> race_inv s' \<and> sinv (rc_store s')"
proof (induction rule: race_run.induct)
  case (run_step s1 ev s2)
  then have inv: "race_inv s1" "sinv (rc_store s1)" by simp_all
  from run_step(2) show ?case
  proof cases
    case (served env req r)
    obtain srv st r1 where pr: "proc_Process Lib env req (rc_server s1) (rc_store s1) = (srv, st, r1)" by (metis prod_cases3)
    then have "sinv st" using Process_store [OF pr] inv(2) by (auto intro: S.delete_inv)
    moreover have "rc_store s2 = st" using served(2) pr by (auto simp: serve_def)
    ultimately show ?thesis using serve_inv [OF lib_locks inv(1) served(2)] by simp
  next
    case (ran env n)
    obtain job p where w: "rc_writers s1 ! n = (job, p)" by fastforce
    have "sinv (rc_store s2)"
      by (rule run_writer_step [OF inv(1) ran(2) w]; cases p) (use inv(2) in \<open>auto intro: S.write_inv\<close>)
    with run_writer_inv [OF inv(1) ran(2)] show ?thesis by blast
  qed
qed simp

abbreviation stored_at :: "string \<Rightarrow> ('l, 'st, 's, 'rk) racing \<Rightarrow> fs_error + FileData" where
  "stored_at eid s \<equiv> so_read (pl_storage Lib) fok (rc_store s) eid"

text \<open>
  The goroutines of the entity that are about to write have found an older version; the newest job is stored, or its goroutine has
  not written yet.
\<close>

definition newest_inv :: "write_job \<Rightarrow> ('l, 'st, 's, 'rk) racing \<Rightarrow> bool" where
  "newest_inv job s \<longleftrightarrow>
     (\<forall>n < length (rc_writers s). \<forall>j. rc_writers s ! n = (j, Writing) \<and> wj_entityID j = wj_entityID job \<longrightarrow> behind j (stored_at (wj_entityID job) s)) \<and>
     (stored_at (wj_entityID job) s = Inr (job_data job) \<or>
       behind job (stored_at (wj_entityID job) s) \<and> (\<exists>n < length (rc_writers s). \<exists>p \<in> {Starting, Guarding, Writing}. rc_writers s ! n = (job, p))) \<and>
     newest job (running s) \<and> (\<forall>j \<in> set (running s). wj_entityID j = wj_entityID job \<longrightarrow> cod (wj_metadata j)) \<and> job_ok job"

lemma writing_alone:
  assumes inv: "race_inv s" and "n < length (rc_writers s)" "n' < length (rc_writers s)"
    and "rc_writers s ! n = (j, Writing)" "rc_writers s ! n' = (j', Writing)" "wj_entityID j = wj_entityID j'"
  shows "n = n'"
proof -
  let ?m = "ps_lockMgr (rc_server s)" and ?gs = "rc_locks s"
  have ok: "mem_inv (?m, ?gs)" using inv by (simp add: race_inv_def locks_ok_def)
  have "at_lock (wj_entityID j) Writing (?gs n)" "at_lock (wj_entityID j') Writing (?gs n')" using inv assms(2-5) unfolding race_inv_def by (metis fst_conv snd_conv)+
  then obtain l l' where l: "?gs n = Holding (wj_entityID j) l" "?gs n' = Holding (wj_entityID j) l'" using assms(6) by auto
  then have "l = l'" using mem_invD(3) [OF ok, of n "wj_entityID j" l] mem_invD(3) [OF ok, of n' "wj_entityID j" l'] by simp
  with l mem_invD(6) [OF ok, of n l n'] show ?thesis by simp
qed

lemma writer_newest:
  assumes inv: "race_inv s" and sinv: "sinv (rc_store s)" and new: "newest_inv job s"
    and env: "he_read env = fok" "he_write env = fok" and run: "run_writer Lib env n s = Some s'"
  shows "newest_inv job s'"
proof -
  let ?eid = "wj_entityID job" and ?ws = "rc_writers s"
  note n = run_writer_job [OF run]
  obtain j p where w: "?ws ! n = (j, p)" by fastforce
  obtain q where s': "rc_writers s' = ?ws[n := (j, q)]" "p \<noteq> Ended"
    and gd: "p = Guarding \<longrightarrow> rc_store s' = rc_store s \<and> q = (if behind j (stored_at (wj_entityID j) s) then Writing else Leaving)"
    and wr: "p = Writing \<longrightarrow> q = Leaving \<and> rc_store s' = fst (so_write (pl_storage Lib) fok (wj_entityID j) (wj_blob j) (wj_metadata j) (rc_store s))"
    and st: "p = Starting \<longrightarrow> rc_store s' = rc_store s \<and> q \<in> {Starting, Guarding}" and lv: "p = Leaving \<longrightarrow> rc_store s' = rc_store s \<and> q \<in> {Leaving, Ended}"
    by (rule run_writer_step [OF inv run w], unfold env) (rule that)
  have jr: "j \<in> set (running s)" using n w s'(2) by (force simp: running_def in_set_conv_nth)
  have sub: "set (running s') \<subseteq> set (running s)"
  proof
    fix x
    assume "x \<in> set (running s')"
    then obtain r where "(x, r) \<in> set (?ws[n := (j, q)])" "r \<noteq> Ended" by (auto simp: running_def s'(1))
    with set_update_subset_insert [of ?ws n "(j, q)"] have "x = j \<or> (x, r) \<in> set ?ws" by auto
    with jr \<open>r \<noteq> Ended\<close> show "x \<in> set (running s)" by (force simp: running_def)
  qed
  have "job_ok (fst (?ws ! n))" using inv n unfolding race_inv_def by blast
  then have jok: "job_ok j" "job_ok job" using w new unfolding newest_inv_def by simp_all
  note N = new [unfolded newest_inv_def]
  show ?thesis
  proof (cases "p = Writing \<and> wj_entityID j = ?eid")
    case False
    then have same: "stored_at ?eid s' = stored_at ?eid s"
      using gd wr st lv S.write_frame [OF sinv] s'(2) by (cases p) auto
    have here: "behind j (stored_at ?eid s)" if "q = Writing" "wj_entityID j = ?eid" using that gd wr st lv s'(2) by (cases p) (auto split: if_splits)
    have "behind x (stored_at ?eid s')" if "k < length (rc_writers s')" "rc_writers s' ! k = (x, Writing)" "wj_entityID x = ?eid" for k x
      using that N here n unfolding same s'(1) by (cases "k = n") auto
    moreover have "stored_at ?eid s' = Inr (job_data job) \<or>
       behind job (stored_at ?eid s') \<and> (\<exists>k < length (rc_writers s'). \<exists>p \<in> {Starting, Guarding, Writing}. rc_writers s' ! k = (job, p))"
    proof (cases "stored_at ?eid s = Inr (job_data job)")
      case nd: False
      with N obtain k pk where k: "behind job (stored_at ?eid s)" "k < length ?ws" "pk \<in> {Starting, Guarding, Writing}" "?ws ! k = (job, pk)" by blast
      show ?thesis
      proof (cases "k = n")
        case True
        with k w have "j = job" "pk = p" by auto
        with k(1,3) False gd st have "q \<in> {Starting, Guarding, Writing}" by (cases p) auto
        with k True \<open>j = job\<close> n show ?thesis unfolding same s'(1) by (intro disjI2 conjI exI [of _ n]) auto
      next
        case False
        with k show ?thesis unfolding same s'(1) by (intro disjI2 conjI exI [of _ k]) auto
      qed
    qed (simp add: same)
    ultimately show ?thesis using N sub unfolding newest_inv_def newest_def by blast
  next
    case True
    then have wj: "q = Leaving" "rc_store s' = fst (so_write (pl_storage Lib) fok ?eid (wj_blob j) (wj_metadata j) (rc_store s))" using wr by auto
    have "cod (wj_metadata j)" using N jr True by blast
    moreover have "isValidEntityID ?eid" using jok(1) True by (simp add: job_ok_def)
    ultimately have R: "stored_at ?eid s' = Inr (job_data j)"
      using S.write_succeeds [OF sinv, of ?eid "wj_metadata j" "wj_blob j"] S.write_read [OF sinv, of "wj_metadata j" fok ?eid "wj_blob j"]
      by (metis wj(2) job_data_def prod.collapse)
    have one: "\<not> (rc_writers s' ! k = (x, Writing) \<and> wj_entityID x = ?eid)" if "k < length (rc_writers s')" for k x
      using that writing_alone [OF inv n, of k j x] w True wj(1) unfolding s'(1) by (cases "k = n") auto
    show ?thesis
    proof (cases "j = job")
      case True
      with R one N sub show ?thesis unfolding newest_inv_def newest_def by blast
    next
      case False
      with N jr True have lt: "wj_nextVersion j < wj_nextVersion job" by (auto simp: newest_def)
      have "behind j (stored_at ?eid s)" using N n w True by blast
      then have "stored_at ?eid s \<noteq> Inr (job_data job)" using lt jok(2) by (auto simp: behind_def job_data_def job_ok_def)
      with N obtain k pk where k: "k < length ?ws" "pk \<in> {Starting, Guarding, Writing}" "?ws ! k = (job, pk)" by blast
      then have "k \<noteq> n" using w False by auto
      with k have "\<exists>k < length (rc_writers s'). \<exists>p \<in> {Starting, Guarding, Writing}. rc_writers s' ! k = (job, p)"
        unfolding s'(1) by (intro exI [of _ k]) auto
      moreover have "behind job (stored_at ?eid s')" using R lt jok(1) by (simp add: behind_def job_data_def job_ok_def)
      ultimately show ?thesis using one N sub unfolding newest_inv_def newest_def by blast
    qed
  qed
qed

lemma served_newest:
  assumes inv: "race_inv s" and sinv: "sinv (rc_store s)" and new: "newest_inv job s" and serve: "serve Lib env req s = (s', r)"
    and other: "spares (wj_entityID job) fok (Served env req)"
  shows "newest_inv job s'"
proof -
  let ?eid = "wj_entityID job"
  obtain srv st r1 where pr: "proc_Process Lib env req (rc_server s) (rc_store s) = (srv, st, r1)" by (metis prod_cases3)
  have s': "rc_store s' = st" "rc_writers s' = rc_writers s @ map (\<lambda>job. (job, Starting)) (ps_pendingWrites srv)"
    using serve pr by (auto simp: serve_def)
  have same: "stored_at ?eid s' = stored_at ?eid s"
    using Process_store [OF pr] other S.delete_frame [OF sinv, of ?eid "request_entity req" "he_write env"] by (auto simp: s'(1))
  have pend: "ps_pendingWrites (rc_server s) = []" using inv by (simp add: race_inv_def)
  have jobs: "\<forall>j \<in> set (ps_pendingWrites srv). wj_entityID j \<noteq> ?eid"
    by (rule Process_jobs [OF pr]) (use other pend in auto)
  have run: "running s' = running s @ ps_pendingWrites srv" by (simp add: running_def s'(2) comp_def)
  note N = new [unfolded newest_inv_def]
  have "behind j (stored_at ?eid s')" if "n < length (rc_writers s')" "rc_writers s' ! n = (j, Writing)" "wj_entityID j = ?eid" for n j
    using that N unfolding same by (auto simp: s'(2) nth_append split: if_splits)
  moreover have "\<exists>n < length (rc_writers s'). \<exists>p \<in> {Starting, Guarding, Writing}. rc_writers s' ! n = (job, p)"
    if "n < length (rc_writers s)" "p \<in> {Starting, Guarding, Writing}" "rc_writers s ! n = (job, p)" for n p
    using that by (intro exI [of _ n]) (auto simp: s'(2) nth_append)
  then have "stored_at ?eid s' = Inr (job_data job) \<or>
      behind job (stored_at ?eid s') \<and> (\<exists>n < length (rc_writers s'). \<exists>p \<in> {Starting, Guarding, Writing}. rc_writers s' ! n = (job, p))"
    using N unfolding same by blast
  moreover have "newest job (running s') \<and> (\<forall>j \<in> set (running s'). wj_entityID j = ?eid \<longrightarrow> cod (wj_metadata j)) \<and> job_ok job"
    using N jobs by (auto simp: run newest_def)
  ultimately show ?thesis unfolding newest_inv_def by blast
qed

lemma race_run_newest:
  "race_run Lib (spares (wj_entityID job) fok) s s' \<Longrightarrow> race_inv s \<Longrightarrow> sinv (rc_store s) \<Longrightarrow> newest_inv job s \<Longrightarrow> newest_inv job s'"
proof (induction rule: race_run.induct)
  case (run_step s1 ev s2)
  note inv = race_run_store [OF run_step(1,5,6)]
  from run_step(2) show ?case
  proof cases
    case (served env req r)
    with served_newest [of s1 job env req s2 r] inv run_step show ?thesis by simp
  next
    case (ran env n)
    with writer_newest [of s1 job env n s2] inv run_step show ?thesis by simp
  qed
qed

text \<open>An accepted PUT finds the lock of its entity free, so no goroutine is about to write the entity when the new one starts.\<close>

lemma accepted_put_alone:
  assumes inv: "race_inv s" and pr: "proc_Process Lib env req (rc_server s) (rc_store s) = (srv, st, Inr resp)" and put: "GetOperation req = ''PUT''"
    and n: "n < length (rc_writers s)" "rc_writers s ! n = (j, Writing)"
  shows "wj_entityID j \<noteq> request_entity req"
proof
  assume j: "wj_entityID j = request_entity req"
  let ?m = "ps_lockMgr (rc_server s)" and ?gs = "rc_locks s" and ?eid = "request_entity req"
  obtain srv1 where p: "processPUT Lib env req ?eid (rc_server s) (rc_store s) = (srv1, st, Inr resp)" using processPUT_cong [OF pr put] by metis
  obtain srv2 e where pv: "put_validate Lib env req (rc_server s) (rc_store s) = (srv2, e)" by fastforce
  obtain k where "lo_acquire mem_ops ?m ?eid LockExclusive = (k, None)"
    using p pv put_validate_frame(4) [OF pv] lib_locks by (auto simp: processPUT_def Let_def split: if_splits option.splits prod.splits)
  then have acq: "mem_AcquireLock ?eid LockExclusive ?m = Done k" by (rule handler_granted)
  have ok: "mem_inv (?m, ?gs)" using inv by (simp add: race_inv_def locks_ok_def)
  have "at_lock (wj_entityID j) Writing (?gs n)" using inv n unfolding race_inv_def by (metis fst_conv snd_conv)
  then obtain l where "?gs n = Holding ?eid l" using j by auto
  with mem_invD(3,5) [OF ok, of n] have "mlm_locks ?m ?eid = Some l" "mk_mu (mlm_heap ?m l)" by simp_all
  with acq show False by (simp add: mem_AcquireLock_def mem_get_def mutex_lock_def)
qed

lemma accepted_put_newest:
  assumes inv: "race_inv s" and serve: "serve Lib env req s = (s', Inr resp)" and put: "GetOperation req = ''PUT''"
    and nonce: "\<forall>n. he_nonce env = Some n \<longrightarrow> length n = NonceSize" and job: "job = fst (last (rc_writers s'))"
    and cd: "\<forall>j \<in> set (running s'). wj_entityID j = request_entity req \<longrightarrow> cod (wj_metadata j)"
    and new: "newest job (running s')" and old: "behind job (stored_at (request_entity req) s')"
  shows "newest_inv job s' \<and> wj_entityID job = request_entity req \<and>
    (\<exists>ver. promises (pl_aead Lib) (pw_encryptionKey (ps_worker (rc_server s))) (request_entity req) (GetPayload req) ver job \<and> rs_Version resp = Itoa ver)"
proof -
  let ?eid = "request_entity req"
  obtain srv st where pr: "proc_Process Lib env req (rc_server s) (rc_store s) = (srv, st, Inr resp)"
    and s': "rc_writers s' = rc_writers s @ map (\<lambda>job. (job, Starting)) (ps_pendingWrites srv)"
    using serve by (auto simp: serve_def split: prod.splits)
  obtain srv1 where p: "processPUT Lib env req ?eid (rc_server s) (rc_store s) = (srv1, st, Inr resp)" "ps_pendingWrites srv = ps_pendingWrites srv1"
    using processPUT_cong [OF pr put] by metis
  have pend: "ps_pendingWrites (rc_server s) = []" using inv by (simp add: race_inv_def)
  from PUT_promises [OF p(1) nonce] obtain ver j where j: "ps_pendingWrites srv = [j]"
    "promises (pl_aead Lib) (pw_encryptionKey (ps_worker (rc_server s))) ?eid (GetPayload req) ver j" "rs_Version resp = Itoa ver"
    by (metis p(2) pend append_Nil response_def ProcessResponse.select_convs(3))
  have jj: "job = j" by (simp add: job s' j(1))
  have eid: "wj_entityID job = ?eid" "job_ok job"
    by (rule Process_jobs [OF pr]; use pend j(1) jj in auto)+
  have "\<not> (rc_writers s' ! n = (x, Writing) \<and> wj_entityID x = ?eid)" if "n < length (rc_writers s')" for n x
    using that accepted_put_alone [OF inv pr put] by (auto simp: s' j(1) nth_append split: if_splits)
  moreover have "rc_writers s' ! length (rc_writers s) = (job, Starting)" "length (rc_writers s) < length (rc_writers s')" by (simp_all add: s' j(1) jj)
  ultimately have "newest_inv job s'" using old new cd eid unfolding newest_inv_def eid(1) by blast
  with eid j jj show ?thesis by blast
qed

text \<open>When the wait is over, the newest write is in the storage.\<close>

lemma waited_stored:
  assumes "race_inv s" and "newest_inv job s" and "WaitForPendingWrites s"
  shows "stored_at (wj_entityID job) s = Inr (job_data job)"
proof -
  have "running s = []" using assms(1,3) by (simp add: race_inv_def WaitForPendingWrites_def)
  then have "snd (rc_writers s ! n) = Ended" if "n < length (rc_writers s)" for n
    using that by (simp add: running_def filter_empty_conv)
  with assms(2) show ?thesis unfolding newest_inv_def by fastforce
qed

text \<open>The wait comes to its end.\<close>

lemma waiting_ends:
  "race_inv s \<Longrightarrow> \<exists>s'. race_run Lib (spares eid fok) s s' \<and> WaitForPendingWrites s'"
proof (induction "work_left s" arbitrary: s rule: less_induct)
  case less
  show ?case
  proof (cases "WaitForPendingWrites s")
    case False
    let ?env = "undefined\<lparr>he_read := fok, he_write := fok\<rparr>"
    obtain n s1 where r: "run_writer Lib ?env n s = Some s1" using writers_progress [OF less(2) False] by blast
    note inv = run_writer_inv [OF less(2) r]
    then obtain s' where "race_run Lib (spares eid fok) s1 s'" "WaitForPendingWrites s'" using less(1) by blast
    moreover have "race_run Lib (spares eid fok) s s1" by (rule race_run.run_step [OF race_run.run_start race_step.ran [OF r]]) simp
    ultimately show ?thesis using race_run_trans by blast
  qed (use race_run.run_start in blast)
qed

end

lemma s3_race_system:
  assumes "lru_spec L items cap lok" and "object_store C (s3_bucket s) none view ready"
  shows "race_system (s3_libs L C J s mem_ops V) items cap lok none (\<lambda>st. ready (fst st)) (codable J) (\<lambda>PB PM st. objects_satisfy J PB PM (view (fst st)))"
  using s3_system [OF assms] by (simp add: race_system_def race_system_axioms_def)

interpretation s3_races: race_system "s3_libs list_lru_ops map_client J s mem_ops V" ll_items ll_cap list_lru_ok
    "\<lambda>_. None" "\<lambda>st. fst st (s3_bucket s) \<noteq> None" "codable J" "\<lambda>PB PM st. objects_satisfy J PB PM (bucket_objects (s3_bucket s) (fst st))" for J s V
  by (rule s3_race_system [OF llru.lru_spec_axioms map_store.object_store_axioms])

section \<open>One goroutine alone\<close>

text \<open>The actions of a goroutine that finds its lock free, run in a row, are the definition \<open>async_write\<close>.\<close>

lemma run_alone:
  assumes "run_writer Lib env n s = Some s1" and "race_run Lib (\<lambda>ev. ev = Ran env n) s1 s'"
  shows "race_run Lib (\<lambda>ev. ev = Ran env n) s s'"
proof -
  have "race_run Lib (\<lambda>ev. ev = Ran env n) s s1" by (rule race_run.run_step [OF race_run.run_start race_step.ran [OF assms(1)]]) simp
  with assms(2) show ?thesis by (rule race_run_trans)
qed

lemma leave_alone:
  assumes n: "n < length (rc_writers s)" "rc_writers s ! n = (job, Leaving)" and g: "rc_locks s n = Holding (wj_entityID job) l"
    and b: "begin_release (wj_entityID job) (ps_lockMgr (rc_server s)) = (m1, Some l)" and u: "mutex_unlock l m1 = Some m2"
  shows "race_run Lib (\<lambda>ev. ev = Ran env n) s (end_writer n (relock n m2 Idle s))"
proof (rule run_alone)
  show "run_writer Lib env n s = Some (relock n m1 (Releasing l) s)" using n g b by (simp add: run_writer_def relock_def)
  show "race_run Lib (\<lambda>ev. ev = Ran env n) (relock n m1 (Releasing l) s) (end_writer n (relock n m2 Idle s))"
  proof (rule run_alone)
    show "run_writer Lib env n (relock n m1 (Releasing l) s) = Some (relock n m2 Idle s)" using n u by (simp add: run_writer_def relock_def)
    show "race_run Lib (\<lambda>ev. ev = Ran env n) (relock n m2 Idle s) (end_writer n (relock n m2 Idle s))"
      using n by (intro run_alone [OF _ race_run.run_start]) (simp add: run_writer_def relock_def)
  qed
qed

lemma enter_alone:
  assumes n: "n < length (rc_writers s)" "rc_writers s ! n = (job, Starting)" and g: "rc_locks s n = Idle"
    and a: "mem_get (wj_entityID job) (ps_lockMgr (rc_server s)) = (m1, l)" and m: "mutex_lock l m1 = Some m2"
  shows "race_run Lib (\<lambda>ev. ev = Ran env n) s (move n Guarding (relock n (set_held l True m2) (Holding (wj_entityID job) l) s))"
proof (rule run_alone)
  let ?s1 = "relock n m1 (Queued False (wj_entityID job) l) s" and ?s2 = "relock n m2 (Entered (wj_entityID job) l) s"
  show "run_writer Lib env n s = Some ?s1" using n g a by (simp add: run_writer_def)
  show "race_run Lib (\<lambda>ev. ev = Ran env n) ?s1 (move n Guarding (relock n (set_held l True m2) (Holding (wj_entityID job) l) s))"
  proof (rule run_alone)
    show "run_writer Lib env n ?s1 = Some ?s2" using n m by (simp add: run_writer_def relock_def)
    show "race_run Lib (\<lambda>ev. ev = Ran env n) ?s2 (move n Guarding (relock n (set_held l True m2) (Holding (wj_entityID job) l) s))"
      using n by (intro run_alone [OF _ race_run.run_start]) (simp add: run_writer_def relock_def)
  qed
qed

theorem writer_alone:
  assumes L: "pl_locks Lib = mem_ops" and inv: "race_inv s" and n: "n < length (rc_writers s)" "rc_writers s ! n = (job, Starting)" and g: "rc_locks s n = Idle"
    and free: "lo_acquire mem_ops (ps_lockMgr (rc_server s)) (wj_entityID job) LockExclusive = (k, None)"
  shows "\<exists>s'. race_run Lib (\<lambda>ev. ev = Ran env n) s s' \<and> rc_locks s' = rc_locks s \<and> rc_writers s' = (rc_writers s)[n := (job, Ended)] \<and>
    async_write Lib env job (rc_server s) (rc_store s) = (rc_server s', rc_store s')"
proof -
  let ?eid = "wj_entityID job" and ?m = "ps_lockMgr (rc_server s)"
  let ?R = "race_run Lib (\<lambda>ev. ev = Ran env n)"
  obtain m1 l m2 where a: "mem_get ?eid ?m = (m1, l)" "mutex_lock l m1 = Some m2" "k = set_held l True m2"
    using handler_granted [OF free] by (auto simp: mem_AcquireLock_def split: prod.splits option.splits)
  let ?s1 = "move n Guarding (relock n k (Holding ?eid l) s)"
  have to1: "?R s ?s1" using enter_alone [OF n g a(1,2)] a(3) by simp
  have ok: "mem_inv (k, (rc_locks s)(n := Holding ?eid l))"
    using inv locks_ok_steps [OF acquire_run [where gs = "rc_locks s" and t = n, OF g a(1,2)]] a(3) by (simp add: race_inv_def locks_ok_def)
  then have b: "begin_release ?eid k = (set_held l False k, Some l)" by (rule begin_release_held [where t = n]) simp
  obtain m3 where u: "mutex_unlock l (set_held l False k) = Some m3" "mem_ReleaseLock ?eid k = Some m3"
    using release_run [where gs = "(rc_locks s)(n := Holding ?eid l)" and t = n and lid = ?eid and l = l, OF ok] b by (auto simp: mem_ReleaseLock_def)
  have rel: "lo_release mem_ops k ?eid = m3" using u(2) by (simp add: handler_locks_def memory_locks_def)
  let ?leave = "\<lambda>s2. end_writer n (relock n m3 Idle s2)"
  have leave: "?R s2 (?leave s2)" if "rc_writers s2 = (rc_writers s)[n := (job, Leaving)]" "rc_locks s2 n = Holding ?eid l" "ps_lockMgr (rc_server s2) = k" for s2
    using that n b u(1) by (intro leave_alone) simp_all
  have last: "rc_locks (?leave s2) = rc_locks s" "rc_writers (?leave s2) = (rc_writers s)[n := (job, Ended)]"
    if "rc_writers s2 = (rc_writers s)[n := (job, Leaving)]" "rc_locks s2 = (rc_locks s)(n := Holding ?eid l)" for s2
    using that n g by (simp_all add: end_writer_def move_def relock_def Let_def fun_eq_iff)
  let ?stale = "case so_read (pl_storage Lib) (he_read env) (rc_store s) ?eid of Inr x \<Rightarrow> wj_nextVersion job \<le> fm_Version (fd_Metadata x) | Inl _ \<Rightarrow> False"
  obtain st e where w: "so_write (pl_storage Lib) (he_write env) ?eid (wj_blob job) (wj_metadata job) (rc_store s) = (st, e)" by fastforce
  define s2 where "s2 = (if ?stale then move n Leaving ?s1 else move n Leaving (if e = None then (move n Writing ?s1)\<lparr>rc_store := st\<rparr>
      else (move n Writing ?s1)\<lparr>rc_store := st, rc_server := count_async_failure (rc_server ?s1)\<rparr>))"
  have to2: "?R ?s1 s2"
  proof (cases ?stale)
    case True
    with n show ?thesis by (intro run_alone [OF _ race_run.run_start]) (simp add: s2_def run_writer_def move_def relock_def)
  next
    case False
    then have "run_writer Lib env n ?s1 = Some (move n Writing ?s1)" using n by (simp add: run_writer_def move_def relock_def)
    moreover have "run_writer Lib env n (move n Writing ?s1) = Some s2"
      using n w False by (simp add: s2_def run_writer_def move_def relock_def split: option.splits)
    ultimately show ?thesis by (rule run_alone [OF _ run_alone [OF _ race_run.run_start]])
  qed
  have at: "rc_writers s2 = (rc_writers s)[n := (job, Leaving)]" "rc_locks s2 = (rc_locks s)(n := Holding ?eid l)" "ps_lockMgr (rc_server s2) = k"
    using n by (simp_all add: s2_def move_def relock_def count_async_failure_def)
  then have "rc_locks s2 n = Holding ?eid l" by simp
  from race_run_trans [OF leave [OF at(1) this at(3)] race_run_trans [OF to2 to1]] have "?R s (?leave s2)" .
  moreover have "async_write Lib env job (rc_server s) (rc_store s) = (rc_server (?leave s2), rc_store (?leave s2))"
    using free rel w L
    by (simp add: s2_def async_write_def Let_def end_writer_def relock_def move_def count_async_failure_def split: option.splits)
  ultimately show ?thesis using last [OF at(1,2)] by blast
qed

section \<open>Properties\<close>

text \<open>
  C10. WaitForPendingWrites makes an accepted PUT durable on S3, where the worker has the in-memory locks: take any run of the server from its start, with requests,
  interleaved goroutines and any failures, then an accepted PUT, and then any run without failing storage calls in which the entity is neither
  written nor deleted by another request.  If the PUT has the greatest version among the promised writes of the entity that are not made yet, and the bucket has
  no version as new, then as soon as the counter of the goroutines is zero every worker with the key that does not have the entity cached reads
  the payload and the version of the PUT, however the goroutines overlapped.  The counter becomes zero: until
  then some goroutine can run, and every action of a goroutine leaves fewer actions to do.
\<close>

theorem waited_put_durable:
  assumes "lru_spec L items cap lok" and "object_store C (s3_bucket s3) none view ready" and "Lib = s3_libs L C J s3 (handler_locks memory_locks ()) V"
    and "ready (fst st)" and "ps_lockMgr srv = NewMemoryLockManager" and "ps_pendingWrites srv = []"
    and "race_run Lib (\<lambda>_. True) (race_start srv st) s0"
    and "serve Lib env req s0 = (s1, Inr resp)" and "GetOperation req = ''PUT''" and "\<forall>n. he_nonce env = Some n \<longrightarrow> length n = NonceSize"
    and "\<forall>j \<in> set (running s1). wj_entityID j = request_entity req \<longrightarrow> codable J (wj_metadata j)"
    and "newest (fst (last (rc_writers s1))) (running s1)"
    and "behind (fst (last (rc_writers s1))) (s3_ReadFile C J s3 none (fst (rc_store s1)) (request_entity req))"
    and "race_run Lib (spares (request_entity req) none) s1 s2"
    and "able Lib (pw_encryptionKey (ps_worker (rc_server s0))) LockShared (request_entity req) srvB"
    and "cache_inv items cap lok (ps_cache srvB)" and "cache_lookup items (ps_cache srvB) (request_entity req) = None" and "he_read envB = none"
  shows "(WaitForPendingWrites s2 \<longrightarrow>
      snd (processGET Lib envB (request_entity req) srvB (rc_store s2)) = (rc_store s2, Inr (response ''OK'' (GetPayload req) (rs_Version resp)))) \<and>
    (\<not> WaitForPendingWrites s2 \<longrightarrow> (\<exists>n. \<forall>envW. run_writer Lib envW n s2 \<noteq> None)) \<and>
    (\<forall>n envW s3. run_writer Lib envW n s2 = Some s3 \<longrightarrow> work_left s3 < work_left s2)"
proof -
  let ?job = "fst (last (rc_writers s1))" and ?eid = "request_entity req"
  note sys = s3_race_system [OF assms(1,2), of J V, folded assms(3)]
  note system = race_system.axioms(1) [OF sys] and locks = race_system.lib_locks [OF sys]
  have start: "race_inv (race_start srv st)" by (rule race_start_inv [OF assms(5,6)])
  then have s0: "race_inv s0 \<and> ready (fst (rc_store s0))"
    using race_system.race_run_store [OF sys assms(7)] assms(4) by (simp add: race_start_def)
  have "race_run Lib (\<lambda>_. True) (race_start srv st) s1"
    by (rule race_run.run_step [OF assms(7) race_step.served [OF assms(8)]]) (simp_all add: lock_failure_def)
  from race_system.race_run_store [OF sys this start] have s1: "race_inv s1 \<and> ready (fst (rc_store s1))"
    using assms(4) by (simp add: race_start_def)
  have read: "so_read (pl_storage Lib) f x eid = s3_ReadFile C J s3 f (fst x) eid" for f x eid by (simp add: assms(3))
  have new: "race_system.newest_inv Lib none (codable J) ?job s1" and eid: "wj_entityID ?job = ?eid"
    and pr: "\<exists>ver. promises aes_gcm (pw_encryptionKey (ps_worker (rc_server s0))) ?eid (GetPayload req) ver ?job \<and> rs_Version resp = Itoa ver"
    using race_system.accepted_put_newest [OF sys _ assms(8-10) refl assms(11,12)] s0 assms(13) by (auto simp: read assms(3))
  have s2: "race_inv s2" "race_system.newest_inv Lib none (codable J) ?job s2"
    using race_system.race_run_store [OF sys assms(14)] race_system.race_run_newest [OF sys, of ?job s1 s2] assms(14) s1 new by (auto simp: eid)
  have "snd (processGET Lib envB ?eid srvB (rc_store s2)) = (rc_store s2, Inr (response ''OK'' (GetPayload req) (rs_Version resp)))"
    if "WaitForPendingWrites s2"
  proof -
    have "so_read (pl_storage Lib) (he_read envB) (rc_store s2) ?eid = Inr (job_data ?job)"
      using race_system.waited_stored [OF sys s2 that] assms(18) by (simp add: eid)
    with pr show ?thesis
      using proc_system.GET_from_disk [OF system assms(15-17), of envB "rc_store s2" ?job] by (auto simp: job_data_def assms(3))
  qed
  moreover have "\<exists>n. \<forall>envW. run_writer Lib envW n s2 \<noteq> None" if "\<not> WaitForPendingWrites s2"
    by (rule writers_progress [OF s2(1) that])
  ultimately show ?thesis using run_writer_inv [OF s2(1)] by blast
qed

text \<open>
  With the file locks the promised write of an accepted PUT can be lost without any failure: the manager refuses a lock that
  the same process holds instead of waiting for it, so a goroutine that starts while another one of the entity is
  writing gives up.  Here the goroutine of the older write has the lock; the goroutine of the newer one runs and ends, which leaves the
  files as they are and counts a failure; and after the older write is made the disk has the older version.
\<close>

theorem overlapping_write_is_dropped:
  assumes "Lib = local_libs L J s (handler_locks (file_locks order) no_faults) V" and "\<forall>D. finite D \<longrightarrow> set (order D) = D"
    and "file_rel s {} (ps_lockMgr srv)" and "storage_inv s fs" and "isValidEntityID (wj_entityID old)" and "wj_entityID new = wj_entityID old"
    and "wj_nextVersion old < wj_nextVersion new" and "codable J (wj_metadata old)"
    and "lo_acquire (pl_locks Lib) (ps_lockMgr srv) (wj_entityID old) LockExclusive = (k, None)"
    and "async_write Lib env new (srv\<lparr>ps_lockMgr := k\<rparr>) fs = (srv', fs')"
    and "WriteFile J s no_faults (wj_entityID old) (wj_blob old) (wj_metadata old) fs' = (fs2, e)"
  shows "fs' = fs \<and> ps_lockMgr srv' = k \<and> pm_AsyncWriteFailures (ps_metrics srv') = pm_AsyncWriteFailures (ps_metrics srv) + 1 \<and>
    e = None \<and> fs_ReadFile J s no_faults fs2 (wj_entityID new) = Inr (job_data old)"
proof -
  let ?B = "file_locks order" and ?eid = "wj_entityID old"
  have k: "lb_AcquireLock ?B no_faults ?eid LockExclusive (ps_lockMgr srv) = (k, LockGranted)" and rel: "file_rel s {?eid} k"
  proof -
    obtain k' where "lb_AcquireLock ?B no_faults ?eid LockExclusive (ps_lockMgr srv) = (k', LockGranted)" "file_rel s {?eid} k'"
      by (rule lock_backend.section_idle [OF file_lock_backend [OF assms(2)] assms(3,5)])
    with assms(9) show "lb_AcquireLock ?B no_faults ?eid LockExclusive (ps_lockMgr srv) = (k, LockGranted)" "file_rel s {?eid} k"
      by (simp_all add: assms(1) handler_locks_def)
  qed
  obtain w lm where wl: "k = (w, lm)" by (cases k)
  have "dom (lm_locks lm) = {?eid}" and held: "\<forall>eid fl. lm_locks lm eid = Some fl \<longrightarrow> fl_locked fl"
    using rel by (simp_all add: wl file_rel_def)
  then obtain fl where "lm_locks lm ?eid = Some fl" by blast
  with held have "already_locked lm ?eid" by (simp add: already_locked_def IsLocked_def)
  then have "lo_acquire (pl_locks Lib) k ?eid LockExclusive = (k, Some ErrAlreadyLocked)"
    by (simp add: assms(1) handler_locks_def file_locks_def wl AcquireLock_def)
  then have fs': "fs' = fs" and rest: "ps_lockMgr srv' = k" "pm_AsyncWriteFailures (ps_metrics srv') = pm_AsyncWriteFailures (ps_metrics srv) + 1"
    using assms(6,10) by (auto simp: async_write_def count_async_failure_def Let_def)
  have "e = None" using local_fs.write_succeeds [OF assms(4,5,8), of "wj_blob old"] assms(11) by (simp add: fs')
  moreover from this have "fs_ReadFile J s no_faults fs2 ?eid = Inr (job_data old)"
    using local_fs.write_read [OF assms(4,8), of no_faults ?eid "wj_blob old" fs2] assms(11) by (simp add: fs' job_data_def)
  ultimately show ?thesis using fs' rest assms(6) by simp
qed

section \<open>Witness\<close>

abbreviation s3_race_libs :: "meta_codec \<Rightarrow> (list_lru, buckets \<times> file_sys, s3_call \<Rightarrow> bool option, MemoryLockManager, nat) proc_libs" where
  "s3_race_libs J \<equiv> s3_libs list_lru_ops map_client J sample_s3 mem_ops sample_lib"

lemma new_manager_grants: "\<exists>k. lo_acquire mem_ops NewMemoryLockManager ''chat_1'' t = (k, None)"
  by (simp add: handler_locks_def memory_locks_def mem_AcquireLock_def mem_get_def NewMemoryLockManager_def mutex_lock_def free_lock_def)

lemma s3_race_put:
  assumes "p \<noteq> []"
  shows "\<exists>srv job. proc_Process (s3_race_libs J) s3_sample_env (sample_request ''PUT'' p) (idle_server NewMemoryLockManager) (sample_buckets, fs) =
      (srv, (sample_buckets, fs), Inr (response ''OK'' [] ''1'')) \<and> ps_pendingWrites srv = [job] \<and>
      wj_metadata job = put_metadata s3_sample_env (sample_request ''PUT'' p) (ps_worker sample_server) (sample_enc p) 1"
proof -
  let ?srv = "idle_server NewMemoryLockManager" and ?Lib = "s3_race_libs J" and ?st = "(sample_buckets, fs)" and ?req = "sample_request ''PUT'' p"
  have one: "Itoa 1 = ''1''" "fst (Atoi []) = 0" by code_simp+
  have "GetVersion list_lru_ops (he_first s3_sample_env) sample_cache ''chat_1'' = []"
    using llru.GetVersion_value [OF sample_cache_empty(1)] sample_cache_empty(2) by simp
  then have ver: "next_version ?Lib s3_sample_env ?srv ?st ''chat_1'' = 1"
    using one sample_s3_reads(1) [of J _ "''chat_1''"] by (simp add: next_version_def split: sum.splits)
  obtain k where k: "lo_acquire mem_ops NewMemoryLockManager ''chat_1'' LockExclusive = (k, None)" using new_manager_grants by blast
  have "\<exists>srv1 job. processPUT ?Lib s3_sample_env ?req ''chat_1'' ?srv ?st = (srv1, ?st, Inr (response ''OK'' [] ''1'')) \<and> ps_pendingWrites srv1 = [job] \<and>
      wj_metadata job = put_metadata s3_sample_env ?req (ps_worker sample_server) (sample_enc p) 1"
    using assms k sample_key_size(2) sample_enc_ok [of p] one ver
    by (simp add: processPUT_def put_validate_def Let_def next_version_lock)
  then obtain srv1 job where p: "processPUT ?Lib s3_sample_env ?req ''chat_1'' ?srv ?st = (srv1, ?st, Inr (response ''OK'' [] ''1''))" "ps_pendingWrites srv1 = [job]"
    "wj_metadata job = put_metadata s3_sample_env ?req (ps_worker sample_server) (sample_enc p) 1" by blast
  obtain srv' st' r where c: "count_request list_lru_ops ''PUT'' (srv1, ?st, Inr (response ''OK'' [] ''1'')) = (srv', st', r)" by (metis prod_cases3)
  note fr = count_request_frame [OF c]
  have "proc_Process ?Lib s3_sample_env ?req ?srv ?st = (srv', ?st, Inr (response ''OK'' [] ''1''))"
    using Process_dispatch(2) [OF sample_addressable, of "''PUT''" p ?Lib s3_sample_env ?srv ?st] p(1) c fr(5,6) by simp
  with p fr(3) show ?thesis by auto
qed

theorem waited_put_durable_witness:
  "\<exists>J s1 s2. serve (s3_race_libs J) s3_sample_env (sample_request ''PUT'' ''{}'') (race_start (idle_server NewMemoryLockManager) (sample_buckets, [])) =
       (s1, Inr (response ''OK'' [] ''1'')) \<and> \<not> WaitForPendingWrites s1 \<and>
     race_run (s3_race_libs J) (spares ''chat_1'' (\<lambda>_. None)) s1 s2 \<and> WaitForPendingWrites s2 \<and>
     snd (processGET (s3_race_libs J) s3_sample_env ''chat_1'' (idle_server NewMemoryLockManager) (rc_store s2)) =
       (rc_store s2, Inr (response ''OK'' ''{}'' ''1''))"
proof -
  let ?J = "const_codec (put_metadata s3_sample_env (sample_request ''PUT'' ''{}'') (ps_worker sample_server) (sample_enc ''{}'') 1)"
  let ?srv = "idle_server NewMemoryLockManager" and ?Lib = "s3_race_libs ?J" and ?st = "(sample_buckets, [] :: file_sys)" and ?req = "sample_request ''PUT'' ''{}''"
  obtain srv job where put: "proc_Process ?Lib s3_sample_env ?req ?srv ?st = (srv, ?st, Inr (response ''OK'' [] ''1''))" "ps_pendingWrites srv = [job]"
    and job: "wj_metadata job = put_metadata s3_sample_env ?req (ps_worker sample_server) (sample_enc ''{}'') 1"
    using s3_race_put [of "''{}''" ?J "[]"] by blast
  define s0 where "s0 = race_start ?srv ?st"
  obtain s1 where s1: "serve ?Lib s3_sample_env ?req s0 = (s1, Inr (response ''OK'' [] ''1''))" "rc_writers s1 = [(job, Starting)]" "rc_store s1 = ?st" "rc_pending s1 = 1"
    using put by (simp add: serve_def s0_def race_start_def)
  have inv0: "race_inv s0" unfolding s0_def by (rule race_start_inv) simp_all
  have inv: "race_inv s1" by (rule serve_inv [OF _ inv0 s1(1)]) simp
  obtain s2 where s2: "race_run ?Lib (spares ''chat_1'' (\<lambda>_. None)) s1 s2" "WaitForPendingWrites s2"
    using s3_races.waiting_ends [OF inv, of ?J sample_s3 sample_lib "''chat_1''"] by blast
  have run: "running s1 = [job]" by (simp add: running_def s1(2))
  have eid: "request_entity ?req = ''chat_1''" by (simp add: entity_id_def)
  have able: "able ?Lib sample_key LockShared ''chat_1'' ?srv"
    using new_manager_grants [of LockShared] sample_key_size(2) by (auto simp: able_def)
  have reads: "s3_ReadFile map_client ?J sample_s3 (\<lambda>_. None) sample_buckets ''chat_1'' \<noteq> Inr x" for x by (rule sample_s3_reads(1))
  have "snd (processGET ?Lib s3_sample_env ''chat_1'' ?srv (rc_store s2)) = (rc_store s2, Inr (response ''OK'' ''{}'' ''1''))"
    using waited_put_durable [OF llru.lru_spec_axioms map_store.object_store_axioms refl, where J = ?J and V = sample_lib and ?s3.0 = sample_s3 and srv = ?srv and st = ?st
        and ?s0.0 = s0 and env = s3_sample_env and req = ?req and ?s1.0 = s1 and resp = "response ''OK'' [] ''1''" and ?s2.0 = s2 and srvB = ?srv and envB = s3_sample_env]
      s1 s2 run eid able sample_cache_empty const_codable reads job race_run.run_start [of ?Lib "\<lambda>_. True" s0]
    by (simp add: s0_def race_start_def newest_def behind_def NonceSize_def s3_sample_env_def sample_s3_def sample_buckets_def response_def)
  with s1 s2 show ?thesis unfolding s0_def by (intro exI [of _ ?J] exI [of _ s1] exI [of _ s2]) (simp add: WaitForPendingWrites_def)
qed

end
