(* ===== verification/Windows_Locks.thy ===== *)
theory Windows_Locks
  imports Lock_Properties
begin

text \<open>
  The file locks as pkg/fs/lock_windows.go implements them: \<open>platformLock\<close> and \<open>platformUnlock\<close> on \<open>LockFileEx\<close> and \<open>UnlockFileEx\<close>.
  The methods of lock.go are built on either file; here they take the calls of the system as an argument, a \<open>platform\<close>.
  What Windows does with names is left open: which file a name opens is a parameter, so that names that differ in case may be the same
  file.  The documentation of \<open>LockFileEx\<close> says that the locks of a handle that is closed, or of a process that ends, without unlocking are
  released by the system, but not when; so closing a handle leaves its locks in the table, and the
  system removes them in a step of its own.
\<close>

unbundle bit_operations_syntax

section \<open>The calls of the system\<close>

definition lockfileFailImmediately :: "32 word" where
  "lockfileFailImmediately = 0x00000001"

definition lockfileExclusiveLock :: "32 word" where
  "lockfileExclusiveLock = 0x00000002"

text \<open>
  A lock conflicts with every lock on its range, of the same handle too, unless both are shared; locks of one handle are
  counted.  The range is the same in all calls, the whole file, and is left out.
\<close>

definition LockFileEx :: "faults \<Rightarrow> nat \<Rightarrow> path \<Rightarrow> 32 word \<Rightarrow> lock_sys \<Rightarrow> lock_sys outcome" where
  "LockFileEx F fd q flags w =
     (let t = (if flags AND lockfileExclusiveLock \<noteq> 0 then LockExclusive else LockShared) in
      if F (FlockCall q) \<noteq> None then Fails (ErrLockFailed IOFault)
      else if list_ex (conflicts q t) (ls_table w)
      then (if flags AND lockfileFailImmediately \<noteq> 0 then Fails (ErrLockFailed IOFault) else Blocks)
      else Done (w\<lparr>ls_table := \<lparr>hl_handle = fd, hl_path = q, hl_type = t\<rparr> # ls_table w\<rparr>))"

text \<open>One lock of the handle is released; it is an error when there is none.\<close>

fun remove_lock :: "nat \<Rightarrow> held_lock list \<Rightarrow> held_lock list option" where
  "remove_lock fd [] = None"
| "remove_lock fd (h # hs) = (if hl_handle h = fd then Some hs else map_option ((#) h) (remove_lock fd hs))"

definition UnlockFileEx :: "faults \<Rightarrow> nat \<Rightarrow> path \<Rightarrow> lock_sys \<Rightarrow> lock_sys \<times> lock_error option" where
  "UnlockFileEx F fd q w =
     (if F (FlockCall q) \<noteq> None then (w, Some ErrUnlockFailed)
      else case remove_lock fd (ls_table w) of
             None \<Rightarrow> (w, Some ErrUnlockFailed)
           | Some hs \<Rightarrow> (w\<lparr>ls_table := hs\<rparr>, None))"

section \<open>The two platforms\<close>

definition win_flags :: "LockType \<Rightarrow> bool \<Rightarrow> 32 word" where
  "win_flags lockType tryOnly =
     (let flags = 0;
          flags = (if tryOnly then flags OR lockfileFailImmediately else flags)
      in if lockType = LockExclusive then flags OR lockfileExclusiveLock else flags)"

definition win_platformLock :: "faults \<Rightarrow> FileLock \<Rightarrow> LockType \<Rightarrow> bool \<Rightarrow> lock_sys \<Rightarrow> lock_sys outcome" where
  "win_platformLock F fl lockType tryOnly w =
     (if fl_closed fl then Fails (ErrLockFailed IOFault)
      else LockFileEx F (fl_file fl) (fl_path fl) (win_flags lockType tryOnly) w)"

definition win_platformUnlock :: "faults \<Rightarrow> FileLock \<Rightarrow> lock_sys \<Rightarrow> lock_sys \<times> lock_error option" where
  "win_platformUnlock F fl w =
     (if fl_closed fl then (w, Some ErrUnlockFailed) else UnlockFileEx F (fl_file fl) (fl_path fl) w)"

text \<open>
  \<open>pf_open\<close> is \<open>os.OpenFile\<close> with O_CREATE and O_RDWR, \<open>pf_file\<close> the file that a name opens; \<open>pf_lingers\<close> says that closing a handle may leave
  its locks for a while.
\<close>

record platform =
  pf_open :: "faults \<Rightarrow> string \<Rightarrow> file_sys \<Rightarrow> file_sys \<times> os_error option"
  pf_file :: "string \<Rightarrow> path"
  pf_lock :: "faults \<Rightarrow> FileLock \<Rightarrow> LockType \<Rightarrow> bool \<Rightarrow> lock_sys \<Rightarrow> lock_sys outcome"
  pf_unlock :: "faults \<Rightarrow> FileLock \<Rightarrow> lock_sys \<Rightarrow> lock_sys \<times> lock_error option"
  pf_lingers :: bool

definition unix :: platform where
  "unix = \<lparr>pf_open = (\<lambda>F. os_OpenFile F False), pf_file = resolve, pf_lock = platformLock, pf_unlock = platformUnlock, pf_lingers = False\<rparr>"

definition windows :: "(faults \<Rightarrow> string \<Rightarrow> file_sys \<Rightarrow> file_sys \<times> os_error option) \<Rightarrow> (string \<Rightarrow> path) \<Rightarrow> platform" where
  "windows opens file = \<lparr>pf_open = opens, pf_file = file, pf_lock = win_platformLock, pf_unlock = win_platformUnlock, pf_lingers = True\<rparr>"

text \<open>The methods of lock.go on a platform; \<open>tryOnly\<close> distinguishes \<open>TryLock\<close> from \<open>Lock\<close>.\<close>

definition NewFileLock_on :: "platform \<Rightarrow> faults \<Rightarrow> string \<Rightarrow> lock_sys \<Rightarrow> lock_sys \<times> (lock_error + FileLock)" where
  "NewFileLock_on P F filePath w =
     (case pf_open P F filePath (ls_tree w) of
        (fs, Some e) \<Rightarrow> (w\<lparr>ls_tree := fs\<rparr>, Inl (LockOpenFailed e))
      | (fs, None) \<Rightarrow>
          (w\<lparr>ls_tree := fs, ls_next := Suc (ls_next w)\<rparr>,
           Inr \<lparr>fl_file = ls_next w, fl_path = pf_file P filePath, fl_lockType = LockShared, fl_locked = False, fl_closed = False\<rparr>))"

definition Lock_on :: "platform \<Rightarrow> bool \<Rightarrow> faults \<Rightarrow> FileLock \<Rightarrow> LockType \<Rightarrow> lock_sys \<Rightarrow> (lock_sys \<times> FileLock) outcome" where
  "Lock_on P tryOnly F fl lockType w =
     (if fl_locked fl then Fails ErrAlreadyLocked
      else case pf_lock P F fl lockType tryOnly w of
             Fails e \<Rightarrow> Fails e
           | Blocks \<Rightarrow> Blocks
           | Done w' \<Rightarrow> Done (w', fl\<lparr>fl_locked := True, fl_lockType := lockType\<rparr>))"

definition Unlock_on :: "platform \<Rightarrow> faults \<Rightarrow> FileLock \<Rightarrow> lock_sys \<Rightarrow> lock_sys \<times> FileLock \<times> lock_error option" where
  "Unlock_on P F fl w =
     (if \<not> fl_locked fl then (w, fl, None)
      else case pf_unlock P F fl w of
             (w', Some e) \<Rightarrow> (w', fl, Some e)
           | (w', None) \<Rightarrow> (w', fl\<lparr>fl_locked := False\<rparr>, None))"

definition close_file_on :: "platform \<Rightarrow> faults \<Rightarrow> FileLock \<Rightarrow> lock_sys \<Rightarrow> lock_sys \<times> FileLock \<times> lock_error option" where
  "close_file_on P F fl w =
     (if pf_lingers P then w else drop_handle (fl_file fl) w, fl\<lparr>fl_closed := True\<rparr>,
      if fl_closed fl \<or> F (CloseCall (fl_path fl)) \<noteq> None then Some LockCloseFailed else None)"

definition Close_on :: "platform \<Rightarrow> faults \<Rightarrow> FileLock \<Rightarrow> lock_sys \<Rightarrow> lock_sys \<times> FileLock \<times> lock_error option" where
  "Close_on P F fl w =
     (if fl_locked fl then
        (case Unlock_on P F fl w of
           (w1, fl1, Some e) \<Rightarrow> (case close_file_on P F fl1 w1 of (w2, fl2, _) \<Rightarrow> (w2, fl2, Some e))
         | (w1, fl1, None) \<Rightarrow> close_file_on P F fl1 w1)
      else close_file_on P F fl w)"

definition finish_on ::
    "platform \<Rightarrow> faults \<Rightarrow> LockManager \<Rightarrow> string \<Rightarrow> FileLock \<Rightarrow> (lock_sys \<times> FileLock) outcome \<Rightarrow> lock_sys \<Rightarrow> lock_sys \<times> acquired" where
  "finish_on P F lm eid lock result w =
     (case result of
        Done (w', lock') \<Rightarrow> (w', Granted (lm\<lparr>lm_locks := (lm_locks lm)(eid \<mapsto> lock')\<rparr>))
      | Fails e \<Rightarrow> (fst (Close_on P F lock w), Refused e)
      | Blocks \<Rightarrow> (w, Waiting lock))"

definition Acquire_on :: "platform \<Rightarrow> bool \<Rightarrow> faults \<Rightarrow> LockManager \<Rightarrow> string \<Rightarrow> LockType \<Rightarrow> lock_sys \<Rightarrow> lock_sys \<times> acquired" where
  "Acquire_on P tryOnly F lm eid lockType w =
     (let lockPath = lock_path (lm_storage lm) eid in
      if already_locked lm eid then (w, Refused ErrAlreadyLocked)
      else case NewFileLock_on P F lockPath w of
             (w1, Inl e) \<Rightarrow> (w1, Refused e)
           | (w1, Inr lock) \<Rightarrow> finish_on P F lm eid lock (Lock_on P tryOnly F lock lockType w1) w1)"

definition Release_on :: "platform \<Rightarrow> faults \<Rightarrow> LockManager \<Rightarrow> string \<Rightarrow> lock_sys \<Rightarrow> lock_sys \<times> LockManager \<times> lock_error option" where
  "Release_on P F lm eid w =
     (case lm_locks lm eid of
        None \<Rightarrow> (w, lm, None)
      | Some lock \<Rightarrow>
          (case Close_on P F lock w of
             (w', lock', Some e) \<Rightarrow> (w', lm\<lparr>lm_locks := (lm_locks lm)(eid \<mapsto> lock')\<rparr>, Some e)
           | (w', lock', None) \<Rightarrow> (w', lm\<lparr>lm_locks := (lm_locks lm)(eid := None)\<rparr>, None)))"

fun release_each_on ::
    "platform \<Rightarrow> faults \<Rightarrow> string list \<Rightarrow> LockManager \<Rightarrow> lock_error option \<Rightarrow> lock_sys \<Rightarrow> lock_sys \<times> LockManager \<times> lock_error option" where
  "release_each_on P F [] lm lastErr w = (w, lm, lastErr)"
| "release_each_on P F (eid # ids) lm lastErr w =
     (case lm_locks lm eid of
        None \<Rightarrow> release_each_on P F ids lm lastErr w
      | Some lock \<Rightarrow>
          (case Close_on P F lock w of
             (w', lock', e) \<Rightarrow>
               release_each_on P F ids (lm\<lparr>lm_locks := (lm_locks lm)(eid := None)\<rparr>)
                 (if e \<noteq> None then e else lastErr) w'))"

inductive lock_step_on :: "platform \<Rightarrow> faults \<Rightarrow> lock_event \<Rightarrow> lock_state \<Rightarrow> lock_state \<Rightarrow> bool" for P F where
  on_acquire: "lp_wait (ps p) = None \<Longrightarrow> Acquire_on P False F (lp_mgr (ps p)) eid t w = (w', r) \<Longrightarrow>
    lock_step_on P F (AcquireEv p eid t) (w, ps) (w', ps(p := after_acquire (ps p) eid t r))"
| on_try: "lp_wait (ps p) = None \<Longrightarrow> Acquire_on P True F (lp_mgr (ps p)) eid t w = (w', r) \<Longrightarrow>
    lock_step_on P F (TryEv p eid t) (w, ps) (w', ps(p := after_acquire (ps p) eid t r))"
| on_wake: "lp_wait (ps p) = Some (eid, t, fl) \<Longrightarrow>
    finish_on P F (lp_mgr (ps p)) eid fl (Lock_on P False F fl t w) w = (w', r) \<Longrightarrow> \<forall>fl'. r \<noteq> Waiting fl' \<Longrightarrow>
    lock_step_on P F (WakeEv p) (w, ps) (w', ps(p := after_acquire (ps p) eid t r))"
| on_release: "lp_wait (ps p) = None \<Longrightarrow> Release_on P F (lp_mgr (ps p)) eid w = (w', lm', e) \<Longrightarrow>
    lock_step_on P F (ReleaseEv p eid) (w, ps) (w', ps(p := (ps p)\<lparr>lp_mgr := lm'\<rparr>))"
| on_release_all: "lp_wait (ps p) = None \<Longrightarrow> distinct ids \<Longrightarrow> set ids = dom (lm_locks (lp_mgr (ps p))) \<Longrightarrow>
    release_each_on P F ids (lp_mgr (ps p)) None w = (w', lm', e) \<Longrightarrow>
    lock_step_on P F (ReleaseAllEv p ids) (w, ps) (w', ps(p := (ps p)\<lparr>lp_mgr := lm'\<rparr>))"

text \<open>Runs of any number of processes; where locks linger, the system removes those of a handle that no process has open, at any time.\<close>

inductive lock_reach_on :: "platform \<Rightarrow> lock_state \<Rightarrow> lock_state \<Rightarrow> bool" for P s where
  on_start: "lock_reach_on P s s"
| on_step: "lock_reach_on P s s1 \<Longrightarrow> lock_step_on P F ev s1 s2 \<Longrightarrow> lock_reach_on P s s2"
| on_late: "lock_reach_on P s (w, ps) \<Longrightarrow> pf_lingers P \<Longrightarrow> \<forall>p a fl. slot_lock (ps p) a = Some fl \<and> fl_file fl = fd \<longrightarrow> fl_closed fl \<Longrightarrow>
    lock_reach_on P s (drop_handle fd w, ps)"

section \<open>On Unix the methods are those of the other theories\<close>

lemma unix_simps [simp]:
  "pf_open unix F = os_OpenFile F False" "pf_file unix = resolve" "pf_lock unix = platformLock" "pf_unlock unix = platformUnlock" "\<not> pf_lingers unix"
  by (simp_all add: unix_def)

lemma unix_methods:
  "NewFileLock_on unix = NewFileLock" "Lock_on unix False = lock_Lock" "Lock_on unix True = TryLock" "Close_on unix = lock_Close"
  by (simp_all add: fun_eq_iff NewFileLock_on_def NewFileLock_def Lock_on_def lock_Lock_def TryLock_def Close_on_def Unlock_on_def lock_Close_def Unlock_def
      close_file_on_def close_file_def split: prod.split option.split)

lemma unix_managers:
  "finish_on unix = finish_acquire" "Acquire_on unix False = AcquireLock" "Acquire_on unix True = TryAcquireLock" "Release_on unix = ReleaseLock"
proof -
  show f: "finish_on unix = finish_acquire" by (simp add: fun_eq_iff finish_on_def finish_acquire_def unix_methods split: outcome.split)
  show "Acquire_on unix False = AcquireLock" "Acquire_on unix True = TryAcquireLock" "Release_on unix = ReleaseLock"
    by (intro ext; unfold Acquire_on_def AcquireLock_def TryAcquireLock_def Release_on_def ReleaseLock_def unix_methods f; rule refl)+
qed

lemma unix_release_each: "release_each_on unix F ids lm e w = release_each F ids lm e w"
  by (induction ids arbitrary: lm e w) (simp_all add: unix_methods split: option.split prod.split)

lemma unix_step: "lock_step_on unix F ev s s' \<longleftrightarrow> lock_step F ev s s'"
proof
  assume "lock_step_on unix F ev s s'"
  then show "lock_step F ev s s'" by cases (auto simp: unix_managers unix_methods unix_release_each ReleaseAll_def intro: lock_step.intros)
next
  assume "lock_step F ev s s'"
  then show "lock_step_on unix F ev s s'" by cases (auto simp: unix_managers unix_methods unix_release_each ReleaseAll_def intro: lock_step_on.intros)
qed

lemma unix_reach: "lock_reach_on unix s s' \<Longrightarrow> lock_reachable s s'"
proof (induction rule: lock_reach_on.induct)
  case (on_late w ps fd)
  then show ?case by simp
qed (auto simp: unix_step intro: lock_reach.intros)

section \<open>The calls on Windows\<close>

lemma win_flags_type:
  "win_flags t tryOnly AND lockfileExclusiveLock \<noteq> 0 \<longleftrightarrow> t = LockExclusive" "win_flags t tryOnly AND lockfileFailImmediately \<noteq> 0 \<longleftrightarrow> tryOnly"
  by (cases t; cases tryOnly; simp add: win_flags_def lockfileExclusiveLock_def lockfileFailImmediately_def)+

lemma windows_simps [simp]:
  "pf_open (windows opens file) = opens" "pf_file (windows opens file) = file" "pf_lock (windows opens file) = win_platformLock"
  "pf_unlock (windows opens file) = win_platformUnlock" "pf_lingers (windows opens file)"
  by (simp_all add: windows_def)

lemma win_Lock_ok:
  assumes ok: "table_ok w" and fd: "fl_file fl < ls_next w" "\<forall>h \<in> set (ls_table w). hl_handle h \<noteq> fl_file fl"
    and lk: "Lock_on (windows opens file) tryOnly F fl t w = Done (w', fl')"
  shows "table_ok w' \<and> ls_next w' = ls_next w \<and> fl' = fl\<lparr>fl_locked := True, fl_lockType := t\<rparr> \<and>
    set (ls_table w') = insert (fl_entry (fl\<lparr>fl_lockType := t\<rparr>)) (set (ls_table w))"
proof -
  have t: "(if t = LockExclusive then LockExclusive else LockShared) = t" by (cases t) simp_all
  let ?x = "fl_entry (fl\<lparr>fl_lockType := t\<rparr>)"
  from lk have w': "w' = w\<lparr>ls_table := ?x # ls_table w\<rparr>" and free: "\<forall>h \<in> set (ls_table w). \<not> conflicts (fl_path fl) t h"
    and fl': "fl' = fl\<lparr>fl_locked := True, fl_lockType := t\<rparr>"
    by (auto simp: Lock_on_def win_platformLock_def LockFileEx_def win_flags_type t Let_def list_ex_iff fl_entry_def split: if_splits outcome.splits)
  have "consistent (insert ?x (set (ls_table w)))"
    using ok free fd(2) by (intro consistent_insert) (auto simp: table_ok_def fl_entry_def)
  with ok fd(1) w' fl' show ?thesis by (simp add: table_ok_def fl_entry_def)
qed

lemma remove_lock_set:
  "remove_lock fd hs = Some hs' \<Longrightarrow> set hs' \<subseteq> set hs \<and> (\<forall>h \<in> set hs. hl_handle h \<noteq> fd \<longrightarrow> h \<in> set hs')"
  by (induction hs arbitrary: hs') (auto split: if_splits)

lemma win_Close_ok:
  assumes ok: "table_ok w" and c: "Close_on (windows opens file) F fl w = (w', fl', e)"
  shows "table_ok w' \<and> ls_next w' = ls_next w \<and> fl_file fl' = fl_file fl \<and> fl_path fl' = fl_path fl \<and> fl_closed fl' \<and>
    set (ls_table w') \<subseteq> set (ls_table w) \<and> (\<forall>h \<in> set (ls_table w). hl_handle h \<noteq> fl_file fl \<longrightarrow> h \<in> set (ls_table w')) \<and>
    (\<not> fl_locked fl \<longrightarrow> w' = w)"
proof -
  have "w' = w \<or> fl_locked fl \<and> (\<exists>hs. remove_lock (fl_file fl) (ls_table w) = Some hs \<and> w' = w\<lparr>ls_table := hs\<rparr>)"
    and f: "fl_file fl' = fl_file fl \<and> fl_path fl' = fl_path fl \<and> fl_closed fl'"
    using c by (auto simp: Close_on_def Unlock_on_def close_file_on_def win_platformUnlock_def UnlockFileEx_def split: if_splits option.splits prod.splits)
  then consider "w' = w" | hs where "fl_locked fl" "remove_lock (fl_file fl) (ls_table w) = Some hs" "w' = w\<lparr>ls_table := hs\<rparr>" by blast
  then show ?thesis
  proof cases
    case 1
    with ok f show ?thesis by simp
  next
    case 2
    note r = remove_lock_set [OF 2(2)]
    have "table_ok w'" using ok 2(3) r consistent_subset [of "set (ls_table w)" "set hs"] by (auto simp: table_ok_def)
    with 2 r f show ?thesis by simp
  qed
qed

section \<open>The operations on Windows\<close>

lemma win_finish_eff:
  assumes ok: "table_ok w" and fd: "fl_file fl < ls_next w" "\<forall>h \<in> set (ls_table w). hl_handle h \<noteq> fl_file fl" and nl: "\<not> fl_locked fl"
    and fin: "finish_on (windows opens file) F lm eid fl (Lock_on (windows opens file) tryOnly F fl t w) w = (w', r)"
  shows "wake_eff lm eid t fl w w' r"
proof (cases "Lock_on (windows opens file) tryOnly F fl t w")
  case (Done x)
  obtain w1 fl1 where x: "x = (w1, fl1)" by (cases x)
  from win_Lock_ok [OF ok fd Done [unfolded x]] fin Done x show ?thesis by (auto simp: finish_on_def wake_eff_def)
next
  case (Fails e)
  obtain w1 fl1 e1 where c: "Close_on (windows opens file) F fl w = (w1, fl1, e1)" by (metis prod_cases3)
  from win_Close_ok [OF ok c] nl fin Fails c show ?thesis by (auto simp: finish_on_def wake_eff_def)
next
  case Blocks
  with fin ok show ?thesis by (auto simp: finish_on_def wake_eff_def)
qed

lemma win_acquire_eff:
  assumes ok: "table_ok w" and acq: "Acquire_on (windows opens file) tryOnly F lm eid t w = (w', r)"
  shows "acquire_eff (\<lambda>eid. file (lock_path (lm_storage lm) eid)) lm eid t w w' r"
proof (cases "already_locked lm eid")
  case True
  with ok acq show ?thesis by (auto simp: Acquire_on_def acquire_eff_def)
next
  case False
  obtain w1 x where n: "NewFileLock_on (windows opens file) F (lock_path (lm_storage lm) eid) w = (w1, x)" by fastforce
  show ?thesis
  proof (cases x)
    case (Inl e)
    with n have "table_ok w1" "ls_table w1 = ls_table w" "ls_next w1 = ls_next w" using ok by (auto simp: NewFileLock_on_def table_ok_def split: prod.splits option.splits)
    with acq False n Inl show ?thesis by (auto simp: Acquire_on_def acquire_eff_def)
  next
    case (Inr fl)
    with n have fl: "fl = \<lparr>fl_file = ls_next w, fl_path = file (lock_path (lm_storage lm) eid), fl_lockType = LockShared, fl_locked = False, fl_closed = False\<rparr>"
      and w1: "table_ok w1" "ls_table w1 = ls_table w" "ls_next w1 = Suc (ls_next w)"
      using ok by (auto simp: NewFileLock_on_def table_ok_def less_Suc_eq split: prod.splits option.splits)
    have fin: "finish_on (windows opens file) F lm eid fl (Lock_on (windows opens file) tryOnly F fl t w1) w1 = (w', r)"
      using acq False n Inr by (simp add: Acquire_on_def)
    have "\<forall>h \<in> set (ls_table w1). hl_handle h \<noteq> fl_file fl" using ok by (auto simp: w1 fl table_ok_def)
    from win_finish_eff [OF w1(1) _ this _ fin] have "wake_eff lm eid t fl w1 w' r" by (simp add: fl w1)
    then show ?thesis using False w1 by (cases r) (auto simp: wake_eff_def acquire_eff_def fl fl_entry_def)
  qed
qed

lemma win_freed_one:
  assumes "table_ok w" and "lm_locks lm eid = Some fl" and "Close_on (windows opens file) F fl w = (w', fl', e)"
  shows "freed_eff lm {eid} w w' (lm\<lparr>lm_locks := (lm_locks lm)(eid := None)\<rparr>)" "freed_eff lm {eid} w w' (lm\<lparr>lm_locks := (lm_locks lm)(eid \<mapsto> fl')\<rparr>)"
  using win_Close_ok [OF assms(1,3)] assms(2) by (auto simp: freed_eff_def)

lemma freed_nothing: "table_ok w \<Longrightarrow> lm_locks lm eid = None \<Longrightarrow> freed_eff lm {eid} w w lm"
  by (auto simp: freed_eff_def)

lemma win_release_eff:
  assumes "table_ok w" and "Release_on (windows opens file) F lm eid w = (w', lm', e)"
  shows "freed_eff lm {eid} w w' lm'"
  using assms win_freed_one [OF assms(1), of lm eid] freed_nothing [OF assms(1), of lm eid]
  by (auto simp: Release_on_def split: option.splits prod.splits)

lemma win_release_each_eff:
  "table_ok w \<Longrightarrow> release_each_on (windows opens file) F ids lm lastErr w = (w', lm', e) \<Longrightarrow> freed_eff lm (set ids) w w' lm'"
proof (induction ids arbitrary: lm lastErr w)
  case Nil
  then show ?case by (auto simp: freed_eff_def)
next
  case (Cons eid ids)
  show ?case
  proof (cases "lm_locks lm eid")
    case None
    with Cons.IH [of w lm] Cons.prems freed_eff_trans [OF freed_nothing [OF Cons.prems(1) None], of "set ids" w' lm'] show ?thesis by simp
  next
    case (Some fl)
    obtain w1 fl1 e1 where c: "Close_on (windows opens file) F fl w = (w1, fl1, e1)" by (metis prod_cases3)
    note one = win_freed_one(1) [OF Cons.prems(1) Some c]
    from freed_eff_trans [OF one, of "set ids" w' lm'] Cons.IH [OF freed_effD(1) [OF one]] Cons.prems(2) Some c show ?thesis by simp
  qed
qed

section \<open>Exclusion on Windows\<close>

lemma win_step_inv:
  "lock_step_on (windows opens file) F ev s s' \<Longrightarrow> locks_inv (\<lambda>eid. file (lock_path S eid)) S s \<Longrightarrow> locks_inv (\<lambda>eid. file (lock_path S eid)) S s'"
proof (induction rule: lock_step_on.induct)
  case (on_acquire ps p eid t w w' r)
  from win_acquire_eff [OF lock_inv_proc(1) [OF on_acquire(3)] on_acquire(2)] show ?case
    using lock_inv_proc(4) [OF on_acquire(3), of p] by (intro locks_inv_acquired [OF on_acquire(3,1)]) simp
next
  case (on_try ps p eid t w w' r)
  from win_acquire_eff [OF lock_inv_proc(1) [OF on_try(3)] on_try(2)] show ?case
    using lock_inv_proc(4) [OF on_try(3), of p] by (intro locks_inv_acquired [OF on_try(3,1)]) simp
next
  case (on_wake ps p eid t fl w w' r)
  note pr = lock_inv_proc(1) [OF on_wake(4)] lock_inv_proc(3,5,6) [OF on_wake(4), of p]
  have "fl_file fl < ls_next w" "\<forall>h \<in> set (ls_table w). hl_handle h \<noteq> fl_file fl" "\<not> fl_locked fl"
    using pr proc_files_slots(2) [OF on_wake(1)] on_wake(1) by (auto simp: proc_paths_def proc_held_def)
  from win_finish_eff [OF pr(1) this on_wake(2)] show ?case by (rule locks_inv_woken [OF on_wake(4,1)])
next
  case (on_release ps p eid w w' lm' e)
  from locks_inv_freed [OF on_release(3,1) win_release_eff [OF lock_inv_proc(1) [OF on_release(3)] on_release(2)]] show ?case .
next
  case (on_release_all ps p ids w w' lm' e)
  from locks_inv_freed [OF on_release_all(5,1) win_release_each_eff [OF lock_inv_proc(1) [OF on_release_all(5)] on_release_all(4)]] show ?case .
qed

text \<open>The system drops the locks of a closed handle: no granted lock loses its entry.\<close>

lemma late_inv:
  assumes inv: "locks_inv N S (w, ps)" and closed: "\<forall>p a fl. slot_lock (ps p) a = Some fl \<and> fl_file fl = fd \<longrightarrow> fl_closed fl"
  shows "locks_inv N S (drop_handle fd w, ps)"
proof -
  have "proc_held (set (ls_table (drop_handle fd w))) (ps p)" for p
  proof -
    have "fl_entry fl \<in> set (ls_table (drop_handle fd w))" if "lm_locks (lp_mgr (ps p)) eid = Some fl" "fl_locked fl" "\<not> fl_closed fl" for eid fl
    proof -
      have "fl_file fl \<noteq> fd" using closed that(1,3) by (metis slot_lock.simps(1))
      with lock_inv_proc(6) [OF inv, of p] that show ?thesis by (simp add: proc_held_def set_drop_handle fl_entry_def)
    qed
    with lock_inv_proc(6) [OF inv, of p] show ?thesis by (auto simp: proc_held_def set_drop_handle)
  qed
  with inv drop_handle_ok show ?thesis by (simp add: locks_inv_def)
qed

lemma win_reach_inv:
  "lock_reach_on (windows opens file) (start_state S fs) s \<Longrightarrow> locks_inv (\<lambda>eid. file (lock_path S eid)) S s"
  by (induction rule: lock_reach_on.induct) (auto intro: win_step_inv late_inv lock_inv_start)

text \<open>
  C20. Mutual exclusion in the Windows build: in every state that any number of processes reaches through acquiring, waiting for and releasing locks, with any failing
  calls, whatever files the names open and whenever the system releases the locks of handles that were closed without being unlocked, an exclusive lock that a manager
  has granted for an entity excludes every other granted lock of an entity with the same lock file, be it of the same id or of one that names the same file.  A granted call makes the caller
  a holder of the type it asked for.
\<close>

theorem windows_locks_exclude:
  assumes "lock_reach_on (windows opens file) (start_state S fs) (w, ps)"
  shows "(\<forall>p q a b t. holds (w, ps) p a LockExclusive \<and> holds (w, ps) q b t \<and> file (lock_path S a) = file (lock_path S b) \<longrightarrow> p = q \<and> a = b) \<and>
    (\<forall>F p eid t tryOnly w' lm'. Acquire_on (windows opens file) tryOnly F (lp_mgr (ps p)) eid t w = (w', Granted lm') \<longrightarrow>
      holds (w', ps(p := after_acquire (ps p) eid t (Granted lm'))) p eid t)"
proof -
  note inv = win_reach_inv [OF assms]
  have "p = q \<and> a = b" if "holds (w, ps) p a LockExclusive" "holds (w, ps) q b t" "file (lock_path S a) = file (lock_path S b)" for p q a b t
    using holds_exclusive_file [OF inv] that by blast
  moreover have "holds (w', ps(p := after_acquire (ps p) eid t (Granted lm'))) p eid t"
    if "Acquire_on (windows opens file) tryOnly F (lp_mgr (ps p)) eid t w = (w', Granted lm')" for F p eid t tryOnly w' lm'
    using win_acquire_eff [OF lock_inv_proc(1) [OF inv] that] by (auto simp: acquire_eff_def holds_iff)
  ultimately show ?thesis by blast
qed

text \<open>Names that differ in case are one file: process 0 holds the lock of one, and process 1 does not hold that of the other.\<close>

theorem windows_locks_exclude_witness:
  "\<exists>w ps. lock_reach_on (windows (\<lambda>F p fs. (fs, None)) (\<lambda>p. (True, []))) (start_state \<lparr>st_basePath = ''/''\<rparr> []) (w, ps) \<and>
     holds (w, ps) 0 ''a'' LockExclusive \<and> \<not> holds (w, ps) 1 ''A'' LockShared"
proof -
  let ?W = "windows (\<lambda>F p fs. (fs, None)) (\<lambda>p. (True, []))" and ?S = "\<lparr>st_basePath = ''/''\<rparr>"
  let ?lm = "NewLockManager ?S" and ?w = "\<lparr>ls_tree = [], ls_table = [], ls_next = 0\<rparr>"
  let ?ps = "\<lambda>_ :: nat. \<lparr>lp_mgr = ?lm, lp_wait = None\<rparr>"
  have start: "start_state ?S [] = (?w, ?ps)" by (simp add: start_state_def)
  obtain w lm where acq: "Acquire_on ?W True no_faults (lp_mgr (?ps 0)) ''a'' LockExclusive ?w = (w, Granted lm)"
    by (simp add: Acquire_on_def already_locked_def NewLockManager_def NewFileLock_on_def Lock_on_def win_platformLock_def LockFileEx_def finish_on_def)
  let ?ps' = "?ps(0 := after_acquire (?ps 0) ''a'' LockExclusive (Granted lm))"
  have "lock_step_on ?W no_faults (TryEv 0 ''a'' LockExclusive) (?w, ?ps) (w, ?ps')" by (rule lock_step_on.on_try [OF _ acq]) simp
  then have r: "lock_reach_on ?W (start_state ?S []) (w, ?ps')" unfolding start by (rule lock_reach_on.on_step [OF lock_reach_on.on_start])
  have "lock_reach_on ?W (start_state ?S []) (?w, ?ps)" unfolding start by (rule lock_reach_on.on_start)
  from windows_locks_exclude [OF this] acq have h: "holds (w, ?ps') 0 ''a'' LockExclusive" by blast
  have "\<not> holds (w, ?ps') 1 ''A'' LockShared" using windows_locks_exclude [OF r] h by (metis zero_neq_one)
  with r h show ?thesis by (intro exI conjI)
qed

end
