(* ===== verification/Manual_Check.thy ===== *)
theory Manual_Check
  imports Backends Lock_Backends
begin

text \<open>
  The check script tools/manual_verify_fs.go: it runs the storage and the file locks on a directory of its own, prints what it
  sees, and removes the directory.  A printed line is represented by the values in it; constant lines are left out.
  It is shown that in a fresh directory and without failing calls it sees what it is meant to see and leaves nothing behind.
\<close>

section \<open>The script\<close>

datatype check_line =
    Directories string string
  | PathExists string bool
  | ReadBack nat string int string
  | Entities "string set"
  | DirTree "string list"

definition fileExists :: "faults \<Rightarrow> string \<Rightarrow> file_sys \<Rightarrow> bool" where
  "fileExists F p fs \<longleftrightarrow> os_Stat F p fs = None"

text \<open>The box-drawing characters in UTF-8.\<close>

definition box_tee :: string where
  "box_tee = [CHR 0xE2, CHR 0x94, CHR 0x9C, CHR 0xE2, CHR 0x94, CHR 0x80, CHR 0xE2, CHR 0x94, CHR 0x80, CHR '' '']"

definition box_corner :: string where
  "box_corner = [CHR 0xE2, CHR 0x94, CHR 0x94, CHR 0xE2, CHR 0x94, CHR 0x80, CHR 0xE2, CHR 0x94, CHR 0x80, CHR '' '']"

definition box_bar :: string where
  "box_bar = [CHR 0xE2, CHR 0x94, CHR 0x82, CHR '' '', CHR '' '', CHR '' '']"

text \<open>
  The first argument is fuel: the depth to which directories are followed.  Every directory on the way is a node of the tree, so
  the number of nodes is enough.
\<close>

fun printDirTree :: "nat \<Rightarrow> faults \<Rightarrow> file_sys \<Rightarrow> string \<Rightarrow> string \<Rightarrow> string list" where
  "printDirTree 0 F fs p pre = []"
| "printDirTree (Suc n) F fs p pre =
     (case os_ReadDir F p fs of
        Inl _ \<Rightarrow> []
      | Inr found \<Rightarrow>
          concat (map (\<lambda>(i, name, nd).
            let isLast = (i = length found - 1);
                connector = (if isLast then box_corner else box_tee)
            in (pre @ connector @ name) #
               (if nd = DirNode then printDirTree n F fs (Join p name) (pre @ (if isLast then ''    '' else box_bar)) else []))
            (enumerate 0 found)))"

text \<open>\<open>os.RemoveAll\<close>: the directory and everything in it.\<close>

definition below :: "path \<Rightarrow> path \<Rightarrow> bool" where
  "below d q \<longleftrightarrow> fst q = fst d \<and> take (length (snd d)) (snd q) = snd d"

definition os_RemoveAll :: "string \<Rightarrow> file_sys \<Rightarrow> file_sys" where
  "os_RemoveAll p fs = filter (\<lambda>(q, n). \<not> below (resolve p) q) fs"

definition manual_entity :: string where
  "manual_entity = ''Chat_123''"

definition manual_data :: bytes where
  "manual_data = ''This would be encrypted JSON data in production''"

definition manual_metadata :: "gotime \<Rightarrow> FileMetadata" where
  "manual_metadata now =
     \<lparr>fm_KeyID = ''key-abc-123'', fm_Algorithm = ''AES-GCM'', fm_IV = b64_encode b64_std ''test-nonce-12'', fm_Tag = b64_encode b64_std ''auth-tag-16bytes'',
      fm_SchemaID = ''chat.v1'', fm_Version = 1, fm_WriterID = ''worker-1'', fm_Timestamp = now, fm_Schema = ''chatdb'', fm_EntityKey = manual_entity\<rparr>"

text \<open>\<open>log.Fatal\<close> ends the program at once, without the deferred removal: the result is False.\<close>

definition manual_main ::
    "faults \<Rightarrow> meta_codec \<Rightarrow> string \<Rightarrow> gotime \<Rightarrow> bytes \<Rightarrow> lock_sys \<Rightarrow> lock_sys \<times> check_line list \<times> bool" where
  "manual_main F J tmp now schemaData w =
     (let tempDir = Join tmp ''deltadatabase_manual_test''; eid = manual_entity in
      case NewStorage F tempDir (ls_tree w) of
        (fs1, Inl e) \<Rightarrow> (w\<lparr>ls_tree := fs1\<rparr>, [], False)
      | (fs1, Inr s) \<Rightarrow>
          let out1 = [Directories (GetFilesDir s) (GetTemplatesDir s)] in
          case WriteFile J s F eid manual_data (manual_metadata now) fs1 of
            (fs2, Some e) \<Rightarrow> (w\<lparr>ls_tree := fs2\<rparr>, out1, False)
          | (fs2, None) \<Rightarrow>
              let blobPath = GetBlobPath s eid; metaPath = GetMetaPath s eid;
                  out2 = out1 @ [PathExists blobPath (fileExists F blobPath fs2), PathExists metaPath (fileExists F metaPath fs2)]
              in case fs_ReadFile J s F fs2 eid of
                   Inl e \<Rightarrow> (w\<lparr>ls_tree := fs2\<rparr>, out2, False)
                 | Inr d \<Rightarrow>
                     let out3 = out2 @ [ReadBack (length (fd_Blob d)) (fm_SchemaID (fd_Metadata d)) (fm_Version (fd_Metadata d)) (fm_WriterID (fd_Metadata d))]
                     in case AcquireLock F (NewLockManager s) eid LockExclusive (w\<lparr>ls_tree := fs2\<rparr>) of
                          (w3, Granted lm) \<Rightarrow>
                            let lockPath = blobPath @ ''.lock'';
                                out4 = out3 @ [PathExists lockPath (fileExists F lockPath (ls_tree w3))]
                            in case ReleaseLock F lm eid w3 of
                                 (w4, lm', Some e) \<Rightarrow> (w4, out4, False)
                               | (w4, lm', None) \<Rightarrow>
                                   (case WriteTemplate s F ''chat.v1'' schemaData (ls_tree w4) of
                                      (fs5, Some e) \<Rightarrow> (w4\<lparr>ls_tree := fs5\<rparr>, out4, False)
                                    | (fs5, None) \<Rightarrow>
                                        let templatePath = Join (GetTemplatesDir s) ''chat.v1.json'';
                                            out5 = out4 @ [PathExists templatePath (fileExists F templatePath fs5)]
                                        in case ListFiles s F fs5 of
                                             Inl e \<Rightarrow> (w4\<lparr>ls_tree := fs5\<rparr>, out5, False)
                                           | Inr files \<Rightarrow>
                                               (w4\<lparr>ls_tree := os_RemoveAll tempDir fs5\<rparr>,
                                                out5 @ [Entities files, DirTree (printDirTree (Suc (length fs5)) F fs5 tempDir [])], True))
                        | (w3, _) \<Rightarrow> (w3, out3, False))"

section \<open>In a fresh directory\<close>

definition fresh_dir :: "string \<Rightarrow> file_sys \<Rightarrow> bool" where
  "fresh_dir p fs \<longleftrightarrow> (\<forall>q. below (resolve p) q \<longrightarrow> node_at fs q = None) \<and>
     (\<forall>i \<le> length (snd (resolve p)). \<forall>b. node_at fs (fst (resolve p), take i (snd (resolve p))) \<noteq> Some (FileNode b))"

lemma fresh_storage:
  assumes new: "NewStorage no_faults p fs = (fs1, Inr s)" and fresh: "fresh_dir p fs"
  shows "local_rel J s empty_store fs1" "st_basePath s = p"
proof -
  from new obtain g1 g2 where b: "p \<noteq> []" and s: "s = \<lparr>st_basePath = p\<rparr>" and m: "os_MkdirAll no_faults p fs = (g1, None)"
    "os_MkdirAll no_faults (GetFilesDir s) g1 = (g2, None)" "os_MkdirAll no_faults (GetTemplatesDir s) g2 = (fs1, None)"
    by (rule NewStorage_cases)
  from b s have r: "resolve (GetFilesDir s) = files_at s" "resolve (GetTemplatesDir s) = templates_at s" by (simp_all add: resolve_dirs)
  have d: "is_dir fs1 (files_at s)" "is_dir fs1 (templates_at s)"
    using os_MkdirAll_is_dir [OF m(2)] os_MkdirAll_keeps [of g2 "files_at s" no_faults "GetTemplatesDir s"] os_MkdirAll_is_dir [OF m(3)] m(3) r by simp_all
  have "plain_dir d fs1 \<and> (\<forall>n. entry d fs1 n = None)" if d: "d = child (resolve p) x" "is_dir fs1 d" "length (snd d) = length (snd (files_at s))" for d x
  proof -
    have at: "node_at fs (child d n) = None" for n using fresh by (simp add: fresh_dir_def below_def d(1) child_def)
    have "node_at fs1 (child d n) = None" for n
      using NewStorage_nodes [OF new, of "child d n"] at [of n] d(3) by (auto simp: child_def)
    moreover have "node_at fs1 (fst d, take i (snd d)) \<noteq> Some (FileNode c)" if i: "i \<le> length (snd d)" for i c
    proof -
      have "node_at fs (fst d, take i (snd d)) \<noteq> Some (FileNode c)"
      proof (cases "i \<le> length (snd (resolve p))")
        case True
        with fresh show ?thesis by (simp add: fresh_dir_def d(1) child_def)
      next
        case False
        with i have "(fst d, take i (snd d)) = d" by (simp add: d(1) child_def)
        moreover have "node_at fs d = None" using fresh by (simp add: fresh_dir_def below_def d(1) child_def)
        ultimately show ?thesis by simp
      qed
      with NewStorage_nodes [OF new, of "(fst d, take i (snd d))"] show ?thesis by auto
    qed
    ultimately show ?thesis using d(2) by (simp add: plain_dir_def entry_def)
  qed
  from this [of "files_at s" "''files''"] this [of "templates_at s" "''templates''"] d b
  show "local_rel J s empty_store fs1" by (simp add: local_rel_def empty_store_def keeps_def storage_inv_def s files_at_def templates_at_def child_def)
  show "st_basePath s = p" by (simp add: s)
qed

text \<open>A lock file is neither a blob nor metadata.\<close>

lemma local_lock_file:
  assumes rel: "local_rel J s a fs" and "isValidEntityID eid"
  shows "local_rel J s a (set_node (child (files_at s) (eid @ ''.json.enc.lock'')) (FileNode []) fs)"
proof -
  let ?q = "child (files_at s) (eid @ ''.json.enc.lock'')"
  let ?fs = "set_node ?q (FileNode []) fs"
  have "x @ ''.json.enc'' \<noteq> eid @ ''.json.enc.lock''" "x @ ''.meta.json'' \<noteq> eid @ ''.json.enc.lock''" for x
    by (auto dest!: arg_cong [of _ _ last])
  then have "entry (files_at s) ?fs (x @ ''.json.enc'') = entry (files_at s) fs (x @ ''.json.enc'')"
    "entry (files_at s) ?fs (x @ ''.meta.json'') = entry (files_at s) fs (x @ ''.meta.json'')" for x
    by (simp_all add: entry_def child_def)
  moreover have "storage_inv s ?fs" using rel by (simp add: local_rel_def storage_inv_def)
  moreover have "\<forall>q. (\<forall>n. q \<noteq> child (files_at s) n) \<longrightarrow> node_at ?fs q = node_at fs q" by simp
  note sibling_untouched [OF siblings_dirs(1) this]
  ultimately show ?thesis using rel by (simp add: local_rel_def)
qed

lemma manual_lock:
  assumes rel: "local_rel J s a (ls_tree w)" and v: "isValidEntityID eid" and tab: "ls_table w = []"
  obtains w' lm n where "AcquireLock no_faults (NewLockManager s) eid LockExclusive w = (w', Granted lm)" "local_rel J s a (ls_tree w')"
    "entry (files_at s) (ls_tree w') (eid @ ''.json.enc.lock'') \<noteq> None"
    "ReleaseLock no_faults lm eid w' = (drop_handle n w', lm\<lparr>lm_locks := (lm_locks lm)(eid := None)\<rparr>, None)"
proof -
  let ?q = "child (files_at s) (eid @ ''.json.enc.lock'')"
  have inv: "storage_inv s (ls_tree w)" using rel by (simp add: local_rel_def)
  note lp = lock_path_entry [OF inv v]
  have pd: "plain_dir (files_at s) (ls_tree w)" and d: "is_dir (ls_tree w) (files_at s)" using inv by (simp_all add: storage_inv_def plain_dir_def)
  define t where "t = (if node_at (ls_tree w) ?q \<noteq> None then ls_tree w else set_node ?q (FileNode []) (ls_tree w))"
  have "os_OpenFile no_faults False (lock_path s eid) (ls_tree w) = (t, None)"
    using lp d is_dir_child [OF pd lp(2)] by (simp add: os_OpenFile_def Let_def t_def)
  then have n: "NewFileLock no_faults (lock_path s eid) w = (w\<lparr>ls_tree := t, ls_next := Suc (ls_next w)\<rparr>,
      Inr \<lparr>fl_file = ls_next w, fl_path = resolve (lock_path s eid), fl_lockType = LockShared, fl_locked = False, fl_closed = False\<rparr>)"
    by (simp add: NewFileLock_def)
  let ?fl = "\<lparr>fl_file = ls_next w, fl_path = resolve (lock_path s eid), fl_lockType = LockExclusive, fl_locked = True, fl_closed = False\<rparr>"
  let ?w = "w\<lparr>ls_tree := t, ls_next := Suc (ls_next w), ls_table := [\<lparr>hl_handle = ls_next w, hl_path = resolve (lock_path s eid), hl_type = LockExclusive\<rparr>]\<rparr>"
  have a: "AcquireLock no_faults (NewLockManager s) eid LockExclusive w = (?w, Granted \<lparr>lm_storage = s, lm_locks = [eid \<mapsto> ?fl]\<rparr>)"
    using n tab by (simp add: AcquireLock_def NewLockManager_def already_locked_def lock_Lock_def platformLock_def flock_def finish_acquire_def)
  have "local_rel J s a t" using rel local_lock_file [OF rel v] by (simp add: t_def)
  moreover have "entry (files_at s) t (eid @ ''.json.enc.lock'') \<noteq> None"
    using pd by (auto simp: t_def entry_def plain_dir_def split: option.splits node.splits)
  moreover have "ReleaseLock no_faults \<lparr>lm_storage = s, lm_locks = [eid \<mapsto> ?fl]\<rparr> eid ?w =
      (drop_handle (fl_file ?fl) ?w, \<lparr>lm_storage = s, lm_locks = [eid \<mapsto> ?fl]\<rparr>\<lparr>lm_locks := [eid \<mapsto> ?fl](eid := None)\<rparr>, None)"
    by (simp add: ReleaseLock_def Close_no_faults)
  ultimately show thesis using that [OF a, of "ls_next w"] by simp
qed

text \<open>
  The check script passes: in a fresh directory, without failing calls and with metadata that survive their encoding, it does
  not end early; it finds the blob, the metadata, the lock file and the template, reads back what it wrote, lists exactly its one
  entity, and leaves nothing of its directory behind.
\<close>

theorem manual_check_passes:
  assumes "NewStorage no_faults (Join tmp ''deltadatabase_manual_test'') (ls_tree w) = (fs1, Inr s)"
    and "fresh_dir (Join tmp ''deltadatabase_manual_test'') (ls_tree w)" and "ls_table w = []" and "codable J (manual_metadata now)"
    and "manual_main no_faults J tmp now schemaData w = (w', out, passed)"
  shows "passed \<and> (\<exists>tree. out = [Directories (GetFilesDir s) (GetTemplatesDir s), PathExists (GetBlobPath s ''Chat_123'') True, PathExists (GetMetaPath s ''Chat_123'') True,
      ReadBack 47 ''chat.v1'' 1 ''worker-1'', PathExists (GetBlobPath s ''Chat_123'' @ ''.lock'') True,
      PathExists (Join (GetTemplatesDir s) ''chat.v1.json'') True, Entities {''Chat_123''}, DirTree tree]) \<and>
    (\<forall>q. below (resolve (Join tmp ''deltadatabase_manual_test'')) q \<longrightarrow> node_at (ls_tree w') q = None)"
proof -
  let ?dir = "Join tmp ''deltadatabase_manual_test''" and ?m = "manual_metadata now" and ?id = "''Chat_123''"
  have vid: "isValidEntityID ?id" "isValidEntityID ''chat.v1''" by code_simp+
  have id: "manual_entity = ?id" by (simp add: manual_entity_def)
  have r1: "local_rel J s empty_store fs1" by (rule fresh_storage(1) [OF assms(1,2)])
  define a2 where "a2 = empty_store\<lparr>as_entities := (as_entities empty_store)(?id \<mapsto> \<lparr>fd_Blob = manual_data, fd_Metadata = ?m\<rparr>)\<rparr>"
  obtain fs2 where w2: "WriteFile J s no_faults ?id manual_data ?m fs1 = (fs2, None)" and r2: "local_rel J s a2 fs2"
    using local_write [OF r1 vid(1) assms(4), of manual_data] unfolding a2_def by (metis prod.collapse)
  have inv2: "storage_inv s fs2" using r2 by (simp add: local_rel_def)
  note obs2 = local_observes [OF r2, unfolded observe_def spec_observe_def local_backend_def]
  have ex2: "FileExists s no_faults fs2 ?id" and rd2: "fs_ReadFile J s no_faults fs2 ?id = Inr \<lparr>fd_Blob = manual_data, fd_Metadata = ?m\<rparr>"
    using obs2 vid(1) by (simp_all add: fun_eq_iff a2_def empty_store_def)
  have stat2: "fileExists no_faults (GetBlobPath s ?id) fs2" "fileExists no_faults (GetMetaPath s ?id) fs2"
    using ex2 vid(1) by (simp_all add: FileExists_def Let_def fileExists_def GetBlobPath_def GetMetaPath_def)
  have tree2: "local_rel J s a2 (ls_tree (w\<lparr>ls_tree := fs2\<rparr>))" "ls_table (w\<lparr>ls_tree := fs2\<rparr>) = []" using r2 assms(3) by simp_all
  obtain w3 lm n where l: "AcquireLock no_faults (NewLockManager s) ?id LockExclusive (w\<lparr>ls_tree := fs2\<rparr>) = (w3, Granted lm)" and r3: "local_rel J s a2 (ls_tree w3)"
    and lk: "entry (files_at s) (ls_tree w3) (?id @ ''.json.enc.lock'') \<noteq> None"
    and u: "ReleaseLock no_faults lm ?id w3 = (drop_handle n w3, lm\<lparr>lm_locks := (lm_locks lm)(?id := None)\<rparr>, None)"
    by (rule manual_lock [OF tree2(1) vid(1) tree2(2)])
  have inv3: "storage_inv s (ls_tree w3)" using r3 by (simp add: local_rel_def)
  have stat3: "fileExists no_faults (GetBlobPath s ?id @ ''.lock'') (ls_tree w3)"
    using Stat_entry [OF storage_inv_dir [OF inv3] lock_path_entry [OF inv3 vid(1)], of no_faults] lk by (simp add: fileExists_def lock_path_def)
  have tree4: "ls_tree (drop_handle n w3) = ls_tree w3" by (simp add: drop_handle_def)
  define a5 where "a5 = a2\<lparr>as_templates := (as_templates a2)(''chat.v1'' \<mapsto> schemaData)\<rparr>"
  have a5: "as_entities a5 = as_entities a2" "as_templates a5 ''chat.v1'' \<noteq> None" by (simp_all add: a5_def)
  obtain fs5 where w5: "WriteTemplate s no_faults ''chat.v1'' schemaData (ls_tree w3) = (fs5, None)" and r5: "local_rel J s a5 fs5"
    using local_template [OF r3 vid(2), of schemaData] unfolding a5_def by (metis prod.collapse)
  have inv5: "storage_inv s fs5" and t5: "plain_dir (templates_at s) fs5" "entry (templates_at s) fs5 (''chat.v1'' @ ''.json'') \<noteq> None"
    using r5 a5(2) by (simp_all add: local_rel_def del: append.simps)
  have stat5: "fileExists no_faults (Join (GetTemplatesDir s) ''chat.v1.json'') fs5"
    using Stat_entry [OF t5(1) template_path [OF inv5 vid(2)], of no_faults] t5(2) by (simp add: fileExists_def)
  have "ListFiles s no_faults fs5 = Inr (dom (as_entities a5))"
    using local_observes [OF r5, unfolded observe_def spec_observe_def local_backend_def] by simp
  then have ls5: "ListFiles s no_faults fs5 = Inr {?id}" by (simp add: a5(1) a2_def empty_store_def)
  have "length manual_data = 47" by code_simp
  then have run: "manual_main no_faults J tmp now schemaData w = ((drop_handle n w3)\<lparr>ls_tree := os_RemoveAll ?dir fs5\<rparr>,
      [Directories (GetFilesDir s) (GetTemplatesDir s), PathExists (GetBlobPath s ?id) True, PathExists (GetMetaPath s ?id) True, ReadBack 47 ''chat.v1'' 1 ''worker-1'',
       PathExists (GetBlobPath s ?id @ ''.lock'') True, PathExists (Join (GetTemplatesDir s) ''chat.v1.json'') True, Entities {?id},
       DirTree (printDirTree (Suc (length fs5)) no_faults fs5 ?dir [])], True)"
    unfolding manual_main_def Let_def id assms(1) prod.case sum.case w2 option.case rd2 l acquired.case u tree4 w5 ls5
    by (simp add: stat2 stat3 stat5 manual_metadata_def)
  have "node_at (os_RemoveAll ?dir fs5) q = None" if "below (resolve ?dir) q" for q
    using that by (auto simp: os_RemoveAll_def map_of_eq_None_iff)
  with run assms(5) show ?thesis by auto
qed

definition manual_codec :: meta_codec where
  "manual_codec = \<lparr>mc_marshal = (\<lambda>m. Some ''{}''), mc_unmarshal = (\<lambda>x. Some (manual_metadata 7))\<rparr>"

theorem manual_check_passes_witness:
  "\<exists>w' out. manual_main no_faults manual_codec ''/tmp'' 7 ''{}'' \<lparr>ls_tree = [], ls_table = [], ls_next = 0\<rparr> = (w', out, True) \<and>
     Entities {''Chat_123''} \<in> set out \<and> node_at (ls_tree w') (True, [''tmp'', ''deltadatabase_manual_test'']) = None"
proof -
  let ?w = "\<lparr>ls_tree = [], ls_table = [], ls_next = 0\<rparr>" and ?dir = "Join ''/tmp'' ''deltadatabase_manual_test''"
  have "case snd (NewStorage no_faults ?dir []) of Inl e \<Rightarrow> False | Inr s \<Rightarrow> True" by code_simp
  then obtain fs1 s where new: "NewStorage no_faults ?dir (ls_tree ?w) = (fs1, Inr s)"
    by (cases "NewStorage no_faults ?dir []") (auto split: sum.splits)
  obtain w' out passed where run: "manual_main no_faults manual_codec ''/tmp'' 7 ''{}'' ?w = (w', out, passed)" by (metis prod_cases3)
  have fresh: "fresh_dir ?dir (ls_tree ?w)" by (simp add: fresh_dir_def)
  have cod: "codable manual_codec (manual_metadata 7)" by (simp add: codable_def manual_codec_def)
  have "below (resolve ?dir) (True, [''tmp'', ''deltadatabase_manual_test''])" by code_simp
  with manual_check_passes [OF new fresh _ cod run] run show ?thesis by auto
qed

end
