(* ===== verification/Spec2Isabelle.thy ===== *)
theory Spec2Isabelle
  imports Cache_Properties Storage_Properties Lock_Properties Worker_Routing Token_Auth Api_Keys
    Schema_Validator Aead_Crypto Proc_Properties Main_Access Main_Properties Cluster S3_Properties Memory_Locks
    Start_Properties Wire_Durable Wire_Cluster Metrics Key_Json Rest_Json Backends Write_Races Windows_Locks
    Manual_Check
begin

text \<open>
  Verification of DeltaDatabase, an encrypted document database written in Go.

  \<^bold>\<open>The program.\<close>  A \<^emph>\<open>Main Worker\<close> (cmd/main-worker) holds the master key, API keys, sessions and the
  registry of workers, serves a REST interface and forwards GETs over gRPC.  \<^emph>\<open>Processing Workers\<close>
  (cmd/proc-worker) subscribe at the Main Worker, receive the master key wrapped with their RSA
  key, and serve GET, PUT and DELETE of entities: they validate a payload against its JSON
  Schema, encrypt it with AES-GCM, answer from an LRU cache, and write blob and metadata files
  to a shared directory in the background, under file locks.

  \<^bold>\<open>The theories\<close>, with the sources under src/ that they model:
  \<^item> Delta_Prelude: Go strings, decimal numbers, 64-bit wrap-around (\<open>i64\<close>), durations, hex; Base64_Text:
    encoding/base64; Hex_Text: encoding/hex; File_Paths: path/filepath; Os_Files: a file tree as an association list with
    the system calls that the code uses, each of which may fail (\<open>faults\<close>).
  \<^item> Lru_Cache, Cache_Properties: pkg/cache/lru.go.  Entries live in a heap because callers share
    them.  The LRU package is the record \<open>lru_ops\<close> with the contract \<open>lru_spec\<close> (a locale),
    interpreted by \<open>list_lru_ops\<close>.  The operations refine a list in order of recency.
  \<^item> Token_Auth: internal/auth/auth.go.  The locale \<open>token_store\<close> is interpreted for session tokens and
    for worker tokens.  Api_Keys: internal/auth/keys.go with its store file.
  \<^item> Worker_Routing: internal/routing/registry.go.
  \<^item> File_Storage, Storage_Properties: pkg/fs/storage.go.  The locales \<open>storage_backend\<close> and
    \<open>storage_origin\<close> are what a client may rely on; \<open>local_fs\<close> and \<open>local_origin\<close> interpret them.
  \<^item> File_Locks, Lock_Properties: pkg/fs/lock.go and lock_unix.go on a model of flock(2); several
    processes are a step relation with all operations of the manager, ReleaseAll included.  Who holds a lock is read from what
    the manager granted, and the invariant \<open>locks_inv\<close> ties that to the system's table.
  \<^item> S3_Storage, S3_Properties: pkg/fs/s3_storage.go.  The minio client is the record \<open>s3_client\<close> with the
    contract \<open>object_store\<close> (a locale), interpreted by \<open>map_client\<close>; under it the backend meets
    \<open>storage_origin\<close>, and \<open>s3_workers\<close> interprets \<open>proc_system\<close> on it.
  \<^item> Memory_Locks: pkg/fs/memory_lock.go, as steps of goroutines on a heap of mutexes.
  \<^item> Windows_Locks: pkg/fs/lock_windows.go.  The methods of lock.go take the calls of the system as an argument there.  On Unix they are those of
    File_Locks; on Windows the file that a name opens is a parameter, and the locks of a handle that is closed
    without unlocking are removed by the system at any later time, which is all that its documentation promises.
  \<^item> Backends, Lock_Backends: the two interfaces of pkg/fs/backend.go as records with all their methods.  The
    locale \<open>backend_refines\<close> relates a storage backend to a specification by two maps and is interpreted for the
    local and the S3 backend; \<open>lock_backend\<close> relates a lock manager to the set of held ids and is interpreted for the
    file locks and the in-memory locks.
  \<^item> Manual_Check: tools/manual_verify_fs.go, a run of storage and locks in a directory of its own.
  \<^item> Aes_Gcm, Aead_Crypto: pkg/crypto.  AES-GCM is defined bit by bit and interprets the locale
    \<open>gcm_cipher\<close>; RSA and the PEM encodings are parameters with the laws \<open>rsa_laws\<close>.
  \<^item> Schema_Validator: pkg/schema/validator.go, with gojsonschema as a parameter.
  \<^item> Rpc_Messages: api/proto/worker.pb.go.  Json_Text, Json_Values: the text of package encoding/json, with
    UTF-8, escapes, a parser and a printer that are inverse to each other.  Json_Messages: the
    messages under their struct tags and the codec of api/proto/codec.go; the locale \<open>wire_message\<close> is
    interpreted for each message.  Rpc_Wire: the stubs of api/proto/worker_grpc.pb.go; the locale
    \<open>rpc_method\<close> joins two messages and is interpreted for both methods.
  \<^item> Time_Text: the calendar of package time and RFC 3339.  Meta_Json: the JSON text of the metadata files.
    Key_Json: the JSON text of the key store.  Json_Prefix: what the parser reads does not depend on what follows.
    Rest_Json: the decoder of the bodies of REST requests, cut off at their limit (\<open>go_json\<close>).
    Wire_Durable, Wire_Cluster: the programs with these encodings in place of parameters.
  \<^item> Metrics: pkg/metrics/metrics.go; the locale \<open>metric_registry\<close> is what is relied on of prometheus,
    interpreted by \<open>names_registry\<close>.
  \<^item> Proc_Worker, Proc_Handshake: cmd/proc-worker/server.go and worker.go.  Proc_System puts any number of
    workers on one store: a step is a request, a promised write, or a restart, with any faults.  Its
    locale \<open>proc_system\<close> extends the contracts of cache, storage and cipher, and
    \<open>local_workers\<close> interprets it on the local file system.  Proc_Properties states what follows.
    Pending_Writes puts a worker on real lock managers, with requests and goroutines one after another, and models the end of
    the program.  Write_Races interleaves the goroutines of the promised writes, one action at a time, with each
    other and with the requests (locale \<open>race_system\<close>, interpreted on the S3 backend with the in-memory locks), and models
    WaitForPendingWrites as the counter of the WaitGroup.
  \<^item> Main_Worker, Main_Rest, Go_Durations: cmd/main-worker/server.go and frontend.go, including the
    request multiplexer and time.ParseDuration.  Main_Sample is a concrete Main Worker.
    Main_Access and Main_Properties hold the properties, Cluster those of both programs together.
  \<^item> Start_Up, Start_Properties: cmd/main-worker/main.go and cmd/proc-worker/main.go, from the parsed flags to
    the server that is about to listen.  S3_Templates: the listings of the object store (locale
    \<open>listed_store\<close>) and the local copy of the templates.

  \<^bold>\<open>Correspondence.\<close>  A struct is a record whose fields carry a prefix and the Go name; a method is a
  definition with the Go name (prefixed where two components share it), which takes the state
  and returns it updated.  An error is a value of a sum type; a nil pointer is None.  Clock readings,
  random bytes, failing calls and the order in which Go visits a map are arguments.  A goroutine
  (the clean-up loops, the background write, the saving of the key store) is an operation that
  may be run at any later time; the background write is also split into its actions (Write_Races).  A mutex held for a whole method makes the
  method one step.  The handler of a request is one step too; a handler that waits for a lock is a step that is taken later.

  \<^bold>\<open>What is shown.\<close>  For single components: the cache refines its specification, is bounded and keeps
  what fits; storage reads the last successful write under any failing calls and stays inside
  its directory; the S3 backend behaves the same; locks exclude each other across processes, on Unix and on Windows, and,
  in memory, across goroutines; tokens and keys are accepted exactly
  as long as they should be; encryption round trips, and decryption opens only what encryption made; validation fails
  closed against a schema that the template had; routing picks the least loaded worker.  For the programs: what any worker ever serves
  was accepted for that entity; accepted writes are read back from the cache, from the disk,
  and through the Main Worker; after waiting for the promised writes the newest version is in the bucket, however the
  goroutines overlapped, and no request
  leaks a lock; the object in the body of a REST request is stored as a whole or refused as a whole; a promised write whose guard can read the
  entity does not take the stored version back; REST requests change or show
  nothing without the needed permission; a session is worth what its login was; the handshake
  delivers the master key, and its retry loop ends exactly when it should; a start takes the given
  master key or ends, and the logged key restores it; calls over the wire are the calls of the
  methods within the limits of message sizes, what a worker accepts it can also return under the same limit, and a
  request that was decoded has metadata that survives its file.  Several properties
  state where the code does not do what its comments say: mixed versions after a failed rename,
  a deadlock between lock managers, a deletion undone by a pending write, an acknowledged update
  that is dropped, a session that outlives its key, a PUT at the Main Worker that is masked,
  an acknowledged update that is dropped because its goroutine meets another one on the file locks, a newer version that is overwritten
  when the read of the guard fails, members of a REST request that do not fit the store, a key file that makes the program panic,
  two holders of one lock after \<open>ReleaseAll\<close>, an entity that a process is locked out of after one failed release,
  acknowledged writes that a shutdown drops, a Main Worker that misses the templates of the bucket,
  and labels of the request counter that no bound holds.

  \<^bold>\<open>Loops and bounds.\<close>  Recursion is structural or has a measure.  The one loop that may run for ever,
  the handshake retries, is a partial function into option, and its property says exactly when it
  returns.  The JSON parser has fuel, twice the length of the text and one, which is always enough
  (lemma \<open>parse_fuel\<close>), and the nesting limit of the package, 10000.  Counters and durations wrap at 64 bits where the code computes with
  them; prometheus counters are integers.

  \<^bold>\<open>Not modelled.\<close>  Observed durations; the parsing of command lines, listeners and the waiting for a
  signal; the transport of package grpc below the codec, of which the size limits, the lookup of a
  method and the reported errors are kept; the web pages.  Parameters remain for JSON Schema, RSA, SHA-256, the minio client, the registry of prometheus and the general
  parser of times that the package time falls back on.
\<close>

end
